(* ===== verification/Smos_Prelude.thy ===== *)
theory Smos_Prelude
  imports Main "HOL-Library.Word"
begin

text \<open>
  The vocabulary every other theory of the development uses: Rust's results and panics as
  values of one datatype, state-passing operations and their sequencing, 64-bit words for
  \<open>u64\<close> bit patterns, natural numbers below \<open>2 ^ 64\<close> for \<open>usize\<close> values with the
  overflow checks of the (debug) build written out, and the constants and rounding functions
  of \<open>crates/smos-common/src/util.rs\<close>, \<open>crates/root_server/src/page.rs\<close>,
  \<open>arith.rs\<close> and \<open>util.rs\<close>.
\<close>

unbundle bit_operations_syntax

section \<open>Named collections\<close>

named_theorems run_simps "equations that execute state-passing operations"
named_theorems protocol_defs "definitions of the message encoders and decoders"
named_theorems const_defs "numeric constants of the source"

section \<open>Results and panics\<close>

text \<open>
  A Rust computation of type \<open>Result<A, E>\<close> returns \<open>Ok\<close> or \<open>Err\<close>, or it panics
  (\<open>unwrap\<close> on \<open>None\<close>, a failed \<open>assert!\<close>, an index out of bounds, an arithmetic
  overflow, \<open>todo!()\<close>, \<open>panic!()\<close>).  The crates are built with
  \<open>panic = abort\<close>, so a panic ends the process.
\<close>

datatype ('e, 'a) outcome = Ok 'a | Err 'e | Panic

primrec obind :: "('e, 'a) outcome \<Rightarrow> ('a \<Rightarrow> ('e, 'b) outcome) \<Rightarrow> ('e, 'b) outcome" where
  "obind (Ok x) f = f x"
| "obind (Err e) f = Err e"
| "obind Panic f = Panic"

primrec map_err :: "('e \<Rightarrow> 'f) \<Rightarrow> ('e, 'a) outcome \<Rightarrow> ('f, 'a) outcome" where
  "map_err f (Ok x) = Ok x"
| "map_err f (Err e) = Err (f e)"
| "map_err f Panic = Panic"

text \<open>\<open>Option::unwrap\<close>, \<open>Option::ok_or\<close>, \<open>assert!\<close>.\<close>

definition unwrap :: "'a option \<Rightarrow> ('e, 'a) outcome" where
  "unwrap x = (case x of None \<Rightarrow> Panic | Some y \<Rightarrow> Ok y)"

definition ok_or :: "'e \<Rightarrow> 'a option \<Rightarrow> ('e, 'a) outcome" where
  "ok_or e x = (case x of None \<Rightarrow> Err e | Some y \<Rightarrow> Ok y)"

definition rust_assert :: "bool \<Rightarrow> ('e, unit) outcome" where
  "rust_assert b = (if b then Ok () else Panic)"

lemma unwrap_simps [simp]: "unwrap None = Panic" "unwrap (Some x) = Ok x"
  by (simp_all add: unwrap_def)

lemma ok_or_simps [simp]: "ok_or e None = Err e" "ok_or e (Some x) = Ok x"
  by (simp_all add: ok_or_def)

lemma rust_assert_simps [simp]: "rust_assert True = Ok ()" "rust_assert False = Panic"
  by (simp_all add: rust_assert_def)

lemma obind_eq_Ok: "obind m f = Ok y \<longleftrightarrow> (\<exists>x. m = Ok x \<and> f x = Ok y)"
  by (cases m) auto

lemma obind_eq_Err: "obind m f = Err e \<longleftrightarrow> m = Err e \<or> (\<exists>x. m = Ok x \<and> f x = Err e)"
  by (cases m) auto

section \<open>State-passing operations\<close>

text \<open>
  An operation threads a state through and returns an outcome.  The state reached when an
  error is returned is kept: what the code wrote before the \<open>?\<close> stays written.
\<close>

type_synonym ('s, 'e, 'a) op = "'s \<Rightarrow> ('e, 'a) outcome \<times> 's"

definition ret :: "'a \<Rightarrow> ('s, 'e, 'a) op" where
  "ret x s = (Ok x, s)"

definition fail :: "'e \<Rightarrow> ('s, 'e, 'a) op" where
  "fail e s = (Err e, s)"

definition panic :: "('s, 'e, 'a) op" where
  "panic s = (Panic, s)"

definition lift :: "('e, 'a) outcome \<Rightarrow> ('s, 'e, 'a) op" where
  "lift m s = (m, s)"

definition bnd :: "('s, 'e, 'a) op \<Rightarrow> ('a \<Rightarrow> ('s, 'e, 'b) op) \<Rightarrow> ('s, 'e, 'b) op" where
  "bnd m f s =
     (case m s of (Ok x, s') \<Rightarrow> f x s' | (Err e, s') \<Rightarrow> (Err e, s') | (Panic, s') \<Rightarrow> (Panic, s'))"

definition gets :: "('s \<Rightarrow> 'a) \<Rightarrow> ('s, 'e, 'a) op" where
  "gets f s = (Ok (f s), s)"

definition modify :: "('s \<Rightarrow> 's) \<Rightarrow> ('s, 'e, unit) op" where
  "modify f s = (Ok (), f s)"

definition guard :: "bool \<Rightarrow> 'e \<Rightarrow> ('s, 'e, unit) op" where
  "guard b e = (if b then ret () else fail e)"

definition ensure :: "bool \<Rightarrow> ('s, 'e, unit) op" where
  "ensure b = (if b then ret () else panic)"

text \<open>\<open>m.map_err(|e| \<dots>)\<close> with a clean-up run on the error path.\<close>

definition on_err :: "('s, 'e, 'a) op \<Rightarrow> ('e \<Rightarrow> ('s, 'f, 'a) op) \<Rightarrow> ('s, 'f, 'a) op" where
  "on_err m h s =
     (case m s of (Ok x, s') \<Rightarrow> (Ok x, s') | (Err e, s') \<Rightarrow> h e s' | (Panic, s') \<Rightarrow> (Panic, s'))"

text \<open>\<open>m.expect(\<dots>)\<close> and \<open>m.unwrap()\<close> on a \<open>Result\<close>.\<close>

definition expect :: "('s, 'e, 'a) op \<Rightarrow> ('s, 'f, 'a) op" where
  "expect m = on_err m (\<lambda>_. panic)"

text \<open>A \<open>Result\<close> kept as a value instead of being returned with \<open>?\<close>.\<close>

definition attempt :: "('s, 'e, 'a) op \<Rightarrow> ('s, 'f, ('e, 'a) outcome) op" where
  "attempt m s = (case m s of (Ok x, t) \<Rightarrow> (Ok (Ok x), t) | (Err e, t) \<Rightarrow> (Ok (Err e), t) | (Panic, t) \<Rightarrow> (Panic, t))"

text \<open>An operation on a part of the state.\<close>

definition on_part :: "('s \<Rightarrow> 'p) \<Rightarrow> (('p \<Rightarrow> 'p) \<Rightarrow> 's \<Rightarrow> 's) \<Rightarrow> ('p, 'e, 'a) op \<Rightarrow> ('s, 'e, 'a) op" where
  "on_part get upd m s = (case m (get s) of (r, p) \<Rightarrow> (r, upd (\<lambda>_. p) s))"

lemma bnd_run [run_simps]:
  "m s = (Ok x, s') \<Longrightarrow> bnd m f s = f x s'"
  "m s = (Err e, s') \<Longrightarrow> bnd m f s = (Err e, s')"
  "m s = (Panic, s') \<Longrightarrow> bnd m f s = (Panic, s')"
  by (simp_all add: bnd_def)

lemma op_run [run_simps]:
  "ret x s = (Ok x, s)"
  "fail e s = (Err e, s)"
  "panic s = (Panic, s)"
  "lift r s = (r, s)"
  "gets g s = (Ok (g s), s)"
  "modify h s = (Ok (), h s)"
  "guard b e s = ((if b then Ok () else Err e), s)"
  "ensure b s = ((if b then Ok () else Panic), s)"
  by (simp_all add: ret_def fail_def panic_def lift_def gets_def modify_def guard_def ensure_def)

lemma bnd_simps [simp]:
  "bnd (ret x) f = f x"
  "bnd (fail e) f = fail e"
  "bnd panic f = panic"
  "bnd (gets g) f s = f (g s) s"
  "bnd (modify h) k s = k () (h s)"
  by (simp_all add: bnd_def ret_def fail_def panic_def gets_def modify_def fun_eq_iff)

lemma bnd_eq_Ok: "bnd m f s = (Ok y, t) \<longleftrightarrow> (\<exists>x s'. m s = (Ok x, s') \<and> f x s' = (Ok y, t))"
  by (auto simp: bnd_def split: prod.splits outcome.splits)

lemma bnd_eq_Err:
  "bnd m f s = (Err e, t) \<longleftrightarrow>
     m s = (Err e, t) \<or> (\<exists>x s'. m s = (Ok x, s') \<and> f x s' = (Err e, t))"
  by (auto simp: bnd_def split: prod.splits outcome.splits)

lemma bnd_assoc: "bnd (bnd m f) g = bnd m (\<lambda>x. bnd (f x) g)"
  by (auto simp: bnd_def fun_eq_iff split: prod.splits outcome.splits)

text \<open>A \<open>for x in xs\<close> loop over an operation.\<close>

fun for_each :: "('a \<Rightarrow> ('s, 'e, unit) op) \<Rightarrow> 'a list \<Rightarrow> ('s, 'e, unit) op" where
  "for_each f [] = ret ()"
| "for_each f (x # xs) = bnd (f x) (\<lambda>_. for_each f xs)"

lemma for_each_cong [fundef_cong]:
  "xs = ys \<Longrightarrow> (\<And>x. x \<in> set ys \<Longrightarrow> f x = g x) \<Longrightarrow> for_each f xs = for_each g ys"
proof (induction ys arbitrary: xs)
  case (Cons y ys)
  then show ?case by (auto intro: Cons.IH)
qed simp

lemma for_each_append: "for_each f (xs @ ys) = bnd (for_each f xs) (\<lambda>_. for_each f ys)"
  by (induction xs) (simp_all add: bnd_assoc)

lemma bnd_ret [simp]: "bnd m ret = m"
  by (auto simp: bnd_def ret_def fun_eq_iff split: prod.splits outcome.splits)

lemma bnd_ret_unit [simp]: "bnd m (\<lambda>_. ret ()) = m"
  by (auto simp: bnd_def ret_def fun_eq_iff split: prod.splits outcome.splits)

section \<open>Triples\<close>

text \<open>
  \<open>triple P m Q E\<close>: from a state with \<open>P\<close>, if \<open>m\<close> returns \<open>x\<close> then \<open>Q x\<close> holds of the state
  reached, and if it fails, \<open>E\<close> does.  A panic ends the process and has no post-state.
\<close>

definition triple :: "('s \<Rightarrow> bool) \<Rightarrow> ('s, 'e, 'a) op \<Rightarrow> ('a \<Rightarrow> 's \<Rightarrow> bool) \<Rightarrow> ('s \<Rightarrow> bool) \<Rightarrow> bool" where
  "triple P m Q E \<longleftrightarrow>
     (\<forall>s. P s \<longrightarrow> (case m s of (Ok x, t) \<Rightarrow> Q x t | (Err e, t) \<Rightarrow> E t | (Panic, t) \<Rightarrow> True))"

named_theorems triple_intro "triples of the components' operations"

lemma tripleI:
  assumes "\<And>s x t. P s \<Longrightarrow> m s = (Ok x, t) \<Longrightarrow> Q x t" and "\<And>s e t. P s \<Longrightarrow> m s = (Err e, t) \<Longrightarrow> E t"
  shows "triple P m Q E"
  using assms by (auto simp: triple_def split: prod.splits outcome.splits)

lemma tripleD:
  assumes "triple P m Q E" and "P s"
  shows "m s = (Ok x, t) \<Longrightarrow> Q x t" and "m s = (Err e, t) \<Longrightarrow> E t"
  using assms by (fastforce simp: triple_def)+

lemma triple_bnd:
  assumes "triple P m R E" and "\<And>x. triple (R x) (f x) Q E"
  shows "triple P (bnd m f) Q E"
  using assms by (fastforce simp: triple_def bnd_def split: prod.splits outcome.splits)

lemma triple_on_err:
  assumes "triple P m Q E'" and "\<And>e. triple E' (h e) Q E"
  shows "triple P (on_err m h) Q E"
  using assms by (fastforce simp: triple_def on_err_def split: prod.splits outcome.splits)

lemma triple_attempt: "triple P m Q E \<Longrightarrow>
    triple P (attempt m) (\<lambda>r s. case r of Ok x \<Rightarrow> Q x s | Err e \<Rightarrow> E s | Panic \<Rightarrow> False) E'"
  by (fastforce simp: triple_def attempt_def split: prod.splits outcome.splits)

lemma triple_weaken:
  assumes "triple P m Q E" and "\<And>s. P' s \<Longrightarrow> P s" and "\<And>x s. Q x s \<Longrightarrow> Q' x s" and "\<And>s. E s \<Longrightarrow> E' s"
  shows "triple P' m Q' E'"
  using assms by (fastforce simp: triple_def split: prod.splits outcome.splits)

lemma triple_conj:
  "triple P m Q E \<Longrightarrow> triple P' m Q' E' \<Longrightarrow>
    triple (\<lambda>s. P s \<and> P' s) m (\<lambda>x s. Q x s \<and> Q' x s) (\<lambda>s. E s \<and> E' s)"
  by (fastforce simp: triple_def split: prod.splits outcome.splits)

lemma triple_if:
  "(b \<Longrightarrow> triple P m Q E) \<Longrightarrow> (\<not> b \<Longrightarrow> triple P m' Q E) \<Longrightarrow> triple P (if b then m else m') Q E"
  by simp

lemma triple_ret: "(\<And>s. P s \<Longrightarrow> Q x s) \<Longrightarrow> triple P (ret x) Q E"
  by (simp add: triple_def ret_def)

lemma triple_fail: "(\<And>s. P s \<Longrightarrow> E s) \<Longrightarrow> triple P (fail e) Q E"
  by (simp add: triple_def fail_def)

lemma triple_panic: "triple P panic Q E"
  by (simp add: triple_def panic_def)

lemma triple_panics:
  assumes "\<And>s. P s \<Longrightarrow> fst (m s) = Panic"
  shows "triple P m Q E"
  by (rule tripleI) (use assms in \<open>fastforce\<close>)+

lemma triple_gets: "(\<And>s. P s \<Longrightarrow> Q (f s) s) \<Longrightarrow> triple P (gets f) Q E"
  by (simp add: triple_def gets_def)

lemma triple_modify: "(\<And>s. P s \<Longrightarrow> Q () (f s)) \<Longrightarrow> triple P (modify f) Q E"
  by (simp add: triple_def modify_def)

lemma triple_guard: "(\<And>s. P s \<Longrightarrow> b \<Longrightarrow> Q () s) \<Longrightarrow> (\<And>s. P s \<Longrightarrow> \<not> b \<Longrightarrow> E s) \<Longrightarrow> triple P (guard b e) Q E"
  by (simp add: triple_def guard_def ret_def fail_def)

lemma triple_ensure: "(\<And>s. P s \<Longrightarrow> b \<Longrightarrow> Q () s) \<Longrightarrow> triple P (ensure b) Q E"
  by (simp add: triple_def ensure_def ret_def panic_def)

lemma triple_for_each:
  assumes "\<And>x. x \<in> set xs \<Longrightarrow> triple P (f x) (\<lambda>_. P) E"
  shows "triple P (for_each f xs) (\<lambda>_. P) E"
  using assms
proof (induction xs)
  case (Cons x xs)
  show ?case unfolding for_each.simps by (rule triple_bnd [where R = "\<lambda>_. P"]) (use Cons in auto)
qed (auto intro: triple_ret)

lemma triple_ex:
  assumes "\<And>c. triple (P c) m Q E"
  shows "triple (\<lambda>s. \<exists>c. P c s) m Q E"
  by (rule tripleI) (elim exE, erule tripleD [OF assms], assumption)+

lemma triple_pure:
  assumes "A \<Longrightarrow> triple P m Q E"
  shows "triple (\<lambda>s. A \<and> P s) m Q E"
  by (rule tripleI) (elim conjE, erule (1) tripleD [OF assms], assumption)+

lemma triple_on_part:
  assumes "triple P m Q E" and "\<And>g s. get (upd g s) = g (get s)"
  shows "triple (\<lambda>s. P (get s)) (on_part get upd m) (\<lambda>x s. Q x (get s)) (\<lambda>s. E (get s))"
  using assms by (fastforce simp: triple_def on_part_def split: prod.splits outcome.splits)

text \<open>An operation on another part of the state keeps what only reads this one.\<close>

lemma triple_other_part:
  "(\<And>g s. P (upd g s) \<longleftrightarrow> P s) \<Longrightarrow> triple P (on_part get upd m) (\<lambda>_. P) P"
  by (simp add: triple_def on_part_def split: prod.splits outcome.splits)

section \<open>Machine integers\<close>

type_synonym u8 = "8 word"
type_synonym u32 = "32 word"
type_synonym u64 = "64 word"

text \<open>A \<open>usize\<close> is a natural number below \<open>usize_lim\<close>; \<open>+\<close>, \<open>-\<close> and \<open>*\<close> panic on
  overflow in the build the repository makes (the dev profile).\<close>

abbreviation usize_lim :: nat where "usize_lim \<equiv> 2 ^ 64"

definition add_us :: "nat \<Rightarrow> nat \<Rightarrow> ('e, nat) outcome" where
  "add_us a b = (if a + b < usize_lim then Ok (a + b) else Panic)"

definition sub_us :: "nat \<Rightarrow> nat \<Rightarrow> ('e, nat) outcome" where
  "sub_us a b = (if b \<le> a then Ok (a - b) else Panic)"

definition mul_us :: "nat \<Rightarrow> nat \<Rightarrow> ('e, nat) outcome" where
  "mul_us a b = (if a * b < usize_lim then Ok (a * b) else Panic)"

lemma add_us_eq_Ok: "add_us a b = Ok c \<longleftrightarrow> c = a + b \<and> a + b < usize_lim"
  by (auto simp: add_us_def)

lemma sub_us_eq_Ok: "sub_us a b = Ok c \<longleftrightarrow> c = a - b \<and> b \<le> a"
  by (auto simp: sub_us_def)

text \<open>\<open>trailing_zeros\<close> of the standard library: the number of low-order zero bits.\<close>

definition trailing_zeros :: "u64 \<Rightarrow> nat" where
  "trailing_zeros w = length (takeWhile (\<lambda>n. \<not> bit w n) [0..<64])"

lemma takeWhile_upt_least:
  assumes "P n" and "n < m" and "\<forall>k<n. \<not> P k"
  shows "takeWhile (\<lambda>k. \<not> P k) [0..<m] = [0..<n]"
proof -
  have "[0..<m] = [0..<n] @ n # [Suc n..<m]"
    using assms(2) by (metis less_imp_add_positive upt_add_eq_append upt_conv_Cons zero_le
        less_add_same_cancel1 add_0)
  then show ?thesis using assms by (simp add: takeWhile_append)
qed

lemma trailing_zeros_bit:
  assumes "w \<noteq> 0"
  shows "trailing_zeros w < 64" "bit w (trailing_zeros w)" "\<forall>k<trailing_zeros w. \<not> bit w k"
proof -
  have "\<exists>n. bit w n" using assms by (metis bit_eqI bit_0_eq bot_apply bot_bool_def)
  define m where "m = (LEAST n. bit w n)"
  have bm: "bit w m" using \<open>\<exists>n. bit w n\<close> unfolding m_def by (rule LeastI_ex)
  have low: "\<forall>k<m. \<not> bit w k" unfolding m_def using not_less_Least by blast
  have "m < 64" using bm by (auto dest: bit_imp_le_length)
  then have "trailing_zeros w = m"
    using takeWhile_upt_least [of "bit w" m 64] bm low by (simp add: trailing_zeros_def)
  then show "trailing_zeros w < 64" "bit w (trailing_zeros w)" "\<forall>k<trailing_zeros w. \<not> bit w k"
    using bm low \<open>m < 64\<close> by auto
qed

lemma trailing_zeros_0 [simp]: "trailing_zeros 0 = 64"
  unfolding trailing_zeros_def by (subst takeWhile_eq_all_conv [THEN iffD2]) auto

lemma bit_word_exp: "bit ((2::u64) ^ k) n \<longleftrightarrow> n = k \<and> k < 64"
  by (auto simp: bit_exp_iff possible_bit_def)

lemma and_exp_bit: "(w::u64) AND 2 ^ k \<noteq> 0 \<longleftrightarrow> bit w k"
proof
  assume "w AND 2 ^ k \<noteq> 0"
  then obtain n where "bit (w AND 2 ^ k) n" by (metis bit_eqI bit_0_eq bot_apply bot_bool_def)
  then show "bit w k" by (auto simp: bit_and_iff bit_word_exp)
next
  assume "bit w k"
  then have "k < 64" by (auto dest: bit_imp_le_length)
  with \<open>bit w k\<close> have "bit (w AND 2 ^ k) k" by (simp add: bit_and_iff bit_word_exp)
  then show "w AND 2 ^ k \<noteq> 0" by auto
qed

section \<open>Constants and rounding\<close>

definition BIT :: "nat \<Rightarrow> nat" where
  "BIT n = 2 ^ n"

definition ROUND_UP :: "nat \<Rightarrow> nat \<Rightarrow> nat" where
  "ROUND_UP n b = (if n = 0 then 0 else push_bit b (drop_bit b (n - 1) + 1))"

definition ROUND_DOWN :: "nat \<Rightarrow> nat \<Rightarrow> nat" where
  "ROUND_DOWN n b = push_bit b (drop_bit b n)"

definition PAGE_BITS_4K :: nat where [const_defs]: "PAGE_BITS_4K = 12"

definition PAGE_SIZE_4K :: nat where [const_defs]: "PAGE_SIZE_4K = BIT PAGE_BITS_4K"

definition BYTES_TO_SIZE_BITS_PAGES :: "nat \<Rightarrow> nat \<Rightarrow> nat" where
  "BYTES_TO_SIZE_BITS_PAGES b size_bits = b div BIT size_bits + (if b mod BIT size_bits > 0 then 1 else 0)"

definition BYTES_TO_4K_PAGES :: "nat \<Rightarrow> nat" where
  "BYTES_TO_4K_PAGES b = BYTES_TO_SIZE_BITS_PAGES b PAGE_BITS_4K"

definition MASK :: "nat \<Rightarrow> nat" where
  "MASK n = BIT n - 1"

lemma PAGE_SIZE_4K_eq: "PAGE_SIZE_4K = 4096"
  by (simp add: const_defs BIT_def)

lemma and_mask: "(n::nat) AND (BIT k - 1) = n mod 2 ^ k"
proof -
  have "BIT k - 1 = mask k" by (simp add: BIT_def mask_eq_exp_minus_1)
  then show ?thesis by (simp only: flip: take_bit_eq_mask take_bit_eq_mod)
qed

lemma shift_right_div: "drop_bit k (n::nat) = n div 2 ^ k"
  by (rule drop_bit_eq_div)

lemma ROUND_DOWN_eq: "ROUND_DOWN n b = n - n mod 2 ^ b"
  by (simp add: ROUND_DOWN_def push_bit_eq_mult drop_bit_eq_div minus_mod_eq_div_mult)

lemma ROUND_DOWN_le: "ROUND_DOWN n b \<le> n"
  by (simp add: ROUND_DOWN_eq)

lemma ROUND_DOWN_dvd: "2 ^ b dvd ROUND_DOWN n b"
  by (simp add: ROUND_DOWN_def push_bit_eq_mult)

lemma ROUND_UP_dvd: "2 ^ b dvd ROUND_UP n b"
  by (simp add: ROUND_UP_def push_bit_eq_mult)

lemma ROUND_UP_ge: "n \<le> ROUND_UP n b"
proof (cases "n = 0")
  case False
  have "n - 1 < 2 ^ b * ((n - 1) div 2 ^ b + 1)"
    by (simp add: dividend_less_times_div)
  with False show ?thesis
    by (simp add: ROUND_UP_def push_bit_eq_mult drop_bit_eq_div mult.commute)
qed (simp add: ROUND_UP_def)

lemma ROUND_UP_less: "0 < n \<Longrightarrow> ROUND_UP n b < n + 2 ^ b"
proof -
  assume "0 < n"
  have "(n - 1) div 2 ^ b * 2 ^ b \<le> n - 1" by (rule div_times_less_eq_dividend)
  with \<open>0 < n\<close> have "(n - 1) div 2 ^ b * 2 ^ b < n" by linarith
  with \<open>0 < n\<close> show ?thesis
    by (simp add: ROUND_UP_def push_bit_eq_mult drop_bit_eq_div)
qed

section \<open>Vectors\<close>

text \<open>\<open>iter().position(..)\<close> and \<open>Vec::swap_remove\<close>.\<close>

definition position :: "nat \<Rightarrow> nat list \<Rightarrow> nat option" where
  "position x xs = List.find (\<lambda>i. xs ! i = x) [0..<length xs]"

definition swap_remove :: "nat \<Rightarrow> 'a list \<Rightarrow> 'a list" where
  "swap_remove i xs = (if i = length xs - 1 then butlast xs else (butlast xs)[i := last xs])"

lemma find_upt_Some: "List.find P [0..<n] = Some i \<Longrightarrow> i < n \<and> P i \<and> (\<forall>j<i. \<not> P j)"
  by (auto simp: find_Some_iff)

lemma position_Some: "position v xs = Some i \<Longrightarrow> i < length xs \<and> xs ! i = v"
  by (auto simp: position_def dest: find_upt_Some)

lemma position_None: "position v xs = None \<longleftrightarrow> v \<notin> set xs"
  by (auto simp: position_def find_None_iff in_set_conv_nth)

lemma swap_remove_removes:
  assumes "distinct xs" and "position v xs = Some i"
  shows "v \<notin> set (swap_remove i xs)"
proof (cases xs rule: rev_cases)
  case (snoc ys z)
  have i: "i < length xs" "xs ! i = v" using position_Some [OF assms(2)] by auto
  show ?thesis
  proof (cases "i = length ys")
    case False
    then have y: "i < length ys" "ys ! i = v" using i snoc by (auto simp: nth_append split: if_splits)
    have "ys[i := z] ! j \<noteq> v" if "j < length ys" for j
      using that y assms(1) snoc by (cases "j = i") (auto simp: nth_eq_iff_index_eq)
    then show ?thesis using False snoc by (auto simp: swap_remove_def in_set_conv_nth)
  qed (use assms(1) i snoc in \<open>auto simp: swap_remove_def\<close>)
qed (use position_Some [OF assms(2)] in simp)

lemma position_last: "v \<notin> set xs \<Longrightarrow> position v (xs @ [v]) = Some (length xs)"
  unfolding position_def find_Some_iff by (intro exI [of _ "length xs"]) (auto simp: nth_append in_set_conv_nth)

lemma swap_remove_last: "swap_remove (length xs) (xs @ [v]) = xs"
  by (simp add: swap_remove_def)

end
