(* ===== verification/Kernel.thy ===== *)
theory Kernel
  imports Smos_Prelude
begin

text \<open>
  The seL4 kernel as the sources see it.  The kernel and its Rust bindings (the \<open>sel4\<close>,
  \<open>sel4-sys\<close> crates) are not part of the repository: every invocation is a field of the
  record \<open>sel4\<close>, a parameter of the definitions that use it, over an unspecified kernel state
  \<open>'k\<close>.  A kernel call returns \<open>None\<close> on success and \<open>Some e\<close> on an error.
  \<open>k_physical_size_bits\<close> is \<open>ObjectBlueprint::physical_size_bits\<close>.
\<close>

text \<open>The errors the sources name, and any other one the kernel may return.\<close>

datatype sel4_error =
    NotEnoughMemory | InvalidArgument | InvalidCapability | IllegalOperation | FailedLookup
  | DeleteFirst | OtherError nat

text \<open>\<open>sel4::ObjectBlueprint\<close>, the kinds the sources retype to.\<close>

datatype blueprint =
    BUntyped nat | BCNode nat | BTcb | BEndpoint | BNotification | BReply | BSchedContext nat
  | BSmallPage | BPT | BVSpace

text \<open>A capability pointer in the root server's CSpace, and an \<open>AbsoluteCPtr\<close>: a path into
  a root CNode with a depth.\<close>

type_synonym cptr = nat

record abs_cptr =
  ac_root :: cptr
  ac_bits :: nat
  ac_depth :: nat

record cap_rights =
  cr_grant_reply :: bool
  cr_grant :: bool
  cr_read :: bool
  cr_write :: bool

definition rights_all :: cap_rights where
  "rights_all = \<lparr>cr_grant_reply = True, cr_grant = True, cr_read = True, cr_write = True\<rparr>"

definition rights_none :: cap_rights where
  "rights_none = \<lparr>cr_grant_reply = False, cr_grant = False, cr_read = False, cr_write = False\<rparr>"

definition rights_write_only :: cap_rights where
  "rights_write_only = rights_none\<lparr>cr_write := True\<rparr>"

type_synonym 'k kcall = "'k \<Rightarrow> sel4_error option \<times> 'k"

record 'k sel4 =
  k_physical_size_bits :: "blueprint \<Rightarrow> nat"
  k_untyped_retype :: "cptr \<Rightarrow> blueprint \<Rightarrow> abs_cptr \<Rightarrow> nat \<Rightarrow> nat \<Rightarrow> 'k kcall"
  k_cnode_delete :: "abs_cptr \<Rightarrow> 'k kcall"
  k_cnode_revoke :: "abs_cptr \<Rightarrow> 'k kcall"
  k_cnode_copy :: "abs_cptr \<Rightarrow> abs_cptr \<Rightarrow> cap_rights \<Rightarrow> 'k kcall"
  k_cnode_mint :: "abs_cptr \<Rightarrow> abs_cptr \<Rightarrow> cap_rights \<Rightarrow> u64 \<Rightarrow> 'k kcall"
  k_frame_map :: "cptr \<Rightarrow> cptr \<Rightarrow> nat \<Rightarrow> cap_rights \<Rightarrow> nat \<Rightarrow> 'k kcall"
  k_pt_map :: "cptr \<Rightarrow> cptr \<Rightarrow> nat \<Rightarrow> 'k kcall"
  k_irq_control_get :: "nat \<Rightarrow> bool \<Rightarrow> cptr \<Rightarrow> 'k kcall"
  k_irq_set_notification :: "cptr \<Rightarrow> cptr \<Rightarrow> 'k kcall"

text \<open>Running a kernel call inside an operation whose state holds the kernel.\<close>

definition kresult :: "sel4_error option \<Rightarrow> (sel4_error, unit) outcome" where
  "kresult r = (case r of None \<Rightarrow> Ok () | Some e \<Rightarrow> Err e)"

lemma kresult_simps [simp]: "kresult None = Ok ()" "kresult (Some e) = Err e"
  by (simp_all add: kresult_def)

lemma kresult_no_panic [simp]: "kresult r \<noteq> Panic" "Panic \<noteq> kresult r"
  by (cases r; simp)+

text \<open>Instances for evaluation: a slot, and a kernel that accepts every call and counts them.\<close>

definition slot_at :: "nat \<Rightarrow> abs_cptr" where
  "slot_at n = \<lparr>ac_root = 1, ac_bits = n, ac_depth = 64\<rparr>"

definition counting_kernel :: "nat sel4" where
  "counting_kernel =
     \<lparr>k_physical_size_bits = (\<lambda>b. case b of BUntyped n \<Rightarrow> n | BCNode n \<Rightarrow> n + 5 | BEndpoint \<Rightarrow> 4 | _ \<Rightarrow> 12),
      k_untyped_retype = (\<lambda>_ _ _ _ _ n. (None, Suc n)),
      k_cnode_delete = (\<lambda>_ n. (None, Suc n)),
      k_cnode_revoke = (\<lambda>_ n. (None, Suc n)),
      k_cnode_copy = (\<lambda>_ _ _ n. (None, Suc n)),
      k_cnode_mint = (\<lambda>_ _ _ _ n. (None, Suc n)),
      k_frame_map = (\<lambda>_ _ _ _ _ n. (None, Suc n)),
      k_pt_map = (\<lambda>_ _ _ n. (None, Suc n)),
      k_irq_control_get = (\<lambda>_ _ _ n. (None, Suc n)),
      k_irq_set_notification = (\<lambda>_ _ n. (None, Suc n))\<rparr>"

end
