(* ===== verification/Protocol.thy ===== *)
theory Protocol
  imports Smos_Prelude Kernel
begin

text \<open>
  The vocabulary of the SMOS message protocol: invocation labels
  (\<open>crates/smos-common/src/invocations.rs\<close>), invocation errors and their labels
  (\<open>error.rs\<close>), which connection supports which invocation (\<open>server_connection.rs\<close>), object
  attributes (\<open>obj_attributes.rs\<close>), the sDDF enums (\<open>sddf.rs\<close>), handles
  (\<open>local_handle.rs\<close>, \<open>crates/smos-server/src/handle_arg.rs\<close>), and seL4 messages: a
  message-info word and the registers and capability slots of an IPC buffer.
\<close>

section \<open>Invocation labels\<close>

datatype SMOSInvocation =
    L_WindowCreate | L_WindowDestroy | L_WindowRegister | L_WindowDeregister |
    L_ObjCreate | L_ObjDestroy | L_ObjOpen | L_ObjClose | L_View | L_Unview | L_ObjStat |
    L_ConnCreate | L_ConnDestroy | L_ConnOpen | L_ConnClose | L_ConnPublish |
    L_ConnUnpublish | L_ConnRegister | L_ConnDeregister | L_TestSimple | L_Authorise |
    L_ProcSpawn | L_ProcWait | L_ProcExit | L_ProcDestroy | L_ProcCreateComplete |
    L_ReplyCreate | L_ReplyDestroy | L_ServerHandleCapCreate | L_ServerHandleCapDestroy |
    L_DirOpen | L_DirClose | L_DirRead | L_PageMap | L_PageUnmap | L_LoadComplete |
    L_IRQRegister | L_sDDFChannelRegisterBidirectional | L_sDDFChannelRegisterReceiveOnly |
    L_sDDFQueueRegister | L_sDDFGetDataRegion | L_sDDFProvideDataRegion |
    L_ServerCreateChannel | L_ChannelOpen

text \<open>The variants in the order of their discriminants, which start at 0.\<close>

definition SMOSInvocations :: "SMOSInvocation list" where
  "SMOSInvocations =
   [
    L_WindowCreate, L_WindowDestroy, L_WindowRegister, L_WindowDeregister, L_ObjCreate,
    L_ObjDestroy, L_ObjOpen, L_ObjClose, L_View, L_Unview, L_ObjStat, L_ConnCreate,
    L_ConnDestroy, L_ConnOpen, L_ConnClose, L_ConnPublish, L_ConnUnpublish, L_ConnRegister,
    L_ConnDeregister, L_TestSimple, L_Authorise, L_ProcSpawn, L_ProcWait, L_ProcExit,
    L_ProcDestroy, L_ProcCreateComplete, L_ReplyCreate, L_ReplyDestroy,
    L_ServerHandleCapCreate, L_ServerHandleCapDestroy, L_DirOpen, L_DirClose, L_DirRead,
    L_PageMap, L_PageUnmap, L_LoadComplete, L_IRQRegister,
    L_sDDFChannelRegisterBidirectional, L_sDDFChannelRegisterReceiveOnly,
    L_sDDFQueueRegister, L_sDDFGetDataRegion, L_sDDFProvideDataRegion,
    L_ServerCreateChannel, L_ChannelOpen]"

primrec invocation_label :: "SMOSInvocation \<Rightarrow> u64" where
  "invocation_label L_WindowCreate = 0"
| "invocation_label L_WindowDestroy = 1"
| "invocation_label L_WindowRegister = 2"
| "invocation_label L_WindowDeregister = 3"
| "invocation_label L_ObjCreate = 4"
| "invocation_label L_ObjDestroy = 5"
| "invocation_label L_ObjOpen = 6"
| "invocation_label L_ObjClose = 7"
| "invocation_label L_View = 8"
| "invocation_label L_Unview = 9"
| "invocation_label L_ObjStat = 10"
| "invocation_label L_ConnCreate = 11"
| "invocation_label L_ConnDestroy = 12"
| "invocation_label L_ConnOpen = 13"
| "invocation_label L_ConnClose = 14"
| "invocation_label L_ConnPublish = 15"
| "invocation_label L_ConnUnpublish = 16"
| "invocation_label L_ConnRegister = 17"
| "invocation_label L_ConnDeregister = 18"
| "invocation_label L_TestSimple = 19"
| "invocation_label L_Authorise = 20"
| "invocation_label L_ProcSpawn = 21"
| "invocation_label L_ProcWait = 22"
| "invocation_label L_ProcExit = 23"
| "invocation_label L_ProcDestroy = 24"
| "invocation_label L_ProcCreateComplete = 25"
| "invocation_label L_ReplyCreate = 26"
| "invocation_label L_ReplyDestroy = 27"
| "invocation_label L_ServerHandleCapCreate = 28"
| "invocation_label L_ServerHandleCapDestroy = 29"
| "invocation_label L_DirOpen = 30"
| "invocation_label L_DirClose = 31"
| "invocation_label L_DirRead = 32"
| "invocation_label L_PageMap = 33"
| "invocation_label L_PageUnmap = 34"
| "invocation_label L_LoadComplete = 35"
| "invocation_label L_IRQRegister = 36"
| "invocation_label L_sDDFChannelRegisterBidirectional = 37"
| "invocation_label L_sDDFChannelRegisterReceiveOnly = 38"
| "invocation_label L_sDDFQueueRegister = 39"
| "invocation_label L_sDDFGetDataRegion = 40"
| "invocation_label L_sDDFProvideDataRegion = 41"
| "invocation_label L_ServerCreateChannel = 42"
| "invocation_label L_ChannelOpen = 43"

text \<open>\<open>SMOSInvocation::try_from\<close>, generated by \<open>num_enum\<close>'s \<open>TryFromPrimitive\<close>.\<close>

definition invocation_try_from :: "u64 \<Rightarrow> SMOSInvocation option" where
  "invocation_try_from w =
     (if unat w < length SMOSInvocations then Some (SMOSInvocations ! unat w) else None)"

lemma invocation_roundtrip [simp]: "invocation_try_from (invocation_label l) = Some l"
  by (cases l) (simp_all add: invocation_try_from_def SMOSInvocations_def)

lemma invocation_try_from_label:
  assumes "invocation_try_from w = Some l"
  shows "w = invocation_label l"
proof -
  have "\<forall>n < length SMOSInvocations. invocation_label (SMOSInvocations ! n) = of_nat n"
    by (simp add: SMOSInvocations_def All_less_Suc numeral_nat)
  then show ?thesis using assms by (auto simp: invocation_try_from_def split: if_splits)
qed

fun can_contain_wrapped_cap :: "SMOSInvocation \<Rightarrow> bool" where
  "can_contain_wrapped_cap L_sDDFChannelRegisterBidirectional = True"
| "can_contain_wrapped_cap L_sDDFChannelRegisterReceiveOnly = True"
| "can_contain_wrapped_cap L_sDDFQueueRegister = True"
| "can_contain_wrapped_cap L_sDDFProvideDataRegion = True"
| "can_contain_wrapped_cap L_View = True"
| "can_contain_wrapped_cap L_ConnOpen = True"
| "can_contain_wrapped_cap _ = False"

section \<open>Connections\<close>

text \<open>The three connection types and the invocations each supports.\<close>

datatype connection_kind = RootServerConnection | ObjectServerConnection | sDDFConnection

definition ROOT_SERVER_INVOCATIONS :: "SMOSInvocation list" where
  "ROOT_SERVER_INVOCATIONS =
   [L_ConnCreate, L_ConnDestroy, L_ConnPublish, L_ConnRegister, L_ConnDeregister, L_TestSimple,
    L_WindowCreate, L_WindowDestroy, L_WindowRegister, L_WindowDeregister, L_ReplyCreate,
    L_ServerHandleCapCreate, L_ProcSpawn, L_ProcWait, L_ProcExit, L_PageMap, L_LoadComplete,
    L_IRQRegister, L_ServerCreateChannel, L_ChannelOpen]"

definition OBJECT_SERVER_INVOCATIONS :: "SMOSInvocation list" where
  "OBJECT_SERVER_INVOCATIONS =
   [L_ObjCreate, L_View, L_Unview, L_ObjOpen, L_ObjClose, L_ObjDestroy, L_ObjStat]"

definition NON_ROOT_SERVER_INVOCATIONS :: "SMOSInvocation list" where
  "NON_ROOT_SERVER_INVOCATIONS = [L_ConnOpen, L_ConnClose]"

definition sDDF_INVOCATIONS :: "SMOSInvocation list" where
  "sDDF_INVOCATIONS =
   [L_sDDFChannelRegisterBidirectional, L_sDDFChannelRegisterReceiveOnly, L_sDDFQueueRegister,
    L_sDDFGetDataRegion, L_sDDFProvideDataRegion]"

fun is_supported :: "connection_kind \<Rightarrow> SMOSInvocation \<Rightarrow> bool" where
  "is_supported RootServerConnection l =
     (l \<in> set ROOT_SERVER_INVOCATIONS \<or> l \<in> set OBJECT_SERVER_INVOCATIONS)"
| "is_supported ObjectServerConnection l =
     (l \<in> set NON_ROOT_SERVER_INVOCATIONS \<or> l \<in> set OBJECT_SERVER_INVOCATIONS)"
| "is_supported sDDFConnection l =
     (l \<in> set NON_ROOT_SERVER_INVOCATIONS \<or> l \<in> set sDDF_INVOCATIONS)"

lemmas supported_defs = ROOT_SERVER_INVOCATIONS_def OBJECT_SERVER_INVOCATIONS_def
  NON_ROOT_SERVER_INVOCATIONS_def sDDF_INVOCATIONS_def

section \<open>Errors\<close>

datatype InvocationErrorLabel =
    EL_NoError | EL_InvalidInvocation | EL_NotEnoughArgs | EL_NotEnoughCaps |
    EL_InvalidType | EL_CSpaceFull | EL_UnsupportedInvocation | EL_OutOfHandles |
    EL_OutOfHandleCaps | EL_AlignmentError | EL_InvalidArguments | EL_InvalidHandle |
    EL_InvalidHandleCapability | EL_DataBufferNotSet | EL_BufferTooLarge |
    EL_InsufficientResources | EL_ServerError

definition InvocationErrorLabels :: "InvocationErrorLabel list" where
  "InvocationErrorLabels =
   [
    EL_NoError, EL_InvalidInvocation, EL_NotEnoughArgs, EL_NotEnoughCaps, EL_InvalidType,
    EL_CSpaceFull, EL_UnsupportedInvocation, EL_OutOfHandles, EL_OutOfHandleCaps,
    EL_AlignmentError, EL_InvalidArguments, EL_InvalidHandle, EL_InvalidHandleCapability,
    EL_DataBufferNotSet, EL_BufferTooLarge, EL_InsufficientResources, EL_ServerError]"

primrec error_label :: "InvocationErrorLabel \<Rightarrow> u64" where
  "error_label EL_NoError = 0"
| "error_label EL_InvalidInvocation = 1"
| "error_label EL_NotEnoughArgs = 2"
| "error_label EL_NotEnoughCaps = 3"
| "error_label EL_InvalidType = 4"
| "error_label EL_CSpaceFull = 5"
| "error_label EL_UnsupportedInvocation = 6"
| "error_label EL_OutOfHandles = 7"
| "error_label EL_OutOfHandleCaps = 8"
| "error_label EL_AlignmentError = 9"
| "error_label EL_InvalidArguments = 10"
| "error_label EL_InvalidHandle = 11"
| "error_label EL_InvalidHandleCapability = 12"
| "error_label EL_DataBufferNotSet = 13"
| "error_label EL_BufferTooLarge = 14"
| "error_label EL_InsufficientResources = 15"
| "error_label EL_ServerError = 16"

definition error_label_try_from :: "u64 \<Rightarrow> InvocationErrorLabel option" where
  "error_label_try_from w =
     (if unat w < length InvocationErrorLabels then Some (InvocationErrorLabels ! unat w) else None)"

lemma error_label_roundtrip [simp]: "error_label_try_from (error_label l) = Some l"
  by (cases l) (simp_all add: error_label_try_from_def InvocationErrorLabels_def)

datatype InvocationError =
    NoError
  | InvalidInvocation
  | NotEnoughArgs (expected: u64) (actual: u64)
  | NotEnoughCaps (expected: u64) (actual: u64)
  | InvalidType (which_arg: u64)
  | CSpaceFull
  | UnsupportedInvocation SMOSInvocation
  | OutOfHandles
  | OutOfHandleCaps
  | AlignmentError (which_arg: u64)
  | InvalidArguments
  | InvalidHandle (which_arg: u64)
  | InvalidHandleCapability (which_arg: u64)
  | DataBufferNotSet
  | BufferTooLarge
  | InsufficientResources
  | ServerError

section \<open>Object attributes and the sDDF enums\<close>

type_synonym ObjAttributes = u64

definition ATTR_DEFAULT :: ObjAttributes where "ATTR_DEFAULT = 0"
definition ATTR_CONTIGUOUS :: ObjAttributes where "ATTR_CONTIGUOUS = 1"
definition ATTR_DEVICE :: ObjAttributes where "ATTR_DEVICE = 2"
definition ATTR_EAGER :: ObjAttributes where "ATTR_EAGER = 4"

definition attr_has :: "ObjAttributes \<Rightarrow> ObjAttributes \<Rightarrow> bool" where
  "attr_has self rhs = (self AND rhs \<noteq> 0)"

datatype QueueType = QT_Active | QT_Free | QT_Request | QT_Response | QT_None

primrec queue_type_label :: "QueueType \<Rightarrow> u64" where
  "queue_type_label QT_Active = 0"
| "queue_type_label QT_Free = 1"
| "queue_type_label QT_Request = 2"
| "queue_type_label QT_Response = 3"
| "queue_type_label QT_None = 4"

definition queue_type_try_from :: "u64 \<Rightarrow> QueueType option" where
  "queue_type_try_from w =
     (if w = 0 then Some QT_Active else if w = 1 then Some QT_Free else if w = 2 then Some QT_Request
      else if w = 3 then Some QT_Response else if w = 4 then Some QT_None else None)"

lemma queue_type_roundtrip [simp]: "queue_type_try_from (queue_type_label q) = Some q"
  by (cases q) (simp_all add: queue_type_try_from_def)

datatype VirtType = VT_Tx | VT_Rx

primrec virt_type_label :: "VirtType \<Rightarrow> u64" where
  "virt_type_label VT_Tx = 0"
| "virt_type_label VT_Rx = 1"

definition virt_type_try_from :: "u64 \<Rightarrow> VirtType option" where
  "virt_type_try_from w = (if w = 0 then Some VT_Tx else if w = 1 then Some VT_Rx else None)"

lemma virt_type_roundtrip [simp]: "virt_type_try_from (virt_type_label v) = Some v"
  by (cases v) (simp_all add: virt_type_try_from_def)

section \<open>Handles\<close>

text \<open>A client holds a local handle (an index) or a handle capability; a server receives a
  handle, the badge of an unwrapped handle capability, or a capability in its receive slot.\<close>

datatype HandleOrHandleCap = Handle u64 | HandleCap abs_cptr

datatype ServerReceivedHandleOrHandleCap =
    ReceivedHandle u64 | UnwrappedHandleCap u64 | WrappedHandleCap abs_cptr

section \<open>Messages\<close>

record msginfo =
  mi_label :: u64
  mi_caps_unwrapped :: u64
  mi_extra_caps :: nat
  mi_length :: nat

text \<open>\<open>MessageInfoBuilder::default().label(l).length(n).extra_caps(c).build()\<close>.\<close>

definition mk_msginfo :: "u64 \<Rightarrow> nat \<Rightarrow> nat \<Rightarrow> msginfo" where
  "mk_msginfo l n c = \<lparr>mi_label = l, mi_caps_unwrapped = 0, mi_extra_caps = c, mi_length = n\<rparr>"

lemma mk_msginfo_sel [simp]:
  "mi_label (mk_msginfo l n c) = l" "mi_length (mk_msginfo l n c) = n"
  "mi_extra_caps (mk_msginfo l n c) = c" "mi_caps_unwrapped (mk_msginfo l n c) = 0"
  by (simp_all add: mk_msginfo_def)

text \<open>The IPC buffer.  Every register index in the sources is a constant below 6 and every
  capability index a constant below 2, so reads and writes are never out of range of the
  kernel's arrays (120 registers, 3 capability slots).\<close>

record ipc_buf =
  msg_regs :: "nat \<Rightarrow> u64"
  caps_or_badges :: "nat \<Rightarrow> u64"
  recv_slot :: abs_cptr

definition set_reg :: "nat \<Rightarrow> u64 \<Rightarrow> ipc_buf \<Rightarrow> ipc_buf" where
  "set_reg i v b = b\<lparr>msg_regs := (msg_regs b)(i := v)\<rparr>"

definition set_cap :: "nat \<Rightarrow> u64 \<Rightarrow> ipc_buf \<Rightarrow> ipc_buf" where
  "set_cap i v b = b\<lparr>caps_or_badges := (caps_or_badges b)(i := v)\<rparr>"

definition set_recv_slot :: "abs_cptr \<Rightarrow> ipc_buf \<Rightarrow> ipc_buf" where
  "set_recv_slot c b = b\<lparr>recv_slot := c\<rparr>"

lemma ipc_buf_sel [simp]:
  "msg_regs (set_reg i v b) = (msg_regs b)(i := v)"
  "msg_regs (set_cap i v b) = msg_regs b"
  "msg_regs (set_recv_slot c b) = msg_regs b"
  "caps_or_badges (set_reg i v b) = caps_or_badges b"
  "caps_or_badges (set_cap i v b) = (caps_or_badges b)(i := v)"
  "caps_or_badges (set_recv_slot c b) = caps_or_badges b"
  "recv_slot (set_reg i v b) = recv_slot b"
  "recv_slot (set_cap i v b) = recv_slot b"
  "recv_slot (set_recv_slot c b) = c"
  by (simp_all add: set_reg_def set_cap_def set_recv_slot_def)

text \<open>
  What the kernel does with a message (seL4 reference manual, \<open>Capability Transfer\<close>): the
  label, the length and the number of capabilities arrive unchanged, as do the first
  \<open>length\<close> registers; a capability to the receiving endpoint is unwrapped, its badge stored in
  the receiver's buffer and its bit set in \<open>capsUnwrapped\<close>; any other capability is left to
  the receive slot.  \<open>unwrap_badge c\<close> is the badge of the sender's capability \<open>c\<close> if it is a
  capability to that endpoint.  Registers past the length keep what the receiver's buffer held.
\<close>

definition delivered ::
  "(u64 \<Rightarrow> u64 option) \<Rightarrow> msginfo \<Rightarrow> ipc_buf \<Rightarrow> msginfo \<Rightarrow> ipc_buf \<Rightarrow> bool" where
  "delivered unwrap_badge mi b mi' b' \<longleftrightarrow>
     mi_label mi' = mi_label mi \<and> mi_length mi' = mi_length mi \<and>
     mi_extra_caps mi' = mi_extra_caps mi \<and>
     (\<forall>i < mi_length mi. msg_regs b' i = msg_regs b i) \<and>
     (\<forall>i < mi_extra_caps mi.
        (case unwrap_badge (caps_or_badges b i) of
           Some badge \<Rightarrow> bit (mi_caps_unwrapped mi') i \<and> caps_or_badges b' i = badge
         | None \<Rightarrow> \<not> bit (mi_caps_unwrapped mi') i)) \<and>
     (\<forall>i. mi_extra_caps mi \<le> i \<longrightarrow> \<not> bit (mi_caps_unwrapped mi') i)"

end
