(* ===== verification/Rust_Str.thy ===== *)
theory Rust_Str
  imports Protocol
begin

text \<open>
  Strings in shared buffers: \<open>crates/smos-common/src/string.rs\<close>.  A Rust \<open>str\<close> is a byte
  list that is valid UTF-8 (\<open>utf8_valid\<close> states the well-formedness table of the Unicode
  standard, which \<open>core::str::from_utf8\<close> checks).  The round trip through a buffer holds for
  strings without an interior NUL.
\<close>

type_synonym rust_str = "u8 list"

definition utf8_cont :: "u8 \<Rightarrow> bool" where
  "utf8_cont b \<longleftrightarrow> 0x80 \<le> b \<and> b \<le> 0xBF"

fun utf8_valid :: "u8 list \<Rightarrow> bool" where
  "utf8_valid [] = True"
| "utf8_valid (b # bs) =
     (if b < 0x80 then utf8_valid bs
      else if 0xC2 \<le> b \<and> b \<le> 0xDF then
        (case bs of c # r \<Rightarrow> utf8_cont c \<and> utf8_valid r | _ \<Rightarrow> False)
      else if 0xE0 \<le> b \<and> b \<le> 0xEF then
        (case bs of c # d # r \<Rightarrow>
            utf8_cont c \<and> utf8_cont d \<and> (b = 0xE0 \<longrightarrow> 0xA0 \<le> c) \<and> (b = 0xED \<longrightarrow> c \<le> 0x9F)
            \<and> utf8_valid r
         | _ \<Rightarrow> False)
      else if 0xF0 \<le> b \<and> b \<le> 0xF4 then
        (case bs of c # d # e # r \<Rightarrow>
            utf8_cont c \<and> utf8_cont d \<and> utf8_cont e \<and> (b = 0xF0 \<longrightarrow> 0x90 \<le> c)
            \<and> (b = 0xF4 \<longrightarrow> c \<le> 0x8F) \<and> utf8_valid r
         | _ \<Rightarrow> False)
      else False)"

text \<open>
  \<open>copy_terminated_rust_string_to_buffer\<close> writes the string and a NUL at the front of the
  buffer and returns the rest as the slice the next string goes to: the pair of the bytes
  written and that rest.
\<close>

definition copy_terminated_rust_string_to_buffer ::
  "u8 list \<Rightarrow> rust_str \<Rightarrow> (InvocationError, u8 list \<times> u8 list) outcome" where
  "copy_terminated_rust_string_to_buffer buffer str =
     (if length str + 1 > length buffer then Err BufferTooLarge
      else Ok (str @ [0], drop (length str + 1) buffer))"

definition rust_str_from_buffer ::
  "u8 list \<Rightarrow> (InvocationError, rust_str \<times> u8 list) outcome" where
  "rust_str_from_buffer buffer =
     (let index = length (takeWhile (\<lambda>x. x \<noteq> 0) buffer) in
      if index = length buffer then Err InvalidArguments
      else if utf8_valid (take index buffer)
           then Ok (take index buffer, drop (index + 1) buffer)
           else Err InvalidArguments)"

text \<open>A \<open>&str\<close> that survives NUL termination.\<close>

definition c_str :: "rust_str \<Rightarrow> bool" where
  "c_str s \<longleftrightarrow> utf8_valid s \<and> 0 \<notin> set s"

lemma rust_str_from_buffer_nul:
  assumes "c_str s"
  shows "rust_str_from_buffer (s @ 0 # rest) = Ok (s, rest)"
proof -
  have "takeWhile (\<lambda>x. x \<noteq> 0) (s @ 0 # rest) = s"
    using assms by (subst takeWhile_append2) (auto simp: c_str_def)
  then show ?thesis using assms by (simp add: rust_str_from_buffer_def c_str_def)
qed

lemma rust_str_from_buffer_no_panic: "rust_str_from_buffer b \<noteq> Panic"
  by (simp add: rust_str_from_buffer_def Let_def)

lemma rust_str_from_buffer_Ok:
  assumes "rust_str_from_buffer b = Ok (s, r)"
  shows "b = s @ 0 # r" "c_str s"
proof -
  define i where "i = length (takeWhile (\<lambda>x. x \<noteq> 0) b)"
  from assms have "i \<noteq> length b" "utf8_valid (take i b)" and s: "s = take i b" "r = drop (i + 1) b"
    by (auto simp: rust_str_from_buffer_def i_def Let_def split: if_splits)
  then have lt: "i < length b" using length_takeWhile_le [of _ b] i_def by (metis le_neq_implies_less)
  then have "b ! i = 0" using nth_length_takeWhile [of "\<lambda>x. x \<noteq> 0" b] i_def by simp
  then show "b = s @ 0 # r" using s lt by (metis Suc_eq_plus1 id_take_nth_drop)
  have "takeWhile (\<lambda>x. x \<noteq> 0) b = s" using s i_def takeWhile_eq_take by metis
  then have "0 \<notin> set s" using set_takeWhileD by fastforce
  then show "c_str s" using \<open>utf8_valid (take i b)\<close> s by (simp add: c_str_def)
qed

text \<open>A sequence of strings, one after the other, as \<open>process_spawn\<close> writes it.\<close>

fun terminated :: "rust_str list \<Rightarrow> u8 list" where
  "terminated [] = []"
| "terminated (s # ss) = s @ 0 # terminated ss"

end
