(* ===== verification/Invocation.thy ===== *)
theory Invocation
  imports Rust_Str
begin

text \<open>
  Decoding an invocation on the server side: \<open>crates/smos-server/src/syscalls.rs\<close>.  One
  record per argument struct, the sum \<open>SMOS_Invocation\<close>, the checks of
  \<open>get_from_ipc_buffer\<close> and the label switch \<open>get_with\<close>, and \<open>contains_cap\<close>, which
  decides whether the receive slot has to be emptied afterwards.  \<open>usize\<close> and \<open>u64\<close> fields are
  64-bit words; capability rights are the word they travel as.
\<close>

section \<open>Argument structs\<close>

record WindowCreate =
  wc_base_vaddr :: u64
  wc_size :: u64
  wc_return_cap :: bool

record WindowDestroy =
  wd_hndl :: ServerReceivedHandleOrHandleCap

record ObjCreate =
  oc_name :: "rust_str option"
  oc_size :: u64
  oc_rights :: u64
  oc_attributes :: ObjAttributes
  oc_return_cap :: bool

record ObjStat =
  os_hndl :: ServerReceivedHandleOrHandleCap

record ObjOpen =
  oo_name :: rust_str
  oo_rights :: u64
  oo_return_cap :: bool

record ObjClose =
  ocl_hndl :: ServerReceivedHandleOrHandleCap

record ObjDestroy =
  od_hndl :: ServerReceivedHandleOrHandleCap

record ConnCreate =
  cc_name :: rust_str

record ConnOpen =
  co_shared_buf_obj :: "(ServerReceivedHandleOrHandleCap \<times> u64) option"

record ConnPublish =
  cp_ntfn_buffer :: u64
  cp_name :: rust_str

record ProcessSpawn =
  ps_exec_name :: rust_str
  ps_fs_name :: rust_str
  ps_prio :: u8
  ps_args :: "rust_str list option"

record ProcessWait =
  pw_hndl :: u64

record ConnRegister =
  cr_publish_hndl :: u64
  cr_client_id :: u64

record ConnDeregister =
  cdr_hndl :: u64

record WindowRegister =
  wr_publish_hndl :: u64
  wr_window_hndl :: u64
  wr_client_id :: u64
  wr_reference :: u64

record WindowDeregister =
  wdr_hndl :: u64

record View =
  vw_window :: ServerReceivedHandleOrHandleCap
  vw_object :: ServerReceivedHandleOrHandleCap
  vw_window_offset :: u64
  vw_obj_offset :: u64
  vw_size :: u64
  vw_rights :: u64

record Unview =
  uv_hndl :: u64

record PageMap =
  pm_window_registration_hndl :: u64
  pm_view_offset :: u64
  pm_content_vaddr :: u64

record ConnDestroy =
  cd_hndl :: u64

record LoadComplete =
  lc_entry_point :: u64
  lc_sp :: u64

record ServerHandleCapCreate =
  sh_publish_hndl :: u64
  sh_ident :: u64

record IRQRegister =
  ir_publish_hndl :: u64
  ir_irq_num :: u64
  ir_edge_triggered :: bool

record sDDFChannelRegisterBidirectional =
  sb_channel_hndl_cap :: abs_cptr
  sb_virt_type :: "VirtType option"

record sDDFChannelRegisterRecvOnly =
  sr_channel_hndl_cap :: abs_cptr

record ChannelOpen =
  cho_hndl_cap :: u64

record sDDFQueueRegister =
  sq_hndl_cap :: abs_cptr
  sq_size :: u64
  sq_queue_type :: QueueType

record sDDFProvideDataRegion =
  sp_hndl_cap :: abs_cptr
  sp_size :: u64

record ServerCreateChannel =
  sc_publish_hndl :: u64

datatype SMOS_Invocation =
    I_WindowCreate WindowCreate
  | I_WindowDestroy WindowDestroy
  | I_ObjCreate ObjCreate
  | I_ObjOpen ObjOpen
  | I_ObjStat ObjStat
  | I_ObjClose ObjClose
  | I_ObjDestroy ObjDestroy
  | I_View View
  | I_Unview Unview
  | I_ConnCreate ConnCreate
  | I_ConnDestroy ConnDestroy
  | I_ConnOpen ConnOpen
  | I_ConnClose
  | I_ConnPublish ConnPublish
  | I_ConnRegister ConnRegister
  | I_ConnDeregister ConnDeregister
  | I_ReplyCreate
  | I_ServerHandleCapCreate ServerHandleCapCreate
  | I_ProcessSpawn ProcessSpawn
  | I_ProcessWait ProcessWait
  | I_ProcessExit
  | I_WindowRegister WindowRegister
  | I_WindowDeregister WindowDeregister
  | I_PageMap PageMap
  | I_LoadComplete LoadComplete
  | I_IRQRegister IRQRegister
  | I_sDDFChannelRegisterBidirectional sDDFChannelRegisterBidirectional
  | I_sDDFChannelRegisterRecvOnly sDDFChannelRegisterRecvOnly
  | I_sDDFQueueRegister sDDFQueueRegister
  | I_sDDFGetDataRegion
  | I_sDDFProvideDataRegion sDDFProvideDataRegion
  | I_ServerCreateChannel ServerCreateChannel
  | I_ChannelOpen ChannelOpen

section \<open>contains\_cap\<close>

definition is_wrapped :: "ServerReceivedHandleOrHandleCap \<Rightarrow> bool" where
  "is_wrapped h = (case h of WrappedHandleCap _ \<Rightarrow> True | _ \<Rightarrow> False)"

fun contains_cap :: "SMOS_Invocation \<Rightarrow> bool" where
  "contains_cap (I_sDDFChannelRegisterBidirectional _) = True"
| "contains_cap (I_sDDFChannelRegisterRecvOnly _) = True"
| "contains_cap (I_sDDFQueueRegister _) = True"
| "contains_cap (I_sDDFProvideDataRegion _) = True"
| "contains_cap (I_View x) = is_wrapped (vw_window x)"
| "contains_cap (I_ConnOpen x) =
     (case co_shared_buf_obj x of None \<Rightarrow> False | Some (h, _) \<Rightarrow> is_wrapped h)"
| "contains_cap _ = False"

section \<open>Decoding\<close>

type_synonym 'a dec = "(InvocationError, 'a) outcome"

text \<open>\<open>WindowDestroy\<close>, \<open>ObjClose\<close> and \<open>ObjDestroy\<close> take a handle or an unwrapped handle
  capability.\<close>

definition decode_hndl :: "msginfo \<Rightarrow> ipc_buf \<Rightarrow> ServerReceivedHandleOrHandleCap dec" where
  "decode_hndl info buf =
     (if mi_extra_caps info = 1 \<and> mi_caps_unwrapped info = 1
      then Ok (UnwrappedHandleCap (caps_or_badges buf 0))
      else if mi_length info = 1 then Ok (ReceivedHandle (msg_regs buf 0))
      else Err InvalidArguments)"

definition decode_obj_stat :: "msginfo \<Rightarrow> ipc_buf \<Rightarrow> ServerReceivedHandleOrHandleCap dec" where
  "decode_obj_stat info buf =
     (if mi_extra_caps info = 1 then
        if mi_caps_unwrapped info \<noteq> 1 then Err InvalidArguments
        else Ok (UnwrappedHandleCap (caps_or_badges buf 0))
      else if mi_length info = 1 then Ok (ReceivedHandle (msg_regs buf 0))
      else Err InvalidArguments)"

text \<open>The two handle arguments of \<open>View\<close>; \<open>u64::MAX\<close> in the register announces a
  capability, and the counter of the capabilities seen so far is threaded through.\<close>

definition decode_view_window ::
  "msginfo \<Rightarrow> ipc_buf \<Rightarrow> abs_cptr \<Rightarrow> (ServerReceivedHandleOrHandleCap \<times> nat) dec" where
  "decode_view_window info buf recv =
     (let window_buf = msg_regs buf 0 in
      if window_buf = -1 then
        if mi_extra_caps info < 1 then Err InvalidArguments
        else if mi_caps_unwrapped info AND 2 ^ 0 \<noteq> 0
        then Ok (UnwrappedHandleCap (caps_or_badges buf 0), 1)
        else Ok (WrappedHandleCap recv, 1)
      else Ok (ReceivedHandle window_buf, 0))"

definition decode_view_object ::
  "msginfo \<Rightarrow> ipc_buf \<Rightarrow> nat \<Rightarrow> ServerReceivedHandleOrHandleCap dec" where
  "decode_view_object info buf cap_arg_counter =
     (let object_buf = msg_regs buf 1 in
      if object_buf = -1 then
        if mi_extra_caps info < cap_arg_counter + 1 then Err InvalidArguments
        else if mi_caps_unwrapped info AND 2 ^ cap_arg_counter \<noteq> 0
        then Ok (UnwrappedHandleCap (caps_or_badges buf cap_arg_counter))
        else Err InvalidArguments
      else Ok (ReceivedHandle object_buf))"

definition decode_conn_open ::
  "msginfo \<Rightarrow> ipc_buf \<Rightarrow> abs_cptr \<Rightarrow> (ServerReceivedHandleOrHandleCap \<times> u64) option" where
  "decode_conn_open info buf recv =
     (if mi_length info = 0 then None
      else if mi_extra_caps info = 1 then
        if mi_caps_unwrapped info AND 1 \<noteq> 0
        then Some (UnwrappedHandleCap (caps_or_badges buf 0), msg_regs buf 1)
        else Some (WrappedHandleCap recv, msg_regs buf 1)
      else Some (ReceivedHandle (msg_regs buf 0), msg_regs buf 1))"

text \<open>The \<open>for _ in 0..f_msg(0)\<close> loop that reads the argument strings.\<close>

fun read_strs :: "nat \<Rightarrow> u8 list \<Rightarrow> (rust_str list \<times> u8 list) dec" where
  "read_strs 0 buf = Ok ([], buf)"
| "read_strs (Suc n) buf =
     obind (rust_str_from_buffer buf) (\<lambda>(arg_tmp, buf_tmp).
     obind (read_strs n buf_tmp) (\<lambda>(args, rest). Ok (arg_tmp # args, rest)))"

definition decode_proc_spawn :: "msginfo \<Rightarrow> ipc_buf \<Rightarrow> u8 list option \<Rightarrow> ProcessSpawn dec" where
  "decode_proc_spawn info buf data_buffer =
     (case data_buffer of
        None \<Rightarrow> Err DataBufferNotSet
      | Some data \<Rightarrow>
          if mi_length info \<noteq> 2 then Err InvalidArguments
          else
            obind (rust_str_from_buffer data) (\<lambda>(exec_name, data1).
            obind (rust_str_from_buffer data1) (\<lambda>(fs_name, data2).
            obind (if msg_regs buf 0 = 0 then Ok None
                   else obind (read_strs (unat (msg_regs buf 0)) data2) (\<lambda>(args, _). Ok (Some args)))
              (\<lambda>args.
            obind (if unat (msg_regs buf 1) < 256 then Ok (ucast (msg_regs buf 1)) else Panic)
              (\<lambda>prio.
            Ok \<lparr>ps_exec_name = exec_name, ps_fs_name = fs_name, ps_prio = prio, ps_args = args\<rparr>)))))"

definition decode_str :: "u8 list option \<Rightarrow> rust_str dec" where
  "decode_str data_buffer =
     (case data_buffer of
        None \<Rightarrow> Err DataBufferNotSet
      | Some data \<Rightarrow> obind (rust_str_from_buffer data) (\<lambda>(name, _). Ok name))"

definition decode_obj_create :: "ipc_buf \<Rightarrow> u8 list option \<Rightarrow> ObjCreate dec" where
  "decode_obj_create buf data_buffer =
     obind (if msg_regs buf 0 \<noteq> 0
            then obind (decode_str data_buffer) (\<lambda>name. Ok (Some name)) else Ok None) (\<lambda>name.
     Ok \<lparr>oc_name = name, oc_size = msg_regs buf 1, oc_rights = msg_regs buf 2,
         oc_attributes = msg_regs buf 3, oc_return_cap = (msg_regs buf 4 \<noteq> 0)\<rparr>)"

definition decode_channel_bidirectional ::
  "msginfo \<Rightarrow> ipc_buf \<Rightarrow> abs_cptr \<Rightarrow> sDDFChannelRegisterBidirectional dec" where
  "decode_channel_bidirectional info buf recv =
     (if mi_length info > 1 \<or> mi_extra_caps info \<noteq> 1 \<or> mi_caps_unwrapped info \<noteq> 0
      then Err InvalidArguments
      else obind (if mi_length info = 1
                  then obind (ok_or InvalidArguments (virt_type_try_from (msg_regs buf 0)))
                         (\<lambda>v. Ok (Some v))
                  else Ok None) (\<lambda>v.
           Ok \<lparr>sb_channel_hndl_cap = recv, sb_virt_type = v\<rparr>))"

definition decode_queue_register ::
  "msginfo \<Rightarrow> ipc_buf \<Rightarrow> abs_cptr \<Rightarrow> sDDFQueueRegister dec" where
  "decode_queue_register info buf recv =
     (if mi_length info \<noteq> 2 \<or> mi_extra_caps info \<noteq> 1 \<or> mi_caps_unwrapped info \<noteq> 0
      then Err InvalidArguments
      else obind (ok_or InvalidArguments (queue_type_try_from (msg_regs buf 1))) (\<lambda>q.
           Ok \<lparr>sq_hndl_cap = recv, sq_size = msg_regs buf 0, sq_queue_type = q\<rparr>))"

text \<open>The length check most invocations start with.\<close>

definition with_length :: "msginfo \<Rightarrow> nat \<Rightarrow> 'a dec \<Rightarrow> 'a dec" where
  "with_length info n r = (if mi_length info \<noteq> n then Err InvalidArguments else r)"

text \<open>The label switch.  \<open>todo!()\<close>, \<open>panic!()\<close> and failed conversions are \<open>Panic\<close>.\<close>

fun get_with ::
  "SMOSInvocation \<Rightarrow> msginfo \<Rightarrow> ipc_buf \<Rightarrow> u8 list option \<Rightarrow> abs_cptr \<Rightarrow> SMOS_Invocation dec" where
  "get_with L_WindowCreate info buf data recv =
     Ok (I_WindowCreate \<lparr>wc_base_vaddr = msg_regs buf 0, wc_size = msg_regs buf 1,
                         wc_return_cap = (msg_regs buf 2 \<noteq> 0)\<rparr>)"
| "get_with L_WindowDestroy info buf data recv =
     obind (decode_hndl info buf) (\<lambda>h. Ok (I_WindowDestroy \<lparr>wd_hndl = h\<rparr>))"
| "get_with L_ObjClose info buf data recv =
     obind (decode_hndl info buf) (\<lambda>h. Ok (I_ObjClose \<lparr>ocl_hndl = h\<rparr>))"
| "get_with L_ObjDestroy info buf data recv =
     obind (decode_hndl info buf) (\<lambda>h. Ok (I_ObjDestroy \<lparr>od_hndl = h\<rparr>))"
| "get_with L_sDDFChannelRegisterBidirectional info buf data recv =
     obind (decode_channel_bidirectional info buf recv)
       (\<lambda>x. Ok (I_sDDFChannelRegisterBidirectional x))"
| "get_with L_sDDFChannelRegisterReceiveOnly info buf data recv =
     (if mi_extra_caps info \<noteq> 1 \<or> mi_caps_unwrapped info \<noteq> 0 then Err InvalidArguments
      else Ok (I_sDDFChannelRegisterRecvOnly \<lparr>sr_channel_hndl_cap = recv\<rparr>))"
| "get_with L_sDDFQueueRegister info buf data recv =
     obind (decode_queue_register info buf recv) (\<lambda>x. Ok (I_sDDFQueueRegister x))"
| "get_with L_sDDFProvideDataRegion info buf data recv =
     (if mi_extra_caps info \<noteq> 1 \<or> mi_caps_unwrapped info \<noteq> 0 then Err InvalidArguments
      else Ok (I_sDDFProvideDataRegion \<lparr>sp_hndl_cap = recv, sp_size = msg_regs buf 0\<rparr>))"
| "get_with L_sDDFGetDataRegion info buf data recv = Ok I_sDDFGetDataRegion"
| "get_with L_WindowRegister info buf data recv =
     (if mi_extra_caps info \<noteq> 1 \<or> mi_caps_unwrapped info \<noteq> 1 \<or> mi_length info \<noteq> 3
      then Err InvalidArguments
      else Ok (I_WindowRegister
        \<lparr>wr_publish_hndl = msg_regs buf 0, wr_window_hndl = caps_or_badges buf 0,
         wr_client_id = msg_regs buf 1, wr_reference = msg_regs buf 2\<rparr>))"
| "get_with L_ServerCreateChannel info buf data recv =
     with_length info 1 (Ok (I_ServerCreateChannel \<lparr>sc_publish_hndl = msg_regs buf 0\<rparr>))"
| "get_with L_ChannelOpen info buf data recv =
     (if mi_extra_caps info \<noteq> 1 \<and> mi_caps_unwrapped info \<noteq> 1 then Err InvalidArguments
      else Ok (I_ChannelOpen \<lparr>cho_hndl_cap = caps_or_badges buf 0\<rparr>))"
| "get_with L_WindowDeregister info buf data recv =
     with_length info 1 (Ok (I_WindowDeregister \<lparr>wdr_hndl = msg_regs buf 0\<rparr>))"
| "get_with L_PageMap info buf data recv =
     with_length info 3 (Ok (I_PageMap
       \<lparr>pm_window_registration_hndl = msg_regs buf 0, pm_view_offset = msg_regs buf 1,
        pm_content_vaddr = msg_regs buf 2\<rparr>))"
| "get_with L_ConnCreate info buf data recv =
     obind (decode_str data) (\<lambda>name. Ok (I_ConnCreate \<lparr>cc_name = name\<rparr>))"
| "get_with L_ConnPublish info buf data recv =
     obind (decode_str data) (\<lambda>name.
       Ok (I_ConnPublish \<lparr>cp_ntfn_buffer = msg_regs buf 0, cp_name = name\<rparr>))"
| "get_with L_ObjCreate info buf data recv =
     obind (decode_obj_create buf data) (\<lambda>x. Ok (I_ObjCreate x))"
| "get_with L_ObjOpen info buf data recv =
     obind (decode_str data) (\<lambda>name.
       Ok (I_ObjOpen \<lparr>oo_name = name, oo_rights = msg_regs buf 0,
                      oo_return_cap = (msg_regs buf 1 \<noteq> 0)\<rparr>))"
| "get_with L_ObjStat info buf data recv =
     obind (decode_obj_stat info buf) (\<lambda>h. Ok (I_ObjStat \<lparr>os_hndl = h\<rparr>))"
| "get_with L_View info buf data recv =
     obind (decode_view_window info buf recv) (\<lambda>(window, cap_arg_counter).
     obind (decode_view_object info buf cap_arg_counter) (\<lambda>object.
     Ok (I_View \<lparr>vw_window = window, vw_object = object, vw_window_offset = msg_regs buf 2,
                 vw_obj_offset = msg_regs buf 3, vw_size = msg_regs buf 4,
                 vw_rights = msg_regs buf 5\<rparr>)))"
| "get_with L_Unview info buf data recv =
     with_length info 1 (Ok (I_Unview \<lparr>uv_hndl = msg_regs buf 0\<rparr>))"
| "get_with L_ConnDestroy info buf data recv =
     with_length info 1 (Ok (I_ConnDestroy \<lparr>cd_hndl = msg_regs buf 0\<rparr>))"
| "get_with L_ConnDeregister info buf data recv =
     with_length info 1 (Ok (I_ConnDeregister \<lparr>cdr_hndl = msg_regs buf 0\<rparr>))"
| "get_with L_LoadComplete info buf data recv =
     with_length info 2 (Ok (I_LoadComplete \<lparr>lc_entry_point = msg_regs buf 0, lc_sp = msg_regs buf 1\<rparr>))"
| "get_with L_ConnOpen info buf data recv =
     Ok (I_ConnOpen \<lparr>co_shared_buf_obj = decode_conn_open info buf recv\<rparr>)"
| "get_with L_ConnClose info buf data recv = Ok I_ConnClose"
| "get_with L_ConnRegister info buf data recv =
     (if mi_length info \<noteq> 2 then Panic
      else Ok (I_ConnRegister \<lparr>cr_publish_hndl = msg_regs buf 0, cr_client_id = msg_regs buf 1\<rparr>))"
| "get_with L_IRQRegister info buf data recv =
     with_length info 3 (Ok (I_IRQRegister
       \<lparr>ir_publish_hndl = msg_regs buf 0, ir_irq_num = msg_regs buf 1,
        ir_edge_triggered = (msg_regs buf 2 \<noteq> 0)\<rparr>))"
| "get_with L_ReplyCreate info buf data recv = Ok I_ReplyCreate"
| "get_with L_ServerHandleCapCreate info buf data recv =
     with_length info 2 (Ok (I_ServerHandleCapCreate
       \<lparr>sh_publish_hndl = msg_regs buf 0, sh_ident = msg_regs buf 1\<rparr>))"
| "get_with L_ProcSpawn info buf data recv =
     obind (decode_proc_spawn info buf data) (\<lambda>x. Ok (I_ProcessSpawn x))"
| "get_with L_ProcWait info buf data recv =
     with_length info 1 (Ok (I_ProcessWait \<lparr>pw_hndl = msg_regs buf 0\<rparr>))"
| "get_with L_ProcExit info buf data recv = Ok I_ProcessExit"
| "get_with L_TestSimple info buf data recv = Panic"
| "get_with _ info buf data recv = Panic"

definition consumed_recv_slot :: "msginfo \<Rightarrow> bool" where
  "consumed_recv_slot info \<longleftrightarrow>
     mi_extra_caps info > 0 \<and>
     mi_caps_unwrapped info AND (2 ^ mi_extra_caps info - 1) \<noteq> 2 ^ mi_extra_caps info - 1"

text \<open>\<open>SMOS_Invocation::new\<close>: the result and whether a capability sits in the receive
  slot.\<close>

definition SMOS_Invocation_new ::
  "connection_kind \<Rightarrow> ipc_buf \<Rightarrow> msginfo \<Rightarrow> u8 list option \<Rightarrow> abs_cptr \<Rightarrow> SMOS_Invocation dec \<times> bool" where
  "SMOS_Invocation_new T buf info data recv =
     (let consumed = consumed_recv_slot info in
      case invocation_try_from (mi_label info) of
        None \<Rightarrow> (Err InvalidInvocation, consumed)
      | Some label \<Rightarrow>
          if \<not> is_supported T label then (Err (UnsupportedInvocation label), consumed)
          else if \<not> can_contain_wrapped_cap label \<and> consumed then (Err InvalidArguments, consumed)
          else (get_with label info buf data recv, consumed))"

section \<open>The receive slot\<close>

lemma bit_low_mask: "0 < e \<Longrightarrow> bit ((2::u64) ^ e - 1) 0"
  by (cases e) (simp_all add: bit_0)

lemma consumedI:
  assumes "0 < mi_extra_caps info" and "\<not> bit (mi_caps_unwrapped info) 0"
  shows "consumed_recv_slot info"
proof -
  have "bit ((2::u64) ^ mi_extra_caps info - 1) 0" by (rule bit_low_mask [OF assms(1)])
  then have "mi_caps_unwrapped info AND (2 ^ mi_extra_caps info - 1) \<noteq> 2 ^ mi_extra_caps info - 1"
    using assms(2) by (metis bit_and_iff)
  then show ?thesis using assms(1) by (simp add: consumed_recv_slot_def)
qed

lemma get_with_contains_cap:
  assumes "get_with l info buf data recv = Ok iv" and "contains_cap iv"
  shows "consumed_recv_slot info"
proof -
  have z: "mi_caps_unwrapped info AND 1 \<noteq> 0 \<longleftrightarrow> bit (mi_caps_unwrapped info) 0"
    using and_exp_bit [of "mi_caps_unwrapped info" 0] by simp
  show ?thesis
    using assms z
    by (cases l)
      (auto simp: obind_eq_Ok with_length_def decode_hndl_def decode_channel_bidirectional_def
        decode_queue_register_def decode_view_window_def decode_conn_open_def is_wrapped_def Let_def
        split: if_splits option.splits ServerReceivedHandleOrHandleCap.splits intro!: consumedI)
qed

section \<open>Panics of the decoder\<close>

lemma obind_eq_Panic: "obind m f = Panic \<longleftrightarrow> m = Panic \<or> (\<exists>x. m = Ok x \<and> f x = Panic)"
  by (cases m) auto

lemma read_strs_no_panic: "read_strs n buf \<noteq> Panic"
  by (induction n arbitrary: buf) (auto simp: obind_eq_Panic rust_str_from_buffer_no_panic)

lemma decode_no_panics:
  "decode_hndl info buf \<noteq> Panic" "decode_obj_stat info buf \<noteq> Panic"
  "decode_view_window info buf recv \<noteq> Panic" "decode_view_object info buf n \<noteq> Panic"
  "decode_str data \<noteq> Panic" "decode_obj_create buf data \<noteq> Panic"
  "decode_channel_bidirectional info buf recv \<noteq> Panic" "decode_queue_register info buf recv \<noteq> Panic"
  by (auto simp: decode_hndl_def decode_obj_stat_def decode_view_window_def decode_view_object_def
      decode_str_def decode_obj_create_def decode_channel_bidirectional_def decode_queue_register_def
      obind_eq_Panic rust_str_from_buffer_no_panic ok_or_def Let_def split: option.splits)

lemma decode_proc_spawn_panic:
  "decode_proc_spawn info buf data = Panic \<Longrightarrow> mi_length info = 2 \<and> 256 \<le> unat (msg_regs buf 1)"
  by (auto simp: decode_proc_spawn_def obind_eq_Panic rust_str_from_buffer_no_panic
      read_strs_no_panic split: option.splits if_splits)

lemma supported_handled:
  assumes "is_supported T l"
  shows "l \<notin> {L_DirOpen, L_DirClose, L_DirRead, L_PageUnmap, L_Authorise, L_ProcDestroy,
    L_ProcCreateComplete, L_ReplyDestroy, L_ServerHandleCapDestroy, L_ConnUnpublish}"
  using assms by (cases T) (auto simp: supported_defs)

lemma decode_no_panic:
  assumes "fst (SMOS_Invocation_new T buf info data recv) = Panic"
  shows "mi_label info = invocation_label L_TestSimple \<or>
    (mi_label info = invocation_label L_ConnRegister \<and> mi_length info \<noteq> 2) \<or>
    (mi_label info = invocation_label L_ProcSpawn \<and> mi_length info = 2 \<and> 256 \<le> unat (msg_regs buf 1))"
proof -
  obtain l where l: "mi_label info = invocation_label l" "is_supported T l"
    and p: "get_with l info buf data recv = Panic"
    using assms by (auto simp: SMOS_Invocation_new_def Let_def split: option.splits if_splits
        dest!: invocation_try_from_label)
  show ?thesis using p l supported_handled [OF l(2)]
    by (cases l)
      (auto simp: obind_eq_Panic decode_no_panics with_length_def dest: decode_proc_spawn_panic
        split: if_splits simp del: is_supported.simps)
qed

end
