(* ===== verification/Reply.thy ===== *)
theory Reply
  imports Invocation
begin

text \<open>
  Answering an invocation: \<open>SMOSReply\<close>, \<open>handle_reply\<close> and \<open>handle_fault_reply\<close>
  (\<open>crates/smos-server/src/reply.rs\<close>), \<open>handle_error\<close> (\<open>crates/smos-server/src/error.rs\<close>)
  and the client's \<open>try_unpack_error\<close> (\<open>crates/smos-common/src/error.rs\<close>).  Capabilities
  travel as the word of their capability pointer.
\<close>

definition cap_word :: "abs_cptr \<Rightarrow> u64" where
  "cap_word c = of_nat (ac_bits c)"

section \<open>Errors\<close>

text \<open>The errors a server may send are written to the message; the others are panics.  Note
  the branch of \<open>InvalidType\<close>, which carries the label of \<open>NotEnoughCaps\<close>.\<close>

fun handle_error :: "ipc_buf \<Rightarrow> InvocationError \<Rightarrow> (unit, msginfo \<times> ipc_buf) outcome" where
  "handle_error b NoError = Panic"
| "handle_error b InvalidInvocation = Ok (mk_msginfo (error_label EL_InvalidInvocation) 0 0, b)"
| "handle_error b (NotEnoughArgs e a) =
     Ok (mk_msginfo (error_label EL_NotEnoughArgs) 2 0, set_reg 1 a (set_reg 0 e b))"
| "handle_error b (NotEnoughCaps e a) =
     Ok (mk_msginfo (error_label EL_NotEnoughCaps) 2 0, set_reg 1 a (set_reg 0 e b))"
| "handle_error b (InvalidType w) =
     Ok (mk_msginfo (error_label EL_NotEnoughCaps) 2 0, set_reg 0 w b)"
| "handle_error b CSpaceFull = Panic"
| "handle_error b (UnsupportedInvocation l) =
     Ok (mk_msginfo (error_label EL_UnsupportedInvocation) 1 0, set_reg 0 (invocation_label l) b)"
| "handle_error b OutOfHandles = Ok (mk_msginfo (error_label EL_OutOfHandles) 0 0, b)"
| "handle_error b OutOfHandleCaps = Ok (mk_msginfo (error_label EL_OutOfHandleCaps) 0 0, b)"
| "handle_error b (AlignmentError w) =
     Ok (mk_msginfo (error_label EL_AlignmentError) 1 0, set_reg 0 w b)"
| "handle_error b InvalidArguments = Ok (mk_msginfo (error_label EL_InvalidArguments) 0 0, b)"
| "handle_error b (InvalidHandle w) =
     Ok (mk_msginfo (error_label EL_InvalidHandle) 1 0, set_reg 0 w b)"
| "handle_error b (InvalidHandleCapability w) =
     Ok (mk_msginfo (error_label EL_InvalidHandleCapability) 1 0, set_reg 0 w b)"
| "handle_error b DataBufferNotSet = Ok (mk_msginfo (error_label EL_DataBufferNotSet) 0 0, b)"
| "handle_error b BufferTooLarge = Ok (mk_msginfo (error_label EL_BufferTooLarge) 0 0, b)"
| "handle_error b InsufficientResources =
     Ok (mk_msginfo (error_label EL_InsufficientResources) 0 0, b)"
| "handle_error b ServerError = Panic"

definition try_unpack_error :: "u64 \<Rightarrow> (nat \<Rightarrow> u64) \<Rightarrow> (InvocationError, unit) outcome" where
  "try_unpack_error label ipc_buf =
     (case error_label_try_from label of
        None \<Rightarrow> Panic
      | Some l \<Rightarrow>
         (case l of
            EL_NoError \<Rightarrow> Ok ()
          | EL_InvalidInvocation \<Rightarrow> Err InvalidInvocation
          | EL_NotEnoughArgs \<Rightarrow> Err (NotEnoughArgs (ipc_buf 0) (ipc_buf 1))
          | EL_NotEnoughCaps \<Rightarrow> Err (NotEnoughCaps (ipc_buf 0) (ipc_buf 1))
          | EL_InvalidType \<Rightarrow> Panic
          | EL_CSpaceFull \<Rightarrow> Err CSpaceFull
          | EL_UnsupportedInvocation \<Rightarrow>
              (case invocation_try_from (ipc_buf 0) of
                 None \<Rightarrow> Panic | Some i \<Rightarrow> Err (UnsupportedInvocation i))
          | EL_OutOfHandles \<Rightarrow> Err OutOfHandles
          | EL_OutOfHandleCaps \<Rightarrow> Err OutOfHandleCaps
          | EL_AlignmentError \<Rightarrow> Err (AlignmentError (ipc_buf 0))
          | EL_InvalidArguments \<Rightarrow> Err InvalidArguments
          | EL_InvalidHandle \<Rightarrow> Err (InvalidHandle (ipc_buf 0))
          | EL_InvalidHandleCapability \<Rightarrow> Err (InvalidHandleCapability (ipc_buf 0))
          | EL_DataBufferNotSet \<Rightarrow> Err DataBufferNotSet
          | EL_BufferTooLarge \<Rightarrow> Err BufferTooLarge
          | EL_InsufficientResources \<Rightarrow> Err InsufficientResources
          | EL_ServerError \<Rightarrow> Err ServerError))"

text \<open>The errors that survive the transport.\<close>

fun transmissible :: "InvocationError \<Rightarrow> bool" where
  "transmissible NoError = False"
| "transmissible CSpaceFull = False"
| "transmissible ServerError = False"
| "transmissible (InvalidType _) = False"
| "transmissible _ = True"

section \<open>Replies\<close>

record ObjStatData =
  st_size :: u64
  st_paddr :: "u64 option"

datatype SMOSReply =
    Re_WindowCreate HandleOrHandleCap
  | Re_WindowDestroy | Re_PageMap | Re_Unview | Re_WindowDeregister | Re_ObjClose | Re_ObjDestroy
  | Re_ConnDestroy | Re_ConnDeregister | Re_LoadComplete | Re_sDDFProvideDataRegion
  | Re_ProcessWait
  | Re_ConnRegister u64
  | Re_WindowRegister u64
  | Re_IRQRegister u64 u64 u8
  | Re_ConnOpen | Re_ConnClose
  | Re_ConnCreate u64 u64
  | Re_ServerHandleCapCreate u64 u64
  | Re_ConnPublish u64 u64
  | Re_ReplyCreate u64 u64
  | Re_View u64
  | Re_ProcessSpawn u64
  | Re_ObjCreate HandleOrHandleCap
  | Re_ObjOpen HandleOrHandleCap
  | Re_ObjStat ObjStatData
  | Re_sDDFChannelRegisterBidirectional abs_cptr
  | Re_sDDFChannelRegisterRecvOnly
  | Re_sDDFGetDataRegion abs_cptr
  | Re_sDDFQueueRegister
  | Re_ServerCreateChannel u8 abs_cptr
  | Re_ChannelOpen u64

definition NoErrorLabel :: u64 where
  "NoErrorLabel = error_label EL_NoError"

fun match_hndl_or_hndl_cap :: "HandleOrHandleCap \<Rightarrow> ipc_buf \<Rightarrow> msginfo \<times> ipc_buf" where
  "match_hndl_or_hndl_cap (Handle idx) b = (mk_msginfo NoErrorLabel 1 0, set_reg 0 idx b)"
| "match_hndl_or_hndl_cap (HandleCap cptr) b =
     (mk_msginfo NoErrorLabel 0 1, set_cap 0 (cap_word cptr) b)"

text \<open>\<open>ProcessWait\<close> is the one reply without a branch: it falls into the catch-all panic.\<close>

fun handle_reply :: "ipc_buf \<Rightarrow> SMOSReply \<Rightarrow> (unit, msginfo \<times> ipc_buf) outcome" where
  "handle_reply b (Re_WindowCreate hndl) = Ok (match_hndl_or_hndl_cap hndl b)"
| "handle_reply b (Re_ObjCreate hndl) = Ok (match_hndl_or_hndl_cap hndl b)"
| "handle_reply b (Re_ObjOpen hndl) = Ok (match_hndl_or_hndl_cap hndl b)"
| "handle_reply b (Re_ConnCreate hndl ep) =
     Ok (mk_msginfo NoErrorLabel 1 1, set_cap 0 ep (set_reg 0 hndl b))"
| "handle_reply b (Re_ServerCreateChannel badge_bit hndl_cap) =
     Ok (mk_msginfo NoErrorLabel 1 1, set_cap 0 (cap_word hndl_cap) (set_reg 0 (ucast badge_bit) b))"
| "handle_reply b (Re_sDDFChannelRegisterBidirectional hndl_cap) =
     Ok (mk_msginfo NoErrorLabel 0 1, set_cap 0 (cap_word hndl_cap) b)"
| "handle_reply b (Re_sDDFGetDataRegion hndl_cap) =
     Ok (mk_msginfo NoErrorLabel 0 1, set_cap 0 (cap_word hndl_cap) b)"
| "handle_reply b (Re_ChannelOpen ntfn) = Ok (mk_msginfo NoErrorLabel 0 1, set_cap 0 ntfn b)"
| "handle_reply b (Re_ServerHandleCapCreate hndl cap) =
     Ok (mk_msginfo NoErrorLabel 1 1, set_cap 0 cap (set_reg 0 hndl b))"
| "handle_reply b (Re_ConnPublish hndl ep) =
     Ok (mk_msginfo NoErrorLabel 1 1, set_cap 0 ep (set_reg 0 hndl b))"
| "handle_reply b (Re_ReplyCreate hndl reply) =
     Ok (mk_msginfo NoErrorLabel 1 1, set_cap 0 reply (set_reg 0 hndl b))"
| "handle_reply b (Re_View hndl) = Ok (mk_msginfo NoErrorLabel 1 0, set_reg 0 hndl b)"
| "handle_reply b (Re_WindowRegister hndl) = Ok (mk_msginfo NoErrorLabel 1 0, set_reg 0 hndl b)"
| "handle_reply b (Re_IRQRegister hndl irq_handler badge_bit) =
     Ok (mk_msginfo NoErrorLabel 2 1,
         set_cap 0 irq_handler (set_reg 1 (ucast badge_bit) (set_reg 0 hndl b)))"
| "handle_reply b (Re_ConnRegister hndl) = Ok (mk_msginfo NoErrorLabel 1 0, set_reg 0 hndl b)"
| "handle_reply b (Re_ProcessSpawn hndl) = Ok (mk_msginfo NoErrorLabel 1 0, set_reg 0 hndl b)"
| "handle_reply b (Re_ObjStat data) =
     Ok (mk_msginfo NoErrorLabel 2 0,
         set_reg 1 (case st_paddr data of Some x \<Rightarrow> x | None \<Rightarrow> 0) (set_reg 0 (st_size data) b))"
| "handle_reply b Re_ProcessWait = Panic"
| "handle_reply b _ = Ok (mk_msginfo NoErrorLabel 0 0, b)"

datatype FaultReply = VMFaultReply bool

fun handle_fault_reply :: "ipc_buf \<Rightarrow> FaultReply \<Rightarrow> msginfo option" where
  "handle_fault_reply b (VMFaultReply resume) =
     (if resume then Some (mk_msginfo NoErrorLabel 0 0) else None)"

section \<open>Lemmas\<close>

lemma label_NoError [simp]: "try_unpack_error NoErrorLabel r = Ok ()"
  by (simp add: try_unpack_error_def NoErrorLabel_def del: error_label.simps)

lemma handle_error_Ok: "transmissible e \<Longrightarrow> \<exists>mi b'. handle_error b e = Ok (mi, b')"
  by (cases e) auto

lemma handle_error_panic: "handle_error b e = Panic \<longleftrightarrow> e \<in> {NoError, CSpaceFull, ServerError}"
  by (cases e) auto

text \<open>What the receiver reads in the registers the sender counted in the length.\<close>

lemma delivered_reg: "delivered ub mi b mi' b' \<Longrightarrow> i < mi_length mi \<Longrightarrow> msg_regs b' i = msg_regs b i"
  by (simp add: delivered_def)

lemma delivered_sel:
  assumes "delivered ub mi b mi' b'"
  shows "mi_label mi' = mi_label mi" "mi_length mi' = mi_length mi"
    "mi_extra_caps mi' = mi_extra_caps mi"
  using assms by (simp_all add: delivered_def)

lemma delivered_none_unwrapped:
  assumes "delivered (\<lambda>_. None) mi b mi' b'"
  shows "mi_caps_unwrapped mi' = 0"
proof (rule bit_eqI)
  fix n
  show "bit (mi_caps_unwrapped mi') n = bit 0 n"
    using assms by (cases "n < mi_extra_caps mi") (auto simp: delivered_def)
qed

lemma error_transport:
  assumes "transmissible e" and "handle_error b e = Ok (mi, b')"
    and "delivered ub mi b' mi' b''"
  shows "try_unpack_error (mi_label mi') (msg_regs b'') = Err e"
  using assms
  by (cases e)
    (auto simp: try_unpack_error_def delivered_sel delivered_reg simp del: error_label.simps)

lemma handle_reply_panic: "handle_reply b r = Panic \<longleftrightarrow> r = Re_ProcessWait"
  by (cases r) auto

end
