(* ===== verification/Bitfield.thy ===== *)
theory Bitfield
  imports Smos_Prelude
begin

text \<open>
  The \<open>bitfield\<close> crate (\<open>crates/bitfield/src/lib.rs\<close>): free-slot bitmaps over arrays of
  \<open>u64\<close>.  The abstract value of a bitmap is the set \<open>bits_of bf\<close> of the indices whose bit is
  set; the operations are shown to be insertion, deletion, membership and the least
  non-member.  The locale \<open>slot_allocator\<close> is the contract the capability-slot allocators
  built on it share; it is interpreted in the theories of its providers.
\<close>

section \<open>The crate\<close>

definition WORD_BITS :: nat where [const_defs]: "WORD_BITS = 64"

definition WORD_INDEX :: "nat \<Rightarrow> nat" where "WORD_INDEX b = b div WORD_BITS"

definition BIT_INDEX :: "nat \<Rightarrow> nat" where "BIT_INDEX b = b mod WORD_BITS"

definition BITFIELD_SIZE :: "nat \<Rightarrow> nat" where "BITFIELD_SIZE x = x div 64"

text \<open>\<open>bitfield_init!(size)\<close>: an array of zero words.\<close>

definition bitfield_init :: "nat \<Rightarrow> u64 list" where
  "bitfield_init n = replicate (BITFIELD_SIZE n) 0"

text \<open>The word updates, and the indexing around them: past the end of the slice it panics.\<close>

definition bf_or_bit :: "u64 list \<Rightarrow> nat \<Rightarrow> u64 list" where
  "bf_or_bit bf idx = bf[WORD_INDEX idx := (bf ! WORD_INDEX idx) OR 2 ^ BIT_INDEX idx]"

definition bf_andnot_bit :: "u64 list \<Rightarrow> nat \<Rightarrow> u64 list" where
  "bf_andnot_bit bf idx = bf[WORD_INDEX idx := (bf ! WORD_INDEX idx) AND NOT (2 ^ BIT_INDEX idx)]"

definition bf_set_bit :: "u64 list \<Rightarrow> nat \<Rightarrow> ('e, u64 list) outcome" where
  "bf_set_bit bf idx = (if WORD_INDEX idx < length bf then Ok (bf_or_bit bf idx) else Panic)"

definition bf_clr_bit :: "u64 list \<Rightarrow> nat \<Rightarrow> ('e, u64 list) outcome" where
  "bf_clr_bit bf idx = (if WORD_INDEX idx < length bf then Ok (bf_andnot_bit bf idx) else Panic)"

definition bf_get_bit :: "u64 list \<Rightarrow> nat \<Rightarrow> ('e, bool) outcome" where
  "bf_get_bit bf idx =
     (if WORD_INDEX idx < length bf
      then Ok ((bf ! WORD_INDEX idx) AND 2 ^ BIT_INDEX idx \<noteq> 0)
      else Panic)"

text \<open>The \<open>while\<close> loop that skips the full words.\<close>

function bf_skip_full :: "u64 list \<Rightarrow> nat \<Rightarrow> nat" where
  "bf_skip_full bf i =
     (if i < length bf \<and> bf ! i = (-1) then bf_skip_full bf (i + 1) else i)"
  by pat_completeness auto
termination
  by (relation "measure (\<lambda>(bf, i). length bf - i)") auto

declare bf_skip_full.simps [simp del]

definition bf_first_free :: "u64 list \<Rightarrow> (unit, nat) outcome" where
  "bf_first_free bf =
     (let i = bf_skip_full bf 0 in
      if i = length bf then Err ()
      else let base = i * WORD_BITS in
        if i < length bf then
          let val = NOT (bf ! i) in
          if val \<noteq> 0 then Ok (base + trailing_zeros val) else Panic
        else Ok base)"

section \<open>The abstract value\<close>

definition bits_of :: "u64 list \<Rightarrow> nat set" where
  "bits_of bf = {idx. idx < 64 * length bf \<and> bit (bf ! (idx div 64)) (idx mod 64)}"

lemma bits_of_bound: "i \<in> bits_of bf \<Longrightarrow> i < 64 * length bf"
  by (simp add: bits_of_def)

lemma div_less_iff: "idx div 64 < n \<longleftrightarrow> idx < 64 * (n::nat)"
  by (simp add: div_less_iff_less_mult mult.commute)

lemma bits_of_init [simp]: "bits_of (bitfield_init n) = {}"
  by (auto simp: bits_of_def bitfield_init_def div_less_iff)

lemma index_split: "(i::nat) = j \<longleftrightarrow> i div 64 = j div 64 \<and> i mod 64 = j mod 64"
  by (metis div_mult_mod_eq)

lemma bf_length [simp]:
  "length (bf_or_bit bf i) = length bf" "length (bf_andnot_bit bf i) = length bf"
  by (simp_all add: bf_or_bit_def bf_andnot_bit_def)

lemma bits_of_or_bit [simp]:
  "idx < 64 * length bf \<Longrightarrow> bits_of (bf_or_bit bf idx) = insert idx (bits_of bf)"
  by (auto simp: bits_of_def bf_or_bit_def WORD_INDEX_def BIT_INDEX_def const_defs nth_list_update
      bit_or_iff bit_word_exp div_less_iff index_split [of _ idx])

lemma bits_of_andnot_bit [simp]:
  "idx < 64 * length bf \<Longrightarrow> bits_of (bf_andnot_bit bf idx) = bits_of bf - {idx}"
  by (auto simp: bits_of_def bf_andnot_bit_def WORD_INDEX_def BIT_INDEX_def const_defs
      nth_list_update bit_and_iff bit_not_iff bit_word_exp div_less_iff index_split [of _ idx]
      possible_bit_def)

lemma bf_in_range [simp]:
  assumes "idx < 64 * length bf"
  shows "bf_set_bit bf idx = Ok (bf_or_bit bf idx)" "bf_clr_bit bf idx = Ok (bf_andnot_bit bf idx)"
  using assms by (simp_all add: bf_set_bit_def bf_clr_bit_def WORD_INDEX_def const_defs div_less_iff)

lemma bf_get_bit_spec:
  assumes "idx < 64 * length bf"
  shows "bf_get_bit bf idx = Ok (idx \<in> bits_of bf)"
  using assms
  by (simp add: bf_get_bit_def bits_of_def WORD_INDEX_def BIT_INDEX_def const_defs div_less_iff
      and_exp_bit)

lemma bf_out_of_range:
  assumes "64 * length bf \<le> idx"
  shows "bf_set_bit bf idx = Panic" "bf_clr_bit bf idx = Panic" "bf_get_bit bf idx = Panic"
  using assms
  by (auto simp: bf_set_bit_def bf_clr_bit_def bf_get_bit_def WORD_INDEX_def const_defs div_less_iff)

section \<open>The search for a free bit\<close>

lemma bf_skip_full_spec:
  assumes "i \<le> length bf"
  shows "i \<le> bf_skip_full bf i \<and> bf_skip_full bf i \<le> length bf
    \<and> (\<forall>j. i \<le> j \<and> j < bf_skip_full bf i \<longrightarrow> bf ! j = (-1))
    \<and> (bf_skip_full bf i < length bf \<longrightarrow> bf ! bf_skip_full bf i \<noteq> (-1))"
  using assms
proof (induction bf i rule: bf_skip_full.induct)
  case (1 bf i)
  show ?case
  proof (cases "i < length bf \<and> bf ! i = (-1)")
    case True
    then have eq: "bf_skip_full bf i = bf_skip_full bf (i + 1)" by (subst bf_skip_full.simps) simp
    have "j = i \<or> i + 1 \<le> j" if "i \<le> j" for j using that by linarith
    then show ?thesis using "1.IH" [OF True] True unfolding eq by auto
  next
    case False
    then have "bf_skip_full bf i = i" by (subst bf_skip_full.simps) (rule if_not_P)
    with False "1.prems" show ?thesis by auto
  qed
qed

lemma max_word_bit: "n < 64 \<Longrightarrow> bit (-1 :: u64) n"
  by simp

lemma bf_first_free_Ok:
  assumes "bf_first_free bf = Ok i"
  shows "i < 64 * length bf" "i \<notin> bits_of bf" "\<forall>j<i. j \<in> bits_of bf"
proof -
  define k where "k = bf_skip_full bf 0"
  note spec = bf_skip_full_spec [of 0 bf, folded k_def, simplified]
  from assms have kl: "k < length bf" and nz: "NOT (bf ! k) \<noteq> 0"
    and i: "i = k * 64 + trailing_zeros (NOT (bf ! k))"
    using spec by (auto simp: bf_first_free_def Let_def const_defs k_def [symmetric] split: if_splits)
  define t where "t = trailing_zeros (NOT (bf ! k))"
  note tz = trailing_zeros_bit [OF nz, folded t_def]
  have dm: "i div 64 = k" "i mod 64 = t" using i tz(1) t_def by auto
  show "i < 64 * length bf" using dm(1) kl div_less_iff by metis
  show "i \<notin> bits_of bf" using tz(2) dm by (simp add: bits_of_def bit_not_iff)
  show "\<forall>j<i. j \<in> bits_of bf"
  proof (intro allI impI)
    fix j assume "j < i"
    then have "j < 64 * length bf" using \<open>i < 64 * length bf\<close> by linarith
    moreover have "bit (bf ! (j div 64)) (j mod 64)"
    proof (cases "j div 64 = k")
      case True
      have "j = k * 64 + j mod 64" using True by (metis div_mult_mod_eq)
      then have "j mod 64 < t" using \<open>j < i\<close> i t_def by linarith
      then have "\<not> bit (NOT (bf ! k)) (j mod 64)" using tz(3) by blast
      then show ?thesis using True by (simp add: bit_not_iff possible_bit_def)
    next
      case False
      have "j div 64 \<le> k" using \<open>j < i\<close> dm(1) div_le_mono [of j i 64] by linarith
      then have "bf ! (j div 64) = (-1)" using False spec by auto
      then show ?thesis by simp
    qed
    ultimately show "j \<in> bits_of bf" by (simp add: bits_of_def)
  qed
qed

lemma bf_first_free_Err:
  assumes "bf_first_free bf = Err e"
  shows "bits_of bf = {..<64 * length bf}"
proof -
  have "bf_skip_full bf 0 = length bf"
    using assms by (auto simp: bf_first_free_def Let_def split: if_splits)
  then have full: "\<forall>j<length bf. bf ! j = (-1)" using bf_skip_full_spec [of 0 bf] by auto
  have "bit (bf ! (j div 64)) (j mod 64)" if "j < 64 * length bf" for j
  proof -
    have "bf ! (j div 64) = (-1)" using full that div_less_iff by blast
    then show ?thesis by simp
  qed
  then show ?thesis by (auto simp: bits_of_def)
qed

lemma bf_first_free_no_panic: "bf_first_free bf \<noteq> Panic"
proof -
  define k where "k = bf_skip_full bf 0"
  note spec = bf_skip_full_spec [of 0 bf, folded k_def, simplified]
  have "NOT (bf ! k) \<noteq> 0" if "k < length bf"
    using spec that by (metis not_eq_complement bit.double_compl bit.compl_zero)
  then show ?thesis by (auto simp: bf_first_free_def Let_def k_def)
qed

lemma bf_first_free_cases:
  obtains (full) "bf_first_free bf = Err ()" "bits_of bf = {..<64 * length bf}"
  | (free) i where "bf_first_free bf = Ok i" "i < 64 * length bf" "i \<notin> bits_of bf"
      "\<forall>j<i. j \<in> bits_of bf"
proof (cases "bf_first_free bf")
  case (Ok i)
  then show ?thesis using bf_first_free_Ok free by blast
next
  case (Err e)
  then show ?thesis using bf_first_free_Err [of bf e] full by simp
next
  case Panic
  then show ?thesis using bf_first_free_no_panic by blast
qed

end
