(* ===== verification/Slot_Allocator.thy ===== *)
theory Slot_Allocator
  imports Bitfield
begin

text \<open>
  The contract of a slot allocator: what the clients of the capability-slot and badge-bit
  allocators rely on, and what they may conclude from it.  Providers (in their own theories):
  \<open>SMOSUserCSpace\<close>, the one-level \<open>UserCSpace\<close>, and the badge bits of \<open>IRQDispatch\<close> and
  \<open>UserNotificationDispatch\<close>.
\<close>

text \<open>Allocating up to \<open>n\<close> times in a row, stopping at the first failure.\<close>

fun alloc_many :: "('s \<Rightarrow> ('e, nat) outcome \<times> 's) \<Rightarrow> nat \<Rightarrow> 's \<Rightarrow> nat list \<times> 's" where
  "alloc_many alloc 0 s = ([], s)"
| "alloc_many alloc (Suc n) s =
     (case alloc s of
        (Ok i, t) \<Rightarrow> (case alloc_many alloc n t of (is, u) \<Rightarrow> (i # is, u))
      | (_, t) \<Rightarrow> ([], t))"

lemma alloc_many_length: "length (fst (alloc_many alloc n s)) \<le> n"
proof (induction n arbitrary: s)
  case (Suc n)
  show ?case
  proof (cases "alloc s")
    case (Pair r t)
    then show ?thesis using Suc [of t] by (cases r) (auto split: prod.splits)
  qed
qed simp

locale slot_allocator =
  fixes alloc :: "'s \<Rightarrow> ('e, nat) outcome \<times> 's"
    and release :: "nat \<Rightarrow> 's \<Rightarrow> ('f, unit) outcome \<times> 's"
    and used :: "'s \<Rightarrow> nat set"
    and slots :: "nat set"
    and releasable :: "nat set"
    and inv :: "'s \<Rightarrow> bool"
  assumes finite_slots: "finite slots"
    and releasable_slots: "releasable \<subseteq> slots"
    and alloc_Ok: "inv s \<Longrightarrow> alloc s = (Ok i, t) \<Longrightarrow>
        i \<in> slots - used s \<and> used t = insert i (used s) \<and> inv t"
    and alloc_first_fit: "inv s \<Longrightarrow> alloc s = (Ok i, t) \<Longrightarrow> j \<in> slots \<Longrightarrow> j < i \<Longrightarrow> j \<in> used s"
    and alloc_fail: "inv s \<Longrightarrow> alloc s = (r, t) \<Longrightarrow> \<forall>i. r \<noteq> Ok i \<Longrightarrow> t = s \<and> slots \<subseteq> used s"
    and release_Ok: "inv s \<Longrightarrow> i \<in> releasable \<Longrightarrow>
        \<exists>t. release i s = (Ok (), t) \<and> used t = used s - {i} \<and> inv t"
begin

lemma alloc_if_free:
  assumes "inv s" and "\<not> slots \<subseteq> used s"
  obtains i t where "alloc s = (Ok i, t)"
proof (cases "alloc s")
  case (Pair r t)
  then show ?thesis using assms alloc_fail [OF assms(1) Pair] that by (cases r) auto
qed

lemma alloc_many_spec:
  assumes "inv s" and "alloc_many alloc n s = (is, t)"
  shows "inv t \<and> distinct is \<and> set is \<subseteq> slots - used s \<and> used t = used s \<union> set is
    \<and> (length is < n \<longrightarrow> slots \<subseteq> used t)"
  using assms
proof (induction n arbitrary: s "is" t)
  case 0
  then show ?case by simp
next
  case (Suc n)
  show ?case
  proof (cases "alloc s")
    case (Pair r s1)
    show ?thesis
    proof (cases r)
      case (Ok i)
      with Pair Suc.prems(2) obtain js where m: "alloc_many alloc n s1 = (js, t)" and is_eq: "is = i # js"
        by (auto split: prod.splits)
      have a: "i \<in> slots - used s" "used s1 = insert i (used s)" "inv s1"
        using alloc_Ok [OF Suc.prems(1)] Pair Ok by auto
      from Suc.IH [OF a(3) m] a is_eq show ?thesis by auto
    next
      case (Err e)
      with Pair Suc.prems alloc_fail [OF Suc.prems(1) Pair] show ?thesis by auto
    next
      case Panic
      with Pair Suc.prems alloc_fail [OF Suc.prems(1) Pair] show ?thesis by auto
    qed
  qed
qed

lemma alloc_many_enough:
  assumes "inv s" and "n \<le> card (slots - used s)" and "alloc_many alloc n s = (is, t)"
  shows "length is = n"
proof (rule ccontr)
  assume "length is \<noteq> n"
  have len: "length is \<le> n" using alloc_many_length [of alloc n s] assms(3) by simp
  note sp = alloc_many_spec [OF assms(1,3)]
  from \<open>length is \<noteq> n\<close> len have "slots - used s \<subseteq> set is" using sp by auto
  then have "card (slots - used s) \<le> card (set is)" by (simp add: card_mono)
  also have "card (set is) = length is" using sp by (simp add: distinct_card)
  finally show False using \<open>length is \<noteq> n\<close> len assms(2) by linarith
qed

lemma release_then_alloc:
  assumes "inv s" and "i \<in> releasable" and "release i s = (Ok (), t)"
  obtains j u where "alloc t = (Ok j, u)" "j \<le> i" "used u = insert j (used s - {i})"
proof -
  have t: "used t = used s - {i}" "inv t" using release_Ok [OF assms(1,2)] assms(3) by auto
  then have "\<not> slots \<subseteq> used t" using assms(2) releasable_slots by auto
  then obtain j u where a: "alloc t = (Ok j, u)" using alloc_if_free [OF t(2)] by blast
  have "j \<le> i"
  proof (rule ccontr)
    assume "\<not> j \<le> i"
    then have "i \<in> used t"
      using alloc_first_fit [OF t(2) a] assms(2) releasable_slots by auto
    then show False using t by simp
  qed
  then show ?thesis using that a alloc_Ok [OF t(2) a] t by auto
qed

end

end
