(* ===== verification/User_CSpace.thy ===== *)
theory User_CSpace
  imports Slot_Allocator Kernel
begin

text \<open>
  The CSpace of a user process: \<open>crates/smos-cspace/src/lib.rs\<close>, and the slots its runtime
  reserves at start-up (\<open>run_main\<close> in \<open>crates/smos-runtime/src/entry.rs\<close>, the slot numbers of
  \<open>crates/smos-common/src/init.rs\<close>).  \<open>SMOSUserCSpace\<close> provides the contract
  \<open>slot_allocator\<close>.
\<close>

definition CSPACE_SIZE :: nat where [const_defs]: "CSPACE_SIZE = 256"

record SMOSUserCSpace =
  ucs_root_cnode :: cptr
  ucs_bf :: "u64 list"

definition ucs_new :: "cptr \<Rightarrow> SMOSUserCSpace" where
  "ucs_new root_cnode = \<lparr>ucs_root_cnode = root_cnode, ucs_bf = bitfield_init CSPACE_SIZE\<rparr>"

definition ucs_alloc_slot :: "SMOSUserCSpace \<Rightarrow> (unit, nat) outcome \<times> SMOSUserCSpace" where
  "ucs_alloc_slot cs =
     (case bf_first_free (ucs_bf cs) of
        Err _ \<Rightarrow> (Err (), cs)
      | Panic \<Rightarrow> (Panic, cs)
      | Ok index \<Rightarrow>
          (case (bf_set_bit (ucs_bf cs) index :: (unit, u64 list) outcome) of
             Ok bf \<Rightarrow> (Ok index, cs\<lparr>ucs_bf := bf\<rparr>)
           | Err e \<Rightarrow> (Err e, cs)
           | Panic \<Rightarrow> (Panic, cs)))"

text \<open>The bound check lets \<open>slot = CSPACE_SIZE\<close> through.\<close>

definition ucs_free_slot :: "nat \<Rightarrow> SMOSUserCSpace \<Rightarrow> (unit, unit) outcome \<times> SMOSUserCSpace" where
  "ucs_free_slot slot cs =
     (if slot > CSPACE_SIZE then (Ok (), cs)
      else case (bf_clr_bit (ucs_bf cs) slot :: (unit, u64 list) outcome) of
             Ok bf \<Rightarrow> (Ok (), cs\<lparr>ucs_bf := bf\<rparr>)
           | Err e \<Rightarrow> (Err e, cs)
           | Panic \<Rightarrow> (Panic, cs))"

definition ucs_to_absolute_cptr :: "SMOSUserCSpace \<Rightarrow> nat \<Rightarrow> ('e, abs_cptr) outcome" where
  "ucs_to_absolute_cptr cs slot =
     (if slot < CSPACE_SIZE
      then Ok \<lparr>ac_root = ucs_root_cnode cs, ac_bits = slot, ac_depth = 64\<rparr> else Panic)"

definition ucs_delete :: "'k sel4 \<Rightarrow> SMOSUserCSpace \<Rightarrow> nat \<Rightarrow> 'k \<Rightarrow> (sel4_error, unit) outcome \<times> 'k" where
  "ucs_delete K cs cptr k =
     (case k_cnode_delete K \<lparr>ac_root = ucs_root_cnode cs, ac_bits = cptr, ac_depth = 64\<rparr> k of
        (r, k') \<Rightarrow> (kresult r, k'))"

section \<open>The slots the runtime reserves\<close>

definition SMOS_CapNull :: nat where [const_defs]: "SMOS_CapNull = 0"
definition SMOS_RootServerEP :: nat where [const_defs]: "SMOS_RootServerEP = 1"
definition SMOS_CNodeSelf :: nat where [const_defs]: "SMOS_CNodeSelf = 2"

definition run_main_cspace :: "(unit, unit) outcome \<times> SMOSUserCSpace" where
  "run_main_cspace =
     bnd (expect ucs_alloc_slot) (\<lambda>slot.
     bnd (ensure (slot = SMOS_CapNull)) (\<lambda>_.
     bnd (expect ucs_alloc_slot) (\<lambda>slot.
     bnd (ensure (slot = SMOS_RootServerEP)) (\<lambda>_.
     bnd (expect ucs_alloc_slot) (\<lambda>slot.
     ensure (slot = SMOS_CNodeSelf)))))) (ucs_new SMOS_CNodeSelf)"

section \<open>The contract\<close>

definition ucs_inv :: "SMOSUserCSpace \<Rightarrow> bool" where
  "ucs_inv cs \<longleftrightarrow> length (ucs_bf cs) = 4"

definition ucs_used :: "SMOSUserCSpace \<Rightarrow> nat set" where
  "ucs_used cs = bits_of (ucs_bf cs)"

lemma ucs_new_inv [simp]: "ucs_inv (ucs_new r)" "ucs_used (ucs_new r) = {}"
  by (simp_all add: ucs_inv_def ucs_used_def ucs_new_def bitfield_init_def BITFIELD_SIZE_def const_defs)
     (simp add: bits_of_def div_less_iff)

lemma ucs_alloc_cases:
  assumes "ucs_inv cs"
  obtains (full) "ucs_alloc_slot cs = (Err (), cs)" "ucs_used cs = {..<256}"
  | (free) i cs' where "ucs_alloc_slot cs = (Ok i, cs')" "i < 256" "i \<notin> ucs_used cs"
      "\<forall>j<i. j \<in> ucs_used cs" "ucs_inv cs'" "ucs_used cs' = insert i (ucs_used cs)"
proof (cases "ucs_bf cs" rule: bf_first_free_cases)
  case full
  then show ?thesis using that(1) assms by (simp add: ucs_alloc_slot_def ucs_used_def ucs_inv_def)
next
  case (free i)
  then show ?thesis using that(2) [of i "cs\<lparr>ucs_bf := bf_or_bit (ucs_bf cs) i\<rparr>"] assms
    by (simp add: ucs_alloc_slot_def ucs_used_def ucs_inv_def)
qed

lemma ucs_free_spec:
  assumes "ucs_inv cs" and "i < 256"
  obtains cs' where "ucs_free_slot i cs = (Ok (), cs')" "ucs_inv cs'" "ucs_used cs' = ucs_used cs - {i}"
proof -
  have "i < 64 * length (ucs_bf cs)" using assms by (simp add: ucs_inv_def)
  then show ?thesis using that [of "cs\<lparr>ucs_bf := bf_andnot_bit (ucs_bf cs) i\<rparr>"] assms
    by (simp add: ucs_free_slot_def ucs_used_def ucs_inv_def const_defs)
qed

interpretation user_cspace: slot_allocator ucs_alloc_slot ucs_free_slot ucs_used "{..<256}" "{..<256}" ucs_inv
proof unfold_locales
  fix s i t assume "ucs_inv s" "ucs_alloc_slot s = (Ok i, t)"
  then show "i \<in> {..<256} - ucs_used s \<and> ucs_used t = insert i (ucs_used s) \<and> ucs_inv t"
    by (cases rule: ucs_alloc_cases) simp_all
next
  fix s i t j assume "ucs_inv s" "ucs_alloc_slot s = (Ok i, t)" "j < i"
  then show "j \<in> ucs_used s" by (cases rule: ucs_alloc_cases) simp_all
next
  fix s r t assume "ucs_inv s" "ucs_alloc_slot s = (r, t)" "\<forall>i. r \<noteq> Ok i"
  then show "t = s \<and> {..<256} \<subseteq> ucs_used s" by (cases rule: ucs_alloc_cases) auto
next
  fix s i assume "ucs_inv s" "i \<in> {..<256::nat}"
  then show "\<exists>t. ucs_free_slot i s = (Ok (), t) \<and> ucs_used t = ucs_used s - {i} \<and> ucs_inv t"
    by (auto elim: ucs_free_spec)
qed simp_all

lemma ucs_fresh_many:
  assumes "n \<le> 256" and "alloc_many ucs_alloc_slot n (ucs_new r) = (is, t)"
  shows "length is = n \<and> distinct is \<and> set is \<subseteq> {..<256} \<and> ucs_used t = set is"
  using user_cspace.alloc_many_enough [of "ucs_new r" n "is" t]
    user_cspace.alloc_many_spec [of "ucs_new r" n "is" t] assms
  by simp

end
