(* ===== verification/Client.thy ===== *)
theory Client
  imports Reply User_CSpace
begin

text \<open>
  The client side of every invocation: the stubs of \<open>crates/smos-common/src/syscall.rs\<close>.  A
  stub writes the message registers, capability slots and shared buffer (\<open>X_req\<close>), calls the
  server's endpoint (\<open>call\<close>, a parameter), unpacks the error label and reads the reply (the
  shared readers \<open>ret_\<dots>\<close>).
\<close>

section \<open>The state of a client\<close>

text \<open>The IPC buffer, the bytes of the connection's data buffer (\<open>buf\<close>), the client's CSpace
  and the kernel.\<close>

record 'k client =
  cl_ipc :: ipc_buf
  cl_buf :: "u8 list option"
  cl_cspace :: SMOSUserCSpace
  cl_kern :: 'k

type_synonym ('k, 'a) stub = "('k client, InvocationError, 'a) op"
type_synonym 'k ep_call = "msginfo \<Rightarrow> 'k client \<Rightarrow> msginfo \<times> 'k client"

definition ipc_write :: "(ipc_buf \<Rightarrow> ipc_buf) \<Rightarrow> ('k, unit) stub" where
  "ipc_write f = modify (\<lambda>cl. cl\<lparr>cl_ipc := f (cl_ipc cl)\<rparr>)"

definition request_info :: "SMOSInvocation \<Rightarrow> nat \<Rightarrow> nat \<Rightarrow> msginfo" where
  "request_info l n c = mk_msginfo (invocation_label l) n c"

definition send :: "(ipc_buf \<Rightarrow> ipc_buf) \<Rightarrow> msginfo \<Rightarrow> ('k, msginfo) stub" where
  "send f mi = bnd (ipc_write f) (\<lambda>_. ret mi)"

text \<open>Copy a string to the data buffer from offset \<open>off\<close> on; the offset after it.\<close>

definition put_str :: "nat \<Rightarrow> rust_str \<Rightarrow> ('k, nat) stub" where
  "put_str off s cl =
     (case cl_buf cl of
        None \<Rightarrow> (Err DataBufferNotSet, cl)
      | Some buf \<Rightarrow>
          (case copy_terminated_rust_string_to_buffer (drop off buf) s of
             Ok (written, rest) \<Rightarrow>
               (Ok (off + length written), cl\<lparr>cl_buf := Some (take off buf @ written @ rest)\<rparr>)
           | Err e \<Rightarrow> (Err e, cl)
           | Panic \<Rightarrow> (Panic, cl)))"

fun put_strs :: "nat \<Rightarrow> rust_str list \<Rightarrow> ('k, nat) stub" where
  "put_strs off [] = ret off"
| "put_strs off (s # ss) = bnd (put_str off s) (\<lambda>off'. put_strs off' ss)"

definition invoke :: "'k ep_call \<Rightarrow> ('k, msginfo) stub \<Rightarrow> (msginfo \<Rightarrow> ('k, 'a) stub) \<Rightarrow> ('k, 'a) stub" where
  "invoke call req k =
     bnd req (\<lambda>mi. bnd (\<lambda>cl. case call mi cl of (mi', cl') \<Rightarrow> (Ok mi', cl')) (\<lambda>mi'.
     bnd (\<lambda>cl. (try_unpack_error (mi_label mi') (msg_regs (cl_ipc cl)), cl)) (\<lambda>_. k mi')))"

section \<open>Results and how they are read\<close>

datatype client_result =
    R_Unit
  | R_Hndl u64
  | R_HndlCap HandleOrHandleCap
  | R_Conn u64 abs_cptr
  | R_IRQ u64 u8 abs_cptr
  | R_Reply u64 abs_cptr
  | R_Channel abs_cptr
  | R_ServerChannel u8 abs_cptr
  | R_Stat ObjStatData
  | R_Cap abs_cptr

definition reply_reg :: "nat \<Rightarrow> ('k, u64) stub" where
  "reply_reg i = gets (\<lambda>cl. msg_regs (cl_ipc cl) i)"

definition one_wrapped_cap :: "msginfo \<Rightarrow> bool" where
  "one_wrapped_cap mi \<longleftrightarrow> mi_extra_caps mi = 1 \<and> mi_caps_unwrapped mi = 0"

definition ret_unit :: "msginfo \<Rightarrow> ('k, client_result) stub" where
  "ret_unit mi = ret R_Unit"

definition ret_hndl :: "msginfo \<Rightarrow> ('k, client_result) stub" where
  "ret_hndl mi = bnd (reply_reg 0) (\<lambda>h. ret (R_Hndl h))"

text \<open>\<open>window_create\<close>, \<open>obj_create\<close>, \<open>obj_open\<close>.\<close>

definition ret_hndl_or_cap :: "abs_cptr option \<Rightarrow> msginfo \<Rightarrow> ('k, client_result) stub" where
  "ret_hndl_or_cap return_cap mi =
     (case return_cap of
        Some c \<Rightarrow>
          if mi_extra_caps mi \<noteq> 1 \<or> mi_caps_unwrapped mi \<noteq> 0 then fail ServerError
          else ret (R_HndlCap (HandleCap c))
      | None \<Rightarrow>
          if mi_length mi \<noteq> 1 then fail ServerError
          else bnd (reply_reg 0) (\<lambda>h. ret (R_HndlCap (Handle h))))"

text \<open>Deleting the capability of a destroyed handle and freeing its slot.\<close>

definition drop_slot :: "'k sel4 \<Rightarrow> nat \<Rightarrow> ('k, unit) stub" where
  "drop_slot K slot =
     bnd (\<lambda>cl. case ucs_delete K (cl_cspace cl) slot (cl_kern cl) of
                 (Ok _, k) \<Rightarrow> (Ok (), cl\<lparr>cl_kern := k\<rparr>)
               | (_, k) \<Rightarrow> (Panic, cl\<lparr>cl_kern := k\<rparr>)) (\<lambda>_.
          \<lambda>cl. case ucs_free_slot slot (cl_cspace cl) of
                 (Ok _, cs) \<Rightarrow> (Ok (), cl\<lparr>cl_cspace := cs\<rparr>)
               | (_, cs) \<Rightarrow> (Panic, cl\<lparr>cl_cspace := cs\<rparr>))"

definition drop_hndl :: "'k sel4 \<Rightarrow> HandleOrHandleCap \<Rightarrow> ('k, unit) stub" where
  "drop_hndl K h = (case h of HandleCap c \<Rightarrow> drop_slot K (ac_bits c) | Handle _ \<Rightarrow> ret ())"

text \<open>A handle as the only argument: a register, or a capability slot.\<close>

definition hndl_req :: "SMOSInvocation \<Rightarrow> HandleOrHandleCap \<Rightarrow> ('k, msginfo) stub" where
  "hndl_req l h =
     (case h of
        Handle idx \<Rightarrow> send (set_reg 0 idx) (request_info l 1 0)
      | HandleCap c \<Rightarrow> send (set_cap 0 (cap_word c)) (request_info l 0 1))"

definition word_of_bool :: "bool \<Rightarrow> u64" where
  "word_of_bool b = (if b then 1 else 0)"

definition set_return_cap :: "abs_cptr option \<Rightarrow> ipc_buf \<Rightarrow> ipc_buf" where
  "set_return_cap return_cap = (case return_cap of Some c \<Rightarrow> set_recv_slot c | None \<Rightarrow> id)"

section \<open>RootServerInterface\<close>

definition conn_create_req :: "abs_cptr \<Rightarrow> rust_str \<Rightarrow> ('k, msginfo) stub" where
  "conn_create_req slot server_name =
     bnd (put_str 0 server_name) (\<lambda>_.
     send (set_recv_slot slot) (request_info L_ConnCreate 0 0))"

definition conn_create ::
  "'k ep_call \<Rightarrow> abs_cptr \<Rightarrow> rust_str \<Rightarrow> ('k, client_result) stub" where
  "conn_create call slot server_name =
     invoke call (conn_create_req slot server_name)
       (\<lambda>mi. bnd (ensure (one_wrapped_cap mi)) (\<lambda>_.
             bnd (reply_reg 0) (\<lambda>h. ret (R_Conn h slot))))"

definition conn_register_req :: "u64 \<Rightarrow> u64 \<Rightarrow> ('k, msginfo) stub" where
  "conn_register_req publish_hndl ident =
     send (set_reg 1 ident \<circ> set_reg 0 publish_hndl) (request_info L_ConnRegister 2 0)"

definition conn_register :: "'k ep_call \<Rightarrow> u64 \<Rightarrow> u64 \<Rightarrow> ('k, client_result) stub" where
  "conn_register call publish_hndl ident =
     invoke call
       (conn_register_req publish_hndl ident) ret_hndl"

definition irq_register_req :: "u64 \<Rightarrow> u64 \<Rightarrow> bool \<Rightarrow> abs_cptr \<Rightarrow> ('k, msginfo) stub" where
  "irq_register_req publish_hndl irq_num edge_triggered irq_handler_slot =
     send (set_recv_slot irq_handler_slot \<circ> set_reg 2 (word_of_bool edge_triggered) \<circ>
      set_reg 1 irq_num \<circ> set_reg 0 publish_hndl)
     (request_info L_IRQRegister 3 0)"

definition irq_register ::
  "'k ep_call \<Rightarrow> u64 \<Rightarrow> u64 \<Rightarrow> bool \<Rightarrow> abs_cptr \<Rightarrow> ('k, client_result) stub" where
  "irq_register call publish_hndl irq_num edge_triggered irq_handler_slot =
     invoke call (irq_register_req publish_hndl irq_num edge_triggered irq_handler_slot)
       (\<lambda>mi. bnd (ensure (mi_extra_caps mi = 1)) (\<lambda>_.
             bnd (ensure (mi_caps_unwrapped mi = 0)) (\<lambda>_.
             bnd (reply_reg 0) (\<lambda>h. bnd (reply_reg 1) (\<lambda>b.
             bnd (ensure (unat b < 256)) (\<lambda>_. ret (R_IRQ h (ucast b) irq_handler_slot)))))))"

definition conn_deregister_req :: "u64 \<Rightarrow> ('k, msginfo) stub" where
  "conn_deregister_req reg_hndl =
     send (set_reg 0 reg_hndl) (request_info L_ConnDeregister 1 0)"

definition conn_deregister :: "'k ep_call \<Rightarrow> u64 \<Rightarrow> ('k, client_result) stub" where
  "conn_deregister call reg_hndl =
     invoke call (conn_deregister_req reg_hndl) ret_unit"

definition conn_publish_req :: "u64 \<Rightarrow> abs_cptr \<Rightarrow> rust_str \<Rightarrow> ('k, msginfo) stub" where
  "conn_publish_req ntfn_buffer slot name =
     bnd (put_str 0 name) (\<lambda>_.
     send (set_reg 0 ntfn_buffer \<circ> set_recv_slot slot) (request_info L_ConnPublish 1 0))"

definition conn_publish ::
  "'k ep_call \<Rightarrow> u64 \<Rightarrow> abs_cptr \<Rightarrow> rust_str \<Rightarrow> ('k, client_result) stub" where
  "conn_publish call ntfn_buffer slot name =
     invoke call (conn_publish_req ntfn_buffer slot name)
       (\<lambda>mi. bnd (reply_reg 0) (\<lambda>h. ret (R_Conn h slot)))"

definition conn_destroy_req :: "u64 \<Rightarrow> ('k, msginfo) stub" where
  "conn_destroy_req conn_hndl =
     send (set_reg 0 conn_hndl) (request_info L_ConnDestroy 1 0)"

definition conn_destroy ::
  "'k ep_call \<Rightarrow> 'k sel4 \<Rightarrow> u64 \<Rightarrow> nat \<Rightarrow> ('k, client_result) stub" where
  "conn_destroy call K conn_hndl conn_ep =
     invoke call (conn_destroy_req conn_hndl)
       (\<lambda>mi. bnd (drop_slot K conn_ep) (\<lambda>_. ret R_Unit))"

definition test_simple_req :: "u64 \<Rightarrow> ('k, msginfo) stub" where
  "test_simple_req msg =
     send (set_reg 0 msg) (request_info L_TestSimple 1 0)"

definition test_simple :: "'k ep_call \<Rightarrow> u64 \<Rightarrow> ('k, client_result) stub" where
  "test_simple call msg =
     invoke call (test_simple_req msg) ret_unit"

definition window_create_req :: "u64 \<Rightarrow> u64 \<Rightarrow> abs_cptr option \<Rightarrow> ('k, msginfo) stub" where
  "window_create_req base_vaddr sz return_cap =
     send (set_return_cap return_cap \<circ> set_reg 2 (word_of_bool (return_cap \<noteq> None)) \<circ>
      set_reg 1 sz \<circ> set_reg 0 base_vaddr)
     (request_info L_WindowCreate 3 0)"

definition window_create ::
  "'k ep_call \<Rightarrow> u64 \<Rightarrow> u64 \<Rightarrow> abs_cptr option \<Rightarrow> ('k, client_result) stub" where
  "window_create call base_vaddr sz return_cap =
     invoke call (window_create_req base_vaddr sz return_cap) (ret_hndl_or_cap return_cap)"

definition window_register_req :: "u64 \<Rightarrow> abs_cptr \<Rightarrow> u64 \<Rightarrow> u64 \<Rightarrow> ('k, msginfo) stub" where
  "window_register_req publish_hndl window_hndl_cap client_id reference =
     send (set_cap 0 (cap_word window_hndl_cap) \<circ> set_reg 2 reference \<circ>
      set_reg 1 client_id \<circ> set_reg 0 publish_hndl)
     (request_info L_WindowRegister 3 1)"

definition window_register ::
  "'k ep_call \<Rightarrow> u64 \<Rightarrow> abs_cptr \<Rightarrow> u64 \<Rightarrow> u64 \<Rightarrow> ('k, client_result) stub" where
  "window_register call publish_hndl window_hndl_cap client_id reference =
     invoke call (window_register_req publish_hndl window_hndl_cap client_id reference) ret_hndl"

definition window_deregister_req :: "u64 \<Rightarrow> ('k, msginfo) stub" where
  "window_deregister_req win_reg_hndl =
     send (set_reg 0 win_reg_hndl) (request_info L_WindowDeregister 1 0)"

definition window_deregister :: "'k ep_call \<Rightarrow> u64 \<Rightarrow> ('k, client_result) stub" where
  "window_deregister call win_reg_hndl =
     invoke call (window_deregister_req win_reg_hndl) ret_unit"

definition page_map_req :: "u64 \<Rightarrow> u64 \<Rightarrow> u64 \<Rightarrow> ('k, msginfo) stub" where
  "page_map_req win_reg_hndl view_offset content_vaddr =
     send (set_reg 2 content_vaddr \<circ> set_reg 1 view_offset \<circ> set_reg 0 win_reg_hndl)
     (request_info L_PageMap 3 0)"

definition page_map :: "'k ep_call \<Rightarrow> u64 \<Rightarrow> u64 \<Rightarrow> u64 \<Rightarrow> ('k, client_result) stub" where
  "page_map call win_reg_hndl view_offset content_vaddr =
     invoke call (page_map_req win_reg_hndl view_offset content_vaddr) ret_unit"

definition window_destroy ::
  "'k ep_call \<Rightarrow> 'k sel4 \<Rightarrow> HandleOrHandleCap \<Rightarrow> ('k, client_result) stub" where
  "window_destroy call K hndl =
     invoke call (hndl_req L_WindowDestroy hndl)
       (\<lambda>mi. bnd (drop_hndl K hndl) (\<lambda>_. ret R_Unit))"

definition reply_create_req :: "abs_cptr \<Rightarrow> ('k, msginfo) stub" where
  "reply_create_req return_cap =
     send (set_recv_slot return_cap) (request_info L_ReplyCreate 0 0)"

definition reply_create :: "'k ep_call \<Rightarrow> abs_cptr \<Rightarrow> ('k, client_result) stub" where
  "reply_create call return_cap =
     invoke call (reply_create_req return_cap)
       (\<lambda>mi. if \<not> one_wrapped_cap mi \<or> mi_length mi \<noteq> 1 then fail ServerError
             else bnd (reply_reg 0) (\<lambda>h. ret (R_Reply h return_cap)))"

definition server_handle_cap_create_req :: "u64 \<Rightarrow> u64 \<Rightarrow> abs_cptr \<Rightarrow> ('k, msginfo) stub" where
  "server_handle_cap_create_req publish_hndl ident return_slot =
     send (set_reg 1 ident \<circ> set_reg 0 publish_hndl \<circ> set_recv_slot return_slot)
     (request_info L_ServerHandleCapCreate 2 0)"

definition server_handle_cap_create ::
  "'k ep_call \<Rightarrow> u64 \<Rightarrow> u64 \<Rightarrow> abs_cptr \<Rightarrow> ('k, client_result) stub" where
  "server_handle_cap_create call publish_hndl ident return_slot =
     invoke call (server_handle_cap_create_req publish_hndl ident return_slot)
       (\<lambda>mi. if \<not> one_wrapped_cap mi \<or> mi_length mi \<noteq> 1 then fail ServerError
             else bnd (reply_reg 0) (\<lambda>h. ret (R_Conn h return_slot)))"

definition process_spawn_req :: "rust_str \<Rightarrow> rust_str \<Rightarrow> u8 \<Rightarrow> rust_str list option \<Rightarrow> ('k, msginfo) stub" where
  "process_spawn_req executable_name fs_name prio argv =
     bnd (put_str 0 executable_name) (\<lambda>o1.
     bnd (put_str o1 fs_name) (\<lambda>o2.
     bnd (put_strs o2 (case argv of Some v \<Rightarrow> v | None \<Rightarrow> [])) (\<lambda>_.
     send (set_reg 1 (ucast prio) \<circ>
           set_reg 0 (case argv of None \<Rightarrow> 0 | Some v \<Rightarrow> of_nat (length v)))
          (request_info L_ProcSpawn 2 0))))"

definition process_spawn ::
  "'k ep_call \<Rightarrow> rust_str \<Rightarrow> rust_str \<Rightarrow> u8 \<Rightarrow> rust_str list option \<Rightarrow> ('k, client_result) stub" where
  "process_spawn call executable_name fs_name prio argv =
     invoke call (process_spawn_req executable_name fs_name prio argv) ret_hndl"

definition process_wait_req :: "u64 \<Rightarrow> ('k, msginfo) stub" where
  "process_wait_req hndl =
     send (set_reg 0 hndl) (request_info L_ProcWait 1 0)"

definition process_wait :: "'k ep_call \<Rightarrow> u64 \<Rightarrow> ('k, client_result) stub" where
  "process_wait call hndl =
     invoke call (process_wait_req hndl) ret_unit"

text \<open>\<open>process_exit\<close> does not look at the reply: reaching it is \<open>unreachable!()\<close>.\<close>

definition process_exit :: "'k ep_call \<Rightarrow> ('k, client_result) stub" where
  "process_exit call =
     bnd (send id (request_info L_ProcExit 0 0)) (\<lambda>mi.
     bnd (\<lambda>cl. case call mi cl of (mi', cl') \<Rightarrow> (Ok mi', cl')) (\<lambda>_. panic))"

definition load_complete_req :: "u64 \<Rightarrow> u64 \<Rightarrow> ('k, msginfo) stub" where
  "load_complete_req entry_point sp =
     send (set_reg 1 sp \<circ> set_reg 0 entry_point) (request_info L_LoadComplete 2 0)"

definition load_complete :: "'k ep_call \<Rightarrow> u64 \<Rightarrow> u64 \<Rightarrow> ('k, client_result) stub" where
  "load_complete call entry_point sp =
     invoke call (load_complete_req entry_point sp) ret_unit"

definition channel_open_req :: "abs_cptr \<Rightarrow> abs_cptr \<Rightarrow> ('k, msginfo) stub" where
  "channel_open_req channel_hndl_cap ntfn_slot =
     send (set_cap 0 (cap_word channel_hndl_cap) \<circ> set_recv_slot ntfn_slot)
     (request_info L_ChannelOpen 0 1)"

definition channel_open :: "'k ep_call \<Rightarrow> abs_cptr \<Rightarrow> abs_cptr \<Rightarrow> ('k, client_result) stub" where
  "channel_open call channel_hndl_cap ntfn_slot =
     invoke call (channel_open_req channel_hndl_cap ntfn_slot)
       (\<lambda>mi. bnd (ensure (one_wrapped_cap mi)) (\<lambda>_. ret (R_Channel ntfn_slot)))"

definition server_channel_create_req :: "u64 \<Rightarrow> abs_cptr \<Rightarrow> ('k, msginfo) stub" where
  "server_channel_create_req publish_hndl channel_slot =
     send (set_reg 0 publish_hndl \<circ> set_recv_slot channel_slot)
     (request_info L_ServerCreateChannel 1 0)"

definition server_channel_create :: "'k ep_call \<Rightarrow> u64 \<Rightarrow> abs_cptr \<Rightarrow> ('k, client_result) stub" where
  "server_channel_create call publish_hndl channel_slot =
     invoke call (server_channel_create_req publish_hndl channel_slot)
       (\<lambda>mi. bnd (ensure (one_wrapped_cap mi)) (\<lambda>_.
             bnd (reply_reg 0) (\<lambda>b.
             bnd (ensure (unat b < 256)) (\<lambda>_. ret (R_ServerChannel (ucast b) channel_slot)))))"

section \<open>NonRootServerInterface\<close>

text \<open>The buffer of \<open>conn_open\<close> is given by its bytes; its address stays with the client.\<close>

definition set_buf :: "u8 list option \<Rightarrow> ('k, unit) stub" where
  "set_buf buf = modify (\<lambda>cl. cl\<lparr>cl_buf := buf\<rparr>)"

definition conn_open_req :: "(HandleOrHandleCap \<times> u8 list) option \<Rightarrow> ('k, msginfo) stub" where
  "conn_open_req shared_buf =
     (case shared_buf of
       None \<Rightarrow> send id (request_info L_ConnOpen 0 0)
     | Some (hndl, buffer) \<Rightarrow>
         (case hndl of
            Handle idx \<Rightarrow>
              send (set_reg 1 (of_nat (length buffer)) \<circ> set_reg 0 idx) (request_info L_ConnOpen 2 0)
          | HandleCap c \<Rightarrow>
              send (set_reg 1 (of_nat (length buffer)) \<circ> set_cap 0 (cap_word c))
                   (request_info L_ConnOpen 2 1)))"

definition conn_open ::
  "'k ep_call \<Rightarrow> (HandleOrHandleCap \<times> u8 list) option \<Rightarrow> ('k, client_result) stub" where
  "conn_open call shared_buf =
     invoke call (conn_open_req shared_buf)
       (\<lambda>mi. case shared_buf of
               None \<Rightarrow> ret R_Unit
             | Some (_, buffer) \<Rightarrow> bnd (set_buf (Some buffer)) (\<lambda>_. ret R_Unit))"

definition conn_close_req :: "('k, msginfo) stub" where
  "conn_close_req =
     send id (request_info L_ConnClose 0 0)"

definition conn_close :: "'k ep_call \<Rightarrow> ('k, client_result) stub" where
  "conn_close call =
     invoke call conn_close_req
       (\<lambda>mi. bnd (set_buf None) (\<lambda>_. ret R_Unit))"

section \<open>ObjectServerInterface\<close>

definition obj_create_req :: "rust_str option \<Rightarrow> u64 \<Rightarrow> u64 \<Rightarrow> ObjAttributes \<Rightarrow> abs_cptr option \<Rightarrow> ('k, msginfo) stub" where
  "obj_create_req name_opt sz rights attributes return_cap =
     bnd (ipc_write (set_reg 0 (word_of_bool (name_opt \<noteq> None)))) (\<lambda>_.
     bnd (case name_opt of None \<Rightarrow> ret 0 | Some name \<Rightarrow> put_str 0 name) (\<lambda>_.
     send (set_return_cap return_cap \<circ> set_reg 4 (word_of_bool (return_cap \<noteq> None)) \<circ>
           set_reg 3 attributes \<circ> set_reg 2 rights \<circ> set_reg 1 sz)
          (request_info L_ObjCreate 5 0)))"

definition obj_create ::
  "'k ep_call \<Rightarrow> rust_str option \<Rightarrow> u64 \<Rightarrow> u64 \<Rightarrow> ObjAttributes \<Rightarrow> abs_cptr option \<Rightarrow> ('k, client_result) stub" where
  "obj_create call name_opt sz rights attributes return_cap =
     invoke call (obj_create_req name_opt sz rights attributes return_cap) (ret_hndl_or_cap return_cap)"

definition obj_open_req :: "rust_str \<Rightarrow> u64 \<Rightarrow> abs_cptr option \<Rightarrow> ('k, msginfo) stub" where
  "obj_open_req name rights return_cap =
     bnd (put_str 0 name) (\<lambda>_.
     send (set_return_cap return_cap \<circ> set_reg 1 (word_of_bool (return_cap \<noteq> None)) \<circ>
           set_reg 0 rights)
          (request_info L_ObjOpen 3 0))"

definition obj_open ::
  "'k ep_call \<Rightarrow> rust_str \<Rightarrow> u64 \<Rightarrow> abs_cptr option \<Rightarrow> ('k, client_result) stub" where
  "obj_open call name rights return_cap =
     invoke call (obj_open_req name rights return_cap) (ret_hndl_or_cap return_cap)"

definition obj_close :: "'k ep_call \<Rightarrow> HandleOrHandleCap \<Rightarrow> ('k, client_result) stub" where
  "obj_close call hndl = invoke call (hndl_req L_ObjClose hndl) ret_unit"

definition obj_destroy ::
  "'k ep_call \<Rightarrow> 'k sel4 \<Rightarrow> HandleOrHandleCap \<Rightarrow> ('k, client_result) stub" where
  "obj_destroy call K hndl =
     invoke call (hndl_req L_ObjDestroy hndl)
       (\<lambda>mi. bnd (drop_hndl K hndl) (\<lambda>_. ret R_Unit))"

definition obj_stat :: "'k ep_call \<Rightarrow> HandleOrHandleCap \<Rightarrow> ('k, client_result) stub" where
  "obj_stat call hndl =
     invoke call (hndl_req L_ObjStat hndl)
       (\<lambda>mi. bnd (reply_reg 0) (\<lambda>sz. bnd (reply_reg 1) (\<lambda>paddr.
        ret (R_Stat \<lparr>st_size = sz, st_paddr = (if paddr = 0 then None else Some paddr)\<rparr>))))"

text \<open>\<open>view\<close> announces a handle capability by \<open>u64::MAX\<close> in the handle's register; the number
  of capabilities so far is the slot of the next one.\<close>

definition view_hndl :: "nat \<Rightarrow> nat \<Rightarrow> HandleOrHandleCap \<Rightarrow> (ipc_buf \<Rightarrow> ipc_buf) \<times> nat" where
  "view_hndl reg cap_counter h =
     (case h of
        Handle idx \<Rightarrow> (set_reg reg idx, cap_counter)
      | HandleCap c \<Rightarrow> (set_reg reg (-1) \<circ> set_cap cap_counter (cap_word c), cap_counter + 1))"

definition view_req :: "HandleOrHandleCap \<Rightarrow> HandleOrHandleCap \<Rightarrow> u64 \<Rightarrow> u64 \<Rightarrow> u64 \<Rightarrow> u64 \<Rightarrow> ('k, msginfo) stub" where
  "view_req win obj win_offset obj_offset sz rights =
     (case view_hndl 0 0 win of (f, n) \<Rightarrow>
     case view_hndl 1 n obj of (g, m) \<Rightarrow>
     send (set_reg 5 rights \<circ> set_reg 4 sz \<circ> set_reg 3 obj_offset \<circ> set_reg 2 win_offset \<circ> g \<circ> f)
          (request_info L_View 6 m))"

definition view ::
  "'k ep_call \<Rightarrow> HandleOrHandleCap \<Rightarrow> HandleOrHandleCap \<Rightarrow> u64 \<Rightarrow> u64 \<Rightarrow> u64 \<Rightarrow> u64 \<Rightarrow>
   ('k, client_result) stub" where
  "view call win obj win_offset obj_offset sz rights =
     invoke call (view_req win obj win_offset obj_offset sz rights)
       (\<lambda>mi. if mi_length mi \<noteq> 1 then fail ServerError else ret_hndl mi)"

definition unview_req :: "u64 \<Rightarrow> ('k, msginfo) stub" where
  "unview_req v = send (set_reg 0 v) (request_info L_Unview 1 0)"

definition unview :: "'k ep_call \<Rightarrow> u64 \<Rightarrow> ('k, client_result) stub" where
  "unview call v = invoke call (unview_req v) ret_unit"

section \<open>sDDFInterface\<close>

definition sddf_channel_register_bidirectional_req :: "abs_cptr \<Rightarrow> VirtType option \<Rightarrow> abs_cptr \<Rightarrow> ('k, msginfo) stub" where
  "sddf_channel_register_bidirectional_req hndl_cap kind rcv_slot =
     send (set_cap 0 (cap_word hndl_cap) \<circ>
      (case kind of Some v \<Rightarrow> set_reg 0 (virt_type_label v) | None \<Rightarrow> id) \<circ>
      set_recv_slot rcv_slot)
     (request_info L_sDDFChannelRegisterBidirectional (if kind \<noteq> None then 1 else 0) 1)"

definition sddf_channel_register_bidirectional ::
  "'k ep_call \<Rightarrow> abs_cptr \<Rightarrow> VirtType option \<Rightarrow> abs_cptr \<Rightarrow> ('k, client_result) stub" where
  "sddf_channel_register_bidirectional call hndl_cap kind rcv_slot =
     invoke call (sddf_channel_register_bidirectional_req hndl_cap kind rcv_slot)
       (\<lambda>mi. bnd (ensure (one_wrapped_cap mi)) (\<lambda>_. ret (R_Cap rcv_slot)))"

definition sddf_channel_register_recv_only_req :: "abs_cptr \<Rightarrow> ('k, msginfo) stub" where
  "sddf_channel_register_recv_only_req hndl_cap =
     send (set_cap 0 (cap_word hndl_cap)) (request_info L_sDDFChannelRegisterReceiveOnly 0 1)"

definition sddf_channel_register_recv_only ::
  "'k ep_call \<Rightarrow> abs_cptr \<Rightarrow> ('k, client_result) stub" where
  "sddf_channel_register_recv_only call hndl_cap =
     invoke call (sddf_channel_register_recv_only_req hndl_cap) ret_unit"

definition sddf_queue_register_req :: "HandleOrHandleCap \<Rightarrow> u64 \<Rightarrow> QueueType \<Rightarrow> ('k, msginfo) stub" where
  "sddf_queue_register_req obj_hndl_cap sz kind =
     bnd (ipc_write (set_reg 1 (queue_type_label kind) \<circ> set_reg 0 sz)) (\<lambda>_.
     case obj_hndl_cap of
       Handle _ \<Rightarrow> fail InvalidArguments
     | HandleCap c \<Rightarrow> send (set_cap 0 (cap_word c)) (request_info L_sDDFQueueRegister 2 1))"

definition sddf_queue_register ::
  "'k ep_call \<Rightarrow> HandleOrHandleCap \<Rightarrow> u64 \<Rightarrow> QueueType \<Rightarrow> ('k, client_result) stub" where
  "sddf_queue_register call obj_hndl_cap sz kind =
     invoke call (sddf_queue_register_req obj_hndl_cap sz kind) ret_unit"

definition sddf_get_data_region_req :: "abs_cptr \<Rightarrow> ('k, msginfo) stub" where
  "sddf_get_data_region_req slot =
     send (set_recv_slot slot) (request_info L_sDDFGetDataRegion 0 0)"

definition sddf_get_data_region :: "'k ep_call \<Rightarrow> abs_cptr \<Rightarrow> ('k, client_result) stub" where
  "sddf_get_data_region call slot =
     invoke call (sddf_get_data_region_req slot)
       (\<lambda>mi. bnd (ensure (mi_length mi = 0 \<and> one_wrapped_cap mi)) (\<lambda>_.
             ret (R_HndlCap (HandleCap slot))))"

definition sddf_data_region_provide_req :: "HandleOrHandleCap \<Rightarrow> u64 \<Rightarrow> ('k, msginfo) stub" where
  "sddf_data_region_provide_req obj sz =
     (case obj of
       Handle _ \<Rightarrow> fail InvalidArguments
     | HandleCap c \<Rightarrow>
         send (set_reg 0 sz \<circ> set_cap 0 (cap_word c)) (request_info L_sDDFProvideDataRegion 1 1))"

definition sddf_data_region_provide ::
  "'k ep_call \<Rightarrow> HandleOrHandleCap \<Rightarrow> u64 \<Rightarrow> ('k, client_result) stub" where
  "sddf_data_region_provide call obj sz =
     invoke call (sddf_data_region_provide_req obj sz) ret_unit"

text \<open>The stubs, and the requests they send.\<close>

lemmas req_defs =
  hndl_req_def conn_create_req_def conn_register_req_def irq_register_req_def
  conn_deregister_req_def conn_publish_req_def conn_destroy_req_def test_simple_req_def
  window_create_req_def window_register_req_def window_deregister_req_def page_map_req_def
  reply_create_req_def server_handle_cap_create_req_def process_spawn_req_def
  process_wait_req_def load_complete_req_def channel_open_req_def server_channel_create_req_def
  conn_open_req_def conn_close_req_def obj_create_req_def obj_open_req_def view_req_def
  unview_req_def sddf_channel_register_bidirectional_req_def
  sddf_channel_register_recv_only_req_def sddf_queue_register_req_def
  sddf_get_data_region_req_def sddf_data_region_provide_req_def

lemmas stub_defs =
  conn_create_def conn_register_def irq_register_def conn_deregister_def conn_publish_def
  conn_destroy_def test_simple_def window_create_def window_register_def window_deregister_def
  page_map_def window_destroy_def reply_create_def server_handle_cap_create_def
  process_spawn_def process_wait_def process_exit_def load_complete_def channel_open_def
  server_channel_create_def conn_open_def conn_close_def obj_create_def obj_open_def
  obj_close_def obj_destroy_def obj_stat_def view_def unview_def
  sddf_channel_register_bidirectional_def sddf_channel_register_recv_only_def
  sddf_queue_register_def sddf_get_data_region_def sddf_data_region_provide_def

end
