(* ===== verification/Event.thy ===== *)
theory Event
  imports Reply
begin

text \<open>
  The server's event loop helpers: \<open>crates/smos-server/src/event.rs\<close>.  A badge is decoded to
  an invocation, a fault or a notification word; the bits of a notification word are
  enumerated; a received message is decoded (\<open>smos_serv_decode_invocation\<close>) and answered
  (\<open>smos_serv_cleanup\<close>), the receive slot being emptied on the way.
\<close>

section \<open>Badges\<close>

definition NTFN_BIT :: u64 where [const_defs]: "NTFN_BIT = push_bit 63 1"
definition EP_BIT :: u64 where [const_defs]: "EP_BIT = push_bit 63 0"
definition EP_TYPE_SHIFT :: nat where [const_defs]: "EP_TYPE_SHIFT = 62"
definition INVOCATION_VALUE :: u64 where [const_defs]: "INVOCATION_VALUE = 0"
definition FAULT_VALUE :: u64 where [const_defs]: "FAULT_VALUE = 1"
definition INVOCATION_EP_BITS :: u64 where
  [const_defs]: "INVOCATION_EP_BITS = EP_BIT OR push_bit EP_TYPE_SHIFT INVOCATION_VALUE"
definition FAULT_EP_BITS :: u64 where
  [const_defs]: "FAULT_EP_BITS = EP_BIT OR push_bit EP_TYPE_SHIFT FAULT_VALUE"
definition IRQ_IDENT_BADGE_BITS :: u64 where [const_defs]: "IRQ_IDENT_BADGE_BITS = 2 ^ 63 - 1"

datatype EntryType = Invocation u64 | Fault u64 | Notification u64

definition decode_entry_type :: "u64 \<Rightarrow> ('e, EntryType) outcome" where
  "decode_entry_type badge =
     (if badge AND NTFN_BIT \<noteq> 0 then Ok (Notification (badge AND NOT NTFN_BIT))
      else let pid = badge AND NOT (push_bit EP_TYPE_SHIFT 3);
               kind = drop_bit EP_TYPE_SHIFT badge AND 1
           in if kind = INVOCATION_VALUE then Ok (Invocation pid)
              else if kind = FAULT_VALUE then Ok (Fault pid)
              else Panic)"

lemma bit_NTFN_BIT: "bit NTFN_BIT n \<longleftrightarrow> n = 63"
proof -
  have eq: "NTFN_BIT = 2 ^ 63" by (simp add: const_defs)
  show ?thesis unfolding eq bit_word_exp by auto
qed

lemma and_NTFN_BIT: "w AND NTFN_BIT \<noteq> 0 \<longleftrightarrow> bit w 63"
  using and_exp_bit [of w 63] by (simp add: const_defs push_bit_eq_mult)

lemma kind_bit: "drop_bit 62 (w :: u64) AND 1 = (if bit w 62 then 1 else 0)"
  by (simp add: and_one_eq bit_iff_odd_drop_bit mod2_eq_if)

text \<open>The two branches of the endpoint kind are all there are.\<close>

lemma decode_entry_type_eq:
  "decode_entry_type w =
     (if bit w 63 then Ok (Notification (w AND NOT NTFN_BIT))
      else if bit w 62 then Ok (Fault (w AND NOT (push_bit 62 3)))
      else Ok (Invocation (w AND NOT (push_bit 62 3))))"
  by (simp add: decode_entry_type_def and_NTFN_BIT Let_def EP_TYPE_SHIFT_def INVOCATION_VALUE_def
      FAULT_VALUE_def kind_bit)

section \<open>Notification words\<close>

definition ntfn_next :: "u64 \<Rightarrow> (nat \<times> u64) option" where
  "ntfn_next w =
     (if w = 0 then None
      else let b = trailing_zeros w in Some (b, w AND NOT (2 ^ b)))"

lemma bit_clear_lowest:
  assumes "w \<noteq> 0"
  shows "bit (w AND NOT (2 ^ trailing_zeros w)) n \<longleftrightarrow> bit w n \<and> n \<noteq> trailing_zeros w"
  by (auto simp: bit_and_iff bit_not_iff bit_word_exp trailing_zeros_bit [OF assms]
      possible_bit_def dest: bit_imp_le_length)

lemma finite_bits: "finite {n. bit (w::u64) n}"
  by (rule finite_subset [of _ "{..<64}"]) (auto dest: bit_imp_le_length)

text \<open>A \<open>for bit in word\<close> loop: the bits the iterator yields.\<close>

function ntfn_bits :: "u64 \<Rightarrow> nat list" where
  "ntfn_bits w = (case ntfn_next w of None \<Rightarrow> [] | Some (b, w') \<Rightarrow> b # ntfn_bits w')"
  by pat_completeness auto

termination
proof (relation "measure (\<lambda>w. card {n. bit w n})")
  fix w b w' p assume "ntfn_next w = Some p" "(b, w') = p"
  then have nz: "w \<noteq> 0" and w': "w' = w AND NOT (2 ^ trailing_zeros w)"
    by (auto simp: ntfn_next_def Let_def split: if_splits)
  have "{n. bit w' n} = {n. bit w n} - {trailing_zeros w}"
    using bit_clear_lowest [OF nz] w' by auto
  moreover have "trailing_zeros w \<in> {n. bit w n}" using trailing_zeros_bit(2) [OF nz] by simp
  ultimately show "(w', w) \<in> measure (\<lambda>w. card {n. bit w n})"
    using card_Diff1_less [OF finite_bits] by simp
qed simp

declare ntfn_bits.simps [simp del]

lemma ntfn_bits_unfold:
  "ntfn_bits w =
     (if w = 0 then [] else trailing_zeros w # ntfn_bits (w AND NOT (2 ^ trailing_zeros w)))"
  by (subst ntfn_bits.simps) (simp add: ntfn_next_def Let_def)

text \<open>The iterator yields the set bits, each once, in increasing order.\<close>

lemma ntfn_bits_spec: "set (ntfn_bits w) = {n. bit w n} \<and> sorted_wrt (<) (ntfn_bits w)"
proof (induction w rule: ntfn_bits.induct)
  case (1 w)
  show ?case
  proof (cases "w = 0")
    case True
    then show ?thesis by (simp add: ntfn_bits_unfold)
  next
    case False
    define b w' where "b = trailing_zeros w" and "w' = w AND NOT (2 ^ b)"
    have IH: "set (ntfn_bits w') = {n. bit w' n}" "sorted_wrt (<) (ntfn_bits w')"
      using 1 [of "(b, w')" b w'] False by (auto simp: ntfn_next_def Let_def b_def w'_def)
    have eq: "ntfn_bits w = b # ntfn_bits w'"
      using False by (subst ntfn_bits_unfold) (simp add: b_def w'_def)
    have bits: "bit w' n \<longleftrightarrow> bit w n \<and> n \<noteq> b" for n
      using bit_clear_lowest [OF False] by (simp add: b_def w'_def)
    have low: "bit w b" "\<forall>k<b. \<not> bit w k" using trailing_zeros_bit [OF False] by (auto simp: b_def)
    have "b < n" if "bit w' n" for n using that bits low by (metis linorder_neqE_nat)
    then show ?thesis using eq IH bits low by auto
  qed
qed

section \<open>Decoding and answering\<close>

record 'k server =
  sv_ipc :: ipc_buf
  sv_kern :: 'k

definition sv_set_ipc :: "ipc_buf \<Rightarrow> 'k server \<Rightarrow> 'k server" where
  "sv_set_ipc b sv = sv\<lparr>sv_ipc := b\<rparr>"

text \<open>\<open>recv_slot.delete().expect(...)\<close>.\<close>

definition empty_recv_slot :: "'k sel4 \<Rightarrow> abs_cptr \<Rightarrow> ('k server, 'e, unit) op" where
  "empty_recv_slot K recv sv =
     (case k_cnode_delete K recv (sv_kern sv) of
        (None, k) \<Rightarrow> (Ok (), sv\<lparr>sv_kern := k\<rparr>)
      | (Some _, k) \<Rightarrow> (Panic, sv\<lparr>sv_kern := k\<rparr>))"

text \<open>Writing the answer to the IPC buffer.\<close>

definition write_answer ::
  "(ipc_buf \<Rightarrow> (unit, msginfo \<times> ipc_buf) outcome) \<Rightarrow> ('k server, 'e, msginfo) op" where
  "write_answer f sv =
     (case f (sv_ipc sv) of Ok (mi, b) \<Rightarrow> (Ok mi, sv_set_ipc b sv) | _ \<Rightarrow> (Panic, sv))"

definition smos_serv_decode_invocation ::
  "'k sel4 \<Rightarrow> connection_kind \<Rightarrow> msginfo \<Rightarrow> abs_cptr \<Rightarrow> u8 list option \<Rightarrow>
   ('k server, msginfo option, SMOS_Invocation) op" where
  "smos_serv_decode_invocation K T msg recv data_buffer sv =
     (case SMOS_Invocation_new T (sv_ipc sv) msg data_buffer recv of
        (Ok iv, _) \<Rightarrow> (Ok iv, sv)
      | (Panic, _) \<Rightarrow> (Panic, sv)
      | (Err e, consumed_cap) \<Rightarrow>
          bnd (if consumed_cap then empty_recv_slot K recv else ret ()) (\<lambda>_.
          bnd (modify (\<lambda>s. sv_set_ipc (set_recv_slot recv (sv_ipc s)) s)) (\<lambda>_.
          bnd (write_answer (\<lambda>b. handle_error b e)) (\<lambda>mi. fail (Some mi)))) sv)"

definition smos_serv_cleanup ::
  "'k sel4 \<Rightarrow> SMOS_Invocation \<Rightarrow> abs_cptr \<Rightarrow> (InvocationError, SMOSReply) outcome \<Rightarrow>
   ('k server, unit, msginfo option) op" where
  "smos_serv_cleanup K iv recv r =
     bnd (if contains_cap iv
          then bnd (empty_recv_slot K recv) (\<lambda>_.
               modify (\<lambda>s. sv_set_ipc (set_recv_slot recv (sv_ipc s)) s))
          else ret ()) (\<lambda>_.
     case r of
       Ok x \<Rightarrow> bnd (write_answer (\<lambda>b. handle_reply b x)) (\<lambda>mi. ret (Some mi))
     | Err e \<Rightarrow> bnd (write_answer (\<lambda>b. handle_error b e)) (\<lambda>mi. ret (Some mi))
     | Panic \<Rightarrow> panic)"

text \<open>One round of a server: decode the message, run the handler, answer.\<close>

definition serve ::
  "'k sel4 \<Rightarrow> connection_kind \<Rightarrow> (SMOS_Invocation \<Rightarrow> ('k server, InvocationError, SMOSReply) op) \<Rightarrow>
   msginfo \<Rightarrow> abs_cptr \<Rightarrow> u8 list option \<Rightarrow> ('k server, unit, msginfo option) op" where
  "serve K T handler msg recv data sv =
     (case smos_serv_decode_invocation K T msg recv data sv of
        (Err mi, sv1) \<Rightarrow> (Ok mi, sv1)
      | (Panic, sv1) \<Rightarrow> (Panic, sv1)
      | (Ok iv, sv1) \<Rightarrow>
          (case handler iv sv1 of (r, sv2) \<Rightarrow> smos_serv_cleanup K iv recv r sv2))"

section \<open>Badges round trip\<close>

lemma unat_less_bits:
  fixes w :: u64
  assumes "unat w < 2 ^ k" and "bit w n"
  shows "n < k"
proof (rule ccontr)
  assume "\<not> n < k"
  then have "(2::nat) ^ k \<le> 2 ^ n" by (intro power_increasing) auto
  then have "unat w div 2 ^ n = 0" using assms(1) by (intro div_less) linarith
  then have "\<not> bit (unat w) n" by (simp add: bit_iff_odd)
  then show False using assms(2) by (simp add: bit_unsigned_iff)
qed

lemma bit_badge:
  "bit INVOCATION_EP_BITS n \<longleftrightarrow> False"
  "bit FAULT_EP_BITS n \<longleftrightarrow> n = 62"
proof -
  have i: "INVOCATION_EP_BITS = 0" and f: "FAULT_EP_BITS = 2 ^ 62" by (simp_all add: const_defs)
  show "bit INVOCATION_EP_BITS n \<longleftrightarrow> False" unfolding i by simp
  show "bit FAULT_EP_BITS n \<longleftrightarrow> n = 62" unfolding f bit_word_exp by auto
qed

lemma bit_ep_mask: "bit (NOT (push_bit 62 3) :: u64) n \<longleftrightarrow> n < 62"
proof -
  have eq: "(push_bit 62 3 :: u64) = 2 ^ 62 OR 2 ^ 63" by simp
  show ?thesis unfolding eq bit_not_iff bit_or_iff bit_word_exp by (auto simp: possible_bit_def)
qed

lemma and_ep_mask: "unat w < 2 ^ 62 \<Longrightarrow> w AND NOT (push_bit 62 3) = (w :: u64)"
  by (rule bit_word_eqI) (unfold bit_and_iff bit_ep_mask, blast dest: unat_less_bits)

section \<open>The receive slot\<close>

text \<open>What \<open>smos_serv_cleanup\<close> takes for granted: an invocation that contains a capability was
  received with one, and for every label but \<open>View\<close> and \<open>ConnOpen\<close> the converse holds.\<close>

lemma contains_cap_consumed:
  assumes "SMOS_Invocation_new T buf info data recv = (Ok iv, consumed)"
  shows "contains_cap iv \<Longrightarrow> consumed"
    and "consumed \<Longrightarrow> mi_label info \<noteq> invocation_label L_View \<Longrightarrow>
           mi_label info \<noteq> invocation_label L_ConnOpen \<Longrightarrow> contains_cap iv"
proof -
  have c: "consumed = consumed_recv_slot info"
    using assms by (auto simp: SMOS_Invocation_new_def Let_def split: option.splits if_splits)
  obtain l where l: "invocation_try_from (mi_label info) = Some l"
    and ok: "can_contain_wrapped_cap l \<or> \<not> consumed" "get_with l info buf data recv = Ok iv"
    using assms by (auto simp: SMOS_Invocation_new_def Let_def split: option.splits if_splits)
  show "consumed" if "contains_cap iv" using get_with_contains_cap [OF ok(2) that] c by simp
  have lab: "mi_label info = invocation_label l" using l by (rule invocation_try_from_label)
  show "contains_cap iv" if "consumed" "mi_label info \<noteq> invocation_label L_View"
    "mi_label info \<noteq> invocation_label L_ConnOpen"
    using ok that lab
    by (cases l) (auto simp: obind_eq_Ok split: if_splits simp del: invocation_label.simps)
qed

text \<open>The kernel's part in emptying the slot and answering.\<close>

lemma write_answer_kern:
  "write_answer f sv = (Ok mi, sv') \<Longrightarrow> sv_kern sv' = sv_kern sv"
  by (auto simp: write_answer_def sv_set_ipc_def split: outcome.splits)

lemma empty_recv_slot_kern:
  "empty_recv_slot K recv sv = (Ok u, sv') \<Longrightarrow> k_cnode_delete K recv (sv_kern sv) = (None, sv_kern sv')"
  by (auto simp: empty_recv_slot_def split: prod.splits option.splits)

lemma answer_no_Err [simp]:
  "empty_recv_slot K recv sv \<noteq> (Err e, sv')" "write_answer f sv \<noteq> (Err e, sv')"
  by (auto simp: empty_recv_slot_def write_answer_def split: prod.splits option.splits outcome.splits)

lemma cleanup_kern:
  assumes "smos_serv_cleanup K iv recv r sv = (Ok mi, sv')"
  shows "if contains_cap iv then k_cnode_delete K recv (sv_kern sv) = (None, sv_kern sv')
         else sv_kern sv' = sv_kern sv"
  using assms
  by (cases r)
    (auto simp: smos_serv_cleanup_def bnd_eq_Ok run_simps sv_set_ipc_def
      dest!: write_answer_kern empty_recv_slot_kern split: if_splits)

lemma decode_Err_kern:
  assumes "smos_serv_decode_invocation K T info recv data sv = (Err mi, sv')"
    and "SMOS_Invocation_new T (sv_ipc sv) info data recv = (r, consumed)"
  shows "if consumed then k_cnode_delete K recv (sv_kern sv) = (None, sv_kern sv')
         else sv_kern sv' = sv_kern sv"
  using assms
  by (cases r)
    (auto simp: smos_serv_decode_invocation_def bnd_eq_Err run_simps sv_set_ipc_def
      dest!: write_answer_kern empty_recv_slot_kern split: if_splits)

section \<open>Properties\<close>

text \<open>C11: Badges are decoded to what they were minted from: the three kinds of badge
  (\<open>INVOCATION_EP_BITS | id\<close>, \<open>FAULT_EP_BITS | id\<close>, \<open>NTFN_BIT | word\<close>) are told apart and the
  id or the notification word comes back, for every id below \<open>2 ^ 62\<close> and every word without
  the top bit.\<close>

theorem badge_roundtrip:
  assumes "unat w < 2 ^ 62" and "\<not> bit v 63"
  shows "decode_entry_type (INVOCATION_EP_BITS OR w) = Ok (Invocation w) \<and>
    decode_entry_type (FAULT_EP_BITS OR w) = Ok (Fault w) \<and>
    decode_entry_type (NTFN_BIT OR v) = Ok (Notification v)"
proof (intro conjI)
  have hi: "\<not> bit w 62" "\<not> bit w 63" using unat_less_bits [OF assms(1)] by fastforce+
  have i: "(INVOCATION_EP_BITS OR w) AND NOT (push_bit 62 3) = w"
    and f: "(FAULT_EP_BITS OR w) AND NOT (push_bit 62 3) = w"
    by (rule bit_word_eqI; unfold bit_and_iff bit_or_iff bit_ep_mask bit_badge,
        use unat_less_bits [OF assms(1)] in fastforce)+
  show "decode_entry_type (INVOCATION_EP_BITS OR w) = Ok (Invocation w)"
    unfolding decode_entry_type_eq i using hi by (simp add: bit_or_iff bit_badge)
  show "decode_entry_type (FAULT_EP_BITS OR w) = Ok (Fault w)"
    unfolding decode_entry_type_eq f using hi by (simp add: bit_or_iff bit_badge)
  have n: "(NTFN_BIT OR v) AND NOT NTFN_BIT = v"
    by (rule bit_word_eqI)
      (use assms(2) in \<open>auto simp: bit_and_iff bit_or_iff bit_not_iff bit_NTFN_BIT possible_bit_def\<close>)
  show "decode_entry_type (NTFN_BIT OR v) = Ok (Notification v)"
    unfolding decode_entry_type_eq n by (simp add: bit_or_iff bit_NTFN_BIT)
qed

theorem badge_roundtrip_witness:
  "decode_entry_type (INVOCATION_EP_BITS OR 5) = Ok (Invocation 5) \<and>
   decode_entry_type (FAULT_EP_BITS OR 5) = Ok (Fault 5) \<and>
   decode_entry_type (NTFN_BIT OR 6) = Ok (Notification 6)"
  by (rule badge_roundtrip) (simp_all add: bit_iff_odd)

text \<open>C12: Iterating over a notification word ends and yields exactly the word's set bits, each
  once, in increasing order.\<close>

theorem ntfn_word_iterates_set_bits:
  "set (ntfn_bits w) = {n. bit w n} \<and> sorted_wrt (<) (ntfn_bits w)"
  by (rule ntfn_bits_spec)

text \<open>C6: The receive slot after a round of \<open>serve\<close> that returns.  If the message came with a
  capability that was not unwrapped (and is not a \<open>View\<close> or a \<open>ConnOpen\<close>), the last thing the
  kernel did was to delete the capability in the receive slot, whether the message was
  refused or the handler failed or succeeded; without such a capability the slot is left
  alone.\<close>

theorem recv_slot_emptied:
  assumes "serve K T handler info recv data sv = (Ok rmi, sv')"
    and "mi_label info \<notin> {invocation_label L_View, invocation_label L_ConnOpen}"
  shows "if consumed_recv_slot info then \<exists>k. k_cnode_delete K recv k = (None, sv_kern sv')
         else case fst (SMOS_Invocation_new T (sv_ipc sv) info data recv) of
                Ok iv \<Rightarrow> sv_kern sv' = sv_kern (snd (handler iv sv))
              | _ \<Rightarrow> sv_kern sv' = sv_kern sv"
proof -
  obtain r consumed where new: "SMOS_Invocation_new T (sv_ipc sv) info data recv = (r, consumed)"
    by (metis surj_pair)
  then have c: "consumed = consumed_recv_slot info"
    by (auto simp: SMOS_Invocation_new_def Let_def split: option.splits if_splits)
  show ?thesis
  proof (cases r)
    case (Ok iv)
    obtain hr sv1 where h: "handler iv sv = (hr, sv1)" by (metis surj_pair)
    have "contains_cap iv = consumed"
      using contains_cap_consumed [of T "sv_ipc sv" info data recv iv consumed] new Ok assms(2) by auto
    moreover have "smos_serv_cleanup K iv recv hr sv1 = (Ok rmi, sv')"
      using assms(1) new Ok h by (simp add: serve_def smos_serv_decode_invocation_def)
    ultimately show ?thesis using cleanup_kern [of K iv recv hr sv1 rmi sv'] new Ok c h
      by (auto split: if_splits)
  next
    case (Err e)
    then obtain mi where "smos_serv_decode_invocation K T info recv data sv = (Err mi, sv')"
      using assms(1) new
      by (auto simp: serve_def smos_serv_decode_invocation_def bnd_eq_Ok run_simps
          split: prod.splits outcome.splits)
    from decode_Err_kern [OF this new] show ?thesis using new Err c by (auto split: if_splits)
  next
    case Panic
    then show ?thesis using assms(1) new
      by (simp add: serve_def smos_serv_decode_invocation_def)
  qed
qed

theorem recv_slot_emptied_witness:
  "\<exists>k. k_cnode_delete counting_kernel (slot_at 9) k =
     (None, sv_kern (snd (serve counting_kernel sDDFConnection (\<lambda>_. ret Re_sDDFProvideDataRegion)
        (mk_msginfo 41 1 1) (slot_at 9) None \<lparr>sv_ipc = \<lparr>msg_regs = (\<lambda>_. 7), caps_or_badges = (\<lambda>_. 0),
          recv_slot = slot_at 9\<rparr>, sv_kern = 3\<rparr>)))"
proof -
  let ?sv = "\<lparr>sv_ipc = \<lparr>msg_regs = (\<lambda>_. 7), caps_or_badges = (\<lambda>_. 0), recv_slot = slot_at 9\<rparr>,
              sv_kern = (3::nat)\<rparr>"
  have c: "consumed_recv_slot (mk_msginfo 41 1 1)" by (simp add: consumed_recv_slot_def)
  have l: "invocation_try_from 41 = Some L_sDDFProvideDataRegion"
    using invocation_roundtrip [of L_sDDFProvideDataRegion] by simp
  have s: "serve counting_kernel sDDFConnection (\<lambda>_. ret Re_sDDFProvideDataRegion)
      (mk_msginfo 41 1 1) (slot_at 9) None ?sv =
    (Ok (Some (mk_msginfo NoErrorLabel 0 0)), ?sv\<lparr>sv_kern := 4\<rparr>)"
    using c l
    by (simp add: serve_def smos_serv_decode_invocation_def SMOS_Invocation_new_def Let_def
        supported_defs smos_serv_cleanup_def empty_recv_slot_def write_answer_def sv_set_ipc_def
        set_recv_slot_def counting_kernel_def run_simps bnd_def)
  show ?thesis using recv_slot_emptied [OF s] c unfolding s by simp
qed

end
