(* ===== verification/Rpc.thy ===== *)
theory Rpc
  imports Client Event
begin

text \<open>
  A call from end to end: the client stub's message, delivered by the kernel, decodes on the
  server to the invocation the call stands for; the server's answer, delivered back, is read
  by the stub as the result the answer stands for.
\<close>

section \<open>The calls\<close>

datatype client_call =
    C_conn_create abs_cptr rust_str
  | C_conn_register u64 u64
  | C_irq_register u64 u64 bool abs_cptr
  | C_conn_deregister u64
  | C_conn_publish u64 abs_cptr rust_str
  | C_conn_destroy u64 nat
  | C_test_simple u64
  | C_window_create u64 u64 "abs_cptr option"
  | C_window_register u64 abs_cptr u64 u64
  | C_window_deregister u64
  | C_page_map u64 u64 u64
  | C_window_destroy HandleOrHandleCap
  | C_reply_create abs_cptr
  | C_server_handle_cap_create u64 u64 abs_cptr
  | C_process_spawn rust_str rust_str u8 "rust_str list option"
  | C_process_wait u64
  | C_load_complete u64 u64
  | C_channel_open abs_cptr abs_cptr
  | C_server_channel_create u64 abs_cptr
  | C_conn_open "(HandleOrHandleCap \<times> u8 list) option"
  | C_conn_close
  | C_obj_create "rust_str option" u64 u64 ObjAttributes "abs_cptr option"
  | C_obj_open rust_str u64 "abs_cptr option"
  | C_obj_close HandleOrHandleCap
  | C_obj_destroy HandleOrHandleCap
  | C_obj_stat HandleOrHandleCap
  | C_view HandleOrHandleCap HandleOrHandleCap u64 u64 u64 u64
  | C_unview u64
  | C_sddf_channel_register_bidirectional abs_cptr "VirtType option" abs_cptr
  | C_sddf_channel_register_recv_only abs_cptr
  | C_sddf_queue_register HandleOrHandleCap u64 QueueType
  | C_sddf_get_data_region abs_cptr
  | C_sddf_data_region_provide HandleOrHandleCap u64

fun client_stub :: "'k sel4 \<Rightarrow> 'k ep_call \<Rightarrow> client_call \<Rightarrow> ('k, client_result) stub" where
  "client_stub K call (C_conn_create slot s) = conn_create call slot s"
| "client_stub K call (C_conn_register h i) = conn_register call h i"
| "client_stub K call (C_irq_register h n e slot) = irq_register call h n e slot"
| "client_stub K call (C_conn_deregister h) = conn_deregister call h"
| "client_stub K call (C_conn_publish b slot s) = conn_publish call b slot s"
| "client_stub K call (C_conn_destroy h ep) = conn_destroy call K h ep"
| "client_stub K call (C_test_simple m) = test_simple call m"
| "client_stub K call (C_window_create v n c) = window_create call v n c"
| "client_stub K call (C_window_register h w i r) = window_register call h w i r"
| "client_stub K call (C_window_deregister h) = window_deregister call h"
| "client_stub K call (C_page_map h v a) = page_map call h v a"
| "client_stub K call (C_window_destroy h) = window_destroy call K h"
| "client_stub K call (C_reply_create c) = reply_create call c"
| "client_stub K call (C_server_handle_cap_create h i c) = server_handle_cap_create call h i c"
| "client_stub K call (C_process_spawn e f p a) = process_spawn call e f p a"
| "client_stub K call (C_process_wait h) = process_wait call h"
| "client_stub K call (C_load_complete e sp) = load_complete call e sp"
| "client_stub K call (C_channel_open c slot) = channel_open call c slot"
| "client_stub K call (C_server_channel_create h c) = server_channel_create call h c"
| "client_stub K call (C_conn_open b) = conn_open call b"
| "client_stub K call C_conn_close = conn_close call"
| "client_stub K call (C_obj_create s n r a c) = obj_create call s n r a c"
| "client_stub K call (C_obj_open s r c) = obj_open call s r c"
| "client_stub K call (C_obj_close h) = obj_close call h"
| "client_stub K call (C_obj_destroy h) = obj_destroy call K h"
| "client_stub K call (C_obj_stat h) = obj_stat call h"
| "client_stub K call (C_view w obj wo oo n r) = view call w obj wo oo n r"
| "client_stub K call (C_unview v) = unview call v"
| "client_stub K call (C_sddf_channel_register_bidirectional c k slot) =
     sddf_channel_register_bidirectional call c k slot"
| "client_stub K call (C_sddf_channel_register_recv_only c) = sddf_channel_register_recv_only call c"
| "client_stub K call (C_sddf_queue_register h n q) = sddf_queue_register call h n q"
| "client_stub K call (C_sddf_get_data_region slot) = sddf_get_data_region call slot"
| "client_stub K call (C_sddf_data_region_provide h n) = sddf_data_region_provide call h n"

fun request :: "client_call \<Rightarrow> ('k, msginfo) stub" where
  "request (C_conn_create slot s) = conn_create_req slot s"
| "request (C_conn_register h i) = conn_register_req h i"
| "request (C_irq_register h n e slot) = irq_register_req h n e slot"
| "request (C_conn_deregister h) = conn_deregister_req h"
| "request (C_conn_publish b slot s) = conn_publish_req b slot s"
| "request (C_conn_destroy h ep) = conn_destroy_req h"
| "request (C_test_simple m) = test_simple_req m"
| "request (C_window_create v n c) = window_create_req v n c"
| "request (C_window_register h w i r) = window_register_req h w i r"
| "request (C_window_deregister h) = window_deregister_req h"
| "request (C_page_map h v a) = page_map_req h v a"
| "request (C_window_destroy h) = hndl_req L_WindowDestroy h"
| "request (C_reply_create c) = reply_create_req c"
| "request (C_server_handle_cap_create h i c) = server_handle_cap_create_req h i c"
| "request (C_process_spawn e f p a) = process_spawn_req e f p a"
| "request (C_process_wait h) = process_wait_req h"
| "request (C_load_complete e sp) = load_complete_req e sp"
| "request (C_channel_open c slot) = channel_open_req c slot"
| "request (C_server_channel_create h c) = server_channel_create_req h c"
| "request (C_conn_open b) = conn_open_req b"
| "request C_conn_close = conn_close_req"
| "request (C_obj_create s n r a c) = obj_create_req s n r a c"
| "request (C_obj_open s r c) = obj_open_req s r c"
| "request (C_obj_close h) = hndl_req L_ObjClose h"
| "request (C_obj_destroy h) = hndl_req L_ObjDestroy h"
| "request (C_obj_stat h) = hndl_req L_ObjStat h"
| "request (C_view w obj wo oo n r) = view_req w obj wo oo n r"
| "request (C_unview v) = unview_req v"
| "request (C_sddf_channel_register_bidirectional c k slot) =
     sddf_channel_register_bidirectional_req c k slot"
| "request (C_sddf_channel_register_recv_only c) = sddf_channel_register_recv_only_req c"
| "request (C_sddf_queue_register h n q) = sddf_queue_register_req h n q"
| "request (C_sddf_get_data_region slot) = sddf_get_data_region_req slot"
| "request (C_sddf_data_region_provide h n) = sddf_data_region_provide_req h n"

fun call_label :: "client_call \<Rightarrow> SMOSInvocation" where
  "call_label (C_conn_create _ _) = L_ConnCreate"
| "call_label (C_conn_register _ _) = L_ConnRegister"
| "call_label (C_irq_register _ _ _ _) = L_IRQRegister"
| "call_label (C_conn_deregister _) = L_ConnDeregister"
| "call_label (C_conn_publish _ _ _) = L_ConnPublish"
| "call_label (C_conn_destroy _ _) = L_ConnDestroy"
| "call_label (C_test_simple _) = L_TestSimple"
| "call_label (C_window_create _ _ _) = L_WindowCreate"
| "call_label (C_window_register _ _ _ _) = L_WindowRegister"
| "call_label (C_window_deregister _) = L_WindowDeregister"
| "call_label (C_page_map _ _ _) = L_PageMap"
| "call_label (C_window_destroy _) = L_WindowDestroy"
| "call_label (C_reply_create _) = L_ReplyCreate"
| "call_label (C_server_handle_cap_create _ _ _) = L_ServerHandleCapCreate"
| "call_label (C_process_spawn _ _ _ _) = L_ProcSpawn"
| "call_label (C_process_wait _) = L_ProcWait"
| "call_label (C_load_complete _ _) = L_LoadComplete"
| "call_label (C_channel_open _ _) = L_ChannelOpen"
| "call_label (C_server_channel_create _ _) = L_ServerCreateChannel"
| "call_label (C_conn_open _) = L_ConnOpen"
| "call_label C_conn_close = L_ConnClose"
| "call_label (C_obj_create _ _ _ _ _) = L_ObjCreate"
| "call_label (C_obj_open _ _ _) = L_ObjOpen"
| "call_label (C_obj_close _) = L_ObjClose"
| "call_label (C_obj_destroy _) = L_ObjDestroy"
| "call_label (C_obj_stat _) = L_ObjStat"
| "call_label (C_view _ _ _ _ _ _) = L_View"
| "call_label (C_unview _) = L_Unview"
| "call_label (C_sddf_channel_register_bidirectional _ _ _) = L_sDDFChannelRegisterBidirectional"
| "call_label (C_sddf_channel_register_recv_only _) = L_sDDFChannelRegisterReceiveOnly"
| "call_label (C_sddf_queue_register _ _ _) = L_sDDFQueueRegister"
| "call_label (C_sddf_get_data_region _) = L_sDDFGetDataRegion"
| "call_label (C_sddf_data_region_provide _ _) = L_sDDFProvideDataRegion"

section \<open>What a call stands for\<close>

text \<open>\<open>ub c\<close> is the badge of the capability \<open>c\<close> when it is one to the server's endpoint: the
  kernel unwraps it then and leaves it to the receive slot \<open>recv\<close> otherwise.\<close>

definition recv_hndl ::
  "(u64 \<Rightarrow> u64 option) \<Rightarrow> abs_cptr \<Rightarrow> HandleOrHandleCap \<Rightarrow> ServerReceivedHandleOrHandleCap" where
  "recv_hndl ub recv h =
     (case h of
        Handle i \<Rightarrow> ReceivedHandle i
      | HandleCap c \<Rightarrow>
          (case ub (cap_word c) of Some b \<Rightarrow> UnwrappedHandleCap b | None \<Rightarrow> WrappedHandleCap recv))"

fun meant :: "(u64 \<Rightarrow> u64 option) \<Rightarrow> abs_cptr \<Rightarrow> client_call \<Rightarrow> SMOS_Invocation" where
  "meant ub recv (C_conn_create _ s) = I_ConnCreate \<lparr>cc_name = s\<rparr>"
| "meant ub recv (C_conn_register h i) = I_ConnRegister \<lparr>cr_publish_hndl = h, cr_client_id = i\<rparr>"
| "meant ub recv (C_irq_register h n e _) =
     I_IRQRegister \<lparr>ir_publish_hndl = h, ir_irq_num = n, ir_edge_triggered = e\<rparr>"
| "meant ub recv (C_conn_deregister h) = I_ConnDeregister \<lparr>cdr_hndl = h\<rparr>"
| "meant ub recv (C_conn_publish b _ s) = I_ConnPublish \<lparr>cp_ntfn_buffer = b, cp_name = s\<rparr>"
| "meant ub recv (C_conn_destroy h _) = I_ConnDestroy \<lparr>cd_hndl = h\<rparr>"
| "meant ub recv (C_window_create v n c) =
     I_WindowCreate \<lparr>wc_base_vaddr = v, wc_size = n, wc_return_cap = (c \<noteq> None)\<rparr>"
| "meant ub recv (C_window_register h w i r) =
     I_WindowRegister \<lparr>wr_publish_hndl = h, wr_window_hndl = the (ub (cap_word w)),
                       wr_client_id = i, wr_reference = r\<rparr>"
| "meant ub recv (C_window_deregister h) = I_WindowDeregister \<lparr>wdr_hndl = h\<rparr>"
| "meant ub recv (C_page_map h v a) =
     I_PageMap \<lparr>pm_window_registration_hndl = h, pm_view_offset = v, pm_content_vaddr = a\<rparr>"
| "meant ub recv (C_window_destroy h) = I_WindowDestroy \<lparr>wd_hndl = recv_hndl ub recv h\<rparr>"
| "meant ub recv (C_reply_create _) = I_ReplyCreate"
| "meant ub recv (C_server_handle_cap_create h i _) =
     I_ServerHandleCapCreate \<lparr>sh_publish_hndl = h, sh_ident = i\<rparr>"
| "meant ub recv (C_process_spawn e f p a) =
     I_ProcessSpawn \<lparr>ps_exec_name = e, ps_fs_name = f, ps_prio = p,
                     ps_args = (if a = Some [] then None else a)\<rparr>"
| "meant ub recv (C_process_wait h) = I_ProcessWait \<lparr>pw_hndl = h\<rparr>"
| "meant ub recv (C_load_complete e sp) = I_LoadComplete \<lparr>lc_entry_point = e, lc_sp = sp\<rparr>"
| "meant ub recv (C_channel_open c _) = I_ChannelOpen \<lparr>cho_hndl_cap = the (ub (cap_word c))\<rparr>"
| "meant ub recv (C_server_channel_create h _) = I_ServerCreateChannel \<lparr>sc_publish_hndl = h\<rparr>"
| "meant ub recv (C_conn_open b) =
     I_ConnOpen \<lparr>co_shared_buf_obj =
       map_option (\<lambda>(h, bytes). (recv_hndl ub recv h, of_nat (length bytes))) b\<rparr>"
| "meant ub recv C_conn_close = I_ConnClose"
| "meant ub recv (C_obj_create s n r a c) =
     I_ObjCreate \<lparr>oc_name = s, oc_size = n, oc_rights = r, oc_attributes = a,
                  oc_return_cap = (c \<noteq> None)\<rparr>"
| "meant ub recv (C_obj_open s r c) =
     I_ObjOpen \<lparr>oo_name = s, oo_rights = r, oo_return_cap = (c \<noteq> None)\<rparr>"
| "meant ub recv (C_obj_close h) = I_ObjClose \<lparr>ocl_hndl = recv_hndl ub recv h\<rparr>"
| "meant ub recv (C_obj_destroy h) = I_ObjDestroy \<lparr>od_hndl = recv_hndl ub recv h\<rparr>"
| "meant ub recv (C_obj_stat h) = I_ObjStat \<lparr>os_hndl = recv_hndl ub recv h\<rparr>"
| "meant ub recv (C_view w obj wo oo n r) =
     I_View \<lparr>vw_window = recv_hndl ub recv w, vw_object = recv_hndl ub recv obj,
             vw_window_offset = wo, vw_obj_offset = oo, vw_size = n, vw_rights = r\<rparr>"
| "meant ub recv (C_unview v) = I_Unview \<lparr>uv_hndl = v\<rparr>"
| "meant ub recv (C_sddf_channel_register_bidirectional _ k _) =
     I_sDDFChannelRegisterBidirectional \<lparr>sb_channel_hndl_cap = recv, sb_virt_type = k\<rparr>"
| "meant ub recv (C_sddf_channel_register_recv_only _) =
     I_sDDFChannelRegisterRecvOnly \<lparr>sr_channel_hndl_cap = recv\<rparr>"
| "meant ub recv (C_sddf_queue_register _ n q) =
     I_sDDFQueueRegister \<lparr>sq_hndl_cap = recv, sq_size = n, sq_queue_type = q\<rparr>"
| "meant ub recv (C_sddf_get_data_region _) = I_sDDFGetDataRegion"
| "meant ub recv (C_sddf_data_region_provide _ n) =
     I_sDDFProvideDataRegion \<lparr>sp_hndl_cap = recv, sp_size = n\<rparr>"

text \<open>The calls that get through: strings without NUL, handle capabilities of the server itself
  where it has to find the object behind them, of another server where it only passes them on,
  and handles of \<open>view\<close> other than the marker \<open>u64::MAX\<close>.\<close>

definition own_hndl :: "(u64 \<Rightarrow> u64 option) \<Rightarrow> HandleOrHandleCap \<Rightarrow> bool" where
  "own_hndl ub h = (case h of Handle _ \<Rightarrow> True | HandleCap c \<Rightarrow> ub (cap_word c) \<noteq> None)"

definition foreign_cap :: "(u64 \<Rightarrow> u64 option) \<Rightarrow> HandleOrHandleCap \<Rightarrow> bool" where
  "foreign_cap ub h = (case h of Handle _ \<Rightarrow> False | HandleCap c \<Rightarrow> ub (cap_word c) = None)"

definition not_marker :: "HandleOrHandleCap \<Rightarrow> bool" where
  "not_marker h = (case h of Handle i \<Rightarrow> i \<noteq> -1 | HandleCap _ \<Rightarrow> True)"

fun call_ok :: "(u64 \<Rightarrow> u64 option) \<Rightarrow> client_call \<Rightarrow> bool" where
  "call_ok ub (C_conn_create _ s) = c_str s"
| "call_ok ub (C_conn_publish _ _ s) = c_str s"
| "call_ok ub (C_test_simple _) = False"
| "call_ok ub (C_window_register _ w _ _) = (ub (cap_word w) \<noteq> None)"
| "call_ok ub (C_window_destroy h) = own_hndl ub h"
| "call_ok ub (C_process_spawn e f _ a) =
     (c_str e \<and> c_str f \<and>
      (case a of None \<Rightarrow> True | Some v \<Rightarrow> list_all c_str v \<and> length v < usize_lim))"
| "call_ok ub (C_channel_open c _) = (ub (cap_word c) \<noteq> None)"
| "call_ok ub (C_obj_create s _ _ _ _) = (case s of None \<Rightarrow> True | Some n \<Rightarrow> c_str n)"
| "call_ok ub (C_obj_open s _ _) = c_str s"
| "call_ok ub (C_obj_close h) = own_hndl ub h"
| "call_ok ub (C_obj_destroy h) = own_hndl ub h"
| "call_ok ub (C_obj_stat h) = own_hndl ub h"
| "call_ok ub (C_view w obj _ _ _ _) = (not_marker w \<and> not_marker obj \<and> own_hndl ub obj)"
| "call_ok ub (C_sddf_channel_register_bidirectional c _ _) = (ub (cap_word c) = None)"
| "call_ok ub (C_sddf_channel_register_recv_only c) = (ub (cap_word c) = None)"
| "call_ok ub (C_sddf_queue_register h _ _) = foreign_cap ub h"
| "call_ok ub (C_sddf_data_region_provide h _) = foreign_cap ub h"
| "call_ok ub _ = True"

section \<open>Writing and reading strings\<close>

lemma put_str_Ok:
  "put_str off s cl = (Ok off', cl') \<longleftrightarrow>
     (\<exists>buf. cl_buf cl = Some buf \<and> length s + 1 \<le> length buf - off \<and> off' = off + length s + 1 \<and>
        cl' = cl\<lparr>cl_buf := Some (take off buf @ s @ 0 # drop (off + length s + 1) buf)\<rparr>)"
  by (auto simp: put_str_def copy_terminated_rust_string_to_buffer_def drop_drop add.commute
      split: option.splits if_splits)

lemma put_strs_Ok:
  assumes "put_strs off ss cl = (Ok off', cl')" and "cl_buf cl = Some buf" and "off \<le> length buf"
  shows "\<exists>rest. cl_buf cl' = Some (take off buf @ terminated ss @ rest) \<and> cl_ipc cl' = cl_ipc cl"
  using assms
proof (induction ss arbitrary: off cl buf)
  case Nil
  then show ?case by (auto simp: run_simps intro: exI [of _ "drop off buf"])
next
  case (Cons s ss)
  then obtain cl1 where p: "put_str off s cl = (Ok (off + length s + 1), cl1)"
    and r: "put_strs (off + length s + 1) ss cl1 = (Ok off', cl')"
    by (auto simp: bnd_eq_Ok put_str_Ok)
  define buf1 where "buf1 = take off buf @ s @ 0 # drop (off + length s + 1) buf"
  have le: "length s + 1 \<le> length buf - off"
    and cl1: "cl1 = cl\<lparr>cl_buf := Some buf1\<rparr>" using p Cons.prems(2) by (auto simp: put_str_Ok buf1_def)
  have "length buf1 = length buf" using le Cons.prems(3) by (simp add: buf1_def)
  moreover have "take (off + length s + 1) buf1 = take off buf @ s @ [0]"
    using le Cons.prems(3) by (simp add: buf1_def)
  ultimately show ?case
    using Cons.IH [OF r, of buf1] le cl1 by auto
qed

lemma read_strs_terminated:
  "list_all c_str ss \<Longrightarrow> read_strs (length ss) (terminated ss @ rest) = Ok (ss, rest)"
  by (induction ss) (simp_all add: rust_str_from_buffer_nul)

section \<open>Delivery of a request\<close>

lemma delivered_no_caps:
  assumes "delivered ub mi b info buf" and "mi_extra_caps mi = 0"
  shows "mi_caps_unwrapped info = 0"
  using assms by (intro bit_eqI) (simp add: delivered_def)

lemma delivered_one_cap:
  assumes "delivered ub mi b info buf" and "mi_extra_caps mi = 1"
  shows "ub (caps_or_badges b 0) = Some badge \<Longrightarrow>
           mi_caps_unwrapped info = 1 \<and> caps_or_badges buf 0 = badge"
    and "ub (caps_or_badges b 0) = None \<Longrightarrow> mi_caps_unwrapped info = 0"
proof -
  have hi: "\<not> bit (mi_caps_unwrapped info) n" if "n \<noteq> 0" for n
    using assms that by (simp add: delivered_def)
  have lo: "case ub (caps_or_badges b 0) of
      Some badge \<Rightarrow> bit (mi_caps_unwrapped info) 0 \<and> caps_or_badges buf 0 = badge
    | None \<Rightarrow> \<not> bit (mi_caps_unwrapped info) 0"
    using assms by (auto simp: delivered_def)
  show "mi_caps_unwrapped info = 1 \<and> caps_or_badges buf 0 = badge"
    if "ub (caps_or_badges b 0) = Some badge"
  proof -
    have "bit (mi_caps_unwrapped info) n = bit (1 :: u64) n" for n
      using hi [of n] lo that by (cases "n = 0") (simp_all add: bit_1_iff)
    then show ?thesis using lo that by (simp add: bit_eq_iff)
  qed
  show "mi_caps_unwrapped info = 0" if "ub (caps_or_badges b 0) = None"
  proof (rule bit_eqI)
    fix n show "bit (mi_caps_unwrapped info) n = bit 0 n"
      using hi [of n] lo that by (cases "n = 0") simp_all
  qed
qed

lemma delivered_cap_at:
  assumes "delivered ub mi b info buf" and "i < mi_extra_caps mi"
  shows "ub (caps_or_badges b i) = Some badge \<Longrightarrow>
           mi_caps_unwrapped info AND 2 ^ i \<noteq> 0 \<and> caps_or_badges buf i = badge"
    and "ub (caps_or_badges b i) = None \<Longrightarrow> mi_caps_unwrapped info AND 2 ^ i = 0"
proof -
  have "case ub (caps_or_badges b i) of
      Some badge \<Rightarrow> bit (mi_caps_unwrapped info) i \<and> caps_or_badges buf i = badge
    | None \<Rightarrow> \<not> bit (mi_caps_unwrapped info) i"
    using assms by (simp add: delivered_def)
  then show "ub (caps_or_badges b i) = Some badge \<Longrightarrow>
           mi_caps_unwrapped info AND 2 ^ i \<noteq> 0 \<and> caps_or_badges buf i = badge"
    and "ub (caps_or_badges b i) = None \<Longrightarrow> mi_caps_unwrapped info AND 2 ^ i = 0"
    using and_exp_bit [of "mi_caps_unwrapped info" i] by auto
qed

lemma not_consumed:
  "mi_extra_caps info = 0 \<Longrightarrow> \<not> consumed_recv_slot info"
  "mi_extra_caps info = Suc 0 \<Longrightarrow> mi_caps_unwrapped info = 1 \<Longrightarrow> \<not> consumed_recv_slot info"
  by (simp_all add: consumed_recv_slot_def)

lemma new_get_with:
  assumes "mi_label info = invocation_label l" and "is_supported T l"
    and "can_contain_wrapped_cap l \<or> \<not> consumed_recv_slot info"
  shows "fst (SMOS_Invocation_new T buf info data recv) = get_with l info buf data recv"
  using assms by (auto simp: SMOS_Invocation_new_def Let_def simp del: invocation_label.simps)

lemma word_of_bool_nz [simp]: "(word_of_bool b \<noteq> 0) = b" "(word_of_bool b = 0) = (\<not> b)"
  by (simp_all add: word_of_bool_def)

text \<open>The request a stub sends, in terms of the client's state after it.\<close>

lemma send_run [run_simps]: "send f mi cl = (Ok mi, cl\<lparr>cl_ipc := f (cl_ipc cl)\<rparr>)"
  by (simp add: send_def ipc_write_def bnd_def modify_def ret_def)

lemma ipc_write_run [run_simps]: "ipc_write f cl = (Ok (), cl\<lparr>cl_ipc := f (cl_ipc cl)\<rparr>)"
  by (simp add: ipc_write_def modify_def)

lemma request_info_sel [simp]:
  "mi_label (request_info l n c) = invocation_label l"
  "mi_length (request_info l n c) = n"
  "mi_extra_caps (request_info l n c) = c"
  by (simp_all add: request_info_def)

lemma set_return_cap_sel [simp]:
  "msg_regs (set_return_cap c b) = msg_regs b"
  "caps_or_badges (set_return_cap c b) = caps_or_badges b"
  by (simp_all add: set_return_cap_def split: option.splits)

section \<open>Requests decode to what they mean\<close>

lemmas request_simps = req_defs bnd_eq_Ok put_str_Ok run_simps new_get_with not_consumed
  decode_str_def decode_obj_create_def decode_hndl_def decode_obj_stat_def with_length_def
  decode_channel_bidirectional_def decode_queue_register_def rust_str_from_buffer_nul
  own_hndl_def foreign_cap_def recv_hndl_def

lemma u8_widen:
  fixes p :: u8
  shows "unat (ucast p :: u64) < 256" and "ucast (ucast p :: u64) = p"
proof -
  have "unat p < 2 ^ LENGTH(8)" by (rule unsigned_less)
  then show "unat (ucast p :: u64) < 256" by (simp add: unsigned_ucast_eq take_bit_nat_eq_self)
  show "ucast (ucast p :: u64) = p"
    by (rule bit_word_eqI) (auto simp: bit_simps dest: bit_imp_le_length)
qed

lemma view_hndl_cases:
  assumes "view_hndl r n h = (f, m)" and "not_marker h"
  obtains (handle) i where "h = Handle i" "f = set_reg r i" "m = n" "i \<noteq> -1"
  | (cap) c where "h = HandleCap c" "f = set_reg r (-1) \<circ> set_cap n (cap_word c)" "m = n + 1"
  using assms by (cases h) (auto simp: view_hndl_def not_marker_def)

lemma request_decodes_view:
  assumes req: "request (C_view w obj wo oo n r) cl = (Ok mi, cl')"
    and del: "delivered ub mi (cl_ipc cl') info buf"
    and ok: "call_ok ub (C_view w obj wo oo n r)" and sup: "is_supported T L_View"
  shows "fst (SMOS_Invocation_new T buf info data recv) = Ok (meant ub recv (C_view w obj wo oo n r))"
proof -
  obtain f k g m where f: "view_hndl 0 0 w = (f, k)" and g: "view_hndl 1 k obj = (g, m)"
    by (metis surj_pair)
  have mi: "mi = request_info L_View 6 m"
    and b: "cl_ipc cl' = (set_reg 5 r \<circ> set_reg 4 n \<circ> set_reg 3 oo \<circ> set_reg 2 wo \<circ> g \<circ> f) (cl_ipc cl)"
    using req f g by (auto simp: req_defs run_simps)
  have w: "not_marker w" and o: "not_marker obj" "own_hndl ub obj" using ok by auto
  note reg = delivered_reg [OF del] and lab = delivered_sel [OF del]
  have caps: "i < m \<Longrightarrow> ub (caps_or_badges (cl_ipc cl') i) = Some badge \<Longrightarrow>
      mi_caps_unwrapped info AND 2 ^ i \<noteq> 0 \<and> caps_or_badges buf i = badge"
    "i < m \<Longrightarrow> ub (caps_or_badges (cl_ipc cl') i) = None \<Longrightarrow> mi_caps_unwrapped info AND 2 ^ i = 0" for i badge
    using delivered_cap_at [OF del] mi by auto
  have win: "decode_view_window info buf recv = Ok (recv_hndl ub recv w, k)"
    using f w 
  proof (cases rule: view_hndl_cases)
    case (handle i) then show ?thesis using g o reg b mi
      by (auto simp: decode_view_window_def recv_hndl_def elim!: view_hndl_cases)
  next
    case (cap c) then show ?thesis using g o reg b mi lab caps [of 0]
      by (auto simp: decode_view_window_def recv_hndl_def Let_def split: option.splits elim!: view_hndl_cases)
  qed
  have obj: "decode_view_object info buf k = Ok (recv_hndl ub recv obj)"
    using g o(1)
  proof (cases rule: view_hndl_cases)
    case (handle i) then show ?thesis using reg b mi
      by (auto simp: decode_view_object_def recv_hndl_def)
  next
    case (cap c) then show ?thesis using o reg b mi lab caps [of k]
      by (auto simp: decode_view_object_def recv_hndl_def own_hndl_def Let_def split: option.splits)
  qed
  have "fst (SMOS_Invocation_new T buf info data recv) = get_with L_View info buf data recv"
    by (rule new_get_with) (use lab mi sup in auto)
  then show ?thesis using win obj reg mi b by simp
qed

lemma request_decodes_conn_open:
  assumes "request (C_conn_open x) cl = (Ok mi, cl')" and del: "delivered ub mi (cl_ipc cl') info buf"
    and "is_supported T L_ConnOpen"
  shows "fst (SMOS_Invocation_new T buf info data recv) = Ok (meant ub recv (C_conn_open x))"
proof -
  note reg = delivered_reg [OF del] and lab = delivered_sel [OF del]
    and nocap = delivered_no_caps [OF del] and onecap = delivered_one_cap [OF del]
  have new: "fst (SMOS_Invocation_new T buf info data recv) = get_with L_ConnOpen info buf data recv"
    by (rule new_get_with) (use lab assms in \<open>auto simp: req_defs run_simps split: option.splits HandleOrHandleCap.splits\<close>)
  show ?thesis using assms(1) reg lab nocap onecap unfolding new
    by (auto simp: req_defs run_simps decode_conn_open_def recv_hndl_def
         split: option.splits HandleOrHandleCap.splits)
qed

lemma request_decodes_process_spawn:
  assumes "request (C_process_spawn e f p a) cl = (Ok mi, cl')"
    and del: "delivered ub mi (cl_ipc cl') info buf"
    and ok: "call_ok ub (C_process_spawn e f p a)" and sup: "is_supported T L_ProcSpawn"
  shows "fst (SMOS_Invocation_new T buf info (cl_buf cl') recv) =
           Ok (meant ub recv (C_process_spawn e f p a))"
proof -
  note reg = delivered_reg [OF del] and lab = delivered_sel [OF del]
    and nocap = delivered_no_caps [OF del]
  define v where "v = (case a of Some v \<Rightarrow> v | None \<Rightarrow> [])"
  obtain o1 o2 o3 cl1 cl2 cl3 where
    s: "put_str 0 e cl = (Ok o1, cl1)" "put_str o1 f cl1 = (Ok o2, cl2)" "put_strs o2 v cl2 = (Ok o3, cl3)"
    and mi: "mi = request_info L_ProcSpawn 2 0"
    and cl': "cl' = cl3\<lparr>cl_ipc := (set_reg 1 (ucast p) \<circ>
              set_reg 0 (case a of None \<Rightarrow> 0 | Some v \<Rightarrow> of_nat (length v))) (cl_ipc cl3)\<rparr>"
    using assms(1) by (auto simp: req_defs bnd_eq_Ok run_simps v_def)
  obtain buf2 where b2: "cl_buf cl2 = Some buf2" "o2 \<le> length buf2" "take o2 buf2 = e @ 0 # f @ [0]"
    using s(1,2) by (auto simp: put_str_Ok)
  obtain rest where data: "cl_buf cl' = Some (e @ 0 # f @ 0 # terminated v @ rest)"
    using put_strs_Ok [OF s(3) b2(1,2)] b2(3) cl' by auto
  have n: "msg_regs buf 0 = of_nat (length v)" "msg_regs buf 1 = ucast p"
    using reg mi cl' by (auto simp: v_def split: option.splits)
  have len: "length v < usize_lim" and cs: "c_str e" "c_str f" "list_all c_str v"
    using ok by (auto simp: v_def split: option.splits)
  have u: "unat (msg_regs buf 0) = length v" using n len by (simp add: unat_of_nat take_bit_nat_eq_self)
  note p = u8_widen [of p]
  have z: "msg_regs buf 0 = 0 \<longleftrightarrow> v = []" using u by (metis length_0_conv unat_eq_zero)
  have "decode_proc_spawn info buf (cl_buf cl') =
    Ok \<lparr>ps_exec_name = e, ps_fs_name = f, ps_prio = p, ps_args = (if a = Some [] then None else a)\<rparr>"
    using lab mi cs u z n p read_strs_terminated [OF cs(3), of rest]
    by (cases a) (auto simp: decode_proc_spawn_def data rust_str_from_buffer_nul v_def)
  moreover have "fst (SMOS_Invocation_new T buf info (cl_buf cl') recv) = get_with L_ProcSpawn info buf (cl_buf cl') recv"
    by (rule new_get_with) (use lab mi sup not_consumed in auto)
  ultimately show ?thesis by simp
qed

lemma request_decodes:
  assumes req: "request c cl = (Ok mi, cl')" and del: "delivered ub mi (cl_ipc cl') info buf"
    and ok: "call_ok ub c" and sup: "is_supported T (call_label c)"
  shows "fst (SMOS_Invocation_new T buf info (cl_buf cl') recv) = Ok (meant ub recv c)"
proof -
  note facts = req ok sup delivered_reg [OF del] delivered_sel [OF del] delivered_no_caps [OF del] delivered_one_cap [OF del]
  show ?thesis
  proof (cases c)
    case (C_view x1 x2 x3 x4 x5 x6)
    then show ?thesis using request_decodes_view [of x1 x2 x3 x4 x5 x6 cl mi cl' ub info buf T] assms by simp
  next
    case (C_conn_open x)
    then show ?thesis using request_decodes_conn_open [of x cl mi cl' ub info buf T] assms by simp
  next
    case (C_process_spawn x1 x2 x3 x4)
    then show ?thesis using request_decodes_process_spawn [of x1 x2 x3 x4 cl mi cl' ub info buf T] assms by simp
  qed (use facts in \<open>auto simp: request_simps split: HandleOrHandleCap.splits option.splits
         simp del: is_supported.simps invocation_label.simps\<close>)
qed
section \<open>Replies are read as what they mean\<close>

text \<open>The result a reply stands for, when it is one that answers the call.\<close>

fun hndl_result :: "abs_cptr option \<Rightarrow> HandleOrHandleCap \<Rightarrow> client_result option" where
  "hndl_result (Some slot) (HandleCap _) = Some (R_HndlCap (HandleCap slot))"
| "hndl_result None (Handle h) = Some (R_HndlCap (Handle h))"
| "hndl_result _ _ = None"

fun reply_result :: "client_call \<Rightarrow> SMOSReply \<Rightarrow> client_result option" where
  "reply_result (C_conn_create slot _) r = (case r of Re_ConnCreate h _ \<Rightarrow> Some (R_Conn h slot) | _ \<Rightarrow> None)"
| "reply_result (C_conn_register _ _) r = (case r of Re_ConnRegister h \<Rightarrow> Some (R_Hndl h) | _ \<Rightarrow> None)"
| "reply_result (C_irq_register _ _ _ slot) r = (case r of Re_IRQRegister h _ b \<Rightarrow> Some (R_IRQ h b slot) | _ \<Rightarrow> None)"
| "reply_result (C_conn_deregister _) r = (case r of Re_ConnDeregister \<Rightarrow> Some R_Unit | _ \<Rightarrow> None)"
| "reply_result (C_conn_publish _ slot _) r = (case r of Re_ConnPublish h _ \<Rightarrow> Some (R_Conn h slot) | _ \<Rightarrow> None)"
| "reply_result (C_conn_destroy _ _) r = (case r of Re_ConnDestroy \<Rightarrow> Some R_Unit | _ \<Rightarrow> None)"
| "reply_result (C_window_create _ _ c) r = (case r of Re_WindowCreate h \<Rightarrow> hndl_result c h | _ \<Rightarrow> None)"
| "reply_result (C_window_register _ _ _ _) r = (case r of Re_WindowRegister h \<Rightarrow> Some (R_Hndl h) | _ \<Rightarrow> None)"
| "reply_result (C_window_deregister _) r = (case r of Re_WindowDeregister \<Rightarrow> Some R_Unit | _ \<Rightarrow> None)"
| "reply_result (C_page_map _ _ _) r = (case r of Re_PageMap \<Rightarrow> Some R_Unit | _ \<Rightarrow> None)"
| "reply_result (C_window_destroy _) r = (case r of Re_WindowDestroy \<Rightarrow> Some R_Unit | _ \<Rightarrow> None)"
| "reply_result (C_reply_create slot) r = (case r of Re_ReplyCreate h _ \<Rightarrow> Some (R_Reply h slot) | _ \<Rightarrow> None)"
| "reply_result (C_server_handle_cap_create _ _ slot) r = (case r of Re_ServerHandleCapCreate h _ \<Rightarrow> Some (R_Conn h slot) | _ \<Rightarrow> None)"
| "reply_result (C_process_spawn _ _ _ _) r = (case r of Re_ProcessSpawn h \<Rightarrow> Some (R_Hndl h) | _ \<Rightarrow> None)"
| "reply_result (C_load_complete _ _) r = (case r of Re_LoadComplete \<Rightarrow> Some R_Unit | _ \<Rightarrow> None)"
| "reply_result (C_channel_open _ slot) r = (case r of Re_ChannelOpen _ \<Rightarrow> Some (R_Channel slot) | _ \<Rightarrow> None)"
| "reply_result (C_server_channel_create _ slot) r = (case r of Re_ServerCreateChannel b _ \<Rightarrow> Some (R_ServerChannel b slot) | _ \<Rightarrow> None)"
| "reply_result (C_conn_open _) r = (case r of Re_ConnOpen \<Rightarrow> Some R_Unit | _ \<Rightarrow> None)"
| "reply_result C_conn_close r = (case r of Re_ConnClose \<Rightarrow> Some R_Unit | _ \<Rightarrow> None)"
| "reply_result (C_obj_create _ _ _ _ c) r = (case r of Re_ObjCreate h \<Rightarrow> hndl_result c h | _ \<Rightarrow> None)"
| "reply_result (C_obj_open _ _ c) r = (case r of Re_ObjOpen h \<Rightarrow> hndl_result c h | _ \<Rightarrow> None)"
| "reply_result (C_obj_close _) r = (case r of Re_ObjClose \<Rightarrow> Some R_Unit | _ \<Rightarrow> None)"
| "reply_result (C_obj_destroy _) r = (case r of Re_ObjDestroy \<Rightarrow> Some R_Unit | _ \<Rightarrow> None)"
| "reply_result (C_obj_stat _) r = (case r of Re_ObjStat d \<Rightarrow> (if st_paddr d = Some 0 then None else Some (R_Stat d)) | _ \<Rightarrow> None)"
| "reply_result (C_view _ _ _ _ _ _) r = (case r of Re_View h \<Rightarrow> Some (R_Hndl h) | _ \<Rightarrow> None)"
| "reply_result (C_unview _) r = (case r of Re_Unview \<Rightarrow> Some R_Unit | _ \<Rightarrow> None)"
| "reply_result (C_sddf_channel_register_bidirectional _ _ slot) r = (case r of Re_sDDFChannelRegisterBidirectional _ \<Rightarrow> Some (R_Cap slot) | _ \<Rightarrow> None)"
| "reply_result (C_sddf_channel_register_recv_only _) r = (case r of Re_sDDFChannelRegisterRecvOnly \<Rightarrow> Some R_Unit | _ \<Rightarrow> None)"
| "reply_result (C_sddf_queue_register _ _ _) r = (case r of Re_sDDFQueueRegister \<Rightarrow> Some R_Unit | _ \<Rightarrow> None)"
| "reply_result (C_sddf_get_data_region slot) r = (case r of Re_sDDFGetDataRegion _ \<Rightarrow> Some (R_HndlCap (HandleCap slot)) | _ \<Rightarrow> None)"
| "reply_result (C_sddf_data_region_provide _ _) r = (case r of Re_sDDFProvideDataRegion \<Rightarrow> Some R_Unit | _ \<Rightarrow> None)"
| "reply_result _ r = None"

text \<open>The slot a destroying call frees, and when it can: the kernel accepts the deletion.\<close>

fun cleanup_slot :: "client_call \<Rightarrow> nat option" where
  "cleanup_slot (C_conn_destroy _ ep) = Some ep"
| "cleanup_slot (C_window_destroy (HandleCap c)) = Some (ac_bits c)"
| "cleanup_slot (C_obj_destroy (HandleCap c)) = Some (ac_bits c)"
| "cleanup_slot _ = None"

definition cleanup_ok :: "'k sel4 \<Rightarrow> client_call \<Rightarrow> 'k client \<Rightarrow> bool" where
  "cleanup_ok K c cl \<longleftrightarrow>
     (case cleanup_slot c of
        None \<Rightarrow> True
      | Some s \<Rightarrow> s < 256 \<and> ucs_inv (cl_cspace cl) \<and>
          fst (k_cnode_delete K \<lparr>ac_root = ucs_root_cnode (cl_cspace cl), ac_bits = s, ac_depth = 64\<rparr>
                 (cl_kern cl)) = None)"

lemma drop_slot_Ok:
  assumes "s < 256" and "ucs_inv (cl_cspace cl)"
    and "fst (k_cnode_delete K \<lparr>ac_root = ucs_root_cnode (cl_cspace cl), ac_bits = s, ac_depth = 64\<rparr>
               (cl_kern cl)) = None"
  shows "fst (drop_slot K s cl) = Ok ()"
proof -
  have "\<exists>k. ucs_delete K (cl_cspace cl) s (cl_kern cl) = (Ok (), k)"
    using assms(3) by (auto simp: ucs_delete_def prod_eq_iff split: prod.splits)
  then obtain k where k: "ucs_delete K (cl_cspace cl) s (cl_kern cl) = (Ok (), k)" by blast
  obtain cs where "ucs_free_slot s (cl_cspace cl) = (Ok (), cs)"
    using assms(1,2) by (auto elim: ucs_free_spec)
  with k show ?thesis by (simp add: drop_slot_def bnd_def)
qed

lemma invoke_run:
  assumes "req cl = (Ok mi, cl1)" and "call mi cl1 = (mi', cl2)"
  shows "invoke call req k cl =
    (case try_unpack_error (mi_label mi') (msg_regs (cl_ipc cl2)) of
       Ok _ \<Rightarrow> k mi' cl2 | Err e \<Rightarrow> (Err e, cl2) | Panic \<Rightarrow> (Panic, cl2))"
  using assms by (simp add: invoke_def bnd_def split: outcome.splits)

text \<open>The stub of a call sends the call's request and then reads the reply.\<close>

lemma stub_invokes: "\<exists>k. client_stub K call c = invoke call (request c) k"
  by (cases c) (auto simp: stub_defs)

lemma bnd_fst: "fst (m s) = Ok () \<Longrightarrow> fst (bnd m (\<lambda>_. ret x) s) = Ok x"
  by (cases "m s") (simp add: bnd_def ret_def)

lemmas reply_simps = stub_defs run_simps invoke_run ret_unit_def ret_hndl_def ret_hndl_or_cap_def
  reply_reg_def one_wrapped_cap_def set_buf_def u8_widen hndl_result.simps

lemma stub_reads_reply:
  assumes req: "request c cl = (Ok mi, cl1)" and call: "call mi cl1 = (info, cl2)"
    and rep: "handle_reply sb r = Ok (rmi, sb')" and del: "delivered (\<lambda>_. None) rmi sb' info (cl_ipc cl2)"
    and res: "reply_result c r = Some x" and cl: "cleanup_ok K c cl2"
  shows "fst (client_stub K call c cl) = Ok x"
proof -
  have "mi_label rmi = NoErrorLabel" using rep by (cases r) (auto elim: match_hndl_or_hndl_cap.elims)
  then have lab: "mi_label info = NoErrorLabel" using delivered_sel [OF del] by simp
  have run: "client_stub K call c cl = k info cl2" if "client_stub K call c = invoke call (request c) k" for k
    using invoke_run [of "request c" cl mi cl1 call info cl2 k] req call lab that by simp
  note facts = run res rep delivered_reg [OF del] delivered_sel [OF del] delivered_none_unwrapped [OF del]
  show ?thesis
  proof (cases c)
    case (C_conn_destroy h ep)
    then show ?thesis using facts cl
      by (auto simp: reply_simps cleanup_ok_def bnd_fst drop_slot_Ok split: SMOSReply.splits)
  next
    case (C_window_destroy h)
    then show ?thesis using facts cl
      by (auto simp: reply_simps cleanup_ok_def bnd_fst drop_hndl_def drop_slot_Ok
          split: SMOSReply.splits HandleOrHandleCap.splits)
  next
    case (C_obj_destroy h)
    then show ?thesis using facts cl
      by (auto simp: reply_simps cleanup_ok_def bnd_fst drop_hndl_def drop_slot_Ok
          split: SMOSReply.splits HandleOrHandleCap.splits)
  next
    case (C_conn_open b)
    then show ?thesis using facts
      by (cases b) (auto simp: reply_simps split: SMOSReply.splits)
  next
    case (C_obj_stat h)
    then show ?thesis using facts
      by (auto simp: reply_simps split: SMOSReply.splits if_splits option.splits)
  qed (use facts in \<open>auto simp: reply_simps split: SMOSReply.splits elim!: hndl_result.elims\<close>)
qed

lemma stub_reads_error:
  assumes "request c cl = (Ok mi, cl1)" and "call mi cl1 = (info, cl2)" and "transmissible e"
    and "handle_error sb e = Ok (rmi, sb')" and "delivered ub rmi sb' info (cl_ipc cl2)"
  shows "fst (client_stub K call c cl) = Err e"
proof -
  obtain k where "client_stub K call c = invoke call (request c) k" using stub_invokes by blast
  then show ?thesis
    using invoke_run [where req = "request c" and call = call and k = k, OF assms(1,2)] error_transport [OF assms(3-5)] by simp
qed

text \<open>What the client gets from the handler's outcome.\<close>

definition call_result ::
  "client_call \<Rightarrow> (InvocationError, SMOSReply) outcome \<Rightarrow> (InvocationError, client_result) outcome option" where
  "call_result c hr =
     (case hr of
        Ok r \<Rightarrow> map_option Ok (reply_result c r)
      | Err e \<Rightarrow> if transmissible e then Some (Err e) else None
      | Panic \<Rightarrow> None)"

lemma write_answer_Ok:
  "write_answer f sv = (Ok mi, sv') \<Longrightarrow> f (sv_ipc sv) = Ok (mi, sv_ipc sv')"
  by (auto simp: write_answer_def sv_set_ipc_def split: outcome.splits)

lemma cleanup_Ok:
  assumes "smos_serv_cleanup K iv recv hr sv = (Ok (Some rmi), sv')"
  shows "\<exists>sb. (case hr of Ok r \<Rightarrow> handle_reply sb r | Err e \<Rightarrow> handle_error sb e | Panic \<Rightarrow> Panic) =
           Ok (rmi, sv_ipc sv')"
  using assms
  by (cases hr) (auto simp: smos_serv_cleanup_def bnd_eq_Ok run_simps dest!: write_answer_Ok)

section \<open>Properties\<close>

text \<open>C1: A remote call is the handler's call.  If the client's stub sends its request, the
  kernel delivers it, the server runs one round of \<open>serve\<close> and the kernel delivers the answer,
  then the stub returns what the handler returned for exactly the invocation the call stands
  for: the result the reply stands for, or the handler's error.  It holds for every call of
  the three client interfaces but \<open>test_simple\<close> and \<open>process_exit\<close>, on every connection that
  supports it, for arguments that get through (\<open>call_ok\<close>) and replies that answer the call.\<close>

theorem remote_call:
  assumes req: "request c cl = (Ok mi, cl1)"
    and sent: "delivered ub mi (cl_ipc cl1) info (sv_ipc sv)"
    and served: "serve KS T handler info recv (cl_buf cl1) sv = (Ok (Some rmi), sv')"
    and call: "call mi cl1 = (info', cl2)"
    and answered: "delivered (\<lambda>_. None) rmi (sv_ipc sv') info' (cl_ipc cl2)"
    and ok: "call_ok ub c" "is_supported T (call_label c)"
    and res: "call_result c (fst (handler (meant ub recv c) sv)) = Some y"
    and cl: "cleanup_ok K c cl2"
  shows "fst (client_stub K call c cl) = y"
proof -
  let ?iv = "meant ub recv c"
  obtain hr sv1 where h: "handler ?iv sv = (hr, sv1)" by (metis surj_pair)
  have "fst (SMOS_Invocation_new T (sv_ipc sv) info (cl_buf cl1) recv) = Ok ?iv"
    by (rule request_decodes [OF req sent ok])
  then have "smos_serv_decode_invocation KS T info recv (cl_buf cl1) sv = (Ok ?iv, sv)"
    by (cases "SMOS_Invocation_new T (sv_ipc sv) info (cl_buf cl1) recv")
      (simp add: smos_serv_decode_invocation_def)
  then have "smos_serv_cleanup KS ?iv recv hr sv1 = (Ok (Some rmi), sv')"
    using served h by (simp add: serve_def)
  then obtain sb where sb: "(case hr of Ok r \<Rightarrow> handle_reply sb r | Err e \<Rightarrow> handle_error sb e
      | Panic \<Rightarrow> Panic) = Ok (rmi, sv_ipc sv')"
    using cleanup_Ok by blast
  show ?thesis
  proof (cases hr)
    case (Ok r)
    then obtain x where x: "reply_result c r = Some x" "y = Ok x"
      using res h by (auto simp: call_result_def)
    have "handle_reply sb r = Ok (rmi, sv_ipc sv')" using sb Ok by simp
    from stub_reads_reply [where call = call, OF req call this answered x(1) cl] x(2) show ?thesis by simp
  next
    case (Err e)
    then have e: "transmissible e" "y = Err e" using res h by (auto simp: call_result_def split: if_splits)
    have "handle_error sb e = Ok (rmi, sv_ipc sv')" using sb Err by simp
    from stub_reads_error [where call = call, OF req call e(1) this answered] e(2) show ?thesis by simp
  qed (use res h in \<open>simp add: call_result_def\<close>)
qed

text \<open>For instance, a round trip that answers every call of \<open>conn_register\<close> with the client id it was given.\<close>

theorem remote_call_witness:
  "fst (client_stub counting_kernel
     (\<lambda>mi cl. (mk_msginfo NoErrorLabel 1 0, cl\<lparr>cl_ipc := set_reg 0 7 (cl_ipc cl)\<rparr>))
     (C_conn_register 3 7)
     \<lparr>cl_ipc = \<lparr>msg_regs = (\<lambda>_. 0), caps_or_badges = (\<lambda>_. 0), recv_slot = slot_at 0\<rparr>,
      cl_buf = None, cl_cspace = ucs_new 2, cl_kern = 0\<rparr>) = Ok (R_Hndl 7)"
proof -
  let ?b0 = "\<lparr>msg_regs = (\<lambda>_. 0), caps_or_badges = (\<lambda>_. 0), recv_slot = slot_at 0\<rparr>"
  let ?cl = "\<lambda>b. \<lparr>cl_ipc = b, cl_buf = None, cl_cspace = ucs_new 2, cl_kern = (0::nat)\<rparr>"
  let ?b1 = "set_reg 1 7 (set_reg 0 3 ?b0)"
  let ?h = "\<lambda>iv. case iv of I_ConnRegister x \<Rightarrow> ret (Re_ConnRegister (cr_client_id x))
              | _ \<Rightarrow> fail InvalidArguments"
  let ?sv = "\<lambda>b. \<lparr>sv_ipc = b, sv_kern = (0::nat)\<rparr>"
  have l: "invocation_try_from 17 = Some L_ConnRegister"
    using invocation_roundtrip [of L_ConnRegister] by simp
  show ?thesis
  proof (rule remote_call [where ub = "\<lambda>_. None" and T = RootServerConnection and KS = counting_kernel
        and handler = ?h and recv = "slot_at 9" and sv = "?sv ?b1" and info = "request_info L_ConnRegister 2 0"
        and mi = "request_info L_ConnRegister 2 0" and ?cl1.0 = "?cl ?b1"
        and info' = "mk_msginfo NoErrorLabel 1 0" and ?cl2.0 = "?cl (set_reg 0 7 ?b1)"
        and sv' = "?sv (set_reg 0 7 ?b1)" and rmi = "mk_msginfo NoErrorLabel 1 0"])
    show "serve counting_kernel RootServerConnection ?h (request_info L_ConnRegister 2 0) (slot_at 9)
       (cl_buf (?cl ?b1)) (?sv ?b1) = (Ok (Some (mk_msginfo NoErrorLabel 1 0)), ?sv (set_reg 0 7 ?b1))"
      using l by (simp add: serve_def smos_serv_decode_invocation_def SMOS_Invocation_new_def Let_def
          request_info_def mk_msginfo_def supported_defs consumed_recv_slot_def smos_serv_cleanup_def
          write_answer_def sv_set_ipc_def run_simps bnd_def)
  qed (simp_all add: conn_register_req_def run_simps delivered_def request_info_def mk_msginfo_def
      supported_defs call_result_def ret_def cleanup_ok_def)
qed

text \<open>C5: A request that can get through arrives as it was meant: the server's decoder returns the
  invocation the call stands for, with every argument in its place, given the kernel's delivery and
  a connection that supports the call.  The calls that can get through (\<open>call_ok\<close>): not \<open>test_simple\<close>,
  on which the decoder panics; strings are UTF-8 without NUL, and a \<open>usize\<close> counts the arguments of
  \<open>process_spawn\<close>; a window or object handle of a \<open>view\<close> is not \<open>u64::MAX\<close>, the mark of a handle
  capability; and a handle capability is one of the server asked where the server looks its badge up,
  and one of another server where the server keeps the capability itself.\<close>

theorem request_roundtrip:
  assumes "request c cl = (Ok mi, cl')" and "delivered ub mi (cl_ipc cl') info buf"
    and "call_ok ub c" and "is_supported T (call_label c)"
  shows "fst (SMOS_Invocation_new T buf info (cl_buf cl') recv) = Ok (meant ub recv c)"
  using assms by (rule request_decodes)

text \<open>For instance, \<open>process_spawn\<close> of "a" from "f" with the argument "xy" at priority 5.\<close>

theorem request_roundtrip_witness:
  "fst (SMOS_Invocation_new RootServerConnection
     \<lparr>msg_regs = (\<lambda>_. 0)(0 := 1, 1 := 5), caps_or_badges = (\<lambda>_. 0), recv_slot = slot_at 0\<rparr>
     (mk_msginfo 21 2 0) (Some [97, 0, 102, 0, 120, 121, 0, 9]) (slot_at 3)) =
   Ok (I_ProcessSpawn \<lparr>ps_exec_name = [97], ps_fs_name = [102], ps_prio = 5, ps_args = Some [[120, 121]]\<rparr>)"
proof -
  let ?b0 = "\<lparr>msg_regs = (\<lambda>_. 0), caps_or_badges = (\<lambda>_. 0), recv_slot = slot_at 0\<rparr>"
  let ?cl = "\<lambda>b d. \<lparr>cl_ipc = b, cl_buf = Some d, cl_cspace = ucs_new 2, cl_kern = (0::nat)\<rparr>"
  let ?b1 = "set_reg 1 5 (set_reg 0 1 ?b0)"
  let ?d = "[97, 0, 102, 0, 120, 121, 0, 9] :: u8 list"
  let ?c = "C_process_spawn [97] [102] 5 (Some [[120, 121]])"
  have "fst (SMOS_Invocation_new RootServerConnection ?b1 (mk_msginfo 21 2 0)
      (cl_buf (?cl ?b1 ?d)) (slot_at 3)) = Ok (meant (\<lambda>_. None) (slot_at 3) ?c)"
  proof (rule request_roundtrip [where cl = "?cl ?b0 [1, 2, 3, 4, 5, 6, 7, 9]" and mi = "mk_msginfo 21 2 0"])
    show "request ?c (?cl ?b0 [1, 2, 3, 4, 5, 6, 7, 9]) = (Ok (mk_msginfo 21 2 0), ?cl ?b1 ?d)"
      by (simp add: process_spawn_req_def put_str_def copy_terminated_rust_string_to_buffer_def
          run_simps request_info_def bnd_def)
  qed (simp_all add: delivered_def mk_msginfo_def supported_defs c_str_def)
  then show ?thesis by (simp add: set_reg_def fun_upd_def)
qed

text \<open>C13: The only messages that crash a server while it decodes them are \<open>TestSimple\<close>, a
  \<open>ConnRegister\<close> of the wrong length and a \<open>ProcSpawn\<close> with a priority above 255; every other
  message, however malformed, is decoded or answered with an error.\<close>

theorem decode_panics_only:
  assumes "fst (SMOS_Invocation_new T buf info data recv) = Panic"
  shows "mi_label info = invocation_label L_TestSimple \<or>
    (mi_label info = invocation_label L_ConnRegister \<and> mi_length info \<noteq> 2) \<or>
    (mi_label info = invocation_label L_ProcSpawn \<and> mi_length info = 2 \<and> 256 \<le> unat (msg_regs buf 1))"
  using assms decode_no_panic by blast

theorem decode_panics_only_witness:
  "mi_length (mk_msginfo 17 0 0) \<noteq> 2 \<and> fst (SMOS_Invocation_new RootServerConnection
     \<lparr>msg_regs = (\<lambda>_. 0), caps_or_badges = (\<lambda>_. 0), recv_slot = slot_at 0\<rparr>
     (mk_msginfo 17 0 0) None (slot_at 3)) = Panic"
proof -
  have l: "invocation_try_from 17 = Some L_ConnRegister"
    using invocation_roundtrip [of L_ConnRegister] by simp
  have p: "fst (SMOS_Invocation_new RootServerConnection
     \<lparr>msg_regs = (\<lambda>_. 0), caps_or_badges = (\<lambda>_. 0), recv_slot = slot_at 0\<rparr>
     (mk_msginfo 17 0 0) None (slot_at 3)) = Panic"
    using l by (simp add: SMOS_Invocation_new_def Let_def supported_defs consumed_recv_slot_def)
  from decode_panics_only [OF p] p show ?thesis by simp
qed

end
