(* ===== verification/CSpace.thy ===== *)
theory CSpace
  imports Slot_Allocator Kernel
begin

text \<open>
  The root server's capability spaces: \<open>crates/root_server/src/cspace.rs\<close>.  \<open>CSpaceTrait\<close> is
  implemented by the root server's own two-level \<open>CSpace\<close> and by the one-level \<open>UserCSpace\<close> it
  keeps for a process; both have the fields of the record \<open>cspace\<close>.  A bottom-level node is a
  page of 97 bitmaps of 256 slots each; a null pointer in the array of nodes is \<open>None\<close>.  Both
  kinds provide the contract \<open>slot_allocator\<close>.
\<close>

section \<open>Sizes and indices\<close>

definition seL4_SlotBits :: nat where [const_defs]: "seL4_SlotBits = 5"
definition CNODE_SIZE_BITS :: nat where [const_defs]: "CNODE_SIZE_BITS = 13"
definition INITIAL_TASK_CNODE_SIZE_BITS :: nat where [const_defs]: "INITIAL_TASK_CNODE_SIZE_BITS = 18"
definition MAPPING_SLOTS :: nat where [const_defs]: "MAPPING_SLOTS = 3"
definition WATERMARK_SLOTS :: nat where [const_defs]: "WATERMARK_SLOTS = MAPPING_SLOTS + 1"

definition CNODE_SLOT_BITS :: "nat \<Rightarrow> nat" where
  "CNODE_SLOT_BITS x = x - seL4_SlotBits"

definition CNODE_SLOTS :: "nat \<Rightarrow> nat" where
  "CNODE_SLOTS x = BIT (CNODE_SLOT_BITS x)"

definition TOP_LVL_INDEX :: "nat \<Rightarrow> nat" where
  "TOP_LVL_INDEX cptr = drop_bit (CNODE_SLOT_BITS CNODE_SIZE_BITS) cptr"

definition BOT_LVL_INDEX :: "nat \<Rightarrow> nat" where
  "BOT_LVL_INDEX cptr = cptr AND MASK (CNODE_SLOT_BITS CNODE_SIZE_BITS)"

text \<open>\<open>sel4::WORD_SIZE\<close> is 64, and a \<open>BotLvlT\<close> is four words of bitmap and a pointer.\<close>

definition BOT_LVL_PER_NODE :: nat where
  [const_defs]: "BOT_LVL_PER_NODE = (PAGE_SIZE_4K - 64 * 3) div 40"

definition NODE_INDEX :: "nat \<Rightarrow> nat" where
  "NODE_INDEX cptr = cptr div CNODE_SLOTS CNODE_SIZE_BITS div BOT_LVL_PER_NODE"

definition CNODE_INDEX :: "nat \<Rightarrow> nat" where
  "CNODE_INDEX cptr = cptr div CNODE_SLOTS CNODE_SIZE_BITS mod BOT_LVL_PER_NODE"

lemma index_eqs:
  "CNODE_SLOTS CNODE_SIZE_BITS = 256" "BOT_LVL_PER_NODE = 97"
  "CNODE_SLOTS INITIAL_TASK_CNODE_SIZE_BITS = 8192"
  "TOP_LVL_INDEX c = c div 256"
  "NODE_INDEX c = c div 256 div 97" "CNODE_INDEX c = c div 256 mod 97"
  by (simp_all add: CNODE_SLOTS_def CNODE_SLOT_BITS_def const_defs BIT_def TOP_LVL_INDEX_def
      NODE_INDEX_def CNODE_INDEX_def drop_bit_eq_div)

lemma BOT_LVL_INDEX_eq: "BOT_LVL_INDEX c = c mod 256"
  by (simp only: BOT_LVL_INDEX_def MASK_def and_mask) (simp add: CNODE_SLOT_BITS_def const_defs)

section \<open>The state\<close>

record bot_lvl_node =
  bn_n_cnodes :: nat
  bn_cnodes :: "u64 list list"

record cspace =
  cs_root_cnode :: cptr
  cs_two_level :: bool
  cs_top_bits :: nat
  cs_top_bf :: "u64 list"
  cs_bot :: "bot_lvl_node option list"
  cs_n_bot :: nat
  cs_watermark :: "nat list"

type_synonym 'a cs_op = "(cspace, sel4_error, 'a) op"

definition cspace_new :: "cptr \<Rightarrow> bool \<Rightarrow> nat \<Rightarrow> bot_lvl_node option list \<Rightarrow> cspace" where
  "cspace_new root_cnode two_level top_lvl_size_bits bot_lvl_nodes =
     \<lparr>cs_root_cnode = root_cnode, cs_two_level = two_level, cs_top_bits = top_lvl_size_bits,
      cs_top_bf = bitfield_init (CNODE_SLOTS INITIAL_TASK_CNODE_SIZE_BITS), cs_bot = bot_lvl_nodes,
      cs_n_bot = 0, cs_watermark = replicate WATERMARK_SLOTS 0\<rparr>"

text \<open>\<open>get_bot_lvl_node\<close>: an index out of range and a null pointer are panics.\<close>

definition get_bot_lvl_node :: "cspace \<Rightarrow> nat \<Rightarrow> ('e, bot_lvl_node) outcome" where
  "get_bot_lvl_node cs i =
     (if i < length (cs_bot cs) then unwrap (cs_bot cs ! i) else Panic)"

definition set_bot_bf :: "nat \<Rightarrow> nat \<Rightarrow> u64 list \<Rightarrow> cspace \<Rightarrow> cspace" where
  "set_bot_bf i j bf cs =
     cs\<lparr>cs_bot := (cs_bot cs)[i := map_option (\<lambda>n. n\<lparr>bn_cnodes := (bn_cnodes n)[j := bf]\<rparr>) (cs_bot cs ! i)]\<rparr>"

definition set_top_bit :: "nat \<Rightarrow> unit cs_op" where
  "set_top_bit idx =
     bnd (gets cs_top_bf) (\<lambda>bf. bnd (lift (bf_set_bit bf idx)) (\<lambda>bf'. modify (\<lambda>cs. cs\<lparr>cs_top_bf := bf'\<rparr>)))"

section \<open>Allocation\<close>

text \<open>\<open>ensure_levels\<close> is \<open>todo!()\<close>, so the \<open>used\<close> that reaches \<open>refill_watermark\<close> is always 0
  and the allocation inside it is never reached; it is a parameter.\<close>

definition ensure_levels :: "nat \<Rightarrow> nat \<Rightarrow> nat cs_op" where
  "ensure_levels cptr n_slots = panic"

definition set_watermark :: "nat \<Rightarrow> nat \<Rightarrow> unit cs_op" where
  "set_watermark idx cptr =
     bnd (gets (\<lambda>cs. length (cs_watermark cs))) (\<lambda>n.
     bnd (ensure (idx < n)) (\<lambda>_. modify (\<lambda>cs. cs\<lparr>cs_watermark := (cs_watermark cs)[idx := cptr]\<rparr>)))"

definition refill_watermark :: "nat cs_op \<Rightarrow> nat \<Rightarrow> unit cs_op" where
  "refill_watermark alloc used =
     (case List.find (\<lambda>i. used AND BIT i \<noteq> 0) [0..<WATERMARK_SLOTS] of
        None \<Rightarrow> ret ()
      | Some i \<Rightarrow> bnd alloc (\<lambda>slot. set_watermark i slot))"

definition bf_free_slot :: "u64 list \<Rightarrow> (sel4_error, nat) outcome" where
  "bf_free_slot bf = map_err (\<lambda>_. NotEnoughMemory) (bf_first_free bf)"

text \<open>The bottom-level half of \<open>alloc_slot\<close>: the slot's bit is set before the search that
  decides whether the cnode is full, and that search fails when it found the last free bit.\<close>

definition bot_lvl_absent :: "nat \<Rightarrow> cspace \<Rightarrow> ('e, bool) outcome" where
  "bot_lvl_absent cptr cs =
     (if cs_n_bot cs \<le> NODE_INDEX cptr then Ok True
      else obind (get_bot_lvl_node cs (NODE_INDEX cptr)) (\<lambda>n. Ok (bn_n_cnodes n \<le> CNODE_INDEX cptr)))"

definition alloc_bot_slot :: "nat \<Rightarrow> nat cs_op" where
  "alloc_bot_slot top_index =
     (let cptr = push_bit (CNODE_SLOT_BITS CNODE_SIZE_BITS) top_index;
          node = NODE_INDEX cptr; cnode = CNODE_INDEX cptr in
      bnd (\<lambda>cs. (bot_lvl_absent cptr cs, cs)) (\<lambda>absent.
      bnd (if absent then ensure_levels cptr MAPPING_SLOTS else ret 0) (\<lambda>used.
      bnd (\<lambda>cs. (get_bot_lvl_node cs node, cs)) (\<lambda>n.
      bnd (ensure (cnode < length (bn_cnodes n))) (\<lambda>_.
      bnd (lift (bf_free_slot (bn_cnodes n ! cnode))) (\<lambda>bot_index.
      bnd (lift (bf_set_bit (bn_cnodes n ! cnode) bot_index)) (\<lambda>bf.
      bnd (modify (set_bot_bf node cnode bf)) (\<lambda>_.
      bnd (lift (bf_free_slot bf)) (\<lambda>next.
      bnd (if next \<ge> CNODE_SLOTS CNODE_SIZE_BITS - 1 then set_top_bit top_index else ret ()) (\<lambda>_.
      bnd (refill_watermark panic used) (\<lambda>_.
      ret (cptr + bot_index))))))))))))"

definition cs_alloc_slot :: "nat cs_op" where
  "cs_alloc_slot =
     bnd (\<lambda>cs. (bf_free_slot (cs_top_bf cs), cs)) (\<lambda>top_index.
     bnd (gets cs_two_level) (\<lambda>two.
     bnd (gets (\<lambda>cs. CNODE_SLOTS (cs_top_bits cs))) (\<lambda>top_slots.
     bnd (guard (\<not> (two \<and> top_index > top_slots \<or> top_index \<ge> top_slots)) InvalidCapability) (\<lambda>_.
     if two then alloc_bot_slot top_index
     else bnd (set_top_bit top_index) (\<lambda>_. ret top_index)))))"

section \<open>Release and kernel calls\<close>

definition clr_top_bit :: "nat \<Rightarrow> (cspace, 'e, unit) op" where
  "clr_top_bit idx cs =
     (case bf_clr_bit (cs_top_bf cs) idx of
        Ok bf \<Rightarrow> (Ok (), cs\<lparr>cs_top_bf := bf\<rparr>) | Err e \<Rightarrow> (Err e, cs) | Panic \<Rightarrow> (Panic, cs))"

text \<open>Both bound checks admit too much: one past the end on one level; on two levels the
  size bits are added where the slot bits were meant.\<close>

definition free_bot_slot :: "nat \<Rightarrow> (cspace, 'e, unit) op" where
  "free_bot_slot cptr cs =
     (let node = NODE_INDEX cptr; cnode = CNODE_INDEX cptr in
      if cs_n_bot cs > node then
        (case get_bot_lvl_node cs node of
           Ok n \<Rightarrow>
             if bn_n_cnodes n > cnode then
               if cnode < length (bn_cnodes n) then
                 (case bf_clr_bit (bn_cnodes n ! cnode) (BOT_LVL_INDEX cptr) of
                    Ok bf \<Rightarrow> (Ok (), set_bot_bf node cnode bf cs)
                  | Err e \<Rightarrow> (Err e, cs)
                  | Panic \<Rightarrow> (Panic, cs))
               else (Panic, cs)
             else (Ok (), cs)
         | Err e \<Rightarrow> (Err e, cs)
         | Panic \<Rightarrow> (Panic, cs))
      else (Ok (), cs))"

definition cs_free_slot :: "nat \<Rightarrow> (cspace, 'e, unit) op" where
  "cs_free_slot cptr cs =
     (if cptr = 0 then (Ok (), cs)
      else if \<not> cs_two_level cs then
        if cptr > CNODE_SLOTS (cs_top_bits cs) then (Ok (), cs) else clr_top_bit cptr cs
      else if cptr > CNODE_SLOTS (CNODE_SIZE_BITS + cs_top_bits cs) then (Ok (), cs)
      else bnd (clr_top_bit (TOP_LVL_INDEX cptr)) (\<lambda>_. free_bot_slot cptr) cs)"

text \<open>\<open>absolute_cptr_from_bits_with_depth(cptr, WORD_SIZE)\<close>, \<open>delete\<close> and \<open>untyped_retype\<close>.\<close>

definition cs_absolute :: "cspace \<Rightarrow> cptr \<Rightarrow> abs_cptr" where
  "cs_absolute cs cptr = \<lparr>ac_root = cs_root_cnode cs, ac_bits = cptr, ac_depth = 64\<rparr>"

definition cs_delete :: "'k sel4 \<Rightarrow> cspace \<Rightarrow> cptr \<Rightarrow> ('k, sel4_error, unit) op" where
  "cs_delete K cs cptr k = (case k_cnode_delete K (cs_absolute cs cptr) k of (r, k') \<Rightarrow> (kresult r, k'))"

definition cs_untyped_retype ::
  "'k sel4 \<Rightarrow> cspace \<Rightarrow> cptr \<Rightarrow> blueprint \<Rightarrow> nat \<Rightarrow> ('k, sel4_error, unit) op" where
  "cs_untyped_retype K cs ut bp target k =
     (case (if cs_two_level cs
            then k_untyped_retype K ut bp
                   \<lparr>ac_root = cs_root_cnode cs,
                    ac_bits = drop_bit (CNODE_SLOT_BITS CNODE_SIZE_BITS) target,
                    ac_depth = 64 - CNODE_SLOT_BITS CNODE_SIZE_BITS\<rparr>
                   (target mod CNODE_SLOTS CNODE_SIZE_BITS) 1 k
            else k_untyped_retype K ut bp \<lparr>ac_root = cs_root_cnode cs, ac_bits = 0, ac_depth = 0\<rparr> target 1 k)
      of (r, k') \<Rightarrow> (kresult r, k'))"

text \<open>\<open>irq_control_get\<close>: PPIs and shared interrupts go to the same call on a single core.\<close>

definition cs_irq_control_get ::
  "'k sel4 \<Rightarrow> cptr \<Rightarrow> nat \<Rightarrow> bool \<Rightarrow> ('k, sel4_error, cptr) op" where
  "cs_irq_control_get K cptr irq edge_triggered k =
     (if 16 \<le> irq \<and> irq < 32 then
        (case k_irq_control_get K irq edge_triggered cptr k of
           (None, k') \<Rightarrow> (Ok cptr, k') | (Some _, k') \<Rightarrow> (Panic, k'))
      else if 32 \<le> irq \<and> irq < 1021 then
        (case k_irq_control_get K irq edge_triggered cptr k of
           (None, k') \<Rightarrow> (Ok cptr, k') | (Some _, k') \<Rightarrow> (Err InvalidArgument, k'))
      else (Err InvalidArgument, k))"

section \<open>One level\<close>

text \<open>A process's CSpace: 256 slots in four words.\<close>

definition one_level_inv :: "cspace \<Rightarrow> bool" where
  "one_level_inv cs \<longleftrightarrow> \<not> cs_two_level cs \<and> cs_top_bits cs = CNODE_SIZE_BITS \<and> length (cs_top_bf cs) = 4"

definition top_used :: "cspace \<Rightarrow> nat set" where
  "top_used cs = bits_of (cs_top_bf cs)"

lemma bf_free_slot_cases:
  obtains (full) "bf_free_slot bf = Err NotEnoughMemory" "bits_of bf = {..<64 * length bf}"
  | (free) i where "bf_free_slot bf = Ok i" "i < 64 * length bf" "i \<notin> bits_of bf" "\<forall>j<i. j \<in> bits_of bf"
  by (cases bf rule: bf_first_free_cases) (auto simp: bf_free_slot_def)

lemma set_top_bit_run:
  "i < 64 * length (cs_top_bf cs) \<Longrightarrow>
     set_top_bit i cs = (Ok (), cs\<lparr>cs_top_bf := bf_or_bit (cs_top_bf cs) i\<rparr>)"
  by (simp add: set_top_bit_def run_simps)

lemma clr_top_bit_run:
  "i < 64 * length (cs_top_bf cs) \<Longrightarrow>
     clr_top_bit i cs = (Ok (), cs\<lparr>cs_top_bf := bf_andnot_bit (cs_top_bf cs) i\<rparr>)"
  by (simp add: clr_top_bit_def)

lemma one_level_alloc_cases:
  assumes "one_level_inv cs"
  obtains (full) "cs_alloc_slot cs = (Err NotEnoughMemory, cs)" "top_used cs = {..<256}"
  | (free) i cs' where "cs_alloc_slot cs = (Ok i, cs')" "i < 256" "i \<notin> top_used cs"
      "\<forall>j<i. j \<in> top_used cs" "one_level_inv cs'" "top_used cs' = insert i (top_used cs)"
proof (cases "cs_top_bf cs" rule: bf_free_slot_cases)
  case full
  then have "cs_alloc_slot cs = (Err NotEnoughMemory, cs)"
    by (simp add: cs_alloc_slot_def bnd_def)
  then show ?thesis using full assms that(1) by (simp add: top_used_def one_level_inv_def)
next
  case (free i)
  have "i < 256" using free assms by (simp add: one_level_inv_def)
  then have "cs_alloc_slot cs = (Ok i, cs\<lparr>cs_top_bf := bf_or_bit (cs_top_bf cs) i\<rparr>)"
    using free assms
    by (simp add: cs_alloc_slot_def run_simps one_level_inv_def index_eqs set_top_bit_run)
  then show ?thesis using free assms \<open>i < 256\<close> that(2) by (simp add: top_used_def one_level_inv_def)
qed

interpretation one_level: slot_allocator cs_alloc_slot cs_free_slot top_used "{..<256}" "{1..<256}" one_level_inv
proof unfold_locales
  fix s i t assume "one_level_inv s" "cs_alloc_slot s = (Ok i, t)"
  then show "i \<in> {..<256} - top_used s \<and> top_used t = insert i (top_used s) \<and> one_level_inv t"
    by (cases rule: one_level_alloc_cases) simp_all
next
  fix s i t j assume "one_level_inv s" "cs_alloc_slot s = (Ok i, t)" "j < i"
  then show "j \<in> top_used s" by (cases rule: one_level_alloc_cases) simp_all
next
  fix s r t assume "one_level_inv s" "cs_alloc_slot s = (r, t)" "\<forall>i. r \<noteq> Ok i"
  then show "t = s \<and> {..<256} \<subseteq> top_used s" by (cases rule: one_level_alloc_cases) auto
next
  fix s i assume "one_level_inv s" "i \<in> {1..<256::nat}"
  then show "\<exists>t. cs_free_slot i s = (Ok (), t) \<and> top_used t = top_used s - {i} \<and> one_level_inv t"
    by (simp add: cs_free_slot_def one_level_inv_def index_eqs clr_top_bit_run top_used_def)
qed auto

section \<open>Two levels\<close>

text \<open>
  The root server's CSpace: 8192 places for cnodes of 256 slots, of which the first \<open>N\<close> exist;
  the allocator hands out the first 255 slots of a cnode.  \<open>S\<close> are the cnodes the bootstrap code
  filled and sealed by their top-level bit: their slots are never allocated or freed again.
\<close>

definition bot_bf :: "cspace \<Rightarrow> nat \<Rightarrow> u64 list" where
  "bot_bf cs i = bn_cnodes (the (cs_bot cs ! (i div 97))) ! (i mod 97)"

definition cnode_present :: "cspace \<Rightarrow> nat \<Rightarrow> bool" where
  "cnode_present cs i \<longleftrightarrow> i div 97 < cs_n_bot cs \<and> i div 97 < length (cs_bot cs) \<and>
     (\<exists>n. cs_bot cs ! (i div 97) = Some n \<and> i mod 97 < bn_n_cnodes n \<and>
          length (bn_cnodes n) = 97 \<and> length (bn_cnodes n ! (i mod 97)) = 4)"

definition cnode_absent :: "cspace \<Rightarrow> nat \<Rightarrow> bool" where
  "cnode_absent cs i \<longleftrightarrow> cs_n_bot cs \<le> i div 97 \<or>
     (i div 97 < length (cs_bot cs) \<and> (\<exists>n. cs_bot cs ! (i div 97) = Some n \<and> bn_n_cnodes n \<le> i mod 97))"

definition cnode_ok :: "nat set \<Rightarrow> cspace \<Rightarrow> nat \<Rightarrow> bool" where
  "cnode_ok S cs i \<longleftrightarrow> cnode_present cs i \<and>
     (if i \<in> S then i \<in> bits_of (cs_top_bf cs)
      else 255 \<notin> bits_of (bot_bf cs i) \<and>
           (i \<in> bits_of (cs_top_bf cs) \<longleftrightarrow> {..<255} \<subseteq> bits_of (bot_bf cs i)))"

definition two_level_inv :: "nat \<Rightarrow> nat set \<Rightarrow> cspace \<Rightarrow> bool" where
  "two_level_inv N S cs \<longleftrightarrow>
     cs_two_level cs \<and> cs_top_bits cs = INITIAL_TASK_CNODE_SIZE_BITS \<and> length (cs_top_bf cs) = 128 \<and>
     N \<le> 8192 \<and> (\<forall>i<N. cnode_ok S cs i) \<and>
     (N < 8192 \<longrightarrow> N \<notin> bits_of (cs_top_bf cs) \<and> cnode_absent cs N)"

definition two_level_used :: "nat \<Rightarrow> cspace \<Rightarrow> nat set" where
  "two_level_used N cs = {c. c div 256 < N \<and> c mod 256 \<in> bits_of (bot_bf cs (c div 256))}"

definition two_level_slots :: "nat \<Rightarrow> nat set \<Rightarrow> nat set" where
  "two_level_slots N S = {c. c div 256 < N \<and> c div 256 \<notin> S \<and> c mod 256 < 255}"

text \<open>Changing one bottom-level bitmap.\<close>

lemma bot_bf_set:
  assumes "cs_bot cs ! (i div 97) = Some n" "i div 97 < length (cs_bot cs)" "length (bn_cnodes n) = 97"
  shows "bot_bf (set_bot_bf (i div 97) (i mod 97) bf cs) j = (if j = i then bf else bot_bf cs j)"
proof (cases "j div 97 = i div 97")
  case True
  then have "j = i \<longleftrightarrow> j mod 97 = i mod 97" by (metis div_mult_mod_eq)
  then show ?thesis using assms True by (auto simp: bot_bf_def set_bot_bf_def nth_list_update)
qed (auto simp: bot_bf_def set_bot_bf_def)

lemma set_bot_bf_sel [simp]:
  "cs_two_level (set_bot_bf i j bf cs) = cs_two_level cs"
  "cs_top_bits (set_bot_bf i j bf cs) = cs_top_bits cs"
  "cs_top_bf (set_bot_bf i j bf cs) = cs_top_bf cs"
  "cs_n_bot (set_bot_bf i j bf cs) = cs_n_bot cs"
  by (simp_all add: set_bot_bf_def)

lemma bot_bf_top [simp]: "bot_bf (cs\<lparr>cs_top_bf := bf\<rparr>) i = bot_bf cs i"
  by (simp add: bot_bf_def)

lemma cnode_node:
  assumes "cnode_present cs i"
  obtains n where "i div 97 < cs_n_bot cs" "i div 97 < length (cs_bot cs)" "cs_bot cs ! (i div 97) = Some n"
    "i mod 97 < bn_n_cnodes n" "length (bn_cnodes n) = 97" "length (bot_bf cs i) = 4"
    "bn_cnodes n ! (i mod 97) = bot_bf cs i"
proof -
  from assms obtain n where n: "i div 97 < cs_n_bot cs" "i div 97 < length (cs_bot cs)"
    "cs_bot cs ! (i div 97) = Some n" "i mod 97 < bn_n_cnodes n" "length (bn_cnodes n) = 97"
    "length (bn_cnodes n ! (i mod 97)) = 4" unfolding cnode_present_def by blast
  show ?thesis by (rule that [OF n(1-5)]) (simp_all add: n bot_bf_def)
qed

abbreviation upd_cnode :: "nat \<Rightarrow> u64 list \<Rightarrow> u64 list \<Rightarrow> cspace \<Rightarrow> cspace" where
  "upd_cnode i bf tbf cs \<equiv> (set_bot_bf (i div 97) (i mod 97) bf cs)\<lparr>cs_top_bf := tbf\<rparr>"

lemma bot_bf_upd:
  assumes "cnode_present cs i"
  shows "bot_bf (set_bot_bf (i div 97) (i mod 97) bf cs) j = (if j = i then bf else bot_bf cs j)"
proof -
  obtain n where "cs_bot cs ! (i div 97) = Some n" "i div 97 < length (cs_bot cs)" "length (bn_cnodes n) = 97"
    using cnode_node [OF assms] by metis
  then show ?thesis by (rule bot_bf_set)
qed

lemma cnode_present_upd:
  assumes "cnode_present cs i" "length bf = 4" "cnode_present cs j"
  shows "cnode_present (upd_cnode i bf tbf cs) j"
  using assms by (cases "j div 97 = i div 97") (auto simp: cnode_present_def set_bot_bf_def nth_list_update)

lemma cnode_absent_upd:
  assumes "cnode_present cs i" "cnode_absent cs j"
  shows "cnode_absent (upd_cnode i bf tbf cs) j"
  using assms by (cases "j div 97 = i div 97") (auto simp: cnode_absent_def cnode_present_def set_bot_bf_def)

text \<open>The invariant after one bottom bitmap and its top bit changed.\<close>

lemma two_level_inv_update:
  assumes inv: "two_level_inv N S cs" and i: "i < N" "i \<notin> S" and len: "length bf = 4" "length tbf = 128"
    and top: "\<forall>j. j \<noteq> i \<longrightarrow> (j \<in> bits_of tbf \<longleftrightarrow> j \<in> bits_of (cs_top_bf cs))"
    and bot: "255 \<notin> bits_of bf" "i \<in> bits_of tbf \<longleftrightarrow> {..<255} \<subseteq> bits_of bf"
  shows "two_level_inv N S (upd_cnode i bf tbf cs)"
proof -
  have p: "cnode_present cs i" using inv i by (simp add: two_level_inv_def cnode_ok_def)
  have "cnode_ok S (upd_cnode i bf tbf cs) j" if "j < N" for j
  proof -
    have "cnode_ok S cs j" using inv that by (simp add: two_level_inv_def)
    then show ?thesis using cnode_present_upd [OF p len(1)] top bot i
      by (auto simp: cnode_ok_def bot_bf_upd [OF p])
  qed
  then show ?thesis using inv len(2) top i cnode_absent_upd [OF p]
    by (auto simp: two_level_inv_def)
qed

lemma two_level_used_update:
  assumes "cnode_present cs i" "i < N"
  shows "two_level_used N (upd_cnode i bf tbf cs) =
    {c \<in> two_level_used N cs. c div 256 \<noteq> i} \<union> {c. c div 256 = i \<and> c mod 256 \<in> bits_of bf}"
  using assms(2) by (auto simp: two_level_used_def bot_bf_upd [OF assms(1)])

lemma two_level_used_split:
  assumes "i < N"
  shows "two_level_used N cs =
    {c \<in> two_level_used N cs. c div 256 \<noteq> i} \<union> {c. c div 256 = i \<and> c mod 256 \<in> bits_of (bot_bf cs i)}"
  using assms by (auto simp: two_level_used_def)

lemma slot_eq_iff: "(d::nat) = c \<longleftrightarrow> d div 256 = c div 256 \<and> d mod 256 = c mod 256"
  by (metis div_mult_mod_eq)

lemma slot_split: "j < 256 \<Longrightarrow> (push_bit 8 i + j) div 256 = i \<and> (push_bit 8 i + j) mod 256 = (j::nat)"
  by (simp add: push_bit_eq_mult)

lemma two_level_used_insert:
  assumes "cnode_present cs i" "i < N" "bits_of bf = insert j (bits_of (bot_bf cs i))" "j < 256"
  shows "two_level_used N (upd_cnode i bf tbf cs) = insert (push_bit 8 i + j) (two_level_used N cs)"
proof -
  have "{d. d div 256 = i \<and> d mod 256 \<in> bits_of bf} =
      insert (push_bit 8 i + j) {d. d div 256 = i \<and> d mod 256 \<in> bits_of (bot_bf cs i)}"
    using slot_split [OF assms(4), of i] assms(3) slot_eq_iff [of _ "push_bit 8 i + j"] by auto
  then show ?thesis
    unfolding two_level_used_update [OF assms(1,2)] by (subst (2) two_level_used_split [OF assms(2)]) simp
qed

lemma two_level_used_remove:
  assumes "cnode_present cs i" "i < N" "bits_of bf = bits_of (bot_bf cs i) - {c mod 256}" "c div 256 = i"
  shows "two_level_used N (upd_cnode i bf tbf cs) = two_level_used N cs - {c}"
proof -
  have "{d. d div 256 = i \<and> d mod 256 \<in> bits_of bf} =
      {d. d div 256 = i \<and> d mod 256 \<in> bits_of (bot_bf cs i)} - {c}"
    using assms(3,4) slot_eq_iff [of _ c] by auto
  then show ?thesis
    unfolding two_level_used_update [OF assms(1,2)]
    by (subst (2) two_level_used_split [OF assms(2)]) (use assms(4) in auto)
qed

text \<open>The search for a free slot in a cnode whose slot 255 is free.\<close>

lemma bf_free_slot_255:
  assumes "length bf = 4" and "255 \<notin> bits_of bf"
  obtains j where "bf_free_slot bf = Ok j" "j \<le> 255" "j \<notin> bits_of bf" "\<forall>k<j. k \<in> bits_of bf"
    "255 \<le> j \<longleftrightarrow> {..<255} \<subseteq> bits_of bf"
proof (cases bf rule: bf_free_slot_cases)
  case full
  then show ?thesis using assms by auto
next
  case (free j)
  have "j \<le> 255" using free(4) assms(2) by (meson linorder_not_le)
  moreover have "255 \<le> j \<longleftrightarrow> {..<255} \<subseteq> bits_of bf"
    using free(3,4) by (auto simp: subset_iff) (metis linorder_not_le)
  ultimately show ?thesis using free that by blast
qed

lemma refill_watermark_0: "refill_watermark alloc 0 = ret ()"
proof -
  have "List.find (\<lambda>i. (0::nat) AND BIT i \<noteq> 0) [0..<WATERMARK_SLOTS] = None"
    by (simp only: find_None_iff) simp
  then show ?thesis by (simp only: refill_watermark_def option.case)
qed

lemma bf_free_slot_least:
  assumes "i < 64 * length bf" "i \<notin> bits_of bf" "\<forall>k<i. k \<in> bits_of bf"
  shows "bf_free_slot bf = Ok i"
  by (cases bf rule: bf_free_slot_cases) (use assms in \<open>auto, metis linorder_neqE_nat\<close>)

lemma bf_free_slot_full: "bits_of bf = {..<256} \<Longrightarrow> length bf = 4 \<Longrightarrow> bf_free_slot bf = Err NotEnoughMemory"
  by (cases bf rule: bf_free_slot_cases) auto

text \<open>One run of the bottom-level half: the slot's bit is set in any case; the outcome is that of
  the second search.\<close>

lemma cnode_indices:
  "NODE_INDEX (push_bit 8 i) = i div 97" "CNODE_INDEX (push_bit 8 i) = i mod 97"
  "CNODE_SLOT_BITS CNODE_SIZE_BITS = 8"
  by (simp_all add: index_eqs push_bit_eq_mult CNODE_SLOT_BITS_def const_defs)

lemma bot_lvl_present: "cnode_present cs i \<Longrightarrow> bot_lvl_absent (push_bit 8 i) cs = Ok False"
  by (auto simp: bot_lvl_absent_def cnode_indices get_bot_lvl_node_def cnode_present_def)

lemma bot_lvl_absent: "cnode_absent cs i \<Longrightarrow> bot_lvl_absent (push_bit 8 i) cs = Ok True"
  by (auto simp: bot_lvl_absent_def cnode_indices get_bot_lvl_node_def cnode_absent_def)

lemma alloc_bot_slot_run:
  assumes p: "cnode_present cs i" and "i < 8192" "length (cs_top_bf cs) = 128"
    and j: "bf_free_slot (bot_bf cs i) = Ok j" "j < 256"
  shows "alloc_bot_slot i cs =
    (case bf_free_slot (bf_or_bit (bot_bf cs i) j) of
       Ok m \<Rightarrow> (Ok (push_bit 8 i + j),
          upd_cnode i (bf_or_bit (bot_bf cs i) j)
            (if 255 \<le> m then bf_or_bit (cs_top_bf cs) i else cs_top_bf cs) cs)
     | Err e \<Rightarrow> (Err e, set_bot_bf (i div 97) (i mod 97) (bf_or_bit (bot_bf cs i) j) cs)
     | Panic \<Rightarrow> (Panic, set_bot_bf (i div 97) (i mod 97) (bf_or_bit (bot_bf cs i) j) cs))"
proof -
  obtain n where n: "i mod 97 < length (bn_cnodes n)" "length (bot_bf cs i) = 4" "i div 97 < length (cs_bot cs)"
    "cs_bot cs ! (i div 97) = Some n" "bn_cnodes n ! (i mod 97) = bot_bf cs i"
    using cnode_node [OF p] by (metis mod_less_divisor zero_less_numeral)
  show ?thesis
    unfolding alloc_bot_slot_def Let_def cnode_indices
    by (simp add: bnd_def index_eqs refill_watermark_0 bot_lvl_present [OF p] get_bot_lvl_node_def n op_run j
        split: outcome.splits) (use assms in \<open>simp add: set_top_bit_run\<close>)
qed

lemma alloc_bot_slot_full:
  assumes p: "cnode_present cs i" and "i < 8192" and e: "bf_free_slot (bot_bf cs i) = Err e"
  shows "alloc_bot_slot i cs = (Err e, cs)"
proof -
  obtain n where n: "i mod 97 < length (bn_cnodes n)" "i div 97 < length (cs_bot cs)"
    "cs_bot cs ! (i div 97) = Some n" "bn_cnodes n ! (i mod 97) = bot_bf cs i"
    using cnode_node [OF p] by (metis mod_less_divisor zero_less_numeral)
  show ?thesis
    unfolding alloc_bot_slot_def Let_def cnode_indices
    by (simp add: bnd_def bot_lvl_present [OF p] get_bot_lvl_node_def n op_run e)
qed

lemma free_bot_slot_run:
  assumes "cnode_present cs i" and "c div 256 = i"
  shows "free_bot_slot c cs =
    (Ok (), set_bot_bf (i div 97) (i mod 97) (bf_andnot_bit (bot_bf cs i) (c mod 256)) cs)"
  using assms by (auto elim!: cnode_node
      simp: free_bot_slot_def Let_def index_eqs BOT_LVL_INDEX_eq get_bot_lvl_node_def)

lemma cs_free_slot_run:
  assumes p: "cnode_present cs i" and "c div 256 = i" "c \<noteq> 0" "i < 8192"
    and cs: "cs_two_level cs" "cs_top_bits cs = INITIAL_TASK_CNODE_SIZE_BITS" "length (cs_top_bf cs) = 128"
  shows "cs_free_slot c cs =
    (Ok (), upd_cnode i (bf_andnot_bit (bot_bf cs i) (c mod 256)) (bf_andnot_bit (cs_top_bf cs) i) cs)"
proof -
  have "c < 2 ^ 21" using assms by (auto simp: div_less_iff_less_mult)
  then have lim: "\<not> CNODE_SLOTS (CNODE_SIZE_BITS + INITIAL_TASK_CNODE_SIZE_BITS) < c"
    by (simp add: CNODE_SLOTS_def CNODE_SLOT_BITS_def const_defs BIT_def)
  have p': "cnode_present (cs\<lparr>cs_top_bf := bf\<rparr>) i" for bf using p by (simp add: cnode_present_def)
  have "TOP_LVL_INDEX c = i" using assms by (simp add: index_eqs)
  then show ?thesis using assms lim
    by (simp add: cs_free_slot_def bnd_def clr_top_bit_run free_bot_slot_run [OF p']) (simp add: set_bot_bf_def)
qed

lemma cs_alloc_slot_two_level:
  assumes "cs_two_level cs" "cs_top_bits cs = INITIAL_TASK_CNODE_SIZE_BITS" "length (cs_top_bf cs) = 128"
    and "bf_free_slot (cs_top_bf cs) = Ok i"
  shows "cs_alloc_slot cs = alloc_bot_slot i cs \<and> i < 8192"
  using assms(4) by (cases "cs_top_bf cs" rule: bf_free_slot_cases)
    (use assms in \<open>simp_all add: cs_alloc_slot_def run_simps index_eqs\<close>)

lemma cnode_ok_full:
  "cnode_ok S cs i \<Longrightarrow> i \<in> bits_of (cs_top_bf cs) \<Longrightarrow> i \<notin> S \<Longrightarrow> k < 255 \<Longrightarrow> k \<in> bits_of (bot_bf cs i)"
  by (auto simp: cnode_ok_def)

lemma two_level_full:
  assumes "two_level_inv N S cs" "\<forall>i<N. i \<in> bits_of (cs_top_bf cs)"
  shows "two_level_slots N S \<subseteq> two_level_used N cs"
  using assms cnode_ok_full by (fastforce simp: two_level_inv_def two_level_slots_def two_level_used_def)

lemma alloc_below:
  assumes inv: "two_level_inv N S cs" and i: "i < N" and top: "\<forall>k<i. k \<in> bits_of (cs_top_bf cs)"
    and low: "\<forall>k<j. k \<in> bits_of (bot_bf cs i)" and d: "d \<in> two_level_slots N S" "d < push_bit 8 i + j"
    and j: "j < 256"
  shows "d \<in> two_level_used N cs"
proof (cases "d div 256 = i")
  case True
  then have "d mod 256 < j" using d(2) div_mult_mod_eq [of d 256] by (simp add: push_bit_eq_mult)
  then show ?thesis using low d True by (auto simp: two_level_used_def two_level_slots_def)
next
  case False
  have "d div 256 \<le> i" using div_le_mono [of d "push_bit 8 i + j" 256] d(2) slot_split [OF j, of i] by simp
  with False have "d div 256 < i" by simp
  then have "cnode_ok S cs (d div 256)" "d div 256 \<in> bits_of (cs_top_bf cs)" "d div 256 \<notin> S"
    using inv top d by (auto simp: two_level_slots_def two_level_inv_def)
  then show ?thesis using d cnode_ok_full by (simp add: two_level_used_def two_level_slots_def)
qed

lemma two_level_alloc_cases:
  assumes inv: "two_level_inv N S cs"
  obtains (full) r where "cs_alloc_slot cs = (r, cs)" "\<forall>i. r \<noteq> Ok i"
      "two_level_slots N S \<subseteq> two_level_used N cs"
  | (free) c cs' where "cs_alloc_slot cs = (Ok c, cs')" "c \<in> two_level_slots N S - two_level_used N cs"
      "\<forall>d \<in> two_level_slots N S. d < c \<longrightarrow> d \<in> two_level_used N cs" "two_level_inv N S cs'"
      "two_level_used N cs' = insert c (two_level_used N cs)"
proof (cases "cs_top_bf cs" rule: bf_free_slot_cases)
  case full
  then have "cs_alloc_slot cs = (Err NotEnoughMemory, cs)" by (simp add: cs_alloc_slot_def bnd_def)
  moreover have "\<forall>i<N. i \<in> bits_of (cs_top_bf cs)" using full inv by (simp add: two_level_inv_def)
  ultimately show ?thesis using that(1) two_level_full [OF inv] by simp
next
  case (free i)
  have cs: "cs_two_level cs" "cs_top_bits cs = INITIAL_TASK_CNODE_SIZE_BITS" "length (cs_top_bf cs) = 128"
    using inv by (simp_all add: two_level_inv_def)
  have run: "cs_alloc_slot cs = alloc_bot_slot i cs" and i: "i < 8192"
    using cs_alloc_slot_two_level [OF cs free(1)] by simp_all
  show ?thesis
  proof (cases "i < N")
    case True
    have ok: "cnode_ok S cs i" using inv True by (simp add: two_level_inv_def)
    then have p: "cnode_present cs i" by (simp add: cnode_ok_def)
    have iS: "i \<notin> S" "255 \<notin> bits_of (bot_bf cs i)" "\<not> {..<255} \<subseteq> bits_of (bot_bf cs i)"
      using ok free(3) by (auto simp: cnode_ok_def split: if_splits)
    have len: "length (bot_bf cs i) = 4" using cnode_node [OF p] by blast
    obtain j where j: "bf_free_slot (bot_bf cs i) = Ok j" "j < 255" "j \<notin> bits_of (bot_bf cs i)"
      "\<forall>k<j. k \<in> bits_of (bot_bf cs i)"
      using bf_free_slot_255 [OF len iS(2)] iS(3) by (metis linorder_not_le)
    define bf where "bf = bf_or_bit (bot_bf cs i) j"
    have bf: "length bf = 4" "bits_of bf = insert j (bits_of (bot_bf cs i))" "255 \<notin> bits_of bf"
      using len j(2) iS(2) by (simp_all add: bf_def)
    obtain m where m: "bf_free_slot bf = Ok m" "255 \<le> m \<longleftrightarrow> {..<255} \<subseteq> bits_of bf"
      using bf_free_slot_255 [OF bf(1,3)] by metis
    define tbf where "tbf = (if 255 \<le> m then bf_or_bit (cs_top_bf cs) i else cs_top_bf cs)"
    have "cs_alloc_slot cs = (Ok (push_bit 8 i + j), upd_cnode i bf tbf cs)"
      using run alloc_bot_slot_run [OF p i cs(3) j(1)] j(2) m(1) by (simp add: bf_def tbf_def)
    moreover have "push_bit 8 i + j \<in> two_level_slots N S - two_level_used N cs"
      using slot_split [of j i] j(2,3) iS(1) True by (simp add: two_level_slots_def two_level_used_def)
    moreover have "two_level_inv N S (upd_cnode i bf tbf cs)"
      by (rule two_level_inv_update [OF inv True iS(1) bf(1) _ _ bf(3)])
        (use cs(3) i free(3) m(2) in \<open>auto simp: tbf_def\<close>)
    moreover have "d \<in> two_level_used N cs" if d: "d \<in> two_level_slots N S" "d < push_bit 8 i + j" for d
      using alloc_below [OF inv True _ _ d] free(4) j(2,4) by simp
    moreover have "two_level_used N (upd_cnode i bf tbf cs) = insert (push_bit 8 i + j) (two_level_used N cs)"
      using two_level_used_insert [OF p True bf(2)] j(2) by simp
    ultimately show ?thesis using that(2) by blast
  next
    case False
    have "N \<notin> bits_of (cs_top_bf cs)" "cnode_absent cs N" using False i inv by (auto simp: two_level_inv_def)
    then have "i = N" "cnode_absent cs i" using False free(4) by (metis linorder_neqE_nat)+
    then have "cs_alloc_slot cs = (Panic, cs)"
      using run by (simp add: alloc_bot_slot_def cnode_indices bnd_def bot_lvl_absent ensure_levels_def panic_def Let_def)
    moreover have "two_level_slots N S \<subseteq> two_level_used N cs"
      using two_level_full [OF inv] free(4) False by simp
    ultimately show ?thesis using that(1) by simp
  qed
qed

lemma two_level_free_spec:
  assumes inv: "two_level_inv N S cs" and c: "c \<in> two_level_slots N S" "c \<noteq> 0"
  shows "\<exists>cs'. cs_free_slot c cs = (Ok (), cs') \<and> two_level_used N cs' = two_level_used N cs - {c} \<and>
    two_level_inv N S cs'"
proof -
  define i j where "i = c div 256" and "j = c mod 256"
  have i: "i < N" "i \<notin> S" "i < 8192" and j: "j < 255"
    using c inv by (auto simp: two_level_slots_def two_level_inv_def i_def j_def)
  have ok: "cnode_ok S cs i" using inv i by (simp add: two_level_inv_def)
  then have p: "cnode_present cs i" and b255: "255 \<notin> bits_of (bot_bf cs i)" using i(2) by (simp_all add: cnode_ok_def)
  have len: "length (bot_bf cs i) = 4" using cnode_node [OF p] by blast
  have cs: "cs_two_level cs" "cs_top_bits cs = INITIAL_TASK_CNODE_SIZE_BITS" "length (cs_top_bf cs) = 128"
    using inv by (simp_all add: two_level_inv_def)
  let ?bf = "bf_andnot_bit (bot_bf cs i) j" and ?tbf = "bf_andnot_bit (cs_top_bf cs) i"
  have bf: "bits_of ?bf = bits_of (bot_bf cs i) - {j}" using len j by simp
  have "two_level_inv N S (upd_cnode i ?bf ?tbf cs)"
    by (rule two_level_inv_update [OF inv i(1,2)]) (use len cs(3) i j b255 bf in auto)
  moreover have "two_level_used N (upd_cnode i ?bf ?tbf cs) = two_level_used N cs - {c}"
    by (rule two_level_used_remove [OF p i(1)]) (use bf in \<open>simp_all add: j_def i_def\<close>)
  ultimately show ?thesis
    using cs_free_slot_run [OF p i_def [symmetric] c(2) i(3) cs] by (auto simp: j_def)
qed

interpretation two_level: slot_allocator cs_alloc_slot cs_free_slot "two_level_used N" "two_level_slots N S"
    "two_level_slots N S - {0}" "two_level_inv N S" for N S
proof unfold_locales
  have "two_level_slots N S \<subseteq> {..<256 * N}" by (auto simp: two_level_slots_def div_less_iff_less_mult mult.commute)
  then show "finite (two_level_slots N S)" by (rule finite_subset) simp
next
  fix s i t assume "two_level_inv N S s" "cs_alloc_slot s = (Ok i, t)"
  then show "i \<in> two_level_slots N S - two_level_used N s \<and> two_level_used N t = insert i (two_level_used N s) \<and>
      two_level_inv N S t"
    by (cases rule: two_level_alloc_cases) simp_all
next
  fix s i t j assume "two_level_inv N S s" "cs_alloc_slot s = (Ok i, t)" "j \<in> two_level_slots N S" "j < i"
  then show "j \<in> two_level_used N s" by (cases rule: two_level_alloc_cases) auto
next
  fix s r t assume "two_level_inv N S s" "cs_alloc_slot s = (r, t)" "\<forall>i. r \<noteq> Ok i"
  then show "t = s \<and> two_level_slots N S \<subseteq> two_level_used N s"
    by (cases rule: two_level_alloc_cases) auto
next
  fix s i assume "two_level_inv N S s" "i \<in> two_level_slots N S - {0}"
  then show "\<exists>t. cs_free_slot i s = (Ok (), t) \<and> two_level_used N t = two_level_used N s - {i} \<and> two_level_inv N S t"
    using two_level_free_spec by blast
qed auto

section \<open>Properties\<close>

text \<open>C4: In the root server's two-level CSpace any run of \<open>alloc_slot\<close> calls returns distinct slots,
  all of them free before and marked used after; a run is cut short only when no slot of an
  unsealed cnode is left.\<close>

theorem two_level_slots_distinct:
  assumes "two_level_inv N S cs" and "alloc_many cs_alloc_slot n cs = (is, t)"
  shows "distinct is \<and> set is \<subseteq> two_level_slots N S - two_level_used N cs \<and>
    two_level_used N t = two_level_used N cs \<union> set is \<and> two_level_inv N S t \<and>
    (length is < n \<longrightarrow> two_level_slots N S \<subseteq> two_level_used N t)"
  using two_level.alloc_many_spec [OF assms] by auto

definition one_cnode_cspace :: cspace where
  "one_cnode_cspace =
     (cspace_new 1 True INITIAL_TASK_CNODE_SIZE_BITS
        [Some \<lparr>bn_n_cnodes = 1, bn_cnodes = replicate 97 (bitfield_init 256)\<rparr>])\<lparr>cs_n_bot := 1\<rparr>"

lemma one_cnode_sel:
  "cs_two_level one_cnode_cspace" "cs_top_bits one_cnode_cspace = INITIAL_TASK_CNODE_SIZE_BITS"
  "cs_top_bf one_cnode_cspace = bitfield_init 8192" "cs_n_bot one_cnode_cspace = 1"
  "cs_bot one_cnode_cspace = [Some \<lparr>bn_n_cnodes = 1, bn_cnodes = replicate 97 (bitfield_init 256)\<rparr>]"
  by (simp_all add: one_cnode_cspace_def cspace_new_def index_eqs)

lemma one_cnode_inv: "two_level_inv 1 {} one_cnode_cspace"
proof -
  have len: "length (bitfield_init 256) = 4" "length (bitfield_init 8192) = 128"
    by (simp_all add: bitfield_init_def BITFIELD_SIZE_def)
  have "cnode_present one_cnode_cspace 0" "cnode_absent one_cnode_cspace 1" "bot_bf one_cnode_cspace 0 = bitfield_init 256"
    by (simp_all add: cnode_present_def cnode_absent_def bot_bf_def one_cnode_sel len)
  then show ?thesis by (auto simp: two_level_inv_def cnode_ok_def one_cnode_sel len lessThan_empty_iff)
qed

lemma one_cnode_used: "two_level_used 1 one_cnode_cspace = {}"
  by (auto simp: two_level_used_def bot_bf_def one_cnode_sel)

lemma one_cnode_slots: "two_level_slots 1 {} = {..<255}"
  by (auto simp: two_level_slots_def)

theorem two_level_slots_distinct_witness:
  "distinct (fst (alloc_many cs_alloc_slot 255 one_cnode_cspace)) \<and>
   set (fst (alloc_many cs_alloc_slot 255 one_cnode_cspace)) = {..<255}"
proof -
  let ?is = "fst (alloc_many cs_alloc_slot 255 one_cnode_cspace)"
  have w: "distinct ?is" "set ?is \<subseteq> {..<255}" "length ?is < 255 \<longrightarrow> {..<255} \<subseteq> set ?is"
    using two_level_slots_distinct [OF one_cnode_inv prod.collapse [symmetric], of 255]
    unfolding one_cnode_used one_cnode_slots by auto
  have "length ?is \<le> 255" by (rule alloc_many_length)
  then have "set ?is = {..<255}"
    using w card_subset_eq [of "{..<255}" "set ?is"] distinct_card [OF w(1)]
    by (cases "length ?is < 255") auto
  with w(1) show ?thesis by simp
qed

text \<open>A freed slot of the root server's CSpace is free again, no other slot changes, and the
  next allocation succeeds with a slot no greater than it.\<close>

lemma two_level_slot_reused:
  assumes "two_level_inv N S cs" and "c \<in> two_level_slots N S - {0}"
  shows "\<exists>t. cs_free_slot c cs = ((Ok () :: (sel4_error, unit) outcome), t) \<and>
    two_level_used N t = two_level_used N cs - {c} \<and>
    (\<exists>d u. cs_alloc_slot t = (Ok d, u) \<and> d \<le> c \<and> two_level_used N u = insert d (two_level_used N cs - {c}))"
proof -
  obtain t where t: "cs_free_slot c cs = ((Ok () :: (sel4_error, unit) outcome), t)" "two_level_used N t = two_level_used N cs - {c}"
    using two_level.release_Ok [OF assms] by blast
  obtain d u where "cs_alloc_slot t = (Ok d, u)" "d \<le> c" "two_level_used N u = insert d (two_level_used N cs - {c})"
    using two_level.release_then_alloc [OF assms t(1)] by blast
  with t show ?thesis by blast
qed

lemma two_level_slot_reused_witness:
  "\<exists>t d u. cs_free_slot 7 one_cnode_cspace = ((Ok () :: (sel4_error, unit) outcome), t) \<and> cs_alloc_slot t = (Ok d, u) \<and> d \<le> 7"
proof -
  have "7 \<in> two_level_slots 1 {} - {0}" unfolding one_cnode_slots by simp
  from two_level_slot_reused [OF one_cnode_inv this] show ?thesis by blast
qed

text \<open>In a process's one-level CSpace of 256 slots, slots allocated in a row are distinct and
  were free; from a state with \<open>k\<close> free slots, \<open>k\<close> allocations succeed.\<close>

lemma one_level_slots_distinct:
  assumes "one_level_inv cs" and "alloc_many cs_alloc_slot n cs = (is, t)"
  shows "distinct is \<and> set is \<subseteq> {..<256} - top_used cs \<and> top_used t = top_used cs \<union> set is \<and>
    (n \<le> card ({..<256} - top_used cs) \<longrightarrow> length is = n)"
  using one_level.alloc_many_spec [OF assms] one_level.alloc_many_enough [OF assms(1) _ assms(2)] by auto

definition fresh_user_cspace :: cspace where
  "fresh_user_cspace =
     (cspace_new 1 False CNODE_SIZE_BITS [])\<lparr>cs_top_bf := bitfield_init (CNODE_SLOTS CNODE_SIZE_BITS)\<rparr>"

lemma fresh_user_inv: "one_level_inv fresh_user_cspace"
  by (simp add: one_level_inv_def fresh_user_cspace_def cspace_new_def index_eqs bitfield_init_def BITFIELD_SIZE_def)

lemma one_level_slots_distinct_witness:
  "length (fst (alloc_many cs_alloc_slot 256 fresh_user_cspace)) = 256"
proof -
  have "top_used fresh_user_cspace = {}" by (simp add: top_used_def fresh_user_cspace_def cspace_new_def)
  then show ?thesis
    using one_level_slots_distinct [OF fresh_user_inv prod.collapse [symmetric], of 256] by simp
qed

text \<open>C10: Freeing a slot of a cnode whose 256 bits are all set (the bootstrap code fills cnodes so)
  and allocating again fails with \<open>NotEnoughMemory\<close> although a slot is free: the first
  allocation leaks the freed slot and leaves its cnode without a sealing bit, so every later
  allocation fails too, whatever the other cnodes hold.\<close>

theorem freed_full_cnode_blocks_allocation:
  assumes cs: "cs_two_level cs" "cs_top_bits cs = INITIAL_TASK_CNODE_SIZE_BITS" "length (cs_top_bf cs) = 128"
    and p: "cnode_present cs i" "i < 8192" and full: "bits_of (bot_bf cs i) = {..<256}"
    and low: "\<forall>k<i. k \<in> bits_of (cs_top_bf cs)" and c: "c div 256 = i" "c \<noteq> 0"
  shows "\<exists>t u. cs_free_slot c cs = ((Ok () :: (sel4_error, unit) outcome), t) \<and>
    cs_alloc_slot t = (Err NotEnoughMemory, u) \<and> cs_alloc_slot u = (Err NotEnoughMemory, u)"
proof -
  define j where "j = c mod 256"
  have j: "j < 256" by (simp add: j_def)
  define bf tbf where "bf = bf_andnot_bit (bot_bf cs i) j" and "tbf = bf_andnot_bit (cs_top_bf cs) i"
  define t where "t = upd_cnode i bf tbf cs"
  have len: "length (bot_bf cs i) = 4" using cnode_node [OF p(1)] by blast
  have bf: "length bf = 4" "bits_of bf = {..<256} - {j}" using len full j by (simp_all add: bf_def)
  have tbf: "length tbf = 128" "bits_of tbf = bits_of (cs_top_bf cs) - {i}"
    using cs(3) p(2) by (simp_all add: tbf_def)
  define bf' where "bf' = bf_or_bit bf j"
  define u where "u = set_bot_bf (i div 97) (i mod 97) bf' t"
  have bf': "length bf' = 4" "bits_of bf' = {..<256}"
    using bf insert_Diff [of j "{..<256}"] j by (simp_all add: bf'_def)
  have pt: "cnode_present t i" unfolding t_def by (rule cnode_present_upd [OF p(1) bf(1) p(1)])
  have bt: "bot_bf t i = bf" by (simp add: t_def bot_bf_upd [OF p(1)])
  have pu: "cnode_present u i"
    using cnode_present_upd [OF pt bf'(1) pt] by (simp add: u_def cnode_present_def)
  have bu: "bot_bf u i = bf'" by (simp add: u_def bot_bf_upd [OF pt])
  have ct: "cs_two_level t" "cs_top_bits t = INITIAL_TASK_CNODE_SIZE_BITS" "cs_top_bf t = tbf"
    using cs by (simp_all add: t_def)
  have cu: "cs_two_level u" "cs_top_bits u = INITIAL_TASK_CNODE_SIZE_BITS" "cs_top_bf u = tbf"
    using ct by (simp_all add: u_def)
  have top: "bf_free_slot tbf = Ok i"
    by (rule bf_free_slot_least) (use tbf low p(2) in auto)
  have "cs_free_slot c cs = ((Ok () :: (sel4_error, unit) outcome), t)"
    using cs_free_slot_run [OF p(1) c p(2) cs] by (simp add: t_def bf_def tbf_def j_def)
  moreover have "cs_alloc_slot t = (Err NotEnoughMemory, u)"
  proof -
    have "bf_free_slot bf = Ok j" by (rule bf_free_slot_least) (use bf j in auto)
    then show ?thesis
      using cs_alloc_slot_two_level [of t i] alloc_bot_slot_run [OF pt p(2), of j] j ct tbf(1) top bt
        bf_free_slot_full [OF bf'(2)] bf'(1) by (simp add: u_def bf'_def)
  qed
  moreover have "cs_alloc_slot u = (Err NotEnoughMemory, u)"
    using cs_alloc_slot_two_level [of u i] alloc_bot_slot_full [OF pu p(2)] cu tbf(1) top bu
      bf_free_slot_full [OF bf'(2)] bf'(1) by simp
  ultimately show ?thesis by blast
qed

definition full_cnode_cspace :: cspace where
  "full_cnode_cspace =
     set_bot_bf 0 0 [-1, -1, -1, -1] (one_cnode_cspace\<lparr>cs_top_bf := bf_or_bit (cs_top_bf one_cnode_cspace) 0\<rparr>)"

theorem freed_full_cnode_blocks_allocation_witness:
  "\<exists>t u. cs_free_slot 5 full_cnode_cspace = ((Ok () :: (sel4_error, unit) outcome), t) \<and>
    cs_alloc_slot t = (Err NotEnoughMemory, u) \<and> cs_alloc_slot u = (Err NotEnoughMemory, u)"
proof -
  let ?full = "[-1, -1, -1, -1 :: u64]"
  have full: "bits_of ?full = {..<256}"
    by (auto simp: bits_of_def nth_Cons' max_word_bit)
  have sel: "cs_two_level full_cnode_cspace" "cs_top_bits full_cnode_cspace = INITIAL_TASK_CNODE_SIZE_BITS"
    "length (cs_top_bf full_cnode_cspace) = 128" "cs_n_bot full_cnode_cspace = 1"
    "cs_bot full_cnode_cspace =
       [Some \<lparr>bn_n_cnodes = 1, bn_cnodes = (replicate 97 (bitfield_init 256))[0 := ?full]\<rparr>]"
    by (simp_all add: full_cnode_cspace_def one_cnode_sel bitfield_init_def BITFIELD_SIZE_def)
      (simp add: set_bot_bf_def one_cnode_sel bitfield_init_def BITFIELD_SIZE_def)
  have p: "cnode_present full_cnode_cspace 0" and b: "bot_bf full_cnode_cspace 0 = ?full"
    by (simp_all add: cnode_present_def bot_bf_def sel)
  show ?thesis
    by (rule freed_full_cnode_blocks_allocation [OF sel(1-3) p]) (simp_all only: b full, simp_all)
qed

end
