(* ===== verification/Untyped.thy ===== *)
theory Untyped
  imports CSpace
begin

text \<open>
  Untyped memory: \<open>crates/root_server/src/ut.rs\<close>, \<open>mapping.rs\<close> and \<open>util.rs\<close>.  The free lists
  are threaded through \<open>UT\<close> structures in memory, which is a map from addresses to structures
  here; an allocation that finds its list empty splits an untyped of the next size, and takes
  fresh structures from a page mapped for the purpose.  The invariant \<open>ut_inv W\<close> says that the
  lists are disjoint, hold structures of the right size, and none of those that \<open>W\<close> lists as
  owned by the callers.
\<close>

section \<open>The state\<close>

definition seL4_PageBits :: nat where [const_defs]: "seL4_PageBits = 12"
definition seL4_EndpointBits :: nat where [const_defs]: "seL4_EndpointBits = 4"
definition N_UNTYPED_LISTS :: nat where [const_defs]: "N_UNTYPED_LISTS = seL4_PageBits - seL4_EndpointBits + 1"

text \<open>\<open>size_of::<UT>()\<close>: a capability pointer, a flag, a byte and an \<open>Option<*mut UT>\<close>.\<close>

definition UT_SIZE :: nat where [const_defs]: "UT_SIZE = 32"

record ut =
  ut_cap :: cptr
  ut_valid :: bool
  ut_size_bits :: nat
  ut_next :: "nat option"

record ut_table =
  ut_first_paddr :: nat
  ut_untypeds :: "nat option"
  ut_free :: "nat option list"
  ut_n_4k :: nat
  ut_free_structures :: "nat option"
  ut_next_vaddr :: nat
  ut_heap :: "nat \<Rightarrow> ut"

text \<open>The root server's resources: its CSpace, the untyped table, the kernel.\<close>

record 'k resources =
  rs_cs :: cspace
  rs_ut :: ut_table
  rs_kern :: 'k

type_synonym ('k, 'a) rs_op = "('k resources, sel4_error, 'a) op"

definition in_cs :: "(cspace, 'e, 'a) op \<Rightarrow> ('k resources, 'e, 'a) op" where
  "in_cs = on_part rs_cs rs_cs_update"

definition in_ut :: "(ut_table, 'e, 'a) op \<Rightarrow> ('k resources, 'e, 'a) op" where
  "in_ut = on_part rs_ut rs_ut_update"

definition in_kern :: "('k, 'e, 'a) op \<Rightarrow> ('k resources, 'e, 'a) op" where
  "in_kern = on_part rs_kern rs_kern_update"

definition kern_call :: "'k kcall \<Rightarrow> ('k, unit) rs_op" where
  "kern_call f = in_kern (\<lambda>k. case f k of (r, k') \<Rightarrow> (kresult r, k'))"

definition rs_retype :: "'k sel4 \<Rightarrow> cptr \<Rightarrow> blueprint \<Rightarrow> nat \<Rightarrow> ('k, unit) rs_op" where
  "rs_retype K ut bp slot = bnd (gets rs_cs) (\<lambda>cs. in_kern (cs_untyped_retype K cs ut bp slot))"

definition rs_delete :: "'k sel4 \<Rightarrow> nat \<Rightarrow> ('k, unit) rs_op" where
  "rs_delete K slot = bnd (gets rs_cs) (\<lambda>cs. in_kern (cs_delete K cs slot))"

section \<open>Lists in memory\<close>

definition ut_push :: "nat option \<Rightarrow> nat \<Rightarrow> (nat \<Rightarrow> ut) \<Rightarrow> nat option \<times> (nat \<Rightarrow> ut)" where
  "ut_push head new h = (Some new, h(new := (h new)\<lparr>ut_next := head\<rparr>))"

definition ut_pop :: "nat option \<Rightarrow> (nat \<Rightarrow> ut) \<Rightarrow> (sel4_error, nat option \<times> nat) outcome" where
  "ut_pop head h = obind (ok_or NotEnoughMemory head) (\<lambda>popped. Ok (ut_next (h popped), popped))"

definition SIZE_BITS_TO_INDEX :: "nat \<Rightarrow> nat" where
  "SIZE_BITS_TO_INDEX x = x - seL4_EndpointBits"

text \<open>The two uses of the lists: \<open>free_untypeds[i]\<close> and \<open>free_structures\<close>.  Indexing past the
  array panics, and so does \<open>SIZE_BITS_TO_INDEX\<close> below 4.\<close>

definition push_untyped :: "nat \<Rightarrow> nat \<Rightarrow> (ut_table, 'e, unit) op" where
  "push_untyped size_bits p T =
     (let i = SIZE_BITS_TO_INDEX size_bits in
      if seL4_EndpointBits \<le> size_bits \<and> i < length (ut_free T) then
        (case ut_push (ut_free T ! i) p (ut_heap T) of
           (head, h) \<Rightarrow> (Ok (), T\<lparr>ut_free := (ut_free T)[i := head], ut_heap := h\<rparr>))
      else (Panic, T))"

definition pop_untyped :: "nat \<Rightarrow> (ut_table, sel4_error, nat) op" where
  "pop_untyped size_bits T =
     (let i = SIZE_BITS_TO_INDEX size_bits in
      if seL4_EndpointBits \<le> size_bits \<and> i < length (ut_free T) then
        (case ut_pop (ut_free T ! i) (ut_heap T) of
           Ok (head, p) \<Rightarrow> (Ok p, T\<lparr>ut_free := (ut_free T)[i := head]\<rparr>)
         | Err e \<Rightarrow> (Err e, T) | Panic \<Rightarrow> (Panic, T))
      else (Panic, T))"

definition push_structure :: "nat \<Rightarrow> (ut_table, 'e, unit) op" where
  "push_structure p T =
     (case ut_push (ut_free_structures T) p (ut_heap T) of
        (head, h) \<Rightarrow> (Ok (), T\<lparr>ut_free_structures := head, ut_heap := h\<rparr>))"

definition pop_structure :: "(ut_table, sel4_error, nat) op" where
  "pop_structure T =
     (case ut_pop (ut_free_structures T) (ut_heap T) of
        Ok (head, p) \<Rightarrow> (Ok p, T\<lparr>ut_free_structures := head\<rparr>)
      | Err e \<Rightarrow> (Err e, T) | Panic \<Rightarrow> (Panic, T))"

text \<open>\<open>free(ut)\<close> pushes to the list of the size the structure records.\<close>

definition ut_free_op :: "nat \<Rightarrow> (ut_table, 'e, unit) op" where
  "ut_free_op p = bnd (gets (\<lambda>T. ut_size_bits (ut_heap T p))) (\<lambda>sb. push_untyped sb p)"

definition set_ut :: "nat \<Rightarrow> cptr \<Rightarrow> nat \<Rightarrow> (ut_table, 'e, unit) op" where
  "set_ut p cap size_bits =
     modify (\<lambda>T. T\<lparr>ut_heap := (ut_heap T)(p := (ut_heap T p)\<lparr>ut_cap := cap, ut_size_bits := size_bits\<rparr>)\<rparr>)"

section \<open>The table\<close>

definition ut_to_paddr :: "nat \<Rightarrow> ut_table \<Rightarrow> ('e, nat) outcome" where
  "ut_to_paddr p T =
     obind (unwrap (ut_untypeds T)) (\<lambda>base.
     obind (sub_us p base) (\<lambda>d.
     obind (mul_us (d div UT_SIZE) PAGE_SIZE_4K) (\<lambda>off. add_us off (ut_first_paddr T))))"

definition paddr_to_ut :: "nat \<Rightarrow> ut_table \<Rightarrow> ('e, nat) outcome" where
  "paddr_to_ut paddr T =
     obind (unwrap (ut_untypeds T)) (\<lambda>base.
     obind (sub_us paddr (ut_first_paddr T)) (\<lambda>d. Ok (base + d div PAGE_SIZE_4K * UT_SIZE)))"

definition alloc_4k_untyped :: "('k, nat \<times> nat) rs_op" where
  "alloc_4k_untyped =
     in_ut (bnd (pop_untyped seL4_PageBits) (\<lambda>p. bnd (\<lambda>T. (ut_to_paddr p T, T)) (\<lambda>paddr. ret (paddr, p))))"

definition alloc_4k_device :: "nat \<Rightarrow> (ut_table, sel4_error, nat) op" where
  "alloc_4k_device paddr =
     bnd (\<lambda>T. (paddr_to_ut paddr T, T)) (\<lambda>p.
     bnd (gets (\<lambda>T. ut_valid (ut_heap T p))) (\<lambda>v.
     bnd (guard v InvalidArgument) (\<lambda>_. ret p)))"

definition ut_table_new :: "nat \<Rightarrow> nat \<Rightarrow> nat \<Rightarrow> (nat \<Rightarrow> ut) \<Rightarrow> ut_table" where
  "ut_table_new memory start next_free_vaddr h =
     \<lparr>ut_first_paddr = start, ut_untypeds = Some memory, ut_free = replicate N_UNTYPED_LISTS None,
      ut_n_4k = 0, ut_free_structures = None, ut_next_vaddr = next_free_vaddr, ut_heap = h\<rparr>"

definition add_untyped :: "nat \<Rightarrow> nat \<Rightarrow> bool \<Rightarrow> nat \<Rightarrow> (ut_table, 'e, unit) op" where
  "add_untyped paddr cptr device i =
     bnd (\<lambda>T. (paddr_to_ut (paddr + i * PAGE_SIZE_4K) T, T)) (\<lambda>node.
     bnd (modify (\<lambda>T. T\<lparr>ut_heap := (ut_heap T)(node := (ut_heap T node)\<lparr>ut_cap := cptr + i, ut_valid := True\<rparr>)\<rparr>)) (\<lambda>_.
     if device then ret ()
     else bnd (modify (\<lambda>T. T\<lparr>ut_heap := (ut_heap T)(node := (ut_heap T node)\<lparr>ut_size_bits := seL4_PageBits\<rparr>)\<rparr>)) (\<lambda>_.
          bnd (push_untyped seL4_PageBits node) (\<lambda>_. modify (\<lambda>T. T\<lparr>ut_n_4k := ut_n_4k T + 1\<rparr>)))))"

definition add_untyped_range :: "nat \<Rightarrow> nat \<Rightarrow> nat \<Rightarrow> bool \<Rightarrow> (ut_table, 'e, unit) op" where
  "add_untyped_range paddr cptr n_pages device = for_each (add_untyped paddr cptr device) [0..<n_pages]"

section \<open>Mapping frames\<close>

text \<open>\<open>sel4::init_thread::slot::VSPACE\<close> and the VM attributes of the sel4 crate.\<close>

definition INIT_VSPACE :: cptr where "INIT_VSPACE = 3"
definition VM_NONE :: nat where "VM_NONE = 0"
definition VM_DEFAULT :: nat where "VM_DEFAULT = 3"

definition retype_map_pt :: "'k sel4 \<Rightarrow> cptr \<Rightarrow> nat \<Rightarrow> cptr \<Rightarrow> nat \<Rightarrow> ('k, unit) rs_op" where
  "retype_map_pt K vspace vaddr ut pt_slot =
     bnd (rs_retype K ut BPT pt_slot) (\<lambda>_. kern_call (k_pt_map K pt_slot vspace vaddr))"

text \<open>The \<open>while\<close> loop runs at most \<open>MAPPING_SLOTS\<close> times: \<open>n\<close> rounds are left, \<open>err\<close> is the
  result of the last attempt to map.\<close>

fun map_frame_loop ::
  "'k sel4 \<Rightarrow> ('k, unit) rs_op \<Rightarrow> cptr \<Rightarrow> nat \<Rightarrow> nat list option \<Rightarrow> nat \<Rightarrow> nat \<Rightarrow>
   (sel4_error, unit) outcome \<Rightarrow> ('k, nat) rs_op" where
  "map_frame_loop K try vspace vaddr free_slots n used err =
     (case err of
        Ok _ \<Rightarrow> ret used
      | Panic \<Rightarrow> panic
      | Err e \<Rightarrow>
          (case n of
             0 \<Rightarrow> fail e
           | Suc m \<Rightarrow>
               if e \<noteq> FailedLookup then fail e
               else bnd alloc_4k_untyped (\<lambda>(_, ut).
                 bnd (case free_slots of
                        Some slots \<Rightarrow> ret (slots ! (MAPPING_SLOTS - n), used OR BIT (MAPPING_SLOTS - n))
                      | None \<Rightarrow> bnd (in_cs cs_alloc_slot) (\<lambda>slot. ret (slot, used))) (\<lambda>(slot, used').
                 bnd (guard (slot \<noteq> 0) InvalidCapability) (\<lambda>_.
                 bnd (gets (\<lambda>s. ut_cap (ut_heap (rs_ut s) ut))) (\<lambda>cap.
                 bnd (attempt (bnd (retype_map_pt K vspace vaddr cap slot) (\<lambda>_. try)))
                   (map_frame_loop K try vspace vaddr free_slots m used')))))))"

definition map_frame ::
  "'k sel4 \<Rightarrow> cptr \<Rightarrow> cptr \<Rightarrow> nat \<Rightarrow> cap_rights \<Rightarrow> nat \<Rightarrow> nat list option \<Rightarrow> ('k, nat) rs_op" where
  "map_frame K frame vspace vaddr rights attributes free_slots =
     (let try = kern_call (k_frame_map K frame vspace vaddr rights attributes) in
      bnd (attempt try) (map_frame_loop K try vspace vaddr free_slots MAPPING_SLOTS 0))"

definition map_frame_to_next_free_vaddr :: "'k sel4 \<Rightarrow> cptr \<Rightarrow> ('k, nat) rs_op" where
  "map_frame_to_next_free_vaddr K frame =
     bnd (gets (\<lambda>s. ut_next_vaddr (rs_ut s))) (\<lambda>vaddr.
     bnd (map_frame K frame INIT_VSPACE vaddr rights_all VM_DEFAULT None) (\<lambda>_.
     bnd (gets (\<lambda>s. ut_next_vaddr (rs_ut s))) (\<lambda>prev.
     bnd (lift (add_us prev PAGE_SIZE_4K)) (\<lambda>next.
     bnd (in_ut (modify (\<lambda>T. T\<lparr>ut_next_vaddr := next\<rparr>))) (\<lambda>_. ret prev)))))"

section \<open>Allocation\<close>

definition structures_short :: "ut_table \<Rightarrow> bool" where
  "structures_short T =
     (case ut_free_structures T of None \<Rightarrow> True | Some p \<Rightarrow> ut_next (ut_heap T p) = None)"

definition push_structures :: "nat \<Rightarrow> (ut_table, 'e, unit) op" where
  "push_structures new_uts = for_each (\<lambda>i. push_structure (new_uts + i * UT_SIZE)) [0..<PAGE_SIZE_4K div UT_SIZE]"

definition ensure_new_structures :: "'k sel4 \<Rightarrow> ('k, unit) rs_op" where
  "ensure_new_structures K =
     bnd (gets (\<lambda>s. structures_short (rs_ut s))) (\<lambda>short.
     if \<not> short then ret ()
     else bnd alloc_4k_untyped (\<lambda>(_, frame_ut).
       bnd (in_cs cs_alloc_slot) (\<lambda>cptr.
       bnd (gets (\<lambda>s. ut_cap (ut_heap (rs_ut s) frame_ut))) (\<lambda>cap.
       bnd (rs_retype K cap BSmallPage cptr) (\<lambda>_.
       bnd (map_frame_to_next_free_vaddr K cptr) (\<lambda>new_uts.
       in_ut (push_structures new_uts)))))))"

text \<open>The clean-up closures of \<open>alloc\<close>: run \<open>undo\<close>, then return the error.\<close>

definition undo_on_err :: "('s, 'e, 'a) op \<Rightarrow> ('s, 'e, unit) op \<Rightarrow> ('s, 'e, 'a) op" where
  "undo_on_err m undo = on_err m (\<lambda>e. bnd undo (\<lambda>_. fail e))"

definition seq :: "('s, 'e, unit) op \<Rightarrow> ('s, 'e, 'a) op \<Rightarrow> ('s, 'e, 'a) op" where
  "seq m m' = bnd m (\<lambda>_. m')"

text \<open>Splitting an untyped in two, from the end: the two retypes; the second structure and its
  slot; the first ones.\<close>

definition split_retype :: "'k sel4 \<Rightarrow> nat \<Rightarrow> nat \<Rightarrow> nat \<Rightarrow> cptr \<Rightarrow> nat \<Rightarrow> cptr \<Rightarrow> ('k, unit) rs_op" where
  "split_retype K size_bits larger new1 cslot1 new2 cslot2 =
     (let free_larger = in_ut (ut_free_op larger);
          push1 = in_ut (push_structure new1); push2 = in_ut (push_structure new2);
          free1 = in_cs (cs_free_slot cslot1); free2 = in_cs (cs_free_slot cslot2) in
      bnd (gets (\<lambda>s. ut_cap (ut_heap (rs_ut s) larger))) (\<lambda>cap.
      seq (undo_on_err (rs_retype K cap (BUntyped size_bits) cslot1)
             (seq free_larger (seq push1 (seq free1 (seq push2 free2)))))
     (seq (undo_on_err (rs_retype K cap (BUntyped size_bits) cslot2)
             (seq free_larger (seq push1 (seq (rs_delete K cslot1) (seq free1 (seq push2 free2))))))
     (seq (in_ut (push_untyped size_bits new1))
          (in_ut (push_untyped size_bits new2))))))"

definition split_second :: "'k sel4 \<Rightarrow> nat \<Rightarrow> nat \<Rightarrow> nat \<Rightarrow> cptr \<Rightarrow> ('k, unit) rs_op" where
  "split_second K size_bits larger new1 cslot1 =
     (let free_larger = in_ut (ut_free_op larger);
          push1 = in_ut (push_structure new1); free1 = in_cs (cs_free_slot cslot1) in
      bnd (undo_on_err (in_ut pop_structure) (seq free_larger (seq push1 free1))) (\<lambda>new2.
      bnd (undo_on_err (in_cs cs_alloc_slot)
             (seq free_larger (seq push1 (seq free1 (in_ut (push_structure new2)))))) (\<lambda>cslot2.
      seq (in_ut (set_ut new2 cslot2 size_bits))
          (split_retype K size_bits larger new1 cslot1 new2 cslot2))))"

definition split_untyped :: "'k sel4 \<Rightarrow> nat \<Rightarrow> nat \<Rightarrow> ('k, unit) rs_op" where
  "split_untyped K size_bits larger =
     (let free_larger = in_ut (ut_free_op larger) in
      seq (undo_on_err (ensure_new_structures K) free_larger)
     (bnd (undo_on_err (in_ut pop_structure) free_larger) (\<lambda>new1.
      bnd (undo_on_err (in_cs cs_alloc_slot) (seq free_larger (in_ut (push_structure new1)))) (\<lambda>cslot1.
      seq (in_ut (set_ut new1 cslot1 size_bits))
          (split_second K size_bits larger new1 cslot1)))))"

function ut_alloc :: "'k sel4 \<Rightarrow> nat \<Rightarrow> ('k, nat) rs_op" where
  "ut_alloc K size_bits =
     (if size_bits > seL4_PageBits then fail InvalidArgument
      else if size_bits < seL4_EndpointBits then fail InvalidArgument
      else if size_bits = seL4_PageBits then bnd alloc_4k_untyped (\<lambda>(_, ut). ret ut)
      else bnd (gets (\<lambda>s. ut_free (rs_ut s))) (\<lambda>lists.
        bnd (ensure (SIZE_BITS_TO_INDEX size_bits < length lists)) (\<lambda>_.
        bnd (if lists ! SIZE_BITS_TO_INDEX size_bits = None
             then bnd (ut_alloc K (size_bits + 1)) (split_untyped K size_bits)
             else ret ()) (\<lambda>_.
        in_ut (expect (pop_untyped size_bits))))))"
  by pat_completeness auto
termination
  by (relation "measure (\<lambda>(K, size_bits). 13 - size_bits)") (auto simp: const_defs)

declare ut_alloc.simps [simp del]

text \<open>\<open>alloc_retype\<close>: an object and the untyped it lives in.\<close>

definition alloc_retype :: "'k sel4 \<Rightarrow> blueprint \<Rightarrow> ('k, cptr \<times> nat) rs_op" where
  "alloc_retype K blueprint =
     bnd (on_err (ut_alloc K (k_physical_size_bits K blueprint)) (\<lambda>_. fail NotEnoughMemory)) (\<lambda>ut.
     bnd (on_err (in_cs cs_alloc_slot) (\<lambda>_. seq (in_ut (ut_free_op ut)) (fail InvalidCapability))) (\<lambda>cptr.
     bnd (gets (\<lambda>s. ut_cap (ut_heap (rs_ut s) ut))) (\<lambda>cap.
     bnd (on_err (rs_retype K cap blueprint cptr)
            (\<lambda>_. seq (in_ut (ut_free_op ut)) (seq (in_cs (cs_free_slot cptr)) (fail IllegalOperation)))) (\<lambda>_.
     ret (cptr, ut)))))"

definition dealloc_retyped :: "'k sel4 \<Rightarrow> cptr \<times> nat \<Rightarrow> ('k, unit) rs_op" where
  "dealloc_retyped K alloc =
     (case alloc of (cptr, ut) \<Rightarrow>
      seq (expect (rs_delete K cptr)) (seq (in_cs (cs_free_slot cptr)) (in_ut (ut_free_op ut))))"

section \<open>The invariant\<close>

fun ut_list :: "(nat \<Rightarrow> ut) \<Rightarrow> nat option \<Rightarrow> nat list \<Rightarrow> bool" where
  "ut_list h head [] \<longleftrightarrow> head = None"
| "ut_list h head (p # ps) \<longleftrightarrow> head = Some p \<and> ut_list h (ut_next (h p)) ps"

definition ut_head :: "ut_table \<Rightarrow> nat \<Rightarrow> nat option" where
  "ut_head T i = (if i < 9 then ut_free T ! i else ut_free_structures T)"

text \<open>\<open>F i\<close> is list \<open>i\<close> of untypeds for \<open>i < 9\<close> and the list of spare structures for \<open>i = 9\<close>;
  \<open>b\<close> bounds the addresses in use; the map \<open>W\<close> gives the capability and the size of what is owned.\<close>

lemma ut_head_heap [simp]: "ut_head (T\<lparr>ut_heap := h\<rparr>) i = ut_head T i"
  by (simp add: ut_head_def)

definition ut_lists :: "ut_table \<Rightarrow> (nat \<Rightarrow> nat list) \<Rightarrow> bool" where
  "ut_lists T F \<longleftrightarrow> length (ut_free T) = 9 \<and>
     (\<forall>i\<le>9. ut_list (ut_heap T) (ut_head T i) (F i) \<and> distinct (F i)) \<and>
     (\<forall>i\<le>9. \<forall>j\<le>9. i \<noteq> j \<longrightarrow> set (F i) \<inter> set (F j) = {}) \<and>
     (\<forall>i<9. \<forall>p \<in> set (F i). ut_size_bits (ut_heap T p) = i + 4)"

definition ut_rep :: "nat \<Rightarrow> (nat \<rightharpoonup> cptr \<times> nat) \<Rightarrow> (nat \<Rightarrow> nat list) \<Rightarrow> ut_table \<Rightarrow> bool" where
  "ut_rep b W F T \<longleftrightarrow> ut_lists T F \<and> (\<forall>i\<le>9. \<forall>p \<in> set (F i). p < b \<and> p \<notin> dom W) \<and>
     (\<forall>p v. W p = Some v \<longrightarrow> p < b \<and> v = (ut_cap (ut_heap T p), ut_size_bits (ut_heap T p)))"

definition ut_inv_below :: "nat \<Rightarrow> (nat \<rightharpoonup> cptr \<times> nat) \<Rightarrow> ut_table \<Rightarrow> bool" where
  "ut_inv_below b W T \<longleftrightarrow> (\<exists>F. ut_rep b W F T)"

definition ut_inv :: "(nat \<rightharpoonup> cptr \<times> nat) \<Rightarrow> ut_table \<Rightarrow> bool" where
  "ut_inv W T \<longleftrightarrow> ut_inv_below (ut_next_vaddr T) W T"

lemma ut_list_frame:
  "p \<notin> set ps \<Longrightarrow> ut_list (h(p := x)) head ps \<longleftrightarrow> ut_list h head ps"
  by (induction ps arbitrary: head) auto

lemma ut_list_next:
  "(\<And>q. q \<in> set ps \<Longrightarrow> ut_next (h' q) = ut_next (h q)) \<Longrightarrow> ut_list h' head ps \<longleftrightarrow> ut_list h head ps"
  by (induction ps arbitrary: head) auto

lemma ut_list_head: "ut_list h head ps \<Longrightarrow> head = (case ps of [] \<Rightarrow> None | p # _ \<Rightarrow> Some p)"
  by (cases ps) auto

text \<open>Pushing an address that is in no list, with the size of the list.\<close>

lemma ut_lists_push:
  assumes F: "ut_lists T F" and i: "i \<le> 9" and new: "\<forall>j\<le>9. p \<notin> set (F j)"
    and sz: "i < 9 \<Longrightarrow> ut_size_bits (ut_heap T p) = i + 4"
    and T': "ut_heap T' = (ut_heap T)(p := (ut_heap T p)\<lparr>ut_next := ut_head T i\<rparr>)"
      "length (ut_free T') = 9" "ut_head T' i = Some p" "\<forall>j\<le>9. j \<noteq> i \<longrightarrow> ut_head T' j = ut_head T j"
  shows "ut_lists T' (F(i := p # F i))"
proof -
  have l: "ut_list (ut_heap T') (ut_head T j) (F j) \<and> distinct (F j)" if "j \<le> 9" for j
    using F that new by (simp add: ut_lists_def T'(1) ut_list_frame)
  have d: "set (F j) \<inter> set (F k) = {}" if "j \<le> 9" "k \<le> 9" "j \<noteq> k" for j k
    using F that by (simp add: ut_lists_def)
  have s: "ut_size_bits (ut_heap T' q) = j + 4" if "j < 9" "q \<in> set (F j)" for j q
    using F that new by (auto simp: ut_lists_def T'(1))
  have "ut_list (ut_heap T') (ut_head T' j) ((F(i := p # F i)) j) \<and> distinct ((F(i := p # F i)) j)"
    if "j \<le> 9" for j
    using l [OF that] l [OF i] new i T'(1,3,4) that by (cases "j = i") auto
  moreover have "set ((F(i := p # F i)) j) \<inter> set ((F(i := p # F i)) k) = {}" if "j \<le> 9" "k \<le> 9" "j \<noteq> k" for j k
    using d [OF that] new that by auto
  moreover have "ut_size_bits (ut_heap T' q) = j + 4" if "j < 9" "q \<in> set ((F(i := p # F i)) j)" for j q
  proof (cases "q = p \<and> j = i")
    case True
    then show ?thesis using that sz by (simp add: T'(1))
  next
    case False
    then show ?thesis using that s by (auto split: if_splits)
  qed
  ultimately show ?thesis using T'(2) unfolding ut_lists_def by blast
qed

lemma ut_lists_pop:
  assumes F: "ut_lists T F" and i: "i \<le> 9" and p: "ut_head T i = Some p"
    and T': "ut_heap T' = ut_heap T" "length (ut_free T') = 9" "ut_head T' i = ut_next (ut_heap T p)"
      "\<forall>j\<le>9. j \<noteq> i \<longrightarrow> ut_head T' j = ut_head T j"
  obtains ps where "F i = p # ps" "ut_lists T' (F(i := ps))" "\<forall>j\<le>9. p \<notin> set ((F(i := ps)) j)"
proof -
  have l: "ut_list (ut_heap T) (ut_head T i) (F i)" "distinct (F i)" using F i by (simp_all add: ut_lists_def)
  then obtain ps where ps: "F i = p # ps" using p by (cases "F i") auto
  then have l': "ut_list (ut_heap T) (ut_next (ut_heap T p)) ps" "distinct ps" "p \<notin> set ps" using l by auto
  have d: "set (F j) \<inter> set (F k) = {}" if "j \<le> 9" "k \<le> 9" "j \<noteq> k" for j k
    using F that by (simp add: ut_lists_def)
  have "p \<notin> set ((F(i := ps)) j)" if "j \<le> 9" for j
    using d [OF i that] ps l'(3) by (cases "j = i") auto
  moreover have "ut_lists T' (F(i := ps))"
    unfolding ut_lists_def
  proof (intro conjI allI impI)
    show "length (ut_free T') = 9" by fact
  next
    fix j assume "(j::nat) \<le> 9"
    then show "ut_list (ut_heap T') (ut_head T' j) ((F(i := ps)) j)"
      using F l' T' by (cases "j = i") (auto simp: ut_lists_def)
    show "distinct ((F(i := ps)) j)" using F l' \<open>j \<le> 9\<close> by (cases "j = i") (auto simp: ut_lists_def)
  next
    fix j k assume "(j::nat) \<le> 9" "(k::nat) \<le> 9" "j \<noteq> k"
    then show "set ((F(i := ps)) j) \<inter> set ((F(i := ps)) k) = {}" using d [of j k] ps by auto
  next
    fix j assume "(j::nat) < 9"
    then show "\<forall>q \<in> set ((F(i := ps)) j). ut_size_bits (ut_heap T' q) = j + 4"
      using F ps T'(1) by (auto simp: ut_lists_def)
  qed
  ultimately show ?thesis using that ps by blast
qed

text \<open>Pushing, popping, giving up ownership and taking it.\<close>

lemma ut_rep_owned: "ut_rep b W F T \<Longrightarrow> W p = Some v \<Longrightarrow> p < b \<and> v = (ut_cap (ut_heap T p), ut_size_bits (ut_heap T p))"
  unfolding ut_rep_def by blast

lemma ut_rep_push:
  assumes R: "ut_rep b W F T" and i: "i \<le> 9" and new: "\<forall>j\<le>9. p \<notin> set (F j)"
    and p: "W p = None" "p < b" and sz: "i < 9 \<Longrightarrow> ut_size_bits (ut_heap T p) = i + 4"
    and T': "ut_heap T' = (ut_heap T)(p := (ut_heap T p)\<lparr>ut_next := ut_head T i\<rparr>)"
      "length (ut_free T') = 9" "ut_head T' i = Some p" "\<forall>j\<le>9. j \<noteq> i \<longrightarrow> ut_head T' j = ut_head T j"
  shows "ut_rep b W (F(i := p # F i)) T'"
proof -
  have F: "ut_lists T F" using R by (simp add: ut_rep_def)
  have "ut_lists T' (F(i := p # F i))" by (rule ut_lists_push [OF F i new sz T'])
  then show ?thesis using R p by (auto simp: ut_rep_def T'(1) split: if_splits)
qed

lemma ut_rep_pop:
  assumes R: "ut_rep b W F T" and i: "i \<le> 9" and p: "ut_head T i = Some p"
    and T': "ut_heap T' = ut_heap T" "length (ut_free T') = 9" "ut_head T' i = ut_next (ut_heap T p)"
      "\<forall>j\<le>9. j \<noteq> i \<longrightarrow> ut_head T' j = ut_head T j"
  shows "\<exists>F'. ut_rep b (W(p \<mapsto> (ut_cap (ut_heap T p), ut_size_bits (ut_heap T p)))) F' T'"
    and "W p = None" and "i < 9 \<Longrightarrow> ut_size_bits (ut_heap T p) = i + 4"
proof -
  have F: "ut_lists T F" using R by (simp add: ut_rep_def)
  obtain ps where ps: "F i = p # ps" "ut_lists T' (F(i := ps))" "\<forall>j\<le>9. p \<notin> set ((F(i := ps)) j)"
    using ut_lists_pop [OF F i p T'] .
  have "p \<in> set (F i)" using ps(1) by simp
  with R i have pw: "p < b" "p \<notin> dom W" by (auto simp: ut_rep_def)
  then show "W p = None" by auto
  show "i < 9 \<Longrightarrow> ut_size_bits (ut_heap T p) = i + 4" using F \<open>p \<in> set (F i)\<close> by (auto simp: ut_lists_def)
  have sub: "set ((F(i := ps)) j) \<subseteq> set (F j)" for j using ps(1) by auto
  have "ut_rep b (W(p \<mapsto> (ut_cap (ut_heap T p), ut_size_bits (ut_heap T p)))) (F(i := ps)) T'"
    unfolding ut_rep_def
  proof (intro conjI allI impI ballI)
    show "ut_lists T' (F(i := ps))" by (rule ps(2))
  next
    fix j q assume j: "j \<le> 9" "q \<in> set ((F(i := ps)) j)"
    then have "q \<in> set (F j)" "q \<noteq> p" using sub ps(3) by auto
    then show "q < b" "q \<notin> dom (W(p \<mapsto> (ut_cap (ut_heap T p), ut_size_bits (ut_heap T p))))"
      using R j by (auto simp: ut_rep_def)
  next
    fix q v assume "(W(p \<mapsto> (ut_cap (ut_heap T p), ut_size_bits (ut_heap T p)))) q = Some v"
    then show "q < b" "v = (ut_cap (ut_heap T' q), ut_size_bits (ut_heap T' q))"
      using ut_rep_owned [OF R, of q v] pw T'(1) by (auto split: if_splits)
  qed
  then show "\<exists>F'. ut_rep b (W(p \<mapsto> (ut_cap (ut_heap T p), ut_size_bits (ut_heap T p)))) F' T'" by blast
qed

lemma ut_rep_disown:
  assumes "ut_rep b W F T" and "W p = Some v"
  shows "ut_rep b (W(p := None)) F T" "\<forall>j\<le>9. p \<notin> set (F j)" "p < b"
    "v = (ut_cap (ut_heap T p), ut_size_bits (ut_heap T p))"
proof -
  show "p < b" "v = (ut_cap (ut_heap T p), ut_size_bits (ut_heap T p))"
    using ut_rep_owned [OF assms] by simp_all
  show "\<forall>j\<le>9. p \<notin> set (F j)" using assms by (auto simp: ut_rep_def)
  show "ut_rep b (W(p := None)) F T" using assms by (auto simp: ut_rep_def)
qed

lemma ut_inv_disown: "ut_inv W T \<Longrightarrow> ut_inv (W(p := None)) T"
proof (cases "W p")
  case (Some v)
  then show "ut_inv W T \<Longrightarrow> ut_inv (W(p := None)) T"
    unfolding ut_inv_def ut_inv_below_def using ut_rep_disown(1) by blast
qed (simp add: fun_upd_idem)

lemma ut_lists_set:
  assumes "ut_lists T F" and "\<forall>j\<le>9. p \<notin> set (F j)"
  shows "ut_lists (T\<lparr>ut_heap := (ut_heap T)(p := x)\<rparr>) F"
proof -
  have "ut_list ((ut_heap T)(p := x)) head (F j) \<longleftrightarrow> ut_list (ut_heap T) head (F j)" if "j \<le> 9" for j head
    using assms(2) that by (simp add: ut_list_frame)
  moreover have "(((ut_heap T)(p := x)) q) = ut_heap T q" if "j < 9" "q \<in> set (F j)" for j q
    using assms(2) that by auto
  ultimately show ?thesis using assms(1) by (simp add: ut_lists_def del: fun_upd_apply)
qed

lemma ut_rep_set:
  assumes R: "ut_rep b W F T" and p: "W p = Some v"
  shows "ut_rep b (W(p \<mapsto> (c, n))) F (T\<lparr>ut_heap := (ut_heap T)(p := (ut_heap T p)\<lparr>ut_cap := c, ut_size_bits := n\<rparr>)\<rparr>)"
proof -
  have "ut_lists T F" using R by (simp add: ut_rep_def)
  note l = ut_lists_set [OF this ut_rep_disown(2) [OF R p]]
  show ?thesis
    unfolding ut_rep_def
  proof (intro conjI allI impI ballI)
    fix q v assume "(W(p \<mapsto> (c, n))) q = Some v"
    then show "q < b"
      "v = (ut_cap (ut_heap (T\<lparr>ut_heap := (ut_heap T)(p := (ut_heap T p)\<lparr>ut_cap := c, ut_size_bits := n\<rparr>)\<rparr>) q),
            ut_size_bits (ut_heap (T\<lparr>ut_heap := (ut_heap T)(p := (ut_heap T p)\<lparr>ut_cap := c, ut_size_bits := n\<rparr>)\<rparr>) q))"
      using ut_rep_owned [OF R, of q v] ut_rep_owned [OF R p] by (auto split: if_splits)
  qed (use R p l in \<open>auto simp: ut_rep_def\<close>)
qed

section \<open>Triples\<close>

lemma push_untyped_run:
  assumes "ut_rep b W F T" and "4 \<le> sb" "sb \<le> 12"
  shows "push_untyped sb p T = (Ok (), T\<lparr>ut_free := (ut_free T)[sb - 4 := Some p],
    ut_heap := (ut_heap T)(p := (ut_heap T p)\<lparr>ut_next := ut_head T (sb - 4)\<rparr>)\<rparr>)"
  using assms by (auto simp: push_untyped_def Let_def SIZE_BITS_TO_INDEX_def const_defs ut_push_def ut_head_def
      ut_rep_def ut_lists_def)

lemma push_untyped_triple:
  assumes W: "W p = Some (c, sb)" and sb: "4 \<le> sb" "sb \<le> 12"
  shows "triple (ut_inv W) (push_untyped sb p) (\<lambda>_. ut_inv (W(p := None))) E"
proof (rule tripleI)
  fix T x T' assume "ut_inv W T" and run: "push_untyped sb p T = (Ok x, T')"
  then obtain F where R: "ut_rep (ut_next_vaddr T) W F T" by (auto simp: ut_inv_def ut_inv_below_def)
  note d = ut_rep_disown [OF R W]
  have T': "T' = T\<lparr>ut_free := (ut_free T)[sb - 4 := Some p],
      ut_heap := (ut_heap T)(p := (ut_heap T p)\<lparr>ut_next := ut_head T (sb - 4)\<rparr>)\<rparr>"
    using run by (simp add: push_untyped_run [OF R sb])
  have len: "length (ut_free T) = 9" using R by (simp add: ut_rep_def ut_lists_def)
  have "ut_rep (ut_next_vaddr T) (W(p := None)) (F(sb - 4 := p # F (sb - 4))) T'"
    by (rule ut_rep_push [OF d(1) _ d(2)]) (use d(3,4) len sb in \<open>auto simp: T' ut_head_def nth_list_update\<close>)
  then show "ut_inv (W(p := None)) T'" unfolding ut_inv_def ut_inv_below_def T' by auto
next
  fix T e T' assume "ut_inv W T" and run: "push_untyped sb p T = (Err e, T')"
  then obtain F where R: "ut_rep (ut_next_vaddr T) W F T" by (auto simp: ut_inv_def ut_inv_below_def)
  from run show "E T'" by (simp add: push_untyped_run [OF R sb])
qed

lemma push_structure_run:
  "push_structure p T = (Ok (), T\<lparr>ut_free_structures := Some p,
     ut_heap := (ut_heap T)(p := (ut_heap T p)\<lparr>ut_next := ut_head T 9\<rparr>)\<rparr>)"
  by (simp add: push_structure_def ut_push_def ut_head_def)

lemma push_structure_triple:
  assumes W: "W p = Some v"
  shows "triple (ut_inv W) (push_structure p) (\<lambda>_. ut_inv (W(p := None))) E"
proof (rule tripleI)
  fix T x T' assume "ut_inv W T" and "push_structure p T = (Ok x, T')"
  then obtain F where R: "ut_rep (ut_next_vaddr T) W F T"
    and T': "T' = T\<lparr>ut_free_structures := Some p,
      ut_heap := (ut_heap T)(p := (ut_heap T p)\<lparr>ut_next := ut_head T 9\<rparr>)\<rparr>"
    by (auto simp: ut_inv_def ut_inv_below_def push_structure_run)
  note d = ut_rep_disown [OF R W]
  have len: "length (ut_free T) = 9" using R by (simp add: ut_rep_def ut_lists_def)
  have "ut_rep (ut_next_vaddr T) (W(p := None)) (F(9 := p # F 9)) T'"
    by (rule ut_rep_push [OF d(1) _ d(2)]) (use d(3) len in \<open>auto simp: T' ut_head_def\<close>)
  then show "ut_inv (W(p := None)) T'" unfolding ut_inv_def ut_inv_below_def T' by auto
qed (simp add: push_structure_run)

lemma pop_untyped_triple:
  assumes sb: "4 \<le> sb" "sb \<le> 12"
  shows "triple (ut_inv W) (pop_untyped sb) (\<lambda>p T. W p = None \<and> (\<exists>c. ut_inv (W(p \<mapsto> (c, sb))) T)) (ut_inv W)"
proof (rule tripleI)
  fix T p T' assume "ut_inv W T" and run: "pop_untyped sb T = (Ok p, T')"
  then obtain F where R: "ut_rep (ut_next_vaddr T) W F T" by (auto simp: ut_inv_def ut_inv_below_def)
  then have len: "length (ut_free T) = 9" by (simp add: ut_rep_def ut_lists_def)
  have i: "sb - 4 < 9" "sb - 4 \<le> 9" using sb by auto
  have h: "ut_head T (sb - 4) = Some p" and
    T': "T' = T\<lparr>ut_free := (ut_free T)[sb - 4 := ut_next (ut_heap T p)]\<rparr>"
    using run sb len i by (cases "ut_free T ! (sb - 4)";
        auto simp: pop_untyped_def Let_def SIZE_BITS_TO_INDEX_def const_defs ut_pop_def ut_head_def)+
  have R': "\<exists>F'. ut_rep (ut_next_vaddr T) (W(p \<mapsto> (ut_cap (ut_heap T p), ut_size_bits (ut_heap T p)))) F' T'"
    and "W p = None" and sz: "ut_size_bits (ut_heap T p) = sb - 4 + 4"
    using ut_rep_pop [OF R i(2) h, of T'] len i by (auto simp: T' ut_head_def nth_list_update)
  then have "ut_inv (W(p \<mapsto> (ut_cap (ut_heap T p), sb))) T'"
    using sb unfolding ut_inv_def ut_inv_below_def by (simp add: T')
  then show "W p = None \<and> (\<exists>c. ut_inv (W(p \<mapsto> (c, sb))) T')" using \<open>W p = None\<close> by blast
next
  fix T e T' assume "ut_inv W T" and "pop_untyped sb T = (Err e, T')"
  then show "ut_inv W T'"
    by (auto simp: pop_untyped_def Let_def split: if_splits outcome.splits)
qed

lemma pop_structure_triple:
  "triple (ut_inv W) pop_structure (\<lambda>p T. W p = None \<and> (\<exists>v. ut_inv (W(p \<mapsto> v)) T)) (ut_inv W)"
proof (rule tripleI)
  fix T p T' assume "ut_inv W T" and run: "pop_structure T = (Ok p, T')"
  then obtain F where R: "ut_rep (ut_next_vaddr T) W F T" by (auto simp: ut_inv_def ut_inv_below_def)
  then have len: "length (ut_free T) = 9" by (simp add: ut_rep_def ut_lists_def)
  have h: "ut_head T 9 = Some p" and T': "T' = T\<lparr>ut_free_structures := ut_next (ut_heap T p)\<rparr>"
    using run by (cases "ut_free_structures T"; auto simp: pop_structure_def ut_pop_def ut_head_def)+
  have "\<exists>F'. ut_rep (ut_next_vaddr T) (W(p \<mapsto> (ut_cap (ut_heap T p), ut_size_bits (ut_heap T p)))) F' T'"
    and "W p = None"
    using ut_rep_pop [OF R _ h, of T'] len by (auto simp: T' ut_head_def)
  then show "W p = None \<and> (\<exists>v. ut_inv (W(p \<mapsto> v)) T')"
    unfolding ut_inv_def ut_inv_below_def by (auto simp: T')
next
  fix T e T' assume "ut_inv W T" and "pop_structure T = (Err e, T')"
  then show "ut_inv W T'" by (auto simp: pop_structure_def split: outcome.splits)
qed

lemma ut_free_op_triple:
  assumes W: "W p = Some (c, sb)" and sb: "4 \<le> sb" "sb \<le> 12"
  shows "triple (ut_inv W) (ut_free_op p) (\<lambda>_. ut_inv (W(p := None))) E"
  unfolding ut_free_op_def
proof (rule triple_bnd [where R = "\<lambda>n T. n = sb \<and> ut_inv W T"])
  show "triple (ut_inv W) (gets (\<lambda>T. ut_size_bits (ut_heap T p))) (\<lambda>n T. n = sb \<and> ut_inv W T) E"
    using ut_rep_owned W by (fastforce intro!: triple_gets simp: ut_inv_def ut_inv_below_def)
  show "triple (\<lambda>T. n = sb \<and> ut_inv W T) (push_untyped n p) (\<lambda>_. ut_inv (W(p := None))) E" for n
    by (rule triple_pure) (use push_untyped_triple [of W p c sb E] W sb in simp)
qed

lemma set_ut_triple:
  assumes "W p = Some v"
  shows "triple (ut_inv W) (set_ut p c n) (\<lambda>_. ut_inv (W(p \<mapsto> (c, n)))) E"
  unfolding set_ut_def
  using ut_rep_set [of _ W _ _ p v c n] assms
  by (intro triple_modify) (fastforce simp: ut_inv_def ut_inv_below_def)

text \<open>A freshly mapped page becomes spare structures.\<close>

lemma push_structures_triple:
  "triple (\<lambda>T. ut_inv_below v W T \<and> ut_next_vaddr T = v + 4096) (push_structures v) (\<lambda>_. ut_inv W) E"
proof -
  let ?I = "\<lambda>k T. ut_inv_below (v + k * 32) W T \<and> ut_next_vaddr T = v + 4096"
  have step: "triple (?I k) (push_structure (v + k * UT_SIZE)) (\<lambda>_. ?I (Suc k)) E" for k
  proof (rule tripleI)
    fix T x T' assume I: "?I k T" and run: "push_structure (v + k * UT_SIZE) T = (Ok x, T')"
    then obtain F where R: "ut_rep (v + k * 32) W F T" by (auto simp: ut_inv_below_def)
    let ?p = "v + k * 32"
    have T': "T' = T\<lparr>ut_free_structures := Some ?p,
        ut_heap := (ut_heap T)(?p := (ut_heap T ?p)\<lparr>ut_next := ut_head T 9\<rparr>)\<rparr>"
      using run by (simp add: push_structure_run UT_SIZE_def)
    have new: "\<forall>j\<le>9. ?p \<notin> set (F j)" using R by (auto simp: ut_rep_def)
    have Wp: "W ?p = None" using ut_rep_owned [OF R, of ?p] by (cases "W ?p") auto
    have "ut_rep (v + Suc k * 32) W F T" using R unfolding ut_rep_def by fastforce
    then have "ut_rep (v + Suc k * 32) W (F(9 := ?p # F 9)) T'"
      by (rule ut_rep_push [where i = 9]) (use R new Wp in \<open>auto simp: T' ut_head_def ut_rep_def ut_lists_def\<close>)
    then show "?I (Suc k) T'" using I by (auto simp: ut_inv_below_def T')
  qed (simp add: push_structure_run)
  have all: "triple (?I 0) (for_each (\<lambda>i. push_structure (v + i * UT_SIZE)) [0..<n]) (\<lambda>_. ?I n) E" for n
  proof (induction n)
    case (Suc n)
    then show ?case
      unfolding upt_Suc_append [OF le0] for_each_append
      by (rule triple_bnd) (use step in simp)
  qed (auto intro: triple_ret)
  show ?thesis
    unfolding push_structures_def
    by (rule triple_weaken [OF all [of "PAGE_SIZE_4K div UT_SIZE"]])
      (auto simp: ut_inv_def const_defs BIT_def)
qed

abbreviation rinv :: "(nat \<rightharpoonup> cptr \<times> nat) \<Rightarrow> 'k resources \<Rightarrow> bool" where
  "rinv W s \<equiv> ut_inv W (rs_ut s)"

lemma keep_ut:
  "triple (\<lambda>s. P (rs_ut s)) (in_cs m) (\<lambda>_ s. P (rs_ut s)) (\<lambda>s. P (rs_ut s))"
  "triple (\<lambda>s. P (rs_ut s)) (in_kern m') (\<lambda>_ s. P (rs_ut s)) (\<lambda>s. P (rs_ut s))"
  "triple (\<lambda>s. P (rs_ut s)) (kern_call f) (\<lambda>_ s. P (rs_ut s)) (\<lambda>s. P (rs_ut s))"
  by (simp_all add: in_cs_def in_kern_def kern_call_def triple_other_part)

lemma keep_ut_retype:
  "triple (\<lambda>s. P (rs_ut s)) (rs_retype K ut bp slot) (\<lambda>_ s. P (rs_ut s)) (\<lambda>s. P (rs_ut s))"
  "triple (\<lambda>s. P (rs_ut s)) (rs_delete K slot) (\<lambda>_ s. P (rs_ut s)) (\<lambda>s. P (rs_ut s))"
  unfolding rs_retype_def rs_delete_def
  by (rule triple_bnd [where R = "\<lambda>_ s. P (rs_ut s)"], simp add: triple_gets, rule keep_ut)+

lemma in_ut_triple:
  "triple P m Q E \<Longrightarrow> triple (\<lambda>s. P (rs_ut s)) (in_ut m) (\<lambda>x s. Q x (rs_ut s)) (\<lambda>s. E (rs_ut s))"
  unfolding in_ut_def by (rule triple_on_part) simp_all

lemma ut_inv_forget: "W p = None \<Longrightarrow> ut_inv (W(p \<mapsto> v)) T \<Longrightarrow> ut_inv W T"
  using ut_inv_disown [of "W(p \<mapsto> v)" T p] by (simp add: fun_upd_idem)

lemma alloc_4k_triple:
  "triple (rinv W) alloc_4k_untyped (\<lambda>(_, p) s. W p = None \<and> (\<exists>c. rinv (W(p \<mapsto> (c, 12))) s)) (rinv W)"
  unfolding alloc_4k_untyped_def
proof (rule in_ut_triple [THEN triple_weaken])
  let ?own = "\<lambda>p T. W p = None \<and> (\<exists>c. ut_inv (W(p \<mapsto> (c, 12))) T)"
  show "triple (ut_inv W) (bnd (pop_untyped seL4_PageBits) (\<lambda>p. bnd (\<lambda>T. (ut_to_paddr p T, T)) (\<lambda>paddr. ret (paddr, p))))
    (\<lambda>(_, p). ?own p) (ut_inv W)"
  proof (rule triple_bnd [where R = ?own])
    show "triple (ut_inv W) (pop_untyped seL4_PageBits) ?own (ut_inv W)"
      using pop_untyped_triple [of 12 W] by (simp add: const_defs)
    show "triple (?own p) (bnd (\<lambda>T. (ut_to_paddr p T, T)) (\<lambda>paddr. ret (paddr, p))) (\<lambda>(_, p). ?own p) (ut_inv W)" for p
      by (rule triple_bnd [where R = "\<lambda>_. ?own p"]) (auto simp: triple_def ut_inv_forget ret_def split: outcome.splits)
  qed
qed auto

lemma alloc_4k_spent: "triple (rinv W) alloc_4k_untyped (\<lambda>_. rinv W) (rinv W)"
  by (rule triple_weaken [OF alloc_4k_triple]) (auto simp: ut_inv_forget)

lemma map_frame_loop_triple:
  assumes "triple (rinv W) try (\<lambda>_. rinv W) (rinv W)"
  shows "triple (rinv W) (map_frame_loop K try vspace vaddr fs n used err) (\<lambda>_. rinv W) (rinv W)"
proof (induction n arbitrary: used err)
  case 0
  show ?case by (cases err) (auto intro!: triple_ret triple_fail triple_panic)
next
  case (Suc n)
  let ?P = "\<lambda>_. rinv W"
  have slot: "triple (rinv W) (case fs of Some slots \<Rightarrow> ret (slots ! (MAPPING_SLOTS - Suc n), used OR BIT (MAPPING_SLOTS - Suc n))
      | None \<Rightarrow> bnd (in_cs cs_alloc_slot) (\<lambda>slot. ret (slot, used))) ?P (rinv W)"
    by (cases fs) (auto intro!: triple_ret triple_bnd [where R = ?P] keep_ut)
  have map: "triple (rinv W) (bnd (retype_map_pt K vspace vaddr cap slot) (\<lambda>_. try)) ?P (rinv W)" for cap slot
    unfolding retype_map_pt_def
    by (intro triple_bnd [where R = ?P] keep_ut keep_ut_retype assms)
  have att: "triple (rinv W) (attempt (bnd (retype_map_pt K vspace vaddr cap slot) (\<lambda>_. try))) ?P (rinv W)" for cap slot
    by (rule triple_weaken [OF triple_attempt [OF map]]) (auto split: outcome.splits)
  show ?case
  proof (cases err)
    case (Err e)
    show ?thesis
    proof (cases "e = FailedLookup")
      case True
      show ?thesis
        using Err True
        by (auto intro!: triple_bnd [where R = ?P] alloc_4k_spent slot att Suc triple_guard triple_gets split: prod.split)
    qed (use Err in \<open>simp add: triple_fail\<close>)
  qed (auto intro!: triple_ret triple_panic)
qed

lemma map_frame_triple:
  "triple (rinv W) (map_frame K frame vspace vaddr rights attributes fs) (\<lambda>_. rinv W) (rinv W)"
  unfolding map_frame_def Let_def
proof (rule triple_bnd [where R = "\<lambda>_. rinv W"])
  show "triple (rinv W) (attempt (kern_call (k_frame_map K frame vspace vaddr rights attributes))) (\<lambda>_. rinv W) (rinv W)"
    by (rule triple_weaken [OF triple_attempt [OF keep_ut(3) [of "ut_inv W"]]]) (auto split: outcome.splits)
qed (intro map_frame_loop_triple keep_ut)

lemma map_to_next_triple:
  "triple (rinv W) (map_frame_to_next_free_vaddr K frame)
     (\<lambda>v s. ut_inv_below v W (rs_ut s) \<and> ut_next_vaddr (rs_ut s) = v + 4096) (rinv W)"
  unfolding map_frame_to_next_free_vaddr_def
proof (rule triple_bnd [where R = "\<lambda>_. rinv W"])
  fix vaddr
  show "triple (rinv W) (bnd (map_frame K frame INIT_VSPACE vaddr rights_all VM_DEFAULT None) (\<lambda>_.
      bnd (gets (\<lambda>s. ut_next_vaddr (rs_ut s))) (\<lambda>prev. bnd (lift (add_us prev PAGE_SIZE_4K)) (\<lambda>next.
      bnd (in_ut (modify (\<lambda>T. T\<lparr>ut_next_vaddr := next\<rparr>))) (\<lambda>_. ret prev)))))
    (\<lambda>v s. ut_inv_below v W (rs_ut s) \<and> ut_next_vaddr (rs_ut s) = v + 4096) (rinv W)"
    by (rule triple_bnd [OF map_frame_triple])
      (auto simp: triple_def bnd_def gets_def lift_def in_ut_def on_part_def modify_def ret_def add_us_def
        ut_inv_def ut_inv_below_def ut_rep_def ut_lists_def ut_head_def const_defs BIT_def)
qed (auto intro: triple_gets)

lemma ensure_new_structures_triple:
  "triple (rinv W) (ensure_new_structures K) (\<lambda>_. rinv W) (rinv W)"
proof -
  have push: "triple (\<lambda>s. ut_inv_below v W (rs_ut s) \<and> ut_next_vaddr (rs_ut s) = v + 4096) (in_ut (push_structures v))
      (\<lambda>_. rinv W) (rinv W)" for v
    by (rule in_ut_triple [OF push_structures_triple])
  have map: "triple (rinv W) (bnd (map_frame_to_next_free_vaddr K cptr) (\<lambda>new_uts. in_ut (push_structures new_uts)))
      (\<lambda>_. rinv W) (rinv W)" for cptr
    by (rule triple_bnd [OF map_to_next_triple push])
  show ?thesis
    unfolding ensure_new_structures_def
    by (auto intro!: triple_bnd [where R = "\<lambda>_. rinv W"] triple_gets triple_ret alloc_4k_spent keep_ut
        keep_ut_retype map split: prod.split)
qed

text \<open>Splitting: on every exit the larger untyped and the structures are where they were, or
  spent.\<close>

lemma triple_seq:
  assumes "triple P m (\<lambda>_. R) E" and "triple R m' Q E"
  shows "triple P (seq m m') Q E"
  unfolding seq_def by (rule triple_bnd) (use assms in auto)

lemma triple_undo:
  assumes "triple P m Q P" and "triple P undo (\<lambda>_. E) E"
  shows "triple P (undo_on_err m undo) Q E"
  unfolding undo_on_err_def
  by (rule triple_on_err [OF assms(1)], rule triple_bnd [OF assms(2)], rule triple_fail)

lemma in_ut_free_triple:
  assumes "W p = Some (c, sb)" "4 \<le> sb" "sb \<le> 12" and "W(p := None) = W'"
  shows "triple (rinv W) (in_ut (ut_free_op p)) (\<lambda>_. rinv W') E"
  using in_ut_triple [OF ut_free_op_triple [of W p c sb "\<lambda>_. False", OF assms(1-3)]] assms(4)
  by (auto elim!: triple_weaken)

lemma in_ut_push_structure_triple:
  assumes "W p = Some v" and "W(p := None) = W'"
  shows "triple (rinv W) (in_ut (push_structure p)) (\<lambda>_. rinv W') E"
  using in_ut_triple [OF push_structure_triple [of W p v "\<lambda>_. False", OF assms(1)]] assms(2)
  by (auto elim!: triple_weaken)

lemma in_ut_push_untyped_triple:
  assumes "W p = Some (c, sb)" "4 \<le> sb" "sb \<le> 12" and "W(p := None) = W'"
  shows "triple (rinv W) (in_ut (push_untyped sb p)) (\<lambda>_. rinv W') E"
  using in_ut_triple [OF push_untyped_triple [of W p c sb "\<lambda>_. False", OF assms(1-3)]] assms(4)
  by (auto elim!: triple_weaken)

lemma in_ut_set_triple:
  assumes "W p = Some v" and "W(p \<mapsto> (c, n)) = W'"
  shows "triple (rinv W) (in_ut (set_ut p c n)) (\<lambda>_. rinv W') E"
  using in_ut_triple [OF set_ut_triple [of W p v c n "\<lambda>_. False", OF assms(1)]] assms(2)
  by (auto elim!: triple_weaken)

lemma in_ut_pop_structure_triple:
  "triple (rinv W) (in_ut pop_structure) (\<lambda>p s. W p = None \<and> (\<exists>v. rinv (W(p \<mapsto> v)) s)) (rinv W)"
  by (rule in_ut_triple [OF pop_structure_triple])

lemma rinv_forget:
  "triple P m Q (rinv W) \<Longrightarrow> W p = None \<Longrightarrow> (\<And>x s. Q x s \<Longrightarrow> rinv (W(p \<mapsto> v)) s) \<Longrightarrow> triple P m (\<lambda>_. rinv W) (rinv W)"
  by (erule triple_weaken) (auto dest: ut_inv_forget)

text \<open>The clean-up sequences: \<open>l\<close> is the larger untyped, \<open>n1\<close> and \<open>n2\<close> are the structures.\<close>

lemma undo_free_larger:
  assumes "W l = None" "4 \<le> sb" "sb \<le> 11"
  shows "triple (rinv (W(l \<mapsto> (c, sb + 1)))) (in_ut (ut_free_op l)) (\<lambda>_. rinv W) E"
    and "n1 \<noteq> l \<Longrightarrow> triple (rinv (W(l \<mapsto> (c, sb + 1), n1 \<mapsto> v))) (in_ut (ut_free_op l)) (\<lambda>_. rinv (W(n1 \<mapsto> v))) E"
    and "n1 \<noteq> l \<Longrightarrow> n2 \<noteq> l \<Longrightarrow>
      triple (rinv (W(l \<mapsto> (c, sb + 1), n1 \<mapsto> v, n2 \<mapsto> w))) (in_ut (ut_free_op l)) (\<lambda>_. rinv (W(n1 \<mapsto> v, n2 \<mapsto> w))) E"
  using assms by (auto intro!: in_ut_free_triple [where c = c and sb = "sb + 1"] simp: fun_upd_twist [of l] fun_upd_idem)

lemma undo_push:
  assumes "W n1 = None"
  shows "triple (rinv (W(n1 \<mapsto> v))) (in_ut (push_structure n1)) (\<lambda>_. rinv W) E"
    and "n2 \<noteq> n1 \<Longrightarrow> triple (rinv (W(n1 \<mapsto> v, n2 \<mapsto> w))) (in_ut (push_structure n1)) (\<lambda>_. rinv (W(n2 \<mapsto> w))) E"
  using assms by (auto intro!: in_ut_push_structure_triple [where v = v] simp: fun_upd_twist [of n1] fun_upd_idem)

lemma keep_ut_E:
  assumes "\<And>T. P T \<Longrightarrow> E' T"
  shows "triple (\<lambda>s. P (rs_ut s)) (in_cs m) (\<lambda>_ s. P (rs_ut s)) (\<lambda>s. E' (rs_ut s))"
    and "triple (\<lambda>s. P (rs_ut s)) (rs_delete K slot) (\<lambda>_ s. P (rs_ut s)) (\<lambda>s. E' (rs_ut s))"
  by (rule triple_weaken [OF keep_ut(1) [where P = P]]; simp add: assms)
    (rule triple_weaken [OF keep_ut_retype(2) [where P = P]]; simp add: assms)

lemma split_retype_triple:
  assumes W: "W l = None" "W n1 = None" "W n2 = None" "n1 \<noteq> l" "n2 \<noteq> l" "n2 \<noteq> n1" and sb: "4 \<le> sb" "sb \<le> 11"
  shows "triple (rinv (W(l \<mapsto> (c, sb + 1), n1 \<mapsto> (c1, sb), n2 \<mapsto> (c2, sb))))
    (split_retype K sb l n1 c1 n2 c2) (\<lambda>_. rinv W) (rinv W)"
proof -
  let ?W2 = "W(l \<mapsto> (c, sb + 1), n1 \<mapsto> (c1, sb), n2 \<mapsto> (c2, sb))"
  have forget: "ut_inv (W(n2 \<mapsto> w)) T \<Longrightarrow> ut_inv W T" for w T using ut_inv_forget W(3) by blast
  note fl = undo_free_larger(3) [where W = W and l = l and sb = sb and ?n1.0 = n1 and ?n2.0 = n2, OF W(1) sb W(4,5)]
    and p1 = undo_push(2) [where W = W and ?n1.0 = n1 and ?n2.0 = n2, OF W(2,6)]
    and p2 = undo_push(1) [where W = W and ?n1.0 = n2, OF W(3)]
    and cs = keep_ut_E(1) [where P = "ut_inv (W(n2 \<mapsto> (c2, sb)))" and E' = "ut_inv W", OF forget]
    and del = keep_ut_E(2) [where P = "ut_inv (W(n2 \<mapsto> (c2, sb)))" and E' = "ut_inv W", OF forget]
    and cs' = keep_ut(1) [where P = "ut_inv W"]
  have u1: "triple (rinv ?W2) (seq (in_ut (ut_free_op l)) (seq (in_ut (push_structure n1)) (seq (in_cs (cs_free_slot c1))
       (seq (in_ut (push_structure n2)) (in_cs (cs_free_slot c2)))))) (\<lambda>_. rinv W) (rinv W)"
    by (rule triple_seq [OF fl] triple_seq [OF p1] triple_seq [OF cs] triple_seq [OF p2] cs' | assumption)+
  have u2: "triple (rinv ?W2) (seq (in_ut (ut_free_op l)) (seq (in_ut (push_structure n1)) (seq (rs_delete K c1)
       (seq (in_cs (cs_free_slot c1)) (seq (in_ut (push_structure n2)) (in_cs (cs_free_slot c2))))))) (\<lambda>_. rinv W) (rinv W)"
    by (rule triple_seq [OF fl] triple_seq [OF p1] triple_seq [OF cs] triple_seq [OF del] triple_seq [OF p2] cs' | assumption)+
  have q1: "triple (rinv ?W2) (in_ut (push_untyped sb n1)) (\<lambda>_. rinv (W(l \<mapsto> (c, sb + 1), n2 \<mapsto> (c2, sb)))) (rinv W)"
    by (rule in_ut_push_untyped_triple [where c = c1]) (use W sb in \<open>auto simp: fun_upd_twist [of n1] fun_upd_idem\<close>)
  have q2: "triple (rinv (W(l \<mapsto> (c, sb + 1), n2 \<mapsto> (c2, sb)))) (in_ut (push_untyped sb n2)) (\<lambda>_. rinv (W(l \<mapsto> (c, sb + 1)))) (rinv W)"
    by (rule in_ut_push_untyped_triple [where c = c2]) (use W sb in \<open>auto simp: fun_upd_idem\<close>)
  have q3: "triple (rinv (W(l \<mapsto> (c, sb + 1), n2 \<mapsto> (c2, sb)))) (in_ut (push_untyped sb n2)) (\<lambda>_. rinv W) (rinv W)"
    by (rule triple_weaken [OF q2]) (use ut_inv_forget W(1) in blast)+
  show ?thesis
    unfolding split_retype_def Let_def
    by (rule triple_bnd, rule triple_gets, assumption)
      (rule triple_seq [OF triple_undo [OF keep_ut_retype(1) u1]] triple_seq [OF triple_undo [OF keep_ut_retype(1) u2]]
        triple_seq [OF q1 q3])+
qed

lemma split_second_triple:
  assumes W: "W l = None" "W n1 = None" "n1 \<noteq> l" and sb: "4 \<le> sb" "sb \<le> 11"
  shows "triple (rinv (W(l \<mapsto> (c, sb + 1), n1 \<mapsto> (c1, sb)))) (split_second K sb l n1 c1) (\<lambda>_. rinv W) (rinv W)"
proof -
  let ?W = "W(l \<mapsto> (c, sb + 1), n1 \<mapsto> (c1, sb))"
  note cs' = keep_ut(1) [where P = "ut_inv W"]
    and f1 = undo_free_larger(2) [where W = W and l = l and sb = sb and ?n1.0 = n1, OF W(1) sb W(3)]
    and p1 = undo_push(1) [where W = W and ?n1.0 = n1, OF W(2)]
  have u1: "triple (rinv ?W) (seq (in_ut (ut_free_op l)) (seq (in_ut (push_structure n1)) (in_cs (cs_free_slot c1))))
      (\<lambda>_. rinv W) (rinv W)"
    by (rule triple_seq [OF f1] triple_seq [OF p1] cs')+
  have second: "triple (rinv (?W(n2 \<mapsto> v)))
     (bnd (undo_on_err (in_cs cs_alloc_slot) (seq (in_ut (ut_free_op l)) (seq (in_ut (push_structure n1))
        (seq (in_cs (cs_free_slot c1)) (in_ut (push_structure n2)))))) (\<lambda>c2.
      seq (in_ut (set_ut n2 c2 sb)) (split_retype K sb l n1 c1 n2 c2))) (\<lambda>_. rinv W) (rinv W)"
    if n2: "?W n2 = None" for n2 v
  proof (rule triple_bnd [OF triple_undo [OF keep_ut(1) [where P = "ut_inv (?W(n2 \<mapsto> v))"]]])
    have n: "W n2 = None" "n2 \<noteq> l" "n2 \<noteq> n1" using n2 by (auto split: if_splits)
    note fl = undo_free_larger(3) [where W = W and l = l and sb = sb and ?n1.0 = n1 and ?n2.0 = n2, OF W(1) sb W(3) n(2)]
      and p1 = undo_push(2) [where W = W and ?n1.0 = n1 and ?n2.0 = n2, OF W(2) n(3)]
      and p2 = undo_push(1) [where W = W and ?n1.0 = n2, OF n(1)]
    have forget: "ut_inv (W(n2 \<mapsto> w)) T \<Longrightarrow> ut_inv W T" for w T using ut_inv_forget n(1) by blast
    note cs = keep_ut_E(1) [where P = "ut_inv (W(n2 \<mapsto> v))" and E' = "ut_inv W", OF forget]
    show "triple (rinv (?W(n2 \<mapsto> v)))
        (seq (in_ut (ut_free_op l)) (seq (in_ut (push_structure n1)) (seq (in_cs (cs_free_slot c1)) (in_ut (push_structure n2)))))
        (\<lambda>_. rinv W) (rinv W)"
      by (rule triple_seq [OF fl] triple_seq [OF p1] triple_seq [OF cs] p2 | assumption)+
    show "triple (rinv (?W(n2 \<mapsto> v))) (seq (in_ut (set_ut n2 c2 sb)) (split_retype K sb l n1 c1 n2 c2))
        (\<lambda>_. rinv W) (rinv W)" for c2
      by (rule triple_seq [OF in_ut_set_triple [where v = v] split_retype_triple])
        (use W n sb in auto)
  qed
  show ?thesis
    unfolding split_second_def Let_def
    by (rule triple_bnd [OF triple_undo [OF in_ut_pop_structure_triple u1]])
      (intro triple_pure triple_ex second)
qed

lemma split_untyped_triple:
  assumes W: "W l = None" and sb: "4 \<le> sb" "sb \<le> 11"
  shows "triple (rinv (W(l \<mapsto> (c, sb + 1)))) (split_untyped K sb l) (\<lambda>_. rinv W) (rinv W)"
proof -
  let ?W = "W(l \<mapsto> (c, sb + 1))"
  note f0 = undo_free_larger(1) [where W = W and l = l and sb = sb, OF W sb]
  have first: "triple (rinv (?W(n1 \<mapsto> v)))
     (bnd (undo_on_err (in_cs cs_alloc_slot) (seq (in_ut (ut_free_op l)) (in_ut (push_structure n1)))) (\<lambda>c1.
      seq (in_ut (set_ut n1 c1 sb)) (split_second K sb l n1 c1))) (\<lambda>_. rinv W) (rinv W)"
    if n1: "?W n1 = None" for n1 v
  proof (rule triple_bnd [OF triple_undo [OF keep_ut(1) [where P = "ut_inv (?W(n1 \<mapsto> v))"]]])
    have n: "W n1 = None" "n1 \<noteq> l" using n1 by (auto split: if_splits)
    note f1 = undo_free_larger(2) [where W = W and l = l and sb = sb and ?n1.0 = n1, OF W sb n(2)]
      and p1 = undo_push(1) [where W = W and ?n1.0 = n1, OF n(1)]
    show "triple (rinv (?W(n1 \<mapsto> v))) (seq (in_ut (ut_free_op l)) (in_ut (push_structure n1))) (\<lambda>_. rinv W) (rinv W)"
      by (rule triple_seq [OF f1 p1])
    show "triple (rinv (?W(n1 \<mapsto> v))) (seq (in_ut (set_ut n1 c1 sb)) (split_second K sb l n1 c1)) (\<lambda>_. rinv W) (rinv W)" for c1
      by (rule triple_seq [OF in_ut_set_triple [where v = v] split_second_triple]) (use W n sb in auto)
  qed
  show ?thesis
    unfolding split_untyped_def Let_def
    by (rule triple_seq [OF triple_undo [OF ensure_new_structures_triple f0]],
        rule triple_bnd [OF triple_undo [OF in_ut_pop_structure_triple f0]]) (intro triple_pure triple_ex first)
qed

text \<open>\<open>alloc\<close> by induction on the number of sizes above.\<close>

definition owned_after :: "(nat \<rightharpoonup> cptr \<times> nat) \<Rightarrow> nat \<Rightarrow> nat \<Rightarrow> 'k resources \<Rightarrow> bool" where
  "owned_after W sb p s \<longleftrightarrow> (W p = None \<and> 4 \<le> sb \<and> sb \<le> 12) \<and> (\<exists>c. rinv (W(p \<mapsto> (c, sb))) s)"

lemma triple_owned:
  assumes "\<And>c. W p = None \<Longrightarrow> 4 \<le> sb \<Longrightarrow> sb \<le> 12 \<Longrightarrow> triple (rinv (W(p \<mapsto> (c, sb)))) m Q E"
  shows "triple (owned_after W sb p) m Q E"
  unfolding owned_after_def by (intro triple_pure triple_ex) (use assms in simp)

lemma ut_alloc_triple: "triple (rinv W) (ut_alloc K sb) (owned_after W sb) (rinv W)"
proof (induction "12 - sb" arbitrary: sb rule: less_induct)
  case less
  consider "sb > 12 \<or> sb < 4" | "sb = 12" | "4 \<le> sb" "sb \<le> 11" by linarith
  then show ?case
  proof cases
    case 1
    then show ?thesis by (subst ut_alloc.simps) (auto simp: const_defs intro: triple_fail)
  next
    case 2
    then show ?thesis
      by (subst ut_alloc.simps)
        (auto simp: const_defs owned_after_def intro!: triple_bnd [OF alloc_4k_triple] triple_ret split: prod.splits)
  next
    case 3
    have IH: "triple (rinv W) (ut_alloc K (sb + 1)) (owned_after W (sb + 1)) (rinv W)"
      by (rule less) (use 3 in simp)
    have split: "triple (rinv W) (bnd (ut_alloc K (sb + 1)) (split_untyped K sb)) (\<lambda>_. rinv W) (rinv W)"
      by (rule triple_bnd [OF IH], rule triple_owned, rule split_untyped_triple) (use 3 in simp_all)
    have pop: "triple (rinv W) (in_ut (expect (pop_untyped sb))) (owned_after W sb) (rinv W)"
      unfolding expect_def owned_after_def
      by (rule triple_weaken [OF in_ut_triple [OF triple_on_err [OF pop_untyped_triple triple_panic]]])
        (use 3 in auto)
    have find: "triple (rinv W) (if b then bnd (ut_alloc K (sb + 1)) (split_untyped K sb) else ret ()) (\<lambda>_. rinv W) (rinv W)" for b
      by (rule triple_if [OF split triple_ret])
    have "triple (rinv W) (bnd (gets (\<lambda>s. ut_free (rs_ut s))) (\<lambda>lists.
        bnd (ensure (SIZE_BITS_TO_INDEX sb < length lists)) (\<lambda>_.
        bnd (if lists ! SIZE_BITS_TO_INDEX sb = None then bnd (ut_alloc K (sb + 1)) (split_untyped K sb) else ret ()) (\<lambda>_.
        in_ut (expect (pop_untyped sb)))))) (owned_after W sb) (rinv W)"
      by (intro triple_bnd [OF find pop] triple_bnd [where R = "\<lambda>_. rinv W", OF triple_gets]
          triple_bnd [where R = "\<lambda>_. rinv W", OF triple_ensure])
    then show ?thesis using 3 by (subst ut_alloc.simps) (simp add: const_defs)
  qed
qed

lemma alloc_retype_triple:
  "triple (rinv W) (alloc_retype K bp) (\<lambda>(_, p). owned_after W (k_physical_size_bits K bp) p) (rinv W)"
proof -
  let ?n = "k_physical_size_bits K bp"
  have rest: "triple (rinv (W(p \<mapsto> (c, ?n))))
     (bnd (on_err (in_cs cs_alloc_slot) (\<lambda>_. seq (in_ut (ut_free_op p)) (fail InvalidCapability))) (\<lambda>cptr.
      bnd (gets (\<lambda>s. ut_cap (ut_heap (rs_ut s) p))) (\<lambda>cap.
      bnd (on_err (rs_retype K cap bp cptr)
            (\<lambda>_. seq (in_ut (ut_free_op p)) (seq (in_cs (cs_free_slot cptr)) (fail IllegalOperation)))) (\<lambda>_.
      ret (cptr, p))))) (\<lambda>(_, p). owned_after W ?n p) (rinv W)"
    if W: "W p = None" and n: "4 \<le> ?n" "?n \<le> 12" for p c
  proof -
    have fr: "triple (rinv (W(p \<mapsto> (c, ?n)))) (in_ut (ut_free_op p)) (\<lambda>_. rinv W) (rinv W)"
      by (rule in_ut_free_triple [where c = c and sb = ?n]) (use W n in \<open>auto simp: fun_upd_idem\<close>)
    note keep = keep_ut(1) [where P = "ut_inv (W(p \<mapsto> (c, ?n)))"] keep_ut_retype(1) [where P = "ut_inv (W(p \<mapsto> (c, ?n)))"]
    have und: "triple (rinv W) (seq (in_cs (cs_free_slot cptr)) (fail IllegalOperation)) Q (rinv W)" for cptr Q
      by (rule triple_seq [OF keep_ut(1) [where P = "ut_inv W"] triple_fail])
    show ?thesis
      by (intro triple_bnd [OF triple_on_err [OF keep(1)]] triple_bnd [OF triple_on_err [OF keep(2)]]
          triple_seq [OF fr] triple_fail und triple_ret
          triple_bnd [OF triple_gets [where P = "rinv (W(p \<mapsto> (c, ?n)))" and Q = "\<lambda>_. rinv (W(p \<mapsto> (c, ?n)))"]])
        (use W n in \<open>auto simp: owned_after_def\<close>)
  qed
  show ?thesis
    unfolding alloc_retype_def
    by (rule triple_bnd [OF triple_on_err [OF ut_alloc_triple triple_fail]])
      (use rest in \<open>auto intro!: triple_owned\<close>)
qed

lemma ut_inv_owned:
  assumes "ut_inv W T" and "W p = Some v"
  shows "v = (ut_cap (ut_heap T p), ut_size_bits (ut_heap T p))"
  using ut_rep_owned assms unfolding ut_inv_def ut_inv_below_def by blast

lemma ut_free_run:
  assumes "ut_inv (W(p \<mapsto> (c, sb))) (rs_ut s)" and "W p = None" "4 \<le> sb" "sb \<le> 12"
  obtains T where "in_ut (ut_free_op p) s = (Ok () :: (sel4_error, unit) outcome, s\<lparr>rs_ut := T\<rparr>)" "ut_inv W T"
    "pop_untyped sb T = (Ok p, T\<lparr>ut_free := ut_free (rs_ut s)\<rparr>)"
proof -
  let ?T = "rs_ut s"
  obtain F where R: "ut_rep (ut_next_vaddr ?T) (W(p \<mapsto> (c, sb))) F ?T" using assms(1) by (auto simp: ut_inv_def ut_inv_below_def)
  have len: "length (ut_free ?T) = 9" using R by (simp add: ut_rep_def ut_lists_def)
  have sz: "ut_size_bits (ut_heap ?T p) = sb" using ut_rep_owned [OF R, of p] by simp
  let ?T' = "?T\<lparr>ut_free := (ut_free ?T)[sb - 4 := Some p],
    ut_heap := (ut_heap ?T)(p := (ut_heap ?T p)\<lparr>ut_next := ut_head ?T (sb - 4)\<rparr>)\<rparr>"
  have "ut_free_op p ?T = (Ok () :: (sel4_error, unit) outcome, ?T')"
    using push_untyped_run [OF R assms(3,4)] sz by (simp add: ut_free_op_def)
  then have free: "in_ut (ut_free_op p) s = (Ok () :: (sel4_error, unit) outcome, s\<lparr>rs_ut := ?T'\<rparr>)"
    by (simp add: in_ut_def on_part_def)
  have "ut_inv W ?T'"
    using tripleD(1) [OF in_ut_free_triple [where E = "\<lambda>_. False", where W = "W(p \<mapsto> (c, sb))" and W' = W, OF _ assms(3,4)] assms(1) free] assms(2)
    by (simp add: fun_upd_idem)
  moreover have "pop_untyped sb ?T' = (Ok p, ?T'\<lparr>ut_free := ut_free ?T\<rparr>)"
    using assms(3,4) len by (simp add: pop_untyped_def Let_def SIZE_BITS_TO_INDEX_def const_defs ut_pop_def ut_head_def
        list_update_same_conv)
  ultimately show thesis using that free by blast
qed

lemma rs_retype_run:
  "rs_retype K cap bp c s = (case cs_untyped_retype K (rs_cs s) cap bp c (rs_kern s) of (r, k) \<Rightarrow> (r, s\<lparr>rs_kern := k\<rparr>))"
  by (simp add: rs_retype_def bnd_def gets_def in_kern_def on_part_def)

lemma cs_untyped_retype_no_panic: "fst (cs_untyped_retype K cs ut bp c k) \<noteq> Panic"
  by (simp add: cs_untyped_retype_def split: prod.split)

section \<open>Properties\<close>

text \<open>C14: An untyped is never handed out twice.  Whatever \<open>alloc\<close> has to do (split larger untypeds,
  map a page for structures), the untyped it returns is owned by nobody, has the size asked for,
  and every untyped owned before keeps its capability and size; the free lists stay disjoint from
  everything owned.  A failing \<open>alloc\<close> keeps all of that too.\<close>

theorem untyped_alloc_exclusive:
  assumes "ut_inv W (rs_ut s)" and "ut_alloc K sb s = (r, s')"
  shows "case r of
      Ok p \<Rightarrow> p \<notin> dom W \<and> ut_size_bits (ut_heap (rs_ut s') p) = sb \<and>
        (\<forall>q \<in> dom W. ut_cap (ut_heap (rs_ut s') q) = ut_cap (ut_heap (rs_ut s) q) \<and>
                   ut_size_bits (ut_heap (rs_ut s') q) = ut_size_bits (ut_heap (rs_ut s) q)) \<and>
        ut_inv (W(p \<mapsto> (ut_cap (ut_heap (rs_ut s') p), sb))) (rs_ut s')
    | Err e \<Rightarrow> ut_inv W (rs_ut s')
    | Panic \<Rightarrow> True"
proof (cases r)
  case (Ok p)
  then have "owned_after W sb p s'" using tripleD(1) [OF ut_alloc_triple [of W K sb]] assms by blast
  then obtain c where c: "W p = None" "ut_inv (W(p \<mapsto> (c, sb))) (rs_ut s')" by (auto simp: owned_after_def)
  have p: "(c, sb) = (ut_cap (ut_heap (rs_ut s') p), ut_size_bits (ut_heap (rs_ut s') p))"
    by (rule ut_inv_owned [OF c(2)]) simp
  have q: "ut_cap (ut_heap (rs_ut s') q) = ut_cap (ut_heap (rs_ut s) q) \<and>
      ut_size_bits (ut_heap (rs_ut s') q) = ut_size_bits (ut_heap (rs_ut s) q)" if "W q = Some v" for q v
    using ut_inv_owned [OF assms(1) that] ut_inv_owned [OF c(2), of q v] that c(1) by (cases "q = p") auto
  show ?thesis using Ok c p q by auto
next
  case (Err e)
  then show ?thesis using tripleD(2) [OF ut_alloc_triple [of W K sb]] assms by auto
qed simp

text \<open>One 4K untyped at 1000 and three spare structures.\<close>

definition small_ut_table :: ut_table where
  "small_ut_table =
     \<lparr>ut_first_paddr = 0, ut_untypeds = Some 1000, ut_free = (replicate 9 None)[8 := Some 1000], ut_n_4k = 1,
      ut_free_structures = Some 2000, ut_next_vaddr = 4096,
      ut_heap = (\<lambda>p. \<lparr>ut_cap = p, ut_valid = True, ut_size_bits = 12,
        ut_next = (if p = 2000 then Some 2032 else if p = 2032 then Some 2064 else None)\<rparr>)\<rparr>"

lemma small_ut_inv: "ut_inv Map.empty small_ut_table"
proof -
  let ?F = "\<lambda>i::nat. if i = 8 then [1000] else if i = 9 then [2000, 2032, 2064] else []"
  have "ut_rep 4096 Map.empty ?F small_ut_table"
    by (auto simp: ut_rep_def ut_lists_def ut_head_def small_ut_table_def nth_list_update nth_replicate)
  then show ?thesis unfolding ut_inv_def ut_inv_below_def by (auto simp: small_ut_table_def)
qed

definition cs_taken :: "nat \<Rightarrow> cspace" where
  "cs_taken n = fresh_user_cspace\<lparr>cs_top_bf := foldl bf_or_bit (bitfield_init 256) [0..<n]\<rparr>"

definition small_resources :: "nat resources" where
  "small_resources = \<lparr>rs_cs = cs_taken 0, rs_ut = small_ut_table, rs_kern = 0\<rparr>"

lemma foldl_or_bits:
  "n \<le> 64 * length bf \<Longrightarrow> length (foldl bf_or_bit bf [0..<n]) = length bf \<and>
     bits_of (foldl bf_or_bit bf [0..<n]) = bits_of bf \<union> {..<n}"
  by (induction n) (simp_all add: lessThan_Suc)

lemma cs_taken_sel:
  "cs_two_level (cs_taken n) = False" "cs_top_bits (cs_taken n) = CNODE_SIZE_BITS"
  "cs_top_bf (cs_taken n) = foldl bf_or_bit (bitfield_init 256) [0..<n]"
  by (simp_all add: cs_taken_def fresh_user_cspace_def cspace_new_def)

lemma cs_taken_alloc:
  assumes "n < 256"
  shows "cs_alloc_slot (cs_taken n) = (Ok n, cs_taken (Suc n))"
proof -
  have "length (bitfield_init 256) = 4" by (simp add: bitfield_init_def BITFIELD_SIZE_def)
  then have b: "length (cs_top_bf (cs_taken n)) = 4" "bits_of (cs_top_bf (cs_taken n)) = {..<n}"
    using foldl_or_bits [of n "bitfield_init 256"] assms by (simp_all add: cs_taken_sel)
  have f: "bf_free_slot (cs_top_bf (cs_taken n)) = Ok n" by (rule bf_free_slot_least) (use b assms in auto)
  have "cs_taken (Suc n) = (cs_taken n)\<lparr>cs_top_bf := bf_or_bit (cs_top_bf (cs_taken n)) n\<rparr>"
    by (simp add: cs_taken_def)
  then show ?thesis using assms b(1) f
    by (simp add: cs_alloc_slot_def run_simps index_eqs set_top_bit_run cs_taken_sel(1,2))
qed

lemma small_alloc: "fst (ut_alloc counting_kernel 11 small_resources) = Ok 2032"
  apply (subst ut_alloc.simps, subst ut_alloc.simps)
  apply (simp add: const_defs SIZE_BITS_TO_INDEX_def small_resources_def small_ut_table_def bnd_def gets_def ensure_def ret_def
    alloc_4k_untyped_def in_ut_def on_part_def pop_untyped_def ut_pop_def ut_to_paddr_def sub_us_def mul_us_def add_us_def Let_def
    BIT_def)
  apply (simp add: split_untyped_def split_second_def split_retype_def seq_def undo_on_err_def on_err_def ensure_new_structures_def structures_short_def
    bnd_def gets_def ensure_def ret_def in_ut_def in_cs_def on_part_def pop_structure_def ut_pop_def Let_def cs_taken_alloc set_ut_def modify_def
    rs_retype_def in_kern_def cs_untyped_retype_def counting_kernel_def)
  apply (simp add: push_untyped_def pop_untyped_def ut_push_def ut_pop_def expect_def on_err_def SIZE_BITS_TO_INDEX_def
    const_defs on_part_def Let_def)
  done

text \<open>Splitting the one 4K untyped gives a 2K untyped from the second structure.\<close>

theorem untyped_alloc_exclusive_witness:
  "\<exists>s'. ut_alloc counting_kernel 11 small_resources = (Ok 2032, s') \<and>
    ut_size_bits (ut_heap (rs_ut s') 2032) = 11 \<and>
    ut_inv [2032 \<mapsto> (ut_cap (ut_heap (rs_ut s') 2032), 11)] (rs_ut s')"
proof -
  have inv: "ut_inv Map.empty (rs_ut small_resources)" by (simp add: small_resources_def small_ut_inv)
  obtain s' where s': "ut_alloc counting_kernel 11 small_resources = (Ok 2032, s')"
    using small_alloc by (metis prod.collapse)
  then show ?thesis using untyped_alloc_exclusive [OF inv s'] by simp
qed

text \<open>A freed untyped is reused before anything is split: the next allocation of its size
  returns it, and the free lists, the CSpace and the kernel are as before the two calls.\<close>

lemma freed_untyped_reused:
  assumes "ut_inv W (rs_ut s)" and "W p = Some (c, sb)" and "4 \<le> sb" "sb < 12"
  shows "\<exists>t u. in_ut (ut_free_op p) s = (Ok () :: (sel4_error, unit) outcome, t) \<and> ut_alloc K sb t = (Ok p, u) \<and>
    ut_free (rs_ut u) = ut_free (rs_ut s) \<and> rs_cs u = rs_cs s \<and> rs_kern u = rs_kern s"
proof -
  have W: "(W(p := None))(p \<mapsto> (c, sb)) = W" using assms(2) by auto
  obtain T where T: "in_ut (ut_free_op p) s = (Ok () :: (sel4_error, unit) outcome, s\<lparr>rs_ut := T\<rparr>)" "ut_inv (W(p := None)) T"
      "pop_untyped sb T = (Ok p, T\<lparr>ut_free := ut_free (rs_ut s)\<rparr>)"
    using ut_free_run [of "W(p := None)" p c sb s] assms unfolding W by auto
  have "length (ut_free T) = 9" using T(2) by (auto simp: ut_inv_def ut_inv_below_def ut_rep_def ut_lists_def)
  moreover have "ut_free T ! (sb - 4) \<noteq> None" 
    using T(3) by (cases "ut_free T ! (sb - 4)")
      (auto simp: pop_untyped_def Let_def SIZE_BITS_TO_INDEX_def const_defs ut_pop_def ok_or_def split: if_splits)
  ultimately have "ut_alloc K sb (s\<lparr>rs_ut := T\<rparr>) = (Ok p, s\<lparr>rs_ut := T\<lparr>ut_free := ut_free (rs_ut s)\<rparr>\<rparr>)"
    using assms(3,4) T(3)
    by (subst ut_alloc.simps)
      (auto simp add: const_defs SIZE_BITS_TO_INDEX_def bnd_def gets_def ensure_def ret_def expect_def on_err_def in_ut_def on_part_def)
  with T(1) show ?thesis by simp
qed

lemma freed_untyped_reused_witness:
  "\<exists>s' t u. ut_alloc counting_kernel 11 small_resources = (Ok 2032, s') \<and>
    in_ut (ut_free_op 2032) s' = (Ok () :: (sel4_error, unit) outcome, t) \<and> ut_alloc counting_kernel 11 t = (Ok 2032, u)"
proof -
  have inv: "ut_inv Map.empty (rs_ut small_resources)" by (simp add: small_resources_def small_ut_inv)
  obtain s' where s': "ut_alloc counting_kernel 11 small_resources = (Ok 2032, s')"
    using small_alloc by (metis prod.collapse)
  then obtain c where "ut_inv [2032 \<mapsto> (c, 11)] (rs_ut s')"
    using tripleD(1) [OF ut_alloc_triple inv s'] by (auto simp: owned_after_def)
  from freed_untyped_reused [OF this, of 2032 c 11 counting_kernel] s' show ?thesis by auto
qed

text \<open>C15: \<open>alloc_retype\<close> gives all it took or puts all of it back.  Where \<open>alloc\<close> has an untyped \<open>p\<close> of
  the object's size to give, and the root server's CSpace is well-formed after it (with the null slot
  taken): on success \<open>p\<close> is returned, new to the owners, with a slot that was free and is now the only
  new one in use, and the object was retyped from \<open>p\<close>'s capability into that slot; on any error \<open>p\<close>
  is again the first of its free list, with the old list behind it, nothing more is owned, and the
  slots in use are those before; a panic can only come from an exhausted CSpace.\<close>

theorem alloc_retype_owns:
  assumes "ut_inv W (rs_ut s)" and "ut_alloc K (k_physical_size_bits K bp) s = (Ok p, u)"
    and "two_level_inv N S (rs_cs u)" and "0 \<in> two_level_used N (rs_cs u)"
    and "alloc_retype K bp s = (r, t)"
  shows "case r of
      Ok (c, q) \<Rightarrow> q = p \<and> p \<notin> dom W \<and> (\<exists>cap. ut_inv (W(p \<mapsto> (cap, k_physical_size_bits K bp))) (rs_ut t)) \<and>
        c \<in> two_level_slots N S - two_level_used N (rs_cs u) \<and> two_level_inv N S (rs_cs t) \<and>
        two_level_used N (rs_cs t) = insert c (two_level_used N (rs_cs u)) \<and>
        cs_untyped_retype K (rs_cs t) (ut_cap (ut_heap (rs_ut t) p)) bp c (rs_kern u) = (Ok (), rs_kern t)
    | Err e \<Rightarrow> ut_inv W (rs_ut t) \<and>
        pop_untyped (k_physical_size_bits K bp) (rs_ut t) = (Ok p, (rs_ut t)\<lparr>ut_free := ut_free (rs_ut u)\<rparr>) \<and>
        two_level_inv N S (rs_cs t) \<and> two_level_used N (rs_cs t) = two_level_used N (rs_cs u)
    | Panic \<Rightarrow> two_level_slots N S \<subseteq> two_level_used N (rs_cs u)"
proof -
  let ?n = "k_physical_size_bits K bp"
  obtain cap where W: "W p = None" "4 \<le> ?n" "?n \<le> 12" and own: "ut_inv (W(p \<mapsto> (cap, ?n))) (rs_ut u)"
    using tripleD(1) [OF ut_alloc_triple assms(1,2)] by (auto simp: owned_after_def)
  have give_back: "\<exists>T. in_ut (ut_free_op p) v = (Ok () :: (sel4_error, unit) outcome, v\<lparr>rs_ut := T\<rparr>) \<and> ut_inv W T \<and>
      pop_untyped ?n T = (Ok p, T\<lparr>ut_free := ut_free (rs_ut u)\<rparr>)" if "rs_ut v = rs_ut u" for v :: "'a resources"
    by (rule ut_free_run [of W p cap ?n v]) (use that own W in auto)
  have run: "alloc_retype K bp s =
     bnd (on_err (in_cs cs_alloc_slot) (\<lambda>_. seq (in_ut (ut_free_op p)) (fail InvalidCapability))) (\<lambda>cptr.
     bnd (gets (\<lambda>s. ut_cap (ut_heap (rs_ut s) p))) (\<lambda>cap.
     bnd (on_err (rs_retype K cap bp cptr)
            (\<lambda>_. seq (in_ut (ut_free_op p)) (seq (in_cs (cs_free_slot cptr)) (fail IllegalOperation)))) (\<lambda>_.
     ret (cptr, p)))) u"
    unfolding alloc_retype_def by (subst bnd_run(1)) (simp_all add: on_err_def assms(2))
  from assms(3) show ?thesis
  proof (cases rule: two_level_alloc_cases)
    case (full r')
    then have slot: "in_cs cs_alloc_slot u = (r', u)" by (simp add: in_cs_def on_part_def)
    show ?thesis using assms(5) give_back [of u] full slot assms(3)
      by (cases r') (auto simp: run bnd_def on_err_def seq_def fail_def)
  next
    case (free c cs')
    then have slot: "in_cs cs_alloc_slot u = (Ok c, u\<lparr>rs_cs := cs'\<rparr>)" by (simp add: in_cs_def on_part_def)
    obtain r' k where k: "cs_untyped_retype K cs' (ut_cap (ut_heap (rs_ut u) p)) bp c (rs_kern u) = (r', k)" by fastforce
    have retype: "rs_retype K (ut_cap (ut_heap (rs_ut u) p)) bp c (u\<lparr>rs_cs := cs'\<rparr>) = (r', u\<lparr>rs_cs := cs', rs_kern := k\<rparr>)"
      by (simp add: rs_retype_run k)
    have "c \<noteq> 0" using free(2) assms(4) by (metis DiffD2)
    then obtain cs'' where cs'': "cs_free_slot c cs' = (Ok () :: (sel4_error, unit) outcome, cs'')" "two_level_inv N S cs''"
        "two_level_used N cs'' = two_level_used N cs' - {c}"
      using two_level_free_spec [OF free(4), of c] free(2) by blast
    have "r' \<noteq> Panic" using cs_untyped_retype_no_panic k by (metis fst_conv)
    then consider "r' = Ok ()" | e where "r' = Err e" by (cases r') auto
    then show ?thesis
    proof cases
      case 1
      then have "alloc_retype K bp s = (Ok (c, p), u\<lparr>rs_cs := cs', rs_kern := k\<rparr>)"
        using slot retype by (simp add: run bnd_def on_err_def ret_def gets_def)
      then show ?thesis using assms(5) own W free k 1 by auto
    next
      case 2
      obtain T where T: "in_ut (ut_free_op p) (u\<lparr>rs_cs := cs', rs_kern := k\<rparr>) =
          (Ok () :: (sel4_error, unit) outcome, u\<lparr>rs_cs := cs', rs_kern := k, rs_ut := T\<rparr>)" "ut_inv W T"
          "pop_untyped ?n T = (Ok p, T\<lparr>ut_free := ut_free (rs_ut u)\<rparr>)"
        using give_back [of "u\<lparr>rs_cs := cs', rs_kern := k\<rparr>"] by fastforce
      have "alloc_retype K bp s = (Err IllegalOperation, u\<lparr>rs_ut := T, rs_cs := cs'', rs_kern := k\<rparr>)"
        using 2 slot retype T(1) cs''(1) by (simp add: run bnd_def on_err_def seq_def gets_def in_cs_def on_part_def fail_def)
      then show ?thesis using assms(5) T cs'' free(2,5) by auto
    qed
  qed
qed

definition refusing_kernel :: "nat sel4" where
  "refusing_kernel = counting_kernel\<lparr>k_untyped_retype := (\<lambda>_ _ _ _ _ n. (Some InvalidArgument, Suc n))\<rparr>"

definition two_level_resources :: "nat resources" where
  "two_level_resources = \<lparr>rs_cs = snd (cs_alloc_slot one_cnode_cspace), rs_ut = small_ut_table, rs_kern = 0\<rparr>"

lemma two_level_resources_inv:
  "two_level_inv 1 {} (rs_cs two_level_resources)" "two_level_used 1 (rs_cs two_level_resources) = {0}"
proof -
  obtain c cs' where c: "cs_alloc_slot one_cnode_cspace = (Ok c, cs')"
      "\<forall>d \<in> two_level_slots 1 {}. d < c \<longrightarrow> d \<in> two_level_used 1 one_cnode_cspace"
      "two_level_inv 1 {} cs'" "two_level_used 1 cs' = insert c {}"
    using one_cnode_inv
  proof (cases rule: two_level_alloc_cases)
    case full
    then show ?thesis unfolding one_cnode_used one_cnode_slots by (auto simp: lessThan_empty_iff)
  next
    case (free c cs')
    then show ?thesis using that unfolding one_cnode_used by blast
  qed
  have "0 \<in> two_level_slots 1 {}" unfolding one_cnode_slots by simp
  then have "c = 0" using c(2) unfolding one_cnode_used by blast
  moreover have "rs_cs two_level_resources = cs'" by (simp only: two_level_resources_def c(1) resources.select_convs snd_conv)
  ultimately show "two_level_inv 1 {} (rs_cs two_level_resources)" "two_level_used 1 (rs_cs two_level_resources) = {0}"
    using c(3,4) by (simp_all only:)
qed

text \<open>A kernel that refuses to retype: page and slot are back where they came from.\<close>

theorem alloc_retype_owns_witness:
  "\<exists>e t. alloc_retype refusing_kernel BSmallPage two_level_resources = (Err e, t) \<and> ut_inv Map.empty (rs_ut t) \<and>
    fst (pop_untyped 12 (rs_ut t)) = Ok 1000 \<and> two_level_used 1 (rs_cs t) = {0}"
proof -
  have n: "k_physical_size_bits refusing_kernel BSmallPage = 12" by (simp add: refusing_kernel_def counting_kernel_def)
  have inv: "ut_inv Map.empty (rs_ut two_level_resources)" by (simp add: two_level_resources_def small_ut_inv)
  have "ut_alloc refusing_kernel 12 two_level_resources =
      (Ok 1000, two_level_resources\<lparr>rs_ut := small_ut_table\<lparr>ut_free := replicate 9 None\<rparr>\<rparr>)"
    by (subst ut_alloc.simps)
      (simp add: const_defs SIZE_BITS_TO_INDEX_def two_level_resources_def small_ut_table_def bnd_def ret_def
        alloc_4k_untyped_def in_ut_def on_part_def pop_untyped_def ut_pop_def ut_to_paddr_def sub_us_def mul_us_def
        add_us_def Let_def BIT_def list_update_same_conv)
  then obtain u where u: "ut_alloc refusing_kernel 12 two_level_resources = (Ok 1000, u)" "rs_cs u = rs_cs two_level_resources"
    by simp
  obtain r t where run: "alloc_retype refusing_kernel BSmallPage two_level_resources = (r, t)" by fastforce
  have "\<not> two_level_slots 1 {} \<subseteq> {0}" unfolding one_cnode_slots by (auto simp: subset_iff intro!: exI [of _ 1])
  moreover have "fst (cs_untyped_retype refusing_kernel cs ut bp c k) \<noteq> Ok ()" for cs ut bp c k
    by (simp add: cs_untyped_retype_def refusing_kernel_def)
  ultimately show ?thesis
    using alloc_retype_owns [OF inv _ _ _ run, unfolded n, OF u(1), of 1 "{}"] two_level_resources_inv run
    by (cases r) (auto simp: u(2) split: prod.splits dest: arg_cong [where f = fst])
qed

end
