(* ===== verification/Frame_Table.thy ===== *)
theory Frame_Table
  imports Untyped
begin

text \<open>
  The frame table: \<open>crates/root_server/src/frame_table.rs\<close>.  The frames' records form an array
  that grows a page at a time; the free and the allocated frames are doubly linked lists through
  the array, whose elements are named by their index (\<open>FrameRef\<close>).  The array is a map from
  indices to records here.  The table refines two lists of indices.
\<close>

section \<open>The state\<close>

datatype list_id = NoList | FreeList | AllocatedList

record frame =
  fr_cap :: cptr
  fr_prev :: "nat option"
  fr_next :: "nat option"
  fr_list :: list_id

record frame_list =
  fl_id :: list_id
  fl_first :: "nat option"
  fl_last :: "nat option"
  fl_length :: nat

record frame_table =
  ft_frames :: nat
  ft_frame_data :: nat
  ft_capacity :: nat
  ft_used :: nat
  ft_byte_length :: nat
  ft_free :: frame_list
  ft_allocated :: frame_list
  ft_vspace :: cptr
  ft_heap :: "nat \<Rightarrow> frame"

text \<open>\<open>size_of::<Frame>()\<close>: a capability pointer, two \<open>Option<u32>\<close> and a byte.\<close>

definition FRAME_SIZE :: nat where [const_defs]: "FRAME_SIZE = 32"

definition FRAME_TABLE :: nat where [const_defs]: "FRAME_TABLE = 0x8100000000"
definition FRAME_DATA :: nat where [const_defs]: "FRAME_DATA = 0x8200000000"

record device_mem_allocation =
  dm_paddr :: nat
  dm_size :: nat
  dm_frames :: "(cptr \<times> nat) list"

definition MAX_DEVICE_ALLOCATIONS :: nat where [const_defs]: "MAX_DEVICE_ALLOCATIONS = 64"

text \<open>The root server's memory: its resources, the frame table, and the static array
  \<open>DEVICE_ALLOCATIONS\<close>.\<close>

record 'k memory =
  mem_rs :: "'k resources"
  mem_ft :: frame_table
  mem_dev :: "device_mem_allocation option list"

type_synonym ('k, 'a) mem_op = "('k memory, sel4_error, 'a) op"

definition in_rs :: "('k resources, 'e, 'a) op \<Rightarrow> ('k memory, 'e, 'a) op" where
  "in_rs = on_part mem_rs mem_rs_update"

definition in_ft :: "(frame_table, 'e, 'a) op \<Rightarrow> ('k memory, 'e, 'a) op" where
  "in_ft = on_part mem_ft mem_ft_update"

section \<open>Frames\<close>

definition frame_from_ref :: "nat \<Rightarrow> (frame_table, 'e, nat) op" where
  "frame_from_ref r = bnd (gets ft_capacity) (\<lambda>c. bnd (ensure (c < 2 ^ 32 \<and> r < c)) (\<lambda>_. ret r))"

definition ref_from_frame :: "nat \<Rightarrow> (frame_table, 'e, nat) op" where
  "ref_from_frame f = bnd (gets ft_used) (\<lambda>u. bnd (ensure (f < u \<and> f < 2 ^ 32)) (\<lambda>_. ret f))"

definition frame_data :: "nat \<Rightarrow> (frame_table, 'e, nat) op" where
  "frame_data r =
     bnd (gets ft_capacity) (\<lambda>c. bnd (ensure (c < 2 ^ 32 \<and> r < c)) (\<lambda>_.
     gets (\<lambda>T. (ft_frame_data T + r * PAGE_SIZE_4K) mod usize_lim)))"

definition the_frame :: "nat \<Rightarrow> (frame_table, 'e, frame) op" where
  "the_frame f = gets (\<lambda>T. ft_heap T f)"

definition upd_frame :: "(frame \<Rightarrow> frame) \<Rightarrow> nat \<Rightarrow> (frame_table, 'e, unit) op" where
  "upd_frame g f = modify (\<lambda>T. T\<lparr>ft_heap := (ft_heap T)(f := g (ft_heap T f))\<rparr>)"

definition set_prev :: "nat \<Rightarrow> nat option \<Rightarrow> (frame_table, 'e, unit) op" where
  "set_prev f p = upd_frame (fr_prev_update (\<lambda>_. p)) f"

definition set_next :: "nat \<Rightarrow> nat option \<Rightarrow> (frame_table, 'e, unit) op" where
  "set_next f p = upd_frame (fr_next_update (\<lambda>_. p)) f"

definition set_list_id :: "nat \<Rightarrow> list_id \<Rightarrow> (frame_table, 'e, unit) op" where
  "set_list_id f i = upd_frame (fr_list_update (\<lambda>_. i)) f"

definition set_frame_cap :: "nat \<Rightarrow> cptr \<Rightarrow> (frame_table, 'e, unit) op" where
  "set_frame_cap f c = upd_frame (fr_cap_update (\<lambda>_. c)) f"

definition the_list :: "list_id \<Rightarrow> (frame_table, 'e, frame_list) op" where
  "the_list i = (case i of FreeList \<Rightarrow> gets ft_free | AllocatedList \<Rightarrow> gets ft_allocated | NoList \<Rightarrow> panic)"

definition put_list :: "list_id \<Rightarrow> frame_list \<Rightarrow> (frame_table, 'e, unit) op" where
  "put_list i l = (case i of FreeList \<Rightarrow> modify (ft_free_update (\<lambda>_. l))
     | AllocatedList \<Rightarrow> modify (ft_allocated_update (\<lambda>_. l)) | NoList \<Rightarrow> panic)"

section \<open>Lists\<close>

definition pop_front :: "list_id \<Rightarrow> (frame_table, 'e, nat option) op" where
  "pop_front list_id =
     bnd (the_list list_id) (\<lambda>list.
     case fl_first list of
       None \<Rightarrow> ret None
     | Some first \<Rightarrow>
         bnd (frame_from_ref first) (\<lambda>head.
         bnd (the_frame head) (\<lambda>f.
         bnd (if fl_last list = fl_first list
              then bnd (ensure (fr_next f = None)) (\<lambda>_. ret (list\<lparr>fl_last := None\<rparr>))
              else bnd (lift (unwrap (fr_next f))) (\<lambda>n. bnd (frame_from_ref n) (\<lambda>nxt.
                   bnd (set_prev nxt None) (\<lambda>_. ret list)))) (\<lambda>list.
         bnd (the_frame head) (\<lambda>f.
         bnd (ensure (fr_prev f = None)) (\<lambda>_.
         bnd (set_next head None) (\<lambda>_.
         bnd (set_list_id head NoList) (\<lambda>_.
         bnd (set_prev head None) (\<lambda>_.
         bnd (lift (sub_us (fl_length list) 1)) (\<lambda>len.
         bnd (put_list list_id (list\<lparr>fl_first := fr_next f, fl_length := len\<rparr>)) (\<lambda>_.
         ret (Some head))))))))))))"

definition assert_loose :: "nat \<Rightarrow> (frame_table, 'e, unit) op" where
  "assert_loose f =
     bnd (the_frame f) (\<lambda>x. ensure (fr_list x = NoList \<and> fr_next x = None \<and> fr_prev x = None))"

definition push_front :: "list_id \<Rightarrow> nat \<Rightarrow> (frame_table, 'e, unit) op" where
  "push_front list_id frame =
     bnd (assert_loose frame) (\<lambda>_.
     bnd (the_list list_id) (\<lambda>list.
     bnd (ref_from_frame frame) (\<lambda>frame_ref.
     bnd (set_next frame (fl_first list)) (\<lambda>_.
     bnd (case fl_first list of
            None \<Rightarrow> ret ()
          | Some next_ref \<Rightarrow> bnd (frame_from_ref next_ref) (\<lambda>next_frame. set_prev next_frame (Some frame_ref))) (\<lambda>_.
     bnd (lift (add_us (fl_length list) 1)) (\<lambda>len.
     bnd (set_list_id frame (fl_id list)) (\<lambda>_.
     put_list list_id (list\<lparr>fl_last := (if fl_last list = None then Some frame_ref else fl_last list),
       fl_first := Some frame_ref, fl_length := len\<rparr>))))))))"

definition push_back :: "list_id \<Rightarrow> nat \<Rightarrow> (frame_table, 'e, unit) op" where
  "push_back list_id frame =
     bnd (assert_loose frame) (\<lambda>_.
     bnd (the_list list_id) (\<lambda>list.
     bnd (ref_from_frame frame) (\<lambda>frame_ref.
     case fl_last list of
       Some last_ref \<Rightarrow>
         bnd (frame_from_ref last_ref) (\<lambda>last_frame.
         bnd (set_next last_frame (Some frame_ref)) (\<lambda>_.
         bnd (set_prev frame (fl_last list)) (\<lambda>_.
         bnd (set_list_id frame (fl_id list)) (\<lambda>_.
         bnd (lift (add_us (fl_length list) 1)) (\<lambda>len.
         put_list list_id (list\<lparr>fl_last := Some frame_ref, fl_length := len\<rparr>))))))
     | None \<Rightarrow> push_front list_id frame)))"

definition remove_frame :: "list_id \<Rightarrow> nat \<Rightarrow> (frame_table, 'e, unit) op" where
  "remove_frame list_id frame =
     bnd (the_list list_id) (\<lambda>list.
     bnd (the_frame frame) (\<lambda>f.
     bnd (ensure (fr_list f = fl_id list)) (\<lambda>_.
     bnd (case fr_prev f of
            None \<Rightarrow> ret (list\<lparr>fl_first := fr_next f\<rparr>)
          | Some prev_ref \<Rightarrow> bnd (frame_from_ref prev_ref) (\<lambda>p. bnd (set_next p (fr_next f)) (\<lambda>_. ret list))) (\<lambda>list.
     bnd (the_frame frame) (\<lambda>f.
     bnd (case fr_next f of
            None \<Rightarrow> ret (list\<lparr>fl_last := fr_prev f\<rparr>)
          | Some next_ref \<Rightarrow> bnd (frame_from_ref next_ref) (\<lambda>n. bnd (set_prev n (fr_prev f)) (\<lambda>_. ret list))) (\<lambda>list.
     bnd (lift (sub_us (fl_length list) 1)) (\<lambda>len.
     bnd (set_list_id frame NoList) (\<lambda>_.
     bnd (set_prev frame None) (\<lambda>_.
     bnd (set_next frame None) (\<lambda>_.
     put_list list_id (list\<lparr>fl_length := len\<rparr>)))))))))))"

definition free_frame :: "nat \<Rightarrow> (frame_table, 'e, unit) op" where
  "free_frame frame_ref =
     bnd (frame_from_ref frame_ref) (\<lambda>frame.
     bnd (remove_frame AllocatedList frame) (\<lambda>_. push_front FreeList frame))"

definition frame_table_init :: "cptr \<Rightarrow> (nat \<Rightarrow> frame) \<Rightarrow> frame_table" where
  "frame_table_init vspace h =
     \<lparr>ft_frames = FRAME_TABLE, ft_frame_data = FRAME_DATA, ft_capacity = 0, ft_used = 0, ft_byte_length = 0,
      ft_free = \<lparr>fl_id = FreeList, fl_first = None, fl_last = None, fl_length = 0\<rparr>,
      ft_allocated = \<lparr>fl_id = AllocatedList, fl_first = None, fl_last = None, fl_length = 0\<rparr>,
      ft_vspace = vspace, ft_heap = h\<rparr>"

section \<open>Fresh frames\<close>

text \<open>\<open>VmAttributes::DEFAULT | EXECUTE_NEVER\<close>.\<close>

definition VM_DATA :: nat where "VM_DATA = VM_DEFAULT OR 4"

definition alloc_frame_at :: "'k sel4 \<Rightarrow> cptr \<Rightarrow> nat \<Rightarrow> ('k, cptr) rs_op" where
  "alloc_frame_at K vspace vaddr =
     bnd alloc_4k_untyped (\<lambda>(_, ut).
     bnd (undo_on_err (in_cs cs_alloc_slot) (in_ut (ut_free_op ut))) (\<lambda>cptr.
     bnd (gets (\<lambda>s. ut_cap (ut_heap (rs_ut s) ut))) (\<lambda>cap.
     bnd (undo_on_err (rs_retype K cap BSmallPage cptr)
            (seq (in_cs (cs_free_slot cptr)) (in_ut (ut_free_op ut)))) (\<lambda>_.
     bnd (undo_on_err (map_frame K cptr vspace vaddr rights_all VM_DATA None)
            (bnd (attempt (rs_delete K cptr)) (\<lambda>_.
             seq (in_cs (cs_free_slot cptr)) (in_ut (ut_free_op ut))))) (\<lambda>_.
     ret cptr)))))"

definition ft_alloc_frame_at :: "'k sel4 \<Rightarrow> nat \<Rightarrow> ('k, cptr) mem_op" where
  "ft_alloc_frame_at K vaddr = bnd (gets (\<lambda>s. ft_vspace (mem_ft s))) (\<lambda>v. in_rs (alloc_frame_at K v vaddr))"

definition bump_capacity :: "'k sel4 \<Rightarrow> ('k, unit) mem_op" where
  "bump_capacity K =
     bnd (gets (\<lambda>s. (ft_frames (mem_ft s) + ft_byte_length (mem_ft s)) mod usize_lim)) (\<lambda>vaddr.
     bnd (ft_alloc_frame_at K vaddr) (\<lambda>_.
     bnd (gets (\<lambda>s. ft_byte_length (mem_ft s))) (\<lambda>n.
     bnd (lift (add_us n (BIT seL4_PageBits))) (\<lambda>len.
     in_ft (modify (\<lambda>T. T\<lparr>ft_byte_length := len, ft_capacity := len div FRAME_SIZE\<rparr>))))))"

definition alloc_fresh_frame :: "'k sel4 \<Rightarrow> ('k, nat) mem_op" where
  "alloc_fresh_frame K =
     bnd (gets mem_ft) (\<lambda>T.
     bnd (ensure (ft_used T \<le> ft_capacity T)) (\<lambda>_.
     bnd (if ft_used T = ft_capacity T then bump_capacity K else ret ()) (\<lambda>_.
     bnd (gets mem_ft) (\<lambda>T.
     bnd (ensure (ft_used T < ft_capacity T \<and> ft_used T < 2 ^ 32)) (\<lambda>_.
     bnd (in_ft (frame_from_ref (ft_used T))) (\<lambda>frame.
     bnd (in_ft (modify (\<lambda>T. T\<lparr>ft_used := ft_used T + 1\<rparr>))) (\<lambda>_.
     bnd (in_ft (ref_from_frame frame)) (\<lambda>r.
     bnd (in_ft (frame_data r)) (\<lambda>vaddr.
     bnd (undo_on_err (ft_alloc_frame_at K vaddr) (in_ft (modify (\<lambda>T. T\<lparr>ft_used := ft_used T - 1\<rparr>)))) (\<lambda>frame_cap.
     bnd (in_ft (set_frame_cap frame frame_cap)) (\<lambda>_.
     bnd (in_ft (set_list_id frame NoList)) (\<lambda>_.
     bnd (in_ft (set_prev frame None)) (\<lambda>_.
     bnd (in_ft (set_next frame None)) (\<lambda>_.
     ret frame))))))))))))))"

text \<open>\<open>alloc_frame\<close> turns the error of a fresh allocation into \<open>None\<close>.\<close>

definition alloc_frame :: "'k sel4 \<Rightarrow> ('k, nat option) mem_op" where
  "alloc_frame K =
     bnd (in_ft (pop_front FreeList)) (\<lambda>popped.
     bnd (case popped of
            Some f \<Rightarrow> ret (Ok f)
          | None \<Rightarrow> attempt (alloc_fresh_frame K)) (\<lambda>frame.
     case frame of
       Ok f \<Rightarrow> bnd (in_ft (push_back AllocatedList f)) (\<lambda>_. bnd (in_ft (ref_from_frame f)) (\<lambda>r. ret (Some r)))
     | Err _ \<Rightarrow> ret None
     | Panic \<Rightarrow> panic))"

section \<open>Device memory\<close>

definition device_known :: "nat \<Rightarrow> nat \<Rightarrow> device_mem_allocation option \<Rightarrow> bool" where
  "device_known paddr sz a = (case a of None \<Rightarrow> False | Some d \<Rightarrow> paddr = dm_paddr d \<and> sz \<le> dm_size d)"

definition device_frame :: "'k sel4 \<Rightarrow> nat \<Rightarrow> ('k, cptr \<times> nat) rs_op" where
  "device_frame K page =
     bnd (expect (in_ut (alloc_4k_device page))) (\<lambda>ut.
     bnd (expect (in_cs cs_alloc_slot)) (\<lambda>frame_slot.
     bnd (gets (\<lambda>s. ut_cap (ut_heap (rs_ut s) ut))) (\<lambda>cap.
     bnd (expect (rs_retype K cap BSmallPage frame_slot)) (\<lambda>_. ret (frame_slot, 0)))))"

text \<open>\<open>(paddr..paddr + size).step_by(PAGE_SIZE_4K)\<close>.\<close>

definition page_starts :: "nat \<Rightarrow> nat \<Rightarrow> nat list" where
  "page_starts a sz = map (\<lambda>i. a + i * PAGE_SIZE_4K) [0..<(sz + PAGE_SIZE_4K - 1) div PAGE_SIZE_4K]"

fun map_op :: "('a \<Rightarrow> ('s, 'e, 'b) op) \<Rightarrow> 'a list \<Rightarrow> ('s, 'e, 'b list) op" where
  "map_op f [] = ret []"
| "map_op f (x # xs) = bnd (f x) (\<lambda>y. bnd (map_op f xs) (\<lambda>ys. ret (y # ys)))"

definition alloc_device_mem :: "'k sel4 \<Rightarrow> nat \<Rightarrow> nat \<Rightarrow> ('k, (cptr \<times> nat) list) mem_op" where
  "alloc_device_mem K paddr sz =
     bnd (gets mem_dev) (\<lambda>dev.
     case find (device_known paddr sz) dev of
       Some (Some d) \<Rightarrow> ret (dm_frames d)
     | _ \<Rightarrow>
         bnd (lift (add_us paddr sz)) (\<lambda>_.
         bnd (in_rs (map_op (device_frame K) (page_starts paddr sz))) (\<lambda>vec.
         case find (\<lambda>i. dev ! i = None) [0..<MAX_DEVICE_ALLOCATIONS] of
           Some i \<Rightarrow> bnd (modify (\<lambda>s. s\<lparr>mem_dev := (mem_dev s)
                       [i := Some \<lparr>dm_paddr = paddr, dm_size = sz, dm_frames = vec\<rparr>]\<rparr>)) (\<lambda>_. ret vec)
         | None \<Rightarrow> panic)))"

section \<open>Segments of a doubly linked list\<close>

text \<open>\<open>dseg h p a xs l n\<close>: from \<open>a\<close> the records of \<open>xs\<close> are chained up to \<open>n\<close>, backwards from
  \<open>l\<close> to \<open>p\<close>.\<close>

fun dseg :: "(nat \<Rightarrow> frame) \<Rightarrow> nat option \<Rightarrow> nat option \<Rightarrow> nat list \<Rightarrow> nat option \<Rightarrow> nat option \<Rightarrow> bool" where
  "dseg h p a [] l n \<longleftrightarrow> a = n \<and> l = p"
| "dseg h p a (x # xs) l n \<longleftrightarrow> a = Some x \<and> fr_prev (h x) = p \<and> dseg h (Some x) (fr_next (h x)) xs l n"

lemma dseg_append:
  "dseg h p a (xs @ ys) l n \<longleftrightarrow> (\<exists>m k. dseg h p a xs m k \<and> dseg h m k ys l n)"
  by (induction xs arbitrary: p a) auto

lemma dseg_cong:
  "(\<And>x. x \<in> set xs \<Longrightarrow> fr_next (h' x) = fr_next (h x) \<and> fr_prev (h' x) = fr_prev (h x)) \<Longrightarrow>
   dseg h' p a xs l n \<longleftrightarrow> dseg h p a xs l n"
  by (induction xs arbitrary: p a) auto

lemma dseg_frame [simp]: "x \<notin> set xs \<Longrightarrow> dseg (h(x := f)) p a xs l n \<longleftrightarrow> dseg h p a xs l n"
  by (rule dseg_cong) auto

lemma dseg_first: "dseg h p a (x # xs) l n \<Longrightarrow> a = Some x"
  by simp

lemma dseg_last: "dseg h p a xs l n \<Longrightarrow> l = (if xs = [] then p else Some (last xs))"
  by (induction xs arbitrary: p a) auto

lemma dseg_hd: "dseg h p a xs l n \<Longrightarrow> a = (if xs = [] then n else Some (hd xs))"
  by (cases xs) auto

text \<open>Relinking the ends.\<close>

lemma dseg_set_prev:
  assumes "dseg h p a (x # xs) l n" and "distinct (x # xs)"
  shows "dseg (h(x := (h x)\<lparr>fr_prev := p'\<rparr>)) p' a (x # xs) l n"
  using assms by simp

lemma dseg_set_next:
  assumes "dseg h p a (xs @ [x]) l n" and "distinct (xs @ [x])"
  shows "dseg (h(x := (h x)\<lparr>fr_next := n'\<rparr>)) p a (xs @ [x]) l n'"
  using assms by (auto simp: dseg_append)

section \<open>The invariant\<close>

text \<open>\<open>L\<close> gives the contents of the two lists; \<open>loose\<close> frames are in neither.\<close>

abbreviation lists :: "list_id set" where
  "lists \<equiv> {FreeList, AllocatedList}"

definition ft_list :: "list_id \<Rightarrow> frame_table \<Rightarrow> frame_list" where
  "ft_list i T = (if i = FreeList then ft_free T else ft_allocated T)"

definition ft_set_list :: "list_id \<Rightarrow> frame_list \<Rightarrow> frame_table \<Rightarrow> frame_table" where
  "ft_set_list i l = (if i = FreeList then ft_free_update (\<lambda>_. l) else ft_allocated_update (\<lambda>_. l))"

definition dlist :: "(nat \<Rightarrow> frame) \<Rightarrow> list_id \<Rightarrow> frame_list \<Rightarrow> nat list \<Rightarrow> bool" where
  "dlist h i l xs \<longleftrightarrow> fl_id l = i \<and> fl_length l = length xs \<and> dseg h None (fl_first l) xs (fl_last l) None \<and>
     distinct xs \<and> (\<forall>x \<in> set xs. fr_list (h x) = i)"

definition ft_rep :: "(list_id \<Rightarrow> nat list) \<Rightarrow> frame_table \<Rightarrow> bool" where
  "ft_rep L T \<longleftrightarrow> (\<forall>i \<in> lists. dlist (ft_heap T) i (ft_list i T) (L i) \<and> set (L i) \<subseteq> {..<ft_used T}) \<and>
     ft_used T \<le> ft_capacity T \<and> ft_capacity T < 2 ^ 32"

definition loose :: "frame_table \<Rightarrow> nat \<Rightarrow> bool" where
  "loose T f \<longleftrightarrow> f < ft_used T \<and> fr_list (ft_heap T f) = NoList \<and> fr_next (ft_heap T f) = None \<and> fr_prev (ft_heap T f) = None"

lemma the_list_run: "i \<in> lists \<Longrightarrow> the_list i T = (Ok (ft_list i T), T)"
  by (auto simp: the_list_def ft_list_def gets_def)

lemma put_list_run: "i \<in> lists \<Longrightarrow> put_list i l T = (Ok (), ft_set_list i l T)"
  by (auto simp: put_list_def ft_set_list_def modify_def)

lemma ft_set_list_sel [simp]:
  "ft_heap (ft_set_list i l T) = ft_heap T" "ft_used (ft_set_list i l T) = ft_used T"
  "ft_capacity (ft_set_list i l T) = ft_capacity T" "ft_byte_length (ft_set_list i l T) = ft_byte_length T"
  "ft_list i (ft_set_list i l T) = l"
  by (simp_all add: ft_set_list_def ft_list_def)

lemma ft_list_other: "i \<in> lists \<Longrightarrow> j \<in> lists \<Longrightarrow> i \<noteq> j \<Longrightarrow> ft_list i (ft_set_list j l T) = ft_list i T"
  by (auto simp: ft_set_list_def ft_list_def)

lemma ft_list_heap [simp]: "ft_list i (T\<lparr>ft_heap := h\<rparr>) = ft_list i T"
  by (simp add: ft_list_def)

lemma upd_frame_run: "upd_frame g f T = (Ok (), T\<lparr>ft_heap := (ft_heap T)(f := g (ft_heap T f))\<rparr>)"
  by (simp add: upd_frame_def modify_def)

lemma frame_from_ref_run:
  "f < ft_capacity T \<Longrightarrow> ft_capacity T < 2 ^ 32 \<Longrightarrow> frame_from_ref f T = (Ok f, T)"
  by (simp add: frame_from_ref_def run_simps)

lemma ref_from_frame_run: "f < ft_used T \<Longrightarrow> f < 2 ^ 32 \<Longrightarrow> ref_from_frame f T = (Ok f, T)"
  by (simp add: ref_from_frame_def run_simps)

lemma the_frame_run: "the_frame f T = (Ok (ft_heap T f), T)"
  by (simp add: the_frame_def gets_def)

text \<open>A normal form for updates of a list's record.\<close>

lemma frame_list_order:
  "l\<lparr>fl_first := a, fl_last := b\<rparr> = l\<lparr>fl_last := b, fl_first := a\<rparr>"
  "l\<lparr>fl_length := n, fl_last := b\<rparr> = l\<lparr>fl_last := b, fl_length := n\<rparr>"
  "l\<lparr>fl_length := n, fl_first := a\<rparr> = l\<lparr>fl_first := a, fl_length := n\<rparr>"
  "l\<lparr>fl_last := fl_last l\<rparr> = l" "l\<lparr>fl_first := fl_first l\<rparr> = l"
  by simp_all

lemmas frame_run = frame_list_order the_list_run put_list_run upd_frame_run the_frame_run set_prev_def set_next_def set_list_id_def
  set_frame_cap_def bnd_def op_run frame_from_ref_run ref_from_frame_run

lemma ft_rep_in:
  assumes "ft_rep L T" and "i \<in> lists" and "x \<in> set (L i)"
  shows "x < ft_used T" "x < ft_capacity T" "fr_list (ft_heap T x) = i"
  using assms by (fastforce simp: ft_rep_def dlist_def subset_iff)+

text \<open>Replacing one list and the heap, where the other list's records keep their links.\<close>

lemma ft_rep_update:
  assumes R: "ft_rep L T" and i: "i \<in> lists"
    and own: "dlist h i l xs" "set xs \<subseteq> {..<ft_used T}"
    and other: "\<And>j x. j \<in> lists \<Longrightarrow> j \<noteq> i \<Longrightarrow> x \<in> set (L j) \<Longrightarrow> h x = ft_heap T x"
  shows "ft_rep (L(i := xs)) (ft_set_list i l (T\<lparr>ft_heap := h\<rparr>))"
proof -
  have "dlist h j (ft_list j T) (L j) \<and> set (L j) \<subseteq> {..<ft_used T}" if "j \<in> lists" "j \<noteq> i" for j
  proof -
    have "dlist (ft_heap T) j (ft_list j T) (L j) \<and> set (L j) \<subseteq> {..<ft_used T}"
      using R that(1) by (auto simp: ft_rep_def)
    moreover have "dseg h p a (L j) b n \<longleftrightarrow> dseg (ft_heap T) p a (L j) b n" for p a b n
      by (rule dseg_cong) (use other [OF that] in auto)
    ultimately show ?thesis using other [OF that] by (auto simp: dlist_def)
  qed
  then show ?thesis using R i own by (auto simp: ft_rep_def ft_list_other)
qed

section \<open>The operations on lists\<close>

lemma pop_front_empty:
  assumes "ft_rep L T" and "i \<in> lists" and "L i = []"
  shows "pop_front i T = (Ok None, T)"
proof -
  have "fl_first (ft_list i T) = None" using assms by (auto simp: ft_rep_def dlist_def)
  then show ?thesis using assms(2) by (simp add: pop_front_def frame_run)
qed

lemma pop_front_Cons:
  assumes R: "ft_rep L T" and i: "i \<in> lists" and L: "L i = x # xs"
  shows "\<exists>T'. pop_front i T = (Ok (Some x) :: ('e, nat option) outcome, T') \<and> ft_rep (L(i := xs)) T' \<and> loose T' x \<and>
    (\<exists>h l. T' = ft_set_list i l (T\<lparr>ft_heap := h\<rparr>))"
proof -
  let ?l = "ft_list i T" and ?h = "ft_heap T"
  have d: "dlist ?h i ?l (x # xs)" "set (x # xs) \<subseteq> {..<ft_used T}"
    using R i L by (auto simp: ft_rep_def)
  then have f: "fl_first ?l = Some x" "fl_length ?l = Suc (length xs)" "fr_prev (?h x) = None" "x \<notin> set xs"
      "distinct xs" "dseg ?h (Some x) (fr_next (?h x)) xs (fl_last ?l) None"
    by (simp_all add: dlist_def)
  have x: "x < ft_used T" "x < ft_capacity T" "ft_capacity T < 2 ^ 32"
    using ft_rep_in [OF R i, of x] L R by (auto simp: ft_rep_def)
  define h0 where "h0 = (case xs of [] \<Rightarrow> ?h | y # _ \<Rightarrow> ?h(y := (?h y)\<lparr>fr_prev := None\<rparr>))"
  define h where "h = h0(x := (?h x)\<lparr>fr_next := None, fr_list := NoList, fr_prev := None\<rparr>)"
  define l where "l = ?l\<lparr>fl_first := fr_next (?h x), fl_length := length xs,
    fl_last := (if xs = [] then None else fl_last ?l)\<rparr>"
  have x0: "h0 x = ?h x" using f(4) by (auto simp: h0_def split: list.split)
  have own: "dlist h i l xs"
  proof (cases xs)
    case Nil
    then show ?thesis using d(1) f by (auto simp: dlist_def l_def h_def)
  next
    case (Cons y ys)
    then have "dseg h0 None (fr_next (?h x)) xs (fl_last ?l) None"
      using dseg_set_prev [of ?h "Some x" "fr_next (?h x)" y ys "fl_last ?l" None None] f by (simp add: h0_def)
    then show ?thesis using d(1) f(4,5) Cons by (auto simp: dlist_def l_def h_def h0_def)
  qed
  have run: "pop_front i T = (Ok (Some x) :: ('e, nat option) outcome, ft_set_list i l (T\<lparr>ft_heap := h\<rparr>))"
  proof (cases xs)
    case Nil
    have "fl_last ?l = Some x" "fr_next (?h x) = None" using f(6) Nil by auto
    then show ?thesis using i f(1-3) x Nil
      by (simp add: pop_front_def frame_run sub_us_def l_def h_def h0_def comp_def)
  next
    case (Cons y ys)
    have y: "y < ft_capacity T" "y \<noteq> x" using ft_rep_in [OF R i, of y] L Cons f(4) by auto
    have n: "fr_next (?h x) = Some y" using f(6) Cons by simp
    have "fl_last ?l \<noteq> Some x" using dseg_last [OF f(6)] Cons f(4) last_in_set [of xs] by auto
    then show ?thesis using i f(1-3) x y Cons n
      by (simp add: pop_front_def frame_run sub_us_def l_def h_def h0_def comp_def fun_upd_twist)
  qed
  have other: "h z = ?h z" if "j \<in> lists" "j \<noteq> i" "z \<in> set (L j)" for j z
  proof -
    have "z \<notin> set (L i)" using ft_rep_in(3) [OF R that(1,3)] ft_rep_in(3) [OF R i, of z] that(2) by auto
    then show ?thesis using L by (cases xs) (auto simp: h_def h0_def)
  qed
  have rep: "ft_rep (L(i := xs)) (ft_set_list i l (T\<lparr>ft_heap := h\<rparr>))"
    by (rule ft_rep_update [OF R i own]) (use d(2) other in auto)
  show ?thesis using run rep x by (auto simp: loose_def h_def)
qed

lemma assert_loose_run: "loose T f \<Longrightarrow> assert_loose f T = (Ok (), T)"
  by (simp add: assert_loose_def loose_def frame_run)

lemma ft_rep_length:
  assumes "ft_rep L T" and "i \<in> lists"
  shows "length (L i) \<le> ft_used T" "ft_used T < 2 ^ 32"
proof -
  have d: "distinct (L i)" "set (L i) \<subseteq> {..<ft_used T}" using assms by (auto simp: ft_rep_def dlist_def)
  show "length (L i) \<le> ft_used T"
    using card_mono [OF _ d(2)] distinct_card [OF d(1)] by simp
qed (use assms in \<open>auto simp: ft_rep_def\<close>)

lemma loose_not_in: "ft_rep L T \<Longrightarrow> loose T f \<Longrightarrow> i \<in> lists \<Longrightarrow> f \<notin> set (L i)"
  using ft_rep_in(3) [of L T i f] by (auto simp: loose_def)

lemma push_front_run:
  assumes R: "ft_rep L T" and i: "i \<in> lists" and x: "loose T x"
  shows "\<exists>T'. push_front i x T = (Ok () :: ('e, unit) outcome, T') \<and> ft_rep (L(i := x # L i)) T' \<and>
    (\<exists>h l. T' = ft_set_list i l (T\<lparr>ft_heap := h\<rparr>))"
proof -
  let ?l = "ft_list i T" and ?h = "ft_heap T"
  have d: "dlist ?h i ?l (L i)" "set (L i) \<subseteq> {..<ft_used T}" using R i by (auto simp: ft_rep_def)
  have f: "fl_first ?l = (case L i of [] \<Rightarrow> None | y # _ \<Rightarrow> Some y)" "fl_length ?l = length (L i)" "fl_id ?l = i"
      "fl_last ?l = (if L i = [] then None else Some (last (L i)))"
    using d(1) dseg_hd [of ?h None "fl_first ?l" "L i" "fl_last ?l" None] dseg_last [of ?h None "fl_first ?l" "L i" "fl_last ?l" None]
    by (auto simp: dlist_def split: list.split)
  have xs: "x \<notin> set (L j)" if "j \<in> lists" for j by (rule loose_not_in [OF R x that])
  have len: "length (L i) + 1 < usize_lim" using ft_rep_length [OF R i] by simp
  have xr: "x < ft_used T" "x < 2 ^ 32" "ft_capacity T < 2 ^ 32"
    using x ft_rep_length(2) [OF R i] R by (auto simp: loose_def ft_rep_def)
  define h0 where "h0 = (case L i of [] \<Rightarrow> ?h | y # _ \<Rightarrow> ?h(y := (?h y)\<lparr>fr_prev := Some x\<rparr>))"
  define h where "h = h0(x := (?h x)\<lparr>fr_next := fl_first ?l, fr_list := i\<rparr>)"
  define l where "l = ?l\<lparr>fl_first := Some x, fl_length := length (L i) + 1,
    fl_last := (if fl_last ?l = None then Some x else fl_last ?l)\<rparr>"
  have own: "dlist h i l (x # L i)"
  proof (cases "L i")
    case Nil
    then show ?thesis using d(1) f x by (auto simp: dlist_def l_def h_def loose_def)
  next
    case (Cons y ys)
    then have "dseg h0 (Some x) (fl_first ?l) (L i) (fl_last ?l) None"
      using dseg_set_prev [of ?h None "fl_first ?l" y ys "fl_last ?l" None "Some x"] d(1) by (simp add: h0_def dlist_def)
    then show ?thesis using d(1) f xs [OF i] x Cons by (auto simp: dlist_def l_def h_def h0_def loose_def)
  qed
  have run: "push_front i x T = (Ok () :: ('e, unit) outcome, ft_set_list i l (T\<lparr>ft_heap := h\<rparr>))"
  proof (cases "L i")
    case Nil
    then show ?thesis using i f x len xr
      by (simp add: push_front_def assert_loose_run frame_run add_us_def l_def h_def h0_def comp_def)
  next
    case (Cons y ys)
    have y: "y \<noteq> x" "y < ft_capacity T" using xs [OF i] ft_rep_in(2) [OF R i, of y] Cons by auto
    show ?thesis using i f x len y Cons xr
      by (simp add: push_front_def assert_loose_run frame_run add_us_def l_def h_def h0_def comp_def fun_upd_twist)
  qed
  have other: "h z = ?h z" if "j \<in> lists" "j \<noteq> i" "z \<in> set (L j)" for j z
  proof -
    have "z \<notin> set (L i)" using ft_rep_in(3) [OF R that(1,3)] ft_rep_in(3) [OF R i, of z] that(2) by auto
    then show ?thesis using xs [OF that(1)] that(3) by (auto simp: h_def h0_def split: list.split)
  qed
  have rep: "ft_rep (L(i := x # L i)) (ft_set_list i l (T\<lparr>ft_heap := h\<rparr>))"
    by (rule ft_rep_update [OF R i own]) (use d(2) other x in \<open>auto simp: loose_def\<close>)
  show ?thesis using run rep by auto
qed

lemma push_back_run:
  assumes R: "ft_rep L T" and i: "i \<in> lists" and x: "loose T x"
  shows "\<exists>T'. push_back i x T = (Ok () :: ('e, unit) outcome, T') \<and> ft_rep (L(i := L i @ [x])) T' \<and>
    (\<exists>h l. T' = ft_set_list i l (T\<lparr>ft_heap := h\<rparr>))"
proof (cases "L i" rule: rev_cases)
  case Nil
  have "fl_last (ft_list i T) = None" using R i Nil by (auto simp: ft_rep_def dlist_def)
  moreover have "x < ft_used T" "x < 2 ^ 32" using x ft_rep_length(2) [OF R i] by (auto simp: loose_def)
  ultimately have "push_back i x T = (push_front i x T :: ('e, unit) outcome \<times> frame_table)"
    using i x by (simp add: push_back_def assert_loose_run frame_run)
  then show ?thesis using push_front_run [OF R i x] Nil by simp
next
  case (snoc ys y)
  let ?l = "ft_list i T" and ?h = "ft_heap T"
  have d: "dlist ?h i ?l (ys @ [y])" "set (ys @ [y]) \<subseteq> {..<ft_used T}" using R i snoc by (auto simp: ft_rep_def)
  have xs: "x \<notin> set (L j)" if "j \<in> lists" for j by (rule loose_not_in [OF R x that])
  have f: "fl_last ?l = Some y" "fl_length ?l = length (L i)" "fl_id ?l = i"
    using d(1) dseg_last [of ?h None "fl_first ?l" "ys @ [y]" "fl_last ?l" None] snoc by (auto simp: dlist_def)
  have len: "length (L i) + 1 < usize_lim" using ft_rep_length [OF R i] by simp
  have b: "x < ft_used T" "x < 2 ^ 32" "ft_capacity T < 2 ^ 32"
    using x ft_rep_length(2) [OF R i] R by (auto simp: loose_def ft_rep_def)
  have y: "y \<noteq> x" "y < ft_capacity T" using xs [OF i] ft_rep_in(2) [OF R i, of y] snoc by auto
  define h0 where "h0 = ?h(y := (?h y)\<lparr>fr_next := Some x\<rparr>)"
  define h where "h = h0(x := (?h x)\<lparr>fr_prev := Some y, fr_list := i\<rparr>)"
  define l where "l = ?l\<lparr>fl_last := Some x, fl_length := length (L i) + 1\<rparr>"
  have own: "dlist h i l (L i @ [x])"
  proof -
    have "dseg h0 None (fl_first ?l) (L i) (Some y) (Some x)"
      using dseg_set_next [of ?h None "fl_first ?l" ys y "fl_last ?l" None "Some x"] d(1) f snoc
      by (simp add: h0_def dlist_def)
    then have "dseg h None (fl_first ?l) (L i) (Some y) (Some x)"
      using xs [OF i] by (simp add: h_def)
    then have "dseg h None (fl_first ?l) (L i @ [x]) (Some x) None"
      using x y by (auto simp: dseg_append h_def loose_def)
    then show ?thesis using d(1) f xs [OF i] snoc by (auto simp: dlist_def l_def h_def h0_def)
  qed
  have run: "push_back i x T = (Ok () :: ('e, unit) outcome, ft_set_list i l (T\<lparr>ft_heap := h\<rparr>))"
    using i f x len y b
    by (simp add: push_back_def assert_loose_run frame_run add_us_def l_def h_def h0_def comp_def)
  have other: "h z = ?h z" if "j \<in> lists" "j \<noteq> i" "z \<in> set (L j)" for j z
  proof -
    have "z \<notin> set (L i)" using ft_rep_in(3) [OF R that(1,3)] ft_rep_in(3) [OF R i, of z] that(2) by auto
    then show ?thesis using xs [OF that(1)] that(3) snoc by (auto simp: h_def h0_def)
  qed
  have "ft_rep (L(i := L i @ [x])) (ft_set_list i l (T\<lparr>ft_heap := h\<rparr>))"
    by (rule ft_rep_update [OF R i own]) (use d(2) other b snoc in auto)
  then show ?thesis using run by auto
qed

lemma remove_frame_run:
  assumes R: "ft_rep L T" and i: "i \<in> lists" and L: "L i = ys @ x # zs"
  shows "\<exists>T'. remove_frame i x T = (Ok () :: ('e, unit) outcome, T') \<and> ft_rep (L(i := ys @ zs)) T' \<and> loose T' x \<and>
    (\<exists>h l. T' = ft_set_list i l (T\<lparr>ft_heap := h\<rparr>))"
proof -
  let ?l = "ft_list i T" and ?h = "ft_heap T"
  have d: "dlist ?h i ?l (ys @ x # zs)" "set (ys @ x # zs) \<subseteq> {..<ft_used T}" using R i L by (auto simp: ft_rep_def)
  then obtain p where s: "dseg ?h None (fl_first ?l) ys p (Some x)" "fr_prev (?h x) = p"
      "dseg ?h (Some x) (fr_next (?h x)) zs (fl_last ?l) None"
    by (auto simp: dlist_def dseg_append)
  have dist: "distinct ys" "distinct zs" "x \<notin> set ys" "x \<notin> set zs" "set ys \<inter> set zs = {}"
    using d(1) by (auto simp: dlist_def)
  have p: "p = (if ys = [] then None else Some (last ys))" using dseg_last [OF s(1)] .
  have n: "fr_next (?h x) = (if zs = [] then None else Some (hd zs))" using dseg_hd [OF s(3)] .
  have f: "fl_length ?l = Suc (length ys + length zs)" "fl_id ?l = i" "fr_list (?h x) = i"
      "ys = [] \<longrightarrow> fl_first ?l = Some x" "zs = [] \<longrightarrow> fl_last ?l = Some x"
    using d(1) dseg_hd [OF s(1)] dseg_last [OF s(3)] by (auto simp: dlist_def)
  have c: "x < ft_used T" "ft_capacity T < 2 ^ 32" "\<And>z. z \<in> set (L i) \<Longrightarrow> z < ft_capacity T"
    using ft_rep_in [OF R i] R L by (auto simp: ft_rep_def)
  define h1 where "h1 = (if ys = [] then ?h else ?h(last ys := (?h (last ys))\<lparr>fr_next := fr_next (?h x)\<rparr>))"
  define h2 where "h2 = (if zs = [] then h1 else h1(hd zs := (h1 (hd zs))\<lparr>fr_prev := p\<rparr>))"
  define h where "h = h2(x := (?h x)\<lparr>fr_list := NoList, fr_prev := None, fr_next := None\<rparr>)"
  define l where "l = ?l\<lparr>fl_last := (if zs = [] then p else fl_last ?l),
    fl_first := (if ys = [] then fr_next (?h x) else fl_first ?l), fl_length := length ys + length zs\<rparr>"
  have lasty: "ys \<noteq> [] \<Longrightarrow> last ys \<in> set ys" and hdz: "zs \<noteq> [] \<Longrightarrow> hd zs \<in> set zs" by simp_all
  have hdy: "zs \<noteq> [] \<Longrightarrow> hd zs \<notin> set ys" using hdz dist(5) by auto
  have s1: "dseg h1 None (fl_first l) ys p (fr_next (?h x))"
  proof (cases ys rule: rev_cases)
    case (snoc as a)
    then show ?thesis
      using dseg_set_next [of ?h None "fl_first ?l" as a p "Some x" "fr_next (?h x)"] s(1) dist(1)
      by (simp add: h1_def l_def)
  qed (simp add: h1_def l_def p)
  have s2: "dseg h2 p (fr_next (?h x)) zs (fl_last l) None"
  proof (cases zs)
    case (Cons z zs')
    have s3: "dseg h1 (Some x) (fr_next (?h x)) zs (fl_last ?l) None"
      using s(3) dist(5) lasty by (cases "ys = []") (auto simp: h1_def disjoint_iff)
    then show ?thesis
      using dseg_set_prev [of h1 "Some x" "fr_next (?h x)" z zs' "fl_last ?l" None p] dist(2) Cons by (simp add: h2_def l_def)
  qed (simp add: h2_def l_def n)
  have "dseg h2 None (fl_first l) ys p (fr_next (?h x))"
    using s1 hdy by (cases "zs = []") (auto simp: h2_def)
  then have "dseg h None (fl_first l) (ys @ zs) (fl_last l) None"
    using s2 dist(3,4) by (auto simp: dseg_append h_def)
  moreover have "fr_list (h z) = i" if "z \<in> set (ys @ zs)" for z
  proof -
    have z: "fr_list (?h z) = i" "z \<noteq> x" using ft_rep_in(3) [OF R i, of z] that L dist(3,4) by auto
    have "fr_list (h1 z) = i" using z by (auto simp: h1_def)
    then have "fr_list (h2 z) = i" by (auto simp: h2_def)
    then show ?thesis using z by (simp add: h_def)
  qed
  moreover have "fl_id l = i" "fl_length l = length (ys @ zs)" "distinct (ys @ zs)" using f(2) dist by (simp_all add: l_def)
  ultimately have own: "dlist h i l (ys @ zs)" unfolding dlist_def by blast
  have run: "remove_frame i x T = (Ok () :: ('e, unit) outcome, ft_set_list i l (T\<lparr>ft_heap := h\<rparr>))"
    using i f(1-3) c L lasty hdz dist(3-5)
    by (cases "ys = []"; cases "zs = []")
      (auto simp: remove_frame_def frame_run sub_us_def l_def h_def h2_def h1_def comp_def s(2) p n fun_upd_twist disjoint_iff)
  have other: "h z = ?h z" if "j \<in> lists" "j \<noteq> i" "z \<in> set (L j)" for j z
  proof -
    have "z \<notin> set (L i)" using ft_rep_in(3) [OF R that(1,3)] ft_rep_in(3) [OF R i, of z] that(2) by auto
    then have "z \<noteq> x" "z \<notin> set ys" "z \<notin> set zs" using L by simp_all
    then have z: "z \<noteq> x" "ys = [] \<or> z \<noteq> last ys" "zs = [] \<or> z \<noteq> hd zs" using lasty hdz by blast+
    have "h1 z = ?h z" using z(2) by (auto simp: h1_def)
    then have "h2 z = ?h z" using z(3) by (auto simp: h2_def)
    then show ?thesis using z(1) by (simp add: h_def)
  qed
  have "ft_rep (L(i := ys @ zs)) (ft_set_list i l (T\<lparr>ft_heap := h\<rparr>))"
    by (rule ft_rep_update [OF R i own]) (use d(2) other in auto)
  then show ?thesis using run c(1) by (auto simp: loose_def h_def)
qed

section \<open>The operations on the memory\<close>

lemma alloc_frame_at_triple:
  "triple (rinv W) (alloc_frame_at K v a) (\<lambda>_. rinv W) (rinv W)"
proof -
  have own: "triple (\<lambda>s. W p = None \<and> (\<exists>c. rinv (W(p \<mapsto> (c, 12))) s)) m Q (rinv W)"
    if "\<And>c. W p = None \<Longrightarrow> triple (rinv (W(p \<mapsto> (c, 12)))) m Q (rinv W)" for p m Q
    by (intro triple_pure triple_ex) (use that in simp)
  have rest: "triple (rinv (W(p \<mapsto> (c, 12))))
     (bnd (undo_on_err (in_cs cs_alloc_slot) (in_ut (ut_free_op p))) (\<lambda>cptr.
      bnd (gets (\<lambda>s. ut_cap (ut_heap (rs_ut s) p))) (\<lambda>cap.
      bnd (undo_on_err (rs_retype K cap BSmallPage cptr) (seq (in_cs (cs_free_slot cptr)) (in_ut (ut_free_op p)))) (\<lambda>_.
      bnd (undo_on_err (map_frame K cptr v a rights_all VM_DATA None)
            (bnd (attempt (rs_delete K cptr)) (\<lambda>_. seq (in_cs (cs_free_slot cptr)) (in_ut (ut_free_op p))))) (\<lambda>_.
      ret cptr))))) (\<lambda>_. rinv W) (rinv W)" if W: "W p = None" for p c
  proof -
    let ?I = "rinv (W(p \<mapsto> (c, 12)))"
    have fr: "triple ?I (in_ut (ut_free_op p)) (\<lambda>_. rinv W) (rinv W)"
      by (rule in_ut_free_triple [where c = c and sb = 12]) (use W in \<open>auto simp: fun_upd_idem\<close>)
    note keep = keep_ut(1) [where P = "ut_inv (W(p \<mapsto> (c, 12)))"] keep_ut_retype [where P = "ut_inv (W(p \<mapsto> (c, 12)))"]
    have forget: "rinv W s" if "?I s" for s by (rule ut_inv_forget [OF W that])
    have u: "triple ?I (seq (in_cs (cs_free_slot x)) (in_ut (ut_free_op p))) (\<lambda>_. rinv W) (rinv W)" for x
      by (rule triple_seq [OF triple_weaken [OF keep(1)] fr]) (use forget in auto)
    have del: "triple ?I (attempt (rs_delete K x)) (\<lambda>_. ?I) (rinv W)" for x
      by (rule triple_weaken [OF triple_attempt [OF keep(3)]]) (auto split: outcome.splits)
    have u': "triple ?I (bnd (attempt (rs_delete K x)) (\<lambda>_. seq (in_cs (cs_free_slot x)) (in_ut (ut_free_op p)))) (\<lambda>_. rinv W) (rinv W)" for x
      by (rule triple_bnd [OF del u])
    show ?thesis
      unfolding undo_on_err_def
      by (intro triple_bnd [OF triple_on_err [OF keep(1)]] triple_bnd [OF triple_on_err [OF keep(2)]]
          triple_bnd [OF triple_on_err [OF map_frame_triple]] triple_bnd [OF fr] triple_bnd [OF u] triple_bnd [OF u'] triple_fail
          triple_ret triple_bnd [OF triple_gets [where P = ?I and Q = "\<lambda>_. ?I"]])
        (use forget in auto)
  qed
  show ?thesis
    unfolding alloc_frame_at_def
    by (rule triple_bnd [OF alloc_4k_triple]) (auto intro!: own rest)
qed

lemma ft_alloc_frame_at_triple:
  "triple (\<lambda>s. rinv W (mem_rs s) \<and> mem_ft s = T) (ft_alloc_frame_at K v)
     (\<lambda>_ s. rinv W (mem_rs s) \<and> mem_ft s = T) (\<lambda>s. rinv W (mem_rs s) \<and> mem_ft s = T)"
proof -
  have "triple (\<lambda>s. rinv W (mem_rs s)) (in_rs (alloc_frame_at K p v)) (\<lambda>_ s. rinv W (mem_rs s)) (\<lambda>s. rinv W (mem_rs s))" for p
    unfolding in_rs_def by (rule triple_on_part [OF alloc_frame_at_triple]) simp
  moreover have "triple (\<lambda>s. mem_ft s = T) (in_rs (alloc_frame_at K p v)) (\<lambda>_ s. mem_ft s = T) (\<lambda>s. mem_ft s = T)" for p
    unfolding in_rs_def by (rule triple_other_part) simp
  ultimately have at: "triple (\<lambda>s. rinv W (mem_rs s) \<and> mem_ft s = T) (in_rs (alloc_frame_at K p v))
     (\<lambda>_ s. rinv W (mem_rs s) \<and> mem_ft s = T) (\<lambda>s. rinv W (mem_rs s) \<and> mem_ft s = T)" for p
    by (rule triple_conj)
  show ?thesis unfolding ft_alloc_frame_at_def by (rule triple_bnd [OF triple_gets at]) simp
qed

lemma bump_capacity_triple:
  "triple (\<lambda>s. rinv W (mem_rs s) \<and> mem_ft s = T) (bump_capacity K)
     (\<lambda>_ s. rinv W (mem_rs s) \<and> (\<exists>n. n = ft_byte_length T + 4096 \<and> mem_ft s = T\<lparr>ft_byte_length := n, ft_capacity := n div 32\<rparr>))
     (\<lambda>s. rinv W (mem_rs s) \<and> mem_ft s = T)"
proof -
  let ?I = "\<lambda>s. rinv W (mem_rs s) \<and> mem_ft s = T"
  have fin: "triple ?I (bnd (gets (\<lambda>s. ft_byte_length (mem_ft s))) (\<lambda>n.
      bnd (lift (add_us n (BIT seL4_PageBits))) (\<lambda>len.
      in_ft (modify (\<lambda>T. T\<lparr>ft_byte_length := len, ft_capacity := len div FRAME_SIZE\<rparr>)))))
     (\<lambda>_ s. rinv W (mem_rs s) \<and> (\<exists>n. n = ft_byte_length T + 4096 \<and> mem_ft s = T\<lparr>ft_byte_length := n, ft_capacity := n div 32\<rparr>)) ?I"
    by (auto simp: triple_def lift_def add_us_def bnd_def gets_def in_ft_def on_part_def modify_def const_defs BIT_def)
  show ?thesis
    unfolding bump_capacity_def
    by (rule triple_bnd [OF triple_gets triple_bnd [OF ft_alloc_frame_at_triple fin]]) simp
qed

lemma undo_on_err_run:
  "undo_on_err m undo s = (case m s of (Err e, t) \<Rightarrow> bnd undo (\<lambda>_. fail e) t | r \<Rightarrow> r)"
  by (auto simp: undo_on_err_def on_err_def split: prod.splits outcome.splits)

lemma in_ft_run:
  "in_ft m s = (fst (m (mem_ft s)), s\<lparr>mem_ft := snd (m (mem_ft s))\<rparr>)"
  by (simp add: in_ft_def on_part_def split: prod.split)

lemma frame_set_all:
  "(r::frame)\<lparr>fr_cap := c, fr_list := l, fr_prev := p, fr_next := n\<rparr> = \<lparr>fr_cap = c, fr_prev = p, fr_next = n, fr_list = l\<rparr>"
  by (cases r) simp

text \<open>A fresh frame is the next one of the array; an error leaves at most a longer array.\<close>

definition fresh_at :: "frame_table \<Rightarrow> nat \<Rightarrow> frame_table \<Rightarrow> bool" where
  "fresh_at T f T' \<longleftrightarrow> f = ft_used T \<and> ft_used T < ft_capacity T \<and> ft_capacity T < 2 ^ 32 \<and>
     (\<exists>c. T' = T\<lparr>ft_used := ft_used T + 1,
       ft_heap := (ft_heap T)(f := \<lparr>fr_cap = c, fr_prev = None, fr_next = None, fr_list = NoList\<rparr>)\<rparr>)"

lemma alloc_fresh_frame_triple:
  assumes U: "ft_used T \<le> ft_capacity T" "ft_capacity T = ft_byte_length T div 32" "ft_capacity T < 2 ^ 32"
  defines "grown \<equiv> \<lambda>T1. \<exists>n \<ge> ft_byte_length T. T1 = T\<lparr>ft_byte_length := n, ft_capacity := n div 32\<rparr>"
  shows "triple (\<lambda>s. rinv W (mem_rs s) \<and> mem_ft s = T) (alloc_fresh_frame K)
     (\<lambda>f s. rinv W (mem_rs s) \<and> (\<exists>T1. grown T1 \<and> fresh_at T1 f (mem_ft s)))
     (\<lambda>s. rinv W (mem_rs s) \<and> grown (mem_ft s) \<and> ft_used T \<le> ft_capacity (mem_ft s) \<and> ft_capacity (mem_ft s) < 2 ^ 32)"
    (is "triple (?I T) _ ?Q ?E")
proof -
  have T: "grown T" using U(2) by (auto simp: grown_def intro!: exI [of _ "ft_byte_length T"])
  have used: "ft_used T1 = ft_used T" if "grown T1" for T1 using that by (auto simp: grown_def)
  have rest: "triple (?I T1) (bnd (gets mem_ft) (\<lambda>T.
     bnd (ensure (ft_used T < ft_capacity T \<and> ft_used T < 2 ^ 32)) (\<lambda>_.
     bnd (in_ft (frame_from_ref (ft_used T))) (\<lambda>frame.
     bnd (in_ft (modify (\<lambda>T. T\<lparr>ft_used := ft_used T + 1\<rparr>))) (\<lambda>_.
     bnd (in_ft (ref_from_frame frame)) (\<lambda>r.
     bnd (in_ft (frame_data r)) (\<lambda>vaddr.
     bnd (undo_on_err (ft_alloc_frame_at K vaddr) (in_ft (modify (\<lambda>T. T\<lparr>ft_used := ft_used T - 1\<rparr>)))) (\<lambda>frame_cap.
     bnd (in_ft (set_frame_cap frame frame_cap)) (\<lambda>_.
     bnd (in_ft (set_list_id frame NoList)) (\<lambda>_.
     bnd (in_ft (set_prev frame None)) (\<lambda>_.
     bnd (in_ft (set_next frame None)) (\<lambda>_.
     ret frame)))))))))))) ?Q ?E" (is "triple _ ?rest _ _") if g: "grown T1" for T1
  proof (cases "ft_used T1 < ft_capacity T1 \<and> ft_capacity T1 < 2 ^ 32")
    case True
    let ?T2 = "T1\<lparr>ft_used := ft_used T1 + 1\<rparr>"
    let ?a = "(ft_frame_data T1 + ft_used T1 * PAGE_SIZE_4K) mod usize_lim"
    have run: "?rest s = bnd (undo_on_err (ft_alloc_frame_at K ?a) (in_ft (modify (\<lambda>T. T\<lparr>ft_used := ft_used T - 1\<rparr>)))) (\<lambda>frame_cap.
        bnd (in_ft (set_frame_cap (ft_used T1) frame_cap)) (\<lambda>_.
        bnd (in_ft (set_list_id (ft_used T1) NoList)) (\<lambda>_.
        bnd (in_ft (set_prev (ft_used T1) None)) (\<lambda>_.
        bnd (in_ft (set_next (ft_used T1) None)) (\<lambda>_.
        ret (ft_used T1)))))) (s\<lparr>mem_ft := ?T2\<rparr>)" if "mem_ft s = T1" for s
      using that True by (simp add: bnd_def op_run in_ft_run frame_from_ref_def ref_from_frame_def frame_data_def)
    show ?thesis
    proof (rule tripleI)
      fix s f t assume I: "?I T1 s" and r: "?rest s = (Ok f, t)"
      have m: "mem_ft s = T1" using I by simp
      note eq = trans [OF run [OF m, symmetric] r]
      from eq obtain c s1 where at: "ft_alloc_frame_at K ?a (s\<lparr>mem_ft := ?T2\<rparr>) = (Ok c, s1)"
          and t: "f = ft_used T1" "t = s1\<lparr>mem_ft := (mem_ft s1)\<lparr>ft_heap := (ft_heap (mem_ft s1))
            (f := \<lparr>fr_cap = c, fr_prev = None, fr_next = None, fr_list = NoList\<rparr>)\<rparr>\<rparr>"
        by (auto simp: undo_on_err_run bnd_def op_run in_ft_run set_frame_cap_def set_list_id_def set_prev_def set_next_def
            upd_frame_run frame_set_all split: prod.splits outcome.splits)
      have "rinv W (mem_rs s1)" "mem_ft s1 = ?T2"
        using tripleD(1) [OF ft_alloc_frame_at_triple _ at, of W ?T2] I by auto
      then show "?Q f t" using t True g by (auto simp: fresh_at_def)
    next
      fix s e t assume I: "?I T1 s" and r: "?rest s = (Err e, t)"
      have m: "mem_ft s = T1" using I by simp
      note eq = trans [OF run [OF m, symmetric] r]
      from eq obtain s1 where at: "ft_alloc_frame_at K ?a (s\<lparr>mem_ft := ?T2\<rparr>) = (Err e, s1)"
          and t: "t = s1\<lparr>mem_ft := (mem_ft s1)\<lparr>ft_used := ft_used (mem_ft s1) - 1\<rparr>\<rparr>"
        by (auto simp: undo_on_err_run bnd_def op_run in_ft_run set_frame_cap_def set_list_id_def set_prev_def set_next_def
            upd_frame_run frame_set_all split: prod.splits outcome.splits)
      have "rinv W (mem_rs s1)" "mem_ft s1 = ?T2"
        using tripleD(2) [OF ft_alloc_frame_at_triple _ at, of W ?T2] I by auto
      moreover have "grown (T1\<lparr>ft_used := ft_used T\<rparr>)" unfolding used [OF g, symmetric] using g by simp
      ultimately show "?E t" using t True g used [OF g] by simp
    qed
  next
    case False
    then show ?thesis
      by (intro triple_panics) (auto simp: bnd_def op_run in_ft_run frame_from_ref_def)
  qed
  have rest': "triple (\<lambda>s. rinv W (mem_rs s) \<and> grown (mem_ft s)) (bnd (gets mem_ft) f) ?Q ?E"
    if "\<And>T1. grown T1 \<Longrightarrow> triple (?I T1) (bnd (gets mem_ft) f) ?Q ?E" for f
    using that by (fastforce simp: triple_def)
  have bump: "triple (?I T) (if b then bump_capacity K else ret ()) (\<lambda>_ s. rinv W (mem_rs s) \<and> grown (mem_ft s)) ?E" for b
  proof (rule triple_if)
    show "triple (?I T) (bump_capacity K) (\<lambda>_ s. rinv W (mem_rs s) \<and> grown (mem_ft s)) ?E"
    proof (rule triple_weaken [OF bump_capacity_triple])
      have "grown (T\<lparr>ft_byte_length := ft_byte_length T + 4096, ft_capacity := (ft_byte_length T + 4096) div 32\<rparr>)"
        unfolding grown_def by (rule exI [of _ "ft_byte_length T + 4096"]) simp
      then show "rinv W (mem_rs s) \<and> grown (mem_ft s)"
        if "rinv W (mem_rs s) \<and> (\<exists>n. n = ft_byte_length T + 4096 \<and> mem_ft s = T\<lparr>ft_byte_length := n, ft_capacity := n div 32\<rparr>)" for s
        using that by auto
    qed (use T U in auto)
  qed (use T in \<open>auto intro: triple_ret\<close>)
  show ?thesis
    unfolding alloc_fresh_frame_def
    by (rule triple_bnd [where R = "\<lambda>_. ?I T", OF triple_gets], simp, rule triple_bnd [where R = "\<lambda>_. ?I T", OF triple_ensure],
        simp, rule triple_bnd [OF bump], rule rest', rule rest)
qed

text \<open>The invariant of the memory: every frame below \<open>ft_used\<close> is in one of the lists.\<close>

definition mem_inv :: "(nat \<rightharpoonup> cptr \<times> nat) \<Rightarrow> (list_id \<Rightarrow> nat list) \<Rightarrow> 'k memory \<Rightarrow> bool" where
  "mem_inv W L s \<longleftrightarrow> rinv W (mem_rs s) \<and> ft_rep L (mem_ft s) \<and>
     set (L FreeList) \<union> set (L AllocatedList) = {..<ft_used (mem_ft s)} \<and>
     ft_capacity (mem_ft s) = ft_byte_length (mem_ft s) div 32"

lemma ft_rep_grow:
  assumes R: "ft_rep L T" and T': "ft_free T' = ft_free T" "ft_allocated T' = ft_allocated T" "ft_used T \<le> ft_used T'"
      "ft_used T' \<le> ft_capacity T'" "ft_capacity T' < 2 ^ 32"
      "\<And>x. x < ft_used T \<Longrightarrow> ft_heap T' x = ft_heap T x"
  shows "ft_rep L T'"
proof -
  have "dlist (ft_heap T') i (ft_list i T') (L i) \<and> set (L i) \<subseteq> {..<ft_used T'}" if "i \<in> lists" for i
  proof -
    have d: "dlist (ft_heap T) i (ft_list i T) (L i)" "set (L i) \<subseteq> {..<ft_used T}" "ft_list i T' = ft_list i T"
      using R that T' by (auto simp: ft_rep_def ft_list_def)
    moreover have "dseg (ft_heap T') p a (L i) b n \<longleftrightarrow> dseg (ft_heap T) p a (L i) b n" for p a b n
      by (rule dseg_cong) (use d(2) T' in \<open>auto simp: subset_iff\<close>)
    moreover have "\<forall>x \<in> set (L i). ft_heap T' x = ft_heap T x" using d(2) T' by auto
    ultimately show ?thesis using T'(3) by (auto simp: dlist_def)
  qed
  then show ?thesis using T' by (simp add: ft_rep_def)
qed

lemma alloc_fresh_mem:
  assumes I: "mem_inv W L s"
  shows "alloc_fresh_frame K s = (Ok f, t) \<Longrightarrow> f = ft_used (mem_ft s) \<and> rinv W (mem_rs t) \<and> ft_rep L (mem_ft t) \<and> loose (mem_ft t) f \<and>
      ft_used (mem_ft t) = f + 1 \<and> ft_capacity (mem_ft t) = ft_byte_length (mem_ft t) div 32"
    and "alloc_fresh_frame K s = (Err e, t) \<Longrightarrow> mem_inv W L t"
proof -
  let ?T = "mem_ft s"
  have R: "ft_rep L ?T" and U: "ft_used ?T \<le> ft_capacity ?T" "ft_capacity ?T = ft_byte_length ?T div 32" "ft_capacity ?T < 2 ^ 32"
    using I by (auto simp: mem_inv_def ft_rep_def)
  note tr = tripleD [OF alloc_fresh_frame_triple [OF U, of W K], of s]
  have P: "rinv W (mem_rs s) \<and> mem_ft s = ?T" using I by (simp add: mem_inv_def)
  show "f = ft_used ?T \<and> rinv W (mem_rs t) \<and> ft_rep L (mem_ft t) \<and> loose (mem_ft t) f \<and>
      ft_used (mem_ft t) = f + 1 \<and> ft_capacity (mem_ft t) = ft_byte_length (mem_ft t) div 32"
    if r: "alloc_fresh_frame K s = (Ok f, t)"
  proof -
    obtain n c where n: "f = ft_used ?T" "rinv W (mem_rs t)" "ft_used ?T < n div 32" "n div 32 < 2 ^ 32"
        and t: "mem_ft t = ?T\<lparr>ft_byte_length := n, ft_capacity := n div 32, ft_used := ft_used ?T + 1,
          ft_heap := (ft_heap ?T)(f := \<lparr>fr_cap = c, fr_prev = None, fr_next = None, fr_list = NoList\<rparr>)\<rparr>"
      using tr(1) [OF P r] by (auto simp: fresh_at_def)
    have "ft_rep L (mem_ft t)" by (rule ft_rep_grow [OF R]) (use n t in auto)
    then show ?thesis using n t by (auto simp: loose_def)
  qed
  show "mem_inv W L t" if r: "alloc_fresh_frame K s = (Err e, t)"
  proof -
    obtain n where n: "rinv W (mem_rs t)" "ft_used ?T \<le> n div 32" "n div 32 < 2 ^ 32"
        and t: "mem_ft t = ?T\<lparr>ft_byte_length := n, ft_capacity := n div 32\<rparr>"
      using tr(2) [OF P r] by auto
    have "ft_rep L (mem_ft t)" by (rule ft_rep_grow [OF R]) (use n t in auto)
    then show ?thesis using n t I by (auto simp: mem_inv_def)
  qed
qed

text \<open>The last step of \<open>alloc_frame\<close>: the loose frame becomes the last allocated one.\<close>

lemma push_allocated:
  assumes "rinv W (mem_rs s)" and "ft_rep L (mem_ft s)" and "loose (mem_ft s) f"
    and "insert f (set (L FreeList) \<union> set (L AllocatedList)) = {..<ft_used (mem_ft s)}"
    and "ft_capacity (mem_ft s) = ft_byte_length (mem_ft s) div 32"
  shows "\<exists>t. bnd (in_ft (push_back AllocatedList f)) (\<lambda>_. bnd (in_ft (ref_from_frame f)) (\<lambda>r. ret (Some r))) s =
      (Ok (Some f) :: (sel4_error, nat option) outcome, t) \<and> mem_inv W (L(AllocatedList := L AllocatedList @ [f])) t"
proof -
  obtain T h l where T: "push_back AllocatedList f (mem_ft s) = (Ok () :: (sel4_error, unit) outcome, T)"
      "ft_rep (L(AllocatedList := L AllocatedList @ [f])) T" "T = ft_set_list AllocatedList l ((mem_ft s)\<lparr>ft_heap := h\<rparr>)"
    using push_back_run [OF assms(2) _ assms(3), of AllocatedList] by auto
  have f: "f < ft_used T" "f < 2 ^ 32" using assms(2,3) T(3) by (auto simp: loose_def ft_rep_def)
  have "ref_from_frame f T = (Ok f :: (sel4_error, nat) outcome, T)" by (rule ref_from_frame_run [OF f])
  then have "bnd (in_ft (push_back AllocatedList f)) (\<lambda>_. bnd (in_ft (ref_from_frame f)) (\<lambda>r. ret (Some r))) s =
      (Ok (Some f) :: (sel4_error, nat option) outcome, s\<lparr>mem_ft := T\<rparr>)"
    using T(1) by (simp add: bnd_def in_ft_run op_run)
  moreover have "mem_inv W (L(AllocatedList := L AllocatedList @ [f])) (s\<lparr>mem_ft := T\<rparr>)"
    using T assms(1,4,5) by (auto simp: mem_inv_def)
  ultimately show ?thesis by blast
qed

lemma alloc_frame_pop:
  assumes "pop_front FreeList (mem_ft s) = (Ok (Some g) :: (sel4_error, nat option) outcome, T)"
  shows "alloc_frame K s = bnd (in_ft (push_back AllocatedList g)) (\<lambda>_. bnd (in_ft (ref_from_frame g)) (\<lambda>r. ret (Some r)))
    (s\<lparr>mem_ft := T\<rparr>)"
proof -
  have "in_ft (pop_front FreeList) s = (Ok (Some g) :: (sel4_error, nat option) outcome, s\<lparr>mem_ft := T\<rparr>)"
    using assms by (simp add: in_ft_run)
  then show ?thesis by (simp only: alloc_frame_def bnd_run(1) option.case bnd_simps(1) outcome.case)
qed

lemma alloc_frame_free:
  assumes I: "mem_inv W L s" and L: "L FreeList = g # fs"
  shows "\<exists>t. alloc_frame K s = (Ok (Some g), t) \<and>
    mem_inv W (L(FreeList := fs, AllocatedList := L AllocatedList @ [g])) t"
proof -
  obtain T h l where T: "pop_front FreeList (mem_ft s) = (Ok (Some g) :: (sel4_error, nat option) outcome, T)"
      "ft_rep (L(FreeList := fs)) T" "loose T g" "T = ft_set_list FreeList l ((mem_ft s)\<lparr>ft_heap := h\<rparr>)"
    using pop_front_Cons [of L "mem_ft s" FreeList g fs] I L by (auto simp: mem_inv_def)
  have "\<exists>t. bnd (in_ft (push_back AllocatedList g)) (\<lambda>_. bnd (in_ft (ref_from_frame g)) (\<lambda>r. ret (Some r))) (s\<lparr>mem_ft := T\<rparr>) =
    (Ok (Some g) :: (sel4_error, nat option) outcome, t) \<and>
    mem_inv W ((L(FreeList := fs))(AllocatedList := (L(FreeList := fs)) AllocatedList @ [g])) t"
    by (rule push_allocated) (use I T L in \<open>auto simp: mem_inv_def\<close>)
  then show ?thesis unfolding alloc_frame_pop [OF T(1)] by simp
qed

lemma free_frame_mem:
  assumes I: "mem_inv W L s" and f: "f \<in> set (L AllocatedList)"
  shows "\<exists>t. in_ft (free_frame f) s = (Ok () :: (sel4_error, unit) outcome, t) \<and>
    mem_inv W (L(FreeList := f # L FreeList, AllocatedList := remove1 f (L AllocatedList))) t"
proof -
  let ?T = "mem_ft s"
  have R: "ft_rep L ?T" using I by (simp add: mem_inv_def)
  obtain ys zs where L: "L AllocatedList = ys @ f # zs" "f \<notin> set ys" using split_list_first [OF f] by auto
  then have rm: "remove1 f (L AllocatedList) = ys @ zs" by (simp add: remove1_append)
  have c: "f < ft_capacity ?T" "ft_capacity ?T < 2 ^ 32" using ft_rep_in(2) [OF R _ f] R by (auto simp: ft_rep_def)
  obtain T1 h1 l1 where T1: "remove_frame AllocatedList f ?T = (Ok () :: (sel4_error, unit) outcome, T1)"
      "ft_rep (L(AllocatedList := ys @ zs)) T1" "loose T1 f" "T1 = ft_set_list AllocatedList l1 (?T\<lparr>ft_heap := h1\<rparr>)"
    using remove_frame_run [OF R _ L(1)] by auto
  obtain T2 h2 l2 where T2: "push_front FreeList f T1 = (Ok () :: (sel4_error, unit) outcome, T2)"
      "ft_rep (L(AllocatedList := ys @ zs, FreeList := f # L FreeList)) T2" "T2 = ft_set_list FreeList l2 (T1\<lparr>ft_heap := h2\<rparr>)"
    using push_front_run [OF T1(2) _ T1(3), of FreeList] by auto
  have run: "in_ft (free_frame f) s = (Ok () :: (sel4_error, unit) outcome, s\<lparr>mem_ft := T2\<rparr>)"
    using T1(1) T2(1) c by (simp add: free_frame_def in_ft_run bnd_def frame_from_ref_run)
  let ?L = "L(FreeList := f # L FreeList, AllocatedList := remove1 f (L AllocatedList))"
  have "ft_rep ?L T2" using T2(2) rm by (simp add: fun_upd_twist)
  moreover have "insert f (set (L FreeList) \<union> set (ys @ zs)) = {..<ft_used ?T}"
    using I L by (auto simp: mem_inv_def)
  ultimately have "mem_inv W ?L (s\<lparr>mem_ft := T2\<rparr>)"
    using I T1(4) T2(3) rm by (simp add: mem_inv_def)
  then show ?thesis using run by blast
qed

lemma alloc_frame_mem:
  assumes I: "mem_inv W L s" and run: "alloc_frame K s = (r, t)"
  shows "case r of
      Ok (Some f) \<Rightarrow> f \<notin> set (L AllocatedList) \<and>
        (case L FreeList of
           g # fs \<Rightarrow> f = g \<and> mem_inv W (L(FreeList := fs, AllocatedList := L AllocatedList @ [f])) t
         | [] \<Rightarrow> f = ft_used (mem_ft s) \<and> mem_inv W (L(AllocatedList := L AllocatedList @ [f])) t)
    | Ok None \<Rightarrow> L FreeList = [] \<and> mem_inv W L t
    | Err e \<Rightarrow> False
    | Panic \<Rightarrow> L FreeList = []"
proof -
  let ?T = "mem_ft s"
  have R: "ft_rep L ?T" using I by (simp add: mem_inv_def)
  show ?thesis
  proof (cases "L FreeList")
    case (Cons g fs)
    have "r = Ok (Some g)" "mem_inv W (L(FreeList := fs, AllocatedList := L AllocatedList @ [g])) t"
      using run alloc_frame_free [OF I Cons, of K] by auto
    moreover have "g \<notin> set (L AllocatedList)"
      using ft_rep_in(3) [OF R, of FreeList g] ft_rep_in(3) [OF R, of AllocatedList g] Cons by auto
    ultimately show ?thesis using Cons by simp
  next
    case Nil
    have pop: "pop_front FreeList ?T = (Ok None :: (sel4_error, nat option) outcome, ?T)"
      by (rule pop_front_empty [OF R]) (use Nil in auto)
    then have a: "alloc_frame K s = bnd (attempt (alloc_fresh_frame K)) (\<lambda>frame. case frame of
         Ok f \<Rightarrow> bnd (in_ft (push_back AllocatedList f)) (\<lambda>_. bnd (in_ft (ref_from_frame f)) (\<lambda>r. ret (Some r)))
       | Err _ \<Rightarrow> ret None | Panic \<Rightarrow> panic) s"
      by (simp add: alloc_frame_def bnd_def in_ft_run op_run)
    obtain q u where q: "alloc_fresh_frame K s = (q, u)" by fastforce
    show ?thesis
    proof (cases q)
      case (Ok f)
      note F = alloc_fresh_mem(1) [OF I q [unfolded Ok]]
      have "insert f (set (L FreeList) \<union> set (L AllocatedList)) = {..<ft_used (mem_ft u)}"
        using I F by (simp add: mem_inv_def lessThan_Suc)
      then obtain v where "bnd (in_ft (push_back AllocatedList f)) (\<lambda>_. bnd (in_ft (ref_from_frame f)) (\<lambda>r. ret (Some r))) u =
          (Ok (Some f) :: (sel4_error, nat option) outcome, v)" "mem_inv W (L(AllocatedList := L AllocatedList @ [f])) v"
        using push_allocated [of W u L f] F by blast
      moreover have "f \<notin> set (L AllocatedList)" using ft_rep_in(1) [OF R, of AllocatedList f] F by auto
      ultimately show ?thesis using run a q Ok Nil F by (auto simp: bnd_def attempt_def)
    next
      case (Err e)
      then show ?thesis using run a q alloc_fresh_mem(2) [OF I, of K e u] Nil by (auto simp: bnd_def attempt_def op_run)
    next
      case Panic
      then show ?thesis using run a q Nil by (auto simp: bnd_def attempt_def)
    qed
  qed
qed

section \<open>Requests, and an instance\<close>

text \<open>Sequences of requests by callers that free only what they hold; \<open>live\<close> are the frames held.
  A run that panics has no result.\<close>

datatype frame_req = AllocReq | FreeReq nat

fun frames_run :: "'k sel4 \<Rightarrow> frame_req list \<Rightarrow> nat list \<Rightarrow> 'k memory \<Rightarrow> (nat list \<times> 'k memory) option" where
  "frames_run K [] live s = Some (live, s)"
| "frames_run K (AllocReq # reqs) live s =
     (case alloc_frame K s of
        (Ok (Some f), t) \<Rightarrow> frames_run K reqs (live @ [f]) t
      | (Ok None, t) \<Rightarrow> frames_run K reqs live t
      | _ \<Rightarrow> None)"
| "frames_run K (FreeReq f # reqs) live s =
     (if f \<in> set live
      then case in_ft (free_frame f) s :: (sel4_error, unit) outcome \<times> 'k memory of
             (Ok _, t) \<Rightarrow> frames_run K reqs (remove1 f live) t
           | _ \<Rightarrow> None
      else None)"

text \<open>Two frames: frame 0 is allocated, frame 1 is free.\<close>

definition small_memory :: "nat memory" where
  "small_memory =
     \<lparr>mem_rs = small_resources,
      mem_ft = (frame_table_init 3 (\<lambda>f. \<lparr>fr_cap = 100 + f, fr_prev = None, fr_next = None,
          fr_list = (if f = 0 then AllocatedList else FreeList)\<rparr>))
        \<lparr>ft_capacity := 128, ft_byte_length := 4096, ft_used := 2,
         ft_free := \<lparr>fl_id = FreeList, fl_first = Some 1, fl_last = Some 1, fl_length = 1\<rparr>,
         ft_allocated := \<lparr>fl_id = AllocatedList, fl_first = Some 0, fl_last = Some 0, fl_length = 1\<rparr>\<rparr>,
      mem_dev = []\<rparr>"

definition small_lists :: "list_id \<Rightarrow> nat list" where
  "small_lists i = (case i of FreeList \<Rightarrow> [1] | AllocatedList \<Rightarrow> [0] | NoList \<Rightarrow> [])"

lemma small_lists_simps [simp]: "small_lists FreeList = [1]" "small_lists AllocatedList = [0]"
  by (simp_all add: small_lists_def)

lemma small_memory_inv: "mem_inv Map.empty small_lists small_memory"
proof -
  have "rinv Map.empty (mem_rs small_memory)" by (simp add: small_memory_def small_resources_def small_ut_inv)
  moreover have "ft_rep small_lists (mem_ft small_memory)"
    by (simp add: ft_rep_def dlist_def ft_list_def small_memory_def frame_table_init_def)
  ultimately show ?thesis by (auto simp: mem_inv_def small_memory_def frame_table_init_def)
qed

section \<open>Properties\<close>

text \<open>C16: The frame table is a queue of free frames over a growing array.  \<open>alloc_frame\<close> takes the
  first free frame if there is one, else the next record of the array, and in both cases a frame
  that was not allocated; without memory it returns \<open>None\<close> and no list changes.  With a free
  frame it neither fails nor panics.  The untyped memory's invariant is kept.\<close>

theorem alloc_frame_refines:
  assumes I: "mem_inv W L s" and run: "alloc_frame K s = (r, t)"
  shows "case r of
      Ok (Some f) \<Rightarrow> f \<notin> set (L AllocatedList) \<and>
        (case L FreeList of
           g # fs \<Rightarrow> f = g \<and> mem_inv W (L(FreeList := fs, AllocatedList := L AllocatedList @ [f])) t
         | [] \<Rightarrow> f = ft_used (mem_ft s) \<and> mem_inv W (L(AllocatedList := L AllocatedList @ [f])) t)
    | Ok None \<Rightarrow> L FreeList = [] \<and> mem_inv W L t
    | Err e \<Rightarrow> False
    | Panic \<Rightarrow> L FreeList = []"
  by (rule alloc_frame_mem [OF assms])

theorem alloc_frame_refines_witness:
  "\<exists>t. alloc_frame counting_kernel small_memory = (Ok (Some 1), t) \<and>
    mem_inv Map.empty (small_lists(FreeList := [], AllocatedList := [0, 1])) t"
proof -
  obtain r t where r: "alloc_frame counting_kernel small_memory = (r, t)" by fastforce
  show ?thesis
    using alloc_frame_refines [OF small_memory_inv r] r by (cases r) (auto split: option.splits)
qed

text \<open>C18: Freeing an allocated frame succeeds and puts it at the front of the free frames, so the next
  allocation returns this very frame; no other frame changes hands.\<close>

theorem free_frame_refines:
  assumes I: "mem_inv W L s" and f: "f \<in> set (L AllocatedList)"
  shows "\<exists>t u. in_ft (free_frame f) s = (Ok () :: (sel4_error, unit) outcome, t) \<and>
    mem_inv W (L(FreeList := f # L FreeList, AllocatedList := remove1 f (L AllocatedList))) t \<and>
    alloc_frame K t = (Ok (Some f), u) \<and>
    mem_inv W (L(AllocatedList := remove1 f (L AllocatedList) @ [f])) u"
proof -
  let ?L = "L(FreeList := f # L FreeList, AllocatedList := remove1 f (L AllocatedList))"
  obtain t where t: "in_ft (free_frame f) s = (Ok () :: (sel4_error, unit) outcome, t)" "mem_inv W ?L t"
    using free_frame_mem [OF I f] by blast
  have free: "?L FreeList = f # L FreeList" by simp
  have "?L(FreeList := L FreeList, AllocatedList := ?L AllocatedList @ [f]) =
      L(AllocatedList := remove1 f (L AllocatedList) @ [f])" by (rule ext) simp
  then have "\<exists>u. alloc_frame K t = (Ok (Some f), u) \<and>
      mem_inv W (L(AllocatedList := remove1 f (L AllocatedList) @ [f])) u"
    using alloc_frame_free [OF t(2) free, of K] by (simp only:)
  then show ?thesis using t by blast
qed

theorem free_frame_refines_witness:
  "\<exists>t u. in_ft (free_frame 0) small_memory = (Ok () :: (sel4_error, unit) outcome, t) \<and>
    alloc_frame counting_kernel t = (Ok (Some 0), u)"
  using free_frame_refines [OF small_memory_inv, of 0 counting_kernel] by auto

text \<open>C19: A frame that is not allocated cannot be freed: freeing a free frame, a second time for
  instance, or a reference past the table stops the root server before any list is touched.\<close>

theorem double_free_panics:
  assumes I: "mem_inv W L s" and f: "f \<notin> set (L AllocatedList)"
    and r: "f < ft_used (mem_ft s) \<or> ft_capacity (mem_ft s) \<le> f"
  shows "in_ft (free_frame f) s = (Panic :: (sel4_error, unit) outcome, s)"
proof (cases "f < ft_used (mem_ft s)")
  case True
  let ?T = "mem_ft s"
  have R: "ft_rep L ?T" using I by (simp add: mem_inv_def)
  have "f \<in> set (L FreeList)" using I f True by (auto simp: mem_inv_def)
  then have "fr_list (ft_heap ?T f) = FreeList" using ft_rep_in(3) [OF R] by simp
  moreover have "fl_id (ft_list AllocatedList ?T) = AllocatedList" using R by (simp add: ft_rep_def dlist_def)
  moreover have "f < ft_capacity ?T" "ft_capacity ?T < 2 ^ 32" using True R by (auto simp: ft_rep_def)
  ultimately show ?thesis
    by (simp add: free_frame_def in_ft_run bnd_def frame_from_ref_run remove_frame_def the_list_run the_frame_run op_run)
next
  case False
  then show ?thesis using r by (simp add: free_frame_def in_ft_run bnd_def frame_from_ref_def op_run)
qed

theorem double_free_panics_witness:
  "in_ft (free_frame 1) small_memory = (Panic :: (sel4_error, unit) outcome, small_memory)"
  by (rule double_free_panics [OF small_memory_inv]) (simp_all add: small_memory_def)

text \<open>C17: No frame is shared.  Whatever the order of allocations and frees, and of allocations that
  fail for lack of memory, the frames held are pairwise distinct and are exactly the allocated
  list, in the order of their allocation.\<close>

theorem frames_never_shared:
  assumes "mem_inv W L s" and "frames_run K reqs (L AllocatedList) s = Some (live, t)"
  shows "distinct live \<and> (\<exists>L'. mem_inv W L' t \<and> L' AllocatedList = live)"
  using assms
proof (induction reqs arbitrary: L s)
  case Nil
  have "distinct (L AllocatedList)" using Nil by (auto simp: mem_inv_def ft_rep_def dlist_def)
  then show ?case using Nil by auto
next
  case (Cons q reqs)
  show ?case
  proof (cases q)
    case AllocReq
    obtain r u where r: "alloc_frame K s = (r, u)" by fastforce
    note M = alloc_frame_mem [OF Cons.prems(1) r]
    have run: "frames_run K (AllocReq # reqs) (L AllocatedList) s = Some (live, t)"
      using Cons.prems(2) AllocReq by simp
    show ?thesis
    proof (cases r)
      case (Ok x)
      show ?thesis
      proof (cases x)
        case None
        then show ?thesis using Cons.IH [of L u] M run r Ok by simp
      next
        case (Some f)
        then have "\<exists>L2. mem_inv W L2 u \<and> L2 AllocatedList = L AllocatedList @ [f]"
          using M Ok by (cases "L FreeList") (fastforce intro: exI)+
        then show ?thesis using Cons.IH [of _ u] run r Ok Some by fastforce
      qed
    qed (use run r in simp_all)
  next
    case (FreeReq f)
    then have f: "f \<in> set (L AllocatedList)" using Cons.prems(2) by (auto split: if_splits)
    obtain u where u: "in_ft (free_frame f) s = (Ok () :: (sel4_error, unit) outcome, u)"
        "mem_inv W (L(FreeList := f # L FreeList, AllocatedList := remove1 f (L AllocatedList))) u"
      using free_frame_mem [OF Cons.prems(1) f] by blast
    show ?thesis by (rule Cons.IH [OF u(2)]) (use Cons.prems(2) f u(1) FreeReq in simp)
  qed
qed

theorem frames_never_shared_witness:
  "\<exists>t. frames_run counting_kernel [AllocReq, FreeReq 0, AllocReq] [0] small_memory = Some ([1, 0], t) \<and>
    distinct [1, 0 :: nat] \<and> (\<exists>L. mem_inv Map.empty L t \<and> L AllocatedList = [1, 0])"
proof -
  obtain t1 where 1: "alloc_frame counting_kernel small_memory = (Ok (Some 1), t1)"
      "mem_inv Map.empty (small_lists(FreeList := [], AllocatedList := [0, 1])) t1"
    using alloc_frame_free [OF small_memory_inv, of 1 "[]" counting_kernel] by auto
  obtain t2 where 2: "in_ft (free_frame 0) t1 = (Ok () :: (sel4_error, unit) outcome, t2)"
      "mem_inv Map.empty (small_lists(FreeList := [0], AllocatedList := [1])) t2"
    using free_frame_mem [OF 1(2), of 0] by (auto simp: fun_upd_twist)
  obtain t3 where 3: "alloc_frame counting_kernel t2 = (Ok (Some 0), t3)"
    using alloc_frame_free [OF 2(2), of 0 "[]" counting_kernel] by auto
  have run: "frames_run counting_kernel [AllocReq, FreeReq 0, AllocReq] (small_lists AllocatedList) small_memory = Some ([1, 0], t3)"
    using 1 2 3 by simp
  then show ?thesis using frames_never_shared [OF small_memory_inv run] by auto
qed

text \<open>C20: A frame's record lies in the mapped part of the array: the reference fits in 32 bits, and
  resolving it or taking the address of its data does not panic.\<close>

theorem alloc_frame_in_bounds:
  assumes "mem_inv W L s" and "alloc_frame K s = (Ok (Some f), t)"
  shows "f < 2 ^ 32 \<and> FRAME_SIZE * (f + 1) \<le> ft_byte_length (mem_ft t) \<and>
    frame_from_ref f (mem_ft t) = (Ok f :: (sel4_error, nat) outcome, mem_ft t) \<and>
    frame_data f (mem_ft t) = (Ok ((ft_frame_data (mem_ft t) + f * PAGE_SIZE_4K) mod usize_lim) :: (sel4_error, nat) outcome, mem_ft t)"
proof -
  obtain L' where L: "mem_inv W L' t" "f \<in> set (L' AllocatedList)"
    using alloc_frame_mem [OF assms] by (auto split: list.splits)
  then have R: "ft_rep L' (mem_ft t)" and c: "ft_capacity (mem_ft t) = ft_byte_length (mem_ft t) div 32"
    by (auto simp: mem_inv_def)
  have f: "f < ft_capacity (mem_ft t)" "ft_capacity (mem_ft t) < 2 ^ 32"
    using ft_rep_in(2) [OF R _ L(2)] R by (auto simp: ft_rep_def)
  then have "f + 1 \<le> ft_byte_length (mem_ft t) div 32" using c by simp
  then have "32 * (f + 1) \<le> 32 * (ft_byte_length (mem_ft t) div 32)" by (rule mult_le_mono2)
  then have "32 * (f + 1) \<le> ft_byte_length (mem_ft t)" by linarith
  then show ?thesis using f by (simp add: FRAME_SIZE_def frame_from_ref_run frame_data_def bnd_def op_run)
qed

theorem alloc_frame_in_bounds_witness:
  "\<exists>t. alloc_frame counting_kernel small_memory = (Ok (Some 1), t) \<and> 64 \<le> ft_byte_length (mem_ft t)"
proof -
  obtain t where t: "alloc_frame counting_kernel small_memory = (Ok (Some 1), t)"
    using alloc_frame_free [OF small_memory_inv, of 1 "[]" counting_kernel] by auto
  then show ?thesis using alloc_frame_in_bounds [OF small_memory_inv t] by (simp add: FRAME_SIZE_def)
qed


lemma find_update:
  "find P xs = None \<Longrightarrow> i < length xs \<Longrightarrow> P x \<Longrightarrow> find P (xs[i := x]) = Some x"
proof (induction xs arbitrary: i)
  case (Cons y ys)
  then show ?case by (cases i) (auto split: if_splits)
qed simp

lemma in_rs_keeps: "in_rs m s = (r, t) \<Longrightarrow> mem_dev t = mem_dev s"
  by (auto simp: in_rs_def on_part_def split: prod.splits)

text \<open>Device memory is allocated once: asking again for a range that was allocated returns the
  same frames and changes nothing, so no device page is retyped twice.\<close>

lemma device_mem_allocated_once:
  assumes len: "length (mem_dev s) = MAX_DEVICE_ALLOCATIONS" and run: "alloc_device_mem K paddr sz s = (Ok frames, t)"
  shows "alloc_device_mem K paddr sz t = (Ok frames, t)"
proof (cases "find (device_known paddr sz) (mem_dev s)")
  case (Some a)
  then have "device_known paddr sz a" by (auto simp: find_Some_iff)
  then obtain d where "a = Some d" by (cases a) (auto simp: device_known_def)
  then have "frames = dm_frames d \<and> t = s" using run Some by (simp add: alloc_device_mem_def op_run)
  then show ?thesis using run by simp
next
  case None
  let ?new = "Some \<lparr>dm_paddr = paddr, dm_size = sz, dm_frames = frames\<rparr>"
  obtain u where u: "in_rs (map_op (device_frame K) (page_starts paddr sz)) s = (Ok frames, u)"
      and "find (\<lambda>i. mem_dev s ! i = None) [0..<MAX_DEVICE_ALLOCATIONS] \<noteq> None"
      and t: "\<And>i. find (\<lambda>i. mem_dev s ! i = None) [0..<MAX_DEVICE_ALLOCATIONS] = Some i \<Longrightarrow>
        t = u\<lparr>mem_dev := (mem_dev u)[i := ?new]\<rparr>"
    using run None
    by (auto simp: alloc_device_mem_def bnd_def op_run split: prod.splits outcome.splits option.splits)
  moreover from this obtain i where i: "find (\<lambda>i. mem_dev s ! i = None) [0..<MAX_DEVICE_ALLOCATIONS] = Some i" by blast
  ultimately have dev: "mem_dev t = (mem_dev s)[i := ?new]" using in_rs_keeps [OF u] by simp
  have "i < length (mem_dev s)" using i len by (auto simp: find_Some_iff)
  then have "find (device_known paddr sz) (mem_dev t) = Some ?new"
    unfolding dev using None by (intro find_update) (auto simp: device_known_def)
  then show ?thesis by (simp add: alloc_device_mem_def op_run)
qed

theorem device_mem_allocated_once_witness:
  "\<exists>t. alloc_device_mem counting_kernel 0 4096 (small_memory\<lparr>mem_dev := replicate 64 None\<rparr>) = (Ok [(0, 0)], t) \<and>
    alloc_device_mem counting_kernel 0 4096 t = (Ok [(0, 0)], t)"
proof -
  let ?s = "small_memory\<lparr>mem_dev := replicate 64 None\<rparr>"
  have f: "find (device_known p n) (replicate 64 None) = None" for p n
    by (auto simp: find_None_iff device_known_def)
  have g: "find (\<lambda>i. replicate 64 (None :: device_mem_allocation option) ! i = None) [0..<64] = Some 0"
    by (simp add: upt_conv_Cons)
  obtain t where t: "alloc_device_mem counting_kernel 0 4096 ?s = (Ok [(0, 0)], t)"
    using f g by (simp add: alloc_device_mem_def bnd_def op_run page_starts_def const_defs BIT_def in_rs_def on_part_def
        add_us_def device_frame_def expect_def on_err_def in_ut_def in_cs_def alloc_4k_device_def paddr_to_ut_def sub_us_def
        small_memory_def small_resources_def small_ut_table_def cs_taken_alloc rs_retype_def in_kern_def
        cs_untyped_retype_def counting_kernel_def)
  moreover have "length (mem_dev ?s) = MAX_DEVICE_ALLOCATIONS" by (simp add: const_defs)
  ultimately show ?thesis using device_mem_allocated_once by blast
qed

end
