(* ===== verification/IRQ.thy ===== *)
theory IRQ
  imports Frame_Table Protocol Event
begin

text \<open>
  Interrupts and notifications: \<open>crates/root_server/src/irq.rs\<close>.  A dispatcher hands out the bits
  of a notification word to the sources it registers, each with a badged copy of one notification.
  The badge-bit allocator satisfies the contract of \<open>Slot_Allocator\<close>.  Interrupt call-backs are
  parameters: an arbitrary effect on an arbitrary state of the world.
\<close>

section \<open>Dispatchers\<close>

record irq_handler_info =
  ih_irq :: nat
  ih_handler :: cptr
  ih_ntfn :: cptr
  ih_callback :: nat
  ih_data :: nat

record irq_dispatch =
  id_irq_control :: cptr
  id_ntfn :: cptr
  id_flag_bits :: u64
  id_ident_bits :: u64
  id_allocated :: "u64 list"
  id_handlers :: "irq_handler_info option list"

record ntfn_dispatch =
  nd_irq_control :: cptr
  nd_ntfn :: "cptr \<times> nat"
  nd_flag_bits :: u64
  nd_ident_bits :: u64
  nd_allocated :: "u64 list"
  nd_badged :: "cptr option list"
  nd_irq_handlers :: "cptr option list"

definition irq_dispatch_new :: "cptr \<Rightarrow> cptr \<Rightarrow> u64 \<Rightarrow> u64 \<Rightarrow> irq_dispatch" where
  "irq_dispatch_new irq_control ntfn flag_bits ident_bits =
     \<lparr>id_irq_control = irq_control, id_ntfn = ntfn, id_flag_bits = flag_bits, id_ident_bits = ident_bits,
      id_allocated = [NOT ident_bits], id_handlers = replicate 64 None\<rparr>"

definition ntfn_dispatch_new :: "cptr \<Rightarrow> cptr \<times> nat \<Rightarrow> u64 \<Rightarrow> u64 \<Rightarrow> ntfn_dispatch" where
  "ntfn_dispatch_new irq_control ntfn flag_bits ident_bits =
     \<lparr>nd_irq_control = irq_control, nd_ntfn = ntfn, nd_flag_bits = flag_bits, nd_ident_bits = ident_bits,
      nd_allocated = [NOT ident_bits], nd_badged = replicate 64 None, nd_irq_handlers = replicate 64 None\<rparr>"

text \<open>\<open>alloc_irq_bit\<close> and \<open>alloc_ntfn_bit\<close>, \<open>free_irq_bit\<close> and \<open>free_ntfn_bit\<close> are the same code
  on the field \<open>allocated_bits\<close> of the two dispatchers.\<close>

definition alloc_bit :: "(u64 list, sel4_error, nat) op" where
  "alloc_bit bf =
     (case bf_first_free bf of
        Ok i \<Rightarrow> (case (bf_set_bit bf i :: (unit, u64 list) outcome) of Ok bf' \<Rightarrow> (Ok i, bf') | _ \<Rightarrow> (Panic, bf))
      | Err _ \<Rightarrow> (Err NotEnoughMemory, bf)
      | Panic \<Rightarrow> (Panic, bf))"

definition free_bit :: "nat \<Rightarrow> (u64 list, 'e, unit) op" where
  "free_bit i bf =
     (case bf_clr_bit bf i :: ('e, u64 list) outcome of
        Ok bf' \<Rightarrow> (Ok (), bf') | Err e \<Rightarrow> (Err e, bf) | Panic \<Rightarrow> (Panic, bf))"

definition alloc_irq_bit :: "(irq_dispatch, sel4_error, nat) op" where
  "alloc_irq_bit = on_part id_allocated id_allocated_update alloc_bit"

definition free_irq_bit :: "nat \<Rightarrow> (irq_dispatch, 'e, unit) op" where
  "free_irq_bit i = on_part id_allocated id_allocated_update (free_bit i)"

definition alloc_ntfn_bit :: "(ntfn_dispatch, sel4_error, nat) op" where
  "alloc_ntfn_bit = on_part nd_allocated nd_allocated_update alloc_bit"

definition free_ntfn_bit :: "nat \<Rightarrow> (ntfn_dispatch, 'e, unit) op" where
  "free_ntfn_bit i = on_part nd_allocated nd_allocated_update (free_bit i)"

text \<open>An operation of a dispatcher works on it and on the root server's resources.\<close>

definition in_disp :: "('d, 'e, 'a) op \<Rightarrow> ('d \<times> 'k resources, 'e, 'a) op" where
  "in_disp = on_part fst apfst"

definition in_res :: "('k resources, 'e, 'a) op \<Rightarrow> ('d \<times> 'k resources, 'e, 'a) op" where
  "in_res = on_part snd apsnd"

definition rs_mint :: "'k sel4 \<Rightarrow> cptr \<Rightarrow> cptr \<Rightarrow> cap_rights \<Rightarrow> u64 \<Rightarrow> ('k, unit) rs_op" where
  "rs_mint K dst src rights badge =
     bnd (gets rs_cs) (\<lambda>cs. kern_call (k_cnode_mint K (cs_absolute cs dst) (cs_absolute cs src) rights badge))"

definition rs_irq_control_get :: "'k sel4 \<Rightarrow> cptr \<Rightarrow> nat \<Rightarrow> bool \<Rightarrow> ('k, cptr) rs_op" where
  "rs_irq_control_get K slot irq edge = in_kern (cs_irq_control_get K slot irq edge)"

abbreviation res_alloc_slot :: "('d \<times> 'k resources, sel4_error, nat) op" where
  "res_alloc_slot \<equiv> in_res (in_cs cs_alloc_slot)"

abbreviation res_free_slot :: "cptr \<Rightarrow> ('d \<times> 'k resources, 'e, unit) op" where
  "res_free_slot c \<equiv> in_res (in_cs (cs_free_slot c))"

section \<open>The root server's interrupts\<close>

text \<open>\<open>handle_irq\<close>'s loop, with the call-back applied to the state of the world; \<open>None\<close> is a loop
  that does not end, \<open>Some None\<close> is the panic of \<open>expect\<close>.\<close>

definition run_callback :: "(nat \<Rightarrow> nat \<Rightarrow> nat \<Rightarrow> cptr \<Rightarrow> 'w \<Rightarrow> 'w) \<Rightarrow> irq_handler_info \<Rightarrow> 'w \<Rightarrow> 'w" where
  "run_callback cb h = cb (ih_callback h) (ih_data h) (ih_irq h) (ih_handler h)"

partial_function (option) handle_irq_loop ::
  "(nat \<Rightarrow> nat \<Rightarrow> nat \<Rightarrow> cptr \<Rightarrow> 'w \<Rightarrow> 'w) \<Rightarrow> irq_handler_info option list \<Rightarrow> u64 \<Rightarrow> u64 \<Rightarrow> 'w \<Rightarrow>
   (u64 option \<times> 'w) option" where
  "handle_irq_loop cb handlers unchecked badge w =
     (if unchecked = 0 then Some (Some badge, w)
      else let i = trailing_zeros unchecked in
        case handlers ! i of
          None \<Rightarrow> Some (None, w)
        | Some h \<Rightarrow>
            let badge' = badge AND NOT (2 ^ i) in
            handle_irq_loop cb handlers (unchecked AND NOT badge') badge' (run_callback cb h w))"

definition handle_irq ::
  "(nat \<Rightarrow> nat \<Rightarrow> nat \<Rightarrow> cptr \<Rightarrow> 'w \<Rightarrow> 'w) \<Rightarrow> irq_dispatch \<Rightarrow> u64 \<Rightarrow> 'w \<Rightarrow> (u64 option \<times> 'w) option" where
  "handle_irq cb d badge =
     handle_irq_loop cb (id_handlers d) (badge AND id_allocated d ! 0 AND id_ident_bits d) badge"

definition register_irq_handler ::
  "'k sel4 \<Rightarrow> nat \<Rightarrow> bool \<Rightarrow> nat \<Rightarrow> nat \<Rightarrow> cptr \<Rightarrow> (irq_dispatch \<times> 'k resources, sel4_error, cptr) op" where
  "register_irq_handler K irq edge_triggered callback data irq_ntfn =
     bnd (in_disp alloc_irq_bit) (\<lambda>ident_bit.
     let free_id = in_disp (free_irq_bit ident_bit) in
     bnd (undo_on_err res_alloc_slot free_id) (\<lambda>handler_cptr.
     bnd (undo_on_err res_alloc_slot (seq (res_free_slot handler_cptr) free_id)) (\<lambda>ntfn_cptr.
     let free_slots = seq (res_free_slot ntfn_cptr) (seq (res_free_slot handler_cptr) free_id) in
     bnd (undo_on_err (in_res (rs_irq_control_get K handler_cptr irq edge_triggered)) free_slots) (\<lambda>handler.
     bnd (gets fst) (\<lambda>d.
     bnd (undo_on_err
            (in_res (rs_mint K ntfn_cptr irq_ntfn rights_write_only (id_flag_bits d OR 2 ^ ident_bit)))
            (bnd (attempt (in_res (rs_delete K handler_cptr))) (\<lambda>_. free_slots))) (\<lambda>_.
     bnd (undo_on_err (in_res (kern_call (k_irq_set_notification K handler ntfn_cptr)))
            (bnd (attempt (in_res (rs_delete K ntfn_cptr))) (\<lambda>_.
             bnd (attempt (in_res (rs_delete K handler_cptr))) (\<lambda>_. free_slots)))) (\<lambda>_.
     bnd (in_disp (modify (\<lambda>d. d\<lparr>id_handlers := (id_handlers d)[ident_bit := Some
            \<lparr>ih_irq = irq, ih_handler = handler, ih_ntfn = ntfn_cptr, ih_callback = callback, ih_data = data\<rparr>]\<rparr>))) (\<lambda>_.
     ret handler))))))))"

section \<open>A server's notifications\<close>

definition ntfn_register :: "'k sel4 \<Rightarrow> (ntfn_dispatch \<times> 'k resources, InvocationError, nat \<times> cptr) op" where
  "ntfn_register K =
     bnd (on_err (in_disp alloc_ntfn_bit) (\<lambda>_. fail InsufficientResources)) (\<lambda>ident_bit.
     bnd (on_err res_alloc_slot
            (\<lambda>_. seq (in_disp (free_ntfn_bit ident_bit)) (fail InsufficientResources))) (\<lambda>ntfn.
     bnd (gets fst) (\<lambda>d.
     bnd (expect (in_res (rs_mint K ntfn (fst (nd_ntfn d)) rights_write_only (nd_flag_bits d OR 2 ^ ident_bit)))) (\<lambda>_.
     bnd (in_disp (modify (\<lambda>d. d\<lparr>nd_badged := (nd_badged d)[ident_bit := Some ntfn]\<rparr>))) (\<lambda>_.
     ret (ident_bit, ntfn))))))"

definition irq_register_bit ::
  "'k sel4 \<Rightarrow> nat \<Rightarrow> bool \<Rightarrow> (ntfn_dispatch \<times> 'k resources, InvocationError, nat \<times> cptr) op" where
  "irq_register_bit K irq_num edge_triggered =
     bnd (on_err (in_disp alloc_ntfn_bit) (\<lambda>_. fail InsufficientResources)) (\<lambda>ident_bit.
     let free_id = in_disp (free_ntfn_bit ident_bit) in
     bnd (on_err res_alloc_slot (\<lambda>_. seq free_id (fail InsufficientResources))) (\<lambda>handler_cptr.
     bnd (on_err res_alloc_slot
            (\<lambda>_. seq (res_free_slot handler_cptr) (seq free_id (fail InsufficientResources)))) (\<lambda>ntfn.
     bnd (on_err (in_res (rs_irq_control_get K handler_cptr irq_num edge_triggered))
            (\<lambda>_. seq (res_free_slot ntfn) (seq (res_free_slot handler_cptr)
                   (seq free_id (fail InsufficientResources))))) (\<lambda>handler.
     bnd (gets fst) (\<lambda>d.
     bnd (expect (in_res (rs_mint K ntfn (fst (nd_ntfn d)) rights_write_only (nd_flag_bits d OR 2 ^ ident_bit)))) (\<lambda>_.
     bnd (on_err (in_res (kern_call (k_irq_set_notification K handler ntfn)))
            (\<lambda>_. seq (expect (in_res (rs_delete K ntfn))) (seq (expect (in_res (rs_delete K handler)))
                   (seq (res_free_slot ntfn) (seq (res_free_slot handler)
                   (seq free_id (fail InvalidArguments))))))) (\<lambda>_.
     bnd (in_disp (modify (\<lambda>d. d\<lparr>nd_badged := (nd_badged d)[ident_bit := Some ntfn],
            nd_irq_handlers := (nd_irq_handlers d)[ident_bit := Some handler]\<rparr>))) (\<lambda>_.
     ret (ident_bit, handler)))))))))"

definition rs_badged_ntfn :: "ntfn_dispatch \<Rightarrow> ('e, cptr) outcome" where
  "rs_badged_ntfn d =
     obind (rust_assert (nd_badged d ! 0 \<noteq> None)) (\<lambda>_.
     obind (rust_assert (nd_irq_handlers d ! 0 = None)) (\<lambda>_. unwrap (nd_badged d ! 0)))"

definition drop_cap :: "'k sel4 \<Rightarrow> cptr option \<Rightarrow> ('k, unit) rs_op" where
  "drop_cap K c = (case c of None \<Rightarrow> ret () | Some c \<Rightarrow> seq (expect (rs_delete K c)) (in_cs (cs_free_slot c)))"

definition ntfn_dispatch_destroy :: "'k sel4 \<Rightarrow> ntfn_dispatch \<Rightarrow> ('k, unit) rs_op" where
  "ntfn_dispatch_destroy K d =
     seq (for_each (drop_cap K) (nd_badged d))
    (seq (for_each (drop_cap K) (nd_irq_handlers d))
         (dealloc_retyped K (nd_ntfn d)))"

section \<open>Badge bits\<close>

lemma alloc_bit_cases:
  assumes "length bf = 1"
  obtains (full) "alloc_bit bf = (Err NotEnoughMemory, bf)" "bits_of bf = {..<64}"
  | (free) i where "alloc_bit bf = (Ok i, bf_or_bit bf i)" "i < 64" "i \<notin> bits_of bf" "\<forall>j<i. j \<in> bits_of bf"
      "bits_of (bf_or_bit bf i) = insert i (bits_of bf)" "length (bf_or_bit bf i) = Suc 0"
proof (cases bf rule: bf_first_free_cases)
  case full
  then show ?thesis using assms that(1) by (simp add: alloc_bit_def)
next
  case (free i)
  then show ?thesis using assms that(2) by (simp add: alloc_bit_def)
qed

lemma free_bit_run: "length bf = 1 \<Longrightarrow> i < 64 \<Longrightarrow> free_bit i bf = (Ok (), bf_andnot_bit bf i)"
  by (simp add: free_bit_def)

lemma alloc_ntfn_bit_run: "alloc_ntfn_bit d = (case alloc_bit (nd_allocated d) of (r, bf) \<Rightarrow> (r, d\<lparr>nd_allocated := bf\<rparr>))"
  by (simp add: alloc_ntfn_bit_def on_part_def)

lemma alloc_irq_bit_run: "alloc_irq_bit d = (case alloc_bit (id_allocated d) of (r, bf) \<Rightarrow> (r, d\<lparr>id_allocated := bf\<rparr>))"
  by (simp add: alloc_irq_bit_def on_part_def)

interpretation ntfn_bits: slot_allocator alloc_ntfn_bit free_ntfn_bit "\<lambda>d. bits_of (nd_allocated d)" "{..<64}" "{..<64}"
    "\<lambda>d. length (nd_allocated d) = 1"
proof unfold_locales
  fix d :: ntfn_dispatch and i t assume "length (nd_allocated d) = 1" "alloc_ntfn_bit d = (Ok i, t)"
  then show "i \<in> {..<64} - bits_of (nd_allocated d) \<and> bits_of (nd_allocated t) = insert i (bits_of (nd_allocated d)) \<and>
      length (nd_allocated t) = 1"
    by (cases "nd_allocated d" rule: alloc_bit_cases) (auto simp: alloc_ntfn_bit_run)
next
  fix d :: ntfn_dispatch and i t j
  assume "length (nd_allocated d) = 1" "alloc_ntfn_bit d = (Ok i, t)" "j < i"
  then show "j \<in> bits_of (nd_allocated d)"
    by (cases "nd_allocated d" rule: alloc_bit_cases) (auto simp: alloc_ntfn_bit_run)
next
  fix d :: ntfn_dispatch and r t assume "length (nd_allocated d) = 1" "alloc_ntfn_bit d = (r, t)" "\<forall>i. r \<noteq> Ok i"
  then show "t = d \<and> {..<64} \<subseteq> bits_of (nd_allocated d)"
    by (cases "nd_allocated d" rule: alloc_bit_cases) (auto simp: alloc_ntfn_bit_run)
next
  fix d :: ntfn_dispatch and i assume "length (nd_allocated d) = 1" "i \<in> {..<64::nat}"
  then show "\<exists>t. free_ntfn_bit i d = (Ok (), t) \<and> bits_of (nd_allocated t) = bits_of (nd_allocated d) - {i} \<and>
      length (nd_allocated t) = 1"
    by (simp add: free_ntfn_bit_def on_part_def free_bit_run)
qed auto

interpretation irq_bits: slot_allocator alloc_irq_bit free_irq_bit "\<lambda>d. bits_of (id_allocated d)" "{..<64}" "{..<64}"
    "\<lambda>d. length (id_allocated d) = 1"
proof unfold_locales
  fix d :: irq_dispatch and i t assume "length (id_allocated d) = 1" "alloc_irq_bit d = (Ok i, t)"
  then show "i \<in> {..<64} - bits_of (id_allocated d) \<and> bits_of (id_allocated t) = insert i (bits_of (id_allocated d)) \<and>
      length (id_allocated t) = 1"
    by (cases "id_allocated d" rule: alloc_bit_cases) (auto simp: alloc_irq_bit_run)
next
  fix d :: irq_dispatch and i t j
  assume "length (id_allocated d) = 1" "alloc_irq_bit d = (Ok i, t)" "j < i"
  then show "j \<in> bits_of (id_allocated d)"
    by (cases "id_allocated d" rule: alloc_bit_cases) (auto simp: alloc_irq_bit_run)
next
  fix d :: irq_dispatch and r t assume "length (id_allocated d) = 1" "alloc_irq_bit d = (r, t)" "\<forall>i. r \<noteq> Ok i"
  then show "t = d \<and> {..<64} \<subseteq> bits_of (id_allocated d)"
    by (cases "id_allocated d" rule: alloc_bit_cases) (auto simp: alloc_irq_bit_run)
next
  fix d :: irq_dispatch and i assume "length (id_allocated d) = 1" "i \<in> {..<64::nat}"
  then show "\<exists>t. free_irq_bit i d = (Ok (), t) \<and> bits_of (id_allocated t) = bits_of (id_allocated d) - {i} \<and>
      length (id_allocated t) = 1"
    by (simp add: free_irq_bit_def on_part_def free_bit_run)
qed auto

lemma bits_of_single: "bits_of [w] = {n. bit (w::u64) n}"
proof -
  have "n \<in> bits_of [w] \<longleftrightarrow> bit w n" for n
    by (cases "n < 64") (auto simp: bits_of_def WORD_INDEX_def BIT_INDEX_def WORD_BITS_def dest: bit_imp_le_length)
  then show ?thesis by blast
qed

text \<open>Releasing the bit just taken restores the word.\<close>

lemma andnot_or_bit:
  assumes "length bf = 1" and "i < 64" and "i \<notin> bits_of bf"
  shows "bf_andnot_bit (bf_or_bit bf i) i = bf"
proof -
  obtain w where w: "bf = [w]" using assms(1) by (cases bf) auto
  let ?bf = "bf_andnot_bit (bf_or_bit bf i) i"
  have "length ?bf = 1" using assms(1) by simp
  then obtain v where v: "?bf = [v]" by (cases ?bf) auto
  have "bits_of ?bf = bits_of bf" using assms by simp
  then have "bits_of [v] = bits_of [w]" unfolding v unfolding w .
  then have "v = w" unfolding bits_of_single by (intro bit_eqI) auto
  then show ?thesis using v w by simp
qed

section \<open>Registration\<close>

text \<open>The dispatcher's books: a bit is taken exactly when it is no identification bit or has a
  notification; an interrupt handler comes with one.\<close>

definition nd_inv :: "ntfn_dispatch \<Rightarrow> bool" where
  "nd_inv d \<longleftrightarrow> length (nd_allocated d) = 1 \<and> length (nd_badged d) = 64 \<and> length (nd_irq_handlers d) = 64 \<and>
     (\<forall>i<64. i \<in> bits_of (nd_allocated d) \<longleftrightarrow> \<not> bit (nd_ident_bits d) i \<or> nd_badged d ! i \<noteq> None) \<and>
     (\<forall>i<64. nd_irq_handlers d ! i \<noteq> None \<longrightarrow> nd_badged d ! i \<noteq> None)"

lemma nd_inv_new: "nd_inv (ntfn_dispatch_new c n f (ident :: u64))"
  by (auto simp: nd_inv_def ntfn_dispatch_new_def bits_of_single bit_not_iff possible_bit_def)

definition nd_taken :: "ntfn_dispatch \<Rightarrow> nat \<Rightarrow> ntfn_dispatch" where
  "nd_taken d i = d\<lparr>nd_allocated := bf_or_bit (nd_allocated d) i\<rparr>"

definition nd_free :: "ntfn_dispatch \<Rightarrow> nat \<Rightarrow> bool" where
  "nd_free d i \<longleftrightarrow> i < 64 \<and> i \<notin> bits_of (nd_allocated d)"

lemma in_disp_alloc_triple:
  assumes "nd_inv d"
  shows "triple (\<lambda>s. fst s = d) (in_disp alloc_ntfn_bit) (\<lambda>i s. nd_free d i \<and> fst s = nd_taken d i) (\<lambda>s. fst s = d)"
proof -
  have "length (nd_allocated d) = 1" using assms by (simp add: nd_inv_def)
  then show ?thesis
    by (cases "nd_allocated d" rule: alloc_bit_cases)
      (auto simp: triple_def in_disp_def on_part_def alloc_ntfn_bit_run nd_free_def nd_taken_def apfst_def)
qed

lemma in_disp_free_triple:
  assumes "nd_inv d" and "nd_free d i"
  shows "triple (\<lambda>s. fst s = nd_taken d i) (in_disp (free_ntfn_bit i)) (\<lambda>_ s. fst s = d) E"
proof -
  have "length (nd_allocated d) = 1" using assms(1) by (simp add: nd_inv_def)
  then show ?thesis using assms(2)
    by (auto simp: triple_def in_disp_def on_part_def free_ntfn_bit_def free_bit_run nd_taken_def nd_free_def
        andnot_or_bit apfst_def)
qed

lemma in_res_keeps: "triple (\<lambda>s. P (fst s)) (in_res m) (\<lambda>_ s. P (fst s)) (\<lambda>s. P (fst s))"
  by (auto simp: triple_def in_res_def on_part_def split: prod.splits outcome.splits)

lemma expect_keeps: "triple P m (\<lambda>_. P) P \<Longrightarrow> triple P (expect m) (\<lambda>_. P) E"
  unfolding expect_def by (rule triple_on_err [OF _ triple_panic])

text \<open>The state after a registration of bit \<open>i\<close>.\<close>

definition nd_registered :: "ntfn_dispatch \<Rightarrow> nat \<Rightarrow> cptr \<Rightarrow> cptr option \<Rightarrow> ntfn_dispatch" where
  "nd_registered d i ntfn handler = d\<lparr>nd_allocated := bf_or_bit (nd_allocated d) i, nd_badged := (nd_badged d)[i := Some ntfn],
     nd_irq_handlers := (case handler of None \<Rightarrow> nd_irq_handlers d | Some h \<Rightarrow> (nd_irq_handlers d)[i := Some h])\<rparr>"

text \<open>A mint of a write-only copy of \<open>src\<close> with badge \<open>w\<close> into \<open>dst\<close> that the kernel has carried out.\<close>

definition minted :: "'k sel4 \<Rightarrow> cptr \<Rightarrow> cptr \<Rightarrow> u64 \<Rightarrow> bool" where
  "minted K src dst w \<longleftrightarrow>
     (\<exists>cs k k'. k_cnode_mint K (cs_absolute cs dst) (cs_absolute cs src) rights_write_only w k = (None, k'))"

lemma mint_triple:
  "triple (\<lambda>s. P (fst s)) (expect (in_res (rs_mint K dst src rights_write_only w))) (\<lambda>_ s. minted K src dst w \<and> P (fst s)) E"
  unfolding minted_def
  by (auto simp: triple_def expect_def on_err_def in_res_def in_kern_def on_part_def rs_mint_def kern_call_def kresult_def panic_def
      split: prod.splits outcome.splits option.splits)

lemma ntfn_register_triple:
  assumes I: "nd_inv d"
  shows "triple (\<lambda>s. fst s = d) (ntfn_register K)
    (\<lambda>(i, c) s. nd_free d i \<and> fst s = nd_registered d i c None \<and>
      minted K (fst (nd_ntfn d)) c (nd_flag_bits d OR 2 ^ i)) (\<lambda>s. fst s = d)"
proof -
  have rest: "triple (\<lambda>s. fst s = nd_taken d i)
     (bnd (on_err res_alloc_slot
            (\<lambda>_. seq (in_disp (free_ntfn_bit i)) (fail InsufficientResources))) (\<lambda>ntfn.
      bnd (gets fst) (\<lambda>d.
      bnd (expect (in_res (rs_mint K ntfn (fst (nd_ntfn d)) rights_write_only (nd_flag_bits d OR 2 ^ i)))) (\<lambda>_.
      bnd (in_disp (modify (\<lambda>d. d\<lparr>nd_badged := (nd_badged d)[i := Some ntfn]\<rparr>))) (\<lambda>_.
      ret (i, ntfn))))))
     (\<lambda>(i, c) s. nd_free d i \<and> fst s = nd_registered d i c None \<and>
      minted K (fst (nd_ntfn d)) c (nd_flag_bits d OR 2 ^ i)) (\<lambda>s. fst s = d)" if f: "nd_free d i" for i
    by (intro triple_bnd [OF triple_on_err [OF in_res_keeps]] triple_seq [OF in_disp_free_triple [OF I f]] triple_fail
        triple_bnd [OF mint_triple] triple_pure
        triple_bnd [where R = "\<lambda>e s. e = nd_taken d i \<and> fst s = nd_taken d i", OF triple_gets])
      (auto simp: triple_def bnd_def in_disp_def on_part_def modify_def ret_def apfst_def f nd_registered_def nd_taken_def)
  show ?thesis
    unfolding ntfn_register_def
    by (rule triple_bnd [OF triple_on_err [OF in_disp_alloc_triple [OF I] triple_fail]])
      (auto intro!: triple_pure rest)
qed

lemma cs_free_slot_no_err: "cs_free_slot c cs \<noteq> (Err e, t)"
  by (auto simp: cs_free_slot_def clr_top_bit_def free_bot_slot_def bf_clr_bit_def get_bot_lvl_node_def bnd_def Let_def
      unwrap_def split: option.splits)

lemma irq_register_triple:
  assumes I: "nd_inv d"
  shows "triple (\<lambda>s. fst s = d) (irq_register_bit K irq edge)
    (\<lambda>(i, h) s. nd_free d i \<and> (\<exists>c. fst s = nd_registered d i c (Some h) \<and>
      minted K (fst (nd_ntfn d)) c (nd_flag_bits d OR 2 ^ i))) (\<lambda>s. fst s = d)"
proof -
  let ?Q = "\<lambda>(i, h) s. nd_free d i \<and> (\<exists>c. fst s = nd_registered d i c (Some h) \<and>
      minted K (fst (nd_ntfn d)) c (nd_flag_bits d OR 2 ^ i))"
  have rest: "triple (\<lambda>s. fst s = nd_taken d i)
     (bnd (on_err res_alloc_slot (\<lambda>_. seq (in_disp (free_ntfn_bit i)) (fail InsufficientResources))) (\<lambda>handler_cptr.
      bnd (on_err res_alloc_slot
            (\<lambda>_. seq (res_free_slot handler_cptr) (seq (in_disp (free_ntfn_bit i)) (fail InsufficientResources)))) (\<lambda>ntfn.
      bnd (on_err (in_res (rs_irq_control_get K handler_cptr irq edge))
            (\<lambda>_. seq (res_free_slot ntfn) (seq (res_free_slot handler_cptr)
                   (seq (in_disp (free_ntfn_bit i)) (fail InsufficientResources))))) (\<lambda>handler.
      bnd (gets fst) (\<lambda>d.
      bnd (expect (in_res (rs_mint K ntfn (fst (nd_ntfn d)) rights_write_only (nd_flag_bits d OR 2 ^ i)))) (\<lambda>_.
      bnd (on_err (in_res (kern_call (k_irq_set_notification K handler ntfn)))
            (\<lambda>_. seq (expect (in_res (rs_delete K ntfn))) (seq (expect (in_res (rs_delete K handler)))
                   (seq (res_free_slot ntfn) (seq (res_free_slot handler)
                   (seq (in_disp (free_ntfn_bit i)) (fail InvalidArguments))))))) (\<lambda>_.
      bnd (in_disp (modify (\<lambda>d. d\<lparr>nd_badged := (nd_badged d)[i := Some ntfn],
            nd_irq_handlers := (nd_irq_handlers d)[i := Some handler]\<rparr>))) (\<lambda>_.
      ret (i, handler))))))))) ?Q (\<lambda>s. fst s = d)" if f: "nd_free d i" for i
  proof -
    have undo: "triple (\<lambda>s. fst s = nd_taken d i) (seq (in_disp (free_ntfn_bit i)) (fail e)) Q (\<lambda>s. fst s = d)" for e Q
      by (rule triple_seq [OF in_disp_free_triple [OF I f] triple_fail]) simp
    have keep: "triple (\<lambda>s. fst s = nd_taken d i) (res_free_slot c) (\<lambda>_ s. fst s = nd_taken d i) (\<lambda>s. fst s = d)" for c
      by (auto simp: triple_def in_res_def in_cs_def on_part_def cs_free_slot_no_err split: prod.splits outcome.splits)
    have del: "triple (\<lambda>s. fst s = nd_taken d i) (expect (in_res (rs_delete K c))) (\<lambda>_ s. fst s = nd_taken d i) (\<lambda>s. fst s = d)" for c
      by (rule expect_keeps [OF in_res_keeps])
    show ?thesis
      by (intro triple_bnd [OF triple_on_err [OF in_res_keeps]] undo triple_seq [OF keep] triple_seq [OF del]
          triple_bnd [OF mint_triple] triple_pure
          triple_bnd [where R = "\<lambda>e s. e = nd_taken d i \<and> fst s = nd_taken d i", OF triple_gets])
        (auto simp: triple_def bnd_def in_disp_def on_part_def modify_def ret_def apfst_def f nd_registered_def nd_taken_def)
  qed
  show ?thesis
    unfolding irq_register_bit_def Let_def
    by (rule triple_bnd [OF triple_on_err [OF in_disp_alloc_triple [OF I] triple_fail]])
      (auto intro!: triple_pure rest)
qed

lemma nd_inv_registered:
  assumes "nd_inv d" and "nd_free d i"
  shows "nd_inv (nd_registered d i c h)"
  using assms by (auto simp: nd_inv_def nd_registered_def nd_free_def nth_list_update split: option.splits)

section \<open>Sequences of registrations\<close>

text \<open>A server's sources, registered one after the other: the bits of those that succeed.\<close>

datatype ntfn_source = Signal | Interrupt nat bool

fun register_source :: "'k sel4 \<Rightarrow> ntfn_source \<Rightarrow> (ntfn_dispatch \<times> 'k resources, InvocationError, nat \<times> cptr) op" where
  "register_source K Signal = ntfn_register K"
| "register_source K (Interrupt irq edge) = irq_register_bit K irq edge"

fun register_all :: "'k sel4 \<Rightarrow> ntfn_source list \<Rightarrow> (ntfn_dispatch \<times> 'k resources, InvocationError, nat list) op" where
  "register_all K [] = ret []"
| "register_all K (q # qs) =
     bnd (attempt (register_source K q)) (\<lambda>r. bnd (register_all K qs) (\<lambda>is.
     ret (case r of Ok (i, _) \<Rightarrow> i # is | _ \<Rightarrow> is)))"

text \<open>What a dispatcher says of the sources \<open>I\<close>: each has its badged copy of the notification.\<close>

definition badged :: "'k sel4 \<Rightarrow> ntfn_dispatch \<Rightarrow> nat set \<Rightarrow> bool" where
  "badged K d I \<longleftrightarrow> (\<forall>i\<in>I. \<exists>c. nd_badged d ! i = Some c \<and> minted K (fst (nd_ntfn d)) c (nd_flag_bits d OR 2 ^ i))"

lemma register_source_Ok:
  assumes I: "nd_inv d" and run: "register_source K q (d, s) = (Ok (i, x), (d', t))"
  shows "nd_free d i \<and> (\<exists>c h. d' = nd_registered d i c h \<and> minted K (fst (nd_ntfn d)) c (nd_flag_bits d OR 2 ^ i))"
proof (cases q)
  case Signal
  then show ?thesis
    using tripleD(1) [OF ntfn_register_triple [OF I], of "(d, s)" K "(i, x)" "(d', t)"] run by auto
next
  case (Interrupt irq edge)
  then show ?thesis
    using tripleD(1) [OF irq_register_triple [OF I], of "(d, s)" K irq edge "(i, x)" "(d', t)"] run by auto
qed

lemma register_source_Err:
  assumes I: "nd_inv d" and run: "register_source K q (d, s) = (Err e, (d', t))"
  shows "d' = d"
  using tripleD(2) [OF ntfn_register_triple [OF I], of "(d, s)" K e "(d', t)"]
    tripleD(2) [OF irq_register_triple [OF I], of "(d, s)" K _ _ e "(d', t)"] run by (cases q) auto

lemma register_all_spec:
  assumes "nd_inv d" and "register_all K qs (d, s) = (Ok is, (d', t))"
  shows "distinct is \<and> (\<forall>i \<in> set is. i < 64 \<and> bit (nd_ident_bits d) i \<and> nd_badged d ! i = None) \<and>
    nd_ntfn d' = nd_ntfn d \<and> nd_flag_bits d' = nd_flag_bits d \<and> badged K d' (set is) \<and>
    (\<forall>i. nd_badged d ! i \<noteq> None \<longrightarrow> nd_badged d' ! i = nd_badged d ! i)"
  using assms(1,2)
proof (induction qs arbitrary: d s "is")
  case Nil
  then show ?case by (auto simp: badged_def op_run)
next
  case (Cons q qs)
  obtain r d1 s1 where r: "register_source K q (d, s) = (r, (d1, s1))" by (metis prod.collapse)
  show ?case
  proof (cases r)
    case (Ok x)
    obtain i c where x: "x = (i, c)" by fastforce
    obtain js where js: "is = i # js" "register_all K qs (d1, s1) = (Ok js, (d', t))"
      using Cons.prems(2) r Ok x by (auto simp: bnd_eq_Ok attempt_def op_run)
    obtain c h where f: "nd_free d i" and d1: "d1 = nd_registered d i c h"
        and m: "minted K (fst (nd_ntfn d)) c (nd_flag_bits d OR 2 ^ i)"
      using register_source_Ok [OF Cons.prems(1)] r Ok x by blast
    note IH = Cons.IH [OF nd_inv_registered [OF Cons.prems(1) f, of c h, folded d1] js(2)]
    have i: "i < 64" "bit (nd_ident_bits d) i" "nd_badged d ! i = None" "i < length (nd_badged d)"
      using Cons.prems(1) f by (auto simp: nd_inv_def nd_free_def)
    have reg: "nd_ntfn d1 = nd_ntfn d" "nd_flag_bits d1 = nd_flag_bits d" "nd_ident_bits d1 = nd_ident_bits d"
        "nd_badged d1 = (nd_badged d)[i := Some c]"
      by (simp_all add: d1 nd_registered_def split: option.split)
    have keep: "nd_badged d' ! i = Some c" using IH i(4) reg(4) by auto
    have "nd_badged d ! j = None" if "nd_badged d1 ! j = None" for j using that i(3) reg(4) by (cases "j = i") auto
    moreover have "nd_badged d' ! j = nd_badged d ! j" if "nd_badged d ! j \<noteq> None" for j
      using that IH i(3) reg(4) by (cases "j = i") auto
    moreover have "i \<notin> set js" using IH i(4) reg(4) by force
    moreover have "badged K d' (insert i (set js))" using IH keep m reg by (auto simp: badged_def)
    ultimately show ?thesis using IH i reg by (auto simp: js(1))
  next
    case (Err e)
    then have "register_all K qs (d, s1) = (Ok is, (d', t))"
      using Cons.prems(2) r by (auto simp: bnd_eq_Ok attempt_def op_run dest: register_source_Err [OF Cons.prems(1)])
    then show ?thesis using Cons.IH Cons.prems(1) by blast
  next
    case Panic
    then show ?thesis using Cons.prems(2) r by (simp add: bnd_def attempt_def)
  qed
qed

lemma badges_decode:
  assumes js: "js \<noteq> []" "set js \<subseteq> {..<63}"
  shows "\<exists>w. decode_entry_type (foldr (\<lambda>i w. (NTFN_BIT OR 2 ^ i) OR w) js 0) =
      (Ok (Notification w) :: (unit, EntryType) outcome) \<and> set (ntfn_bits w) = set js \<and> sorted_wrt (<) (ntfn_bits w)"
proof -
  let ?w = "foldr (\<lambda>i w. (NTFN_BIT OR 2 ^ i) OR w) js 0"
  have w: "bit (foldr (\<lambda>i w. (NTFN_BIT OR 2 ^ i) OR w) ks 0) n \<longleftrightarrow> (ks \<noteq> [] \<and> n = 63) \<or> n \<in> set ks"
    if "set ks \<subseteq> {..<63}" for ks n
    using that by (induction ks) (auto simp: bit_or_iff bit_NTFN_BIT bit_word_exp)
  have n: "bit (?w AND NOT NTFN_BIT) n \<longleftrightarrow> n \<in> set js" for n
    using js(2) by (auto simp: bit_and_iff bit_not_iff bit_NTFN_BIT possible_bit_def w [OF js(2)])
  have "decode_entry_type ?w = (Ok (Notification (?w AND NOT NTFN_BIT)) :: (unit, EntryType) outcome)"
    using w [OF js(2), of 63] js(1) by (simp add: decode_entry_type_eq)
  moreover have "set (ntfn_bits (?w AND NOT NTFN_BIT)) = set js \<and> sorted_wrt (<) (ntfn_bits (?w AND NOT NTFN_BIT))"
    using ntfn_bits_spec [of "?w AND NOT NTFN_BIT"] by (simp add: n)
  ultimately show ?thesis by blast
qed

section \<open>Destruction\<close>

definition deletes_succeed :: "'k sel4 \<Rightarrow> bool" where
  "deletes_succeed K \<longleftrightarrow> (\<forall>a k. fst (k_cnode_delete K a k) = None)"

lemma rs_delete_run:
  assumes "deletes_succeed K"
  obtains k where "rs_delete K c s = (Ok (), s\<lparr>rs_kern := k\<rparr>)"
proof -
  obtain k where "k_cnode_delete K (cs_absolute (rs_cs s) c) (rs_kern s) = (None, k)"
    using assms unfolding deletes_succeed_def by (metis prod.collapse)
  then show ?thesis using that by (simp add: rs_delete_def in_kern_def on_part_def cs_delete_def)
qed

text \<open>Slots are released from the root server's two-level CSpace.\<close>

definition slots_freed :: "nat \<Rightarrow> nat set \<Rightarrow> nat set \<Rightarrow> 'k resources \<Rightarrow> 'k resources \<Rightarrow> bool" where
  "slots_freed N S C s t \<longleftrightarrow> two_level_inv N S (rs_cs t) \<and> two_level_used N (rs_cs t) = two_level_used N (rs_cs s) - C \<and>
     rs_ut t = rs_ut s"

lemma slots_freed_trans: "slots_freed N S C s t \<Longrightarrow> slots_freed N S D t u \<Longrightarrow> slots_freed N S (C \<union> D) s u"
  by (auto simp: slots_freed_def)

lemma drop_cap_run:
  assumes K: "deletes_succeed K" and I: "two_level_inv N S (rs_cs s)" and c: "set_option c \<subseteq> two_level_slots N S - {0}"
  shows "\<exists>t. drop_cap K c s = (Ok () :: (sel4_error, unit) outcome, t) \<and> slots_freed N S (set_option c) s t"
proof (cases c)
  case None
  then show ?thesis using I by (simp add: drop_cap_def op_run slots_freed_def)
next
  case (Some x)
  obtain k where k: "rs_delete K x s = (Ok (), s\<lparr>rs_kern := k\<rparr>)" by (rule rs_delete_run [OF K])
  obtain cs where cs: "cs_free_slot x (rs_cs s) = (Ok () :: (sel4_error, unit) outcome, cs)"
      "two_level_used N cs = two_level_used N (rs_cs s) - {x}" "two_level_inv N S cs"
    using two_level.release_Ok [OF I, of x] c Some by auto
  show ?thesis
    using k cs Some by (simp add: drop_cap_def seq_def bnd_def expect_def on_err_def in_cs_def on_part_def slots_freed_def)
qed

lemma drop_caps_run:
  assumes K: "deletes_succeed K" and "two_level_inv N S (rs_cs s)"
    and "\<forall>c \<in> set cs. set_option c \<subseteq> two_level_slots N S - {0}"
  shows "\<exists>t. for_each (drop_cap K) cs s = (Ok () :: (sel4_error, unit) outcome, t) \<and>
    slots_freed N S (\<Union>c \<in> set cs. set_option c) s t"
  using assms(2,3)
proof (induction cs arbitrary: s)
  case Nil
  then show ?case by (simp add: op_run slots_freed_def)
next
  case (Cons c cs)
  obtain u where u: "drop_cap K c s = (Ok () :: (sel4_error, unit) outcome, u)" "slots_freed N S (set_option c) s u"
    using drop_cap_run [OF K Cons.prems(1), of c] Cons.prems(2) by auto
  obtain t where t: "for_each (drop_cap K) cs u = (Ok () :: (sel4_error, unit) outcome, t)"
      "slots_freed N S (\<Union>c \<in> set cs. set_option c) u t"
    using Cons.IH [of u] u(2) Cons.prems(2) by (auto simp: slots_freed_def)
  show ?case using u(1) t(1) slots_freed_trans [OF u(2) t(2)] by (auto simp: bnd_def)
qed

text \<open>\<open>dealloc_retyped\<close> of an object that is owned.\<close>

lemma dealloc_retyped_run:
  assumes K: "deletes_succeed K" and I: "two_level_inv N S (rs_cs s)" and c: "c \<in> two_level_slots N S - {0}"
    and W: "ut_inv W (rs_ut s)" "W p = Some (cap, sb)" "4 \<le> sb" "sb \<le> 12"
  shows "\<exists>t. dealloc_retyped K (c, p) s = (Ok () :: (sel4_error, unit) outcome, t) \<and>
    two_level_inv N S (rs_cs t) \<and> two_level_used N (rs_cs t) = two_level_used N (rs_cs s) - {c} \<and>
    ut_inv (W(p := None)) (rs_ut t)"
proof -
  obtain t where t: "drop_cap K (Some c) s = (Ok () :: (sel4_error, unit) outcome, t)" "slots_freed N S {c} s t"
    using drop_cap_run [OF K I, of "Some c"] c by auto
  then have ut: "rs_ut t = rs_ut s" by (simp add: slots_freed_def)
  obtain r T where T: "ut_free_op p (rs_ut s) = (r :: (sel4_error, unit) outcome, T)" by fastforce
  have sz: "ut_size_bits (ut_heap (rs_ut s) p) = sb" using ut_inv_owned [OF W(1,2)] by simp
  obtain F where R: "ut_rep (ut_next_vaddr (rs_ut s)) W F (rs_ut s)" using W(1) by (auto simp: ut_inv_def ut_inv_below_def)
  have "fst (push_untyped sb p (rs_ut s) :: (sel4_error, unit) outcome \<times> ut_table) = Ok ()"
    using sz W(3,4) by (subst push_untyped_run [OF R]) simp_all
  then have r: "r = Ok ()" using T sz by (simp add: ut_free_op_def)
  have "ut_inv (W(p := None)) T"
    using tripleD(1) [OF ut_free_op_triple, of W p] T r W by (metis)
  moreover have "dealloc_retyped K (c, p) s = in_ut (ut_free_op p) t"
    using t(1) by (simp add: dealloc_retyped_def drop_cap_def seq_def bnd_def expect_def on_err_def split: prod.splits outcome.splits)
  ultimately show ?thesis using t(2) T r ut by (simp add: in_ut_def on_part_def slots_freed_def)
qed

section \<open>Properties\<close>

text \<open>C21: A registration takes a free identification bit for its source and records its
  capabilities there; the other sources keep theirs.  A registration that fails, at whatever step,
  leaves the dispatcher as it was: the bit is free again.\<close>

theorem registration_books:
  assumes I: "nd_inv d" and m: "m = ntfn_register K \<or> m = irq_register_bit K irq edge"
    and run: "m (d, s) = (r, (d', t))"
  shows "case r of
      Ok (i, c) \<Rightarrow> i < 64 \<and> bit (nd_ident_bits d) i \<and> nd_badged d ! i = None \<and> nd_badged d' ! i \<noteq> None \<and>
        (\<forall>j. j \<noteq> i \<longrightarrow> nd_badged d' ! j = nd_badged d ! j \<and> nd_irq_handlers d' ! j = nd_irq_handlers d ! j) \<and>
        nd_inv d'
    | Err e \<Rightarrow> d' = d
    | Panic \<Rightarrow> True"
proof (cases r)
  case (Ok x)
  obtain i c where x: "x = (i, c)" by fastforce
  have "nd_free d i \<and> (\<exists>ntfn h. d' = nd_registered d i ntfn h)"
    using m
  proof
    assume "m = ntfn_register K"
    then show ?thesis using tripleD(1) [OF ntfn_register_triple [OF I], of "(d, s)" K x "(d', t)"] run Ok x by auto
  next
    assume "m = irq_register_bit K irq edge"
    then show ?thesis using tripleD(1) [OF irq_register_triple [OF I], of "(d, s)" K irq edge x "(d', t)"] run Ok x by auto
  qed
  then obtain ntfn h where f: "nd_free d i" and d': "d' = nd_registered d i ntfn h" by blast
  have "bit (nd_ident_bits d) i" "nd_badged d ! i = None" "i < length (nd_badged d)"
    using I f by (auto simp: nd_inv_def nd_free_def)
  then show ?thesis using Ok x f nd_inv_registered [OF I f, of ntfn h]
    by (auto simp: d' nd_free_def nd_registered_def split: option.splits)
next
  case (Err e)
  show ?thesis
    using m Err run tripleD(2) [OF ntfn_register_triple [OF I], of "(d, s)" K e "(d', t)"]
      tripleD(2) [OF irq_register_triple [OF I], of "(d, s)" K irq edge e "(d', t)"] by auto
qed simp

text \<open>A dispatcher of a server, with no source registered.\<close>

definition server_dispatch :: ntfn_dispatch where
  "server_dispatch = ntfn_dispatch_new 4 (300, 2000) NTFN_BIT IRQ_IDENT_BADGE_BITS"

lemma bit_IDENT: "bit IRQ_IDENT_BADGE_BITS n \<longleftrightarrow> n < 63"
proof -
  have "IRQ_IDENT_BADGE_BITS = (mask 63 :: u64)" by (simp add: IRQ_IDENT_BADGE_BITS_def mask_eq_exp_minus_1)
  show ?thesis unfolding \<open>IRQ_IDENT_BADGE_BITS = (mask 63 :: u64)\<close> by (auto simp: bit_mask_iff possible_bit_def)
qed

lemma server_bits: "bits_of (nd_allocated server_dispatch) = {63}"
proof -
  have "bit (NOT IRQ_IDENT_BADGE_BITS) n \<longleftrightarrow> n = 63" for n
    unfolding bit_not_iff bit_IDENT possible_bit_def by auto
  then show ?thesis by (simp add: server_dispatch_def ntfn_dispatch_new_def bits_of_single)
qed

lemma server_alloc: "alloc_ntfn_bit server_dispatch = (Ok 0, nd_taken server_dispatch 0)"
proof -
  have "length (nd_allocated server_dispatch) = 1" by (simp add: server_dispatch_def ntfn_dispatch_new_def)
  then show ?thesis
  proof (cases "nd_allocated server_dispatch" rule: alloc_bit_cases)
    case full
    have "(0::nat) \<in> {63}" using full(2) unfolding server_bits by auto
    then show ?thesis by simp
  next
    case (free i)
    have "i = 0"
    proof (rule ccontr)
      assume "i \<noteq> 0"
      then have "(0::nat) \<in> {63}" using free(4) unfolding server_bits by blast
      then show False by simp
    qed
    then show ?thesis using free(1) by (simp add: alloc_ntfn_bit_run nd_taken_def)
  qed
qed

theorem registration_books_witness:
  "\<exists>d' t. ntfn_register counting_kernel (server_dispatch, small_resources) = (Ok (0, 0), (d', t)) \<and>
    nd_badged d' ! 0 \<noteq> None \<and> nd_inv d'"
proof -
  have I: "nd_inv server_dispatch" unfolding server_dispatch_def by (rule nd_inv_new)
  have "fst (ntfn_register counting_kernel (server_dispatch, small_resources)) = Ok (0, 0)"
    by (simp add: ntfn_register_def bnd_def on_err_def expect_def in_disp_def in_res_def on_part_def server_alloc op_run
        in_cs_def small_resources_def cs_taken_alloc rs_mint_def kern_call_def in_kern_def counting_kernel_def)
  then obtain d' t where r: "ntfn_register counting_kernel (server_dispatch, small_resources) = (Ok (0, 0), (d', t))"
    by (metis prod.collapse)
  then show ?thesis
    using registration_books [where d = server_dispatch and m = "ntfn_register counting_kernel" and K = counting_kernel
        and s = small_resources and r = "Ok (0, 0)" and d' = d' and t = t] I by auto
qed

text \<open>C22: The badges the registrations mint identify their sources.  Whatever sources a server registers one
  after the other with a dispatcher of the servers' flag and identification bits (registrations that fail
  are passed over), the bits of those registered are distinct, each has in the dispatcher a copy of the
  notification that the kernel minted with a badge such that when the union of the badges of any of
  the sources is delivered, the server decodes it as a notification whose iterator yields exactly
  those sources, each once and in order.\<close>

theorem badges_identify_sources:
  assumes I: "nd_inv d" and conf: "nd_flag_bits d = NTFN_BIT" "nd_ident_bits d = IRQ_IDENT_BADGE_BITS"
    and run: "register_all K qs (d, s) = (Ok is, (d', t))"
  shows "distinct is \<and> (\<exists>badge.
    (\<forall>i\<in>set is. \<exists>c. nd_badged d' ! i = Some c \<and> minted K (fst (nd_ntfn d)) c (badge i)) \<and>
    (\<forall>js. js \<noteq> [] \<and> set js \<subseteq> set is \<longrightarrow>
      (\<exists>w. decode_entry_type (foldr (\<lambda>i w. badge i OR w) js 0) = (Ok (Notification w) :: (unit, EntryType) outcome) \<and>
         set (ntfn_bits w) = set js \<and> sorted_wrt (<) (ntfn_bits w))))"
proof -
  note spec = register_all_spec [OF I run]
  have "set js \<subseteq> {..<63}" if "set js \<subseteq> set is" for js
    using that spec by (auto simp: conf(2) bit_IDENT)
  with badges_decode spec show ?thesis
    by (intro conjI exI [of _ "\<lambda>i. NTFN_BIT OR 2 ^ i"]) (auto simp: badged_def conf(1))
qed

lemma alloc_ntfn_bit_least:
  assumes "length (nd_allocated d) = 1" and "i < 64" "i \<notin> bits_of (nd_allocated d)" "\<forall>j<i. j \<in> bits_of (nd_allocated d)"
  shows "alloc_ntfn_bit d = (Ok i, nd_taken d i)"
  using assms(1)
proof (cases "nd_allocated d" rule: alloc_bit_cases)
  case full
  then show ?thesis using assms(2,3) by simp
next
  case (free j)
  then have "j = i" using assms(3,4) by (metis linorder_neqE_nat)
  then show ?thesis using free(1) by (simp add: alloc_ntfn_bit_run nd_taken_def)
qed

definition one_source :: ntfn_dispatch where
  "one_source = nd_registered server_dispatch 0 0 None"

definition two_sources :: ntfn_dispatch where
  "two_sources = nd_registered one_source 1 2 (Some 1)"

lemma one_source_alloc: "alloc_ntfn_bit one_source = (Ok 1, nd_taken one_source 1)"
proof (rule alloc_ntfn_bit_least)
  have len: "length (nd_allocated server_dispatch) = 1" by (simp add: server_dispatch_def ntfn_dispatch_new_def)
  then show "length (nd_allocated one_source) = 1" by (simp add: one_source_def nd_registered_def)
  have "bits_of (nd_allocated one_source) = {0, 63}" using len by (simp add: one_source_def nd_registered_def server_bits)
  then show "1 \<notin> bits_of (nd_allocated one_source)" "\<forall>j<1. j \<in> bits_of (nd_allocated one_source)" by simp_all
qed simp

lemma server_register_all:
  "\<exists>t. register_all counting_kernel [Signal, Interrupt 40 False] (server_dispatch, small_resources) = (Ok [0, 1], (two_sources, t))"
proof -
  have "\<exists>s. register_source counting_kernel Signal (server_dispatch, small_resources) =
      (Ok (0, 0), (one_source, s)) \<and> rs_cs s = cs_taken 1"
    by (simp add: ntfn_register_def bnd_def on_err_def expect_def in_disp_def in_res_def on_part_def server_alloc op_run
        in_cs_def small_resources_def cs_taken_alloc rs_mint_def kern_call_def in_kern_def counting_kernel_def
        one_source_def nd_registered_def nd_taken_def)
  then obtain s where s: "register_source counting_kernel Signal (server_dispatch, small_resources) =
      (Ok (0, 0), (one_source, s))" "rs_cs s = cs_taken 1" by blast
  have "\<exists>t. register_source counting_kernel (Interrupt 40 False) (one_source, s) =
      (Ok (1, 1), (two_sources, t))"
    by (simp add: irq_register_bit_def bnd_def on_err_def expect_def in_disp_def in_res_def on_part_def one_source_alloc op_run
        in_cs_def s(2) cs_taken_alloc rs_mint_def kern_call_def in_kern_def counting_kernel_def Let_def
        rs_irq_control_get_def cs_irq_control_get_def two_sources_def nd_registered_def nd_taken_def numeral_2_eq_2)
  then show ?thesis using s(1) by (auto simp: bnd_def attempt_def op_run)
qed

theorem badges_identify_sources_witness:
  "\<exists>badge. (\<exists>c. nd_badged two_sources ! 1 = Some c \<and> minted counting_kernel 300 c (badge (1::nat))) \<and>
    (\<exists>w. decode_entry_type (badge 0 OR badge 1) = (Ok (Notification w) :: (unit, EntryType) outcome) \<and> set (ntfn_bits w) = {0, 1})"
proof -
  have d: "nd_inv server_dispatch" "nd_flag_bits server_dispatch = NTFN_BIT"
      "nd_ident_bits server_dispatch = IRQ_IDENT_BADGE_BITS" "nd_ntfn server_dispatch = (300, 2000)"
    by (simp_all add: server_dispatch_def nd_inv_new) (simp_all add: ntfn_dispatch_new_def)
  obtain t where "register_all counting_kernel [Signal, Interrupt 40 False] (server_dispatch, small_resources) = (Ok [0, 1], (two_sources, t))"
    using server_register_all by blast
  from badges_identify_sources [OF d(1,2,3) this] obtain badge where b:
      "\<forall>i\<in>{0, 1}. \<exists>c. nd_badged two_sources ! i = Some c \<and> minted counting_kernel 300 c (badge i)"
      "\<forall>js. js \<noteq> [] \<and> set js \<subseteq> {0, 1} \<longrightarrow>
        (\<exists>w. decode_entry_type (foldr (\<lambda>i w. badge i OR w) js 0) = (Ok (Notification w) :: (unit, EntryType) outcome) \<and>
         set (ntfn_bits w) = set js \<and> sorted_wrt (<) (ntfn_bits w))"
    by (auto simp: d(4))
  from b(2) [rule_format, of "[0, 1]"] b(1) show ?thesis by auto
qed

text \<open>Once the unchecked bits are a subset of the badge, or the one bit just handled, every round
  keeps the same lowest bit.\<close>

definition stuck_at :: "nat \<Rightarrow> u64 \<Rightarrow> u64 \<Rightarrow> bool" where
  "stuck_at i u b \<longleftrightarrow> u \<noteq> 0 \<and> trailing_zeros u = i \<and>
     ((\<forall>n. bit u n \<longrightarrow> bit b n) \<or> (\<forall>n. bit u n \<longrightarrow> n = i) \<and> \<not> bit b i)"

lemma stuck_at_step:
  assumes "stuck_at i u b"
  shows "stuck_at i (u AND NOT (b AND NOT (2 ^ i))) (b AND NOT (2 ^ i))"
proof -
  let ?b = "b AND NOT (2 ^ i)"
  let ?u = "u AND NOT ?b"
  have nz: "u \<noteq> 0" and i: "i = trailing_zeros u" using assms by (auto simp: stuck_at_def)
  note tz = trailing_zeros_bit [OF nz, folded i]
  have b: "bit ?b n \<longleftrightarrow> bit b n \<and> n \<noteq> i" for n
    using tz(1) by (auto simp: bit_and_iff bit_not_iff bit_word_exp possible_bit_def dest: bit_imp_le_length)
  have u: "bit ?u n \<longleftrightarrow> n = i" for n
  proof -
    have "bit ?u n \<longleftrightarrow> bit u n \<and> \<not> bit ?b n"
      unfolding bit_and_iff [of u] bit_not_iff [of ?b] possible_bit_def by (auto dest: bit_imp_le_length)
    then have "bit ?u n \<longleftrightarrow> bit u n \<and> (n = i \<or> \<not> bit b n)" unfolding b by blast
    moreover have "(\<forall>n. bit u n \<longrightarrow> bit b n) \<or> (\<forall>n. bit u n \<longrightarrow> n = i)" using assms unfolding stuck_at_def by blast
    ultimately show ?thesis using tz(2) by blast
  qed
  then have unz: "?u \<noteq> 0" by (metis bit_0_eq bot_apply bot_bool_def)
  then have "trailing_zeros ?u = i" using trailing_zeros_bit(2) [OF unz] u by simp
  then show ?thesis using u b unz by (simp add: stuck_at_def)
qed

lemma handle_irq_loop_stuck:
  assumes "handle_irq_loop cb hs u b w = Some y"
  shows "hs ! i = None \<or> \<not> stuck_at i u b"
proof (rule handle_irq_loop.raw_induct [where P = "\<lambda>cb hs u b w y. hs ! i = None \<or> \<not> stuck_at i u b", OF _ assms])
  fix f and cb :: "nat \<Rightarrow> nat \<Rightarrow> nat \<Rightarrow> nat \<Rightarrow> 'b \<Rightarrow> 'b" and hs u b w y
  assume IH: "\<And>cb hs u b w y. f cb hs u b w = Some y \<Longrightarrow> hs ! i = None \<or> \<not> stuck_at i u b"
    and run: "(if u = 0 then Some (Some b, w)
      else let i = trailing_zeros u in case hs ! i of None \<Rightarrow> Some (None, w)
        | Some h \<Rightarrow> let badge' = b AND NOT (2 ^ i) in f cb hs (u AND NOT badge') badge' (run_callback cb h w)) = Some y"
  show "hs ! i = None \<or> \<not> stuck_at i u b"
  proof (rule ccontr)
    assume "\<not> (hs ! i = None \<or> \<not> stuck_at i u b)"
    then obtain h where h: "hs ! i = Some h" and s: "stuck_at i u b" by auto
    then have "u \<noteq> 0" "trailing_zeros u = i" by (simp_all add: stuck_at_def)
    with run h have "f cb hs (u AND NOT (b AND NOT (2 ^ i))) (b AND NOT (2 ^ i)) (run_callback cb h w) = Some y"
      by (simp add: Let_def)
    from IH [OF this] stuck_at_step [OF s] h show False by simp
  qed
qed

text \<open>C23: The root server does not survive an interrupt of its own.  When the badge contains the bit
  of a source the dispatcher allocated and its call-back is registered, \<open>handle_irq\<close> does not
  return: the loop removes from the unchecked bits those that are still to be handled and keeps
  the one just handled, which it then handles forever.\<close>

theorem handle_irq_diverges:
  assumes "badge AND id_allocated d ! 0 AND id_ident_bits d \<noteq> 0"
    and "id_handlers d ! trailing_zeros (badge AND id_allocated d ! 0 AND id_ident_bits d) \<noteq> None"
  shows "handle_irq cb d badge w = None"
proof -
  let ?u = "badge AND id_allocated d ! 0 AND id_ident_bits d"
  have "stuck_at (trailing_zeros ?u) ?u badge" using assms(1) by (simp add: stuck_at_def bit_and_iff)
  then show ?thesis
    using handle_irq_loop_stuck [where i = "trailing_zeros ?u" and u = ?u and b = badge and hs = "id_handlers d"] assms(2)
    unfolding handle_irq_def by (metis not_None_eq)
qed

theorem handle_irq_diverges_witness:
  "handle_irq (\<lambda>_ _ _ _ n. n + 1)
     ((irq_dispatch_new 4 5 NTFN_BIT IRQ_IDENT_BADGE_BITS)
       \<lparr>id_allocated := [1], id_handlers := [Some \<lparr>ih_irq = 40, ih_handler = 7, ih_ntfn = 8, ih_callback = 0, ih_data = 0\<rparr>]\<rparr>)
     1 (0 :: nat) = None"
proof (rule handle_irq_diverges)
  have "(1 :: u64) AND 1 AND IRQ_IDENT_BADGE_BITS = 1"
    by (rule bit_eqI) (auto simp: bit_and_iff bit_1_iff bit_IDENT)
  moreover have "trailing_zeros 1 = 0" using trailing_zeros_bit(2) [of 1] by (simp add: bit_1_iff)
  ultimately show "1 AND id_allocated ((irq_dispatch_new 4 5 NTFN_BIT IRQ_IDENT_BADGE_BITS)
       \<lparr>id_allocated := [1], id_handlers := [Some \<lparr>ih_irq = 40, ih_handler = 7, ih_ntfn = 8, ih_callback = 0, ih_data = 0\<rparr>]\<rparr>) ! 0 AND
      id_ident_bits ((irq_dispatch_new 4 5 NTFN_BIT IRQ_IDENT_BADGE_BITS)
       \<lparr>id_allocated := [1], id_handlers := [Some \<lparr>ih_irq = 40, ih_handler = 7, ih_ntfn = 8, ih_callback = 0, ih_data = 0\<rparr>]\<rparr>) \<noteq> 0"
    and "id_handlers ((irq_dispatch_new 4 5 NTFN_BIT IRQ_IDENT_BADGE_BITS)
       \<lparr>id_allocated := [1], id_handlers := [Some \<lparr>ih_irq = 40, ih_handler = 7, ih_ntfn = 8, ih_callback = 0, ih_data = 0\<rparr>]\<rparr>) !
      trailing_zeros (1 AND id_allocated ((irq_dispatch_new 4 5 NTFN_BIT IRQ_IDENT_BADGE_BITS)
       \<lparr>id_allocated := [1], id_handlers := [Some \<lparr>ih_irq = 40, ih_handler = 7, ih_ntfn = 8, ih_callback = 0, ih_data = 0\<rparr>]\<rparr>) ! 0 AND
      id_ident_bits ((irq_dispatch_new 4 5 NTFN_BIT IRQ_IDENT_BADGE_BITS)
       \<lparr>id_allocated := [1], id_handlers := [Some \<lparr>ih_irq = 40, ih_handler = 7, ih_ntfn = 8, ih_callback = 0, ih_data = 0\<rparr>]\<rparr>)) \<noteq> None"
    by (simp_all add: irq_dispatch_new_def)
qed

text \<open>Destroying a server's dispatcher gives everything back: every badged notification, every
  interrupt handler and the notification itself is deleted, their slots are free again and no
  other, and the notification's memory returns to the untyped lists.\<close>

lemma ntfn_dispatch_destroy_frees:
  assumes K: "deletes_succeed K" and I: "two_level_inv N S (rs_cs s)" and W: "ut_inv W (rs_ut s)"
    and ntfn: "nd_ntfn d = (c, p)" "W p = Some (cap, sb)" "4 \<le> sb" "sb \<le> 12"
    and slots: "insert c {x. Some x \<in> set (nd_badged d) \<union> set (nd_irq_handlers d)} \<subseteq> two_level_slots N S - {0}"
  shows "\<exists>t. ntfn_dispatch_destroy K d s = (Ok () :: (sel4_error, unit) outcome, t) \<and>
    two_level_inv N S (rs_cs t) \<and>
    two_level_used N (rs_cs t) =
      two_level_used N (rs_cs s) - insert c {x. Some x \<in> set (nd_badged d) \<union> set (nd_irq_handlers d)} \<and>
    ut_inv (W(p := None)) (rs_ut t)"
proof -
  let ?C = "\<lambda>cs. \<Union>c \<in> set cs. set_option c"
  have C: "?C cs = {x. Some x \<in> set cs}" for cs :: "nat option list" by (auto simp: elem_set)
  obtain t1 where t1: "for_each (drop_cap K) (nd_badged d) s = (Ok () :: (sel4_error, unit) outcome, t1)"
      "slots_freed N S (?C (nd_badged d)) s t1"
    using drop_caps_run [OF K I, of "nd_badged d"] slots by (auto simp: elem_set)
  have I1: "two_level_inv N S (rs_cs t1)" using t1(2) by (simp add: slots_freed_def)
  obtain t2 where t2: "for_each (drop_cap K) (nd_irq_handlers d) t1 = (Ok () :: (sel4_error, unit) outcome, t2)"
      "slots_freed N S (?C (nd_irq_handlers d)) t1 t2"
    using drop_caps_run [OF K I1, of "nd_irq_handlers d"] slots by (auto simp: elem_set)
  have f: "slots_freed N S (?C (nd_badged d) \<union> ?C (nd_irq_handlers d)) s t2"
    by (rule slots_freed_trans [OF t1(2) t2(2)])
  then have I2: "two_level_inv N S (rs_cs t2)" and u2: "ut_inv W (rs_ut t2)" using W by (simp_all add: slots_freed_def)
  have c: "c \<in> two_level_slots N S - {0}" using slots by simp
  obtain t where t: "dealloc_retyped K (c, p) t2 = (Ok () :: (sel4_error, unit) outcome, t)" "two_level_inv N S (rs_cs t)"
      "two_level_used N (rs_cs t) = two_level_used N (rs_cs t2) - {c}" "ut_inv (W(p := None)) (rs_ut t)"
    using dealloc_retyped_run [OF K I2 c u2 ntfn(2-4)] by blast
  have "ntfn_dispatch_destroy K d s = (Ok () :: (sel4_error, unit) outcome, t)"
    using t1(1) t2(1) t(1) ntfn(1) by (simp add: ntfn_dispatch_destroy_def seq_def bnd_def)
  moreover have "two_level_used N (rs_cs t) =
      two_level_used N (rs_cs s) - insert c {x. Some x \<in> set (nd_badged d) \<union> set (nd_irq_handlers d)}"
    using t(3) f unfolding C by (auto simp: slots_freed_def)
  ultimately show ?thesis using t(2,4) by blast
qed

text \<open>Resources with one owned 4K untyped, at 1000.\<close>

definition owned_resources :: "nat resources" where
  "owned_resources = \<lparr>rs_cs = one_cnode_cspace, rs_ut = small_ut_table\<lparr>ut_free := replicate 9 None\<rparr>, rs_kern = 0\<rparr>"

lemma owned_inv: "ut_inv [1000 \<mapsto> (1000, 12)] (rs_ut owned_resources)"
proof -
  let ?F = "\<lambda>i::nat. if i = 9 then [2000, 2032, 2064] else []"
  have "ut_rep 4096 [1000 \<mapsto> (1000, 12)] ?F (rs_ut owned_resources)"
    by (auto simp: ut_rep_def ut_lists_def ut_head_def owned_resources_def small_ut_table_def nth_replicate)
  then show ?thesis unfolding ut_inv_def ut_inv_below_def
    by (auto simp: owned_resources_def small_ut_table_def)
qed

lemma counting_deletes: "deletes_succeed counting_kernel"
  by (simp add: deletes_succeed_def counting_kernel_def)

lemma ntfn_dispatch_destroy_frees_witness:
  "\<exists>t. ntfn_dispatch_destroy counting_kernel
      ((ntfn_dispatch_new 4 (12, 1000) NTFN_BIT IRQ_IDENT_BADGE_BITS)\<lparr>nd_badged := [Some 10, Some 9], nd_irq_handlers := [None, Some 11]\<rparr>)
      owned_resources = (Ok () :: (sel4_error, unit) outcome, t) \<and> ut_inv Map.empty (rs_ut t)"
proof -
  let ?d = "(ntfn_dispatch_new 4 (12, 1000) NTFN_BIT IRQ_IDENT_BADGE_BITS)\<lparr>nd_badged := [Some 10, Some 9], nd_irq_handlers := [None, Some 11]\<rparr>"
  have I: "two_level_inv 1 {} (rs_cs owned_resources)" using one_cnode_inv by (simp add: owned_resources_def)
  have e: "[1000 \<mapsto> (1000, 12)](1000 := None) = (Map.empty :: nat \<rightharpoonup> nat \<times> nat)" by simp
  have n: "nd_ntfn ?d = (12, 1000)" "[1000 \<mapsto> (1000, 12)] 1000 = Some (1000::nat, 12::nat)" "(4::nat) \<le> 12" "(12::nat) \<le> 12"
    by (simp_all add: ntfn_dispatch_new_def)
  have "insert 12 {x. Some x \<in> set (nd_badged ?d) \<union> set (nd_irq_handlers ?d)} \<subseteq> two_level_slots 1 {} - {0}"
    unfolding one_cnode_slots by (auto simp: ntfn_dispatch_new_def)
  from ntfn_dispatch_destroy_frees [OF counting_deletes I owned_inv n this] show ?thesis unfolding e by blast
qed

end
