(* ===== verification/Handles.thy ===== *)
theory Handles
  imports Protocol
begin

text \<open>
  Handle tables: \<open>crates/smos-server/src/handle.rs\<close> and \<open>handle_capability.rs\<close>.  A local
  handle is an index into a client's table, a handle capability a badge that is an index into
  the server's table of handle capabilities.  Both tables implement one contract, the locale
  \<open>handle_table\<close>: an allocator of free indices with entries that stay put until they are
  cleaned up.  \<open>ServerHandle\<close> is a one-field wrapper and is left out.
\<close>

section \<open>Local handles\<close>

type_synonym 'a htable = "'a option list"

text \<open>The index the \<open>for\<close> loop stops at; the reference to the slot is that index.\<close>

definition allocate_handle :: "'a htable \<Rightarrow> (InvocationError, nat) outcome" where
  "allocate_handle tbl =
     (case List.find (\<lambda>i. tbl ! i = None) [0..<length tbl] of
        Some i \<Rightarrow> Ok i | None \<Rightarrow> Err OutOfHandles)"

text \<open>The bound check of \<open>get_handle\<close>, \<open>get_handle_mut\<close> and \<open>cleanup_handle\<close> lets
  \<open>idx = size\<close> through, where the index panics.\<close>

definition get_handle :: "nat \<Rightarrow> 'a htable \<Rightarrow> (unit, 'a option) outcome" where
  "get_handle idx tbl =
     (if idx > length tbl then Err () else if idx < length tbl then Ok (tbl ! idx) else Panic)"

definition get_handle_mut :: "nat \<Rightarrow> 'a htable \<Rightarrow> (unit, nat) outcome" where
  "get_handle_mut idx tbl =
     (if idx > length tbl then Err () else if idx < length tbl then Ok idx else Panic)"

definition cleanup_handle :: "nat \<Rightarrow> ('a htable, unit, unit) op" where
  "cleanup_handle idx tbl =
     (if idx > length tbl then (Err (), tbl)
      else if idx < length tbl then (Ok (), tbl[idx := None]) else (Panic, tbl))"

text \<open>\<open>*handle_ref = Some(x)\<close> for the reference an allocation returned.\<close>

definition put_handle :: "nat \<Rightarrow> 'a \<Rightarrow> 'a htable \<Rightarrow> 'a htable" where
  "put_handle i x tbl = tbl[i := Some x]"

section \<open>Handle capabilities\<close>

record 'a HandleCapability =
  hc_handle :: "'a option"
  hc_root_cap :: "abs_cptr option"

type_synonym 'a hctable = "'a HandleCapability list"

definition allocate_handle_cap ::
  "'a hctable \<Rightarrow> (InvocationError, nat \<times> abs_cptr option) outcome" where
  "allocate_handle_cap slots =
     (case List.find (\<lambda>i. hc_handle (slots ! i) = None) [0..<length slots] of
        Some i \<Rightarrow> Ok (i, hc_root_cap (slots ! i)) | None \<Rightarrow> Err OutOfHandleCaps)"

definition get_handle_cap_mut :: "nat \<Rightarrow> 'a hctable \<Rightarrow> (unit, nat) outcome" where
  "get_handle_cap_mut idx slots = (if idx \<ge> length slots then Err () else Ok idx)"

definition put_handle_cap :: "nat \<Rightarrow> 'a \<Rightarrow> 'a hctable \<Rightarrow> 'a hctable" where
  "put_handle_cap i x slots = slots[i := (slots ! i)\<lparr>hc_handle := Some x\<rparr>]"

definition clear_handle_cap :: "nat \<Rightarrow> 'a hctable \<Rightarrow> 'a hctable" where
  "clear_handle_cap i slots = slots[i := (slots ! i)\<lparr>hc_handle := None\<rparr>]"

definition cleanup_handle_cap ::
  "'k sel4 \<Rightarrow> nat \<Rightarrow> ('a hctable \<times> 'k, unit, unit) op" where
  "cleanup_handle_cap K idx st =
     (case st of (slots, k) \<Rightarrow>
      if idx \<ge> length slots then (Err (), st)
      else case hc_root_cap (slots ! idx) of
             None \<Rightarrow> (Panic, st)
           | Some c \<Rightarrow>
               (case k_cnode_revoke K c k of
                  (None, k') \<Rightarrow> (Ok (), (clear_handle_cap idx slots, k'))
                | (Some _, k') \<Rightarrow> (Panic, (slots, k'))))"

section \<open>Both kinds of handle\<close>

text \<open>The place a handle argument stands for, and the reads and writes through the reference.\<close>

datatype hplace = Local nat | Cap nat

type_synonym 'a htables = "'a htable \<times> 'a hctable"

fun read_place :: "hplace \<Rightarrow> 'a htables \<Rightarrow> 'a option" where
  "read_place (Local i) (tbl, slots) = tbl ! i"
| "read_place (Cap i) (tbl, slots) = hc_handle (slots ! i)"

fun write_place :: "hplace \<Rightarrow> 'a \<Rightarrow> 'a htables \<Rightarrow> 'a htables" where
  "write_place (Local i) x (tbl, slots) = (put_handle i x tbl, slots)"
| "write_place (Cap i) x (tbl, slots) = (tbl, put_handle_cap i x slots)"

definition generic_allocate_handle ::
  "'a htables \<Rightarrow> bool \<Rightarrow> (InvocationError, nat \<times> hplace \<times> abs_cptr option) outcome" where
  "generic_allocate_handle ts return_cap =
     (case ts of (tbl, slots) \<Rightarrow>
      if return_cap
      then obind (allocate_handle_cap slots) (\<lambda>(i, c). Ok (i, Cap i, c))
      else obind (allocate_handle tbl) (\<lambda>i. Ok (i, Local i, None)))"

definition generic_get_handle ::
  "'a htables \<Rightarrow> ServerReceivedHandleOrHandleCap \<Rightarrow> u64 \<Rightarrow> (InvocationError, hplace) outcome" where
  "generic_get_handle ts hndl which =
     (case ts of (tbl, slots) \<Rightarrow>
      case hndl of
        ReceivedHandle x \<Rightarrow>
          obind (map_err (\<lambda>_. InvalidHandle which) (get_handle_mut (unat x) tbl)) (\<lambda>i. Ok (Local i))
      | UnwrappedHandleCap x \<Rightarrow>
          obind (map_err (\<lambda>_. InvalidHandleCapability which) (get_handle_cap_mut (unat x) slots))
            (\<lambda>i. Ok (Cap i))
      | WrappedHandleCap _ \<Rightarrow> Panic)"

fun generic_invalid_handle_error ::
  "ServerReceivedHandleOrHandleCap \<Rightarrow> u64 \<Rightarrow> ('e, InvocationError) outcome" where
  "generic_invalid_handle_error (ReceivedHandle _) which = Ok (InvalidHandle which)"
| "generic_invalid_handle_error (UnwrappedHandleCap _) which = Ok (InvalidHandleCapability which)"
| "generic_invalid_handle_error (WrappedHandleCap _) which = Panic"

definition generic_cleanup_handle ::
  "'k sel4 \<Rightarrow> ServerReceivedHandleOrHandleCap \<Rightarrow> u64 \<Rightarrow>
   ('a htables \<times> 'k, InvocationError, unit) op" where
  "generic_cleanup_handle K hndl which st =
     (case st of ((tbl, slots), k) \<Rightarrow>
      case hndl of
        ReceivedHandle x \<Rightarrow>
          (case cleanup_handle (unat x) tbl of
             (r, tbl') \<Rightarrow> (map_err (\<lambda>_. InvalidHandle which) r, ((tbl', slots), k)))
      | UnwrappedHandleCap x \<Rightarrow>
          (case cleanup_handle_cap K (unat x) (slots, k) of
             (r, (slots', k')) \<Rightarrow>
               (map_err (\<lambda>_. InvalidHandleCapability which) r, ((tbl, slots'), k')))
      | WrappedHandleCap _ \<Rightarrow> (Panic, st))"

section \<open>The contract\<close>

text \<open>Opening and closing handles, over any table; and on the map they stand for, where the
  lowest free index below the capacity is taken.\<close>

datatype 'a hop = Open 'a | Close nat

fun handle_run ::
  "('t \<Rightarrow> (InvocationError, nat) outcome) \<Rightarrow> (nat \<Rightarrow> 'a \<Rightarrow> 't \<Rightarrow> 't) \<Rightarrow> (nat \<Rightarrow> 't \<Rightarrow> 't) \<Rightarrow>
   'a hop list \<Rightarrow> 't \<Rightarrow> nat option list \<times> 't" where
  "handle_run alloc put clear [] t = ([], t)"
| "handle_run alloc put clear (Open x # hs) t =
     (case alloc t of
        Ok i \<Rightarrow> (case handle_run alloc put clear hs (put i x t) of (rs, t') \<Rightarrow> (Some i # rs, t'))
      | _ \<Rightarrow> (case handle_run alloc put clear hs t of (rs, t') \<Rightarrow> (None # rs, t')))"
| "handle_run alloc put clear (Close i # hs) t = handle_run alloc put clear hs (clear i t)"

definition lowest_free :: "nat \<Rightarrow> (nat \<Rightarrow> 'a option) \<Rightarrow> nat option" where
  "lowest_free n m = List.find (\<lambda>i. m i = None) [0..<n]"

fun spec_run :: "nat \<Rightarrow> 'a hop list \<Rightarrow> (nat \<Rightarrow> 'a option) \<Rightarrow> nat option list \<times> (nat \<Rightarrow> 'a option)" where
  "spec_run n [] m = ([], m)"
| "spec_run n (Open x # hs) m =
     (case lowest_free n m of
        Some i \<Rightarrow> (case spec_run n hs (m(i \<mapsto> x)) of (rs, m') \<Rightarrow> (Some i # rs, m'))
      | None \<Rightarrow> (case spec_run n hs m of (rs, m') \<Rightarrow> (None # rs, m')))"
| "spec_run n (Close i # hs) m = spec_run n hs (m(i := None))"

lemma lowest_free_Some:
  "lowest_free n m = Some i \<longleftrightarrow> i < n \<and> m i = None \<and> (\<forall>j<i. m j \<noteq> None)"
proof
  assume "lowest_free n m = Some i"
  then show "i < n \<and> m i = None \<and> (\<forall>j<i. m j \<noteq> None)"
    by (auto simp: lowest_free_def find_Some_iff)
next
  assume "i < n \<and> m i = None \<and> (\<forall>j<i. m j \<noteq> None)"
  then show "lowest_free n m = Some i"
    unfolding lowest_free_def find_Some_iff by (intro exI [of _ i]) auto
qed

lemma lowest_free_None: "lowest_free n m = None \<longleftrightarrow> (\<forall>i<n. m i \<noteq> None)"
  by (auto simp: lowest_free_def find_None_iff)

locale handle_table =
  fixes capacity :: "'t \<Rightarrow> nat"
    and entry :: "'t \<Rightarrow> nat \<Rightarrow> 'a option"
    and alloc :: "'t \<Rightarrow> (InvocationError, nat) outcome"
    and put :: "nat \<Rightarrow> 'a \<Rightarrow> 't \<Rightarrow> 't"
    and clear :: "nat \<Rightarrow> 't \<Rightarrow> 't"
  assumes alloc_lowest: "alloc t = Ok i \<longleftrightarrow> lowest_free (capacity t) (entry t) = Some i"
    and alloc_no_panic: "alloc t \<noteq> Panic"
    and put_capacity: "capacity (put i x t) = capacity t"
    and clear_capacity: "capacity (clear i t) = capacity t"
    and put_entry: "i < capacity t \<Longrightarrow> entry (put i x t) = (entry t)(i \<mapsto> x)"
    and clear_entry: "i < capacity t \<Longrightarrow> entry (clear i t) = (entry t)(i := None)"
begin

lemma alloc_full: "alloc t = Err e \<Longrightarrow> lowest_free (capacity t) (entry t) = None"
  using alloc_lowest [of t] by (cases "lowest_free (capacity t) (entry t)") auto

text \<open>A handle just opened is fresh, is found under its index and disturbs no other.\<close>

lemma open_fresh:
  assumes "alloc t = Ok i"
  shows "i < capacity t" "entry t i = None" "entry (put i x t) i = Some x"
    "j \<noteq> i \<Longrightarrow> entry (put i x t) j = entry t j"
  using assms put_entry [of i t x] by (auto simp: alloc_lowest lowest_free_Some)

text \<open>Any sequence of operations does to the table what it does to the map.\<close>

lemma run_refines:
  assumes "\<And>i. Close i \<in> set hs \<Longrightarrow> i < capacity t"
  shows "fst (handle_run alloc put clear hs t) = fst (spec_run (capacity t) hs (entry t)) \<and>
    entry (snd (handle_run alloc put clear hs t)) = snd (spec_run (capacity t) hs (entry t)) \<and>
    capacity (snd (handle_run alloc put clear hs t)) = capacity t"
  using assms
proof (induction hs arbitrary: t)
  case (Cons h hs)
  show ?case
  proof (cases h)
    case (Close i)
    then have e: "entry (clear i t) = (entry t)(i := None)" using Cons.prems by (simp add: clear_entry)
    show ?thesis using Cons.IH [of "clear i t", unfolded e clear_capacity] Cons.prems Close
      by (simp del: fun_upd_apply)
  next
    case (Open x)
    show ?thesis
    proof (cases "alloc t")
      case (Ok i)
      then have lf: "lowest_free (capacity t) (entry t) = Some i" by (simp add: alloc_lowest)
      then have "i < capacity t" by (simp add: lowest_free_Some)
      then have e: "entry (put i x t) = (entry t)(i \<mapsto> x)" by (rule put_entry)
      show ?thesis using Cons.IH [of "put i x t", unfolded e put_capacity] Cons.prems Open Ok lf
        by (auto simp del: fun_upd_apply split: prod.splits)
    next
      case (Err e)
      then show ?thesis using Cons.IH [of t] Cons.prems Open alloc_full [OF Err]
        by (auto split: prod.splits)
    qed (simp add: alloc_no_panic)
  qed
qed simp

end

section \<open>The providers\<close>

definition handle_entry :: "'a htable \<Rightarrow> nat \<Rightarrow> 'a option" where
  "handle_entry tbl i = (if i < length tbl then tbl ! i else None)"

definition clear_handle :: "nat \<Rightarrow> 'a htable \<Rightarrow> 'a htable" where
  "clear_handle i tbl = snd (cleanup_handle i tbl)"

definition cap_entry :: "'a hctable \<Rightarrow> nat \<Rightarrow> 'a option" where
  "cap_entry slots i = (if i < length slots then hc_handle (slots ! i) else None)"

definition allocate_handle_cap_index :: "'a hctable \<Rightarrow> (InvocationError, nat) outcome" where
  "allocate_handle_cap_index slots = obind (allocate_handle_cap slots) (\<lambda>(i, _). Ok i)"

lemma find_entry:
  assumes "\<And>i. i < n \<Longrightarrow> f i = g i"
  shows "List.find (\<lambda>i. f i = None) [0..<n] = lowest_free n g"
proof -
  have "List.find (\<lambda>i. f i = None) xs = List.find (\<lambda>i. g i = None) xs" if "set xs \<subseteq> {..<n}" for xs
    using that assms by (induction xs) auto
  from this [of "[0..<n]"] show ?thesis by (simp add: lowest_free_def subset_iff)
qed

interpretation local_handles: handle_table length handle_entry allocate_handle put_handle clear_handle
proof unfold_locales
  fix tbl :: "'a htable"
  have f: "List.find (\<lambda>i. tbl ! i = None) [0..<length tbl] = lowest_free (length tbl) (handle_entry tbl)"
    by (rule find_entry) (simp add: handle_entry_def)
  show "allocate_handle tbl = Ok i \<longleftrightarrow> lowest_free (length tbl) (handle_entry tbl) = Some i" for i
    by (simp add: allocate_handle_def f split: option.splits)
  show "allocate_handle tbl \<noteq> Panic"
    by (simp add: allocate_handle_def split: option.splits)
qed (auto simp: put_handle_def clear_handle_def cleanup_handle_def handle_entry_def fun_eq_iff nth_list_update)

interpretation cap_handles:
  handle_table length cap_entry allocate_handle_cap_index put_handle_cap clear_handle_cap
proof unfold_locales
  fix slots :: "'a hctable"
  have f: "List.find (\<lambda>i. hc_handle (slots ! i) = None) [0..<length slots] =
      lowest_free (length slots) (cap_entry slots)"
    by (rule find_entry) (simp add: cap_entry_def)
  show "allocate_handle_cap_index slots = Ok i \<longleftrightarrow>
      lowest_free (length slots) (cap_entry slots) = Some i" for i
    by (simp add: allocate_handle_cap_index_def allocate_handle_cap_def f split: option.splits)
  show "allocate_handle_cap_index slots \<noteq> Panic"
    by (simp add: allocate_handle_cap_index_def allocate_handle_cap_def split: option.splits)
qed (auto simp: put_handle_cap_def clear_handle_cap_def cap_entry_def fun_eq_iff nth_list_update)

text \<open>The capabilities stay with their slots.\<close>

lemma handle_cap_roots [simp]:
  "List.map hc_root_cap (put_handle_cap i x slots) = List.map hc_root_cap slots"
  "List.map hc_root_cap (clear_handle_cap i slots) = List.map hc_root_cap slots"
  by (cases "i < length slots";
      auto simp: put_handle_cap_def clear_handle_cap_def list_eq_iff_nth_eq nth_list_update)+

lemma handle_run_roots:
  "List.map hc_root_cap
     (snd (handle_run allocate_handle_cap_index put_handle_cap clear_handle_cap hs slots)) =
   List.map hc_root_cap slots"
proof (induction hs arbitrary: slots)
  case (Cons h hs)
  show ?case
  proof (cases h)
    case (Open x)
    then show ?thesis
      using Cons.IH [of slots] Cons.IH [of "put_handle_cap i x slots" for i]
      by (cases "allocate_handle_cap_index slots") (simp_all add: split_def)
  next
    case (Close i)
    then show ?thesis using Cons.IH [of "clear_handle_cap i slots"] by simp
  qed
qed simp

lemma generic_allocate_resolves:
  assumes "generic_allocate_handle ts return_cap = Ok (idx, pl, c)" and "idx < usize_lim"
  shows "generic_get_handle (write_place pl x ts)
      (if return_cap then UnwrappedHandleCap (of_nat idx) else ReceivedHandle (of_nat idx)) which = Ok pl \<and>
    read_place pl ts = None \<and> read_place pl (write_place pl x ts) = Some x \<and>
    (pl' \<noteq> pl \<longrightarrow> read_place pl' (write_place pl x ts) = read_place pl' ts)"
proof -
  obtain tbl slots where ts: "ts = (tbl, slots)" by (cases ts)
  have u: "unat (of_nat idx :: u64) = idx" using assms(2) by (simp add: unat_of_nat take_bit_nat_eq_self)
  show ?thesis
  proof (cases return_cap)
    case True
    then have a: "allocate_handle_cap_index slots = Ok idx" "pl = Cap idx"
      using assms(1) by (auto simp: ts generic_allocate_handle_def allocate_handle_cap_index_def obind_eq_Ok)
    then show ?thesis using cap_handles.open_fresh [OF a(1)] True u
      by (cases pl')
        (auto simp: ts generic_get_handle_def get_handle_cap_mut_def cap_entry_def put_handle_cap_def)
  next
    case False
    then have a: "allocate_handle tbl = Ok idx" "pl = Local idx"
      using assms(1) by (auto simp: ts generic_allocate_handle_def obind_eq_Ok)
    then show ?thesis using local_handles.open_fresh [OF a(1)] False u
      by (cases pl')
        (auto simp: ts generic_get_handle_def get_handle_mut_def handle_entry_def put_handle_def)
  qed
qed

section \<open>Properties\<close>

text \<open>C2: A handle table is a finite map.  Whatever sequence of allocations (each filled through
  the returned reference) and clean-ups runs on a table, the indices handed out and the
  entries are those of a map of the table's size in which every allocation takes the lowest
  free index and fails exactly when there is none.\<close>

theorem handle_table_refines_map:
  assumes "\<And>i. Close i \<in> set hs \<Longrightarrow> i < length tbl"
  shows "fst (handle_run allocate_handle put_handle clear_handle hs tbl) =
      fst (spec_run (length tbl) hs (handle_entry tbl)) \<and>
    handle_entry (snd (handle_run allocate_handle put_handle clear_handle hs tbl)) =
      snd (spec_run (length tbl) hs (handle_entry tbl))"
  using local_handles.run_refines [of hs tbl] assms by blast

theorem handle_table_refines_map_witness:
  "fst (handle_run allocate_handle put_handle clear_handle
          [Open (1::nat), Open 2, Open 3, Close 0, Open 4] [None, None]) =
     [Some 0, Some 1, None, Some 0]"
proof -
  have "fst (handle_run allocate_handle put_handle clear_handle
          [Open (1::nat), Open 2, Open 3, Close 0, Open 4] [None, None]) =
        fst (spec_run (length [None :: nat option, None])
          [Open (1::nat), Open 2, Open 3, Close 0, Open 4] (handle_entry [None, None]))"
    by (rule handle_table_refines_map [THEN conjunct1]) auto
  then show ?thesis by (simp add: lowest_free_def handle_entry_def upt_rec numeral_2_eq_2)
qed

text \<open>The table of handle capabilities is the same kind of map, and no operation moves or
  loses the capability that belongs to a slot.\<close>

lemma handle_cap_table_refines_map:
  assumes "\<And>i. Close i \<in> set hs \<Longrightarrow> i < length slots"
  shows "fst (handle_run allocate_handle_cap_index put_handle_cap clear_handle_cap hs slots) =
      fst (spec_run (length slots) hs (cap_entry slots)) \<and>
    cap_entry (snd (handle_run allocate_handle_cap_index put_handle_cap clear_handle_cap hs slots)) =
      snd (spec_run (length slots) hs (cap_entry slots)) \<and>
    List.map hc_root_cap (snd (handle_run allocate_handle_cap_index put_handle_cap clear_handle_cap hs slots)) =
      List.map hc_root_cap slots"
  using cap_handles.run_refines [of hs slots] assms handle_run_roots [of hs slots] by blast

lemma handle_cap_table_refines_map_witness:
  "List.map hc_root_cap (snd (handle_run allocate_handle_cap_index put_handle_cap clear_handle_cap
     [Open (1::nat), Close 0] [\<lparr>hc_handle = None, hc_root_cap = Some (slot_at 7)\<rparr>])) = [Some (slot_at 7)]"
  using handle_cap_table_refines_map
    [of "[Open (1::nat), Close 0]" "[\<lparr>hc_handle = None, hc_root_cap = Some (slot_at 7)\<rparr>]"]
  by simp

text \<open>C8: What a client is given it can use: the handle (or the badge of the handle capability)
  that \<open>generic_allocate_handle\<close> returns is resolved by \<open>generic_get_handle\<close> to the place that
  was filled, which was free before, and no other place changed.\<close>

theorem allocated_handle_resolves:
  assumes "generic_allocate_handle ts return_cap = Ok (idx, pl, c)" and "idx < usize_lim"
  shows "generic_get_handle (write_place pl x ts)
      (if return_cap then UnwrappedHandleCap (of_nat idx) else ReceivedHandle (of_nat idx)) which = Ok pl \<and>
    read_place pl ts = None \<and> read_place pl (write_place pl x ts) = Some x \<and>
    (pl' \<noteq> pl \<longrightarrow> read_place pl' (write_place pl x ts) = read_place pl' ts)"
  using generic_allocate_resolves [OF assms] .

theorem allocated_handle_resolves_witness:
  "generic_get_handle (write_place (Local 1) 5 ([Some (1::nat), None], []))
     (ReceivedHandle 1) 0 = Ok (Local 1)"
proof -
  have "generic_allocate_handle ([Some (1::nat), None], []) False = Ok (1, Local 1, None)"
    by (simp add: generic_allocate_handle_def allocate_handle_def)
  from allocated_handle_resolves [OF this, of 5 0 "Local 0"] show ?thesis by simp
qed

text \<open>Looking up a local handle crashes the server for exactly one number, the size of the
  table (a process has 256 handles: the handle 256): the check \<open>idx > size\<close> lets it through to
  the index expression.  All larger numbers are refused.\<close>

lemma handle_lookup_panics_at_size:
  "generic_get_handle (tbl, slots) (ReceivedHandle h) which = Panic \<longleftrightarrow> unat h = length tbl"
  by (auto simp: generic_get_handle_def get_handle_mut_def)

end
