(* ===== verification/Page_Tables.thy ===== *)
theory Page_Tables
  imports Kernel
begin

text \<open>
  The four-level tables that hold an object's frames (\<open>lookup_frame\<close>, \<open>insert_frame_at\<close>,
  \<open>cleanup_obj_table_inner\<close> of \<open>crates/root_server/src/object.rs\<close>) and a view's
  capabilities (\<open>lookup_cap\<close>, \<open>insert_cap_at\<close>, \<open>cleanup_cap_table_inner\<close> of \<open>view.rs\<close>): the
  same code twice, so one model over the type of the leaves.  The level loop counts the
  levels down and the shift with it.  The specification is a map from page numbers: bits 12 to
  47 of the offset.
\<close>

section \<open>Tables\<close>

datatype 'a table_entry = EFrame 'a | ETable "'a table_entry option list"

type_synonym 'a table = "'a table_entry option list"

definition OBJ_LVL_MAX :: nat where [const_defs]: "OBJ_LVL_MAX = 512"

definition empty_table :: "'a table" where
  "empty_table = replicate OBJ_LVL_MAX None"

definition level_index :: "nat \<Rightarrow> nat \<Rightarrow> nat" where
  "level_index shift offset = (drop_bit shift offset) AND (BIT 9 - 1)"

fun lookup_levels :: "nat \<Rightarrow> nat \<Rightarrow> 'a table \<Rightarrow> nat \<Rightarrow> 'a option" where
  "lookup_levels 0 shift curr_table offset = None"
| "lookup_levels (Suc n) shift curr_table offset =
     (case curr_table ! level_index shift offset of
        None \<Rightarrow> None
      | Some (EFrame y) \<Rightarrow> Some y
      | Some (ETable y) \<Rightarrow> lookup_levels n (shift - 9) y offset)"

fun insert_levels ::
  "nat \<Rightarrow> nat \<Rightarrow> 'a table \<Rightarrow> nat \<Rightarrow> 'a \<Rightarrow> (sel4_error, unit) outcome \<times> 'a table" where
  "insert_levels 0 shift curr_table offset x =
     (let idx = level_index shift offset in
      case curr_table ! idx of
        None \<Rightarrow> (Ok (), curr_table[idx := Some (EFrame x)])
      | Some (EFrame _) \<Rightarrow> (Err DeleteFirst, curr_table)
      | Some (ETable _) \<Rightarrow> (Panic, curr_table))"
| "insert_levels (Suc n) shift curr_table offset x =
     (let idx = level_index shift offset;
          t = (if curr_table ! idx = None then curr_table[idx := Some (ETable empty_table)]
               else curr_table) in
      case t ! idx of
        None \<Rightarrow> (Err InvalidArgument, t)
      | Some (EFrame _) \<Rightarrow> (Err DeleteFirst, t)
      | Some (ETable y) \<Rightarrow>
          (case insert_levels n (shift - 9) y offset x of
             (r, y') \<Rightarrow> (r, t[idx := Some (ETable y')])))"

definition table_lookup :: "'a table \<Rightarrow> nat \<Rightarrow> 'a option" where
  "table_lookup t offset = lookup_levels 4 39 t offset"

definition table_insert :: "nat \<Rightarrow> 'a \<Rightarrow> ('a table, sel4_error, unit) op" where
  "table_insert offset x t = insert_levels 3 39 t offset x"

section \<open>Clean-up\<close>

lemma size_table_entry:
  "Some (ETable y) \<in> set (t :: 'a table) \<Longrightarrow>
     size_list (size_option size) y < size_list (size_option (size :: 'a table_entry \<Rightarrow> nat)) t"
proof (induction t)
  case (Cons e t)
  then show ?case by (cases "e = Some (ETable y)") auto
qed simp

text \<open>The recursive walk over all nodes, with the work on a leaf as a parameter.\<close>

function cleanup_table :: "('a \<Rightarrow> ('s, 'e, unit) op) \<Rightarrow> 'a table \<Rightarrow> ('s, 'e, unit) op" where
  "cleanup_table f t =
     for_each (\<lambda>node. case node of
         None \<Rightarrow> ret ()
       | Some (ETable y) \<Rightarrow> cleanup_table f y
       | Some (EFrame y) \<Rightarrow> f y) t"
  by pat_completeness auto

termination
  by (relation "measure (\<lambda>(f, t). size_list (size_option size) t)")
    (auto intro: size_table_entry)

declare cleanup_table.simps [simp del]

function table_leaves :: "'a table \<Rightarrow> 'a list" where
  "table_leaves t =
     concat (List.map (\<lambda>node. case node of
         None \<Rightarrow> [] | Some (ETable y) \<Rightarrow> table_leaves y | Some (EFrame y) \<Rightarrow> [y]) t)"
  by pat_completeness auto

termination
  by (relation "measure (size_list (size_option size))") (auto intro: size_table_entry)

declare table_leaves.simps [simp del]

lemma cleanup_table_leaves: "cleanup_table f t = for_each f (table_leaves t)"
proof (induction f t rule: cleanup_table.induct)
  case (1 f t)
  have "for_each (\<lambda>node. case node of None \<Rightarrow> ret ()
         | Some (ETable y) \<Rightarrow> cleanup_table f y | Some (EFrame y) \<Rightarrow> f y) ns =
        for_each f (concat (List.map (\<lambda>node. case node of None \<Rightarrow> []
         | Some (ETable y) \<Rightarrow> table_leaves y | Some (EFrame y) \<Rightarrow> [y]) ns))"
    if "set ns \<subseteq> set t" for ns
    using that
  proof (induction ns)
    case (Cons n ns)
    then show ?case using 1
      by (auto simp: for_each_append split: option.splits table_entry.splits)
  qed simp
  then show ?case by (simp add: cleanup_table.simps [of f t] table_leaves.simps [of t])
qed

section \<open>Well-formed tables\<close>

text \<open>\<open>wf_table n\<close>: 512 entries per table, leaves on level \<open>n\<close> only.\<close>

fun wf_table :: "nat \<Rightarrow> 'a table \<Rightarrow> bool" where
  "wf_table 0 t \<longleftrightarrow> length t = 512 \<and> (\<forall>e \<in> set t. case e of Some (ETable _) \<Rightarrow> False | _ \<Rightarrow> True)"
| "wf_table (Suc n) t \<longleftrightarrow>
     length t = 512 \<and>
     (\<forall>e \<in> set t. case e of None \<Rightarrow> True | Some (EFrame _) \<Rightarrow> False | Some (ETable y) \<Rightarrow> wf_table n y)"

lemma wf_length: "wf_table n t \<Longrightarrow> length t = 512"
  by (cases n) auto

lemma wf_empty [simp]: "wf_table n empty_table"
  by (cases n) (auto simp: empty_table_def const_defs)

lemma level_index_eq: "level_index shift offset = offset div 2 ^ shift mod 512"
  by (simp only: level_index_def and_mask shift_right_div) simp

lemma level_index_less [simp]: "level_index shift offset < 512"
  by (simp add: level_index_eq)

text \<open>The page number seen from level \<open>n\<close>, and two offsets on the same page.\<close>

definition page_no :: "nat \<Rightarrow> nat \<Rightarrow> nat" where
  "page_no n offset = offset div 2 ^ 12 mod 512 ^ Suc n"

lemma page_no_0: "page_no 0 offset = level_index 12 offset"
  by (simp add: page_no_def level_index_eq)

lemma page_no_Suc:
  "page_no (Suc n) offset = level_index (12 + 9 * Suc n) offset * 512 ^ Suc n + page_no n offset"
proof -
  have "offset div 2 ^ 12 mod (512 ^ Suc n * 512) =
      512 ^ Suc n * (offset div 2 ^ 12 div 512 ^ Suc n mod 512) + offset div 2 ^ 12 mod 512 ^ Suc n"
    by (rule mod_mult2_eq)
  moreover have "(2 :: nat) ^ (9 * Suc n) = (2 ^ 9) ^ Suc n" by (rule power_mult)
  then have "(512 :: nat) ^ Suc n = 2 ^ (9 * Suc n)" by (simp only:) simp
  then have "offset div 2 ^ 12 div 512 ^ Suc n = offset div 2 ^ (12 + 9 * Suc n)"
    by (simp add: div_mult2_eq [symmetric] power_add)
  ultimately show ?thesis by (simp add: page_no_def level_index_eq mult.commute)
qed

lemma page_no_less: "page_no n offset < 512 ^ Suc n"
  by (simp add: page_no_def)

lemma page_no_Suc_eq:
  "page_no (Suc n) a = page_no (Suc n) b \<longleftrightarrow>
     level_index (12 + 9 * Suc n) a = level_index (12 + 9 * Suc n) b \<and> page_no n a = page_no n b"
proof -
  have "x * k + y = x' * k + y' \<longleftrightarrow> x = x' \<and> y = y'" if "y < k" "y' < k" for x x' y y' k :: nat
    using that by (metis add.commute div_mult_self1 div_less mod_mult_self1 mod_less
        add_0 less_nat_zero_code)
  then show ?thesis unfolding page_no_Suc using page_no_less by blast
qed

lemma insert_levels_spec:
  fixes t :: "'a table"
  assumes "wf_table n t"
  shows "if lookup_levels (Suc n) (12 + 9 * n) t offset = None
    then \<exists>t'. insert_levels n (12 + 9 * n) t offset x = (Ok (), t') \<and> wf_table n t' \<and>
           (\<forall>o'. lookup_levels (Suc n) (12 + 9 * n) t' o' =
              (if page_no n o' = page_no n offset then Some x
               else lookup_levels (Suc n) (12 + 9 * n) t o'))
    else insert_levels n (12 + 9 * n) t offset x = (Err DeleteFirst, t)"
  using assms
proof (induction n arbitrary: t)
  case 0
  let ?i = "level_index 12 offset"
  have len: "length t = 512" and leaf: "t ! j \<noteq> Some (ETable y)" if "j < 512" for j y
    using 0 that nth_mem [of j t] by (fastforce split: option.splits table_entry.splits)+
  show ?case
  proof (cases "t ! ?i")
    case None
    have "wf_table 0 (t[?i := Some (EFrame x)])"
      using 0 set_update_subset_insert [of t ?i "Some (EFrame x)"] by auto
    then show ?thesis using None len [of 0] by (auto simp: page_no_0 nth_list_update)
  next
    case (Some e)
    then obtain y where "e = EFrame y" using leaf [of ?i] by (cases e) auto
    then show ?thesis using Some by simp
  qed
next
  case (Suc n)
  let ?s = "12 + 9 * Suc n" and ?i = "level_index (12 + 9 * Suc n) offset"
  have len: "length t = 512" using Suc.prems by simp
  have sh: "?s - 9 = 12 + 9 * n" by simp
  obtain y where y: "wf_table n y"
    "(t ! ?i = None \<and> y = empty_table) \<or> t ! ?i = Some (ETable y)"
  proof (cases "t ! ?i")
    case (Some e)
    then have "Some e \<in> set t" using len by (metis level_index_less nth_mem)
    then show ?thesis using that Suc.prems Some by (cases e) fastforce+
  qed (use that [of empty_table] in simp)
  define t1 where "t1 = (if t ! ?i = None then t[?i := Some (ETable empty_table)] else t)"
  have t1: "t1 ! ?i = Some (ETable y)" "length t1 = 512" "\<And>j. j \<noteq> ?i \<Longrightarrow> t1 ! j = t ! j"
    using y len by (auto simp: t1_def)
  have empty: "lookup_levels (Suc n) (12 + 9 * n) (empty_table :: 'a table) o' = None" for o' :: nat and n
    using level_index_less [of "12 + 9 * n" o'] by (simp add: empty_table_def const_defs)
  have lookup: "lookup_levels (Suc (Suc n)) ?s t o' =
      (if level_index ?s o' = ?i then lookup_levels (Suc n) (12 + 9 * n) y o'
       else lookup_levels (Suc (Suc n)) ?s t1 o')" for o'
    using y t1(3) [of "level_index ?s o'"] empty
    by (auto simp del: lookup_levels.simps simp: lookup_levels.simps(2) [of "Suc n"] split: option.splits)
  have ins: "insert_levels (Suc n) ?s t offset x =
      (case insert_levels n (12 + 9 * n) y offset x of (r, y') \<Rightarrow> (r, t1[?i := Some (ETable y')]))"
    by (simp only: insert_levels.simps(2) Let_def t1_def [symmetric] t1(1) sh option.case
        table_entry.case)
  have wf1: "wf_table (Suc n) (t1[?i := Some (ETable y')])" if "wf_table n y'" for y'
    using Suc.prems that y len by (auto simp: t1_def dest!: set_update_subset_insert [THEN subsetD])
  have eq: "t1 = t" if "lookup_levels (Suc (Suc n)) ?s t offset \<noteq> None"
    using that by (auto simp: t1_def)
  show ?case
  proof (cases "lookup_levels (Suc n) (12 + 9 * n) y offset = None")
    case True
    then obtain y' where i: "insert_levels n (12 + 9 * n) y offset x = (Ok (), y')" and w: "wf_table n y'"
      and l: "\<And>o'. lookup_levels (Suc n) (12 + 9 * n) y' o' =
        (if page_no n o' = page_no n offset then Some x else lookup_levels (Suc n) (12 + 9 * n) y o')"
      using Suc.IH [OF y(1)] by auto
    let ?t = "t1[?i := Some (ETable y')]"
    have "lookup_levels (Suc (Suc n)) ?s ?t o' =
       (if page_no (Suc n) o' = page_no (Suc n) offset then Some x
        else lookup_levels (Suc (Suc n)) ?s t o')" for o'
      using l [of o'] t1(2) unfolding page_no_Suc_eq lookup
      by (auto simp del: lookup_levels.simps simp: lookup_levels.simps(2) [of "Suc n"] sh nth_list_update)
    then show ?thesis using True lookup [of offset] i ins wf1 [OF w] by simp
  next
    case False
    then have ne: "lookup_levels (Suc (Suc n)) ?s t offset \<noteq> None" using lookup [of offset] by simp
    have "insert_levels n (12 + 9 * n) y offset x = (Err DeleteFirst, y)" using Suc.IH [OF y(1)] False by auto
    then have "insert_levels (Suc n) ?s t offset x = (Err DeleteFirst, t1[?i := Some (ETable y)])"
      using ins by simp
    also have "t1[?i := Some (ETable y)] = t" using t1(1) eq [OF ne] by (metis list_update_id)
    finally show ?thesis using ne by simp
  qed
qed

section \<open>The order of the leaves\<close>

lemma lookup_levels_page:
  assumes "page_no n a = page_no n b"
  shows "lookup_levels (Suc n) (12 + 9 * n) t a = lookup_levels (Suc n) (12 + 9 * n) t b"
  using assms
proof (induction n arbitrary: t)
  case 0
  then show ?case by (simp add: page_no_0 split: option.splits table_entry.splits)
next
  case (Suc n)
  then have i: "level_index (12 + 9 * Suc n) a = level_index (12 + 9 * Suc n) b"
    and p: "page_no n a = page_no n b" by (simp_all only: page_no_Suc_eq)
  have "12 + 9 * Suc n - 9 = 12 + 9 * n" by simp
  then show ?case using Suc.IH [OF p]
    by (simp only: lookup_levels.simps(2) [of "Suc n"] i)
qed

lemma upt_blocks: "concat (List.map (\<lambda>i. List.map (\<lambda>p. i * k + p) [0..<k]) [0..<m]) = [0..<m * k]"
proof (induction m)
  case (Suc m)
  have "List.map (\<lambda>p. m * k + p) [0..<k] = [m * k..<m * k + k]"
    using map_add_upt [of "m * k" k] by (simp add: add.commute)
  moreover have "[0..<Suc m * k] = [0..<m * k] @ [m * k..<m * k + k]"
    using upt_add_eq_append [of 0 "m * k" k] by (simp add: add.commute)
  ultimately show ?case using Suc by simp
qed simp

lemma concat_blocks:
  "concat (List.map f [0..<m * k]) =
     concat (List.map (\<lambda>i. concat (List.map (\<lambda>p. f (i * k + p)) [0..<k])) [0..<m])"
proof -
  have "concat (List.map f (concat (List.map g xs))) =
      concat (List.map (\<lambda>i. concat (List.map f (g i))) xs)" for g :: "nat \<Rightarrow> nat list" and xs
    by (induction xs) simp_all
  then show ?thesis unfolding upt_blocks [symmetric] by (simp add: comp_def)
qed

lemma page_no_block:
  assumes "i < 512" and "p < 512 ^ Suc n"
  shows "level_index (12 + 9 * Suc n) ((i * 512 ^ Suc n + p) * 4096) = i"
    and "page_no n ((i * 512 ^ Suc n + p) * 4096) = page_no n (p * 4096)"
proof -
  define k where "k = (512 :: nat) ^ Suc n"
  have pk: "p < k" using assms(2) by (simp add: k_def)
  have "i * k + p < Suc i * k" using pk by simp
  also have "\<dots> \<le> 512 * k" using assms(1) by (intro mult_le_mono1) simp
  finally have "i * k + p < 512 ^ Suc (Suc n)" by (simp add: k_def)
  then have "page_no (Suc n) ((i * k + p) * 4096) = i * k + p"
    by (simp add: page_no_def)
  moreover have b: "page_no n ((i * k + p) * 4096) = p" "page_no n (p * 4096) = p"
    using pk unfolding page_no_def k_def [symmetric] by simp_all
  ultimately have "level_index (12 + 9 * Suc n) ((i * k + p) * 4096) * k = i * k"
    using page_no_Suc [of n "(i * k + p) * 4096", folded k_def] by linarith
  then show "level_index (12 + 9 * Suc n) ((i * 512 ^ Suc n + p) * 4096) = i"
    using pk unfolding k_def [symmetric] by (metis mult_cancel2 not_less_zero)
  show "page_no n ((i * 512 ^ Suc n + p) * 4096) = page_no n (p * 4096)"
    using b unfolding k_def by simp
qed

definition opt_list :: "'a option \<Rightarrow> 'a list" where
  "opt_list x = (case x of None \<Rightarrow> [] | Some y \<Rightarrow> [y])"

definition node_leaves :: "'a table_entry option \<Rightarrow> 'a list" where
  "node_leaves node =
     (case node of None \<Rightarrow> [] | Some (ETable y) \<Rightarrow> table_leaves y | Some (EFrame y) \<Rightarrow> [y])"

lemma table_leaves_nodes:
  assumes "wf_table n t"
  shows "table_leaves t = concat (List.map (\<lambda>i. node_leaves (t ! i)) [0..<512])"
proof -
  have "List.map node_leaves t = List.map (\<lambda>i. node_leaves (t ! i)) [0..<512]"
    using wf_length [OF assms] by (auto simp: list_eq_iff_nth_eq)
  then show ?thesis by (simp add: table_leaves.simps [of t] node_leaves_def [abs_def])
qed

lemma table_leaves_levels:
  "wf_table n t \<Longrightarrow> table_leaves t =
     concat (List.map (\<lambda>p. opt_list (lookup_levels (Suc n) (12 + 9 * n) t (p * 4096))) [0..<512 ^ Suc n])"
proof (induction n arbitrary: t)
  case 0
  have "node_leaves (t ! i) = opt_list (lookup_levels (Suc 0) 12 t (i * 4096))" if "i < 512" for i
  proof -
    have "t ! i \<in> set t" using that wf_length [OF 0] by simp
    moreover have "level_index 12 (i * 4096) = i" using that by (simp add: level_index_eq)
    ultimately show ?thesis using 0
      by (auto simp: node_leaves_def opt_list_def split: option.splits table_entry.splits)
  qed
  then have "List.map (\<lambda>i. node_leaves (t ! i)) [0..<512] =
      List.map (\<lambda>p. opt_list (lookup_levels (Suc 0) 12 t (p * 4096))) [0..<512]"
    by (intro map_cong) simp_all
  then show ?case unfolding table_leaves_nodes [OF 0]
    by (simp only: mult_0_right add_0_right power_Suc0_right)
next
  case (Suc n)
  define k where "k = (512 :: nat) ^ Suc n"
  have "node_leaves (t ! i) =
      concat (List.map (\<lambda>p. opt_list (lookup_levels (Suc (Suc n)) (12 + 9 * Suc n) t ((i * k + p) * 4096))) [0..<k])"
    if i: "i < 512" for i
  proof -
    have mem: "t ! i \<in> set t" using i wf_length [OF Suc.prems] by simp
    have sh: "12 + 9 * Suc n - 9 = 12 + 9 * n" by simp
    show ?thesis
    proof (cases "t ! i")
      case None
      have "lookup_levels (Suc (Suc n)) (12 + 9 * Suc n) t ((i * k + p) * 4096) = None" if "p < k" for p
        using page_no_block(1) [OF i that [unfolded k_def]] None
        by (simp only: lookup_levels.simps(2) [of "Suc n"] k_def) simp
      then show ?thesis using None by (simp add: node_leaves_def opt_list_def del: lookup_levels.simps)
    next
      case (Some e)
      then obtain y where y: "t ! i = Some (ETable y)" "wf_table n y"
        using mem Suc.prems by (cases e) fastforce+
      have "lookup_levels (Suc (Suc n)) (12 + 9 * Suc n) t ((i * k + p) * 4096) =
          lookup_levels (Suc n) (12 + 9 * n) y (p * 4096)" if "p < k" for p
        using lookup_levels_page [OF page_no_block(2) [OF i that [unfolded k_def]], of y]
        by (simp only: lookup_levels.simps(2) [of "Suc n"] k_def sh y(1) option.case table_entry.case
            page_no_block(1) [OF i that [unfolded k_def]])
      then have "List.map (\<lambda>p. opt_list (lookup_levels (Suc n) (12 + 9 * n) y (p * 4096))) [0..<k] =
          List.map (\<lambda>p. opt_list (lookup_levels (Suc (Suc n)) (12 + 9 * Suc n) t ((i * k + p) * 4096))) [0..<k]"
        by (intro map_cong refl) (simp del: lookup_levels.simps)
      then show ?thesis using Suc.IH [OF y(2), folded k_def] y(1)
        by (simp only: node_leaves_def option.case table_entry.case)
    qed
  qed
  then have "List.map (\<lambda>i. node_leaves (t ! i)) [0..<512] = List.map (\<lambda>i. concat (List.map (\<lambda>p.
      opt_list (lookup_levels (Suc (Suc n)) (12 + 9 * Suc n) t ((i * k + p) * 4096))) [0..<k])) [0..<512]"
    by (intro map_cong refl) (simp del: lookup_levels.simps)
  then have "table_leaves t = concat (List.map (\<lambda>i. concat (List.map (\<lambda>p.
      opt_list (lookup_levels (Suc (Suc n)) (12 + 9 * Suc n) t ((i * k + p) * 4096))) [0..<k])) [0..<512])"
    by (simp only: table_leaves_nodes [OF Suc.prems])
  also have "\<dots> = concat (List.map (\<lambda>p. opt_list (lookup_levels (Suc (Suc n)) (12 + 9 * Suc n) t (p * 4096)))
      [0..<512 * k])"
    by (rule concat_blocks [symmetric])
  finally show ?case by (simp add: k_def del: lookup_levels.simps)
qed

section \<open>Properties\<close>

lemma table_insert_spec:
  assumes "wf_table 3 t"
  shows "if table_lookup t offset = None
    then \<exists>t'. table_insert offset x t = (Ok (), t') \<and> wf_table 3 t' \<and>
           (\<forall>o'. table_lookup t' o' =
              (if page_no 3 o' = page_no 3 offset then Some x else table_lookup t o'))
    else table_insert offset x t = (Err DeleteFirst, t)"
proof -
  have eq: "12 + 9 * 3 = (39 :: nat)" "Suc 3 = 4" by simp_all
  show ?thesis using insert_levels_spec [OF assms, of offset x, unfolded eq]
    unfolding table_lookup_def table_insert_def .
qed

lemma table_lookup_empty [simp]: "table_lookup empty_table offset = None"
proof -
  have eq: "(4 :: nat) = Suc 3" by simp
  show ?thesis
    by (simp only: table_lookup_def eq lookup_levels.simps(2) empty_table_def OBJ_LVL_MAX_def
        nth_replicate [OF level_index_less] option.case)
qed

lemma cleanup_table_pages:
  assumes "wf_table 3 t"
  shows "cleanup_table f t =
    for_each f (concat (List.map (\<lambda>p. opt_list (table_lookup t (p * 4096))) [0..<512 ^ 4]))"
proof -
  have eq: "12 + 9 * 3 = (39 :: nat)" "Suc 3 = 4" by simp_all
  show ?thesis using table_leaves_levels [OF assms, unfolded eq]
    by (simp only: cleanup_table_leaves table_lookup_def)
qed

text \<open>C3: Inserting into an object's frame table or a view's capability table.  On a free page the
  leaf is found under every offset on that page afterwards and every other page keeps its
  leaf; on an occupied page the call fails with \<open>DeleteFirst\<close> and changes nothing; it never
  panics, and the table stays well-formed.  Pages are bits 12 to 47: offsets \<open>2 ^ 48\<close> apart are
  the same page.\<close>

theorem page_table_insert:
  assumes "wf_table 3 t"
  shows "if table_lookup t offset = None
    then \<exists>t'. table_insert offset x t = (Ok (), t') \<and> wf_table 3 t' \<and>
           (\<forall>o'. table_lookup t' o' =
              (if page_no 3 o' = page_no 3 offset then Some x else table_lookup t o'))
    else table_insert offset x t = (Err DeleteFirst, t)"
  using assms by (rule table_insert_spec)

theorem page_table_insert_witness:
  "\<exists>t'. table_insert 4096 (7::nat) empty_table = (Ok (), t') \<and>
     table_lookup t' 5000 = Some 7 \<and> table_lookup t' 8192 = None"
proof -
  have p: "page_no 3 5000 = page_no 3 4096" "page_no 3 8192 \<noteq> page_no 3 4096"
    by (simp_all add: page_no_def)
  have n: "table_lookup empty_table (4096::nat) = (None :: nat option)" by simp
  from page_table_insert [of "empty_table :: nat table" 4096 7] n
  obtain t' where "table_insert 4096 (7::nat) empty_table = (Ok (), t')"
    "\<forall>o'. table_lookup t' o' =
        (if page_no 3 o' = page_no 3 4096 then Some 7 else table_lookup empty_table o')"
    by auto
  then show ?thesis using p by auto
qed

text \<open>C7: Cleaning up a table runs the clean-up of a leaf once for every page that has one, in
  the order of the pages, and nothing else: the sequence of its effects (panics included) is
  that of a loop over the occupied pages.\<close>

theorem cleanup_visits_each_page_once:
  assumes "wf_table 3 t"
  shows "cleanup_table f t =
    for_each f (concat (List.map (\<lambda>p. opt_list (table_lookup t (p * 4096))) [0..<512 ^ 4]))"
  using assms by (rule cleanup_table_pages)

theorem cleanup_visits_each_page_once_witness:
  "cleanup_table (\<lambda>y. modify (\<lambda>n. n + y)) (empty_table :: nat table) =
   for_each (\<lambda>y. modify (\<lambda>n. n + y))
     (concat (List.map (\<lambda>p. opt_list (table_lookup empty_table (p * 4096))) [0..<512 ^ 4]))"
  by (rule cleanup_visits_each_page_once) simp

end
