(* ===== verification/Ntfn_Buffer.thy ===== *)
theory Ntfn_Buffer
  imports Smos_Prelude
begin

text \<open>
  Notification messages from the root server to a server: \<open>crates/smos-server/src/ntfn_buffer.rs\<close>.
  A message is flattened to four words and goes through a ring buffer in shared memory.  The
  ring (\<open>sel4_shared_ring_buffer\<close>) is not part of the repository: its two operations are
  parameters, over an unspecified ring \<open>'r\<close>; \<open>ring_fifo\<close> states what they do.
\<close>

section \<open>Messages\<close>

record NtfnBufferData =
  nb_label :: u64
  nb_data0 :: u64
  nb_data1 :: u64
  nb_data2 :: u64

datatype NotificationLabel =
  VMFaultNotificationLabel | ConnDestroyNotificationLabel | WindowDestroyNotificationLabel

primrec ntfn_label :: "NotificationLabel \<Rightarrow> u64" where
  "ntfn_label VMFaultNotificationLabel = 0"
| "ntfn_label ConnDestroyNotificationLabel = 1"
| "ntfn_label WindowDestroyNotificationLabel = 2"

definition ntfn_label_try_from :: "u64 \<Rightarrow> NotificationLabel option" where
  "ntfn_label_try_from w =
     (if w = 0 then Some VMFaultNotificationLabel
      else if w = 1 then Some ConnDestroyNotificationLabel
      else if w = 2 then Some WindowDestroyNotificationLabel else None)"

record VMFaultNotification =
  vf_client_id :: u64
  vf_reference :: u64
  vf_fault_offset :: u64

record ConnDestroyNotification =
  cdn_conn_id :: u64

record WindowDestroyNotification =
  wdn_client_id :: u64
  wdn_reference :: u64

datatype NotificationType =
    N_VMFault VMFaultNotification
  | N_ConnDestroy ConnDestroyNotification
  | N_WindowDestroy WindowDestroyNotification

definition vm_fault_of_data :: "NtfnBufferData \<Rightarrow> VMFaultNotification" where
  "vm_fault_of_data d =
     \<lparr>vf_client_id = nb_data0 d, vf_reference = nb_data1 d, vf_fault_offset = nb_data2 d\<rparr>"

definition data_of_vm_fault :: "VMFaultNotification \<Rightarrow> NtfnBufferData" where
  "data_of_vm_fault n =
     \<lparr>nb_label = ntfn_label VMFaultNotificationLabel, nb_data0 = vf_client_id n,
      nb_data1 = vf_reference n, nb_data2 = vf_fault_offset n\<rparr>"

definition conn_destroy_of_data :: "NtfnBufferData \<Rightarrow> ConnDestroyNotification" where
  "conn_destroy_of_data d = \<lparr>cdn_conn_id = nb_data0 d\<rparr>"

definition data_of_conn_destroy :: "ConnDestroyNotification \<Rightarrow> NtfnBufferData" where
  "data_of_conn_destroy n =
     \<lparr>nb_label = ntfn_label ConnDestroyNotificationLabel, nb_data0 = cdn_conn_id n,
      nb_data1 = 0, nb_data2 = 0\<rparr>"

definition window_destroy_of_data :: "NtfnBufferData \<Rightarrow> WindowDestroyNotification" where
  "window_destroy_of_data d = \<lparr>wdn_client_id = nb_data0 d, wdn_reference = nb_data1 d\<rparr>"

definition data_of_window_destroy :: "WindowDestroyNotification \<Rightarrow> NtfnBufferData" where
  "data_of_window_destroy n =
     \<lparr>nb_label = ntfn_label WindowDestroyNotificationLabel, nb_data0 = wdn_client_id n,
      nb_data1 = wdn_reference n, nb_data2 = 0\<rparr>"

primrec ntfn_into_data :: "NotificationType \<Rightarrow> NtfnBufferData" where
  "ntfn_into_data (N_VMFault x) = data_of_vm_fault x"
| "ntfn_into_data (N_ConnDestroy x) = data_of_conn_destroy x"
| "ntfn_into_data (N_WindowDestroy x) = data_of_window_destroy x"

definition data_into_ntfn :: "NtfnBufferData \<Rightarrow> ('e, NotificationType) outcome" where
  "data_into_ntfn d =
     (case ntfn_label_try_from (nb_label d) of
        None \<Rightarrow> Panic
      | Some l \<Rightarrow> Ok (case l of
            VMFaultNotificationLabel \<Rightarrow> N_VMFault (vm_fault_of_data d)
          | ConnDestroyNotificationLabel \<Rightarrow> N_ConnDestroy (conn_destroy_of_data d)
          | WindowDestroyNotificationLabel \<Rightarrow> N_WindowDestroy (window_destroy_of_data d)))"

lemma data_into_ntfn_into_data: "data_into_ntfn (ntfn_into_data n) = Ok n"
  by (cases n)
    (simp_all add: data_into_ntfn_def ntfn_label_try_from_def data_of_vm_fault_def
      vm_fault_of_data_def data_of_conn_destroy_def conn_destroy_of_data_def
      data_of_window_destroy_def window_destroy_of_data_def)

section \<open>The buffer\<close>

definition NTFN_BUFFER_CAPACITY :: nat where [const_defs]: "NTFN_BUFFER_CAPACITY = 64"

text \<open>\<open>rb_enqueue\<close> is \<open>enqueue_and_commit\<close>: \<open>Err\<close> if the peer corrupted the indices, else
  \<open>None\<close>, or the message itself if the ring is full.\<close>

type_synonym 'r rb_enqueue = "NtfnBufferData \<Rightarrow> 'r \<Rightarrow> (unit, NtfnBufferData option) outcome \<times> 'r"
type_synonym 'r rb_dequeue = "'r \<Rightarrow> (unit, NtfnBufferData option) outcome \<times> 'r"

definition enqueue_ntfn_buffer_msg ::
  "'r rb_enqueue \<Rightarrow> NotificationType \<Rightarrow> ('r, NtfnBufferData, unit) op" where
  "enqueue_ntfn_buffer_msg enq msg =
     bnd (expect (enq (ntfn_into_data msg))) (\<lambda>r.
     case r of None \<Rightarrow> ret () | Some d \<Rightarrow> fail d)"

definition dequeue_ntfn_buffer_msg :: "'r rb_dequeue \<Rightarrow> ('r, unit, NotificationType option) op" where
  "dequeue_ntfn_buffer_msg deq =
     bnd (expect deq) (\<lambda>r.
     case r of
       None \<Rightarrow> ret None
     | Some d \<Rightarrow> bnd (lift (data_into_ntfn d)) (\<lambda>n. ret (Some n)))"

text \<open>The documented behaviour of the ring: a queue of at most 64 entries.\<close>

definition ring_fifo :: "'r rb_enqueue \<Rightarrow> 'r rb_dequeue \<Rightarrow> ('r \<Rightarrow> NtfnBufferData list) \<Rightarrow> bool" where
  "ring_fifo enq deq q \<longleftrightarrow>
     (\<forall>d r. if length (q r) < NTFN_BUFFER_CAPACITY
            then \<exists>r'. enq d r = (Ok None, r') \<and> q r' = q r @ [d]
            else enq d r = (Ok (Some d), r)) \<and>
     (\<forall>r. case q r of
            [] \<Rightarrow> deq r = (Ok None, r)
          | d # ds \<Rightarrow> \<exists>r'. deq r = (Ok (Some d), r') \<and> q r' = ds)"

text \<open>Sending a list of messages, and draining the buffer \<open>n\<close> times.\<close>

fun send_all :: "'r rb_enqueue \<Rightarrow> NotificationType list \<Rightarrow> ('r, NtfnBufferData, unit) op" where
  "send_all enq [] = ret ()"
| "send_all enq (m # ms) = bnd (enqueue_ntfn_buffer_msg enq m) (\<lambda>_. send_all enq ms)"

fun drain :: "'r rb_dequeue \<Rightarrow> nat \<Rightarrow> ('r, unit, NotificationType list) op" where
  "drain deq 0 = ret []"
| "drain deq (Suc n) =
     bnd (dequeue_ntfn_buffer_msg deq) (\<lambda>m.
     case m of None \<Rightarrow> ret [] | Some x \<Rightarrow> bnd (drain deq n) (\<lambda>xs. ret (x # xs)))"

lemma expect_run [run_simps]:
  "m s = (Ok x, s') \<Longrightarrow> expect m s = (Ok x, s')"
  "m s = (Err e, s') \<Longrightarrow> expect m s = (Panic, s')"
  by (simp_all add: expect_def on_err_def panic_def)

lemma enqueue_run:
  assumes "ring_fifo enq deq q" and "length (q r) < NTFN_BUFFER_CAPACITY"
  shows "\<exists>r'. enqueue_ntfn_buffer_msg enq m r = (Ok (), r') \<and> q r' = q r @ [ntfn_into_data m]"
proof -
  obtain r' where "enq (ntfn_into_data m) r = (Ok None, r')" "q r' = q r @ [ntfn_into_data m]"
    using assms unfolding ring_fifo_def by meson
  then show ?thesis by (auto simp: enqueue_ntfn_buffer_msg_def run_simps)
qed

lemma enqueue_full:
  assumes "ring_fifo enq deq q" and "\<not> length (q r) < NTFN_BUFFER_CAPACITY"
  shows "enqueue_ntfn_buffer_msg enq m r = (Err (ntfn_into_data m), r)"
proof -
  have "enq (ntfn_into_data m) r = (Ok (Some (ntfn_into_data m)), r)"
    using assms unfolding ring_fifo_def by meson
  then show ?thesis by (simp add: enqueue_ntfn_buffer_msg_def run_simps)
qed

lemma dequeue_run:
  assumes "ring_fifo enq deq q"
  shows "q r = [] \<Longrightarrow> dequeue_ntfn_buffer_msg deq r = (Ok None, r)"
    and "q r = ntfn_into_data m # ds \<Longrightarrow>
      \<exists>r'. dequeue_ntfn_buffer_msg deq r = (Ok (Some m), r') \<and> q r' = ds"
proof -
  have d: "case q r of [] \<Rightarrow> deq r = (Ok None, r)
    | d # ds \<Rightarrow> \<exists>r'. deq r = (Ok (Some d), r') \<and> q r' = ds"
    using assms unfolding ring_fifo_def by blast
  show "q r = [] \<Longrightarrow> dequeue_ntfn_buffer_msg deq r = (Ok None, r)"
    using d by (simp add: dequeue_ntfn_buffer_msg_def run_simps)
  show "q r = ntfn_into_data m # ds \<Longrightarrow>
      \<exists>r'. dequeue_ntfn_buffer_msg deq r = (Ok (Some m), r') \<and> q r' = ds"
    using d by (auto simp: dequeue_ntfn_buffer_msg_def run_simps data_into_ntfn_into_data)
qed

lemma send_all_run:
  assumes "ring_fifo enq deq q" and "length (q r) + length ms \<le> NTFN_BUFFER_CAPACITY"
  shows "\<exists>r'. send_all enq ms r = (Ok (), r') \<and> q r' = q r @ List.map ntfn_into_data ms"
  using assms(2)
proof (induction ms arbitrary: r)
  case (Cons m ms)
  then obtain r1 where "enqueue_ntfn_buffer_msg enq m r = (Ok (), r1)" "q r1 = q r @ [ntfn_into_data m]"
    using enqueue_run [OF assms(1), of r m] by auto
  with Cons.IH [of r1] Cons.prems show ?case by (auto simp: run_simps)
qed (simp add: run_simps)

lemma drain_run:
  assumes "ring_fifo enq deq q" and "q r = List.map ntfn_into_data ms" and "length ms < n"
  shows "\<exists>r'. drain deq n r = (Ok ms, r') \<and> q r' = []"
  using assms(2,3)
proof (induction ms arbitrary: r n)
  case Nil
  then show ?case using dequeue_run(1) [OF assms(1), of r] by (cases n) (auto simp: run_simps)
next
  case (Cons m ms)
  then obtain k where n: "n = Suc k" "length ms < k" by (cases n) auto
  obtain r1 where "dequeue_ntfn_buffer_msg deq r = (Ok (Some m), r1)" "q r1 = List.map ntfn_into_data ms"
    using dequeue_run(2) [OF assms(1)] Cons.prems(1) by (metis list.map(2))
  with Cons.IH [of r1 k] n show ?case by (auto simp: run_simps)
qed

section \<open>Properties\<close>

text \<open>C9: Notifications arrive in order and unchanged: up to 64 messages sent into an empty
  buffer are what a server reads that drains it, whatever mix of VM-fault, connection-destroy
  and window-destroy messages they are, and the buffer is empty afterwards.\<close>

theorem ntfn_buffer_fifo:
  assumes "ring_fifo enq deq q" and "q r = []" and "length ms \<le> NTFN_BUFFER_CAPACITY"
  shows "\<exists>r' r''. send_all enq ms r = (Ok (), r') \<and>
    drain deq (Suc NTFN_BUFFER_CAPACITY) r' = (Ok ms, r'') \<and> q r'' = []"
  using send_all_run [OF assms(1), of r ms] drain_run [OF assms(1), of _ ms] assms(2,3)
  by (metis add_0 append_Nil length_0_conv less_Suc_eq_le list.size(3))

theorem ntfn_buffer_fifo_witness:
  "\<exists>r' r''. send_all (\<lambda>d r. if length r < 64 then (Ok None, r @ [d]) else (Ok (Some d), r))
       [N_ConnDestroy \<lparr>cdn_conn_id = 4\<rparr>, N_WindowDestroy \<lparr>wdn_client_id = 1, wdn_reference = 2\<rparr>]
       [] = (Ok (), r') \<and>
     drain (\<lambda>r. case r of [] \<Rightarrow> (Ok None, []) | d # ds \<Rightarrow> (Ok (Some d), ds))
       (Suc NTFN_BUFFER_CAPACITY) r' =
     (Ok [N_ConnDestroy \<lparr>cdn_conn_id = 4\<rparr>, N_WindowDestroy \<lparr>wdn_client_id = 1, wdn_reference = 2\<rparr>], r'') \<and>
     id r'' = []"
  by (rule ntfn_buffer_fifo)
    (auto simp: ring_fifo_def NTFN_BUFFER_CAPACITY_def split: list.splits)

end
