(* ===== verification/Root_State.thy ===== *)
theory Root_State
  imports IRQ Handles Page_Tables Reply Ntfn_Buffer
begin

text \<open>
  The state behind the root server's system calls: the structures of
  \<open>crates/root_server/src/window.rs\<close>, \<open>view.rs\<close>, \<open>object.rs\<close>, \<open>connection.rs\<close>,
  \<open>handle.rs\<close> and \<open>proc.rs\<close>.  The sources share them through \<open>Rc<RefCell<_>>\<close>; here every
  such cell has a number, a store maps numbers to contents, and allocation takes the next number.
  \<open>Rc::ptr_eq\<close> is equality of numbers.  The borrow flags of the cells are not modelled.
\<close>

section \<open>The world outside\<close>

text \<open>What the handlers call and the repository does not hold, over one state \<open>'k\<close>: the kernel,
  the shared ring of a notification buffer (by its address), \<open>Notification::signal\<close>,
  \<open>send\<close> on a reply object, the invocations of TCBs, scheduling contexts and the ASID pool,
  \<open>offset_allocator\<close>; \<open>CNodeCapData::into_word\<close> for a guard of 0, \<open>seL4_UserTop\<close>, the size
  of a scheduling context, and \<open>ElfBytes::minimal_parse\<close>, which gives the segments with their
  data and the entry point.\<close>

record program_header =
  ph_type :: u32
  ph_flags :: u32
  ph_vaddr :: nat
  ph_filesz :: nat
  ph_memsz :: nat

record elf_file =
  elf_segments :: "(program_header \<times> u8 list option) list option"
  elf_entry :: u64

record 'k env =
  e_sel4 :: "'k sel4"
  e_enqueue :: "nat \<Rightarrow> 'k rb_enqueue"
  e_ring_init :: "nat \<Rightarrow> 'k \<Rightarrow> 'k"
  e_signal :: "cptr \<Rightarrow> 'k \<Rightarrow> 'k"
  e_send :: "cptr \<Rightarrow> msginfo \<Rightarrow> 'k \<Rightarrow> 'k"
  e_bind_ntfn :: "cptr \<Rightarrow> cptr \<Rightarrow> 'k kcall"
  e_unbind_ntfn :: "cptr \<Rightarrow> 'k kcall"
  e_write_registers :: "cptr \<Rightarrow> u64 \<Rightarrow> u64 \<Rightarrow> 'k kcall"
  e_dma_allocate :: "nat \<Rightarrow> 'k \<Rightarrow> nat option \<times> 'k"
  e_asid_assign :: "cptr \<Rightarrow> 'k kcall"
  e_tcb_configure :: "cptr \<Rightarrow> cptr \<Rightarrow> cptr \<Rightarrow> nat \<Rightarrow> cptr \<Rightarrow> 'k kcall"
  e_sched_configure :: "cptr \<Rightarrow> 'k kcall"
  e_set_sched_params :: "cptr \<Rightarrow> u8 \<Rightarrow> cptr \<Rightarrow> cptr \<Rightarrow> 'k kcall"
  e_cnode_guard :: "nat \<Rightarrow> u64"
  e_user_top :: nat
  e_sched_bits :: nat
  e_parse_elf :: "u8 list \<Rightarrow> elf_file option"

section \<open>Shared structures\<close>

record window =
  w_start :: nat
  w_size :: nat
  w_view :: "nat option"

text \<open>The address of a fault is what the handlers read of a \<open>sel4::VmFault\<close>.\<close>

record view_info =
  v_caps :: "cptr table"
  v_window :: nat
  v_object :: "nat option"
  v_server :: "(nat \<times> u64 \<times> u64) option"
  v_rights :: cap_rights
  v_win_offset :: nat
  v_obj_offset :: nat
  v_fault :: "((cptr \<times> nat) \<times> nat \<times> cptr) option"

record mem_object =
  mo_size :: nat
  mo_rights :: cap_rights
  mo_frames :: "(cptr \<times> nat) table"
  mo_views :: "nat list"
  mo_attributes :: ObjAttributes
  mo_dma :: "nat option"

record server_info =
  sv_pid :: nat
  sv_ep :: "cptr \<times> nat"
  sv_dispatch :: ntfn_dispatch
  sv_view :: nat
  sv_buffer :: nat
  sv_connections :: "nat list"

record connection =
  cn_id :: nat
  cn_client :: nat
  cn_server :: nat
  cn_badged_ep :: cptr
  cn_registered :: bool

text \<open>\<open>RootServerResource\<close>: cells by their number.\<close>

datatype resource =
    R_Window nat
  | R_Object nat
  | R_ConnRegistration nat
  | R_WindowRegistration nat
  | R_IRQRegistration "u64 \<times> nat"
  | R_View nat
  | R_Connection nat
  | R_Server nat
  | R_Process nat
  | R_Reply "cptr \<times> nat"
  | R_HandleCap cptr
  | R_ChannelAuthority "cptr \<times> nat"

record user_cspace =
  uc_cs :: cspace
  uc_untyped :: nat

record user_process =
  p_tcb :: "cptr \<times> nat"
  p_pid :: nat
  p_vspace :: "cptr \<times> nat"
  p_ipc_buffer :: "cptr \<times> nat"
  p_shared_buffer :: "cptr \<times> nat"
  p_sched_context :: "cptr \<times> nat"
  p_cspace :: user_cspace
  p_fault_ep :: cptr
  p_handles :: "resource htable"
  p_created_caps :: "nat list"
  p_initial_windows :: "nat list"
  p_windows :: "nat list"
  p_views :: "nat list"
  p_waiter :: "(cptr \<times> nat) option"

datatype process_type = ActiveProcess user_process | ZombieProcess nat

definition MAX_PROCS :: nat where [const_defs]: "MAX_PROCS = 64"
definition MAX_HANDLES :: nat where [const_defs]: "MAX_HANDLES = 256"
definition MAX_HANDLE_CAPS :: nat where [const_defs]: "MAX_HANDLE_CAPS = 256"

record dma_pool =
  dp_vstart :: nat
  dp_pstart :: nat
  dp_pages :: "cptr list"
  dp_vspace :: cptr
  dp_ready :: bool

text \<open>\<open>r_data\<close> is the contents of the frames by frame reference; \<open>r_procs\<close> and \<open>r_names\<close> are
  the statics \<open>PROCS\<close> and \<open>SERVERS\<close>.\<close>

record 'k root =
  r_mem :: "'k memory"
  r_data :: "nat \<Rightarrow> nat \<Rightarrow> u8"
  r_dma :: dma_pool
  r_handle_caps :: "resource hctable"
  r_windows :: "nat \<Rightarrow> window"
  r_views :: "nat \<Rightarrow> view_info"
  r_objects :: "nat \<Rightarrow> mem_object"
  r_servers :: "nat \<Rightarrow> server_info"
  r_conns :: "nat \<Rightarrow> connection"
  r_cells :: "nat \<Rightarrow> process_type"
  r_next :: nat
  r_names :: "rust_str \<Rightarrow> nat option"
  r_procs :: "nat option list"

type_synonym ('k, 'a) handler = "('k root, InvocationError, 'a) op"

section \<open>Operations on its parts\<close>

definition in_mem :: "('k memory, 'e, 'a) op \<Rightarrow> ('k root, 'e, 'a) op" where
  "in_mem = on_part r_mem r_mem_update"

definition in_resources :: "('k resources, 'e, 'a) op \<Rightarrow> ('k root, 'e, 'a) op" where
  "in_resources m = in_mem (in_rs m)"

definition in_frames :: "(frame_table, 'e, 'a) op \<Rightarrow> ('k root, 'e, 'a) op" where
  "in_frames m = in_mem (in_ft m)"

definition in_world :: "('k, 'e, 'a) op \<Rightarrow> ('k root, 'e, 'a) op" where
  "in_world m = in_resources (in_kern m)"

definition upd_window :: "nat \<Rightarrow> (window \<Rightarrow> window) \<Rightarrow> ('k root, 'e, unit) op" where
  "upd_window w f = modify (\<lambda>s. s\<lparr>r_windows := (r_windows s)(w := f (r_windows s w))\<rparr>)"

definition upd_view :: "nat \<Rightarrow> (view_info \<Rightarrow> view_info) \<Rightarrow> ('k root, 'e, unit) op" where
  "upd_view v f = modify (\<lambda>s. s\<lparr>r_views := (r_views s)(v := f (r_views s v))\<rparr>)"

definition upd_object :: "nat \<Rightarrow> (mem_object \<Rightarrow> mem_object) \<Rightarrow> ('k root, 'e, unit) op" where
  "upd_object ob f = modify (\<lambda>s. s\<lparr>r_objects := (r_objects s)(ob := f (r_objects s ob))\<rparr>)"

definition upd_server :: "nat \<Rightarrow> (server_info \<Rightarrow> server_info) \<Rightarrow> ('k root, 'e, unit) op" where
  "upd_server sv f = modify (\<lambda>s. s\<lparr>r_servers := (r_servers s)(sv := f (r_servers s sv))\<rparr>)"

definition upd_conn :: "nat \<Rightarrow> (connection \<Rightarrow> connection) \<Rightarrow> ('k root, 'e, unit) op" where
  "upd_conn c f = modify (\<lambda>s. s\<lparr>r_conns := (r_conns s)(c := f (r_conns s c))\<rparr>)"

definition the_window :: "nat \<Rightarrow> ('k root, 'e, window) op" where
  "the_window w = gets (\<lambda>s. r_windows s w)"

definition the_view :: "nat \<Rightarrow> ('k root, 'e, view_info) op" where
  "the_view v = gets (\<lambda>s. r_views s v)"

definition the_object :: "nat \<Rightarrow> ('k root, 'e, mem_object) op" where
  "the_object ob = gets (\<lambda>s. r_objects s ob)"

definition the_server :: "nat \<Rightarrow> ('k root, 'e, server_info) op" where
  "the_server sv = gets (\<lambda>s. r_servers s sv)"

definition the_conn :: "nat \<Rightarrow> ('k root, 'e, connection) op" where
  "the_conn c = gets (\<lambda>s. r_conns s c)"

text \<open>\<open>Rc::new(RefCell::new(_))\<close>.\<close>

definition fresh_id :: "('k root, 'e, nat) op" where
  "fresh_id = bnd (gets r_next) (\<lambda>i. bnd (modify (\<lambda>s. s\<lparr>r_next := Suc i\<rparr>)) (\<lambda>_. ret i))"

definition new_window :: "window \<Rightarrow> ('k root, 'e, nat) op" where
  "new_window w = bnd fresh_id (\<lambda>i. bnd (upd_window i (\<lambda>_. w)) (\<lambda>_. ret i))"

definition new_view :: "view_info \<Rightarrow> ('k root, 'e, nat) op" where
  "new_view v = bnd fresh_id (\<lambda>i. bnd (upd_view i (\<lambda>_. v)) (\<lambda>_. ret i))"

definition new_object :: "mem_object \<Rightarrow> ('k root, 'e, nat) op" where
  "new_object ob = bnd fresh_id (\<lambda>i. bnd (upd_object i (\<lambda>_. ob)) (\<lambda>_. ret i))"

definition new_server :: "server_info \<Rightarrow> ('k root, 'e, nat) op" where
  "new_server sv = bnd fresh_id (\<lambda>i. bnd (upd_server i (\<lambda>_. sv)) (\<lambda>_. ret i))"

definition new_conn :: "connection \<Rightarrow> ('k root, 'e, nat) op" where
  "new_conn c = bnd fresh_id (\<lambda>i. bnd (upd_conn i (\<lambda>_. c)) (\<lambda>_. ret i))"

section \<open>The calling process\<close>

text \<open>Handlers get \<open>p: &mut UserProcess\<close> out of the cell \<open>me\<close>, which \<open>handle_syscall\<close> has
  checked to hold an active process.\<close>

definition get_proc :: "nat \<Rightarrow> ('k root, 'e, user_process) op" where
  "get_proc me = bnd (gets (\<lambda>s. r_cells s me)) (\<lambda>c. case c of ActiveProcess p \<Rightarrow> ret p | ZombieProcess _ \<Rightarrow> panic)"

definition set_cell :: "nat \<Rightarrow> process_type \<Rightarrow> ('k root, 'e, unit) op" where
  "set_cell c t = modify (\<lambda>s. s\<lparr>r_cells := (r_cells s)(c := t)\<rparr>)"

definition upd_proc :: "nat \<Rightarrow> (user_process \<Rightarrow> user_process) \<Rightarrow> ('k root, 'e, unit) op" where
  "upd_proc me f = bnd (get_proc me) (\<lambda>p. set_cell me (ActiveProcess (f p)))"

definition handle_tables :: "nat \<Rightarrow> ('k root, 'e, resource htables) op" where
  "handle_tables me = bnd (get_proc me) (\<lambda>p. bnd (gets r_handle_caps) (\<lambda>hc. ret (p_handles p, hc)))"

definition put_tables :: "nat \<Rightarrow> resource htables \<Rightarrow> ('k root, 'e, unit) op" where
  "put_tables me ts =
     bnd (upd_proc me (p_handles_update (\<lambda>_. fst ts))) (\<lambda>_. modify (\<lambda>s. s\<lparr>r_handle_caps := snd ts\<rparr>))"

text \<open>A handle argument, up to the \<open>as_ref().unwrap().inner()\<close> every handler goes on with.\<close>

definition find_generic :: "nat \<Rightarrow> ServerReceivedHandleOrHandleCap \<Rightarrow> u64 \<Rightarrow> ('k, resource) handler" where
  "find_generic me hndl which =
     bnd (handle_tables me) (\<lambda>ts.
     bnd (lift (generic_get_handle ts hndl which)) (\<lambda>place.
     lift (unwrap (read_place place ts))))"

definition find_local :: "nat \<Rightarrow> u64 \<Rightarrow> u64 \<Rightarrow> ('k, resource) handler" where
  "find_local me idx which =
     bnd (get_proc me) (\<lambda>p.
     bnd (lift (map_err (\<lambda>_. InvalidHandle which) (get_handle (unat idx) (p_handles p)))) (\<lambda>r.
     lift (unwrap r)))"

definition find_cap :: "u64 \<Rightarrow> u64 \<Rightarrow> ('k, resource) handler" where
  "find_cap idx which =
     bnd (gets r_handle_caps) (\<lambda>slots.
     bnd (lift (map_err (\<lambda>_. InvalidHandleCapability which) (get_handle_cap_mut (unat idx) slots))) (\<lambda>i.
     lift (unwrap (hc_handle (slots ! i)))))"

definition new_local :: "nat \<Rightarrow> ('k, nat) handler" where
  "new_local me = bnd (get_proc me) (\<lambda>p. lift (allocate_handle (p_handles p)))"

definition new_generic :: "nat \<Rightarrow> bool \<Rightarrow> ('k, nat \<times> hplace \<times> abs_cptr option) handler" where
  "new_generic me return_cap = bnd (handle_tables me) (\<lambda>ts. lift (generic_allocate_handle ts return_cap))"

definition put_ref :: "nat \<Rightarrow> hplace \<Rightarrow> resource \<Rightarrow> ('k root, 'e, unit) op" where
  "put_ref me place r = bnd (handle_tables me) (\<lambda>ts. put_tables me (write_place place r ts))"

definition drop_local :: "nat \<Rightarrow> u64 \<Rightarrow> ('k root, 'e, unit) op" where
  "drop_local me idx =
     bnd (get_proc me) (\<lambda>p.
     case cleanup_handle (unat idx) (p_handles p) of
       (Ok _, tbl) \<Rightarrow> upd_proc me (p_handles_update (\<lambda>_. tbl))
     | _ \<Rightarrow> panic)"

definition drop_generic :: "'k env \<Rightarrow> nat \<Rightarrow> ServerReceivedHandleOrHandleCap \<Rightarrow> u64 \<Rightarrow> ('k, unit) handler" where
  "drop_generic E me hndl which =
     bnd (handle_tables me) (\<lambda>ts.
     bnd (in_world (\<lambda>k. case generic_cleanup_handle (e_sel4 E) hndl which (ts, k) of
            (r, (ts', k')) \<Rightarrow> (obind r (\<lambda>_. Ok ts'), k'))) (\<lambda>ts'.
     put_tables me ts'))"

definition new_handle_reply :: "bool \<Rightarrow> nat \<Rightarrow> abs_cptr option \<Rightarrow> ('e, HandleOrHandleCap) outcome" where
  "new_handle_reply return_cap idx c =
     (if return_cap then obind (unwrap c) (\<lambda>c. Ok (HandleCap c)) else Ok (Handle (of_nat idx)))"

text \<open>\<open>sel4_sys::seL4_CapRights\<close>: write, read, grant and grant-reply from bit 0 on.\<close>

definition rights_of_word :: "u64 \<Rightarrow> cap_rights" where
  "rights_of_word w =
     \<lparr>cr_grant_reply = bit w 3, cr_grant = bit w 2, cr_read = bit w 1, cr_write = bit w 0\<rparr>"

end
