(* ===== verification/Views.thy ===== *)
theory Views
  imports Root_State
begin

text \<open>
  Windows, views and memory objects: the handlers of \<open>crates/root_server/src/window.rs\<close>,
  \<open>view.rs\<close> and \<open>object.rs\<close>, the window search of \<open>proc.rs\<close> and the page allocation of
  \<open>dma.rs\<close>.
\<close>

section \<open>Finding windows\<close>

text \<open>The two comparisons of \<open>overlapping_window\<close>, evaluated from left to right with the
  overflow checks of their sums.\<close>

definition overlaps :: "nat \<Rightarrow> nat \<Rightarrow> window \<Rightarrow> ('e, bool) outcome" where
  "overlaps start sz w =
     obind (if w_start w \<le> start
            then obind (add_us (w_start w) (w_size w)) (\<lambda>e. Ok (start < e)) else Ok False) (\<lambda>b.
     if b then Ok True
     else obind (add_us start sz) (\<lambda>e.
       if w_start w < e then obind (add_us (w_start w) (w_size w)) (\<lambda>e'. Ok (e < e')) else Ok False))"

definition contains_addr :: "nat \<Rightarrow> window \<Rightarrow> ('e, bool) outcome" where
  "contains_addr vaddr w =
     (if w_start w \<le> vaddr then obind (add_us (w_start w) (w_size w)) (\<lambda>e. Ok (vaddr < e)) else Ok False)"

fun first_window :: "(window \<Rightarrow> ('e, bool) outcome) \<Rightarrow> (nat \<Rightarrow> window) \<Rightarrow> nat list \<Rightarrow> ('e, nat option) outcome" where
  "first_window test store [] = Ok None"
| "first_window test store (w # ws) =
     obind (test (store w)) (\<lambda>b. if b then Ok (Some w) else first_window test store ws)"

definition overlapping_window :: "nat \<Rightarrow> nat \<Rightarrow> nat \<Rightarrow> ('k root, 'e, nat option) op" where
  "overlapping_window me start sz =
     bnd (get_proc me) (\<lambda>p. bnd (gets r_windows) (\<lambda>store.
     lift (first_window (overlaps start sz) store (p_windows p))))"

definition find_window_containing :: "nat \<Rightarrow> nat \<Rightarrow> ('k root, 'e, nat option) op" where
  "find_window_containing me vaddr =
     bnd (get_proc me) (\<lambda>p. bnd (gets r_windows) (\<lambda>store.
     lift (obind (first_window (contains_addr vaddr) store (p_initial_windows p)) (\<lambda>r.
       case r of Some w \<Rightarrow> Ok (Some w) | None \<Rightarrow> first_window (contains_addr vaddr) store (p_windows p)))))"

definition add_window_unchecked :: "nat \<Rightarrow> nat \<Rightarrow> ('k root, 'e, unit) op" where
  "add_window_unchecked me w = upd_proc me (\<lambda>p. p\<lparr>p_windows := p_windows p @ [w]\<rparr>)"

definition remove_window :: "nat \<Rightarrow> nat \<Rightarrow> ('k root, 'e, unit) op" where
  "remove_window me w =
     upd_proc me (\<lambda>p. p\<lparr>p_windows :=
       (case position w (p_windows p) of None \<Rightarrow> p_windows p | Some i \<Rightarrow> swap_remove i (p_windows p))\<rparr>)"

section \<open>Views and objects\<close>

definition view_new ::
  "nat \<Rightarrow> nat option \<Rightarrow> (nat \<times> u64 \<times> u64) option \<Rightarrow> cap_rights \<Rightarrow> nat \<Rightarrow> nat \<Rightarrow> view_info" where
  "view_new bw bo msi rights win_off obj_off =
     \<lparr>v_caps = empty_table, v_window = bw, v_object = bo, v_server = msi, v_rights = rights,
      v_win_offset = win_off, v_obj_offset = obj_off, v_fault = None\<rparr>"

definition object_new :: "nat \<Rightarrow> cap_rights \<Rightarrow> ObjAttributes \<Rightarrow> mem_object" where
  "object_new sz rights attributes =
     \<lparr>mo_size = sz, mo_rights = rights, mo_frames = empty_table, mo_views = [],
      mo_attributes = attributes, mo_dma = None\<rparr>"

definition insert_frame_at :: "nat \<Rightarrow> nat \<Rightarrow> cptr \<times> nat \<Rightarrow> ('k root, sel4_error, unit) op" where
  "insert_frame_at ob offset frame =
     bnd (the_object ob) (\<lambda>x.
     case table_insert offset frame (mo_frames x) of
       (r, t) \<Rightarrow> bnd (upd_object ob (mo_frames_update (\<lambda>_. t))) (\<lambda>_. lift r))"

definition insert_cap_at :: "nat \<Rightarrow> nat \<Rightarrow> cptr \<Rightarrow> ('k root, sel4_error, unit) op" where
  "insert_cap_at v offset cap =
     bnd (the_view v) (\<lambda>x.
     case table_insert offset cap (v_caps x) of
       (r, t) \<Rightarrow> bnd (upd_view v (v_caps_update (\<lambda>_. t))) (\<lambda>_. lift r))"

text \<open>The work of the two clean-up walks on one leaf; neither walk empties its table.\<close>

definition drop_view_cap :: "'k sel4 \<Rightarrow> bool \<Rightarrow> cptr \<Rightarrow> ('k resources, 'e, unit) op" where
  "drop_view_cap K delete c = seq (if delete then expect (rs_delete K c) else ret ()) (in_cs (cs_free_slot c))"

definition rs_revoke :: "'k sel4 \<Rightarrow> cptr \<Rightarrow> ('k, unit) rs_op" where
  "rs_revoke K c = bnd (gets rs_cs) (\<lambda>cs. kern_call (k_cnode_revoke K (cs_absolute cs c)))"

definition drop_object_frame :: "'k sel4 \<Rightarrow> bool \<Rightarrow> cptr \<times> nat \<Rightarrow> ('k memory, 'e, unit) op" where
  "drop_object_frame K revoke x =
     (case x of (c, r) \<Rightarrow> seq (if revoke then expect (in_rs (rs_revoke K c)) else ret ()) (in_ft (free_frame r)))"

definition cleanup_cap_table :: "'k sel4 \<Rightarrow> nat \<Rightarrow> bool \<Rightarrow> ('k root, 'e, unit) op" where
  "cleanup_cap_table K v delete =
     bnd (the_view v) (\<lambda>x. in_resources (cleanup_table (drop_view_cap K delete) (v_caps x)))"

definition cleanup_frame_table :: "'k sel4 \<Rightarrow> nat \<Rightarrow> ('k root, 'e, unit) op" where
  "cleanup_frame_table K ob =
     bnd (the_object ob) (\<lambda>x. in_mem (cleanup_table (drop_object_frame K (mo_views x \<noteq> [])) (mo_frames x)))"

text \<open>The view is found in its object's list and removed from it.\<close>

definition unlink_view :: "nat \<Rightarrow> ('k root, 'e, unit) op" where
  "unlink_view v =
     bnd (the_view v) (\<lambda>x.
     bnd (lift (unwrap (v_object x))) (\<lambda>ob.
     bnd (the_object ob) (\<lambda>y.
     bnd (lift (unwrap (position v (mo_views y)))) (\<lambda>pos.
     upd_object ob (\<lambda>y. y\<lparr>mo_views := swap_remove pos (mo_views y)\<rparr>)))))"

text \<open>A message to a server and the signal that announces it.\<close>

definition notify_server :: "'k env \<Rightarrow> nat \<Rightarrow> NotificationType \<Rightarrow> ('k root, 'e, unit) op" where
  "notify_server E sv msg =
     bnd (the_server sv) (\<lambda>x.
     bnd (in_world (expect (enqueue_ntfn_buffer_msg (e_enqueue E (sv_buffer x)) msg))) (\<lambda>_.
     bnd (lift (rs_badged_ntfn (sv_dispatch x))) (\<lambda>n.
     in_world (modify (e_signal E n)))))"

section \<open>Windows\<close>

definition WindowCreateArgs_BaseVaddr :: u64 where "WindowCreateArgs_BaseVaddr = 0"
definition WindowDestroyArgs_Handle :: u64 where "WindowDestroyArgs_Handle = 0"

text \<open>The sums of the warning can overflow like any other.\<close>

definition handle_window_create :: "nat \<Rightarrow> WindowCreate \<Rightarrow> ('k, SMOSReply) handler" where
  "handle_window_create me args =
     (let base = unat (wc_base_vaddr args); sz = unat (wc_size args) in
      bnd (guard (base mod PAGE_SIZE_4K = 0) (AlignmentError WindowCreateArgs_BaseVaddr)) (\<lambda>_.
      bnd (overlapping_window me base sz) (\<lambda>ov.
      case ov of
        Some w \<Rightarrow>
          bnd (the_window w) (\<lambda>x.
          bnd (lift (add_us base sz)) (\<lambda>_. bnd (lift (add_us (w_start x) (w_size x))) (\<lambda>_.
          fail InvalidArguments)))
      | None \<Rightarrow>
          bnd (new_generic me (wc_return_cap args)) (\<lambda>(idx, place, c).
          bnd (new_window \<lparr>w_start = base, w_size = sz, w_view = None\<rparr>) (\<lambda>w.
          bnd (put_ref me place (R_Window w)) (\<lambda>_.
          bnd (if wc_return_cap args then upd_proc me (\<lambda>p. p\<lparr>p_created_caps := p_created_caps p @ [idx]\<rparr>)
               else ret ()) (\<lambda>_.
          bnd (add_window_unchecked me w) (\<lambda>_.
          bnd (lift (new_handle_reply (wc_return_cap args) idx c)) (\<lambda>h.
          ret (Re_WindowCreate h))))))))))"

definition handle_window_register :: "nat \<Rightarrow> WindowRegister \<Rightarrow> ('k, SMOSReply) handler" where
  "handle_window_register me args =
     bnd (find_local me (wr_publish_hndl args) 0) (\<lambda>pub.
     bnd (case pub of R_Server sv \<Rightarrow> ret sv | _ \<Rightarrow> fail (InvalidHandle 0)) (\<lambda>server.
     bnd (find_cap (wr_window_hndl args) 1) (\<lambda>r.
     bnd (case r of R_Window w \<Rightarrow> ret w | _ \<Rightarrow> fail (InvalidHandleCapability 0)) (\<lambda>win.
     bnd (new_local me) (\<lambda>idx.
     bnd (new_view (view_new win None (Some (server, wr_client_id args, wr_reference args)) rights_all 0 0)) (\<lambda>v.
     bnd (upd_window win (w_view_update (\<lambda>_. Some v))) (\<lambda>_.
     bnd (put_ref me (Local idx) (R_WindowRegistration v)) (\<lambda>_.
     ret (Re_WindowRegister (of_nat idx))))))))))"

definition handle_window_deregister :: "'k env \<Rightarrow> nat \<Rightarrow> WindowDeregister \<Rightarrow> ('k, SMOSReply) handler" where
  "handle_window_deregister E me args =
     bnd (find_local me (wdr_hndl args) 0) (\<lambda>r.
     bnd (case r of R_WindowRegistration v \<Rightarrow> ret v | _ \<Rightarrow> fail (InvalidHandle 0)) (\<lambda>v.
     bnd (cleanup_cap_table (e_sel4 E) v True) (\<lambda>_.
     bnd (the_view v) (\<lambda>x.
     bnd (upd_window (v_window x) (w_view_update (\<lambda>_. None))) (\<lambda>_.
     bnd (ensure (v_object x = None)) (\<lambda>_.
     bnd (drop_local me (wdr_hndl args)) (\<lambda>_.
     ret Re_WindowDeregister)))))))"

definition handle_window_destroy_internal :: "'k env \<Rightarrow> nat \<Rightarrow> bool \<Rightarrow> ('k root, 'e, unit) op" where
  "handle_window_destroy_internal E w destroy_view =
     bnd (the_window w) (\<lambda>win.
     case w_view win of
       None \<Rightarrow> ret ()
     | Some bv \<Rightarrow>
         bnd (the_view bv) (\<lambda>x.
         bnd (case v_server x of
                None \<Rightarrow> ret ()
              | Some (server, client_id, reference) \<Rightarrow>
                  notify_server E server (N_WindowDestroy \<lparr>wdn_client_id = client_id, wdn_reference = reference\<rparr>)) (\<lambda>_.
         if destroy_view then seq (unlink_view bv) (cleanup_cap_table (e_sel4 E) bv True) else ret ())))"

definition handle_window_destroy :: "'k env \<Rightarrow> nat \<Rightarrow> WindowDestroy \<Rightarrow> ('k, SMOSReply) handler" where
  "handle_window_destroy E me args =
     bnd (find_generic me (wd_hndl args) WindowDestroyArgs_Handle) (\<lambda>r.
     bnd (case r of
            R_Window w \<Rightarrow> ret w
          | _ \<Rightarrow> bnd (lift (generic_invalid_handle_error (wd_hndl args) WindowDestroyArgs_Handle)) fail) (\<lambda>w.
     bnd (handle_window_destroy_internal E w True) (\<lambda>_.
     bnd (remove_window me w) (\<lambda>_.
     bnd (drop_generic E me (wd_hndl args) WindowDestroyArgs_Handle) (\<lambda>_.
     ret Re_WindowDestroy)))))"

section \<open>Views\<close>

definition ViewArgs_Window :: u64 where "ViewArgs_Window = 0"
definition ViewArgs_Object :: u64 where "ViewArgs_Object = 1"
definition ViewArgs_WinOffset :: u64 where "ViewArgs_WinOffset = 2"
definition ViewArgs_ObjOffset :: u64 where "ViewArgs_ObjOffset = 3"

text \<open>The alignment checks look at bit 12 of the offset only.\<close>

definition handle_view :: "nat \<Rightarrow> View \<Rightarrow> ('k, SMOSReply) handler" where
  "handle_view me args =
     (let win_off = unat (vw_window_offset args); obj_off = unat (vw_obj_offset args); sz = unat (vw_size args) in
      bnd (find_generic me (vw_window args) ViewArgs_Window) (\<lambda>r.
      bnd (case r of
             R_Window w \<Rightarrow> ret w
           | _ \<Rightarrow> bnd (lift (generic_invalid_handle_error (vw_window args) ViewArgs_Window)) fail) (\<lambda>win.
      bnd (find_generic me (vw_object args) ViewArgs_Object) (\<lambda>r.
      bnd (case r of
             R_Object ob \<Rightarrow> ret ob
           | _ \<Rightarrow> bnd (lift (generic_invalid_handle_error (vw_object args) ViewArgs_Object)) fail) (\<lambda>ob.
      bnd (guard (sz \<noteq> 0) InvalidArguments) (\<lambda>_.
      bnd (guard (win_off AND PAGE_SIZE_4K = 0) (AlignmentError ViewArgs_WinOffset)) (\<lambda>_.
      bnd (guard (obj_off AND PAGE_SIZE_4K = 0) (AlignmentError ViewArgs_ObjOffset)) (\<lambda>_.
      bnd (the_object ob) (\<lambda>y.
      bnd (lift (add_us obj_off sz)) (\<lambda>obj_end.
      bnd (guard (obj_end \<le> mo_size y) InvalidArguments) (\<lambda>_.
      bnd (the_window win) (\<lambda>x.
      bnd (lift (add_us win_off sz)) (\<lambda>win_end.
      bnd (guard (win_end \<le> w_size x) InvalidArguments) (\<lambda>_.
      bnd (guard (w_view x = None) InvalidArguments) (\<lambda>_.
      bnd (new_view (view_new win (Some ob) None (rights_of_word (vw_rights args)) win_off obj_off)) (\<lambda>v.
      bnd (upd_window win (w_view_update (\<lambda>_. Some v))) (\<lambda>_.
      bnd (upd_object ob (\<lambda>y. y\<lparr>mo_views := mo_views y @ [v]\<rparr>)) (\<lambda>_.
      bnd (new_local me) (\<lambda>idx.
      bnd (put_ref me (Local idx) (R_View v)) (\<lambda>_.
      bnd (upd_proc me (\<lambda>p. p\<lparr>p_views := p_views p @ [v]\<rparr>)) (\<lambda>_.
      ret (Re_View (of_nat idx)))))))))))))))))))))))"

definition handle_unview_internal :: "'k env \<Rightarrow> nat \<Rightarrow> ('k root, 'e, unit) op" where
  "handle_unview_internal E v =
     bnd (cleanup_cap_table (e_sel4 E) v True) (\<lambda>_.
     bnd (the_view v) (\<lambda>x.
     bnd (upd_window (v_window x) (w_view_update (\<lambda>_. None))) (\<lambda>_.
     bnd (ensure (v_object x \<noteq> None)) (\<lambda>_.
     unlink_view v))))"

definition handle_unview :: "'k env \<Rightarrow> nat \<Rightarrow> Unview \<Rightarrow> ('k, SMOSReply) handler" where
  "handle_unview E me args =
     bnd (find_local me (uv_hndl args) 0) (\<lambda>r.
     bnd (case r of R_View v \<Rightarrow> ret v | _ \<Rightarrow> fail (InvalidHandle 0)) (\<lambda>v.
     bnd (handle_unview_internal E v) (\<lambda>_.
     bnd (drop_local me (uv_hndl args)) (\<lambda>_.
     ret Re_Unview))))"

section \<open>Objects\<close>

definition MAX_OBJ_SIZE :: nat where [const_defs]: "MAX_OBJ_SIZE = OBJ_LVL_MAX ^ 4 * PAGE_SIZE_4K"

text \<open>\<open>str::parse::<usize>()\<close>: decimal digits after an optional plus sign, below \<open>2 ^ 64\<close>.\<close>

definition digit :: "u8 \<Rightarrow> nat option" where
  "digit c = (if 48 \<le> unat c \<and> unat c \<le> 57 then Some (unat c - 48) else None)"

fun parse_digits :: "nat \<Rightarrow> u8 list \<Rightarrow> nat option" where
  "parse_digits acc [] = Some acc"
| "parse_digits acc (c # cs) =
     (case digit c of
        None \<Rightarrow> None
      | Some d \<Rightarrow> if acc * 10 + d < usize_lim then parse_digits (acc * 10 + d) cs else None)"

definition parse_usize :: "rust_str \<Rightarrow> nat option" where
  "parse_usize s =
     (let ds = (case s of c # cs \<Rightarrow> if c = 43 then cs else s | [] \<Rightarrow> []) in
      if ds = [] then None else parse_digits 0 ds)"

definition allocation_paddr :: "dma_pool \<Rightarrow> nat \<Rightarrow> ('e, nat) outcome" where
  "allocation_paddr pool offset = obind (mul_us offset PAGE_SIZE_4K) (add_us (dp_pstart pool))"

definition allocate_contig_pages :: "'k env \<Rightarrow> nat \<Rightarrow> ('k, nat \<times> cptr list) handler" where
  "allocate_contig_pages E n_pages =
     bnd (gets r_dma) (\<lambda>pool.
     bnd (ensure (dp_ready pool)) (\<lambda>_.
     bnd (in_world (\<lambda>k. case e_dma_allocate E n_pages k of (r, k') \<Rightarrow> (ok_or InsufficientResources r, k'))) (\<lambda>offset.
     bnd (ensure (offset + n_pages \<le> length (dp_pages pool))) (\<lambda>_.
     ret (offset, take n_pages (drop offset (dp_pages pool)))))))"

definition frame_cap :: "nat \<Rightarrow> ('k root, 'e, cptr) op" where
  "frame_cap f = in_frames (bnd (frame_from_ref f) (\<lambda>i. bnd (the_frame i) (\<lambda>x. ret (fr_cap x))))"

text \<open>The index of each frame in the object times the page size is its offset.\<close>

definition insert_frames :: "nat \<Rightarrow> (cptr \<times> nat) list \<Rightarrow> ('k root, 'e, unit) op" where
  "insert_frames ob frames =
     for_each (\<lambda>(i, fr). expect (insert_frame_at ob (i * PAGE_SIZE_4K) fr)) (zip [0..<length frames] frames)"

definition eager_frame :: "'k sel4 \<Rightarrow> nat \<Rightarrow> nat \<Rightarrow> ('k root, 'e, unit) op" where
  "eager_frame K ob i =
     bnd (expect (in_mem (alloc_frame K))) (\<lambda>r.
     bnd (lift (unwrap r)) (\<lambda>f.
     bnd (frame_cap f) (\<lambda>c.
     expect (insert_frame_at ob (i * PAGE_SIZE_4K) (c, f)))))"

definition fill_object :: "'k env \<Rightarrow> nat \<Rightarrow> ObjCreate \<Rightarrow> ('k, unit) handler" where
  "fill_object E ob args =
     (let sz = unat (oc_size args); n_pages = sz div PAGE_SIZE_4K; has = attr_has (oc_attributes args) in
      if has ATTR_DEVICE then
        bnd (lift (unwrap (oc_name args))) (\<lambda>name.
        bnd (lift (unwrap (parse_usize name))) (\<lambda>paddr.
        bnd (expect (in_mem (alloc_device_mem (e_sel4 E) paddr sz))) (\<lambda>frames.
        insert_frames ob frames)))
      else if has ATTR_CONTIGUOUS then
        bnd (ensure (n_pages < 2 ^ 32)) (\<lambda>_.
        bnd (expect (allocate_contig_pages E n_pages)) (\<lambda>(alloc, pages).
        bnd (upd_object ob (mo_dma_update (\<lambda>_. Some alloc))) (\<lambda>_.
        insert_frames ob (List.map (\<lambda>c. (c, 0)) pages))))
      else if has ATTR_CONTIGUOUS \<and> n_pages = 1 \<or> has ATTR_EAGER
      then for_each (eager_frame (e_sel4 E) ob) [0..<n_pages]
      else ret ())"

definition handle_obj_create :: "'k env \<Rightarrow> nat \<Rightarrow> ObjCreate \<Rightarrow> ('k, SMOSReply) handler" where
  "handle_obj_create E me args =
     (let sz = unat (oc_size args) in
      bnd (guard (\<not> (oc_name args \<noteq> None \<and> \<not> attr_has (oc_attributes args) ATTR_DEVICE)) InvalidArguments) (\<lambda>_.
      bnd (guard (\<not> (sz = 0 \<or> sz mod PAGE_SIZE_4K \<noteq> 0)) InvalidArguments) (\<lambda>_.
      bnd (guard (\<not> MAX_OBJ_SIZE \<le> sz div PAGE_SIZE_4K) InvalidArguments) (\<lambda>_.
      bnd (new_object (object_new sz (rights_of_word (oc_rights args)) (oc_attributes args))) (\<lambda>ob.
      bnd (fill_object E ob args) (\<lambda>_.
      bnd (new_generic me (oc_return_cap args)) (\<lambda>(idx, place, c).
      bnd (put_ref me place (R_Object ob)) (\<lambda>_.
      bnd (if oc_return_cap args then upd_proc me (\<lambda>p. p\<lparr>p_created_caps := p_created_caps p @ [idx]\<rparr>)
           else ret ()) (\<lambda>_.
      bnd (lift (new_handle_reply (oc_return_cap args) idx c)) (\<lambda>h.
      ret (Re_ObjCreate h)))))))))))"

definition handle_obj_destroy_internal :: "'k env \<Rightarrow> nat \<Rightarrow> bool \<Rightarrow> ('k root, 'e, unit) op" where
  "handle_obj_destroy_internal E ob force_delete =
     bnd (the_object ob) (\<lambda>y.
     bnd (ensure (mo_views y = [] \<or> force_delete)) (\<lambda>_. cleanup_frame_table (e_sel4 E) ob))"

definition handle_obj_destroy :: "'k env \<Rightarrow> nat \<Rightarrow> ObjDestroy \<Rightarrow> ('k, SMOSReply) handler" where
  "handle_obj_destroy E me args =
     bnd (find_generic me (od_hndl args) 0) (\<lambda>r.
     bnd (case r of
            R_Object ob \<Rightarrow> ret ob
          | _ \<Rightarrow> bnd (lift (generic_invalid_handle_error (od_hndl args) 0)) fail) (\<lambda>ob.
     bnd (handle_obj_destroy_internal E ob False) (\<lambda>_.
     bnd (drop_generic E me (od_hndl args) 0) (\<lambda>_.
     ret Re_ObjDestroy))))"

definition handle_obj_stat :: "nat \<Rightarrow> ObjStat \<Rightarrow> ('k, SMOSReply) handler" where
  "handle_obj_stat me args =
     bnd (find_generic me (os_hndl args) 0) (\<lambda>r.
     bnd (case r of
            R_Object ob \<Rightarrow> ret ob
          | _ \<Rightarrow> bnd (lift (generic_invalid_handle_error (os_hndl args) 0)) fail) (\<lambda>ob.
     bnd (the_object ob) (\<lambda>y.
     bnd (gets r_dma) (\<lambda>pool.
     bnd (case mo_dma y of
            None \<Rightarrow> ret None
          | Some alloc \<Rightarrow> bnd (lift (allocation_paddr pool alloc)) (\<lambda>a. ret (Some a))) (\<lambda>paddr.
     ret (Re_ObjStat \<lparr>st_size = of_nat (mo_size y), st_paddr = map_option of_nat paddr\<rparr>))))))"

end
