(* ===== verification/VM.thy ===== *)
theory VM
  imports Views
begin

text \<open>
  Virtual memory: \<open>crates/root_server/src/vm.rs\<close> and \<open>fault.rs\<close>.  A page fault inside a window
  with a view is resolved from the view's table, else from the view's object, else with a fresh
  zeroed frame; a view without an object passes the fault on to the server that registered the
  window.  \<open>handle_page_map\<close> is that server's answer.
\<close>

section \<open>Filling a view\<close>

definition rs_copy :: "'k sel4 \<Rightarrow> cptr \<Rightarrow> cptr \<Rightarrow> cap_rights \<Rightarrow> ('k, unit) rs_op" where
  "rs_copy K dst src rights =
     bnd (gets rs_cs) (\<lambda>cs. kern_call (k_cnode_copy K (cs_absolute cs dst) (cs_absolute cs src) rights))"

definition copy_frame_cap :: "'k sel4 \<Rightarrow> cptr \<Rightarrow> ('k root, 'e, cptr) op" where
  "copy_frame_cap K src =
     bnd (expect (in_resources (in_cs cs_alloc_slot))) (\<lambda>slot.
     bnd (expect (in_resources (rs_copy K slot src rights_all))) (\<lambda>_. ret slot))"

definition zero_frame :: "nat \<Rightarrow> ('k root, 'e, unit) op" where
  "zero_frame f = bnd (in_frames (frame_data f)) (\<lambda>_. modify (\<lambda>s. s\<lparr>r_data := (r_data s)(f := \<lambda>_. 0)\<rparr>))"

text \<open>The object's frame at an offset, allocated and zeroed if there is none.\<close>

definition object_frame :: "'k sel4 \<Rightarrow> nat \<Rightarrow> nat \<Rightarrow> ('k root, 'e, cptr) op" where
  "object_frame K ob obj_offset =
     bnd (the_object ob) (\<lambda>y.
     case table_lookup (mo_frames y) obj_offset of
       Some (cap, _) \<Rightarrow> ret cap
     | None \<Rightarrow>
         bnd (expect (in_mem (alloc_frame K))) (\<lambda>r.
         bnd (lift (unwrap r)) (\<lambda>frame_ref.
         bnd (frame_cap frame_ref) (\<lambda>cap.
         bnd (expect (insert_frame_at ob obj_offset (cap, frame_ref))) (\<lambda>_.
         bnd (zero_frame frame_ref) (\<lambda>_. ret cap))))))"

definition fill_view :: "'k sel4 \<Rightarrow> nat \<Rightarrow> nat \<Rightarrow> nat \<Rightarrow> ('k root, 'e, unit) op" where
  "fill_view K v ob offset =
     bnd (the_view v) (\<lambda>x.
     bnd (lift (obind (sub_us offset (v_win_offset x)) (add_us (v_obj_offset x)))) (\<lambda>obj_offset.
     bnd (object_frame K ob obj_offset) (\<lambda>cap.
     bnd (copy_frame_cap K cap) (\<lambda>slot.
     expect (insert_cap_at v offset slot)))))"

definition view_cap :: "nat \<Rightarrow> nat \<Rightarrow> ('k root, 'e, cptr) op" where
  "view_cap v offset = bnd (the_view v) (\<lambda>x. lift (unwrap (table_lookup (v_caps x) offset)))"

section \<open>Faults\<close>

definition forward_vm_fault :: "'k env \<Rightarrow> nat \<Rightarrow> nat \<Rightarrow> nat \<Rightarrow> cptr \<times> nat \<Rightarrow> nat \<Rightarrow> ('k root, 'e, unit) op" where
  "forward_vm_fault E me v offset reply addr =
     bnd (the_view v) (\<lambda>x.
     bnd (lift (unwrap (v_server x))) (\<lambda>(server, client_id, reference).
     bnd (notify_server E server (N_VMFault
            \<lparr>vf_client_id = client_id, vf_reference = reference, vf_fault_offset = of_nat offset\<rparr>)) (\<lambda>_.
     bnd (get_proc me) (\<lambda>p.
     upd_view v (v_fault_update (\<lambda>_. Some (reply, addr, fst (p_vspace p))))))))"

text \<open>The answer \<open>Some (VMFaultReply resume)\<close> goes back to the faulting thread, \<open>None\<close> leaves it
  waiting.\<close>

definition handle_vm_fault :: "'k env \<Rightarrow> nat \<Rightarrow> cptr \<times> nat \<Rightarrow> nat \<Rightarrow> ('k root, 'e, FaultReply option) op" where
  "handle_vm_fault E me reply addr =
     bnd (find_window_containing me addr) (\<lambda>w.
     case w of
       None \<Rightarrow> ret (Some (VMFaultReply False))
     | Some w \<Rightarrow>
         bnd (the_window w) (\<lambda>win.
         case w_view win of
           None \<Rightarrow> ret (Some (VMFaultReply False))
         | Some v \<Rightarrow>
             bnd (lift (sub_us addr (w_start win))) (\<lambda>offset.
             bnd (the_view v) (\<lambda>x.
             let map_it =
               bnd (view_cap v offset) (\<lambda>cap.
               bnd (get_proc me) (\<lambda>p.
               bnd (expect (in_resources (map_frame (e_sel4 E) cap (fst (p_vspace p))
                      (ROUND_DOWN addr seL4_PageBits) (v_rights x) VM_DEFAULT None))) (\<lambda>_.
               ret (Some (VMFaultReply True))))) in
             if table_lookup (v_caps x) offset \<noteq> None then map_it
             else case v_object x of
                None \<Rightarrow> seq (forward_vm_fault E me v (ROUND_DOWN offset seL4_PageBits) reply addr) (ret None)
              | Some ob \<Rightarrow> seq (fill_view (e_sel4 E) v ob offset) map_it))))"

text \<open>\<open>sel4::Fault\<close>: a VM fault with its address, or another kind.\<close>

datatype fault = VmFault nat | OtherFault

definition handle_fault ::
  "'k env \<Rightarrow> nat \<Rightarrow> cptr \<times> nat \<Rightarrow> fault \<Rightarrow> ipc_buf \<Rightarrow> ('k root, 'e, msginfo option) op" where
  "handle_fault E pid reply f buf =
     bnd (gets r_procs) (\<lambda>procs.
     bnd (ensure (pid < length procs)) (\<lambda>_.
     bnd (lift (unwrap (procs ! pid))) (\<lambda>me.
     bnd (get_proc me) (\<lambda>_.
     case f of
       OtherFault \<Rightarrow> panic
     | VmFault addr \<Rightarrow>
         bnd (handle_vm_fault E me reply addr) (\<lambda>r.
         ret (case r of None \<Rightarrow> None | Some x \<Rightarrow> handle_fault_reply buf x))))))"

section \<open>Mapping a page for a client\<close>

definition resume_fault :: "'k env \<Rightarrow> nat \<Rightarrow> nat \<Rightarrow> ('k root, 'e, unit) op" where
  "resume_fault E v offset =
     bnd (the_view v) (\<lambda>x.
     case v_fault x of
       None \<Rightarrow> ret ()
     | Some (reply, addr, vspace) \<Rightarrow>
         bnd (view_cap v offset) (\<lambda>cap.
         bnd (expect (in_resources (map_frame (e_sel4 E) cap vspace (ROUND_DOWN addr seL4_PageBits)
                (v_rights x) VM_DEFAULT None))) (\<lambda>_.
         bnd (in_world (modify (e_send E (fst reply) (mk_msginfo 0 0 0)))) (\<lambda>_.
         bnd (expect (in_resources (dealloc_retyped (e_sel4 E) reply))) (\<lambda>_.
         upd_view v (v_fault_update (\<lambda>_. None)))))))"

definition handle_page_map :: "'k env \<Rightarrow> nat \<Rightarrow> PageMap \<Rightarrow> ('k, SMOSReply) handler" where
  "handle_page_map E me args =
     (let view_offset = unat (pm_view_offset args); vaddr = unat (pm_content_vaddr args); K = e_sel4 E in
      bnd (guard (view_offset mod PAGE_SIZE_4K = 0) (AlignmentError 1)) (\<lambda>_.
      bnd (guard (vaddr mod PAGE_SIZE_4K = 0) (AlignmentError 1)) (\<lambda>_.
      bnd (find_local me (pm_window_registration_hndl args) 0) (\<lambda>r.
      bnd (case r of R_WindowRegistration v \<Rightarrow> ret v | _ \<Rightarrow> fail (InvalidHandle 0)) (\<lambda>dst.
      bnd (the_view dst) (\<lambda>d.
      bnd (ensure (table_lookup (v_caps d) view_offset = None)) (\<lambda>_.
      bnd (find_window_containing me vaddr) (\<lambda>w.
      bnd (lift (ok_or InvalidArguments w)) (\<lambda>w.
      bnd (the_window w) (\<lambda>win.
      bnd (lift (sub_us vaddr (w_start win))) (\<lambda>src_offset.
      bnd (lift (ok_or InvalidArguments (w_view win))) (\<lambda>src.
      bnd (the_view src) (\<lambda>x.
      bnd (if table_lookup (v_caps x) src_offset \<noteq> None then ret ()
           else bnd (lift (unwrap (v_object x))) (\<lambda>ob. fill_view K src ob src_offset)) (\<lambda>_.
      bnd (expect (in_resources (in_cs cs_alloc_slot))) (\<lambda>slot.
      bnd (view_cap src src_offset) (\<lambda>cap.
      bnd (expect (in_resources (rs_copy K slot cap rights_all))) (\<lambda>_.
      bnd (expect (insert_cap_at dst view_offset slot)) (\<lambda>_.
      bnd (resume_fault E dst view_offset) (\<lambda>_.
      ret Re_PageMap)))))))))))))))))))"

end
