(* ===== verification/Elf_Load.thy ===== *)
theory Elf_Load
  imports VM
begin

text \<open>
  Loading a program: \<open>crates/root_server/src/elf_load.rs\<close>, and the stack of a new process,
  \<open>init_process_stack\<close> and the \<open>write_*_to_stack\<close> functions of \<open>proc.rs\<close>.  Every loadable
  segment becomes a window, an object and a view, filled page by page.
\<close>

section \<open>Segments\<close>

text \<open>\<open>elf::abi\<close>: the flags and the types of a segment.\<close>

definition PF_X :: u32 where "PF_X = 1"
definition PF_W :: u32 where "PF_W = 2"
definition PF_R :: u32 where "PF_R = 4"
definition PT_LOAD :: u32 where "PT_LOAD = 1"
definition PT_TLS :: u32 where "PT_TLS = 7"

definition rights_from_elf_flags :: "u32 \<Rightarrow> cap_rights" where
  "rights_from_elf_flags flags =
     rights_none\<lparr>cr_read := (flags AND PF_R \<noteq> 0 \<or> flags AND PF_X \<noteq> 0), cr_write := (flags AND PF_W \<noteq> 0)\<rparr>"

text \<open>Unlike \<open>proc.rs\<close>'s, this comparison counts a segment that ends where a window starts.\<close>

definition elf_overlaps :: "nat \<Rightarrow> nat \<Rightarrow> window \<Rightarrow> ('e, bool) outcome" where
  "elf_overlaps start sz w =
     obind (if w_start w \<le> start
            then obind (add_us (w_start w) (w_size w)) (\<lambda>e. Ok (start < e)) else Ok False) (\<lambda>b.
     if b then Ok True
     else obind (add_us start sz) (\<lambda>e.
       if w_start w \<le> e then obind (add_us (w_start w) (w_size w)) (\<lambda>e'. Ok (e < e')) else Ok False))"

text \<open>A segment in an existing window is accepted if it has the same rights and no data.\<close>

definition handle_overlapping_segment :: "nat \<Rightarrow> program_header \<Rightarrow> ('k root, 'e, unit) op" where
  "handle_overlapping_segment w segment =
     bnd (the_window w) (\<lambda>win.
     bnd (lift (unwrap (w_view win))) (\<lambda>v.
     bnd (the_view v) (\<lambda>x.
     bnd (ensure (rights_from_elf_flags (ph_flags segment) = v_rights x)) (\<lambda>_.
     ensure (ph_filesz segment = 0)))))"

text \<open>\<open>p_memsz + p_vaddr % 4096 + (4096 - (p_vaddr + p_memsz) % 4096)\<close> with its overflow checks.\<close>

definition total_size :: "program_header \<Rightarrow> ('e, nat) outcome" where
  "total_size segment =
     obind (add_us (ph_memsz segment) (ph_vaddr segment mod PAGE_SIZE_4K)) (\<lambda>a.
     obind (add_us (ph_vaddr segment) (ph_memsz segment)) (\<lambda>e.
     add_us a (PAGE_SIZE_4K - e mod PAGE_SIZE_4K)))"

section \<open>Page contents\<close>

text \<open>What one round of the loop leaves in the frame: zeros up to the segment's first byte in
  this page, its file bytes, zeros.  A page past the file contents is zero.  Slices out of range
  panic.\<close>

definition fill_page ::
  "u8 list \<Rightarrow> nat \<Rightarrow> nat \<Rightarrow> nat \<Rightarrow> nat \<Rightarrow> ('e, nat \<Rightarrow> u8) outcome" where
  "fill_page data filesz pos curr_offset leading =
     (if pos < filesz then
        let file_bytes = min (PAGE_SIZE_4K - leading) (filesz - pos) in
        if curr_offset + file_bytes \<le> length data
        then Ok (\<lambda>i. if leading \<le> i \<and> i < leading + file_bytes then data ! (curr_offset + (i - leading)) else 0)
        else Panic
      else Ok (\<lambda>_. 0))"

definition set_frame_data :: "nat \<Rightarrow> (nat \<Rightarrow> u8) \<Rightarrow> ('k root, 'e, unit) op" where
  "set_frame_data f bytes =
     bnd (in_frames (frame_data f)) (\<lambda>_. modify (\<lambda>s. s\<lparr>r_data := (r_data s)(f := bytes)\<rparr>))"

text \<open>A page of a view and its object: a new frame, and a copy of its capability in the view.\<close>

definition new_page :: "'k sel4 \<Rightarrow> nat \<Rightarrow> nat \<Rightarrow> nat \<Rightarrow> ('k root, sel4_error, nat \<times> cptr) op" where
  "new_page K ob v i =
     bnd (in_mem (alloc_frame K)) (\<lambda>r.
     bnd (lift (ok_or NotEnoughMemory r)) (\<lambda>f.
     bnd (frame_cap f) (\<lambda>cap.
     bnd (expect (insert_frame_at ob (i * PAGE_SIZE_4K) (cap, f))) (\<lambda>_.
     bnd (in_resources (in_cs cs_alloc_slot)) (\<lambda>slot.
     bnd (expect (in_resources (rs_copy K slot cap rights_all))) (\<lambda>_.
     bnd (expect (insert_cap_at v (i * PAGE_SIZE_4K) slot)) (\<lambda>_.
     ret (f, slot))))))))"

definition load_page ::
  "'k sel4 \<Rightarrow> cptr \<Rightarrow> program_header \<Rightarrow> u8 list \<Rightarrow> nat \<Rightarrow> nat \<Rightarrow> nat \<Rightarrow> nat \<Rightarrow> nat \<Rightarrow> nat \<Rightarrow>
   ('k root, sel4_error, unit) op" where
  "load_page K vspace segment data ob v pos curr_vaddr curr_offset i =
     bnd (new_page K ob v i) (\<lambda>(f, slot).
     bnd (the_view v) (\<lambda>x.
     bnd (attempt (in_resources (map_frame K slot vspace (ROUND_DOWN curr_vaddr seL4_PageBits)
            (v_rights x) VM_DEFAULT None))) (\<lambda>r.
     bnd (case r of
            Ok _ \<Rightarrow> ret ()
          | Err e \<Rightarrow>
              if e = DeleteFirst
              then seq (expect (in_resources (rs_delete K slot)))
                  (seq (in_resources (in_cs (cs_free_slot slot))) (in_frames (free_frame f)))
              else fail e
          | Panic \<Rightarrow> panic) (\<lambda>_.
     bnd (lift (fill_page data (ph_filesz segment) pos curr_offset (curr_vaddr mod PAGE_SIZE_4K))) (\<lambda>bytes.
     set_frame_data f bytes)))))"

text \<open>The \<open>while\<close> loop: \<open>pos\<close>, \<open>curr_vaddr\<close> and \<open>curr_offset\<close> move on by the rest of the page.\<close>

function load_pages ::
  "'k sel4 \<Rightarrow> cptr \<Rightarrow> program_header \<Rightarrow> u8 list \<Rightarrow> nat \<Rightarrow> nat \<Rightarrow> nat \<Rightarrow> nat \<Rightarrow> nat \<Rightarrow> nat \<Rightarrow>
   ('k root, sel4_error, unit) op" where
  "load_pages K vspace segment data ob v pos curr_vaddr curr_offset i =
     (if pos < ph_memsz segment then
        let step = PAGE_SIZE_4K - curr_vaddr mod PAGE_SIZE_4K in
        seq (load_page K vspace segment data ob v pos curr_vaddr curr_offset i)
            (load_pages K vspace segment data ob v (pos + step) (curr_vaddr + step) (curr_offset + step) (i + 1))
      else ret ())"
  by pat_completeness auto
termination
  by (relation "measure (\<lambda>(K, vspace, segment, data, ob, v, pos, _). ph_memsz segment - pos)")
    (auto simp: const_defs BIT_def intro!: diff_less_mono2)

declare load_pages.simps [simp del]

definition load_segment_into_vspace ::
  "'k sel4 \<Rightarrow> cptr \<Rightarrow> program_header \<Rightarrow> u8 list \<Rightarrow> nat list \<Rightarrow> ('k root, sel4_error, nat list) op" where
  "load_segment_into_vspace K vspace segment data windows =
     bnd (lift (total_size segment)) (\<lambda>total.
     bnd (gets r_windows) (\<lambda>store.
     bnd (lift (first_window (elf_overlaps (ph_vaddr segment) (ph_memsz segment)) store windows)) (\<lambda>ov.
     case ov of
       Some w \<Rightarrow> bnd (handle_overlapping_segment w segment) (\<lambda>_. ret windows)
     | None \<Rightarrow>
         bnd (ensure (total \<le> MAX_OBJ_SIZE)) (\<lambda>_.
         let rights = rights_from_elf_flags (ph_flags segment) in
         bnd (new_window \<lparr>w_start = ROUND_DOWN (ph_vaddr segment) seL4_PageBits, w_size = total, w_view = None\<rparr>) (\<lambda>w.
         bnd (new_object (object_new total rights ATTR_DEFAULT)) (\<lambda>ob.
         bnd (new_view (view_new w (Some ob) None rights 0 0)) (\<lambda>v.
         bnd (upd_window w (w_view_update (\<lambda>_. Some v))) (\<lambda>_.
         bnd (upd_object ob (\<lambda>y. y\<lparr>mo_views := mo_views y @ [v]\<rparr>)) (\<lambda>_.
         bnd (load_pages K vspace segment data ob v 0 (ph_vaddr segment) 0 0) (\<lambda>_.
         ret (windows @ [w]))))))))))) "

fun load_segments ::
  "'k sel4 \<Rightarrow> cptr \<Rightarrow> (program_header \<times> u8 list option) list \<Rightarrow> nat list \<Rightarrow> ('k root, sel4_error, nat list) op" where
  "load_segments K vspace [] windows = ret windows"
| "load_segments K vspace ((segment, data) # segments) windows =
     (if ph_type segment \<noteq> PT_LOAD \<and> ph_type segment \<noteq> PT_TLS then load_segments K vspace segments windows
      else bnd (lift (unwrap data)) (\<lambda>bytes.
           bnd (load_segment_into_vspace K vspace segment bytes windows)
             (load_segments K vspace segments)))"

definition load_elf :: "'k sel4 \<Rightarrow> cptr \<Rightarrow> elf_file \<Rightarrow> ('k root, sel4_error, nat list) op" where
  "load_elf K vspace elf =
     bnd (lift (ok_or InvalidArgument (elf_segments elf))) (\<lambda>segments. load_segments K vspace segments [])"

section \<open>The stack\<close>

definition PROCESS_STACK_TOP :: nat where [const_defs]: "PROCESS_STACK_TOP = 0x90000000"
definition STACK_PAGES :: nat where [const_defs]: "STACK_PAGES = 128"
definition PROCESS_IPC_BUFFER :: nat where [const_defs]: "PROCESS_IPC_BUFFER = 0xA0000000"
definition PROCESS_RS_DATA_TRANSFER_PAGE :: nat where [const_defs]: "PROCESS_RS_DATA_TRANSFER_PAGE = 0xA0001000"

definition STACK_BOTTOM :: nat where [const_defs]: "STACK_BOTTOM = PROCESS_STACK_TOP - STACK_PAGES * PAGE_SIZE_4K"

definition init_process_stack :: "'k sel4 \<Rightarrow> ('k root, sel4_error, nat \<times> nat) op" where
  "init_process_stack K =
     bnd (new_window \<lparr>w_start = PROCESS_STACK_TOP - STACK_PAGES * PAGE_SIZE_4K,
            w_size = STACK_PAGES * PAGE_SIZE_4K, w_view = None\<rparr>) (\<lambda>w.
     bnd (new_object (object_new (STACK_PAGES * PAGE_SIZE_4K) rights_all ATTR_DEFAULT)) (\<lambda>ob.
     bnd (new_view (view_new w (Some ob) None rights_all 0 0)) (\<lambda>v.
     bnd (upd_window w (w_view_update (\<lambda>_. Some v))) (\<lambda>_.
     bnd (upd_object ob (\<lambda>y. y\<lparr>mo_views := mo_views y @ [v]\<rparr>)) (\<lambda>_.
     bnd (for_each (\<lambda>i. bnd (new_page K ob v i) (\<lambda>_. ret ())) [0..<STACK_PAGES]) (\<lambda>_.
     ret (PROCESS_STACK_TOP, w)))))))"

text \<open>The frame of the stack that holds an address, and a write at that address; bytes past the
  end of the page are an index out of range.\<close>

definition stack_frame :: "nat \<Rightarrow> nat \<Rightarrow> ('k root, 'e, nat) op" where
  "stack_frame stack_win vaddr =
     bnd (lift (sub_us vaddr STACK_BOTTOM)) (\<lambda>offset.
     bnd (the_window stack_win) (\<lambda>win.
     bnd (lift (unwrap (w_view win))) (\<lambda>v.
     bnd (the_view v) (\<lambda>x.
     bnd (lift (unwrap (v_object x))) (\<lambda>ob.
     bnd (the_object ob) (\<lambda>y.
     bnd (lift (unwrap (table_lookup (mo_frames y) offset))) (\<lambda>(_, f).
     bnd (in_frames (frame_data f)) (\<lambda>_. ret f))))))))"

definition put_bytes :: "nat \<Rightarrow> u8 list \<Rightarrow> (nat \<Rightarrow> u8) \<Rightarrow> nat \<Rightarrow> u8" where
  "put_bytes off bytes page = (\<lambda>i. if off \<le> i \<and> i < off + length bytes then bytes ! (i - off) else page i)"

definition write_bytes_to_stack :: "nat \<Rightarrow> nat \<Rightarrow> u8 list \<Rightarrow> ('k root, 'e, unit) op" where
  "write_bytes_to_stack stack_win vaddr bytes =
     bnd (stack_frame stack_win vaddr) (\<lambda>f.
     bnd (ensure (vaddr mod PAGE_SIZE_4K + length bytes \<le> PAGE_SIZE_4K)) (\<lambda>_.
     modify (\<lambda>s. s\<lparr>r_data := (r_data s)(f := put_bytes (vaddr mod PAGE_SIZE_4K) bytes (r_data s f))\<rparr>)))"

text \<open>\<open>LittleEndian::write_u64_into\<close> and \<open>write_u32_into\<close>.\<close>

definition bytes_of_u64 :: "u64 \<Rightarrow> u8 list" where
  "bytes_of_u64 w = List.map (\<lambda>i. ucast (drop_bit (8 * i) w)) [0..<8]"

definition bytes_of_u32 :: "u32 \<Rightarrow> u8 list" where
  "bytes_of_u32 w = List.map (\<lambda>i. ucast (drop_bit (8 * i) w)) [0..<4]"

definition write_words_to_stack :: "nat \<Rightarrow> nat \<Rightarrow> u64 list \<Rightarrow> ('k root, 'e, unit) op" where
  "write_words_to_stack stack_win vaddr ws = write_bytes_to_stack stack_win vaddr (concat (List.map bytes_of_u64 ws))"

definition write_half_words_to_stack :: "nat \<Rightarrow> nat \<Rightarrow> u32 list \<Rightarrow> ('k root, 'e, unit) op" where
  "write_half_words_to_stack stack_win vaddr ws = write_bytes_to_stack stack_win vaddr (concat (List.map bytes_of_u32 ws))"

end
