(* ===== verification/Connections.thy ===== *)
theory Connections
  imports Views
begin

text \<open>
  Servers and connections: the handlers of \<open>crates/root_server/src/connection.rs\<close>, and
  \<open>handle_irq_register\<close> of \<open>irq.rs\<close>.  A server publishes a name; a client that connects gets a
  badged capability to the server's endpoint; the server registers the connection to be told when
  it goes away.
\<close>

definition find_server_with_name :: "rust_str \<Rightarrow> ('k root, 'e, nat option) op" where
  "find_server_with_name name = gets (\<lambda>s. r_names s name)"

definition the_publish_handle :: "nat \<Rightarrow> u64 \<Rightarrow> ('k, nat) handler" where
  "the_publish_handle me hndl =
     bnd (find_local me hndl 0) (\<lambda>r. case r of R_Server sv \<Rightarrow> ret sv | _ \<Rightarrow> fail (InvalidHandle 0))"

text \<open>An operation of a server's notification dispatcher.\<close>

definition in_dispatch :: "nat \<Rightarrow> (ntfn_dispatch \<times> 'k resources, 'e, 'a) op \<Rightarrow> ('k root, 'e, 'a) op" where
  "in_dispatch sv m s =
     (case m (sv_dispatch (r_servers s sv), mem_rs (r_mem s)) of
        (r, (d, rs)) \<Rightarrow>
          (r, s\<lparr>r_servers := (r_servers s)(sv := (r_servers s sv)\<lparr>sv_dispatch := d\<rparr>),
                r_mem := (r_mem s)\<lparr>mem_rs := rs\<rparr>\<rparr>))"

section \<open>Registration\<close>

text \<open>The loop over the server's connections stops at the first one with the client's number.\<close>

definition handle_conn_register :: "nat \<Rightarrow> ConnRegister \<Rightarrow> ('k, SMOSReply) handler" where
  "handle_conn_register me args =
     bnd (the_publish_handle me (cr_publish_hndl args)) (\<lambda>sv.
     bnd (the_server sv) (\<lambda>server.
     bnd (gets r_conns) (\<lambda>conns.
     case List.find (\<lambda>c. cn_id (conns c) = unat (cr_client_id args)) (sv_connections server) of
       None \<Rightarrow> fail InvalidArguments
     | Some c \<Rightarrow>
         bnd (upd_conn c (cn_registered_update (\<lambda>_. True))) (\<lambda>_.
         bnd (new_local me) (\<lambda>idx.
         bnd (put_ref me (Local idx) (R_ConnRegistration c)) (\<lambda>_.
         ret (Re_ConnRegister (of_nat idx))))))))"

definition handle_conn_deregister :: "nat \<Rightarrow> ConnDeregister \<Rightarrow> ('k, SMOSReply) handler" where
  "handle_conn_deregister me args =
     bnd (find_local me (cdr_hndl args) 0) (\<lambda>r.
     bnd (case r of R_ConnRegistration c \<Rightarrow> ret c | _ \<Rightarrow> fail (InvalidHandle 0)) (\<lambda>c.
     bnd (upd_conn c (cn_registered_update (\<lambda>_. False))) (\<lambda>_.
     bnd (drop_local me (cdr_hndl args)) (\<lambda>_.
     ret Re_ConnDeregister))))"

section \<open>Connecting\<close>

definition proc_entry :: "nat \<Rightarrow> ('k root, 'e, nat option) op" where
  "proc_entry i = bnd (gets r_procs) (\<lambda>procs. bnd (ensure (i < length procs)) (\<lambda>_. ret (procs ! i)))"

definition handle_conn_create :: "'k env \<Rightarrow> nat \<Rightarrow> ConnCreate \<Rightarrow> ('k, SMOSReply) handler" where
  "handle_conn_create E me args =
     bnd (get_proc me) (\<lambda>p.
     bnd (find_server_with_name (cc_name args)) (\<lambda>found.
     bnd (lift (ok_or InvalidArguments found)) (\<lambda>sv.
     bnd (the_server sv) (\<lambda>server.
     bnd (guard (sv_pid server \<noteq> p_pid p) InvalidArguments) (\<lambda>_.
     bnd (on_err (in_resources (in_cs cs_alloc_slot)) (\<lambda>_. fail InsufficientResources)) (\<lambda>slot.
     bnd (expect (in_resources (rs_mint (e_sel4 E) slot (fst (sv_ep server)) rights_all
            (of_nat (p_pid p) OR INVOCATION_EP_BITS)))) (\<lambda>_.
     bnd (proc_entry (p_pid p)) (\<lambda>entry.
     bnd (lift (unwrap entry)) (\<lambda>client.
     bnd (new_conn \<lparr>cn_id = p_pid p, cn_client = client, cn_server = sv, cn_badged_ep = slot,
            cn_registered = False\<rparr>) (\<lambda>c.
     bnd (upd_server sv (\<lambda>x. x\<lparr>sv_connections := sv_connections x @ [c]\<rparr>)) (\<lambda>_.
     bnd (new_local me) (\<lambda>idx.
     bnd (put_ref me (Local idx) (R_Connection c)) (\<lambda>_.
     ret (Re_ConnCreate (of_nat idx) (of_nat slot)))))))))))))))"

text \<open>The connection stays in the server's list, and the badged capability in its slot.\<close>

definition handle_conn_destroy :: "'k env \<Rightarrow> nat \<Rightarrow> ConnDestroy \<Rightarrow> ('k, SMOSReply) handler" where
  "handle_conn_destroy E me args =
     bnd (find_local me (cd_hndl args) 0) (\<lambda>r.
     bnd (case r of R_Connection c \<Rightarrow> ret c | _ \<Rightarrow> fail (InvalidHandle 0)) (\<lambda>c.
     bnd (the_conn c) (\<lambda>conn.
     bnd (expect (in_resources (rs_revoke (e_sel4 E) (cn_badged_ep conn)))) (\<lambda>_.
     bnd (if cn_registered conn
          then notify_server E (cn_server conn) (N_ConnDestroy \<lparr>cdn_conn_id = of_nat (cn_id conn)\<rparr>)
          else ret ()) (\<lambda>_.
     bnd (drop_local me (cd_hndl args)) (\<lambda>_.
     ret Re_ConnDestroy))))))"

section \<open>Server-made capabilities\<close>

definition handle_server_handle_cap_create ::
  "'k env \<Rightarrow> nat \<Rightarrow> ServerHandleCapCreate \<Rightarrow> ('k, SMOSReply) handler" where
  "handle_server_handle_cap_create E me args =
     bnd (the_publish_handle me (sh_publish_hndl args)) (\<lambda>sv.
     bnd (the_server sv) (\<lambda>server.
     bnd (on_err (in_resources (in_cs cs_alloc_slot)) (\<lambda>_. fail InsufficientResources)) (\<lambda>cap.
     bnd (on_err (in_resources (rs_mint (e_sel4 E) cap (fst (sv_ep server)) rights_none (sh_ident args)))
            (\<lambda>_. seq (in_resources (in_cs (cs_free_slot cap))) (fail InsufficientResources))) (\<lambda>_.
     bnd (undo_on_err (new_local me)
            (seq (expect (in_resources (rs_delete (e_sel4 E) cap)))
                 (in_resources (in_cs (cs_free_slot cap))))) (\<lambda>idx.
     bnd (put_ref me (Local idx) (R_HandleCap cap)) (\<lambda>_.
     ret (Re_ServerHandleCapCreate (of_nat idx) (of_nat cap))))))))"

definition handle_server_create_channel ::
  "'k env \<Rightarrow> nat \<Rightarrow> ServerCreateChannel \<Rightarrow> ('k, SMOSReply) handler" where
  "handle_server_create_channel E me args =
     bnd (the_publish_handle me (sc_publish_hndl args)) (\<lambda>sv.
     bnd (bnd (gets r_handle_caps) (\<lambda>slots. lift (allocate_handle_cap slots))) (\<lambda>(idx, c).
     bnd (in_dispatch sv (ntfn_register (e_sel4 E))) (\<lambda>(badge_bit, ntfn).
     bnd (put_ref me (Cap idx) (R_ChannelAuthority (ntfn, badge_bit))) (\<lambda>_.
     bnd (upd_proc me (\<lambda>p. p\<lparr>p_created_caps := p_created_caps p @ [idx]\<rparr>)) (\<lambda>_.
     bnd (lift (unwrap c)) (\<lambda>c.
     ret (Re_ServerCreateChannel (of_nat badge_bit) c)))))))"

definition handle_channel_open :: "ChannelOpen \<Rightarrow> ('k, SMOSReply) handler" where
  "handle_channel_open args =
     bnd (find_cap (cho_hndl_cap args) 0) (\<lambda>r.
     case r of
       R_ChannelAuthority (ntfn, _) \<Rightarrow> ret (Re_ChannelOpen (of_nat ntfn))
     | _ \<Rightarrow> fail (InvalidHandleCapability 0))"

definition handle_irq_register :: "'k env \<Rightarrow> nat \<Rightarrow> IRQRegister \<Rightarrow> ('k, SMOSReply) handler" where
  "handle_irq_register E me args =
     bnd (the_publish_handle me (ir_publish_hndl args)) (\<lambda>sv.
     bnd (in_dispatch sv (irq_register_bit (e_sel4 E) (unat (ir_irq_num args)) (ir_edge_triggered args)))
       (\<lambda>(badge_bit, irq_handler).
     bnd (new_local me) (\<lambda>idx.
     bnd (put_ref me (Local idx) (R_IRQRegistration (ir_irq_num args, badge_bit))) (\<lambda>_.
     ret (Re_IRQRegister (of_nat idx) (of_nat irq_handler) (of_nat badge_bit))))))"

section \<open>Publishing\<close>

text \<open>\<open>sel4::init_thread::slot::IRQ_CONTROL\<close>.\<close>

definition IRQ_CONTROL :: cptr where "IRQ_CONTROL = 4"

text \<open>\<open>ntfn_register\<close> on a dispatcher that is not yet part of a server.\<close>

definition register_root_ntfn :: "'k sel4 \<Rightarrow> ntfn_dispatch \<Rightarrow> ('k root, InvocationError, ntfn_dispatch) op" where
  "register_root_ntfn K d s =
     (case ntfn_register K (d, mem_rs (r_mem s)) of
        (r, (d', rs)) \<Rightarrow> (obind r (\<lambda>_. Ok d'), s\<lparr>r_mem := (r_mem s)\<lparr>mem_rs := rs\<rparr>\<rparr>))"

definition in_rs_total :: "('k, unit) rs_op \<Rightarrow> ('k root, 'e, unit) op" where
  "in_rs_total m = expect (in_resources m)"

definition unbind :: "'k env \<Rightarrow> cptr \<Rightarrow> ('k root, 'e, unit) op" where
  "unbind E tcb = in_rs_total (kern_call (e_unbind_ntfn E tcb))"

text \<open>The window, object and view of the notification buffer, which is one page.\<close>

definition make_buffer_view :: "nat \<Rightarrow> nat \<Rightarrow> cptr \<Rightarrow> nat \<Rightarrow> ('k root, 'e, nat) op" where
  "make_buffer_view me vaddr cap frame_ref =
     bnd (new_window \<lparr>w_start = vaddr, w_size = PAGE_SIZE_4K, w_view = None\<rparr>) (\<lambda>w.
     bnd (new_object (object_new PAGE_SIZE_4K rights_all ATTR_DEFAULT)) (\<lambda>ob.
     bnd (new_view (view_new w (Some ob) None rights_all 0 0)) (\<lambda>v.
     bnd (upd_window w (w_view_update (\<lambda>_. Some v))) (\<lambda>_.
     bnd (upd_object ob (\<lambda>y. y\<lparr>mo_views := mo_views y @ [v]\<rparr>)) (\<lambda>_.
     bnd (expect (insert_frame_at ob 0 (cap, frame_ref))) (\<lambda>_.
     bnd (add_window_unchecked me w) (\<lambda>_.
     bnd (upd_proc me (\<lambda>p. p\<lparr>p_views := p_views p @ [v]\<rparr>)) (\<lambda>_.
     ret v))))))))"

text \<open>The endpoint, the notification bound to the thread, and its dispatcher with the root
  server's own badge.\<close>

definition make_endpoint :: "'k env \<Rightarrow> cptr \<Rightarrow> ('k root, InvocationError, (cptr \<times> nat) \<times> (cptr \<times> nat) \<times> ntfn_dispatch) op" where
  "make_endpoint E tcb =
     (let K = e_sel4 E; alloc = \<lambda>bp. in_resources (alloc_retype K bp);
          drop = \<lambda>x. in_rs_total (dealloc_retyped K x) in
      bnd (on_err (alloc BEndpoint) (\<lambda>_. fail InsufficientResources)) (\<lambda>ep.
      bnd (on_err (alloc BNotification) (\<lambda>_. seq (drop ep) (fail InsufficientResources))) (\<lambda>ntfn.
      bnd (on_err (in_resources (kern_call (e_bind_ntfn E tcb (fst ntfn))))
             (\<lambda>_. seq (drop ntfn) (seq (drop ep) (fail InsufficientResources)))) (\<lambda>_.
      bnd (on_err (register_root_ntfn K (ntfn_dispatch_new IRQ_CONTROL ntfn NTFN_BIT IRQ_IDENT_BADGE_BITS))
             (\<lambda>_. seq (unbind E tcb) (seq (drop ntfn) (seq (drop ep) (fail InsufficientResources))))) (\<lambda>d.
      ret (ep, ntfn, d))))))"

text \<open>The clean-up of a failed frame allocation destroys the dispatcher, which frees the
  notification, and then frees the notification again.\<close>

definition buffer_frame ::
  "'k env \<Rightarrow> cptr \<Rightarrow> cptr \<times> nat \<Rightarrow> cptr \<times> nat \<Rightarrow> ntfn_dispatch \<Rightarrow> ('k root, InvocationError, nat) op" where
  "buffer_frame E tcb ep ntfn d =
     (let K = e_sel4 E in
      bnd (expect (in_mem (alloc_frame K))) (\<lambda>r.
      case r of
        Some f \<Rightarrow> ret f
      | None \<Rightarrow>
          seq (in_rs_total (ntfn_dispatch_destroy K d))
         (seq (unbind E tcb)
         (seq (in_rs_total (dealloc_retyped K ep))
         (seq (in_rs_total (dealloc_retyped K ntfn))
              (fail InsufficientResources))))))"

definition handle_conn_publish :: "'k env \<Rightarrow> nat \<Rightarrow> ConnPublish \<Rightarrow> ('k, SMOSReply) handler" where
  "handle_conn_publish E me args =
     (let vaddr = unat (cp_ntfn_buffer args) in
      bnd (find_server_with_name (cp_name args)) (\<lambda>found.
      bnd (guard (found = None) InvalidArguments) (\<lambda>_.
      bnd (guard (vaddr mod PAGE_SIZE_4K = 0) (AlignmentError 0)) (\<lambda>_.
      bnd (guard (\<not> e_user_top E \<le> vaddr) InvalidArguments) (\<lambda>_.
      bnd (overlapping_window me vaddr PAGE_SIZE_4K) (\<lambda>ov.
      bnd (guard (ov = None) InvalidArguments) (\<lambda>_.
      bnd (get_proc me) (\<lambda>p.
      bnd (make_endpoint E (fst (p_tcb p))) (\<lambda>(ep, ntfn, d).
      bnd (buffer_frame E (fst (p_tcb p)) ep ntfn d) (\<lambda>frame_ref.
      bnd (frame_cap frame_ref) (\<lambda>cap.
      bnd (make_buffer_view me vaddr cap frame_ref) (\<lambda>v.
      bnd (in_frames (frame_data frame_ref)) (\<lambda>addr.
      bnd (in_world (modify (e_ring_init E addr))) (\<lambda>_.
      bnd (new_local me) (\<lambda>idx.
      bnd (new_server \<lparr>sv_pid = p_pid p, sv_ep = ep, sv_dispatch = d, sv_view = v, sv_buffer = addr,
             sv_connections = []\<rparr>) (\<lambda>sv.
      bnd (modify (\<lambda>s. s\<lparr>r_names := (r_names s)(cp_name args \<mapsto> sv)\<rparr>)) (\<lambda>_.
      bnd (put_ref me (Local idx) (R_Server sv)) (\<lambda>_.
      ret (Re_ConnPublish (of_nat idx) (of_nat (fst ep)))))))))))))))))))))"

end
