(* ===== verification/Processes.thy ===== *)
theory Processes
  imports Elf_Load Connections User_CSpace
begin

text \<open>
  Processes: \<open>crates/root_server/src/proc.rs\<close>, with \<open>UserCSpace::new\<close> and \<open>destroy\<close> of
  \<open>cspace.rs\<close>.  A process is started from an ELF file and a set of kernel objects, every step
  undoing the earlier ones when it fails; it ends in \<open>destroy\<close> and wakes the process that waits
  for it, or leaves a zombie.
\<close>

section \<open>The process table\<close>

definition procs_set :: "nat \<Rightarrow> nat option \<Rightarrow> ('k root, 'e, unit) op" where
  "procs_set i proc =
     bnd (gets r_procs) (\<lambda>procs. bnd (ensure (i < length procs)) (\<lambda>_.
     modify (\<lambda>s. s\<lparr>r_procs := (r_procs s)[i := proc]\<rparr>)))"

definition find_free_proc :: "('k root, 'e, nat option) op" where
  "find_free_proc = gets (\<lambda>s. List.find (\<lambda>i. r_procs s ! i = None) [0..<length (r_procs s)])"

definition new_cell :: "process_type \<Rightarrow> ('k root, 'e, nat) op" where
  "new_cell t = bnd fresh_id (\<lambda>i. bnd (set_cell i t) (\<lambda>_. ret i))"

section \<open>A process's CSpace\<close>

definition user_cspace_new :: "'k sel4 \<Rightarrow> (nat \<Rightarrow> u64) \<Rightarrow> ('k, user_cspace) rs_op" where
  "user_cspace_new K guard_word =
     bnd (alloc_retype K (BCNode (CNODE_SLOT_BITS seL4_PageBits))) (\<lambda>untyped.
     bnd (in_cs cs_alloc_slot) (\<lambda>root_cnode.
     bnd (expect (rs_mint K root_cnode (fst untyped) rights_all (guard_word (64 - CNODE_SLOT_BITS (CNODE_SIZE_BITS - 1))))) (\<lambda>_.
     bnd (expect (rs_delete K (fst untyped))) (\<lambda>_.
     bnd (in_cs (cs_free_slot (fst untyped))) (\<lambda>_.
     let cs = (cspace_new root_cnode False CNODE_SIZE_BITS [])\<lparr>cs_top_bf := bitfield_init (CNODE_SLOTS CNODE_SIZE_BITS)\<rparr> in
     case cs_alloc_slot cs of
       (Ok i, cs') \<Rightarrow> bnd (ensure (i = 0)) (\<lambda>_. ret \<lparr>uc_cs = cs', uc_untyped = snd untyped\<rparr>)
     | (Err e, _) \<Rightarrow> fail e
     | (Panic, _) \<Rightarrow> panic)))))"

definition user_cspace_destroy :: "'k sel4 \<Rightarrow> user_cspace \<Rightarrow> ('k, unit) rs_op" where
  "user_cspace_destroy K uc =
     seq (for_each (\<lambda>i. expect (kern_call (k_cnode_delete K (cs_absolute (uc_cs uc) i)))) [1..<BIT CNODE_SIZE_BITS])
    (seq (in_ut (ut_free_op (uc_untyped uc)))
         (expect (rs_delete K (cs_root_cnode (uc_cs uc)))))"

section \<open>Arguments on the stack\<close>

definition push_word :: "nat \<Rightarrow> nat \<Rightarrow> u64 \<Rightarrow> ('k root, 'e, nat) op" where
  "push_word stack_win vaddr w =
     bnd (lift (sub_us vaddr 8)) (\<lambda>vaddr. bnd (write_words_to_stack stack_win vaddr [w]) (\<lambda>_. ret vaddr))"

fun push_args :: "nat \<Rightarrow> rust_str list \<Rightarrow> nat \<Rightarrow> u64 list \<Rightarrow> ('k root, 'e, nat \<times> u64 list) op" where
  "push_args stack_win [] vaddr argv = ret (vaddr, argv)"
| "push_args stack_win (arg # args) vaddr argv =
     bnd (lift (sub_us vaddr (length arg + 1))) (\<lambda>new.
     bnd (ensure (ROUND_UP vaddr seL4_PageBits = ROUND_UP new seL4_PageBits)) (\<lambda>_.
     bnd (write_bytes_to_stack stack_win new (arg @ [0])) (\<lambda>_.
     push_args stack_win args new (argv @ [of_nat new]))))"

definition write_args_to_stack ::
  "nat \<Rightarrow> rust_str list option \<Rightarrow> rust_str list option \<Rightarrow> ('k root, 'e, nat) op" where
  "write_args_to_stack stack_win loader_args exec_args =
     bnd (push_word stack_win PROCESS_STACK_TOP (of_nat PROCESS_STACK_TOP)) (\<lambda>c1.
     bnd (push_word stack_win c1 (of_nat PROCESS_IPC_BUFFER)) (\<lambda>c2.
     bnd (push_word stack_win c2 (of_nat PROCESS_RS_DATA_TRANSFER_PAGE)) (\<lambda>c3.
     let envp = [of_nat c1, of_nat c2, of_nat c3, 0] in
     bnd (lift (sub_us c3 (length envp * 8))) (\<lambda>envp_ptr.
     bnd (write_words_to_stack stack_win envp_ptr envp) (\<lambda>_.
     bnd (if loader_args = None \<and> exec_args = None then ret (envp_ptr, 0, [])
          else bnd (push_args stack_win (case loader_args of None \<Rightarrow> [] | Some as \<Rightarrow> as) envp_ptr []) (\<lambda>(c, argv).
               bnd (push_args stack_win (case exec_args of None \<Rightarrow> [] | Some as \<Rightarrow> as) c argv) (\<lambda>(c, argv).
               bnd (lift (sub_us (c - c mod 8) (length argv * 8))) (\<lambda>argv_ptr.
               bnd (write_words_to_stack stack_win argv_ptr argv) (\<lambda>_.
               ret (argv_ptr, argv_ptr, argv)))))) (\<lambda>(c, argv_ptr, argv).
     bnd (push_word stack_win c (of_nat envp_ptr)) (\<lambda>c.
     bnd (push_word stack_win c (of_nat argv_ptr)) (\<lambda>c.
     bnd (lift (sub_us c 4)) (\<lambda>c.
     bnd (ensure (length argv < 2 ^ 32)) (\<lambda>_.
     bnd (write_half_words_to_stack stack_win c [of_nat (length argv)]) (\<lambda>_.
     ret c)))))))))))"

section \<open>Starting\<close>

text \<open>\<open>Process::start\<close>'s steps in the order of the source.  \<open>undo\<close> is the clean-up list of the
  step before, which grows by one entry per object made.  What a failing step does to the
  new process's own CSpace object is lost with it.\<close>


type_synonym ('k, 'a) proc_op = "('k root, sel4_error, 'a) op"

definition drop_object :: "'k sel4 \<Rightarrow> cptr \<times> nat \<Rightarrow> ('k, unit) proc_op" where
  "drop_object K x = in_resources (dealloc_retyped K x)"

definition drop_slot_cap :: "'k sel4 \<Rightarrow> cptr \<Rightarrow> ('k, unit) proc_op" where
  "drop_slot_cap K c = seq (expect (in_resources (rs_delete K c))) (in_resources (in_cs (cs_free_slot c)))"

text \<open>A frame with a second capability to it, for a mapping in the process: the IPC buffer and
  the page shared with the root server.  The clean-up of the source runs \<open>undo\<close> last.\<close>

definition frame_copy :: "'k sel4 \<Rightarrow> ('k, unit) proc_op \<Rightarrow> ('k, cptr \<times> nat) proc_op" where
  "frame_copy K undo =
     bnd (undo_on_err (bnd (in_mem (alloc_frame K)) (\<lambda>r. lift (ok_or NotEnoughMemory r))) undo) (\<lambda>f.
     let undo = seq (in_frames (free_frame f)) undo in
     bnd (undo_on_err (in_resources (in_cs cs_alloc_slot)) undo) (\<lambda>slot.
     bnd (frame_cap f) (\<lambda>cap.
     bnd (undo_on_err (in_resources (rs_copy K slot cap rights_all))
            (seq (in_resources (in_cs (cs_free_slot slot))) undo)) (\<lambda>_.
     ret (slot, f)))))"

definition proc_alloc_slot :: "cspace \<Rightarrow> (sel4_error, nat \<times> cspace) outcome" where
  "proc_alloc_slot cs = (case cs_alloc_slot cs of (r, cs') \<Rightarrow> obind r (\<lambda>i. Ok (i, cs')))"

definition proc_delete :: "'k sel4 \<Rightarrow> cspace \<Rightarrow> nat \<Rightarrow> ('k, unit) proc_op" where
  "proc_delete K cs i = expect (in_resources (kern_call (k_cnode_delete K (cs_absolute cs i))))"

text \<open>The endpoint and the self-referential capability in the new CSpace.  From the second
  allocation on, the clean-up releases the endpoint's slot number in the root server's CSpace.\<close>

definition undo_ep :: "'k sel4 \<Rightarrow> cspace \<Rightarrow> nat \<Rightarrow> ('k, unit) proc_op \<Rightarrow> ('k, unit) proc_op" where
  "undo_ep K pcs proc_ep undo =
     seq (proc_delete K pcs proc_ep) (seq (in_resources (in_cs (cs_free_slot proc_ep))) undo)"

definition fill_cspace ::
  "'k env \<Rightarrow> cptr \<Rightarrow> nat \<Rightarrow> user_cspace \<Rightarrow> ('k, unit) proc_op \<Rightarrow> ('k, user_cspace \<times> nat \<times> nat) proc_op" where
  "fill_cspace E ep pos uc undo =
     (let K = e_sel4 E in
      bnd (undo_on_err (lift (proc_alloc_slot (uc_cs uc))) undo) (\<lambda>(proc_ep, cs1).
      bnd (ensure (proc_ep = SMOS_RootServerEP)) (\<lambda>_.
      bnd (gets (\<lambda>s. rs_cs (mem_rs (r_mem s)))) (\<lambda>cs.
      bnd (undo_on_err (in_resources (kern_call (k_cnode_mint K (cs_absolute cs1 proc_ep) (cs_absolute cs ep)
             rights_all (of_nat pos OR INVOCATION_EP_BITS)))) undo) (\<lambda>_.
      bnd (undo_on_err (lift (proc_alloc_slot cs1)) (undo_ep K cs1 proc_ep undo)) (\<lambda>(self, cs2).
      bnd (ensure (self = SMOS_CNodeSelf)) (\<lambda>_.
      bnd (gets (\<lambda>s. rs_cs (mem_rs (r_mem s)))) (\<lambda>cs.
      bnd (undo_on_err (in_resources (kern_call (k_cnode_copy K (cs_absolute cs2 self)
             (cs_absolute cs (cs_root_cnode cs2)) rights_all)))
             (undo_ep K cs2 proc_ep undo)) (\<lambda>_.
      ret (uc\<lparr>uc_cs := cs2\<rparr>, proc_ep, self))))))))))"

text \<open>The thread, its scheduling context and its fault endpoint.\<close>

definition make_thread ::
  "'k env \<Rightarrow> cptr \<Rightarrow> nat \<Rightarrow> u8 \<Rightarrow> cptr \<times> nat \<Rightarrow> cspace \<Rightarrow> cptr \<Rightarrow> ('k, unit) proc_op \<Rightarrow>
   ('k, (cptr \<times> nat) \<times> (cptr \<times> nat) \<times> cptr) proc_op" where
  "make_thread E ep pos prio vspace pcs ipc_cap undo =
     (let K = e_sel4 E; call = \<lambda>f. in_resources (kern_call f) in
      bnd (undo_on_err (in_resources (alloc_retype K BTcb)) undo) (\<lambda>tcb.
      let undo_tcb = seq (drop_object K tcb) undo in
      bnd (undo_on_err (call (e_tcb_configure E (fst tcb) (cs_root_cnode pcs) (fst vspace) PROCESS_IPC_BUFFER ipc_cap))
             undo_tcb) (\<lambda>_.
      bnd (undo_on_err (in_resources (alloc_retype K (BSchedContext (e_sched_bits E)))) undo_tcb) (\<lambda>sched_context.
      bnd (undo_on_err (call (e_sched_configure E (fst sched_context))) undo_tcb) (\<lambda>_.
      bnd (undo_on_err (in_resources (in_cs cs_alloc_slot)) undo_tcb) (\<lambda>fault_ep.
      bnd (undo_on_err (in_resources (rs_mint K fault_ep ep rights_all (of_nat pos OR FAULT_EP_BITS)))
             (seq (in_resources (in_cs (cs_free_slot fault_ep))) undo_tcb)) (\<lambda>_.
      bnd (undo_on_err (call (e_set_sched_params E (fst tcb) prio (fst sched_context) fault_ep))
             (seq (drop_slot_cap K fault_ep) undo_tcb)) (\<lambda>_.
      ret (tcb, sched_context, fault_ep)))))))))"

text \<open>The address space: the ELF file, the two shared pages and the stack.\<close>

definition make_vspace ::
  "'k env \<Rightarrow> u8 list \<Rightarrow> cptr \<Rightarrow> cptr \<Rightarrow> ('k, unit) proc_op \<Rightarrow>
   ('k, u64 \<times> nat list \<times> (cptr \<times> nat) \<times> nat) proc_op" where
  "make_vspace E elf_data vspace ipc_cap undo =
     (let K = e_sel4 E; map_at = \<lambda>c vaddr. in_resources (map_frame K c vspace vaddr rights_all VM_DEFAULT None) in
      bnd (undo_on_err (lift (ok_or InvalidArgument (e_parse_elf E elf_data))) undo) (\<lambda>elf.
      bnd (undo_on_err (load_elf K vspace elf) undo) (\<lambda>windows.
      bnd (undo_on_err (map_at ipc_cap PROCESS_IPC_BUFFER) undo) (\<lambda>_.
      bnd (frame_copy K undo) (\<lambda>shared.
      bnd (undo_on_err (map_at (fst shared) PROCESS_RS_DATA_TRANSFER_PAGE)
             (seq (drop_slot_cap K (fst shared)) (seq (in_frames (free_frame (snd shared))) undo))) (\<lambda>_.
      bnd (undo_on_err (init_process_stack K) undo) (\<lambda>(_, stack_window).
      ret (elf_entry elf, windows @ [stack_window], shared, stack_window))))))))"

definition start_process ::
  "'k env \<Rightarrow> cptr \<Rightarrow> u8 list \<Rightarrow> rust_str list option \<Rightarrow> rust_str list option \<Rightarrow> u8 \<Rightarrow> ('k, nat) proc_op" where
  "start_process E ep elf_data loader_args exec_args prio =
     (let K = e_sel4 E in
      bnd (bnd find_free_proc (\<lambda>r. lift (ok_or NotEnoughMemory r))) (\<lambda>pos.
      bnd (in_resources (alloc_retype K BVSpace)) (\<lambda>vspace.
      let undo0 = drop_object K vspace in
      bnd (undo_on_err (in_resources (kern_call (e_asid_assign E (fst vspace)))) undo0) (\<lambda>_.
      bnd (in_resources (user_cspace_new K (e_cnode_guard E))) (\<lambda>uc.
      bnd (frame_copy K undo0) (\<lambda>ipc_buffer.
      let undo1 = seq (drop_slot_cap K (fst ipc_buffer)) (seq (in_frames (free_frame (snd ipc_buffer))) undo0) in
      bnd (fill_cspace E ep pos uc undo1) (\<lambda>(uc, proc_ep, self).
      let undo2 = seq (proc_delete K (uc_cs uc) self) (undo_ep K (uc_cs uc) proc_ep undo1) in
      bnd (make_thread E ep pos prio vspace (uc_cs uc) (fst ipc_buffer) undo2) (\<lambda>(tcb, sched_context, fault_ep).
      let undo3 = seq (drop_slot_cap K fault_ep) (seq (drop_object K tcb) undo2) in
      bnd (make_vspace E elf_data (fst vspace) (fst ipc_buffer) undo3) (\<lambda>(entry, windows, shared, stack_window).
      bnd (write_args_to_stack stack_window loader_args exec_args) (\<lambda>sp.
      bnd (in_resources (kern_call (e_write_registers E (fst tcb) entry (of_nat sp)))) (\<lambda>_.
      bnd (new_cell (ActiveProcess
             \<lparr>p_tcb = tcb, p_pid = pos, p_vspace = vspace, p_ipc_buffer = ipc_buffer, p_shared_buffer = shared,
              p_sched_context = sched_context, p_cspace = uc, p_fault_ep = fault_ep,
              p_handles = replicate MAX_HANDLES None, p_created_caps = [], p_initial_windows = windows,
              p_windows = [], p_views = [], p_waiter = None\<rparr>)) (\<lambda>cell.
      bnd (procs_set pos (Some cell)) (\<lambda>_.
      ret cell)))))))))))))"

text \<open>\<open>LOADER_CONTENTS\<close> is a file the build produces, a parameter.\<close>

definition handle_process_spawn :: "'k env \<Rightarrow> cptr \<Rightarrow> u8 list \<Rightarrow> nat \<Rightarrow> ProcessSpawn \<Rightarrow> ('k, SMOSReply) handler" where
  "handle_process_spawn E ep loader me args =
     bnd (new_local me) (\<lambda>idx.
     bnd (on_err (start_process E ep loader (Some [ps_exec_name args, ps_fs_name args]) (ps_args args) (ps_prio args))
            (\<lambda>_. fail InsufficientResources)) (\<lambda>proc.
     bnd (put_ref me (Local idx) (R_Process proc)) (\<lambda>_.
     ret (Re_ProcessSpawn (of_nat idx)))))"

section \<open>Ending\<close>

text \<open>A handle of any other kind is \<open>todo!()\<close>.\<close>

definition drop_resource :: "'k env \<Rightarrow> resource option \<Rightarrow> ('k root, 'e, unit) op" where
  "drop_resource E h =
     (case h of
        None \<Rightarrow> ret ()
      | Some (R_Window w) \<Rightarrow> handle_window_destroy_internal E w False
      | Some (R_Object ob) \<Rightarrow> handle_obj_destroy_internal E ob True
      | Some (R_View v) \<Rightarrow> handle_unview_internal E v
      | Some _ \<Rightarrow> panic)"

definition process_destroy :: "'k env \<Rightarrow> nat \<Rightarrow> ('k root, 'e, unit) op" where
  "process_destroy E me =
     (let K = e_sel4 E; drop = \<lambda>x. in_rs_total (dealloc_retyped K x);
          drop_frame = \<lambda>(c, f). seq (in_rs_total (rs_delete K c)) (in_frames (free_frame f)) in
      bnd (get_proc me) (\<lambda>p.
      bnd (for_each (drop_resource E) (p_handles p)) (\<lambda>_.
      bnd (upd_proc me (\<lambda>p. p\<lparr>p_handles := replicate (length (p_handles p)) None\<rparr>)) (\<lambda>_.
      bnd (drop (p_sched_context p)) (\<lambda>_.
      bnd (drop (p_tcb p)) (\<lambda>_.
      bnd (drop (p_vspace p)) (\<lambda>_.
      bnd (drop_frame (p_ipc_buffer p)) (\<lambda>_.
      bnd (drop_frame (p_shared_buffer p)) (\<lambda>_.
      bnd (in_rs_total (rs_delete K (p_fault_ep p))) (\<lambda>_.
      in_rs_total (user_cspace_destroy K (p_cspace p))))))))))))"

text \<open>\<open>None\<close> is a caller left waiting.  The cell a handle holds never becomes a zombie:
  \<open>handle_process_exit\<close> puts a new cell into the process table.\<close>

definition handle_process_wait :: "nat \<Rightarrow> cptr \<times> nat \<Rightarrow> ProcessWait \<Rightarrow> ('k, SMOSReply option) handler" where
  "handle_process_wait me reply args =
     bnd (find_local me (pw_hndl args) 0) (\<lambda>r.
     bnd (case r of R_Process c \<Rightarrow> ret c | _ \<Rightarrow> fail (InvalidHandle 0)) (\<lambda>c.
     bnd (gets (\<lambda>s. r_cells s c)) (\<lambda>t.
     case t of
       ActiveProcess p \<Rightarrow> bnd (set_cell c (ActiveProcess (p\<lparr>p_waiter := Some reply\<rparr>))) (\<lambda>_. ret None)
     | ZombieProcess pid \<Rightarrow> bnd (procs_set pid None) (\<lambda>_. ret (Some Re_ProcessWait)))))"

definition handle_process_exit :: "'k env \<Rightarrow> ipc_buf \<Rightarrow> nat \<Rightarrow> ('k root, 'e, unit) op" where
  "handle_process_exit E buf me =
     bnd (process_destroy E me) (\<lambda>_.
     bnd (get_proc me) (\<lambda>p.
     case p_waiter p of
       Some x \<Rightarrow>
         (case handle_reply buf Re_ProcessWait of
            Ok (info, _) \<Rightarrow>
              bnd (in_world (modify (e_send E (fst x) info))) (\<lambda>_.
              bnd (in_rs_total (dealloc_retyped (e_sel4 E) x)) (\<lambda>_.
              procs_set (p_pid p) None))
          | _ \<Rightarrow> panic)
     | None \<Rightarrow>
         bnd (new_cell (ZombieProcess (p_pid p))) (\<lambda>c. procs_set (p_pid p) (Some c))))"

section \<open>Handing over to the program\<close>

text \<open>The loader's windows are cleaned up and the thread continues at the program's entry point.\<close>

definition drop_initial_window :: "'k sel4 \<Rightarrow> nat \<Rightarrow> ('k root, 'e, unit) op" where
  "drop_initial_window K w =
     bnd (the_window w) (\<lambda>win.
     bnd (lift (unwrap (w_view win))) (\<lambda>v.
     bnd (the_view v) (\<lambda>x.
     bnd (lift (unwrap (v_object x))) (\<lambda>ob.
     bnd (cleanup_frame_table K ob) (\<lambda>_. cleanup_cap_table K v False)))))"

definition handle_load_complete :: "'k env \<Rightarrow> nat \<Rightarrow> LoadComplete \<Rightarrow> ('k, SMOSReply) handler" where
  "handle_load_complete E me args =
     bnd (get_proc me) (\<lambda>p.
     bnd (for_each (drop_initial_window (e_sel4 E)) (p_initial_windows p)) (\<lambda>_.
     bnd (upd_proc me (\<lambda>p. p\<lparr>p_initial_windows := []\<rparr>)) (\<lambda>_.
     bnd (in_rs_total (kern_call (e_write_registers E (fst (p_tcb p)) (lc_entry_point args) (lc_sp args)))) (\<lambda>_.
     ret Re_LoadComplete))))"

end
