(* ===== verification/System.thy ===== *)
theory System
  imports Processes
begin

text \<open>
  The root server's entry points: \<open>crates/root_server/src/syscall.rs\<close> and the loop of
  \<open>main.rs\<close>.  \<open>handle_syscall\<close> decodes an invocation from the caller's message and shared page,
  runs its handler and answers; \<open>syscall_loop\<close> tells interrupts, invocations and faults apart by
  the badge.
\<close>

definition handle_reply_create :: "'k env \<Rightarrow> nat \<Rightarrow> ('k, SMOSReply) handler" where
  "handle_reply_create E me =
     bnd (on_err (in_resources (alloc_retype (e_sel4 E) BReply)) (\<lambda>_. fail InsufficientResources)) (\<lambda>reply.
     bnd (new_local me) (\<lambda>idx.
     bnd (put_ref me (Local idx) (R_Reply reply)) (\<lambda>_.
     ret (Re_ReplyCreate (of_nat idx) (of_nat (fst reply))))))"

section \<open>Start-up\<close>

text \<open>The table of handle capabilities: badged copies of the endpoint, the badge the index.\<close>

definition create_handle_cap_table :: "'k sel4 \<Rightarrow> cptr \<Rightarrow> ('k, resource hctable) rs_op" where
  "create_handle_cap_table K ep =
     map_op (\<lambda>i.
       bnd (in_cs cs_alloc_slot) (\<lambda>tmp.
       bnd (expect (rs_mint K tmp ep rights_none (of_nat i))) (\<lambda>_.
       bnd (gets rs_cs) (\<lambda>cs.
       ret \<lparr>hc_handle = None, hc_root_cap = Some (cs_absolute cs tmp)\<rparr>)))) [0..<MAX_HANDLE_CAPS]"

text \<open>\<open>sel4::init_thread::slot::TCB\<close>, and the endpoint and notification of the server.\<close>

definition INIT_TCB :: cptr where "INIT_TCB = 1"

definition ipc_init :: "'k env \<Rightarrow> ('k, cptr \<times> cptr) rs_op" where
  "ipc_init E =
     bnd (alloc_retype (e_sel4 E) BNotification) (\<lambda>(ntfn, _).
     bnd (kern_call (e_bind_ntfn E INIT_TCB ntfn)) (\<lambda>_.
     bnd (alloc_retype (e_sel4 E) BEndpoint) (\<lambda>(ep, _).
     ret (ep, ntfn))))"

definition initial_procs :: "nat option list" where
  "initial_procs = replicate MAX_PROCS None"

section \<open>The dispatch\<close>

text \<open>The fixed arguments of the handlers: the server's endpoint, its receive slot and the
  loader's ELF file.\<close>

record server_args =
  sa_ep :: cptr
  sa_recv :: abs_cptr
  sa_loader :: "u8 list"

definition answered :: "('k, SMOSReply) handler \<Rightarrow> ('k, SMOSReply option) handler" where
  "answered h = bnd h (\<lambda>r. ret (Some r))"

text \<open>\<open>None\<close> means that no answer is sent.  \<open>ProcessExit\<close> gets the IPC buffer for the message to
  the waiter; invocations the root server does not handle are \<open>todo!()\<close>.\<close>

fun dispatch ::
  "'k env \<Rightarrow> server_args \<Rightarrow> cptr \<times> nat \<Rightarrow> ipc_buf \<Rightarrow> nat \<Rightarrow> SMOS_Invocation \<Rightarrow> ('k, SMOSReply option) handler" where
  "dispatch E A reply buf me (I_WindowCreate t) = answered (handle_window_create me t)"
| "dispatch E A reply buf me (I_WindowDestroy t) = answered (handle_window_destroy E me t)"
| "dispatch E A reply buf me (I_WindowRegister t) = answered (handle_window_register me t)"
| "dispatch E A reply buf me (I_IRQRegister t) = answered (handle_irq_register E me t)"
| "dispatch E A reply buf me (I_ConnCreate t) = answered (handle_conn_create E me t)"
| "dispatch E A reply buf me (I_ConnDestroy t) = answered (handle_conn_destroy E me t)"
| "dispatch E A reply buf me (I_ObjCreate t) = answered (handle_obj_create E me t)"
| "dispatch E A reply buf me (I_ObjStat t) = answered (handle_obj_stat me t)"
| "dispatch E A reply buf me (I_ObjDestroy t) = answered (handle_obj_destroy E me t)"
| "dispatch E A reply buf me (I_View t) = answered (handle_view me t)"
| "dispatch E A reply buf me (I_Unview t) = answered (handle_unview E me t)"
| "dispatch E A reply buf me (I_ConnPublish t) = answered (handle_conn_publish E me t)"
| "dispatch E A reply buf me I_ReplyCreate = answered (handle_reply_create E me)"
| "dispatch E A reply buf me (I_ServerHandleCapCreate t) = answered (handle_server_handle_cap_create E me t)"
| "dispatch E A reply buf me (I_ServerCreateChannel t) = answered (handle_server_create_channel E me t)"
| "dispatch E A reply buf me (I_ChannelOpen t) = answered (handle_channel_open t)"
| "dispatch E A reply buf me (I_ProcessSpawn t) =
     answered (handle_process_spawn E (sa_ep A) (sa_loader A) me t)"
| "dispatch E A reply buf me (I_LoadComplete t) = answered (handle_load_complete E me t)"
| "dispatch E A reply buf me (I_ConnRegister t) = answered (handle_conn_register me t)"
| "dispatch E A reply buf me (I_PageMap t) = answered (handle_page_map E me t)"
| "dispatch E A reply buf me (I_WindowDeregister t) = answered (handle_window_deregister E me t)"
| "dispatch E A reply buf me (I_ConnDeregister t) = answered (handle_conn_deregister me t)"
| "dispatch E A reply buf me (I_ProcessWait t) = handle_process_wait me reply t"
| "dispatch E A reply buf me I_ProcessExit = bnd (handle_process_exit E buf me) (\<lambda>_. ret None)"
| "dispatch E A reply buf me _ = panic"

definition drop_consumed :: "'k sel4 \<Rightarrow> abs_cptr \<Rightarrow> bool \<Rightarrow> ('k root, 'e, unit) op" where
  "drop_consumed K recv consumed = (if consumed then in_rs_total (kern_call (k_cnode_delete K recv)) else ret ())"

definition answer_word :: "(unit, msginfo \<times> ipc_buf) outcome \<Rightarrow> ('e, (msginfo \<times> ipc_buf) option) outcome" where
  "answer_word r = (case r of Ok x \<Rightarrow> Ok (Some x) | _ \<Rightarrow> Panic)"

text \<open>The answer and the IPC buffer it is in; \<open>None\<close> when the caller gets none.\<close>

definition handle_syscall ::
  "'k env \<Rightarrow> server_args \<Rightarrow> cptr \<times> nat \<Rightarrow> nat \<Rightarrow> msginfo \<Rightarrow> ipc_buf \<Rightarrow>
   ('k root, 'e, (msginfo \<times> ipc_buf) option) op" where
  "handle_syscall E A reply pid msg buf =
     bnd (proc_entry pid) (\<lambda>entry.
     bnd (lift (unwrap entry)) (\<lambda>me.
     bnd (get_proc me) (\<lambda>p.
     bnd (in_frames (frame_data (snd (p_shared_buffer p)))) (\<lambda>_.
     bnd (gets (\<lambda>s. List.map (r_data s (snd (p_shared_buffer p))) [0..<PAGE_SIZE_4K])) (\<lambda>shared_buf.
     case SMOS_Invocation_new RootServerConnection buf msg (Some shared_buf) (sa_recv A) of
       (invocation, consumed) \<Rightarrow>
         (case invocation of
            Panic \<Rightarrow> panic
          | Err e \<Rightarrow> bnd (drop_consumed (e_sel4 E) (sa_recv A) consumed) (\<lambda>_. lift (answer_word (handle_error buf e)))
          | Ok iv \<Rightarrow>
              bnd (attempt (dispatch E A reply buf me iv)) (\<lambda>r.
              bnd (drop_consumed (e_sel4 E) (sa_recv A) consumed) (\<lambda>_.
              case r of
                Ok None \<Rightarrow> ret None
              | Ok (Some x) \<Rightarrow> lift (answer_word (handle_reply buf x))
              | Err e \<Rightarrow> lift (answer_word (handle_error buf e))
              | Panic \<Rightarrow> panic))))))))"

section \<open>The loop\<close>

text \<open>What arrives at the endpoint: a badge, and the message or fault that came with it.\<close>

record arrival =
  ar_badge :: u64
  ar_msg :: msginfo
  ar_buf :: ipc_buf
  ar_fault :: fault

text \<open>One round, from a message to the answer \<open>reply_recv\<close> sends with the next receive; the reply
  object is replaced when there is no answer.  Interrupts run their call-backs outside this state
  and never answer.\<close>

definition syscall_round ::
  "'k env \<Rightarrow> server_args \<Rightarrow> ('k root, sel4_error, unit) op \<Rightarrow> cptr \<times> nat \<Rightarrow> arrival \<Rightarrow>
   ('k root, sel4_error, (msginfo \<times> ipc_buf) option \<times> (cptr \<times> nat)) op" where
  "syscall_round E A on_irq reply a =
     bnd (lift (decode_entry_type (ar_badge a))) (\<lambda>t.
     bnd (case t of
            Notification _ \<Rightarrow> bnd on_irq (\<lambda>_. ret None)
          | Invocation pid \<Rightarrow> handle_syscall E A reply (unat pid) (ar_msg a) (ar_buf a)
          | Fault pid \<Rightarrow>
              bnd (handle_fault E (unat pid) reply (ar_fault a) (ar_buf a)) (\<lambda>r.
              ret (map_option (\<lambda>info. (info, ar_buf a)) r))) (\<lambda>answer.
     bnd (if answer = None then in_resources (alloc_retype (e_sel4 E) BReply) else ret reply) (\<lambda>reply'.
     ret (answer, reply'))))"

end
