(* ===== verification/Small_World.thy ===== *)
theory Small_World
  imports System
begin

text \<open>
  A concrete root server for evaluation: a kernel that accepts every call, four frames of which two
  are allocated, a CSpace with ten slots taken, and one process.  The lemmas run the clean-up
  operations in it.
\<close>

definition small_env :: "nat env" where
  "small_env =
     \<lparr>e_sel4 = counting_kernel, e_enqueue = (\<lambda>_ _ k. (Ok None, Suc k)), e_ring_init = (\<lambda>_. Suc),
      e_signal = (\<lambda>_. Suc), e_send = (\<lambda>_ _. Suc), e_bind_ntfn = (\<lambda>_ _ k. (None, Suc k)),
      e_unbind_ntfn = (\<lambda>_ k. (None, Suc k)), e_write_registers = (\<lambda>_ _ _ k. (None, Suc k)),
      e_dma_allocate = (\<lambda>_ k. (Some 0, Suc k)), e_asid_assign = (\<lambda>_ k. (None, Suc k)),
      e_tcb_configure = (\<lambda>_ _ _ _ _ k. (None, Suc k)), e_sched_configure = (\<lambda>_ k. (None, Suc k)),
      e_set_sched_params = (\<lambda>_ _ _ _ k. (None, Suc k)), e_cnode_guard = of_nat, e_user_top = 2 ^ 47,
      e_sched_bits = 7, e_parse_elf = (\<lambda>_. None)\<rparr>"

lemma small_env_sel [simp]:
  "e_sel4 small_env = counting_kernel" "e_send small_env c m k = Suc k"
  "e_enqueue small_env a d k = (Ok None, Suc k)" "e_signal small_env c k = Suc k"
  by (simp_all add: small_env_def)

section \<open>Memory\<close>

text \<open>Frames 0 and 1 are allocated, 2 and 3 free.\<close>

definition quad_memory :: "nat memory" where
  "quad_memory =
     \<lparr>mem_rs = small_resources\<lparr>rs_cs := cs_taken 10\<rparr>,
      mem_ft = (frame_table_init 3 (\<lambda>f. \<lparr>fr_cap = 100 + f,
          fr_prev = (if f = 1 then Some 0 else if f = 3 then Some 2 else None),
          fr_next = (if f = 0 then Some 1 else if f = 2 then Some 3 else None),
          fr_list = (if f < 2 then AllocatedList else FreeList)\<rparr>))
        \<lparr>ft_capacity := 128, ft_byte_length := 4096, ft_used := 4,
         ft_free := \<lparr>fl_id = FreeList, fl_first = Some 2, fl_last = Some 3, fl_length = 2\<rparr>,
         ft_allocated := \<lparr>fl_id = AllocatedList, fl_first = Some 0, fl_last = Some 1, fl_length = 2\<rparr>\<rparr>,
      mem_dev = []\<rparr>"

definition quad_lists :: "list_id \<Rightarrow> nat list" where
  "quad_lists i = (case i of FreeList \<Rightarrow> [2, 3] | AllocatedList \<Rightarrow> [0, 1] | NoList \<Rightarrow> [])"

lemma quad_lists_simps [simp]: "quad_lists FreeList = [2, 3]" "quad_lists AllocatedList = [0, 1]"
  by (simp_all add: quad_lists_def)

text \<open>The frame table alone, whatever the rest of the memory holds.\<close>

definition ft_ok :: "(list_id \<Rightarrow> nat list) \<Rightarrow> frame_table \<Rightarrow> bool" where
  "ft_ok L T \<longleftrightarrow> mem_inv Map.empty L (small_memory\<lparr>mem_ft := T\<rparr>)"

lemma quad_ft_ok: "ft_ok quad_lists (mem_ft quad_memory)"
proof -
  have "rinv Map.empty (mem_rs small_memory)" using small_memory_inv by (simp add: mem_inv_def)
  moreover have "ft_rep quad_lists (mem_ft quad_memory)"
    by (simp add: ft_rep_def dlist_def ft_list_def quad_memory_def frame_table_init_def)
  ultimately show ?thesis by (auto simp: ft_ok_def mem_inv_def quad_memory_def frame_table_init_def small_memory_def)
qed

lemma free_frame_ok:
  assumes "ft_ok L T" and "f \<in> set (L AllocatedList)"
  shows "\<exists>T'. free_frame f T = (Ok () :: (sel4_error, unit) outcome, T') \<and>
    ft_ok (L(FreeList := f # L FreeList, AllocatedList := remove1 f (L AllocatedList))) T'"
proof -
  let ?s = "small_memory\<lparr>mem_ft := T\<rparr>"
  obtain t where t: "in_ft (free_frame f) ?s = (Ok () :: (sel4_error, unit) outcome, t)"
    "mem_inv Map.empty (L(FreeList := f # L FreeList, AllocatedList := remove1 f (L AllocatedList))) t"
    using free_frame_mem [OF assms(1) [unfolded ft_ok_def] assms(2)] by auto
  then have "t = ?s\<lparr>mem_ft := mem_ft t\<rparr>" and "free_frame f T = (Ok () :: (sel4_error, unit) outcome, mem_ft t)"
    by (auto simp: in_ft_def on_part_def split: prod.splits)
  then show ?thesis using t(2) unfolding ft_ok_def by (metis memory.update_convs(2) memory.ext_inject memory.surjective)
qed

section \<open>The root server\<close>

definition small_proc :: "resource htable \<Rightarrow> nat list \<Rightarrow> user_process" where
  "small_proc tbl windows =
     \<lparr>p_tcb = (3, 3000), p_pid = 0, p_vspace = (4, 3001), p_ipc_buffer = (5, 0), p_shared_buffer = (6, 1),
      p_sched_context = (7, 3002), p_cspace = \<lparr>uc_cs = cs_taken 3, uc_untyped = 3003\<rparr>, p_fault_ep = 8,
      p_handles = tbl, p_created_caps = [], p_initial_windows = [], p_windows = windows, p_views = [],
      p_waiter = None\<rparr>"

definition no_view :: view_info where
  "no_view = view_new 0 None None rights_all 0 0"

definition small_root :: "(nat \<Rightarrow> process_type) \<Rightarrow> nat root" where
  "small_root cells =
     \<lparr>r_mem = quad_memory, r_data = (\<lambda>f i. of_nat f),
      r_dma = \<lparr>dp_vstart = 0, dp_pstart = 0, dp_pages = [], dp_vspace = 3, dp_ready = True\<rparr>,
      r_handle_caps = [], r_windows = (\<lambda>_. \<lparr>w_start = 0, w_size = 0, w_view = None\<rparr>), r_views = (\<lambda>_. no_view),
      r_objects = (\<lambda>_. object_new 0 rights_all 0), r_servers = undefined, r_conns = undefined, r_cells = cells,
      r_next = 10, r_names = Map.empty, r_procs = [Some 0, Some 1]\<rparr>"

text \<open>The server before its first process, and with one process: a window of four pages at \<open>0x10000\<close>
  (cell 1) with a view (cell 2) of an object (cell 3), each with a handle.\<close>

definition boot_root :: "nat root" where
  "boot_root = (small_root (\<lambda>_. ZombieProcess 0))
     \<lparr>r_handle_caps := replicate MAX_HANDLE_CAPS \<lparr>hc_handle = None, hc_root_cap = None\<rparr>, r_procs := initial_procs\<rparr>"

definition mapped_proc :: user_process where
  "mapped_proc = (small_proc ((replicate MAX_HANDLES None)[0 := Some (R_Window 1), 1 := Some (R_View 2),
      2 := Some (R_Object 3)]) [1])\<lparr>p_views := [2]\<rparr>"

definition mapped_root :: "nat root" where
  "mapped_root = boot_root
     \<lparr>r_cells := (\<lambda>_. ActiveProcess mapped_proc),
      r_windows := (\<lambda>_. \<lparr>w_start = 0x10000, w_size = 0x4000, w_view = Some 2\<rparr>),
      r_views := (\<lambda>_. view_new 1 (Some 3) None rights_all 0 0),
      r_objects := (\<lambda>_. (object_new 0x4000 rights_all 0)\<lparr>mo_views := [2]\<rparr>),
      r_procs := initial_procs[0 := Some 0]\<rparr>"

lemmas root_defs = mapped_root_def boot_root_def small_root_def

lemma boot_reply: "\<exists>t. in_resources (alloc_retype counting_kernel BReply) boot_root = (Ok (10, 1000), t)"
proof -
  let ?r = "mem_rs quad_memory"
  have "ut_alloc counting_kernel 12 ?r = (Ok 1000, ?r\<lparr>rs_ut := small_ut_table\<lparr>ut_free := replicate 9 None\<rparr>\<rparr>)"
    by (subst ut_alloc.simps)
      (simp add: const_defs SIZE_BITS_TO_INDEX_def quad_memory_def small_resources_def small_ut_table_def bnd_def ret_def
        alloc_4k_untyped_def in_ut_def on_part_def pop_untyped_def ut_pop_def ut_to_paddr_def sub_us_def mul_us_def
        add_us_def Let_def BIT_def list_update_same_conv)
  then have "\<exists>t. alloc_retype counting_kernel BReply ?r = (Ok (10, 1000), t)"
    by (simp add: alloc_retype_def bnd_def on_err_def gets_def ret_def in_cs_def on_part_def cs_taken_alloc quad_memory_def
        small_resources_def rs_retype_def in_kern_def cs_untyped_retype_def counting_kernel_def)
  then show ?thesis
    by (auto simp: in_resources_def in_mem_def in_rs_def on_part_def boot_root_def small_root_def)
qed

text \<open>States in which every clean-up succeeds.\<close>

definition quiet :: "(list_id \<Rightarrow> nat list) \<Rightarrow> nat root \<Rightarrow> bool" where
  "quiet L s \<longleftrightarrow> one_level_inv (rs_cs (mem_rs (r_mem s))) \<and>
     length (ut_free (rs_ut (mem_rs (r_mem s)))) = 9 \<and>
     (\<forall>p. ut_size_bits (ut_heap (rs_ut (mem_rs (r_mem s))) p) \<in> {4..12}) \<and>
     ft_ok L (mem_ft (r_mem s))"

lemma small_root_quiet: "quiet quad_lists (small_root cells)"
proof -
  have "one_level_inv (cs_taken 10)"
    using foldl_or_bits [of 10 "bitfield_init 256"]
    by (simp add: one_level_inv_def cs_taken_sel bitfield_init_def BITFIELD_SIZE_def)
  then show ?thesis using quad_ft_ok
    by (simp add: quiet_def small_root_def quad_memory_def small_resources_def small_ut_table_def)
qed

lemma quiet_delete:
  assumes "quiet L s"
  shows "\<exists>t. in_rs_total (rs_delete counting_kernel c) s = (Ok () :: (sel4_error, unit) outcome, t) \<and> quiet L t"
  using assms
  by (auto simp: in_rs_total_def expect_def on_err_def in_resources_def in_mem_def in_rs_def on_part_def rs_delete_def
      in_kern_def cs_delete_def counting_kernel_def quiet_def)

lemma ut_free_op_quiet:
  assumes "length (ut_free T) = 9" and "\<forall>q. ut_size_bits (ut_heap T q) \<in> {4..12}"
  shows "\<exists>T'. ut_free_op p T = (Ok (), T') \<and> length (ut_free T') = 9 \<and> (\<forall>q. ut_size_bits (ut_heap T' q) \<in> {4..12})"
proof -
  let ?sb = "ut_size_bits (ut_heap T p)"
  have "4 \<le> ?sb" "?sb \<le> 12" using assms(2) by auto
  then have "4 \<le> ?sb" "?sb - 4 < 9" by linarith+
  then show ?thesis using assms
    by (simp add: ut_free_op_def push_untyped_def ut_push_def Let_def SIZE_BITS_TO_INDEX_def const_defs)
qed

lemma quiet_dealloc:
  assumes "quiet L s" and "c \<in> {1..<256}"
  shows "\<exists>t. in_rs_total (dealloc_retyped counting_kernel (c, p)) s = (Ok () :: (sel4_error, unit) outcome, t) \<and> quiet L t"
proof -
  let ?r = "mem_rs (r_mem s)"
  obtain cs where cs: "cs_free_slot c (rs_cs ?r) = (Ok () :: (sel4_error, unit) outcome, cs)" "one_level_inv cs"
    using one_level.release_Ok [of "rs_cs ?r" c] assms by (auto simp: quiet_def)
  obtain T where T: "ut_free_op p (rs_ut ?r) = (Ok () :: (sel4_error, unit) outcome, T)"
      "length (ut_free T) = 9" "\<forall>q. ut_size_bits (ut_heap T q) \<in> {4..12}"
    using ut_free_op_quiet [of "rs_ut ?r" p] assms(1) unfolding quiet_def by blast
  obtain k where k: "rs_delete counting_kernel c ?r = (Ok (), ?r\<lparr>rs_kern := k\<rparr>)"
    by (rule rs_delete_run [OF counting_deletes])
  let ?t = "s\<lparr>r_mem := (r_mem s)\<lparr>mem_rs := ?r\<lparr>rs_kern := k, rs_cs := cs, rs_ut := T\<rparr>\<rparr>\<rparr>"
  have "in_rs_total (dealloc_retyped counting_kernel (c, p)) s = (Ok () :: (sel4_error, unit) outcome, ?t)"
    using cs(1) T(1) k
    by (simp add: in_rs_total_def expect_def on_err_def in_resources_def in_mem_def in_rs_def on_part_def
        dealloc_retyped_def seq_def bnd_def in_cs_def in_ut_def)
  then show ?thesis using assms(1) cs(2) T(2,3) by (intro exI [of _ ?t]) (simp add: quiet_def)
qed

lemma quiet_free_frame:
  assumes "quiet L s" and "f \<in> set (L AllocatedList)"
  shows "\<exists>t. in_frames (free_frame f) s = (Ok () :: (sel4_error, unit) outcome, t) \<and>
    quiet (L(FreeList := f # L FreeList, AllocatedList := remove1 f (L AllocatedList))) t"
proof -
  obtain T where "free_frame f (mem_ft (r_mem s)) = (Ok () :: (sel4_error, unit) outcome, T)"
      "ft_ok (L(FreeList := f # L FreeList, AllocatedList := remove1 f (L AllocatedList))) T"
    using free_frame_ok [of L "mem_ft (r_mem s)" f] assms by (auto simp: quiet_def)
  then show ?thesis using assms(1) by (simp add: quiet_def in_frames_def in_mem_def in_ft_def on_part_def)
qed

text \<open>The loop over a CSpace's slots.\<close>

lemma quiet_delete_slots:
  assumes "quiet L s"
  shows "\<exists>t. in_resources (for_each (\<lambda>i. expect (kern_call (k_cnode_delete counting_kernel (f i)))) is) s =
    (Ok () :: (sel4_error, unit) outcome, t) \<and> quiet L t"
proof -
  have "\<exists>k. for_each (\<lambda>i. expect (kern_call (k_cnode_delete counting_kernel (f i)))) is r =
      (Ok () :: (sel4_error, unit) outcome, r\<lparr>rs_kern := k\<rparr>)" for r
  proof (induction "is" arbitrary: r)
    case Nil
    show ?case by (rule exI [of _ "rs_kern r"]) (simp add: ret_def)
  next
    case (Cons i "is")
    show ?case using Cons.IH [of "r\<lparr>rs_kern := Suc (rs_kern r)\<rparr>"]
      by (simp add: bnd_def expect_def on_err_def kern_call_def in_kern_def on_part_def counting_kernel_def)
  qed
  from this [of "mem_rs (r_mem s)"] obtain k where
    "for_each (\<lambda>i. expect (kern_call (k_cnode_delete counting_kernel (f i)))) is (mem_rs (r_mem s)) =
      (Ok () :: (sel4_error, unit) outcome, (mem_rs (r_mem s))\<lparr>rs_kern := k\<rparr>)" by blast
  then show ?thesis using assms by (simp add: quiet_def in_resources_def in_mem_def in_rs_def on_part_def)
qed

lemma quiet_cspace_destroy:
  assumes "quiet L s"
  shows "\<exists>t. in_rs_total (user_cspace_destroy counting_kernel uc) s = (Ok () :: (sel4_error, unit) outcome, t)"
proof -
  let ?del = "for_each (\<lambda>i. expect (kern_call (k_cnode_delete counting_kernel (cs_absolute (uc_cs uc) i)))) [1..<BIT CNODE_SIZE_BITS]"
  obtain t where t: "in_resources ?del s = (Ok () :: (sel4_error, unit) outcome, t)" "quiet L t"
    using quiet_delete_slots [OF assms] by blast
  obtain r where r: "?del (mem_rs (r_mem s)) = (Ok () :: (sel4_error, unit) outcome, r)" "r = mem_rs (r_mem t)"
    using t(1) by (auto simp: in_resources_def in_mem_def in_rs_def on_part_def split: prod.splits)
  obtain T where "ut_free_op (uc_untyped uc) (rs_ut r) = (Ok () :: (sel4_error, unit) outcome, T)"
    using ut_free_op_quiet [of "rs_ut r" "uc_untyped uc"] t(2) r(2) unfolding quiet_def by blast
  moreover obtain k where "rs_delete counting_kernel (cs_root_cnode (uc_cs uc)) (r\<lparr>rs_ut := T\<rparr>) =
      (Ok (), r\<lparr>rs_ut := T, rs_kern := k\<rparr>)"
    by (rule rs_delete_run [OF counting_deletes])
  ultimately have "fst (user_cspace_destroy counting_kernel uc (mem_rs (r_mem s))) = Ok ()"
    using r(1) by (simp add: user_cspace_destroy_def seq_def bnd_def in_ut_def on_part_def expect_def on_err_def)
  then obtain r' where "user_cspace_destroy counting_kernel uc (mem_rs (r_mem s)) = (Ok (), r')" by (metis prod.collapse)
  then show ?thesis
    by (simp add: in_rs_total_def expect_def on_err_def in_resources_def in_mem_def in_rs_def on_part_def)
qed

end
