(* ===== verification/Root_Frame.thy ===== *)
theory Root_Frame
  imports System
begin

text \<open>
  Rules for what the operations on the root server's state leave alone, and for those that return
  no error because they turn every error into a panic.
\<close>

section \<open>Frames\<close>

text \<open>\<open>keeps f m\<close>: the part \<open>f\<close> of the state is the same after \<open>m\<close>, however it ends.\<close>

definition keeps :: "('s \<Rightarrow> 'p) \<Rightarrow> ('s, 'e, 'a) op \<Rightarrow> bool" where
  "keeps f m \<longleftrightarrow> (\<forall>s. f (snd (m s)) = f s)"

named_theorems keeps_intro "operations that leave a part of the state alone"

lemma keepsD: "keeps f m \<Longrightarrow> m s = (r, t) \<Longrightarrow> f t = f s"
  by (metis keeps_def snd_conv)

lemma keeps_bnd [keeps_intro]:
  assumes "keeps f m" and "\<And>x. keeps f (g x)"
  shows "keeps f (bnd m g)"
  unfolding keeps_def
proof
  fix s
  obtain r t where m: "m s = (r, t)" by fastforce
  then have t: "f t = f s" by (rule keepsD [OF assms(1)])
  show "f (snd (bnd m g s)) = f s"
  proof (cases r)
    case (Ok x)
    have "f (snd (g x t)) = f t" using assms(2) [of x] by (simp add: keeps_def)
    then show ?thesis using t m Ok by (simp add: bnd_def)
  qed (use t m in \<open>simp_all add: bnd_def\<close>)
qed

lemma keeps_on_err [keeps_intro]:
  assumes "keeps f m" and "\<And>e. keeps f (h e)"
  shows "keeps f (on_err m h)"
  unfolding keeps_def
proof
  fix s
  obtain r t where m: "m s = (r, t)" by fastforce
  then have t: "f t = f s" by (rule keepsD [OF assms(1)])
  show "f (snd (on_err m h s)) = f s"
  proof (cases r)
    case (Err e)
    have "f (snd (h e t)) = f t" using assms(2) [of e] by (simp add: keeps_def)
    then show ?thesis using t m Err by (simp add: on_err_def)
  qed (use t m in \<open>simp_all add: on_err_def\<close>)
qed

lemma keeps_basic [keeps_intro]:
  "keeps f (ret x)" "keeps f (fail e)" "keeps f panic" "keeps f (lift r)"
  "keeps f (gets g)" "keeps f (ensure b)" "keeps f (guard b e)"
  by (simp_all add: keeps_def run_simps)

lemma keeps_modify [keeps_intro]: "(\<And>s. f (h s) = f s) \<Longrightarrow> keeps f (modify h)"
  by (simp add: keeps_def run_simps)

lemma keeps_expect [keeps_intro]: "keeps f m \<Longrightarrow> keeps f (expect m)"
  unfolding expect_def by (intro keeps_intro)

lemma keeps_seq [keeps_intro]: "keeps f m \<Longrightarrow> keeps f m' \<Longrightarrow> keeps f (seq m m')"
  unfolding seq_def by (intro keeps_intro)

lemma keeps_undo [keeps_intro]: "keeps f m \<Longrightarrow> keeps f m' \<Longrightarrow> keeps f (undo_on_err m m')"
  unfolding undo_on_err_def by (intro keeps_intro)

lemma keeps_for_each [keeps_intro]: "(\<And>x. keeps f (g x)) \<Longrightarrow> keeps f (for_each g xs)"
  by (induction xs) (simp_all add: keeps_intro)

lemma keeps_in_mem [keeps_intro]: "(\<And>s m. f (s\<lparr>r_mem := m\<rparr>) = f s) \<Longrightarrow> keeps f (in_mem m)"
  by (simp add: keeps_def in_mem_def on_part_def split: prod.splits)

lemma keeps_parts [keeps_intro]:
  "(\<And>s m. f (s\<lparr>r_mem := m\<rparr>) = f s) \<Longrightarrow> keeps f (in_resources m1)"
  "(\<And>s m. f (s\<lparr>r_mem := m\<rparr>) = f s) \<Longrightarrow> keeps f (in_frames m2)"
  "(\<And>s m. f (s\<lparr>r_mem := m\<rparr>) = f s) \<Longrightarrow> keeps f (in_world m3)"
  "(\<And>s m. f (s\<lparr>r_mem := m\<rparr>) = f s) \<Longrightarrow> keeps f (in_rs_total m4)"
  by (simp_all add: in_resources_def in_frames_def in_world_def in_rs_total_def keeps_intro)

lemma keeps_reads [keeps_intro]:
  "keeps f (the_window w)" "keeps f (the_view v)" "keeps f (the_object ob)" "keeps f (the_server sv)" "keeps f (the_conn c)"
  by (simp_all add: the_window_def the_view_def the_object_def the_server_def the_conn_def keeps_basic)

lemma keeps_upd [keeps_intro]:
  "(\<And>s h. f (s\<lparr>r_windows := h\<rparr>) = f s) \<Longrightarrow> keeps f (upd_window w g1)"
  "(\<And>s h. f (s\<lparr>r_views := h\<rparr>) = f s) \<Longrightarrow> keeps f (upd_view v g2)"
  "(\<And>s h. f (s\<lparr>r_objects := h\<rparr>) = f s) \<Longrightarrow> keeps f (upd_object ob g3)"
  "(\<And>s h. f (s\<lparr>r_servers := h\<rparr>) = f s) \<Longrightarrow> keeps f (upd_server sv g4)"
  "(\<And>s h. f (s\<lparr>r_conns := h\<rparr>) = f s) \<Longrightarrow> keeps f (upd_conn c g5)"
  "(\<And>s h. f (s\<lparr>r_cells := h\<rparr>) = f s) \<Longrightarrow> keeps f (set_cell c t)"
  by (simp_all add: upd_window_def upd_view_def upd_object_def upd_server_def upd_conn_def set_cell_def keeps_modify)

lemma keeps_get_proc [keeps_intro]: "keeps f (get_proc me)"
  unfolding get_proc_def by (intro keeps_intro) (simp split: process_type.splits add: keeps_intro)

lemma keeps_upd_proc [keeps_intro]: "(\<And>s h. f (s\<lparr>r_cells := h\<rparr>) = f s) \<Longrightarrow> keeps f (upd_proc me g)"
  unfolding upd_proc_def by (intro keeps_intro)

lemma keeps_notify [keeps_intro]: "(\<And>s m. f (s\<lparr>r_mem := m\<rparr>) = f s) \<Longrightarrow> keeps f (notify_server E sv msg)"
  unfolding notify_server_def by (intro keeps_intro)

lemma keeps_cleanup [keeps_intro]:
  "(\<And>s m. f (s\<lparr>r_mem := m\<rparr>) = f s) \<Longrightarrow> keeps f (cleanup_cap_table K v d)"
  "(\<And>s m. f (s\<lparr>r_mem := m\<rparr>) = f s) \<Longrightarrow> keeps f (cleanup_frame_table K ob)"
  unfolding cleanup_cap_table_def cleanup_frame_table_def by (intro keeps_intro; assumption)+

lemma keeps_handles [keeps_intro]:
  "keeps f (handle_tables me)" "keeps f (find_generic me hndl which)" "keeps f (find_local me idx which)"
  "keeps f (find_cap idx which)" "keeps f (new_local me)" "keeps f (new_generic me return_cap)"
  unfolding handle_tables_def find_generic_def find_local_def find_cap_def new_local_def new_generic_def
  by (intro keeps_intro)+

section \<open>Operations without an error result\<close>

text \<open>The clean-up turns every error into a panic.\<close>

definition never_fails :: "('s, 'e, 'a) op \<Rightarrow> bool" where
  "never_fails m \<longleftrightarrow> (\<forall>s e. fst (m s) \<noteq> Err e)"

named_theorems nofail_intro "operations that return no error"

lemma nofail_bnd [nofail_intro]:
  assumes "never_fails m" and "\<And>x. never_fails (f x)"
  shows "never_fails (bnd m f)"
  unfolding never_fails_def
proof (intro allI)
  fix s e
  show "fst (bnd m f s) \<noteq> Err e"
    using assms by (auto simp: bnd_def never_fails_def split: prod.splits outcome.splits) (metis fst_conv)
qed

lemma nofail_basic [nofail_intro]:
  "never_fails (ret x)" "never_fails panic" "never_fails (gets g)" "never_fails (ensure b)" "never_fails (modify h)"
  "never_fails (lift (unwrap x'))" "never_fails (lift (sub_us a c))" "never_fails (lift (add_us a c))"
  by (auto simp: never_fails_def run_simps unwrap_def sub_us_def add_us_def split: option.splits)

lemma nofail_expect [nofail_intro]: "never_fails (expect m)"
  by (auto simp: never_fails_def expect_def on_err_def panic_def split: prod.splits outcome.splits)

lemma nofail_seq [nofail_intro]: "never_fails m \<Longrightarrow> never_fails m' \<Longrightarrow> never_fails (seq m m')"
  unfolding seq_def by (intro nofail_intro)

lemma nofail_for_each [nofail_intro]: "(\<And>x. never_fails (f x)) \<Longrightarrow> never_fails (for_each f xs)"
  by (induction xs) (simp_all add: nofail_intro)

lemma nofail_on_part: "never_fails m \<Longrightarrow> never_fails (on_part g u m)"
  by (simp add: never_fails_def on_part_def split: prod.splits) (metis fst_conv)

lemma nofail_parts [nofail_intro]:
  "never_fails m \<Longrightarrow> never_fails (in_mem m)" "never_fails m1 \<Longrightarrow> never_fails (in_rs m1)"
  "never_fails m2 \<Longrightarrow> never_fails (in_ft m2)" "never_fails m3 \<Longrightarrow> never_fails (in_cs m3)"
  "never_fails m4 \<Longrightarrow> never_fails (in_ut m4)" "never_fails m5 \<Longrightarrow> never_fails (in_resources m5)"
  "never_fails m6 \<Longrightarrow> never_fails (in_frames m6)" "never_fails m7 \<Longrightarrow> never_fails (in_world m7)"
  by (simp_all add: in_mem_def in_rs_def in_ft_def in_cs_def in_ut_def in_kern_def in_resources_def in_frames_def
      in_world_def nofail_on_part)

lemma nofail_free_slot [nofail_intro]: "never_fails (cs_free_slot c)"
  by (auto simp: never_fails_def cs_free_slot_def clr_top_bit_def free_bot_slot_def bf_clr_bit_def
      get_bot_lvl_node_def bnd_def Let_def unwrap_def split: option.splits)

lemma nofail_upd [nofail_intro]:
  "never_fails (upd_window w f)" "never_fails (upd_view v g)" "never_fails (upd_object ob h)"
  "never_fails (the_window w)" "never_fails (the_view v)" "never_fails (the_object ob)" "never_fails (the_server sv)"
  "never_fails (set_cell c t)"
  by (simp_all add: upd_window_def upd_view_def upd_object_def the_window_def the_view_def the_object_def
      the_server_def set_cell_def nofail_intro)

lemma nofail_get_proc [nofail_intro]: "never_fails (get_proc me)" "never_fails (upd_proc me f)"
proof -
  show g: "never_fails (get_proc me)" for me :: nat
    unfolding get_proc_def by (intro nofail_intro) (simp split: process_type.splits add: nofail_intro)
  show "never_fails (upd_proc me f)" unfolding upd_proc_def by (intro nofail_intro g)
qed

lemma nofail_frames [nofail_intro]: "never_fails (free_frame f)"
proof -
  have a: "never_fails (frame_from_ref x)" "never_fails (ref_from_frame x)" "never_fails (the_frame x)"
    "never_fails (upd_frame g x)" "never_fails (the_list i)" "never_fails (put_list i l)" for x g i l
    by (auto simp: frame_from_ref_def ref_from_frame_def the_frame_def upd_frame_def the_list_def put_list_def
        split: list_id.splits intro!: nofail_intro)
  have b: "never_fails (set_prev x p)" "never_fails (set_next x p)" "never_fails (set_list_id x i)" for x p i
    by (simp_all add: set_prev_def set_next_def set_list_id_def a)
  have c: "never_fails (remove_frame i x)" "never_fails (push_front i x)" for i x
    unfolding remove_frame_def push_front_def assert_loose_def
    by (intro nofail_intro a b; auto split: option.splits intro!: nofail_intro a b)+
  show ?thesis unfolding free_frame_def by (intro nofail_intro a c)
qed

lemma nofail_cleanup [nofail_intro]: "never_fails (cleanup_cap_table K v d)" "never_fails (cleanup_frame_table K ob)"
proof -
  have l: "never_fails (drop_view_cap K d c)" "never_fails (drop_object_frame K d x)" for d c x
    by (auto simp: drop_view_cap_def drop_object_frame_def split: prod.splits intro!: nofail_intro)
  show "never_fails (cleanup_cap_table K v d)" "never_fails (cleanup_frame_table K ob)"
    unfolding cleanup_cap_table_def cleanup_frame_table_def cleanup_table_leaves by (intro nofail_intro l)+
qed

lemma nofail_notify [nofail_intro]: "never_fails (notify_server E sv msg)"
proof -
  have "never_fails (lift (rs_badged_ntfn d))" for d
    by (auto simp: rs_badged_ntfn_def never_fails_def run_simps obind_eq_Err rust_assert_def unwrap_def split: option.splits if_splits)
  then show ?thesis unfolding notify_server_def by (intro nofail_intro; assumption)
qed

lemma nofail_drop_resource [nofail_intro]: "never_fails (drop_resource E h)"
  unfolding drop_resource_def handle_obj_destroy_internal_def handle_unview_internal_def
    handle_window_destroy_internal_def unlink_view_def
  by (auto split: option.splits resource.splits intro!: nofail_intro)

section \<open>Runs of the accesses\<close>

lemma get_proc_run: "r_cells s me = ActiveProcess p \<Longrightarrow> get_proc me s = (Ok p, s)"
  by (simp add: get_proc_def ret_def)

lemma upd_proc_run:
  "r_cells s me = ActiveProcess p \<Longrightarrow>
   upd_proc me f s = (Ok (), s\<lparr>r_cells := (r_cells s)(me := ActiveProcess (f p))\<rparr>)"
  by (simp add: upd_proc_def bnd_def get_proc_run set_cell_def modify_def)

lemma get_proc_eq_Ok: "get_proc me s = (Ok p, t) \<longleftrightarrow> r_cells s me = ActiveProcess p \<and> t = s"
  by (cases "r_cells s me") (auto simp: get_proc_def bnd_def op_run)

lemma find_local_run:
  "r_cells s me = ActiveProcess p \<Longrightarrow> get_handle (unat idx) (p_handles p) = Ok (Some r) \<Longrightarrow>
   find_local me idx which s = (Ok r, s)"
  by (simp add: find_local_def bnd_def op_run get_proc_run)

end
