(* ===== verification/Process_Facts.thy ===== *)
theory Process_Facts
  imports Small_World Root_Frame
begin

text \<open>
  Processes that end and processes that wait: what \<open>handle_process_exit\<close> and
  \<open>handle_process_wait\<close> of \<open>crates/root_server/src/proc.rs\<close> do to each other.
\<close>

section \<open>What the clean-up of a process leaves alone\<close>

text \<open>Cells and the process table.\<close>

definition procs_of :: "'k root \<Rightarrow> (nat \<Rightarrow> process_type) \<times> nat option list \<times> nat" where
  "procs_of s = (r_cells s, r_procs s, r_next s)"

lemma procs_of_upd [simp]:
  "procs_of (s\<lparr>r_mem := m\<rparr>) = procs_of s" "procs_of (s\<lparr>r_windows := w\<rparr>) = procs_of s"
  "procs_of (s\<lparr>r_views := v\<rparr>) = procs_of s" "procs_of (s\<lparr>r_objects := ob\<rparr>) = procs_of s"
  by (simp_all add: procs_of_def)

lemma keeps_drop_resource: "keeps procs_of (drop_resource E h)"
proof -
  have u: "keeps procs_of (unlink_view v)" for v
    unfolding unlink_view_def by (intro keeps_intro; simp)
  have "keeps procs_of (handle_window_destroy_internal E w d)" for w d
    unfolding handle_window_destroy_internal_def
    by (intro keeps_intro) (auto split: option.splits intro!: keeps_intro u)
  then show ?thesis
    unfolding drop_resource_def handle_obj_destroy_internal_def handle_unview_internal_def
    by (auto split: option.splits resource.splits intro!: keeps_intro u)
qed

lemma nofail_process_destroy: "never_fails (process_destroy E me)"
  unfolding process_destroy_def in_rs_total_def Let_def
  by (intro nofail_intro) (auto split: prod.splits intro!: nofail_intro)

section \<open>Ending a process\<close>

text \<open>\<open>p.handle_table.fill(None)\<close>.\<close>

definition no_handles :: "user_process \<Rightarrow> user_process" where
  "no_handles p = p\<lparr>p_handles := replicate (length (p_handles p)) None\<rparr>"

lemma process_destroy_cells:
  fixes s t :: "'k root"
  assumes p: "r_cells s me = ActiveProcess p" and run: "process_destroy E me s = ((Ok () :: ('e, unit) outcome), t)"
  shows "r_cells t = (r_cells s)(me := ActiveProcess (no_handles p))" "r_procs t = r_procs s" "r_next t = r_next s"
proof -
  obtain rest :: "('k root, 'e, unit) op" where eq: "process_destroy E me s =
      bnd (for_each (drop_resource E) (p_handles p)) (\<lambda>_. bnd (upd_proc me no_handles) (\<lambda>_. rest)) s"
    and rest: "keeps procs_of rest"
  proof
    let ?rest = "bnd (in_rs_total (dealloc_retyped (e_sel4 E) (p_sched_context p))) (\<lambda>_.
      bnd (in_rs_total (dealloc_retyped (e_sel4 E) (p_tcb p))) (\<lambda>_.
      bnd (in_rs_total (dealloc_retyped (e_sel4 E) (p_vspace p))) (\<lambda>_.
      bnd ((\<lambda>(c, f). seq (in_rs_total (rs_delete (e_sel4 E) c)) (in_frames (free_frame f))) (p_ipc_buffer p)) (\<lambda>_.
      bnd ((\<lambda>(c, f). seq (in_rs_total (rs_delete (e_sel4 E) c)) (in_frames (free_frame f))) (p_shared_buffer p)) (\<lambda>_.
      bnd (in_rs_total (rs_delete (e_sel4 E) (p_fault_ep p))) (\<lambda>_.
      in_rs_total (user_cspace_destroy (e_sel4 E) (p_cspace p))))))))"
    show "process_destroy E me s =
        bnd (for_each (drop_resource E) (p_handles p)) (\<lambda>_. bnd (upd_proc me no_handles) (\<lambda>_. ?rest)) s"
      unfolding process_destroy_def Let_def
        bnd_run(1) [where m = "get_proc me" and s = s and x = p and s' = s, OF get_proc_run [OF p]]
        no_handles_def [abs_def] ..
    show "keeps procs_of ?rest" by (intro keeps_intro; auto split: prod.splits intro!: keeps_intro)
  qed
  obtain u where u: "for_each (drop_resource E) (p_handles p) s = ((Ok () :: ('e, unit) outcome), u)"
    and v: "bnd (upd_proc me no_handles) (\<lambda>_. rest) u = (Ok (), t)"
    using run unfolding eq by (auto simp: bnd_eq_Ok)
  have su: "procs_of u = procs_of s" by (rule keepsD [OF keeps_for_each [OF keeps_drop_resource] u])
  then have pu: "r_cells u me = ActiveProcess p" using p by (simp add: procs_of_def)
  let ?w = "u\<lparr>r_cells := (r_cells u)(me := ActiveProcess (no_handles p))\<rparr>"
  have "rest ?w = (Ok (), t)" using v by (simp add: bnd_def upd_proc_run [OF pu])
  then have "procs_of t = procs_of ?w" by (rule keepsD [OF rest])
  then show "r_cells t = (r_cells s)(me := ActiveProcess (no_handles p))" "r_procs t = r_procs s" "r_next t = r_next s"
    using su by (simp_all add: procs_of_def)
qed

text \<open>The clean-up in the small world.\<close>

lemma small_destroy:
  assumes Q: "quiet quad_lists s" and p: "r_cells s me = ActiveProcess p"
    and f: "p = (small_proc (replicate n None) ws)\<lparr>p_waiter := w\<rparr>"
  shows "\<exists>t. process_destroy small_env me s = (Ok () :: (sel4_error, unit) outcome, t)"
proof -
  have none: "for_each (drop_resource small_env) (replicate n None) u = (Ok () :: (sel4_error, unit) outcome, u)" for u
    by (induction n) (simp_all add: drop_resource_def ret_def bnd_def)
  let ?s1 = "s\<lparr>r_cells := (r_cells s)(me := ActiveProcess (no_handles p))\<rparr>"
  have u: "upd_proc me no_handles s = (Ok () :: (sel4_error, unit) outcome, ?s1)" by (rule upd_proc_run [OF p])
  have Q1: "quiet quad_lists ?s1" using Q by (simp add: quiet_def)
  obtain s2 where s2: "in_rs_total (dealloc_retyped counting_kernel (7, 3002)) ?s1 = (Ok () :: (sel4_error, unit) outcome, s2)" "quiet quad_lists s2"
    using quiet_dealloc [OF Q1, of 7 3002] by auto
  obtain s3 where s3: "in_rs_total (dealloc_retyped counting_kernel (3, 3000)) s2 = (Ok () :: (sel4_error, unit) outcome, s3)" "quiet quad_lists s3"
    using quiet_dealloc [OF s2(2), of 3 3000] by auto
  obtain s4 where s4: "in_rs_total (dealloc_retyped counting_kernel (4, 3001)) s3 = (Ok () :: (sel4_error, unit) outcome, s4)" "quiet quad_lists s4"
    using quiet_dealloc [OF s3(2), of 4 3001] by auto
  obtain s5 where s5: "in_rs_total (rs_delete counting_kernel 5) s4 = (Ok () :: (sel4_error, unit) outcome, s5)" "quiet quad_lists s5"
    using quiet_delete [OF s4(2), of 5] by auto
  obtain s6 L where s6: "in_frames (free_frame 0) s5 = (Ok () :: (sel4_error, unit) outcome, s6)" "quiet L s6" "L AllocatedList = [1]"
    using quiet_free_frame [OF s5(2), of 0] by auto
  obtain s7 where s7: "in_rs_total (rs_delete counting_kernel 6) s6 = (Ok () :: (sel4_error, unit) outcome, s7)" "quiet L s7"
    using quiet_delete [OF s6(2), of 6] by auto
  obtain s8 L' where s8: "in_frames (free_frame 1) s7 = (Ok () :: (sel4_error, unit) outcome, s8)" "quiet L' s8"
    using quiet_free_frame [OF s7(2), of 1] s6(3) by auto
  obtain s9 where s9: "in_rs_total (rs_delete counting_kernel 8) s8 = (Ok () :: (sel4_error, unit) outcome, s9)" "quiet L' s9"
    using quiet_delete [OF s8(2), of 8] by auto
  obtain t where t: "in_rs_total (user_cspace_destroy counting_kernel (p_cspace p)) s9 = (Ok () :: (sel4_error, unit) outcome, t)"
    using quiet_cspace_destroy [OF s9(2)] by blast
  have fields: "p_handles p = replicate n None" "p_sched_context p = (7, 3002)" "p_tcb p = (3, 3000)" "p_vspace p = (4, 3001)"
    "p_ipc_buffer p = (5, 0)" "p_shared_buffer p = (6, 1)" "p_fault_ep p = 8"
    by (simp_all add: f small_proc_def)
  show ?thesis
    unfolding process_destroy_def Let_def no_handles_def [symmetric, abs_def]
    by (simp add: bnd_def seq_def get_proc_run [OF p] fields none u s2 s3 s4 s5 s6 s7 s8 s9 t del: One_nat_def)
qed

section \<open>Properties\<close>

text \<open>C24: A process that ends while another one waits for it takes the root server down: the answer
  to the waiter, \<open>SMOSReply::ProcessWait\<close>, has no branch in \<open>handle_reply\<close>, so
  \<open>handle_process_exit\<close> panics whatever the process's resources are.\<close>

theorem exit_with_waiter_panics:
  assumes p: "r_cells s me = ActiveProcess p" and w: "p_waiter p = Some x"
  shows "fst (handle_process_exit E buf me s) = (Panic :: ('e, unit) outcome)"
proof (cases "process_destroy E me s :: ('e, unit) outcome \<times> 'a root")
  case (Pair r t)
  show ?thesis
  proof (cases r)
    case (Ok u)
    then have d: "process_destroy E me s = (Ok () :: ('e, unit) outcome, t)" using Pair by simp
    have "r_cells t me = ActiveProcess (no_handles p)" using process_destroy_cells(1) [OF p d] by simp
    then show ?thesis using Pair Ok w by (simp add: handle_process_exit_def bnd_def get_proc_run no_handles_def panic_def)
  next
    case (Err e)
    then show ?thesis using nofail_process_destroy [of E me] Pair unfolding never_fails_def by (metis fst_conv)
  qed (simp add: handle_process_exit_def bnd_def Pair)
qed

definition waited_cells :: "nat \<Rightarrow> process_type" where
  "waited_cells c = ActiveProcess ((small_proc (replicate 256 None) [])\<lparr>p_waiter := Some (9, 3004)\<rparr>)"

theorem exit_with_waiter_panics_witness:
  "\<forall>b. fst (handle_process_exit small_env b 0 (small_root waited_cells)) = (Panic :: (sel4_error, unit) outcome)"
  by (rule allI, rule exit_with_waiter_panics [where x = "(9, 3004)"
      and p = "(small_proc (replicate 256 None) [])\<lparr>p_waiter := Some (9, 3004)\<rparr>"]) (simp_all add: small_root_def waited_cells_def)

text \<open>C25: A process that waits for one that has already ended waits for ever.  The exit puts a new
  cell with the zombie into the process table, while the handle still refers to the old cell, which
  still holds an active process: the wait registers itself there, gets no answer, and the zombie
  keeps its process number.\<close>

theorem wait_after_exit_hangs:
  assumes p: "r_cells s c = ActiveProcess p" and "p_waiter p = None" and fresh: "c < r_next s"
    and pid: "p_pid p < length (r_procs s)"
    and exit: "handle_process_exit E buf c s = (Ok () :: ('e, unit) outcome, t)"
    and q: "r_cells t me = ActiveProcess q"
    and h: "get_handle (unat (pw_hndl args)) (p_handles q) = Ok (Some (R_Process c))"
  shows "\<exists>u z. handle_process_wait me reply args t = (Ok None, u) \<and>
    r_cells u c = ActiveProcess ((no_handles p)\<lparr>p_waiter := Some reply\<rparr>) \<and>
    r_procs u ! p_pid p = Some z \<and> r_cells u z = ZombieProcess (p_pid p)"
proof -
  obtain d where d: "process_destroy E c s = (Ok () :: ('e, unit) outcome, d)"
    using exit by (auto simp: handle_process_exit_def bnd_eq_Ok)
  note cells = process_destroy_cells [OF p d]
  have "get_proc c d = (Ok (no_handles p) :: ('e, user_process) outcome, d)" using cells(1) by (simp add: get_proc_run)
  then have t: "t = d\<lparr>r_next := Suc (r_next d), r_cells := (r_cells d)(r_next d := ZombieProcess (p_pid p)),
      r_procs := (r_procs d)[p_pid p := Some (r_next d)]\<rparr>"
    using exit d assms(2) pid cells(2)
    by (auto simp: handle_process_exit_def bnd_def no_handles_def new_cell_def fresh_id_def set_cell_def procs_set_def op_run)
  then have c: "r_cells t c = ActiveProcess (no_handles p)" using cells(1,3) fresh by simp
  let ?u = "t\<lparr>r_cells := (r_cells t)(c := ActiveProcess ((no_handles p)\<lparr>p_waiter := Some reply\<rparr>))\<rparr>"
  have "find_local me (pw_hndl args) 0 t = (Ok (R_Process c) :: (InvocationError, resource) outcome, t)"
    using h by (simp add: find_local_def bnd_def get_proc_run [OF q] op_run)
  then have "handle_process_wait me reply args t = (Ok None, ?u)"
    using c by (simp add: handle_process_wait_def bnd_def op_run set_cell_def)
  moreover have "r_procs ?u ! p_pid p = Some (r_next d)" using t pid cells(2) by simp
  moreover have "r_cells ?u (r_next d) = ZombieProcess (p_pid p)" using t fresh cells(3) by simp
  ultimately show ?thesis by (intro exI [of _ ?u] exI [of _ "r_next d"]) simp
qed

definition parent_and_child :: "nat \<Rightarrow> process_type" where
  "parent_and_child c =
     ActiveProcess (if c = 0 then small_proc (replicate 256 None) []
       else (small_proc ((replicate 256 None)[0 := Some (R_Process 0)]) [])\<lparr>p_pid := 1\<rparr>)"

theorem wait_after_exit_hangs_witness:
  "\<forall>b. \<exists>t u z. handle_process_exit small_env b 0 (small_root parent_and_child) = (Ok () :: (sel4_error, unit) outcome, t) \<and>
     handle_process_wait 1 (9, 3004) \<lparr>pw_hndl = 0\<rparr> t = (Ok None, u) \<and> r_procs u ! 0 = Some z \<and> r_cells u z = ZombieProcess 0"
proof
  fix b
  let ?s = "small_root parent_and_child" and ?p = "small_proc (replicate 256 None) []"
  have p: "r_cells ?s 0 = ActiveProcess ?p" by (simp add: small_root_def parent_and_child_def)
  obtain d where d: "process_destroy small_env 0 ?s = (Ok () :: (sel4_error, unit) outcome, d)"
    using small_destroy [OF small_root_quiet p, where n = 256 and ws = "[]" and w = None] by (auto simp: small_proc_def)
  note cells = process_destroy_cells [OF p d]
  let ?t = "d\<lparr>r_next := Suc (r_next d), r_cells := (r_cells d)(r_next d := ZombieProcess 0),
      r_procs := (r_procs d)[0 := Some (r_next d)]\<rparr>"
  have "get_proc 0 d = (Ok (no_handles ?p) :: (sel4_error, user_process) outcome, d)" using cells(1) by (simp add: get_proc_run)
  then have e: "handle_process_exit small_env b 0 ?s = (Ok () :: (sel4_error, unit) outcome, ?t)"
    using d cells(2)
    by (simp add: handle_process_exit_def bnd_def no_handles_def new_cell_def fresh_id_def set_cell_def procs_set_def op_run
        small_proc_def small_root_def)
  have q: "r_cells ?t 1 = ActiveProcess ((small_proc ((replicate 256 None)[0 := Some (R_Process 0)]) [])\<lparr>p_pid := 1\<rparr>)"
    using cells(1,3) by (simp add: small_root_def parent_and_child_def)
  show "\<exists>t u z. handle_process_exit small_env b 0 ?s = (Ok () :: (sel4_error, unit) outcome, t) \<and>
     handle_process_wait 1 (9, 3004) \<lparr>pw_hndl = 0\<rparr> t = (Ok None, u) \<and> r_procs u ! 0 = Some z \<and> r_cells u z = ZombieProcess 0"
    using wait_after_exit_hangs [OF p _ _ _ e q, of "\<lparr>pw_hndl = 0\<rparr>" "(9, 3004)"] e
    by (fastforce simp: small_root_def small_proc_def get_handle_def)
qed

end
