(* ===== verification/Root_Types.thy ===== *)
theory Root_Types
  imports Root_Frame
begin

text \<open>
  The types of the root server's shared structures.  \<open>Rc<RefCell<T>>\<close> gives every cell of the
  sources a type; the model numbers all cells together, and a store typing says which number is a
  cell of which type.  A root state is \<open>typed\<close> by it when every reference in a structure, a handle
  table, the process table and the table of names leads to a cell of the right type, and the sizes
  and tables the code indexes are as they were made.  A view's window, object and server never
  change, so they are part of its type.  \<open>safe\<close> is the calculus by which operations are shown to
  keep a state typed, with a typing that only grows.
\<close>

section \<open>Store typings\<close>

datatype kind =
    KWindow
  | KView nat "nat option" "nat option"
  | KObject
  | KServer
  | KConn
  | KProc

type_synonym typing = "nat \<Rightarrow> kind option"

fun res_typed :: "typing \<Rightarrow> resource \<Rightarrow> bool" where
  "res_typed G (R_Window w) \<longleftrightarrow> G w = Some KWindow"
| "res_typed G (R_Object ob) \<longleftrightarrow> G ob = Some KObject"
| "res_typed G (R_View v) \<longleftrightarrow> (\<exists>w ob. G v = Some (KView w (Some ob) None))"
| "res_typed G (R_WindowRegistration v) \<longleftrightarrow> (\<exists>w sv. G v = Some (KView w None (Some sv)))"
| "res_typed G (R_ConnRegistration c) \<longleftrightarrow> G c = Some KConn"
| "res_typed G (R_Connection c) \<longleftrightarrow> G c = Some KConn"
| "res_typed G (R_Server sv) \<longleftrightarrow> G sv = Some KServer"
| "res_typed G (R_Process c) \<longleftrightarrow> G c = Some KProc"
| "res_typed G _ \<longleftrightarrow> True"

definition window_typed :: "typing \<Rightarrow> nat \<Rightarrow> window \<Rightarrow> bool" where
  "window_typed G w x \<longleftrightarrow> (\<forall>v. w_view x = Some v \<longrightarrow> (\<exists>ob sv. G v = Some (KView w ob sv)))"

definition view_typed :: "typing \<Rightarrow> nat \<Rightarrow> nat option \<Rightarrow> nat option \<Rightarrow> view_info \<Rightarrow> bool" where
  "view_typed G w ob sv x \<longleftrightarrow>
     v_window x = w \<and> v_object x = ob \<and> map_option fst (v_server x) = sv \<and> wf_table 3 (v_caps x) \<and>
     G w = Some KWindow \<and> (\<forall>i. ob = Some i \<longrightarrow> G i = Some KObject) \<and> (\<forall>i. sv = Some i \<longrightarrow> G i = Some KServer) \<and>
     (ob = None \<longleftrightarrow> sv \<noteq> None)"

definition object_typed :: "typing \<Rightarrow> nat \<Rightarrow> mem_object \<Rightarrow> bool" where
  "object_typed G ob x \<longleftrightarrow>
     wf_table 3 (mo_frames x) \<and> (\<forall>v \<in> set (mo_views x). \<exists>w. G v = Some (KView w (Some ob) None))"

definition server_typed :: "typing \<Rightarrow> server_info \<Rightarrow> bool" where
  "server_typed G x \<longleftrightarrow>
     (\<forall>c \<in> set (sv_connections x). G c = Some KConn) \<and> (\<exists>w ob. G (sv_view x) = Some (KView w (Some ob) None))"

definition conn_typed :: "typing \<Rightarrow> connection \<Rightarrow> bool" where
  "conn_typed G x \<longleftrightarrow> G (cn_client x) = Some KProc \<and> G (cn_server x) = Some KServer"

definition proc_typed :: "typing \<Rightarrow> user_process \<Rightarrow> bool" where
  "proc_typed G p \<longleftrightarrow>
     p_pid p < MAX_PROCS \<and> length (p_handles p) = MAX_HANDLES \<and>
     (\<forall>r. Some r \<in> set (p_handles p) \<longrightarrow> res_typed G r) \<and>
     (\<forall>w \<in> set (p_initial_windows p) \<union> set (p_windows p). G w = Some KWindow) \<and>
     (\<forall>v \<in> set (p_views p). \<exists>w ob. G v = Some (KView w (Some ob) None))"

fun cell_typed :: "typing \<Rightarrow> process_type \<Rightarrow> bool" where
  "cell_typed G (ActiveProcess p) \<longleftrightarrow> proc_typed G p"
| "cell_typed G (ZombieProcess pid) \<longleftrightarrow> pid < MAX_PROCS"

definition hcaps_typed :: "typing \<Rightarrow> resource hctable \<Rightarrow> bool" where
  "hcaps_typed G hc \<longleftrightarrow>
     length hc = MAX_HANDLE_CAPS \<and> (\<forall>h \<in> set hc. \<forall>r. hc_handle h = Some r \<longrightarrow> res_typed G r)"

definition procs_typed :: "typing \<Rightarrow> nat option list \<Rightarrow> bool" where
  "procs_typed G procs \<longleftrightarrow> length procs = MAX_PROCS \<and> (\<forall>c. Some c \<in> set procs \<longrightarrow> G c = Some KProc)"

fun kind_typed :: "typing \<Rightarrow> 'k root \<Rightarrow> nat \<Rightarrow> kind \<Rightarrow> bool" where
  "kind_typed G s i KWindow \<longleftrightarrow> window_typed G i (r_windows s i)"
| "kind_typed G s i (KView w ob sv) \<longleftrightarrow> view_typed G w ob sv (r_views s i)"
| "kind_typed G s i KObject \<longleftrightarrow> object_typed G i (r_objects s i)"
| "kind_typed G s i KServer \<longleftrightarrow> server_typed G (r_servers s i)"
| "kind_typed G s i KConn \<longleftrightarrow> conn_typed G (r_conns s i)"
| "kind_typed G s i KProc \<longleftrightarrow> cell_typed G (r_cells s i)"

definition typed :: "typing \<Rightarrow> 'k root \<Rightarrow> bool" where
  "typed G s \<longleftrightarrow>
     (\<forall>i \<ge> r_next s. G i = None) \<and> (\<forall>i k. G i = Some k \<longrightarrow> kind_typed G s i k) \<and>
     hcaps_typed G (r_handle_caps s) \<and> procs_typed G (r_procs s) \<and>
     (\<forall>n sv. r_names s n = Some sv \<longrightarrow> G sv = Some KServer)"

section \<open>Growing typings\<close>

lemma typing_grows: "G \<subseteq>\<^sub>m G' \<Longrightarrow> G i = Some k \<Longrightarrow> G' i = Some k"
  by (metis domI map_le_def)

lemma res_typed_grows: "G \<subseteq>\<^sub>m G' \<Longrightarrow> res_typed G r \<Longrightarrow> res_typed G' r"
  by (cases r) (auto dest: typing_grows)

lemma parts_grow:
  assumes g: "G \<subseteq>\<^sub>m G'"
  shows "window_typed G w x1 \<Longrightarrow> window_typed G' w x1"
    "view_typed G w' ob' sv' x2 \<Longrightarrow> view_typed G' w' ob' sv' x2"
    "object_typed G ob x3 \<Longrightarrow> object_typed G' ob x3"
    "server_typed G x4 \<Longrightarrow> server_typed G' x4"
    "conn_typed G x5 \<Longrightarrow> conn_typed G' x5"
    "proc_typed G x6 \<Longrightarrow> proc_typed G' x6"
    "hcaps_typed G x7 \<Longrightarrow> hcaps_typed G' x7"
    "procs_typed G x8 \<Longrightarrow> procs_typed G' x8"
proof -
  note up = typing_grows [OF g] res_typed_grows [OF g]
  show "window_typed G w x1 \<Longrightarrow> window_typed G' w x1" by (meson up(1) window_typed_def)
  show "view_typed G w' ob' sv' x2 \<Longrightarrow> view_typed G' w' ob' sv' x2" by (simp add: view_typed_def up)
  show "object_typed G ob x3 \<Longrightarrow> object_typed G' ob x3" unfolding object_typed_def using up(1) by blast
  show "server_typed G x4 \<Longrightarrow> server_typed G' x4" unfolding server_typed_def using up(1) by blast
  show "conn_typed G x5 \<Longrightarrow> conn_typed G' x5" by (simp add: conn_typed_def up)
  show "proc_typed G x6 \<Longrightarrow> proc_typed G' x6" unfolding proc_typed_def using up by blast
  show "hcaps_typed G x7 \<Longrightarrow> hcaps_typed G' x7" unfolding hcaps_typed_def using up by blast
  show "procs_typed G x8 \<Longrightarrow> procs_typed G' x8" unfolding procs_typed_def using up by blast
qed

lemma cell_typed_grows: "G \<subseteq>\<^sub>m G' \<Longrightarrow> cell_typed G c \<Longrightarrow> cell_typed G' c"
  by (cases c) (auto intro: parts_grow)

lemma kind_typed_grows: "G \<subseteq>\<^sub>m G' \<Longrightarrow> kind_typed G s i k \<Longrightarrow> kind_typed G' s i k"
  by (cases k) (auto intro: parts_grow cell_typed_grows)

section \<open>Operations that keep a state typed\<close>

text \<open>\<open>upw P G\<close>: \<open>P\<close> holds of \<open>G\<close> and of every typing that extends it.\<close>

definition upw :: "(typing \<Rightarrow> bool) \<Rightarrow> typing \<Rightarrow> bool" where
  "upw P G \<longleftrightarrow> (\<forall>G'. G \<subseteq>\<^sub>m G' \<longrightarrow> P G')"

definition safe :: "(typing \<Rightarrow> bool) \<Rightarrow> ('k root, 'e, 'a) op \<Rightarrow> ('a \<Rightarrow> typing \<Rightarrow> bool) \<Rightarrow> bool" where
  "safe P m Q \<longleftrightarrow>
     (\<forall>G s. typed G s \<and> upw P G \<longrightarrow>
       (case m s of
          (Ok x, t) \<Rightarrow> \<exists>G'. G \<subseteq>\<^sub>m G' \<and> typed G' t \<and> upw (Q x) G'
        | (Err e, t) \<Rightarrow> \<exists>G'. G \<subseteq>\<^sub>m G' \<and> typed G' t
        | (Panic, t) \<Rightarrow> True))"

named_theorems safe_rules "operations that keep the root state typed"

lemma upwD: "upw P G \<Longrightarrow> P G"
  by (simp add: upw_def)

lemma upw_grows: "upw P G \<Longrightarrow> G \<subseteq>\<^sub>m G' \<Longrightarrow> upw P G'"
  unfolding upw_def using map_le_trans by blast

lemma upw_mono: "upw P G \<Longrightarrow> (\<And>G. P G \<Longrightarrow> Q G) \<Longrightarrow> upw Q G"
  by (simp add: upw_def)

lemma upw_conj: "upw P G \<Longrightarrow> upw Q G \<Longrightarrow> upw (\<lambda>G. P G \<and> Q G) G"
  by (simp add: upw_def)

lemma upw_True [simp]: "upw (\<lambda>_. True) G"
  by (simp add: upw_def)

lemma safeI:
  assumes "\<And>G s x t. typed G s \<Longrightarrow> upw P G \<Longrightarrow> m s = (Ok x, t) \<Longrightarrow> \<exists>G'. G \<subseteq>\<^sub>m G' \<and> typed G' t \<and> upw (Q x) G'"
    and "\<And>G s e t. typed G s \<Longrightarrow> upw P G \<Longrightarrow> m s = (Err e, t) \<Longrightarrow> \<exists>G'. G \<subseteq>\<^sub>m G' \<and> typed G' t"
  shows "safe P m Q"
  unfolding safe_def using assms by (auto split: prod.splits outcome.splits)

lemma safeD:
  assumes "safe P m Q" and "typed G s" and "upw P G"
  shows "m s = (Ok x, t) \<Longrightarrow> \<exists>G'. G \<subseteq>\<^sub>m G' \<and> typed G' t \<and> upw (Q x) G'"
    and "m s = (Err e, t) \<Longrightarrow> \<exists>G'. G \<subseteq>\<^sub>m G' \<and> typed G' t"
  using assms by (fastforce simp: safe_def)+

lemma safe_bnd:
  assumes m: "safe P m Q" and f: "\<And>x. safe (\<lambda>G. P G \<and> Q x G) (f x) R"
  shows "safe P (bnd m f) R"
proof (rule safeI)
  fix G s y t assume s: "typed G s" "upw P G" and "bnd m f s = (Ok y, t)"
  then obtain x u where u: "m s = (Ok x, u)" "f x u = (Ok y, t)" by (auto simp: bnd_eq_Ok)
  obtain G1 where G1: "G \<subseteq>\<^sub>m G1" "typed G1 u" "upw (Q x) G1" using safeD(1) [OF m s u(1)] by blast
  obtain G2 where "G1 \<subseteq>\<^sub>m G2" "typed G2 t" "upw (R y) G2"
    using safeD(1) [OF f G1(2) upw_conj [OF upw_grows [OF s(2) G1(1)] G1(3)] u(2)] by blast
  then show "\<exists>G'. G \<subseteq>\<^sub>m G' \<and> typed G' t \<and> upw (R y) G'" using G1(1) map_le_trans by blast
next
  fix G s e t assume s: "typed G s" "upw P G" and b: "bnd m f s = (Err e, t)"
  show "\<exists>G'. G \<subseteq>\<^sub>m G' \<and> typed G' t"
  proof (cases "m s = (Err e, t)")
    case False
    then obtain x u where u: "m s = (Ok x, u)" "f x u = (Err e, t)" using b by (auto simp: bnd_eq_Err)
    obtain G1 where G1: "G \<subseteq>\<^sub>m G1" "typed G1 u" "upw (Q x) G1" using safeD(1) [OF m s u(1)] by blast
    then show ?thesis
      using safeD(2) [OF f G1(2) upw_conj [OF upw_grows [OF s(2) G1(1)] G1(3)] u(2)] map_le_trans by blast
  qed (use safeD(2) [OF m s] in blast)
qed

text \<open>A step whose result is not used.\<close>

lemma safe_bnd_unit:
  fixes m :: "('k root, 'e, unit) op"
  assumes "safe P m (\<lambda>_ _. True)" and "safe P (f ()) R"
  shows "safe P (bnd m f) R"
  by (rule safe_bnd [OF assms(1)]) (use assms(2) in simp)

lemma safe_weaken:
  assumes "safe P m Q" and "\<And>G. P' G \<Longrightarrow> P G" and "\<And>x G. P' G \<Longrightarrow> Q x G \<Longrightarrow> Q' x G"
  shows "safe P' m Q'"
proof (rule safeI)
  fix G s x t assume s: "typed G s" "upw P' G" and m: "m s = (Ok x, t)"
  have "upw P G" using s(2) assms(2) by (rule upw_mono)
  then obtain G' where G': "G \<subseteq>\<^sub>m G'" "typed G' t" "upw (Q x) G'" using safeD(1) [OF assms(1) s(1) _ m] by blast
  have "upw (Q' x) G'"
    by (rule upw_mono [OF upw_conj [OF upw_grows [OF s(2) G'(1)] G'(3)]]) (use assms(3) in blast)
  then show "\<exists>G'. G \<subseteq>\<^sub>m G' \<and> typed G' t \<and> upw (Q' x) G'" using G' by blast
next
  fix G s e t assume "typed G s" "upw P' G" "m s = (Err e, t)"
  moreover from this(2) have "upw P G" using assms(2) by (rule upw_mono)
  ultimately show "\<exists>G'. G \<subseteq>\<^sub>m G' \<and> typed G' t" using safeD(2) [OF assms(1)] by blast
qed

lemma same_typing:
  "typed G t \<Longrightarrow> \<exists>G'. G \<subseteq>\<^sub>m G' \<and> typed G' t"
  "typed G t \<Longrightarrow> upw P G \<Longrightarrow> (\<And>G. P G \<Longrightarrow> Q G) \<Longrightarrow> \<exists>G'. G \<subseteq>\<^sub>m G' \<and> typed G' t \<and> upw Q G'"
  by (rule exI [of _ G], simp) (rule exI [of _ G], simp add: upw_mono)

text \<open>A rule for a use of a lemma with its precondition.\<close>

lemma safe_use: "safe P m Q \<Longrightarrow> (\<And>G. P' G \<Longrightarrow> P G) \<Longrightarrow> safe P' m Q"
  by (rule safe_weaken)

lemma safe_ret: "(\<And>G. P G \<Longrightarrow> Q x G) \<Longrightarrow> safe P (ret x) Q"
  by (rule safeI) (auto simp: op_run intro!: same_typing(2))

lemma safe_basic: "safe P (fail e) Q" "safe P panic Q"
  by (auto intro!: safeI same_typing(1) simp: op_run)

lemma safe_lift: "(\<And>x G. r = Ok x \<Longrightarrow> P G \<Longrightarrow> Q x G) \<Longrightarrow> safe P (lift r) Q"
  by (rule safeI) (auto simp: op_run intro!: same_typing)

lemma safe_checks: "safe P (guard b e) (\<lambda>_ _. True)" "safe P (ensure b) (\<lambda>_ _. b)"
  by (auto intro!: safeI same_typing simp: op_run split: if_splits)

lemma safe_on_err: "safe P m Q \<Longrightarrow> (\<And>e. safe P (h e) Q) \<Longrightarrow> safe P (on_err m h) Q"
proof -
  assume m: "safe P m Q" and h: "\<And>e. safe P (h e) Q"
  have "\<exists>G'. G \<subseteq>\<^sub>m G' \<and> typed G' t \<and> (case r of Ok x \<Rightarrow> upw (Q x) G' | _ \<Rightarrow> True)"
    if s: "typed G s" "upw P G" and run: "on_err m h s = (r, t)" "r \<noteq> Panic" for G s t r
  proof (cases "m s")
    case (Pair r0 u)
    show ?thesis
    proof (cases r0)
      case (Ok x)
      then show ?thesis using safeD(1) [OF m s] run Pair by (auto simp: on_err_def)
    next
      case (Err e)
      obtain G1 where G1: "G \<subseteq>\<^sub>m G1" "typed G1 u" using safeD(2) [OF m s] Pair Err by blast
      have "h e u = (r, t)" using run(1) Pair Err by (simp add: on_err_def)
      then show ?thesis
        using safeD [OF h G1(2) upw_grows [OF s(2) G1(1)]] run(2) G1(1) map_le_trans
        by (cases r) (simp, blast, simp, blast, simp)
    qed (use run Pair in \<open>simp add: on_err_def\<close>)
  qed
  then show ?thesis by (intro safeI) fastforce+
qed

lemma safe_expect: "safe P m Q \<Longrightarrow> safe P (expect m) Q"
  unfolding expect_def by (rule safe_on_err) (simp_all add: safe_basic)

lemma safe_seq: "safe P m (\<lambda>_ _. True) \<Longrightarrow> safe P m' Q \<Longrightarrow> safe P (seq m m') Q"
  unfolding seq_def by (rule safe_bnd_unit)

lemma safe_undo: "safe P m Q \<Longrightarrow> safe P c (\<lambda>_ _. True) \<Longrightarrow> safe P (undo_on_err m c) Q"
  unfolding undo_on_err_def by (intro safe_on_err safe_seq safe_bnd_unit safe_basic)

lemma safe_attempt: "safe P m Q \<Longrightarrow> safe P (attempt m) (\<lambda>r G. \<forall>x. r = Ok x \<longrightarrow> Q x G)"
proof (rule safeI)
  fix G s y t assume m: "safe P m Q" and s: "typed G s" "upw P G" and a: "attempt m s = (Ok y, t)"
  then have "m s = (y, t)" "y \<noteq> Panic" by (auto simp: attempt_def split: prod.splits outcome.splits)
  then show "\<exists>G'. G \<subseteq>\<^sub>m G' \<and> typed G' t \<and> upw (\<lambda>G. \<forall>x. y = Ok x \<longrightarrow> Q x G) G'"
    using safeD [OF m s] by (cases y) (auto simp: upw_def)
qed (auto simp: attempt_def split: prod.splits outcome.splits)

lemma safe_for_each: "(\<And>x. x \<in> set xs \<Longrightarrow> safe P (f x) (\<lambda>_ _. True)) \<Longrightarrow> safe P (for_each f xs) (\<lambda>_ _. True)"
  by (induction xs) (auto intro!: safe_ret safe_bnd_unit)

lemma safe_if: "(b \<Longrightarrow> safe P m Q) \<Longrightarrow> (\<not> b \<Longrightarrow> safe P m' Q) \<Longrightarrow> safe P (if b then m else m') Q"
  by simp

lemma safe_option: "(x = None \<Longrightarrow> safe P m Q) \<Longrightarrow> (\<And>y. x = Some y \<Longrightarrow> safe P (m' y) Q) \<Longrightarrow>
    safe P (case x of None \<Rightarrow> m | Some y \<Rightarrow> m' y) Q"
  by (cases x) simp_all

lemma safe_prod: "(\<And>a b. x = (a, b) \<Longrightarrow> safe P (f a b) Q) \<Longrightarrow> safe P (case x of (a, b) \<Rightarrow> f a b) Q"
  by (cases x) simp

section \<open>What the operations leave untyped\<close>

definition typed_part where
  "typed_part s = (r_next s, r_windows s, r_views s, r_objects s, r_servers s, r_conns s, r_cells s,
     r_handle_caps s, r_procs s, r_names s)"

lemma typed_part_upd [simp]:
  "typed_part (s\<lparr>r_mem := m\<rparr>) = typed_part s" "typed_part (s\<lparr>r_data := d\<rparr>) = typed_part s"
  by (simp_all add: typed_part_def)

lemma safe_keeps: "keeps typed_part m \<Longrightarrow> safe P m (\<lambda>_ _. True)"
proof -
  assume k: "keeps typed_part m"
  have "typed G t" if s: "typed G s" and m: "m s = (r, t)" for G s t r
  proof -
    have e: "typed_part t = typed_part s" by (rule keepsD [OF k m])
    then have "kind_typed G t i kd = kind_typed G s i kd" for i kd by (cases kd) (simp_all add: typed_part_def)
    with e s show ?thesis by (simp add: typed_part_def typed_def)
  qed
  then show ?thesis by (intro safeI same_typing(2)) (auto intro: same_typing(1))
qed

lemma safe_other:
  "safe P (in_mem m1) (\<lambda>_ _. True)" "safe P (in_resources m2) (\<lambda>_ _. True)" "safe P (in_frames m3) (\<lambda>_ _. True)"
  "safe P (in_world m4) (\<lambda>_ _. True)" "safe P (in_rs_total m5) (\<lambda>_ _. True)" "safe P (gets g) (\<lambda>_ _. True)"
  "safe P (cleanup_cap_table K v d) (\<lambda>_ _. True)" "safe P (cleanup_frame_table K ob) (\<lambda>_ _. True)"
  "safe P (notify_server E sv msg) (\<lambda>_ _. True)"
  by (intro safe_keeps keeps_intro; simp)+

end
