(* ===== verification/Root_Safe.thy ===== *)
theory Root_Safe
  imports Root_Types
begin

text \<open>
  Every operation on the root server's structures keeps them typed: the accesses, the handle tables,
  and then the handlers of windows, views, objects, faults, connections and processes.
\<close>

section \<open>Accesses\<close>

text \<open>A change of one cell that leaves its type, or makes it.\<close>

definition same_but :: "nat \<Rightarrow> 'k root \<Rightarrow> 'k root \<Rightarrow> bool" where
  "same_but i s t \<longleftrightarrow>
     (\<forall>j. j \<noteq> i \<longrightarrow> r_windows t j = r_windows s j \<and> r_views t j = r_views s j \<and> r_objects t j = r_objects s j \<and>
        r_servers t j = r_servers s j \<and> r_conns t j = r_conns s j \<and> r_cells t j = r_cells s j) \<and>
     r_handle_caps t = r_handle_caps s \<and> r_procs t = r_procs s \<and> r_names t = r_names s"

lemma same_but_kind: "same_but i s t \<Longrightarrow> j \<noteq> i \<Longrightarrow> kind_typed G t j k = kind_typed G s j k"
  by (cases k) (simp_all add: same_but_def)

lemma kind_split:
  "kind_typed G s i k \<longleftrightarrow> (case k of KWindow \<Rightarrow> window_typed G i (r_windows s i)
     | KView w ob sv \<Rightarrow> view_typed G w ob sv (r_views s i) | KObject \<Rightarrow> object_typed G i (r_objects s i)
     | KServer \<Rightarrow> server_typed G (r_servers s i) | KConn \<Rightarrow> conn_typed G (r_conns s i)
     | KProc \<Rightarrow> cell_typed G (r_cells s i))"
  by (cases k) simp_all

lemma typed_update:
  assumes "typed G s" and "same_but i s t" and "r_next t = r_next s" and "\<And>k. G i = Some k \<Longrightarrow> kind_typed G t i k"
  shows "typed G t"
proof -
  have "kind_typed G t j k" if "G j = Some k" for j k
    using that assms(1,4) same_but_kind [OF assms(2), of j G k] by (cases "j = i") (auto simp: typed_def)
  then show ?thesis using assms by (simp add: typed_def same_but_def)
qed

lemma typed_alloc:
  assumes s: "typed G s" and t: "same_but (r_next s) s t" "r_next t = Suc (r_next s)"
    and k: "kind_typed (G(r_next s \<mapsto> k)) t (r_next s) k"
  shows "G \<subseteq>\<^sub>m G(r_next s \<mapsto> k)" "typed (G(r_next s \<mapsto> k)) t"
proof -
  let ?i = "r_next s" let ?G = "G(?i \<mapsto> k)"
  have "G ?i = None" using s by (simp add: typed_def)
  then show g: "G \<subseteq>\<^sub>m ?G" by (auto simp: map_le_def)
  have "kind_typed ?G t j kj" if "?G j = Some kj" for j kj
  proof (cases "j = ?i")
    case False
    then have "kind_typed G s j kj" using that s by (simp add: typed_def)
    then show ?thesis using kind_typed_grows [OF g] same_but_kind [OF t(1) False] by blast
  qed (use that k in auto)
  then show "typed ?G t" using s t parts_grow(7,8) [OF g] typing_grows [OF g]
    unfolding typed_def same_but_def by (auto simp del: fun_upd_apply split: if_splits) (simp_all add: fun_upd_apply)
qed

lemma safe_update:
  assumes "\<And>s. f s = (Ok (), g s)" and "\<And>s. same_but i s (g s)" and "\<And>s. r_next (g s) = r_next s"
    and "\<And>G s k. P G \<Longrightarrow> typed G s \<Longrightarrow> G i = Some k \<Longrightarrow> kind_typed G s i k \<Longrightarrow> kind_typed G (g s) i k"
  shows "safe P f (\<lambda>_ _. True)"
proof (rule safeI)
  fix G s x t assume s: "typed G s" "upw P G" and "f s = (Ok x, t)"
  then have t: "t = g s" using assms(1) by simp
  have "typed G t" unfolding t
    by (rule typed_update [OF s(1) assms(2,3)]) (use assms(4) s upwD typed_def in blast)
  then show "\<exists>G'. G \<subseteq>\<^sub>m G' \<and> typed G' t \<and> upw (\<lambda>_. True) G'" by (intro exI [of _ G]) simp
qed (use assms(1) in simp)

lemma safe_alloc:
  assumes "\<And>s. f s = (Ok (r_next s), g s)" and "\<And>s. same_but (r_next s) s (g s)" and "\<And>s. r_next (g s) = Suc (r_next s)"
    and "\<And>G s i. P G \<Longrightarrow> i = r_next s \<Longrightarrow> kind_typed G (g s) i k"
  shows "safe P f (\<lambda>i G. G i = Some k)"
proof (rule safeI)
  fix G s x t assume s: "typed G s" "upw P G" and "f s = (Ok x, t)"
  then have t: "t = g s" "x = r_next s" using assms(1) by simp_all
  let ?G = "G(r_next s \<mapsto> k)"
  have "G \<subseteq>\<^sub>m ?G" using s(1) by (auto simp: map_le_def typed_def)
  then have "P ?G" using s(2) by (auto simp: upw_def)
  then have "G \<subseteq>\<^sub>m ?G" "typed ?G t" using typed_alloc [OF s(1) assms(2,3), of k] assms(4) t by blast+
  moreover have "upw (\<lambda>G. G x = Some k) ?G" unfolding upw_def t(2) by (auto intro: typing_grows)
  ultimately show "\<exists>G'. G \<subseteq>\<^sub>m G' \<and> typed G' t \<and> upw (\<lambda>G. G x = Some k) G'" by blast
qed (use assms(1) in simp)

lemma safe_gets:
  assumes "\<And>G s G'. P G \<Longrightarrow> typed G s \<Longrightarrow> G \<subseteq>\<^sub>m G' \<Longrightarrow> Q (f s) G'"
  shows "safe P (gets f) Q"
proof (rule safeI)
  fix G s x t assume s: "typed G s" "upw P G" and "gets f s = (Ok x, t)"
  then have x: "x = f s" "t = s" by (auto simp: op_run)
  have "upw (Q x) G" unfolding upw_def x using assms [OF upwD [OF s(2)] s(1)] by blast
  then show "\<exists>G'. G \<subseteq>\<^sub>m G' \<and> typed G' t \<and> upw (Q x) G'" using s(1) x by (intro exI [of _ G]) simp
qed (simp add: op_run)

lemma safe_upd:
  "(\<And>G x. P G \<Longrightarrow> G w = Some KWindow \<Longrightarrow> window_typed G w x \<Longrightarrow> window_typed G w (f x)) \<Longrightarrow>
     safe P (upd_window w f) (\<lambda>_ _. True)"
  "(\<And>G x w ob sv. P G \<Longrightarrow> G v = Some (KView w ob sv) \<Longrightarrow> view_typed G w ob sv x \<Longrightarrow> view_typed G w ob sv (f2 x)) \<Longrightarrow>
     safe P (upd_view v f2) (\<lambda>_ _. True)"
  "(\<And>G x. P G \<Longrightarrow> G ob' = Some KObject \<Longrightarrow> object_typed G ob' x \<Longrightarrow> object_typed G ob' (f3 x)) \<Longrightarrow>
     safe P (upd_object ob' f3) (\<lambda>_ _. True)"
  "(\<And>G x. P G \<Longrightarrow> G sv' = Some KServer \<Longrightarrow> server_typed G x \<Longrightarrow> server_typed G (f4 x)) \<Longrightarrow>
     safe P (upd_server sv' f4) (\<lambda>_ _. True)"
  "(\<And>G x. P G \<Longrightarrow> conn_typed G x \<Longrightarrow> conn_typed G (f5 x)) \<Longrightarrow> safe P (upd_conn c f5) (\<lambda>_ _. True)"
  "(\<And>G. P G \<Longrightarrow> cell_typed G cell) \<Longrightarrow> safe P (set_cell c cell) (\<lambda>_ _. True)"
proof -
  note step = op_run same_but_def upd_window_def upd_view_def upd_object_def upd_server_def upd_conn_def set_cell_def
  show "safe P (upd_window w f) (\<lambda>_ _. True)"
    if "\<And>G x. P G \<Longrightarrow> G w = Some KWindow \<Longrightarrow> window_typed G w x \<Longrightarrow> window_typed G w (f x)"
    by (rule safe_update [where i = w and g = "\<lambda>s. s\<lparr>r_windows := (r_windows s)(w := f (r_windows s w))\<rparr>"])
      (use that in \<open>simp_all add: step kind_split split: kind.splits\<close>)
  show "safe P (upd_view v f2) (\<lambda>_ _. True)"
    if "\<And>G x w ob sv. P G \<Longrightarrow> G v = Some (KView w ob sv) \<Longrightarrow> view_typed G w ob sv x \<Longrightarrow> view_typed G w ob sv (f2 x)"
    by (rule safe_update [where i = v and g = "\<lambda>s. s\<lparr>r_views := (r_views s)(v := f2 (r_views s v))\<rparr>"])
      (use that in \<open>simp_all add: step kind_split split: kind.splits\<close>)
  show "safe P (upd_object ob' f3) (\<lambda>_ _. True)"
    if "\<And>G x. P G \<Longrightarrow> G ob' = Some KObject \<Longrightarrow> object_typed G ob' x \<Longrightarrow> object_typed G ob' (f3 x)"
    by (rule safe_update [where i = ob' and g = "\<lambda>s. s\<lparr>r_objects := (r_objects s)(ob' := f3 (r_objects s ob'))\<rparr>"])
      (use that in \<open>simp_all add: step kind_split split: kind.splits\<close>)
  show "safe P (upd_server sv' f4) (\<lambda>_ _. True)"
    if "\<And>G x. P G \<Longrightarrow> G sv' = Some KServer \<Longrightarrow> server_typed G x \<Longrightarrow> server_typed G (f4 x)"
    by (rule safe_update [where i = sv' and g = "\<lambda>s. s\<lparr>r_servers := (r_servers s)(sv' := f4 (r_servers s sv'))\<rparr>"])
      (use that in \<open>simp_all add: step kind_split split: kind.splits\<close>)
  show "safe P (upd_conn c f5) (\<lambda>_ _. True)"
    if "\<And>G x. P G \<Longrightarrow> conn_typed G x \<Longrightarrow> conn_typed G (f5 x)"
    by (rule safe_update [where i = c and g = "\<lambda>s. s\<lparr>r_conns := (r_conns s)(c := f5 (r_conns s c))\<rparr>"])
      (use that in \<open>simp_all add: step kind_split split: kind.splits\<close>)
  show "safe P (set_cell c cell) (\<lambda>_ _. True)" if "\<And>G. P G \<Longrightarrow> cell_typed G cell"
    by (rule safe_update [where i = c and g = "\<lambda>s. s\<lparr>r_cells := (r_cells s)(c := cell)\<rparr>"])
      (use that in \<open>simp_all add: step kind_split split: kind.splits\<close>)
qed

lemma safe_new:
  "w_view x1 = None \<Longrightarrow> safe P (new_window x1) (\<lambda>i G. G i = Some KWindow)"
  "(\<And>G. P G \<Longrightarrow> view_typed G (v_window x2) (v_object x2) (map_option fst (v_server x2)) x2) \<Longrightarrow>
     safe P (new_view x2) (\<lambda>i G. G i = Some (KView (v_window x2) (v_object x2) (map_option fst (v_server x2))))"
  "mo_views x3 = [] \<Longrightarrow> wf_table 3 (mo_frames x3) \<Longrightarrow> safe P (new_object x3) (\<lambda>i G. G i = Some KObject)"
  "(\<And>G. P G \<Longrightarrow> server_typed G x4) \<Longrightarrow> safe P (new_server x4) (\<lambda>i G. G i = Some KServer)"
  "(\<And>G. P G \<Longrightarrow> conn_typed G x5) \<Longrightarrow> safe P (new_conn x5) (\<lambda>i G. G i = Some KConn)"
  "(\<And>G. P G \<Longrightarrow> cell_typed G x6) \<Longrightarrow> safe P (new_cell x6) (\<lambda>i G. G i = Some KProc)"
proof -
  note step = op_run bnd_def fresh_id_def new_window_def new_view_def new_object_def new_server_def new_conn_def new_cell_def
    upd_window_def upd_view_def upd_object_def upd_server_def upd_conn_def set_cell_def
  show "safe P (new_window x1) (\<lambda>i G. G i = Some KWindow)" if "w_view x1 = None"
    by (rule safe_alloc [where g = "\<lambda>s. s\<lparr>r_next := Suc (r_next s), r_windows := (r_windows s)(r_next s := x1)\<rparr>"])
      (use that in \<open>simp_all add: step same_but_def window_typed_def\<close>)
  show "safe P (new_view x2) (\<lambda>i G. G i = Some (KView (v_window x2) (v_object x2) (map_option fst (v_server x2))))"
    if "\<And>G. P G \<Longrightarrow> view_typed G (v_window x2) (v_object x2) (map_option fst (v_server x2)) x2"
    by (rule safe_alloc [where g = "\<lambda>s. s\<lparr>r_next := Suc (r_next s), r_views := (r_views s)(r_next s := x2)\<rparr>"])
      (use that in \<open>simp_all add: step same_but_def\<close>)
  show "safe P (new_object x3) (\<lambda>i G. G i = Some KObject)" if "mo_views x3 = []" "wf_table 3 (mo_frames x3)"
    by (rule safe_alloc [where g = "\<lambda>s. s\<lparr>r_next := Suc (r_next s), r_objects := (r_objects s)(r_next s := x3)\<rparr>"])
      (use that in \<open>simp_all add: step same_but_def object_typed_def\<close>)
  show "safe P (new_server x4) (\<lambda>i G. G i = Some KServer)" if "\<And>G. P G \<Longrightarrow> server_typed G x4"
    by (rule safe_alloc [where g = "\<lambda>s. s\<lparr>r_next := Suc (r_next s), r_servers := (r_servers s)(r_next s := x4)\<rparr>"])
      (use that in \<open>simp_all add: step same_but_def\<close>)
  show "safe P (new_conn x5) (\<lambda>i G. G i = Some KConn)" if "\<And>G. P G \<Longrightarrow> conn_typed G x5"
    by (rule safe_alloc [where g = "\<lambda>s. s\<lparr>r_next := Suc (r_next s), r_conns := (r_conns s)(r_next s := x5)\<rparr>"])
      (use that in \<open>simp_all add: step same_but_def\<close>)
  show "safe P (new_cell x6) (\<lambda>i G. G i = Some KProc)" if "\<And>G. P G \<Longrightarrow> cell_typed G x6"
    by (rule safe_alloc [where g = "\<lambda>s. s\<lparr>r_next := Suc (r_next s), r_cells := (r_cells s)(r_next s := x6)\<rparr>"])
      (use that in \<open>simp_all add: step same_but_def\<close>)
qed

lemma typed_kind: "typed G s \<Longrightarrow> G i = Some k \<Longrightarrow> G \<subseteq>\<^sub>m G' \<Longrightarrow> kind_typed G' s i k"
  unfolding typed_def by (blast intro: kind_typed_grows)

lemma safe_the_view:
  assumes v: "\<And>G. P G \<Longrightarrow> \<exists>w ob sv. G v = Some (KView w ob sv)"
  shows "safe P (the_view v) (\<lambda>x G. \<exists>w ob sv. G v = Some (KView w ob sv) \<and> view_typed G w ob sv x)"
  unfolding the_view_def
proof (rule safe_gets)
  fix G G' s assume "P G" "typed G s" and g: "G \<subseteq>\<^sub>m G'"
  moreover obtain w ob sv where k: "G v = Some (KView w ob sv)" using v [OF \<open>P G\<close>] by blast
  ultimately have "view_typed G' w ob sv (r_views s v)" using typed_kind by fastforce
  then show "\<exists>w ob sv. G' v = Some (KView w ob sv) \<and> view_typed G' w ob sv (r_views s v)"
    using typing_grows [OF g k] by blast
qed

lemma safe_the:
  "(\<And>G. P G \<Longrightarrow> G w = Some KWindow) \<Longrightarrow> safe P (the_window w) (\<lambda>x G. window_typed G w x)"
  "(\<And>G. P G \<Longrightarrow> G ob' = Some KObject) \<Longrightarrow> safe P (the_object ob') (\<lambda>x G. object_typed G ob' x)"
  "(\<And>G. P G \<Longrightarrow> G sv' = Some KServer) \<Longrightarrow> safe P (the_server sv') (\<lambda>x G. server_typed G x)"
  "(\<And>G. P G \<Longrightarrow> G c = Some KConn) \<Longrightarrow> safe P (the_conn c) (\<lambda>x G. conn_typed G x)"
  "(\<And>G. P G \<Longrightarrow> G me = Some KProc) \<Longrightarrow> safe P (gets (\<lambda>s. r_cells s me)) (\<lambda>x G. cell_typed G x)"
  unfolding the_window_def the_object_def the_server_def the_conn_def
  by (rule safe_gets, use typed_kind in fastforce)+

section \<open>Processes and handle tables\<close>

lemma safe_get_proc:
  assumes "\<And>G. P G \<Longrightarrow> G me = Some KProc"
  shows "safe P (get_proc me) (\<lambda>p G. proc_typed G p)"
  unfolding get_proc_def
proof (rule safe_bnd [OF safe_the(5)])
  show "safe (\<lambda>G. P G \<and> cell_typed G c) (case c of ActiveProcess p \<Rightarrow> ret p | ZombieProcess x \<Rightarrow> panic)
      (\<lambda>p G. proc_typed G p)" for c :: process_type
    by (cases c) (auto intro: safe_ret safe_basic)
qed (rule assms)

lemma safe_upd_proc:
  assumes "\<And>G. P G \<Longrightarrow> G me = Some KProc" and "\<And>G p. P G \<Longrightarrow> proc_typed G p \<Longrightarrow> proc_typed G (f p)"
  shows "safe P (upd_proc me f) (\<lambda>_ _. True)"
  unfolding upd_proc_def
  by (rule safe_bnd [OF safe_get_proc [OF assms(1)]]) (auto intro!: safe_upd(6) assms(2))

definition tables_typed :: "typing \<Rightarrow> resource htables \<Rightarrow> bool" where
  "tables_typed G ts \<longleftrightarrow>
     length (fst ts) = MAX_HANDLES \<and> (\<forall>r. Some r \<in> set (fst ts) \<longrightarrow> res_typed G r) \<and> hcaps_typed G (snd ts)"

lemma safe_hcaps: "safe P (gets r_handle_caps) (\<lambda>x G. hcaps_typed G x)"
  by (rule safe_gets) (auto simp: typed_def intro: parts_grow)

lemma safe_handle_tables:
  assumes "\<And>G. P G \<Longrightarrow> G me = Some KProc"
  shows "safe P (handle_tables me) (\<lambda>ts G. tables_typed G ts)"
  unfolding handle_tables_def
  by (rule safe_bnd [OF safe_get_proc [OF assms]], assumption, rule safe_bnd [OF safe_hcaps], rule safe_ret)
    (auto simp: tables_typed_def proc_typed_def)

lemma safe_put_tables:
  assumes "\<And>G. P G \<Longrightarrow> G me = Some KProc" and "\<And>G. P G \<Longrightarrow> tables_typed G ts"
  shows "safe P (put_tables me ts) (\<lambda>_ _. True)"
  unfolding put_tables_def
proof (rule safe_bnd_unit)
  show "safe P (upd_proc me (p_handles_update (\<lambda>_. fst ts))) (\<lambda>_ _. True)"
    using assms by (intro safe_upd_proc) (auto simp: proc_typed_def tables_typed_def)
  show "safe P (modify (\<lambda>s. s\<lparr>r_handle_caps := snd ts\<rparr>)) (\<lambda>_ _. True)"
  proof (rule safeI)
    fix G s x t assume s: "typed G s" "upw P G" and "modify (\<lambda>s. s\<lparr>r_handle_caps := snd ts\<rparr>) s = (Ok x, t)"
    then have t: "t = s\<lparr>r_handle_caps := snd ts\<rparr>" by (simp add: op_run)
    have "kind_typed G t i k = kind_typed G s i k" for i k by (simp add: t kind_split split: kind.splits)
    then have "typed G t" using s assms(2) upwD [OF s(2)] by (simp add: typed_def tables_typed_def t)
    then show "\<exists>G'. G \<subseteq>\<^sub>m G' \<and> typed G' t \<and> upw (\<lambda>_. True) G'" by (intro exI [of _ G]) simp
  qed (simp add: op_run)
qed

lemma tables_read:
  assumes "tables_typed G ts" and "generic_get_handle ts hndl which = Ok place" and "read_place place ts = Some r"
  shows "res_typed G r"
proof (cases place)
  case (Local i)
  then have "Some r \<in> set (fst ts)" using assms
    by (cases ts; cases hndl) (auto simp: generic_get_handle_def get_handle_mut_def obind_eq_Ok in_set_conv_nth split: if_splits)
  then show ?thesis using assms(1) by (simp add: tables_typed_def)
next
  case (Cap i)
  then have "\<exists>h \<in> set (snd ts). hc_handle h = Some r" using assms
    by (cases ts; cases hndl) (auto simp: generic_get_handle_def get_handle_cap_mut_def obind_eq_Ok split: if_splits)
  then show ?thesis using assms(1) by (auto simp: tables_typed_def hcaps_typed_def)
qed

lemma unwrap_eq_Ok [simp]: "unwrap x = Ok y \<longleftrightarrow> x = Some y" "ok_or e x = Ok y \<longleftrightarrow> x = Some y"
  by (auto simp: unwrap_def ok_or_def split: option.splits)

lemma map_err_eq_Ok [simp]: "map_err f r = Ok x \<longleftrightarrow> r = Ok x"
  by (cases r) auto

lemma safe_find_generic:
  assumes "\<And>G. P G \<Longrightarrow> G me = Some KProc"
  shows "safe P (find_generic me hndl which) (\<lambda>r G. res_typed G r)"
  unfolding find_generic_def
  by (rule safe_bnd [OF safe_handle_tables [OF assms]], assumption, rule safe_bnd [OF safe_lift], assumption, rule safe_lift)
    (auto intro: tables_read)

lemma set_cleared: "Some r \<in> set (xs[i := None]) \<Longrightarrow> Some r \<in> set xs"
  by (auto dest!: set_update_subset_insert [THEN subsetD])

lemma safe_find_local:
  assumes "\<And>G. P G \<Longrightarrow> G me = Some KProc"
  shows "safe P (find_local me idx which) (\<lambda>r G. res_typed G r)"
  unfolding find_local_def
  by (rule safe_bnd [OF safe_get_proc [OF assms]], assumption, rule safe_bnd [OF safe_lift], assumption, rule safe_lift)
    (auto simp: get_handle_def proc_typed_def split: if_splits, metis nth_mem)

lemma safe_find_cap: "safe P (find_cap idx which) (\<lambda>r G. res_typed G r)"
  unfolding find_cap_def
  by (rule safe_bnd [OF safe_hcaps], rule safe_bnd [OF safe_lift], assumption, rule safe_lift)
    (auto simp: get_handle_cap_mut_def hcaps_typed_def split: if_splits)

lemma tables_write: "tables_typed G ts \<Longrightarrow> res_typed G r \<Longrightarrow> tables_typed G (write_place place r ts)"
proof (cases place)
  case (Local i)
  assume "tables_typed G ts" "res_typed G r"
  then show ?thesis using Local
    by (cases ts) (auto simp: tables_typed_def put_handle_def dest: set_update_subset_insert [THEN subsetD])
next
  case (Cap i)
  obtain tbl slots where ts: "ts = (tbl, slots)" by fastforce
  assume a: "tables_typed G ts" "res_typed G r"
  have "res_typed G r'" if "h \<in> set (put_handle_cap i r slots)" "hc_handle h = Some r'" for h r'
  proof (cases "h \<in> set slots")
    case True
    then show ?thesis using a that ts by (auto simp: tables_typed_def hcaps_typed_def)
  next
    case False
    then have "h = (slots ! i)\<lparr>hc_handle := Some r\<rparr>"
      using that(1) by (auto simp: put_handle_cap_def dest: set_update_subset_insert [THEN subsetD])
    then show ?thesis using that(2) a(2) by simp
  qed
  then show ?thesis using Cap a ts by (simp add: tables_typed_def hcaps_typed_def) (simp add: put_handle_cap_def)
qed

lemma safe_put_ref:
  assumes "\<And>G. P G \<Longrightarrow> G me = Some KProc" and "\<And>G. P G \<Longrightarrow> res_typed G r"
  shows "safe P (put_ref me place r) (\<lambda>_ _. True)"
  unfolding put_ref_def
  by (rule safe_bnd [OF safe_handle_tables [OF assms(1)]], assumption, rule safe_put_tables) (auto intro: assms tables_write)

lemma safe_drop_local:
  assumes "\<And>G. P G \<Longrightarrow> G me = Some KProc"
  shows "safe P (drop_local me idx) (\<lambda>_ _. True)"
  unfolding drop_local_def
proof (rule safe_bnd [OF safe_get_proc [OF assms]], assumption)
  fix p
  show "safe (\<lambda>G. P G \<and> proc_typed G p) (case cleanup_handle (unat idx) (p_handles p) of
      (Ok _, tbl) \<Rightarrow> upd_proc me (p_handles_update (\<lambda>_. tbl)) | _ \<Rightarrow> panic) (\<lambda>_ _. True)"
    using assms
    by (auto simp: cleanup_handle_def proc_typed_def intro!: safe_basic safe_upd_proc dest!: set_cleared)
qed

lemma tables_cleanup:
  assumes "tables_typed G ts" and "generic_cleanup_handle K hndl which (ts, k) = (Ok x, (ts', k'))"
  shows "tables_typed G ts'"
proof -
  obtain tbl slots where ts: "ts = (tbl, slots)" by fastforce
  have clear: "res_typed G r" if "h \<in> set (clear_handle_cap i slots)" "hc_handle h = Some r" for i h r
  proof (cases "h \<in> set slots")
    case True
    then show ?thesis using assms(1) that ts by (auto simp: tables_typed_def hcaps_typed_def)
  next
    case False
    then have "h = (slots ! i)\<lparr>hc_handle := None\<rparr>"
      using that(1) by (auto simp: clear_handle_cap_def dest: set_update_subset_insert [THEN subsetD])
    then show ?thesis using that(2) by simp
  qed
  show ?thesis
  proof (cases hndl)
    case (ReceivedHandle i)
    then show ?thesis using assms ts
      by (auto simp: generic_cleanup_handle_def cleanup_handle_def tables_typed_def split: if_splits dest!: set_cleared)
  next
    case (UnwrappedHandleCap i)
    then have "ts' = (tbl, clear_handle_cap (unat i) slots) \<or> ts' = ts" using assms(2) ts
      by (auto simp: generic_cleanup_handle_def cleanup_handle_cap_def split: if_splits option.splits prod.splits)
    then show ?thesis using assms(1) ts clear by (auto simp: tables_typed_def hcaps_typed_def) (simp_all add: clear_handle_cap_def)
  qed (use assms ts in \<open>simp add: generic_cleanup_handle_def\<close>)
qed

lemma safe_drop_generic:
  assumes "\<And>G. P G \<Longrightarrow> G me = Some KProc"
  shows "safe P (drop_generic E me hndl which) (\<lambda>_ _. True)"
  unfolding drop_generic_def
proof (rule safe_bnd [OF safe_handle_tables [OF assms]], assumption)
  fix ts
  let ?m = "in_world (\<lambda>k. case generic_cleanup_handle (e_sel4 E) hndl which (ts, k) of
      (r, (ts', k')) \<Rightarrow> (obind r (\<lambda>_. Ok ts'), k')) :: ('a root, InvocationError, resource htables) op"
  have m: "safe (\<lambda>G. P G \<and> tables_typed G ts) ?m (\<lambda>ts' G. tables_typed G ts')"
  proof (rule safeI)
    fix G s x t assume s: "typed G s" "upw (\<lambda>G. P G \<and> tables_typed G ts) G" and r: "?m s = (Ok x, t)"
    obtain G' where G': "G \<subseteq>\<^sub>m G'" "typed G' t" using safeD(1) [OF safe_other(4) s(1) _ r, of "\<lambda>_. True"] by auto
    have "\<exists>y k k'. generic_cleanup_handle (e_sel4 E) hndl which (ts, k) = (Ok y, (x, k'))"
      using r by (auto simp: in_world_def in_resources_def in_mem_def in_rs_def in_kern_def on_part_def obind_eq_Ok
          split: prod.splits)
    then have "upw (\<lambda>G. tables_typed G x) G'"
      using s(2) G'(1) by (auto simp: upw_def intro: tables_cleanup dest: map_le_trans)
    then show "\<exists>G'. G \<subseteq>\<^sub>m G' \<and> typed G' t \<and> upw (\<lambda>G. tables_typed G x) G'" using G' by blast
  next
    fix G s e t assume "typed G s" "?m s = (Err e, t)"
    then show "\<exists>G'. G \<subseteq>\<^sub>m G' \<and> typed G' t" using safeD(2) [OF safe_other(4), of G s "\<lambda>_. True"] by auto
  qed
  show "safe (\<lambda>G. P G \<and> tables_typed G ts) (bnd ?m (\<lambda>ts'. put_tables me ts')) (\<lambda>_ _. True)"
    by (rule safe_bnd [OF m], rule safe_put_tables) (use assms in auto)
qed

section \<open>The process table and the names\<close>

lemma safe_procs: "safe P (gets r_procs) (\<lambda>x G. procs_typed G x)"
  by (rule safe_gets) (auto simp: typed_def intro: parts_grow)

lemma safe_proc_entry: "safe P (proc_entry i) (\<lambda>e G. \<forall>c. e = Some c \<longrightarrow> G c = Some KProc)"
  unfolding proc_entry_def
  by (rule safe_bnd [OF safe_procs], rule safe_bnd [OF safe_checks(2)], rule safe_ret)
    (auto simp: procs_typed_def, metis nth_mem)

lemma safe_procs_set:
  assumes "\<And>G c. P G \<Longrightarrow> x = Some c \<Longrightarrow> G c = Some KProc"
  shows "safe P (procs_set i x) (\<lambda>_ _. True)"
proof -
  have "safe P (modify (\<lambda>s. s\<lparr>r_procs := (r_procs s)[i := x]\<rparr>)) (\<lambda>_ _. True)"
  proof (rule safeI)
    fix G s y t assume s: "typed G s" "upw P G" and "modify (\<lambda>s. s\<lparr>r_procs := (r_procs s)[i := x]\<rparr>) s = (Ok y, t)"
    then have t: "t = s\<lparr>r_procs := (r_procs s)[i := x]\<rparr>" by (simp add: op_run)
    have "kind_typed G t j k = kind_typed G s j k" for j k by (simp add: t kind_split split: kind.splits)
    moreover have "procs_typed G (r_procs t)" using s assms [OF upwD [OF s(2)]] unfolding t
      by (auto simp: typed_def procs_typed_def dest!: set_update_subset_insert [THEN subsetD])
    ultimately have "typed G t" using s by (simp add: typed_def t)
    then show "\<exists>G'. G \<subseteq>\<^sub>m G' \<and> typed G' t \<and> upw (\<lambda>_. True) G'" by (intro exI [of _ G]) simp
  qed (simp add: op_run)
  then show ?thesis unfolding procs_set_def
    by (intro safe_bnd [OF safe_other(6)]) (auto intro: safe_bnd [OF safe_checks(2)] elim: safe_use)
qed

lemma safe_find_server: "safe P (find_server_with_name n) (\<lambda>x G. \<forall>sv. x = Some sv \<longrightarrow> G sv = Some KServer)"
  unfolding find_server_with_name_def by (rule safe_gets) (metis typed_def typing_grows)

lemma safe_add_name:
  assumes "\<And>G. P G \<Longrightarrow> G sv = Some KServer"
  shows "safe P (modify (\<lambda>s. s\<lparr>r_names := (r_names s)(n \<mapsto> sv)\<rparr>)) (\<lambda>_ _. True)"
proof (rule safeI)
  fix G s y t assume s: "typed G s" "upw P G" and "modify (\<lambda>s. s\<lparr>r_names := (r_names s)(n \<mapsto> sv)\<rparr>) s = (Ok y, t)"
  then have t: "t = s\<lparr>r_names := (r_names s)(n \<mapsto> sv)\<rparr>" by (simp add: op_run)
  have "kind_typed G t j k = kind_typed G s j k" for j k by (simp add: t kind_split split: kind.splits)
  then have "typed G t" using s assms [OF upwD [OF s(2)]] by (simp add: typed_def t)
  then show "\<exists>G'. G \<subseteq>\<^sub>m G' \<and> typed G' t \<and> upw (\<lambda>_. True) G'" by (intro exI [of _ G]) simp
qed (simp add: op_run)

section \<open>Tables of views and objects\<close>

lemma table_insert_wf:
  assumes "wf_table 3 t" and "table_insert offset x t = (r, t')"
  shows "wf_table 3 t'"
  using table_insert_spec [OF assms(1), of offset x] assms by (auto split: if_splits)

lemma safe_insert:
  "(\<And>G. P G \<Longrightarrow> G ob' = Some KObject) \<Longrightarrow> safe P (insert_frame_at ob' offset fr) (\<lambda>_ _. True)"
  "(\<And>G. P G \<Longrightarrow> \<exists>w ob sv. G v = Some (KView w ob sv)) \<Longrightarrow> safe P (insert_cap_at v offset c) (\<lambda>_ _. True)"
proof -
  assume "\<And>G. P G \<Longrightarrow> G ob' = Some KObject"
  from safe_the(2) [OF this] show "safe P (insert_frame_at ob' offset fr) (\<lambda>_ _. True)"
    unfolding insert_frame_at_def
    by (rule safe_bnd, simp, intro safe_prod safe_bnd_unit safe_lift safe_upd(3))
      (auto simp: object_typed_def intro: table_insert_wf)
next
  assume "\<And>G. P G \<Longrightarrow> \<exists>w ob sv. G v = Some (KView w ob sv)"
  from safe_the_view [OF this] show "safe P (insert_cap_at v offset c) (\<lambda>_ _. True)"
    unfolding insert_cap_at_def
    by (rule safe_bnd, simp, intro safe_prod safe_bnd_unit safe_lift safe_upd(2))
      (auto simp: view_typed_def intro: table_insert_wf)
qed

end
