(* ===== verification/Root_Handlers.thy ===== *)
theory Root_Handlers
  imports Root_Safe Small_World
begin

text \<open>
  The handlers keep the root state typed, one lemma each, up to a whole round of the server's loop
  and the states it reaches.
\<close>

section \<open>Stepping through a handler\<close>

lemma bnd_resource:
  "bnd (case_resource f1 f2 f3 f4 f5 f6 f7 f8 f9 f10 f11 f12 r) g =
     (case_resource (\<lambda>x. bnd (f1 x) g) (\<lambda>x. bnd (f2 x) g) (\<lambda>x. bnd (f3 x) g) (\<lambda>x. bnd (f4 x) g) (\<lambda>x. bnd (f5 x) g)
        (\<lambda>x. bnd (f6 x) g) (\<lambda>x. bnd (f7 x) g) (\<lambda>x. bnd (f8 x) g) (\<lambda>x. bnd (f9 x) g) (\<lambda>x. bnd (f10 x) g)
        (\<lambda>x. bnd (f11 x) g) (\<lambda>x. bnd (f12 x) g) r)"
  by (cases r) simp_all

lemma bnd_failing: "bnd (bnd m fail) g = bnd m fail"
  by (simp add: bnd_assoc)

text \<open>The match on a handle's kind moved outwards, over the rest of the handler.\<close>

lemmas match_kind = bnd_resource bnd_failing bnd_simps(1-3)

lemma safe_resource:
  assumes "\<And>x. r = R_Window x \<Longrightarrow> safe P (f1 x) Q" "\<And>x. r = R_Object x \<Longrightarrow> safe P (f2 x) Q"
    "\<And>x. r = R_ConnRegistration x \<Longrightarrow> safe P (f3 x) Q" "\<And>x. r = R_WindowRegistration x \<Longrightarrow> safe P (f4 x) Q"
    "\<And>x. r = R_IRQRegistration x \<Longrightarrow> safe P (f5 x) Q" "\<And>x. r = R_View x \<Longrightarrow> safe P (f6 x) Q"
    "\<And>x. r = R_Connection x \<Longrightarrow> safe P (f7 x) Q" "\<And>x. r = R_Server x \<Longrightarrow> safe P (f8 x) Q"
    "\<And>x. r = R_Process x \<Longrightarrow> safe P (f9 x) Q" "\<And>x. r = R_Reply x \<Longrightarrow> safe P (f10 x) Q"
    "\<And>x. r = R_HandleCap x \<Longrightarrow> safe P (f11 x) Q" "\<And>x. r = R_ChannelAuthority x \<Longrightarrow> safe P (f12 x) Q"
  shows "safe P (case_resource f1 f2 f3 f4 f5 f6 f7 f8 f9 f10 f11 f12 r) Q"
  using assms by (cases r) simp_all

lemma safe_lift_eq: "safe P (lift r) (\<lambda>x _. r = Ok x)"
  by (rule safe_lift)

lemma safe_ensure: "safe P (ensure b) (\<lambda>_ _. True)"
  by (rule safe_weaken [OF safe_checks(2)]) simp_all

lemma safe_new_handles: "safe P (new_local me) (\<lambda>_ _. True)" "safe P (new_generic me c) (\<lambda>_ _. True)"
  by (intro safe_keeps keeps_intro)+

lemma safe_in_dispatch: "safe P (in_dispatch sv m) (\<lambda>_ _. True)"
proof -
  have same: "same_but sv s t" "r_next t = r_next s" and k: "kind_typed G s sv k \<Longrightarrow> kind_typed G t sv k"
    if "in_dispatch sv m s = (r, t)" for s t r G k
    using that by (auto simp: in_dispatch_def same_but_def kind_split server_typed_def split: prod.splits kind.splits)
  show ?thesis
  proof (rule safeI)
    fix G s x t assume "typed G s" "in_dispatch sv m s = (Ok x, t)"
    then have "typed G t" using typed_update [of G s sv t] same k unfolding typed_def by blast
    then show "\<exists>G'. G \<subseteq>\<^sub>m G' \<and> typed G' t \<and> upw (\<lambda>_. True) G'" by (intro exI [of _ G]) simp
  next
    fix G s e t assume "typed G s" "in_dispatch sv m s = (Err e, t)"
    then have "typed G t" using typed_update [of G s sv t] same k unfolding typed_def by blast
    then show "\<exists>G'. G \<subseteq>\<^sub>m G' \<and> typed G' t" by (intro exI [of _ G]) simp
  qed
qed

lemmas safe_steps =
  safe_bnd_unit safe_seq safe_prod safe_option safe_if safe_resource safe_basic safe_checks(1) safe_ensure
  safe_new safe_the safe_the_view safe_upd safe_find_generic safe_find_local safe_find_cap safe_put_ref
  safe_drop_local safe_drop_generic safe_upd_proc safe_get_proc safe_new_handles safe_insert safe_procs_set
  safe_proc_entry safe_procs safe_find_server safe_add_name safe_in_dispatch safe_other safe_lift_eq safe_lift
  safe_for_each safe_expect safe_bnd safe_undo safe_on_err safe_ret

lemmas typed_defs = window_typed_def view_typed_def object_typed_def server_typed_def conn_typed_def proc_typed_def
  view_new_def object_new_def

section \<open>Windows\<close>

lemma first_window_in: "first_window test store ws = (Ok (Some w) :: ('e, nat option) outcome) \<Longrightarrow> w \<in> set ws"
  by (induction ws) (auto simp: obind_eq_Ok split: if_splits)

lemma safe_overlapping:
  assumes "\<And>G. P G \<Longrightarrow> G me = Some KProc"
  shows "safe P (overlapping_window me a sz) (\<lambda>x G. \<forall>w. x = Some w \<longrightarrow> G w = Some KWindow)"
  unfolding overlapping_window_def
  by (rule safe_bnd [OF safe_get_proc [OF assms]], assumption, rule safe_bnd [OF safe_other(6)], rule safe_lift)
    (auto simp: proc_typed_def dest!: first_window_in)

lemma safe_find_window:
  assumes "\<And>G. P G \<Longrightarrow> G me = Some KProc"
  shows "safe P (find_window_containing me a) (\<lambda>x G. \<forall>w. x = Some w \<longrightarrow> G w = Some KWindow)"
  unfolding find_window_containing_def
  by (rule safe_bnd [OF safe_get_proc [OF assms]], assumption, rule safe_bnd [OF safe_other(6)], rule safe_lift)
    (auto simp: obind_eq_Ok proc_typed_def dest!: first_window_in split: option.splits)

lemma safe_window_create: "safe (\<lambda>G. G me = Some KProc) (handle_window_create me args) (\<lambda>_ _. True)"
  unfolding handle_window_create_def Let_def add_window_unchecked_def
  by ((rule safe_overlapping safe_steps | (auto simp: typed_defs; fail))+)

lemma safe_window_register: "safe (\<lambda>G. G me = Some KProc) (handle_window_register me args) (\<lambda>_ _. True)"
  unfolding handle_window_register_def match_kind
  by ((rule safe_overlapping safe_steps | (auto simp: typed_defs; fail))+)

lemma safe_window_deregister: "safe (\<lambda>G. G me = Some KProc) (handle_window_deregister E me args) (\<lambda>_ _. True)"
  unfolding handle_window_deregister_def match_kind
  by ((rule safe_overlapping safe_steps | (auto simp: typed_defs; fail))+)

lemma swap_remove_subset: "x \<in> set (swap_remove i xs) \<Longrightarrow> x \<in> set xs"
proof (cases "xs = []")
  case False
  assume "x \<in> set (swap_remove i xs)"
  then have "x \<in> set (butlast xs) \<or> x = last xs"
    by (auto simp: swap_remove_def split: if_splits dest!: set_update_subset_insert [THEN subsetD])
  then show ?thesis using False by (auto dest: in_set_butlastD)
qed (simp add: swap_remove_def split: if_splits)

lemma safe_unlink: "(\<And>G. P G \<Longrightarrow> \<exists>w ob sv. G v = Some (KView w ob sv)) \<Longrightarrow> safe P (unlink_view v) (\<lambda>_ _. True)"
  unfolding unlink_view_def
  by ((rule safe_overlapping safe_steps | (auto simp: typed_defs dest!: swap_remove_subset; fail))+)

lemma safe_window_destroy_internal:
  "(\<And>G. P G \<Longrightarrow> G w = Some KWindow) \<Longrightarrow> safe P (handle_window_destroy_internal E w d) (\<lambda>_ _. True)"
  unfolding handle_window_destroy_internal_def
  by ((rule safe_unlink safe_steps | (auto simp: typed_defs; fail))+)

lemma safe_window_destroy: "safe (\<lambda>G. G me = Some KProc) (handle_window_destroy E me args) (\<lambda>_ _. True)"
  unfolding handle_window_destroy_def match_kind remove_window_def
  by ((rule safe_window_destroy_internal safe_steps | (auto simp: typed_defs dest!: swap_remove_subset split: option.splits; fail))+)

section \<open>Views\<close>

lemma safe_view: "safe (\<lambda>G. G me = Some KProc) (handle_view me args) (\<lambda>_ _. True)"
  unfolding handle_view_def match_kind Let_def
  by ((rule safe_steps | (auto simp: typed_defs; fail))+)

lemma safe_unview_internal:
  "(\<And>G. P G \<Longrightarrow> \<exists>w ob sv. G v = Some (KView w ob sv)) \<Longrightarrow> safe P (handle_unview_internal E v) (\<lambda>_ _. True)"
  unfolding handle_unview_internal_def
  by ((rule safe_unlink safe_steps | (auto simp: typed_defs; fail))+)

lemma safe_unview: "safe (\<lambda>G. G me = Some KProc) (handle_unview E me args) (\<lambda>_ _. True)"
  unfolding handle_unview_def match_kind
  by ((rule safe_unview_internal safe_steps | (auto simp: typed_defs; fail))+)

section \<open>Objects\<close>

lemma safe_frame_cap: "safe P (frame_cap f) (\<lambda>_ _. True)"
  unfolding frame_cap_def by (rule safe_other)

lemma safe_contig: "safe P (allocate_contig_pages E n) (\<lambda>_ _. True)"
  unfolding allocate_contig_pages_def by (intro safe_keeps keeps_intro) simp

lemma safe_insert_frames: "(\<And>G. P G \<Longrightarrow> G ob = Some KObject) \<Longrightarrow> safe P (insert_frames ob frames) (\<lambda>_ _. True)"
  unfolding insert_frames_def
  by ((rule safe_steps | (auto; fail))+)

lemma safe_fill_object: "(\<And>G. P G \<Longrightarrow> G ob = Some KObject) \<Longrightarrow> safe P (fill_object E ob args) (\<lambda>_ _. True)"
  unfolding fill_object_def eager_frame_def Let_def
  by ((rule safe_insert_frames safe_frame_cap safe_contig safe_steps | (auto simp: typed_defs; fail))+)

lemma safe_obj_create: "safe (\<lambda>G. G me = Some KProc) (handle_obj_create E me args) (\<lambda>_ _. True)"
  unfolding handle_obj_create_def Let_def
  by ((rule safe_fill_object safe_steps | (auto simp: typed_defs; fail))+)

lemma safe_obj_destroy_internal:
  "(\<And>G. P G \<Longrightarrow> G ob = Some KObject) \<Longrightarrow> safe P (handle_obj_destroy_internal E ob force) (\<lambda>_ _. True)"
  unfolding handle_obj_destroy_internal_def
  by ((rule safe_steps | (auto simp: typed_defs; fail))+)

lemma safe_obj_destroy: "safe (\<lambda>G. G me = Some KProc) (handle_obj_destroy E me args) (\<lambda>_ _. True)"
  unfolding handle_obj_destroy_def match_kind
  by ((rule safe_obj_destroy_internal safe_steps | (auto simp: typed_defs; fail))+)

lemma safe_alloc_paddr:
  "safe P (case x of None \<Rightarrow> ret None | Some a \<Rightarrow> bnd (lift (allocation_paddr pool a)) (\<lambda>a. ret (Some a))) (\<lambda>_ _. True)"
  by (intro safe_keeps keeps_intro) (auto split: option.splits intro!: keeps_intro)

lemma safe_obj_stat: "safe (\<lambda>G. G me = Some KProc) (handle_obj_stat me args) (\<lambda>_ _. True)"
  unfolding handle_obj_stat_def match_kind
  by ((rule safe_alloc_paddr safe_steps | (auto simp: typed_defs; fail))+)

section \<open>Faults\<close>

lemma safe_object_frame: "(\<And>G. P G \<Longrightarrow> G ob = Some KObject) \<Longrightarrow> safe P (object_frame K ob off) (\<lambda>_ _. True)"
proof -
  assume ob: "\<And>G. P G \<Longrightarrow> G ob = Some KObject"
  have z: "safe P (zero_frame f) (\<lambda>_ _. True)" for P :: "typing \<Rightarrow> bool" and f
    unfolding zero_frame_def by (intro safe_keeps keeps_intro) simp_all
  from ob show ?thesis unfolding object_frame_def
    by - ((rule z safe_frame_cap safe_steps | (auto simp: typed_defs; fail))+)
qed

lemma safe_copy_frame: "safe P (copy_frame_cap K c) (\<lambda>_ _. True)"
  unfolding copy_frame_cap_def by (intro safe_keeps keeps_intro) simp_all

lemma safe_view_cap: "safe P (view_cap v off) (\<lambda>_ _. True)"
  unfolding view_cap_def by (intro safe_keeps keeps_intro)

lemma safe_fill_view:
  assumes "\<And>G. P G \<Longrightarrow> \<exists>w sv. G v = Some (KView w (Some ob) sv)" and "\<And>G. P G \<Longrightarrow> G ob = Some KObject"
  shows "safe P (fill_view K v ob off) (\<lambda>_ _. True)"
  unfolding fill_view_def using assms
  by - ((rule safe_object_frame safe_copy_frame safe_steps | (fastforce simp: typed_defs; fail))+)

lemma safe_forward:
  assumes "\<And>G. P G \<Longrightarrow> \<exists>w ob sv. G v = Some (KView w ob sv)" and "\<And>G. P G \<Longrightarrow> G me = Some KProc"
  shows "safe P (forward_vm_fault E me v off reply a) (\<lambda>_ _. True)"
  unfolding forward_vm_fault_def using assms
  by - ((rule safe_steps | (fastforce simp: typed_defs; fail))+)

lemma safe_vm_fault: "safe (\<lambda>G. G me = Some KProc) (handle_vm_fault E me reply a) (\<lambda>_ _. True)"
  unfolding handle_vm_fault_def Let_def
  by ((rule safe_find_window safe_forward safe_fill_view safe_view_cap safe_steps | (fastforce simp: typed_defs; fail))+)

lemma safe_fault_of: "safe (\<lambda>G. G me = Some KProc) (bnd (get_proc me) (\<lambda>_. case f of OtherFault \<Rightarrow> panic
    | VmFault addr \<Rightarrow> bnd (handle_vm_fault E me reply addr) (\<lambda>r. ret (answer r)))) (\<lambda>_ _. True)"
  by (rule safe_bnd [OF safe_get_proc], simp, cases f)
    (auto intro: safe_bnd [OF safe_use [OF safe_vm_fault]] safe_ret safe_basic)

lemma safe_fault: "safe (\<lambda>_. True) (handle_fault E pid reply f buf) (\<lambda>_ _. True)"
  unfolding handle_fault_def
  by (rule safe_bnd [OF safe_procs], rule safe_bnd [OF safe_checks(2)], rule safe_bnd [OF safe_lift_eq],
      rule safe_use [OF safe_fault_of]) (auto simp: procs_typed_def, metis nth_mem)

lemma safe_resume: "(\<And>G. P G \<Longrightarrow> \<exists>w ob sv. G v = Some (KView w ob sv)) \<Longrightarrow> safe P (resume_fault E v off) (\<lambda>_ _. True)"
  unfolding resume_fault_def
  by ((rule safe_view_cap safe_steps | (fastforce simp: typed_defs; fail))+)

lemma safe_page_map: "safe (\<lambda>G. G me = Some KProc) (handle_page_map E me args) (\<lambda>_ _. True)"
  unfolding handle_page_map_def match_kind Let_def
  by ((rule safe_find_window safe_fill_view safe_view_cap safe_resume safe_steps | (fastforce simp: typed_defs; fail))+)

section \<open>Connections\<close>

lemma safe_publish_handle:
  assumes "\<And>G. P G \<Longrightarrow> G me = Some KProc"
  shows "safe P (the_publish_handle me h) (\<lambda>sv G. G sv = Some KServer)"
  unfolding the_publish_handle_def using assms
  by - ((rule safe_steps | (auto; fail))+)

lemma safe_conn_register: "safe (\<lambda>G. G me = Some KProc) (handle_conn_register me args) (\<lambda>_ _. True)"
  unfolding handle_conn_register_def match_kind
  by ((rule safe_publish_handle safe_steps | (auto simp: typed_defs find_Some_iff; fail))+)

lemma safe_conn_deregister: "safe (\<lambda>G. G me = Some KProc) (handle_conn_deregister me args) (\<lambda>_ _. True)"
  unfolding handle_conn_deregister_def match_kind
  by ((rule safe_steps | (auto simp: typed_defs; fail))+)

lemma safe_conn_create: "safe (\<lambda>G. G me = Some KProc) (handle_conn_create E me args) (\<lambda>_ _. True)"
  unfolding handle_conn_create_def
  by ((rule safe_steps | (auto simp: typed_defs; fail))+)

lemma safe_conn_destroy: "safe (\<lambda>G. G me = Some KProc) (handle_conn_destroy E me args) (\<lambda>_ _. True)"
  unfolding handle_conn_destroy_def match_kind
  by ((rule safe_steps | (auto simp: typed_defs; fail))+)

lemma safe_handle_cap_create: "safe (\<lambda>G. G me = Some KProc) (handle_server_handle_cap_create E me args) (\<lambda>_ _. True)"
  unfolding handle_server_handle_cap_create_def
  by ((rule safe_publish_handle safe_steps | (auto simp: typed_defs; fail))+)

lemma safe_create_channel: "safe (\<lambda>G. G me = Some KProc) (handle_server_create_channel E me args) (\<lambda>_ _. True)"
  unfolding handle_server_create_channel_def
  by ((rule safe_publish_handle safe_steps | (auto simp: typed_defs; fail))+)

lemma safe_channel_open: "safe P (handle_channel_open args) (\<lambda>_ _. True)"
  unfolding handle_channel_open_def match_kind
  by ((rule safe_steps | (auto simp: typed_defs; fail))+)

lemma safe_irq_register: "safe (\<lambda>G. G me = Some KProc) (handle_irq_register E me args) (\<lambda>_ _. True)"
  unfolding handle_irq_register_def
  by ((rule safe_publish_handle safe_steps | (auto simp: typed_defs; fail))+)

lemma safe_register_root: "safe P (register_root_ntfn K d) (\<lambda>_ _. True)"
  by (rule safe_keeps) (simp add: keeps_def register_root_ntfn_def split: prod.splits)

lemma safe_make_endpoint: "safe P (make_endpoint E tcb) (\<lambda>_ _. True)"
  unfolding make_endpoint_def Let_def unbind_def
  by ((rule safe_register_root safe_steps | (auto simp: typed_defs; fail))+)

lemma safe_buffer_frame: "safe P (buffer_frame E tcb ep ntfn d) (\<lambda>_ _. True)"
  unfolding buffer_frame_def Let_def unbind_def
  by ((rule safe_steps | (auto simp: typed_defs; fail))+)

lemma safe_buffer_view:
  assumes "\<And>G. P G \<Longrightarrow> G me = Some KProc"
  shows "safe P (make_buffer_view me vaddr cap f) (\<lambda>v G. \<exists>w ob. G v = Some (KView w (Some ob) None))"
  unfolding make_buffer_view_def add_window_unchecked_def using assms
  by - ((rule safe_steps | (auto simp: typed_defs; fail))+)

lemma safe_conn_publish: "safe (\<lambda>G. G me = Some KProc) (handle_conn_publish E me args) (\<lambda>_ _. True)"
  unfolding handle_conn_publish_def Let_def
  by ((rule safe_overlapping safe_make_endpoint safe_buffer_frame safe_frame_cap safe_buffer_view safe_steps
      | (auto simp: typed_defs; fail))+)

section \<open>Loading a program\<close>

lemma safe_outcome:
  assumes "\<And>x. r = Ok x \<Longrightarrow> safe P (f x) Q" and "\<And>e. r = Err e \<Longrightarrow> safe P (g e) Q" and "r = Panic \<Longrightarrow> safe P h Q"
  shows "safe P (case r of Ok x \<Rightarrow> f x | Err e \<Rightarrow> g e | Panic \<Rightarrow> h) Q"
  using assms by (cases r) simp_all

lemma safe_new_page:
  assumes "\<And>G. P G \<Longrightarrow> G ob = Some KObject" and "\<And>G. P G \<Longrightarrow> \<exists>w ob sv. G v = Some (KView w ob sv)"
  shows "safe P (new_page K ob v i) (\<lambda>_ _. True)"
  unfolding new_page_def using assms
  by - ((rule safe_frame_cap safe_steps | (auto; fail))+)

lemma safe_load_page:
  assumes "\<And>G. P G \<Longrightarrow> G ob = Some KObject" and "\<And>G. P G \<Longrightarrow> \<exists>w ob sv. G v = Some (KView w ob sv)"
  shows "safe P (load_page K vs seg data ob v pos cv co i) (\<lambda>_ _. True)"
proof -
  have d: "safe P (set_frame_data f bytes) (\<lambda>_ _. True)" for P f bytes
    unfolding set_frame_data_def by (intro safe_keeps keeps_intro) simp_all
  from assms show ?thesis unfolding load_page_def
    by - ((rule safe_new_page safe_outcome safe_attempt d safe_steps | (auto; fail))+)
qed

lemma safe_load_pages:
  assumes "\<And>G. P G \<Longrightarrow> G ob = Some KObject" and "\<And>G. P G \<Longrightarrow> \<exists>w ob sv. G v = Some (KView w ob sv)"
  shows "safe P (load_pages K vs seg data ob v pos cv co i) (\<lambda>_ _. True)"
  using assms
proof (induction K vs seg data ob v pos cv co i rule: load_pages.induct)
  case (1 K vs seg data ob v pos cv co i)
  show ?case
  proof (cases "pos < ph_memsz seg")
    case True
    show ?thesis unfolding load_pages.simps [of K vs seg data ob v pos] Let_def if_P [OF True]
      by (rule safe_seq, rule safe_load_page, erule 1(2), erule 1(3), rule 1(1) [OF True refl],
        erule 1(2), erule 1(3))
  qed (simp add: load_pages.simps [of K vs seg data ob v pos] safe_ret)
qed

lemma safe_load_segment:
  assumes "\<And>G. P G \<Longrightarrow> \<forall>w \<in> set windows. G w = Some KWindow"
  shows "safe P (load_segment_into_vspace K vs seg data windows) (\<lambda>ws G. \<forall>w \<in> set ws. G w = Some KWindow)"
  unfolding load_segment_into_vspace_def handle_overlapping_segment_def Let_def using assms
  by - ((rule safe_load_pages safe_steps | (auto simp: typed_defs dest!: first_window_in; fail))+)

lemma safe_load_segments:
  assumes "\<And>G. P G \<Longrightarrow> \<forall>w \<in> set windows. G w = Some KWindow"
  shows "safe P (load_segments K vs segs windows) (\<lambda>ws G. \<forall>w \<in> set ws. G w = Some KWindow)"
  using assms
proof (induction segs arbitrary: P windows)
  case (Cons seg segs)
  obtain ph data where s: "seg = (ph, data)" by fastforce
  have "safe P (bnd (lift (unwrap data)) (\<lambda>bytes. bnd (load_segment_into_vspace K vs ph bytes windows)
      (load_segments K vs segs))) (\<lambda>ws G. \<forall>w \<in> set ws. G w = Some KWindow)"
    by (rule safe_bnd [OF safe_lift_eq], rule safe_bnd [OF safe_load_segment]) (auto intro!: Cons.IH dest: Cons.prems)
  then show ?case using Cons by (simp add: s)
qed (auto intro: safe_ret)

lemma safe_load_elf: "safe P (load_elf K vs elf) (\<lambda>ws G. \<forall>w \<in> set ws. G w = Some KWindow)"
  unfolding load_elf_def by (rule safe_bnd [OF safe_lift_eq], rule safe_load_segments) simp

lemma safe_stack: "safe P (init_process_stack K) (\<lambda>(_, w) G. G w = Some KWindow)"
  unfolding init_process_stack_def
  by ((rule safe_new_page safe_steps | (auto simp: typed_defs; fail))+)

section \<open>Processes\<close>

lemma safe_write: "safe P (write_bytes_to_stack w a bytes) (\<lambda>_ _. True)"
  unfolding write_bytes_to_stack_def stack_frame_def
  by (intro safe_keeps keeps_intro) (auto split: prod.splits intro!: keeps_intro)

lemma safe_push_args: "safe P (push_args w args a argv) (\<lambda>_ _. True)"
proof (induction args arbitrary: P a argv)
  case (Cons arg args)
  show ?case
    unfolding push_args.simps
    by (rule safe_bnd [OF safe_lift_eq], rule safe_bnd_unit [OF safe_ensure], rule safe_bnd_unit [OF safe_write], rule Cons.IH)
qed (simp add: safe_ret)

lemma safe_write_args: "safe P (write_args_to_stack w largs eargs) (\<lambda>_ _. True)"
proof -
  have ws: "safe P (write_words_to_stack w a xs) (\<lambda>_ _. True)" "safe P (write_half_words_to_stack w a ys) (\<lambda>_ _. True)" for P a xs ys
    by (simp_all add: write_words_to_stack_def write_half_words_to_stack_def safe_write)
  have p: "safe P (push_word w a x) (\<lambda>_ _. True)" for P a x
    unfolding push_word_def by (rule safe_bnd [OF safe_lift_eq], rule safe_bnd_unit [OF ws(1)], rule safe_ret) simp
  show ?thesis unfolding write_args_to_stack_def Let_def
    by ((rule p ws safe_push_args safe_steps | (auto; fail))+)
qed

lemma safe_find_free: "safe P (bnd find_free_proc (\<lambda>r. lift (ok_or e r))) (\<lambda>i _. i < MAX_PROCS)"
proof (rule safe_bnd)
  show "safe P find_free_proc (\<lambda>x _. \<forall>i. x = Some i \<longrightarrow> i < MAX_PROCS)"
    unfolding find_free_proc_def by (rule safe_gets) (auto simp: find_Some_iff typed_def procs_typed_def)
qed (rule safe_lift, simp)

lemma keeps_start:
  "keeps typed_part (drop_object K x)" "keeps typed_part (drop_slot_cap K c)" "keeps typed_part (proc_delete K cs i)"
  "keeps typed_part (frame_cap f)"
  by (auto simp: drop_object_def drop_slot_cap_def proc_delete_def frame_cap_def intro!: keeps_intro)

lemma keeps_undo_ep: "keeps typed_part u \<Longrightarrow> keeps typed_part (undo_ep K cs i u)"
  unfolding undo_ep_def by (intro keeps_intro keeps_start) (simp_all add: keeps_start)

lemma keeps_frame_copy: "keeps typed_part u \<Longrightarrow> keeps typed_part (frame_copy K u)"
  unfolding frame_copy_def Let_def by (intro keeps_intro keeps_start; simp)

lemma keeps_fill_cspace: "keeps typed_part u \<Longrightarrow> keeps typed_part (fill_cspace E ep pos uc u)"
  unfolding fill_cspace_def Let_def
  by (intro keeps_intro) (auto intro!: keeps_intro keeps_undo_ep)

lemma keeps_make_thread: "keeps typed_part u \<Longrightarrow> keeps typed_part (make_thread E ep pos prio vs pcs c u)"
  unfolding make_thread_def Let_def
  by (intro keeps_intro keeps_start; simp add: keeps_start)

lemma safe_make_vspace:
  assumes "keeps typed_part u"
  shows "safe P (make_vspace E data vs c u) (\<lambda>(_, ws, _, _) G. \<forall>w \<in> set ws. G w = Some KWindow)"
  unfolding make_vspace_def Let_def
  by ((rule safe_load_elf safe_stack safe_keeps [OF keeps_frame_copy [OF assms]] safe_keeps [OF assms]
      safe_keeps [OF keeps_start(2)] safe_steps | (auto; fail))+)

lemma safe_start_process: "safe P (start_process E ep data la ea prio) (\<lambda>c G. G c = Some KProc)"
  unfolding start_process_def Let_def
  by ((rule safe_find_free safe_make_vspace safe_write_args
      safe_keeps [OF keeps_frame_copy] safe_keeps [OF keeps_fill_cspace] safe_keeps [OF keeps_make_thread]
      safe_keeps [OF keeps_start(1)] safe_steps | (auto simp: typed_defs const_defs; fail)
      | (intro keeps_seq keeps_start keeps_undo_ep keeps_parts; simp; fail))+)

lemma safe_process_spawn: "safe (\<lambda>G. G me = Some KProc) (handle_process_spawn E ep loader me args) (\<lambda>_ _. True)"
  unfolding handle_process_spawn_def
  by ((rule safe_start_process safe_steps | (auto; fail))+)

lemma safe_drop_resource: "(\<And>G r. P G \<Longrightarrow> h = Some r \<Longrightarrow> res_typed G r) \<Longrightarrow> safe P (drop_resource E h) (\<lambda>_ _. True)"
  unfolding drop_resource_def
  by ((rule safe_window_destroy_internal safe_obj_destroy_internal safe_unview_internal safe_steps | (fastforce; fail))+)

lemma safe_process_destroy: "safe (\<lambda>G. G me = Some KProc) (process_destroy E me) (\<lambda>_ _. True)"
  unfolding process_destroy_def Let_def
  by ((rule safe_drop_resource safe_steps | (auto simp: typed_defs; fail))+)

lemma safe_cell:
  assumes "\<And>p. c = ActiveProcess p \<Longrightarrow> safe P (f p) Q" and "\<And>pid. c = ZombieProcess pid \<Longrightarrow> safe P (g pid) Q"
  shows "safe P (case c of ActiveProcess p \<Rightarrow> f p | ZombieProcess pid \<Rightarrow> g pid) Q"
  using assms by (cases c) simp_all

lemma safe_process_wait: "safe (\<lambda>G. G me = Some KProc) (handle_process_wait me reply args) (\<lambda>_ _. True)"
  unfolding handle_process_wait_def match_kind
  by ((rule safe_cell safe_steps | (auto simp: typed_defs; fail))+)

lemma safe_process_exit: "safe (\<lambda>G. G me = Some KProc) (handle_process_exit E buf me) (\<lambda>_ _. True)"
  unfolding handle_process_exit_def
  by ((rule safe_process_destroy safe_outcome safe_steps | (auto simp: typed_defs; fail))+)

lemma safe_load_complete: "safe (\<lambda>G. G me = Some KProc) (handle_load_complete E me args) (\<lambda>_ _. True)"
  unfolding handle_load_complete_def drop_initial_window_def
  by ((rule safe_steps | (auto simp: typed_defs; fail))+)

section \<open>The server's loop\<close>

lemma safe_answered: "safe P h Q \<Longrightarrow> safe P (answered h) (\<lambda>_ _. True)"
  unfolding answered_def by (rule safe_bnd, assumption, rule safe_ret) simp

lemma safe_reply_create: "safe (\<lambda>G. G me = Some KProc) (handle_reply_create E me) (\<lambda>_ _. True)"
  unfolding handle_reply_create_def
  by ((rule safe_steps | (auto; fail))+)

lemmas safe_handlers =
  safe_window_create safe_window_destroy safe_window_register safe_window_deregister safe_view safe_unview
  safe_obj_create safe_obj_destroy safe_obj_stat safe_page_map safe_conn_register safe_conn_deregister safe_conn_create
  safe_conn_destroy safe_handle_cap_create safe_create_channel safe_channel_open safe_irq_register safe_conn_publish
  safe_process_spawn safe_load_complete safe_reply_create

lemma safe_dispatch: "safe (\<lambda>G. G me = Some KProc) (dispatch E A reply buf me iv) (\<lambda>_ _. True)"
  by (cases iv) (auto intro!: safe_answered safe_handlers safe_process_wait safe_basic
      intro: safe_bnd_unit [OF safe_process_exit] safe_ret)

lemma safe_syscall: "safe (\<lambda>_. True) (handle_syscall E A reply pid msg buf) (\<lambda>_ _. True)"
proof -
  have drop: "safe P (drop_consumed K c d) (\<lambda>_ _. True)" for P K c d
    by (auto simp: drop_consumed_def intro: safe_other safe_ret)
  have known: "safe (\<lambda>G. G me = Some KProc) (bnd (attempt (dispatch E A reply buf me iv)) f) (\<lambda>_ _. True)"
    if "\<And>r. safe (\<lambda>_. True) (f r) (\<lambda>_ _. True)" for me iv f
    by (rule safe_bnd [OF safe_attempt [OF safe_dispatch]], rule safe_use [OF that]) simp
  show ?thesis unfolding handle_syscall_def
    by (rule safe_bnd [OF safe_proc_entry], rule safe_bnd [OF safe_lift_eq], rule safe_bnd [OF safe_get_proc], simp,
        rule safe_bnd [OF safe_other(3)], rule safe_bnd [OF safe_other(6)], rule safe_prod, rule safe_outcome,
        rule safe_use [OF known], (rule drop safe_outcome safe_steps | (auto; fail))+)
qed

text \<open>The call-backs of the interrupts are another state's business.\<close>

lemma safe_round:
  assumes "keeps typed_part on_irq"
  shows "safe (\<lambda>_. True) (syscall_round E A on_irq reply a) (\<lambda>_ _. True)"
  unfolding syscall_round_def
proof (rule safe_bnd [OF safe_lift_eq], rule safe_bnd [where Q = "\<lambda>_ _. True"])
  fix x :: EntryType
  show "safe (\<lambda>G. True \<and> decode_entry_type (ar_badge a) = Ok x)
     (case x of Notification _ \<Rightarrow> bnd on_irq (\<lambda>_. ret None)
      | Invocation pid \<Rightarrow> handle_syscall E A reply (unat pid) (ar_msg a) (ar_buf a)
      | Fault pid \<Rightarrow> bnd (handle_fault E (unat pid) reply (ar_fault a) (ar_buf a)) (\<lambda>r. ret (map_option (\<lambda>info. (info, ar_buf a)) r)))
     (\<lambda>_ _. True)"
    by (cases x) (auto intro: safe_use [OF safe_syscall] safe_bnd [OF safe_keeps [OF assms]]
        safe_bnd [OF safe_use [OF safe_fault]] safe_ret)
qed ((rule safe_steps | (auto; fail))+)

section \<open>Reachable states\<close>

text \<open>The tables as \<open>main.rs\<close> makes them, with whatever memory the start-up has left.\<close>

definition boot_state :: "'k root \<Rightarrow> bool" where
  "boot_state s \<longleftrightarrow> r_procs s = initial_procs \<and> r_names s = Map.empty \<and>
     length (r_handle_caps s) = MAX_HANDLE_CAPS \<and> (\<forall>h \<in> set (r_handle_caps s). hc_handle h = None)"

text \<open>The server starts processes (the first one itself) and serves arrivals.\<close>

inductive reachable :: "'k env \<Rightarrow> server_args \<Rightarrow> 'k root \<Rightarrow> bool" for E A where
  boot: "boot_state s \<Longrightarrow> reachable E A s"
| start: "reachable E A s \<Longrightarrow> start_process E (sa_ep A) elf largs eargs prio s = (r, t) \<Longrightarrow> r \<noteq> Panic \<Longrightarrow> reachable E A t"
| serve: "reachable E A s \<Longrightarrow> keeps typed_part on_irq \<Longrightarrow> syscall_round E A on_irq reply a s = (r, t) \<Longrightarrow> r \<noteq> Panic \<Longrightarrow>
    reachable E A t"

lemma safe_typed:
  assumes "safe (\<lambda>_. True) m Q" and "typed G s" and "m s = (r, t)" and "r \<noteq> Panic"
  shows "\<exists>G'. typed G' t"
  using safeD(1) [OF assms(1,2) upw_True, of _ t] safeD(2) [OF assms(1,2) upw_True, of _ t] assms(3,4)
  by (cases r) (simp_all, blast+)

text \<open>What the server does from a state on: the same steps.\<close>

inductive serves :: "'k env \<Rightarrow> server_args \<Rightarrow> 'k root \<Rightarrow> 'k root \<Rightarrow> bool" for E A s where
  idle: "serves E A s s"
| start: "serves E A s t \<Longrightarrow> start_process E (sa_ep A) elf largs eargs prio t = (r, u) \<Longrightarrow> r \<noteq> Panic \<Longrightarrow> serves E A s u"
| serve: "serves E A s t \<Longrightarrow> keeps typed_part on_irq \<Longrightarrow> syscall_round E A on_irq reply a t = (r, u) \<Longrightarrow> r \<noteq> Panic \<Longrightarrow>
    serves E A s u"

lemma serves_has_typing: "serves E A s t \<Longrightarrow> typed G s \<Longrightarrow> \<exists>G'. typed G' t"
proof (induction rule: serves.induct)
  case idle
  then show ?case by blast
next
  case (start t elf largs eargs prio r u)
  then show ?case using safe_typed [OF safe_start_process] by blast
next
  case (serve t on_irq reply a r u)
  then show ?case using safe_typed [OF safe_round] by blast
qed

lemma reachable_serves: "reachable E A s \<Longrightarrow> \<exists>b. boot_state b \<and> serves E A b s"
  by (induction rule: reachable.induct) (blast intro: serves.intros)+

lemma reachable_has_typing:
  assumes "reachable E A s"
  shows "\<exists>G. typed G s"
proof -
  obtain b where b: "boot_state b" "serves E A b s" using reachable_serves [OF assms] by blast
  then have "typed Map.empty b"
    by (auto simp: typed_def boot_state_def hcaps_typed_def procs_typed_def initial_procs_def)
  then show ?thesis using serves_has_typing [OF b(2)] by blast
qed

section \<open>Properties\<close>

text \<open>C29: In every state the root server reaches, by starting processes and serving any sequence of
  interrupts, system calls and faults (with answers, error answers or none), some store typing
  types the state: every window, view, object, server, connection and process referred to by a
  handle, a handle capability, a structure, the process table or the table of names is a cell of
  that kind with a number already given out, handle tables have 256 entries, process numbers are
  below 64, and the page tables of views and objects are well-formed.\<close>

theorem reachable_states_typed:
  assumes "reachable E A s"
  shows "\<exists>G. typed G s"
  using assms by (rule reachable_has_typing)

definition idle_args :: server_args where
  "idle_args = \<lparr>sa_ep = 0, sa_recv = undefined, sa_loader = []\<rparr>"

definition interrupt :: arrival where
  "interrupt = \<lparr>ar_badge = NTFN_BIT, ar_msg = mk_msginfo 0 0 0, ar_buf = undefined, ar_fault = OtherFault\<rparr>"

theorem reachable_states_typed_witness:
  "\<exists>t. syscall_round small_env idle_args (ret ()) (8, 0) interrupt boot_root = (Ok (None, 10, 1000), t) \<and> (\<exists>G. typed G t)"
proof -
  have b: "reachable small_env idle_args boot_root"
    by (rule reachable.boot) (auto simp: boot_state_def boot_root_def small_root_def)
  obtain t where "in_resources (alloc_retype counting_kernel BReply) boot_root = (Ok (10, 1000) :: (sel4_error, cptr \<times> nat) outcome, t)"
    using boot_reply by blast
  then have r: "syscall_round small_env idle_args (ret ()) (8, 0) interrupt boot_root = (Ok (None, 10, 1000), t)"
    by (simp add: syscall_round_def bnd_def op_run decode_entry_type_def interrupt_def const_defs)
  have "reachable small_env idle_args t"
    by (rule reachable.serve [OF b _ r]) (simp_all add: keeps_basic)
  then show ?thesis using r reachable_states_typed by blast
qed

lemma typed_views:
  assumes s: "typed G s" and c: "Some c \<in> set (r_procs s)" and p: "r_cells s c = ActiveProcess p"
  shows "get_handle i (p_handles p) = Ok (Some (R_View v)) \<longrightarrow> v_object (r_views s v) \<noteq> None \<and> v_server (r_views s v) = None"
    and "get_handle i (p_handles p) = Ok (Some (R_WindowRegistration v)) \<longrightarrow>
      v_object (r_views s v) = None \<and> v_server (r_views s v) \<noteq> None"
    and "w \<in> set (p_initial_windows p) \<union> set (p_windows p) \<and> w_view (r_windows s w) = Some v \<longrightarrow>
      v_window (r_views s v) = w \<and> (v_object (r_views s v) = None \<longleftrightarrow> v_server (r_views s v) \<noteq> None)"
    and "get_handle i (p_handles p) = Ok (Some (R_Object ob)) \<and> v \<in> set (mo_views (r_objects s ob)) \<longrightarrow>
      v_object (r_views s v) = Some ob"
proof -
  have "cell_typed G (r_cells s c)" using s c typed_kind [OF s _ map_le_refl, of c KProc] by (simp add: typed_def procs_typed_def)
  then have pt: "proc_typed G p" using p by simp
  have h: "res_typed G r" if "get_handle i (p_handles p) = Ok (Some r)" for r
    using that pt by (auto simp: get_handle_def proc_typed_def split: if_splits) (metis nth_mem)
  note k = typed_kind [OF s _ map_le_refl]
  show "get_handle i (p_handles p) = Ok (Some (R_View v)) \<longrightarrow> v_object (r_views s v) \<noteq> None \<and> v_server (r_views s v) = None"
    using h [of "R_View v"] by (auto dest!: k simp: view_typed_def)
  show "get_handle i (p_handles p) = Ok (Some (R_WindowRegistration v)) \<longrightarrow>
      v_object (r_views s v) = None \<and> v_server (r_views s v) \<noteq> None"
    using h [of "R_WindowRegistration v"] by (auto dest!: k simp: view_typed_def)
  show "w \<in> set (p_initial_windows p) \<union> set (p_windows p) \<and> w_view (r_windows s w) = Some v \<longrightarrow>
      v_window (r_views s v) = w \<and> (v_object (r_views s v) = None \<longleftrightarrow> v_server (r_views s v) \<noteq> None)"
  proof
    assume w: "w \<in> set (p_initial_windows p) \<union> set (p_windows p) \<and> w_view (r_windows s w) = Some v"
    then have "window_typed G w (r_windows s w)" using pt k [of w KWindow] by (auto simp: proc_typed_def)
    then obtain ob sv where "G v = Some (KView w ob sv)" using w by (auto simp: window_typed_def)
    then show "v_window (r_views s v) = w \<and> (v_object (r_views s v) = None \<longleftrightarrow> v_server (r_views s v) \<noteq> None)"
      by (auto dest!: k simp: view_typed_def)
  qed
  show "get_handle i (p_handles p) = Ok (Some (R_Object ob)) \<and> v \<in> set (mo_views (r_objects s ob)) \<longrightarrow>
      v_object (r_views s v) = Some ob"
    using h [of "R_Object ob"] k [of ob KObject] k [of v] by (fastforce simp: object_typed_def view_typed_def)
qed

text \<open>C30: What the code asserts of views holds whatever the server has done.  From a well-typed state (the
  state after the start-up, and every state reached from it, is one), after any sequence of started
  processes and served interrupts, system calls and faults, for every process in the process table: a
  view handle is for a view with an object and without a server, a window registration for one with
  a server and without an object; the view bound to a window of the process is a view of that window,
  with an object or else a server to pass its faults on to; and a view in the list of an object with
  a handle is a view of that object.\<close>

theorem view_assertions_hold:
  assumes "typed G b" and "serves E A b s" and "Some c \<in> set (r_procs s)" and "r_cells s c = ActiveProcess p"
  shows "(get_handle i (p_handles p) = Ok (Some (R_View v)) \<longrightarrow>
        v_object (r_views s v) \<noteq> None \<and> v_server (r_views s v) = None) \<and>
     (get_handle i (p_handles p) = Ok (Some (R_WindowRegistration v)) \<longrightarrow>
        v_object (r_views s v) = None \<and> v_server (r_views s v) \<noteq> None) \<and>
     (w \<in> set (p_initial_windows p) \<union> set (p_windows p) \<and> w_view (r_windows s w) = Some v \<longrightarrow>
        v_window (r_views s v) = w \<and> (v_object (r_views s v) = None \<longleftrightarrow> v_server (r_views s v) \<noteq> None)) \<and>
     (get_handle i (p_handles p) = Ok (Some (R_Object ob)) \<and> v \<in> set (mo_views (r_objects s ob)) \<longrightarrow>
        v_object (r_views s v) = Some ob)"
proof -
  obtain G' where "typed G' s" using serves_has_typing [OF assms(2,1)] by blast
  from typed_views [OF this assms(3,4)] show ?thesis by (intro conjI)
qed

definition mapped_typing :: typing where
  "mapped_typing = [0 \<mapsto> KProc, 1 \<mapsto> KWindow, 2 \<mapsto> KView 1 (Some 3) None, 3 \<mapsto> KObject]"

lemma mapped_handles: "set (p_handles mapped_proc) \<subseteq> {None, Some (R_Window 1), Some (R_View 2), Some (R_Object 3)}"
proof -
  have s: "set (xs[i := x]) \<subseteq> A" if "set xs \<subseteq> A" "x \<in> A" for xs and i and x :: "resource option" and A
    using that set_update_subset_insert [of xs i x] by blast
  have e: "p_handles mapped_proc =
      (replicate MAX_HANDLES None)[0 := Some (R_Window 1), 1 := Some (R_View 2), 2 := Some (R_Object 3)]"
    unfolding mapped_proc_def small_proc_def by (simp only: user_process.simps)
  show ?thesis unfolding e by (intro s) (auto simp only: set_replicate_conv_if insert_iff empty_iff split: if_splits)
qed

lemma mapped_root_typed: "typed mapped_typing mapped_root"
proof -
  have "res_typed mapped_typing r" if "Some r \<in> set (p_handles mapped_proc)" for r
  proof -
    have "r = R_Window 1 \<or> r = R_View 2 \<or> r = R_Object 3"
      using that mapped_handles by blast
    then show ?thesis by (auto simp: mapped_typing_def)
  qed
  then have p: "cell_typed mapped_typing (ActiveProcess mapped_proc)"
    by (simp add: proc_typed_def) (simp add: mapped_proc_def small_proc_def mapped_typing_def MAX_PROCS_def)
  have "kind_typed mapped_typing mapped_root i k" if "mapped_typing i = Some k" for i k
    using that p by (auto simp: mapped_typing_def mapped_root_def window_typed_def view_typed_def object_typed_def
        view_new_def object_new_def simp del: cell_typed.simps split: if_splits)
  then show ?thesis
    by (auto simp: typed_def hcaps_typed_def procs_typed_def root_defs initial_procs_def mapped_typing_def
        dest!: set_update_subset_insert [THEN subsetD])
qed

lemma mapped_interrupt:
  "\<exists>m. syscall_round small_env idle_args (ret ()) (8, 0) interrupt mapped_root = (Ok (None, 10, 1000), mapped_root\<lparr>r_mem := m\<rparr>)"
proof -
  obtain t where "in_resources (alloc_retype counting_kernel BReply) boot_root = (Ok (10, 1000) :: (sel4_error, cptr \<times> nat) outcome, t)"
    using boot_reply by blast
  then have "\<exists>m. in_resources (alloc_retype counting_kernel BReply) mapped_root = (Ok (10, 1000) :: (sel4_error, cptr \<times> nat) outcome,
      mapped_root\<lparr>r_mem := m\<rparr>)"
    by (auto simp: in_resources_def in_mem_def in_rs_def on_part_def mapped_root_def split: prod.splits)
  then show ?thesis by (auto simp: syscall_round_def bnd_def op_run decode_entry_type_def interrupt_def const_defs)
qed

theorem view_assertions_hold_witness:
  "\<exists>s. serves small_env idle_args mapped_root s \<and>
    v_object (r_views s 2) \<noteq> None \<and> v_window (r_views s 2) = 1"
proof -
  obtain m where m: "syscall_round small_env idle_args (ret ()) (8, 0) interrupt mapped_root =
      (Ok (None, 10, 1000), mapped_root\<lparr>r_mem := m\<rparr>)" using mapped_interrupt by blast
  let ?s = "mapped_root\<lparr>r_mem := m\<rparr>"
  have s: "serves small_env idle_args mapped_root ?s"
    by (rule serves.serve [OF serves.idle _ m]) (simp_all add: keeps_basic)
  have p: "r_cells ?s 0 = ActiveProcess mapped_proc" "w_view (r_windows ?s 1) = Some 2" by (simp_all add: mapped_root_def)
  have c: "Some 0 \<in> set (r_procs ?s)"
    by (simp add: root_defs initial_procs_def const_defs set_update_memI)
  have "get_handle 1 (p_handles mapped_proc) = Ok (Some (R_View 2))" "1 \<in> set (p_windows mapped_proc)"
    by (simp_all add: mapped_proc_def small_proc_def get_handle_def const_defs)
  then show ?thesis
    using view_assertions_hold [OF mapped_root_typed s c p(1), of 1 2 1] p(2) s by blast
qed

end
