(* ===== verification/VM_Facts.thy ===== *)
theory VM_Facts
  imports Root_Handlers
begin

text \<open>
  Page faults: what \<open>handle_vm_fault\<close> of \<open>crates/root_server/src/vm.rs\<close> does to the tables of
  the view and its object, to the contents of the frames and to everything else, in each of its
  cases, which capability it copies and maps where and with which rights, and that it returns when the
  frame and slot are there and the kernel performs that one copy and mapping.
\<close>

section \<open>The object's frame\<close>

lemma table_insert_lookup:
  assumes "wf_table 3 t" and "table_insert offset x t = (Ok (), t')"
  shows "table_lookup t offset = None" "wf_table 3 t'"
    "table_lookup t' o' = (if page_no 3 o' = page_no 3 offset then Some x else table_lookup t o')"
  using table_insert_spec [OF assms(1), of offset x] assms(2) by (auto split: if_splits)

lemma table_lookup_page: "page_no 3 a = page_no 3 b \<Longrightarrow> table_lookup t a = table_lookup t b"
  using lookup_levels_page [of 3 a b t] by (simp add: table_lookup_def numeral_eq_Suc)

lemma in_mem_rest: "in_mem m s = (r, t) \<longleftrightarrow> (\<exists>u. m (r_mem s) = (r, u) \<and> t = s\<lparr>r_mem := u\<rparr>)"
  by (auto simp: in_mem_def on_part_def split: prod.splits)

lemma expect_eq_Ok [simp]: "expect m s = (Ok x, t) \<longleftrightarrow> m s = (Ok x, t)"
  by (auto simp: expect_def on_err_def panic_def split: prod.splits outcome.splits)

lemma expect_run_Ok: "m s = (Ok x, t) \<Longrightarrow> expect m s = (Ok x, t)"
  by simp

lemma insert_at_run:
  "insert_frame_at ob off fr s = (Ok (), t) \<longleftrightarrow>
     (\<exists>tb. table_insert off fr (mo_frames (r_objects s ob)) = (Ok (), tb) \<and>
        t = s\<lparr>r_objects := (r_objects s)(ob := (r_objects s ob)\<lparr>mo_frames := tb\<rparr>)\<rparr>)"
  "insert_cap_at v off c s = (Ok (), t) \<longleftrightarrow>
     (\<exists>tb. table_insert off c (v_caps (r_views s v)) = (Ok (), tb) \<and>
        t = s\<lparr>r_views := (r_views s)(v := (r_views s v)\<lparr>v_caps := tb\<rparr>)\<rparr>)"
  by (auto simp: insert_frame_at_def insert_cap_at_def the_object_def the_view_def upd_object_def upd_view_def bnd_def op_run
      split: prod.splits)

definition object_page :: "'k root \<Rightarrow> 'k root \<Rightarrow> nat \<Rightarrow> nat \<Rightarrow> cptr \<times> nat \<Rightarrow> bool" where
  "object_page s t ob off x \<longleftrightarrow>
     (\<forall>o'. table_lookup (mo_frames (r_objects t ob)) o' =
        (if page_no 3 o' = page_no 3 off then Some x else table_lookup (mo_frames (r_objects s ob)) o')) \<and>
     (case table_lookup (mo_frames (r_objects s ob)) off of
        Some y \<Rightarrow> y = x \<and> r_data t = r_data s
      | None \<Rightarrow> r_data t = (r_data s)(snd x := \<lambda>_. 0) \<and>
          (\<forall>W L. mem_inv W L (r_mem s) \<longrightarrow> snd x \<notin> set (L AllocatedList)))"

definition view_page :: "'k root \<Rightarrow> 'k root \<Rightarrow> nat \<Rightarrow> nat \<Rightarrow> cptr \<Rightarrow> bool" where
  "view_page s t v off c \<longleftrightarrow>
     (\<forall>o'. table_lookup (v_caps (r_views t v)) o' =
        (if page_no 3 o' = page_no 3 off then Some c else table_lookup (v_caps (r_views s v)) o'))"

text \<open>Only the memory, the contents of frames and the two tables change.\<close>

definition beside_tables where
  "beside_tables s = (r_dma s, r_handle_caps s, r_windows s, r_servers s, r_conns s, r_cells s, r_next s, r_names s, r_procs s)"

definition only_tables :: "'k root \<Rightarrow> 'k root \<Rightarrow> nat \<Rightarrow> nat \<Rightarrow> bool" where
  "only_tables s t ob v \<longleftrightarrow>
     beside_tables t = beside_tables s \<and>
     (\<exists>tb. r_objects t = (r_objects s)(ob := (r_objects s ob)\<lparr>mo_frames := tb\<rparr>)) \<and>
     (\<exists>tb. r_views t = (r_views s)(v := (r_views s v)\<lparr>v_caps := tb\<rparr>))"

lemma same_frames: "(r_objects s)(ob := (r_objects s ob)\<lparr>mo_frames := mo_frames (r_objects s ob)\<rparr>) = r_objects s"
  by (rule ext) simp

lemma object_frame_spec:
  assumes wf: "wf_table 3 (mo_frames (r_objects s ob))" and run: "object_frame K ob off s = ((Ok cap :: ('e, cptr) outcome), t)"
  shows "\<exists>f tb. object_page s t ob off (cap, f) \<and> beside_tables t = beside_tables s \<and> r_views t = r_views s \<and>
    r_objects t = (r_objects s)(ob := (r_objects s ob)\<lparr>mo_frames := tb\<rparr>)"
proof (cases "table_lookup (mo_frames (r_objects s ob)) off")
  case (Some y)
  then have "t = s" "fst y = cap" using run
    by (auto simp: object_frame_def the_object_def bnd_def op_run split: prod.splits)
  moreover from this Some have "object_page s t ob off (cap, snd y)"
    by (auto simp: object_page_def dest: table_lookup_page split: prod.splits) (metis table_lookup_page)
  ultimately show ?thesis by (intro exI [of _ "snd y"] exI [of _ "mo_frames (r_objects s ob)"]) (simp add: same_frames)
next
  case None
  obtain f s1 s2 s3 where a: "in_mem (alloc_frame K) s = (Ok (Some f), s1)" and c: "frame_cap f s1 = ((Ok cap :: ('e, cptr) outcome), s2)"
    and i: "insert_frame_at ob off (cap, f) s2 = (Ok (), s3)" and z: "zero_frame f s3 = ((Ok () :: ('e, unit) outcome), t)"
    using run None by (auto simp: object_frame_def the_object_def bnd_eq_Ok op_run)
  obtain m1 where m1: "alloc_frame K (r_mem s) = (Ok (Some f), m1)" "s1 = s\<lparr>r_mem := m1\<rparr>" using a by (auto simp: in_mem_rest)
  obtain m2 where m2: "s2 = s\<lparr>r_mem := m2\<rparr>" using c m1(2) by (auto simp: frame_cap_def in_frames_def in_mem_rest)
  obtain tb where tb: "table_insert off (cap, f) (mo_frames (r_objects s ob)) = (Ok (), tb)"
    "s3 = s\<lparr>r_mem := m2, r_objects := (r_objects s)(ob := (r_objects s ob)\<lparr>mo_frames := tb\<rparr>)\<rparr>"
    using i m2 by (auto simp: insert_at_run)
  obtain m3 where t: "t = s\<lparr>r_objects := (r_objects s)(ob := (r_objects s ob)\<lparr>mo_frames := tb\<rparr>), r_mem := m3,
      r_data := (r_data s)(f := \<lambda>_. 0)\<rparr>"
    using z tb(2) by (auto simp: zero_frame_def in_frames_def in_mem_rest bnd_eq_Ok op_run)
  have "f \<notin> set (L AllocatedList)" if "mem_inv W L (r_mem s)" for W L
    using alloc_frame_mem [OF that m1(1)] by simp
  then have "object_page s t ob off (cap, f)"
    using table_insert_lookup [OF wf tb(1)] None by (simp add: object_page_def t)
  then show ?thesis by (intro exI [of _ f] exI [of _ tb]) (simp add: t beside_tables_def)
qed

section \<open>What the kernel has done\<close>

lemma kern_call_eq_Ok: "kern_call f s = (Ok x, t) \<longleftrightarrow> (\<exists>k. f (rs_kern s) = (None, k) \<and> t = s\<lparr>rs_kern := k\<rparr>)"
  by (auto simp: kern_call_def in_kern_def on_part_def kresult_def split: prod.splits option.splits)

lemma attempt_eq_Ok: "attempt m s = (Ok r, t) \<longleftrightarrow> m s = (r, t) \<and> r \<noteq> Panic"
  by (auto simp: attempt_def split: prod.splits outcome.splits)

lemma map_frame_loop_maps:
  assumes "map_frame_loop K (kern_call f) vs a slots n used err s = (Ok u, t)"
    and "\<forall>x. err = Ok x \<longrightarrow> (\<exists>k. f k = (None, rs_kern s))"
  shows "\<exists>k. f k = (None, rs_kern t)"
  using assms
proof (induction n arbitrary: used err s)
  case 0
  then show ?case by (cases err) (auto simp: map_frame_loop.simps op_run)
next
  case (Suc n)
  show ?case
  proof (cases err)
    case (Err e)
    from Suc.prems(1) obtain pt slot used' cap s1 r s2 where
      r: "attempt (bnd (retype_map_pt K vs a cap slot) (\<lambda>_. kern_call f)) s1 = ((Ok r :: (sel4_error, (sel4_error, unit) outcome) outcome), s2)"
      and l: "map_frame_loop K (kern_call f) vs a slots n used' r s2 = (Ok u, t)"
      unfolding map_frame_loop.simps [of _ _ _ _ _ "Suc n"] Err
      by (clarsimp simp: bnd_eq_Ok op_run split: if_splits prod.splits)
    have "\<exists>k. f k = (None, rs_kern s2)" if "r = Ok x" for x
      using r that by (auto simp: attempt_eq_Ok bnd_eq_Ok kern_call_eq_Ok)
    then show ?thesis using Suc.IH [OF l] by blast
  qed (use Suc.prems in \<open>auto simp: map_frame_loop.simps op_run\<close>)
qed

lemma map_frame_maps:
  assumes "map_frame K frame vs a rights attr slots s = (Ok u, t)"
  shows "\<exists>k. k_frame_map K frame vs a rights attr k = (None, rs_kern t)"
proof -
  obtain r s1 where "attempt (kern_call (k_frame_map K frame vs a rights attr)) s = ((Ok r :: (sel4_error, (sel4_error, unit) outcome) outcome), s1)"
    and "map_frame_loop K (kern_call (k_frame_map K frame vs a rights attr)) vs a slots MAPPING_SLOTS 0 r s1 = (Ok u, t)"
    using assms by (auto simp: map_frame_def Let_def bnd_eq_Ok)
  moreover from this(1) have "\<forall>x. r = Ok x \<longrightarrow> (\<exists>k. k_frame_map K frame vs a rights attr k = (None, rs_kern s1))"
    by (fastforce simp: attempt_eq_Ok kern_call_eq_Ok)
  ultimately show ?thesis using map_frame_loop_maps by blast
qed

lemma in_resources_split:
  "in_resources m s = (r, t) \<longleftrightarrow> (\<exists>u. m (mem_rs (r_mem s)) = (r, u) \<and> t = s\<lparr>r_mem := (r_mem s)\<lparr>mem_rs := u\<rparr>\<rparr>)"
  by (auto simp: in_resources_def in_mem_def in_rs_def on_part_def split: prod.splits)

text \<open>A copy of \<open>src\<close> in \<open>dst\<close> that the kernel has made.\<close>

definition copied :: "'k sel4 \<Rightarrow> cptr \<Rightarrow> cptr \<Rightarrow> cap_rights \<Rightarrow> bool" where
  "copied K dst src rights \<longleftrightarrow> (\<exists>cs k k'. k_cnode_copy K (cs_absolute cs dst) (cs_absolute cs src) rights k = (None, k'))"

lemma copy_frame_cap_copied:
  assumes "copy_frame_cap K cap s = ((Ok slot :: ('e, cptr) outcome), t)"
  shows "copied K slot cap rights_all"
  using assms unfolding copied_def
  by (auto simp: copy_frame_cap_def rs_copy_def bnd_eq_Ok op_run in_resources_split kern_call_eq_Ok)

section \<open>Filling the view\<close>

lemma fill_view_spec:
  assumes wf: "wf_table 3 (mo_frames (r_objects s ob))" "wf_table 3 (v_caps (r_views s v))"
    and run: "fill_view K v ob off s = ((Ok () :: ('e, unit) outcome), t)"
  shows "\<exists>cap f slot. object_page s t ob (v_obj_offset (r_views s v) + (off - v_win_offset (r_views s v))) (cap, f) \<and>
    view_page s t v off slot \<and> only_tables s t ob v \<and> table_lookup (v_caps (r_views t v)) off = Some slot \<and>
    copied K slot cap rights_all"
proof -
  let ?o = "v_obj_offset (r_views s v) + (off - v_win_offset (r_views s v))"
  obtain cap slot s1 s2 where o: "object_frame K ob ?o s = ((Ok cap :: ('e, cptr) outcome), s1)"
    and c: "copy_frame_cap K cap s1 = ((Ok slot :: ('e, cptr) outcome), s2)" and i: "insert_cap_at v off slot s2 = (Ok (), t)"
    using run by (auto simp: fill_view_def the_view_def bnd_eq_Ok op_run obind_eq_Ok sub_us_eq_Ok add_us_eq_Ok)
  obtain f tf where f: "object_page s s1 ob ?o (cap, f)" "beside_tables s1 = beside_tables s" "r_views s1 = r_views s"
      "r_objects s1 = (r_objects s)(ob := (r_objects s ob)\<lparr>mo_frames := tf\<rparr>)"
    using object_frame_spec [OF wf(1) o] by blast
  obtain m2 where s2: "s2 = s1\<lparr>r_mem := m2\<rparr>"
    using c by (auto simp: copy_frame_cap_def in_resources_def in_mem_rest bnd_eq_Ok op_run)
  obtain tb where tb: "table_insert off slot (v_caps (r_views s v)) = (Ok (), tb)"
    "t = s1\<lparr>r_mem := m2, r_views := (r_views s)(v := (r_views s v)\<lparr>v_caps := tb\<rparr>)\<rparr>"
    using i s2 f(3) by (auto simp: insert_at_run)
  have "view_page s t v off slot" using table_insert_lookup [OF wf(2) tb(1)] by (simp add: view_page_def tb(2))
  moreover have "object_page s t ob ?o (cap, f)" using f(1) by (simp add: object_page_def tb(2) split: option.splits)
  moreover have "only_tables s t ob v" using f(2,4) by (auto simp: only_tables_def beside_tables_def tb(2) simp del: fun_upd_apply)
  moreover have "table_lookup (v_caps (r_views t v)) off = Some slot"
    using table_insert_lookup(3) [OF wf(2) tb(1), of off] by (simp add: tb(2))
  ultimately show ?thesis using copy_frame_cap_copied [OF c]
    by (intro exI [of _ cap] exI [of _ f] exI [of _ slot]) simp
qed

section \<open>A fault\<close>

text \<open>The view of a faulting address, with the offset in its window.\<close>

definition faults_in :: "'k root \<Rightarrow> nat \<Rightarrow> nat \<Rightarrow> nat \<Rightarrow> nat \<Rightarrow> bool" where
  "faults_in s me addr v off \<longleftrightarrow>
     (\<exists>w. find_window_containing me addr s = (Ok (Some w) :: (sel4_error, nat option) outcome, s) \<and>
        w_view (r_windows s w) = Some v \<and> w_start (r_windows s w) \<le> addr \<and> off = addr - w_start (r_windows s w))"

lemma find_window_state: "find_window_containing me addr s = (r, t) \<Longrightarrow> t = s"
  by (auto simp: find_window_containing_def get_proc_def bnd_def op_run split: process_type.splits outcome.splits prod.splits)

definition map_view_page ::
  "'k env \<Rightarrow> nat \<Rightarrow> nat \<Rightarrow> nat \<Rightarrow> nat \<Rightarrow> cap_rights \<Rightarrow> ('k root, 'e, FaultReply option) op" where
  "map_view_page E me v off addr rights =
     bnd (view_cap v off) (\<lambda>cap.
     bnd (get_proc me) (\<lambda>p.
     bnd (expect (in_resources (map_frame (e_sel4 E) cap (fst (p_vspace p))
            (ROUND_DOWN addr seL4_PageBits) rights VM_DEFAULT None))) (\<lambda>_.
     ret (Some (VMFaultReply True)))))"

lemma vm_fault_cases:
  fixes s :: "'k root"
  assumes "faults_in s me addr v off"
  shows "handle_vm_fault E me reply addr s =
    (if table_lookup (v_caps (r_views s v)) off \<noteq> None
     then (map_view_page E me v off addr (v_rights (r_views s v)) :: ('k root, sel4_error, FaultReply option) op) s
     else case v_object (r_views s v) of
        None \<Rightarrow> seq (forward_vm_fault E me v (ROUND_DOWN off seL4_PageBits) reply addr) (ret None) s
      | Some ob \<Rightarrow> seq (fill_view (e_sel4 E) v ob off) (map_view_page E me v off addr (v_rights (r_views s v))) s)"
proof -
  obtain w where "find_window_containing me addr s = (Ok (Some w) :: (sel4_error, nat option) outcome, s)"
    "w_view (r_windows s w) = Some v" "w_start (r_windows s w) \<le> addr" "off = addr - w_start (r_windows s w)"
    using assms by (auto simp: faults_in_def)
  then show ?thesis
    by (simp add: handle_vm_fault_def map_view_page_def bnd_def the_window_def the_view_def op_run sub_us_def Let_def
        split: option.splits)
qed

lemma map_view_page_run:
  assumes "map_view_page E me v off addr rights s = (Ok r, t)"
  shows "r = Some (VMFaultReply True)" "t = s\<lparr>r_mem := r_mem t\<rparr>" "table_lookup (v_caps (r_views s v)) off \<noteq> None"
  using assms
  by (auto simp: map_view_page_def view_cap_def the_view_def get_proc_def bnd_eq_Ok op_run in_resources_def in_mem_rest
      split: process_type.splits)

lemma map_view_page_maps:
  assumes "map_view_page E me v off addr rights s = (Ok r, t)" and "table_lookup (v_caps (r_views s v)) off = Some slot"
  shows "\<exists>p. r_cells s me = ActiveProcess p \<and>
    (\<exists>k. k_frame_map (e_sel4 E) slot (fst (p_vspace p)) (ROUND_DOWN addr seL4_PageBits) rights VM_DEFAULT k =
       (None, rs_kern (mem_rs (r_mem t))))"
  using assms
  by (auto simp: map_view_page_def view_cap_def the_view_def get_proc_eq_Ok bnd_eq_Ok op_run in_resources_split dest!: map_frame_maps)

lemma notify_server_run:
  assumes "notify_server E sv msg s = ((Ok () :: ('e, unit) outcome), t)"
  shows "\<exists>m. t = s\<lparr>r_mem := m\<rparr>"
  using assms by (auto simp: notify_server_def the_server_def bnd_eq_Ok op_run in_world_def in_resources_def in_mem_rest)

lemma forward_run:
  assumes "forward_vm_fault E me v off reply addr s = ((Ok () :: ('e, unit) outcome), t)"
  shows "\<exists>p m. r_cells s me = ActiveProcess p \<and>
    t = s\<lparr>r_mem := m, r_views := (r_views s)(v := (r_views s v)\<lparr>v_fault := Some (reply, addr, fst (p_vspace p))\<rparr>)\<rparr>"
proof -
  obtain sv cid rf p u where n: "notify_server E sv (N_VMFault
        \<lparr>vf_client_id = cid, vf_reference = rf, vf_fault_offset = of_nat off\<rparr>) s = ((Ok () :: ('e, unit) outcome), u)"
    and p: "get_proc me u = ((Ok p :: ('e, user_process) outcome), u)"
    and t: "upd_view v (v_fault_update (\<lambda>_. Some (reply, addr, fst (p_vspace p)))) u = ((Ok () :: ('e, unit) outcome), t)"
    using assms
    by (auto simp: forward_vm_fault_def the_view_def bnd_eq_Ok op_run get_proc_eq_Ok split: prod.splits)
  obtain m where "u = s\<lparr>r_mem := m\<rparr>" using notify_server_run [OF n] by blast
  then show ?thesis using p t
    by (auto simp: get_proc_eq_Ok upd_view_def op_run intro!: exI [of _ m])
qed

section \<open>A fault is served\<close>

text \<open>The list operations of the frame table leave the capabilities of the frames alone.\<close>

definition caps_are :: "(nat \<Rightarrow> cptr) \<Rightarrow> frame_table \<Rightarrow> bool" where
  "caps_are H T \<longleftrightarrow> (\<forall>f. fr_cap (ft_heap T f) = H f)"

lemma caps_triples:
  "triple (caps_are H) (set_prev f p) (\<lambda>_. caps_are H) (caps_are H)"
  "triple (caps_are H) (set_next f p) (\<lambda>_. caps_are H) (caps_are H)"
  "triple (caps_are H) (set_list_id f i) (\<lambda>_. caps_are H) (caps_are H)"
  "triple (caps_are H) (put_list l fl) (\<lambda>_. caps_are H) (caps_are H)"
  "triple (caps_are H) (the_list l) (\<lambda>_. caps_are H) (caps_are H)"
  "triple (caps_are H) (the_frame f) (\<lambda>_. caps_are H) (caps_are H)"
  "triple (caps_are H) (frame_from_ref f) (\<lambda>_. caps_are H) (caps_are H)"
  "triple (caps_are H) (ref_from_frame f) (\<lambda>_. caps_are H) (caps_are H)"
  "triple (caps_are H) (assert_loose f) (\<lambda>_. caps_are H) (caps_are H)"
  "triple (caps_are H) (ensure b) (\<lambda>_. caps_are H) (caps_are H)"
  "triple (caps_are H) (lift r) (\<lambda>_. caps_are H) (caps_are H)"
  "triple (caps_are H) (ret x) (\<lambda>_. caps_are H) (caps_are H)"
  by (auto simp: triple_def set_prev_def set_next_def set_list_id_def upd_frame_def put_list_def the_list_def the_frame_def
      frame_from_ref_def ref_from_frame_def assert_loose_def bnd_def op_run caps_are_def
      split: list_id.splits outcome.splits prod.splits)

lemma caps_case_option:
  "triple P m Q E \<Longrightarrow> (\<And>y. triple P (f y) Q E) \<Longrightarrow> triple P (case x of None \<Rightarrow> m | Some y \<Rightarrow> f y) Q E"
  by (cases x) auto

lemma pop_front_caps: "triple (caps_are H) (pop_front i) (\<lambda>_. caps_are H) (caps_are H)"
  unfolding pop_front_def by (intro caps_case_option triple_if triple_bnd [where R = "\<lambda>_. caps_are H"] caps_triples)

lemma push_front_caps: "triple (caps_are H) (push_front i f) (\<lambda>_. caps_are H) (caps_are H)"
  unfolding push_front_def by (intro caps_case_option triple_if triple_bnd [where R = "\<lambda>_. caps_are H"] caps_triples)

lemma push_back_caps: "triple (caps_are H) (push_back i f) (\<lambda>_. caps_are H) (caps_are H)"
  unfolding push_back_def
  by (intro caps_case_option triple_if triple_bnd [where R = "\<lambda>_. caps_are H"] caps_triples push_front_caps)

lemma alloc_frame_rest:
  assumes I: "mem_inv W L s" and L: "L FreeList = g # fs"
  shows "\<exists>T. alloc_frame K s = (Ok (Some g), s\<lparr>mem_ft := T\<rparr>) \<and> fr_cap (ft_heap T g) = fr_cap (ft_heap (mem_ft s) g) \<and>
    mem_inv W (L(FreeList := fs, AllocatedList := L AllocatedList @ [g])) (s\<lparr>mem_ft := T\<rparr>)"
proof -
  obtain t where t: "alloc_frame K s = (Ok (Some g), t)" "mem_inv W (L(FreeList := fs, AllocatedList := L AllocatedList @ [g])) t"
    using alloc_frame_free [OF I L, of K] by blast
  obtain T where T: "pop_front FreeList (mem_ft s) = (Ok (Some g) :: (sel4_error, nat option) outcome, T)"
    using pop_front_Cons [of L "mem_ft s" FreeList g fs] I L by (auto simp: mem_inv_def)
  obtain T' r where T': "push_back AllocatedList g T = (Ok () :: (sel4_error, unit) outcome, T')" "t = s\<lparr>mem_ft := T'\<rparr>"
    using t(1) unfolding alloc_frame_pop [OF T]
    by (auto simp: bnd_eq_Ok op_run in_ft_def on_part_def ref_from_frame_def split: prod.splits if_splits)
  let ?H = "\<lambda>f. fr_cap (ft_heap (mem_ft s) f)"
  have "caps_are ?H T" by (rule tripleD(1) [OF pop_front_caps _ T]) (simp add: caps_are_def)
  then have "caps_are ?H T'" by (rule tripleD(1) [OF push_back_caps _ T'(1)])
  then show ?thesis using t T'(2) by (auto simp: caps_are_def)
qed

text \<open>The capability of the frame that backs an offset of an object: the object's own, or the one of
  the first free frame.\<close>

definition page_cap :: "'k root \<Rightarrow> (list_id \<Rightarrow> nat list) \<Rightarrow> nat \<Rightarrow> nat \<Rightarrow> cptr \<Rightarrow> bool" where
  "page_cap s L ob off c \<longleftrightarrow>
     (case table_lookup (mo_frames (r_objects s ob)) off of
        Some (cap, _) \<Rightarrow> c = cap
      | None \<Rightarrow> \<exists>g fs. L FreeList = g # fs \<and> c = fr_cap (ft_heap (mem_ft (r_mem s)) g))"

lemma object_frame_runs:
  assumes wf: "wf_table 3 (mo_frames (r_objects s ob))" and I: "mem_inv W L (r_mem s)" and c: "page_cap s L ob off c"
  shows "\<exists>t. object_frame K ob off s = ((Ok c :: ('e, cptr) outcome), t) \<and> mem_rs (r_mem t) = mem_rs (r_mem s)"
proof (cases "table_lookup (mo_frames (r_objects s ob)) off")
  case (Some y)
  then show ?thesis using c by (auto simp: page_cap_def object_frame_def the_object_def bnd_def op_run split: prod.splits)
next
  case None
  obtain g fs where g: "L FreeList = g # fs" "c = fr_cap (ft_heap (mem_ft (r_mem s)) g)" using c None by (auto simp: page_cap_def)
  obtain T where T: "alloc_frame K (r_mem s) = (Ok (Some g), (r_mem s)\<lparr>mem_ft := T\<rparr>)" "fr_cap (ft_heap T g) = c"
    "mem_inv W (L(FreeList := fs, AllocatedList := L AllocatedList @ [g])) ((r_mem s)\<lparr>mem_ft := T\<rparr>)"
    using alloc_frame_rest [OF I g(1), of K] g(2) by auto
  then have cap: "ft_capacity T < 2 ^ 32" "g < ft_capacity T" by (auto simp: mem_inv_def ft_rep_def lists_def)
  let ?s1 = "s\<lparr>r_mem := (r_mem s)\<lparr>mem_ft := T\<rparr>\<rparr>"
  have a: "in_mem (alloc_frame K) s = (Ok (Some g), ?s1)" using T(1) by (simp add: in_mem_rest)
  have f: "frame_cap g ?s1 = ((Ok c :: ('e, cptr) outcome), ?s1)"
    using cap T(2) by (simp add: frame_cap_def in_frames_def in_mem_rest in_ft_def on_part_def frame_from_ref_def the_frame_def bnd_def op_run)
  obtain tb where tb: "table_insert off (c, g) (mo_frames (r_objects s ob)) = (Ok (), tb)"
    using table_insert_spec [OF wf, of off "(c, g)"] None by auto
  have i: "insert_frame_at ob off (c, g) ?s1 = (Ok (), ?s1\<lparr>r_objects := (r_objects s)(ob := (r_objects s ob)\<lparr>mo_frames := tb\<rparr>)\<rparr>)"
    using tb by (simp add: insert_at_run)
  show ?thesis using None a f i cap
    by (simp add: object_frame_def the_object_def bnd_def op_run expect_run_Ok zero_frame_def in_frames_def in_mem_def in_ft_def
        on_part_def frame_data_def)
qed

lemma in_resources_run: "m (mem_rs (r_mem s)) = (r, u) \<Longrightarrow> in_resources m s = (r, s\<lparr>r_mem := (r_mem s)\<lparr>mem_rs := u\<rparr>\<rparr>)"
  by (simp add: in_resources_def in_mem_def in_rs_def on_part_def)

lemma copy_frame_cap_runs:
  assumes "mem_rs (r_mem s) = R" and slot: "cs_alloc_slot (rs_cs R) = (Ok slot, cs)"
    and copy: "k_cnode_copy K (cs_absolute cs slot) (cs_absolute cs c) rights_all (rs_kern R) = (None, k)"
  shows "copy_frame_cap K c s = ((Ok slot :: ('e, cptr) outcome), s\<lparr>r_mem := (r_mem s)\<lparr>mem_rs := R\<lparr>rs_cs := cs, rs_kern := k\<rparr>\<rparr>\<rparr>)"
proof -
  have a: "in_cs cs_alloc_slot R = (Ok slot, R\<lparr>rs_cs := cs\<rparr>)" using slot by (simp add: in_cs_def on_part_def)
  let ?s1 = "s\<lparr>r_mem := (r_mem s)\<lparr>mem_rs := R\<lparr>rs_cs := cs\<rparr>\<rparr>\<rparr>"
  have "rs_copy K slot c rights_all (R\<lparr>rs_cs := cs\<rparr>) = (Ok (), R\<lparr>rs_cs := cs, rs_kern := k\<rparr>)"
    using copy by (simp add: rs_copy_def kern_call_def in_kern_def on_part_def)
  then have "in_resources (rs_copy K slot c rights_all) ?s1 =
      (Ok (), ?s1\<lparr>r_mem := (r_mem s)\<lparr>mem_rs := R\<lparr>rs_cs := cs, rs_kern := k\<rparr>\<rparr>\<rparr>)"
    using in_resources_run [of "rs_copy K slot c rights_all" ?s1] by simp
  then show ?thesis using in_resources_run [where s = s and m = "in_cs cs_alloc_slot"] a assms(1)
    by (auto simp: copy_frame_cap_def bnd_def op_run expect_run_Ok)
qed

lemma fill_view_runs:
  assumes wf: "wf_table 3 (mo_frames (r_objects s ob))" "wf_table 3 (v_caps (r_views s v))"
    and off: "v_win_offset (r_views s v) \<le> off" "v_obj_offset (r_views s v) + (off - v_win_offset (r_views s v)) < usize_lim"
    and mem: "mem_inv W L (r_mem s)"
      "page_cap s L ob (v_obj_offset (r_views s v) + (off - v_win_offset (r_views s v))) c"
    and R: "mem_rs (r_mem s) = R" and slot: "cs_alloc_slot (rs_cs R) = (Ok slot, cs)"
    and copy: "k_cnode_copy K (cs_absolute cs slot) (cs_absolute cs c) rights_all (rs_kern R) = (None, k)"
    and new: "table_lookup (v_caps (r_views s v)) off = None"
  shows "\<exists>t. fill_view K v ob off s = ((Ok () :: ('e, unit) outcome), t) \<and> mem_rs (r_mem t) = R\<lparr>rs_cs := cs, rs_kern := k\<rparr> \<and>
    table_lookup (v_caps (r_views t v)) off = Some slot"
proof -
  let ?o = "v_obj_offset (r_views s v) + (off - v_win_offset (r_views s v))"
  obtain u where u: "object_frame K ob ?o s = ((Ok c :: ('e, cptr) outcome), u)" "mem_rs (r_mem u) = R"
    using object_frame_runs [OF wf(1) mem] R by blast
  have views: "r_views u = r_views s" using object_frame_spec [OF wf(1) u(1)] by blast
  have c: "copy_frame_cap K c u = ((Ok slot :: ('e, cptr) outcome), u\<lparr>r_mem := (r_mem u)\<lparr>mem_rs := R\<lparr>rs_cs := cs, rs_kern := k\<rparr>\<rparr>\<rparr>)"
    by (rule copy_frame_cap_runs [OF u(2) slot copy])
  obtain tb where tb: "table_insert off slot (v_caps (r_views s v)) = (Ok (), tb)"
    using table_insert_spec [OF wf(2), of off slot] new by auto
  let ?u = "u\<lparr>r_mem := (r_mem u)\<lparr>mem_rs := R\<lparr>rs_cs := cs, rs_kern := k\<rparr>\<rparr>\<rparr>"
  have "insert_cap_at v off slot ?u = (Ok (), ?u\<lparr>r_views := (r_views s)(v := (r_views s v)\<lparr>v_caps := tb\<rparr>)\<rparr>)"
    using tb by (simp add: insert_at_run views)
  then have "fill_view K v ob off s = ((Ok () :: ('e, unit) outcome), ?u\<lparr>r_views := (r_views s)(v := (r_views s v)\<lparr>v_caps := tb\<rparr>)\<rparr>)"
    using u(1) c off
    by (simp add: fill_view_def the_view_def bnd_def op_run sub_us_def add_us_def expect_run_Ok)
  then show ?thesis using table_insert_lookup(3) [OF wf(2) tb, of off] by simp
qed

lemma map_view_page_runs:
  assumes c: "table_lookup (v_caps (r_views s v)) off = Some c" and p: "r_cells s me = ActiveProcess p"
    and m: "map_frame (e_sel4 E) c (fst (p_vspace p)) (ROUND_DOWN addr seL4_PageBits) rights VM_DEFAULT None (mem_rs (r_mem s)) = (Ok n, R)"
  shows "map_view_page E me v off addr rights s =
    ((Ok (Some (VMFaultReply True)) :: ('e, FaultReply option) outcome), s\<lparr>r_mem := (r_mem s)\<lparr>mem_rs := R\<rparr>\<rparr>)"
  using in_resources_run [of "map_frame (e_sel4 E) c (fst (p_vspace p)) (ROUND_DOWN addr seL4_PageBits) rights VM_DEFAULT None" s] m c p
  by (simp add: map_view_page_def view_cap_def the_view_def bnd_def op_run get_proc_run expect_run_Ok)

lemma vm_fault_runs:
  assumes typed: "typed G s" and k: "G v = Some (KView w (Some ob) sv)"
    and fault: "faults_in s me addr v off" and p: "r_cells s me = ActiveProcess p"
    and new: "table_lookup (v_caps (r_views s v)) off = None"
    and off: "v_win_offset (r_views s v) \<le> off" "v_obj_offset (r_views s v) + (off - v_win_offset (r_views s v)) < usize_lim"
    and mem: "mem_inv W L (r_mem s)"
      "page_cap s L ob (v_obj_offset (r_views s v) + (off - v_win_offset (r_views s v))) c"
    and R: "mem_rs (r_mem s) = R" and slot: "cs_alloc_slot (rs_cs R) = (Ok slot, cs)"
    and copy: "k_cnode_copy (e_sel4 E) (cs_absolute cs slot) (cs_absolute cs c) rights_all (rs_kern R) = (None, kern)"
    and map_it: "map_frame (e_sel4 E) slot (fst (p_vspace p)) (ROUND_DOWN addr seL4_PageBits) (v_rights (r_views s v)) VM_DEFAULT None
      (R\<lparr>rs_cs := cs, rs_kern := kern\<rparr>) = (Ok n, R')"
  shows "\<exists>t. handle_vm_fault E me reply addr s = (Ok (Some (VMFaultReply True)) :: (sel4_error, FaultReply option) outcome, t) \<and>
    mem_rs (r_mem t) = R'"
proof -
  have v: "v_object (r_views s v) = Some ob" "wf_table 3 (v_caps (r_views s v))" "G ob = Some KObject"
    using typed_kind [OF typed k map_le_refl] by (simp_all add: view_typed_def)
  then have ob: "wf_table 3 (mo_frames (r_objects s ob))"
    using typed_kind [OF typed _ map_le_refl, of ob] by (auto simp: object_typed_def)
  obtain u where u: "fill_view (e_sel4 E) v ob off s = (Ok () :: (sel4_error, unit) outcome, u)"
      "mem_rs (r_mem u) = R\<lparr>rs_cs := cs, rs_kern := kern\<rparr>" "table_lookup (v_caps (r_views u v)) off = Some slot"
    using fill_view_runs [OF ob v(2) off mem R slot copy new] by blast
  have "only_tables s u ob v" using fill_view_spec [OF ob v(2) u(1)] by blast
  then have "r_cells u me = ActiveProcess p" using p by (simp add: only_tables_def beside_tables_def)
  then have "map_view_page E me v off addr (v_rights (r_views s v)) u = (Ok (Some (VMFaultReply True)) :: (sel4_error, FaultReply option) outcome,
      u\<lparr>r_mem := (r_mem u)\<lparr>mem_rs := R'\<rparr>\<rparr>)"
    using map_view_page_runs [OF u(3)] map_it u(2) by simp
  then show ?thesis
    using vm_fault_cases [OF fault, of E reply] new v(1) u(1) by (simp add: seq_def bnd_def)
qed

section \<open>The small world\<close>

lemma mapped_faults: "0x10000 \<le> a \<Longrightarrow> a < 0x14000 \<Longrightarrow> faults_in mapped_root 0 a 2 (a - 0x10000)"
  by (simp add: faults_in_def mapped_root_def find_window_containing_def get_proc_def bnd_def op_run mapped_proc_def
      small_proc_def contains_addr_def add_us_def)

lemma mapped_memory: "r_mem mapped_root = quad_memory"
  by (simp add: root_defs)

lemma quad_memory_inv: "mem_inv Map.empty quad_lists quad_memory"
proof -
  have "rinv Map.empty (mem_rs quad_memory)" by (simp add: quad_memory_def small_resources_def small_ut_inv)
  then show ?thesis using quad_ft_ok by (simp add: ft_ok_def mem_inv_def)
qed

lemma mapped_memory_inv: "mem_inv Map.empty quad_lists (r_mem mapped_root)"
  by (simp add: mapped_memory quad_memory_inv)

lemma mapped_slot: "cs_alloc_slot (rs_cs (mem_rs (r_mem mapped_root))) = (Ok 10, cs_taken (Suc 10))"
  using cs_taken_alloc [of 10] by (simp add: mapped_memory quad_memory_def small_resources_def)

lemma counting_map_frame:
  "map_frame counting_kernel c vs a rights attr None R = (Ok 0, R\<lparr>rs_kern := Suc (rs_kern R)\<rparr>)"
  by (simp add: map_frame_def kern_call_def in_kern_def on_part_def bnd_def attempt_def Let_def map_frame_loop.simps ret_def
      counting_kernel_def)

lemma mapped_page_cap: "page_cap mapped_root quad_lists 3 off 102"
  by (simp add: page_cap_def mapped_root_def boot_root_def small_root_def object_new_def quad_memory_def
      frame_table_init_def)

lemma mapped_fault_runs:
  assumes "0x10000 \<le> a" and "a < 0x14000"
  shows "\<exists>t. handle_vm_fault small_env 0 reply a mapped_root =
    (Ok (Some (VMFaultReply True)) :: (sel4_error, FaultReply option) outcome, t)"
proof -
  have k: "mapped_typing 2 = Some (KView 1 (Some 3) None)" by (simp add: mapped_typing_def)
  have p: "r_cells mapped_root 0 = ActiveProcess mapped_proc" by (simp add: mapped_root_def)
  have v: "r_views mapped_root 2 = view_new 1 (Some 3) None rights_all 0 0" by (simp add: mapped_root_def)
  let ?R = "mem_rs (r_mem mapped_root)"
  have copy: "k_cnode_copy (e_sel4 small_env) d c rights_all (rs_kern ?R) = (None, 1)" for d c
    by (simp add: counting_kernel_def mapped_memory quad_memory_def small_resources_def)
  have a: "a - 0x10000 < usize_lim" using assms by simp
  show ?thesis
    using vm_fault_runs [OF mapped_root_typed k mapped_faults [OF assms] p _ _ _ mapped_memory_inv mapped_page_cap refl mapped_slot copy,
        where reply = reply and n = 0 and R' = "?R\<lparr>rs_cs := cs_taken (Suc 10), rs_kern := 2\<rparr>"] a
    by (auto simp: v view_new_def counting_map_frame)
qed

section \<open>Properties\<close>

text \<open>C31: A page fault in a view of an object, on a page the view does not have yet.  If it is
  answered, the faulting thread is resumed; the view has one new page, the copy the kernel made of
  the capability of the object's page for it, and the last the kernel did is to map that copy in the
  faulting process's address space, at the page of the faulting address with the view's rights; the
  object's page is the one it had, with its contents, or else a new one made of zeros in a frame that
  was not allocated to anybody; and no other page of either, no other view or object, window, handle,
  connection or process changes.\<close>

theorem page_fault_resolved:
  assumes typed: "typed G s" and k: "G v = Some (KView w (Some ob) sv)" and fault: "faults_in s me addr v off"
    and new: "table_lookup (v_caps (r_views s v)) off = None"
    and run: "handle_vm_fault E me reply addr s = (Ok r :: (sel4_error, FaultReply option) outcome, t)"
  shows "r = Some (VMFaultReply True) \<and> only_tables s t ob v \<and>
    (\<exists>x slot p kern. object_page s t ob (v_obj_offset (r_views s v) + (off - v_win_offset (r_views s v))) x \<and>
       view_page s t v off slot \<and> copied (e_sel4 E) slot (fst x) rights_all \<and> r_cells s me = ActiveProcess p \<and>
       k_frame_map (e_sel4 E) slot (fst (p_vspace p)) (ROUND_DOWN addr seL4_PageBits) (v_rights (r_views s v)) VM_DEFAULT kern =
         (None, rs_kern (mem_rs (r_mem t))))"
proof -
  have v: "v_object (r_views s v) = Some ob" "wf_table 3 (v_caps (r_views s v))" "G ob = Some KObject"
    using typed_kind [OF typed k map_le_refl] by (simp_all add: view_typed_def)
  then have ob: "wf_table 3 (mo_frames (r_objects s ob))"
    using typed_kind [OF typed _ map_le_refl, of ob] by (auto simp: object_typed_def)
  have "seq (fill_view (e_sel4 E) v ob off) (map_view_page E me v off addr (v_rights (r_views s v))) s =
      (Ok r :: (sel4_error, FaultReply option) outcome, t)"
    using run vm_fault_cases [OF fault, of E reply] new v(1) by simp
  then obtain u where u: "fill_view (e_sel4 E) v ob off s = (Ok () :: (sel4_error, unit) outcome, u)"
    and m: "map_view_page E me v off addr (v_rights (r_views s v)) u = (Ok r :: (sel4_error, FaultReply option) outcome, t)"
    by (auto simp: seq_def bnd_eq_Ok)
  let ?o = "v_obj_offset (r_views s v) + (off - v_win_offset (r_views s v))"
  obtain cap f slot where f: "object_page s u ob ?o (cap, f)" "view_page s u v off slot" "only_tables s u ob v"
    "table_lookup (v_caps (r_views u v)) off = Some slot" "copied (e_sel4 E) slot cap rights_all"
    using fill_view_spec [OF ob v(2) u] by blast
  obtain p kern where p: "r_cells u me = ActiveProcess p" "k_frame_map (e_sel4 E) slot (fst (p_vspace p))
      (ROUND_DOWN addr seL4_PageBits) (v_rights (r_views s v)) VM_DEFAULT kern = (None, rs_kern (mem_rs (r_mem t)))"
    using map_view_page_maps [OF m f(4)] by blast
  obtain m' where t: "t = u\<lparr>r_mem := m'\<rparr>" using map_view_page_run(2) [OF m] by blast
  have "object_page s t ob ?o (cap, f)" using f(1) by (simp add: object_page_def t split: option.splits)
  moreover have "view_page s t v off slot" using f(2) by (simp add: view_page_def t)
  moreover have "only_tables s t ob v" using f(3) by (simp add: only_tables_def beside_tables_def t)
  moreover have "r_cells s me = ActiveProcess p" using f(3) p(1) by (simp add: only_tables_def beside_tables_def)
  ultimately show ?thesis using map_view_page_run(1) [OF m] f(5) p(2) fst_conv [of cap f] by metis
qed

text \<open>C32: A page fault in a view of an object, on a page the view does not have yet, is answered and the
  thread resumed.  The conditions are: the object has a page there or the free list has a frame; the
  root server has a free slot; the kernel copies the page's capability into that slot, and \<open>map_frame\<close>
  (which may have to add page tables) maps the copy after that; the fault is not before the view's part
  of its window, and its offset in the object does not overflow.  The CSpace, the untyped memory and the
  kernel are then as \<open>map_frame\<close> leaves them.\<close>

theorem page_fault_served:
  assumes "typed G s" and "G v = Some (KView w (Some ob) sv)"
    and "faults_in s me addr v off" and "r_cells s me = ActiveProcess p"
    and "table_lookup (v_caps (r_views s v)) off = None"
    and "v_win_offset (r_views s v) \<le> off" "v_obj_offset (r_views s v) + (off - v_win_offset (r_views s v)) < usize_lim"
    and "mem_inv W L (r_mem s)"
      "page_cap s L ob (v_obj_offset (r_views s v) + (off - v_win_offset (r_views s v))) c"
    and "mem_rs (r_mem s) = R" and "cs_alloc_slot (rs_cs R) = (Ok slot, cs)"
    and "k_cnode_copy (e_sel4 E) (cs_absolute cs slot) (cs_absolute cs c) rights_all (rs_kern R) = (None, kern)"
    and "map_frame (e_sel4 E) slot (fst (p_vspace p)) (ROUND_DOWN addr seL4_PageBits) (v_rights (r_views s v)) VM_DEFAULT None
      (R\<lparr>rs_cs := cs, rs_kern := kern\<rparr>) = (Ok n, R')"
  shows "\<exists>t. handle_vm_fault E me reply addr s = (Ok (Some (VMFaultReply True)) :: (sel4_error, FaultReply option) outcome, t) \<and>
    mem_rs (r_mem t) = R'"
  using assms by (rule vm_fault_runs)

lemma vm_fault_otherwise:
  shows "find_window_containing me addr s = (Ok None :: (sel4_error, nat option) outcome, s) \<or>
      (\<exists>w. find_window_containing me addr s = (Ok (Some w) :: (sel4_error, nat option) outcome, s) \<and> w_view (r_windows s w) = None)
      \<longrightarrow> handle_vm_fault E me reply addr s = (Ok (Some (VMFaultReply False)) :: (sel4_error, FaultReply option) outcome, s)"
    and "faults_in s me addr v off \<and> table_lookup (v_caps (r_views s v)) off = None \<and> v_object (r_views s v) = None \<and>
      handle_vm_fault E me reply addr s = (Ok r :: (sel4_error, FaultReply option) outcome, t) \<longrightarrow>
      r = None \<and> (\<exists>p m. r_cells s me = ActiveProcess p \<and>
        t = s\<lparr>r_mem := m, r_views := (r_views s)(v := (r_views s v)\<lparr>v_fault := Some (reply, addr, fst (p_vspace p))\<rparr>)\<rparr>)"
proof -
  show "find_window_containing me addr s = (Ok None :: (sel4_error, nat option) outcome, s) \<or>
      (\<exists>w. find_window_containing me addr s = (Ok (Some w) :: (sel4_error, nat option) outcome, s) \<and> w_view (r_windows s w) = None)
      \<longrightarrow> handle_vm_fault E me reply addr s = (Ok (Some (VMFaultReply False)) :: (sel4_error, FaultReply option) outcome, s)"
    by (auto simp: handle_vm_fault_def bnd_def op_run the_window_def)
next
  show "faults_in s me addr v off \<and> table_lookup (v_caps (r_views s v)) off = None \<and> v_object (r_views s v) = None \<and>
      handle_vm_fault E me reply addr s = (Ok r :: (sel4_error, FaultReply option) outcome, t) \<longrightarrow>
      r = None \<and> (\<exists>p m. r_cells s me = ActiveProcess p \<and>
        t = s\<lparr>r_mem := m, r_views := (r_views s)(v := (r_views s v)\<lparr>v_fault := Some (reply, addr, fst (p_vspace p))\<rparr>)\<rparr>)"
  proof (intro impI, elim conjE)
    assume "faults_in s me addr v off" "table_lookup (v_caps (r_views s v)) off = None" "v_object (r_views s v) = None"
      and "handle_vm_fault E me reply addr s = (Ok r :: (sel4_error, FaultReply option) outcome, t)"
    then have "r = None" "forward_vm_fault E me v (ROUND_DOWN off seL4_PageBits) reply addr s =
        (Ok () :: (sel4_error, unit) outcome, t)"
      by (auto simp: vm_fault_cases seq_def bnd_eq_Ok op_run)
    then show "r = None \<and> (\<exists>p m. r_cells s me = ActiveProcess p \<and>
        t = s\<lparr>r_mem := m, r_views := (r_views s)(v := (r_views s v)\<lparr>v_fault := Some (reply, addr, fst (p_vspace p))\<rparr>)\<rparr>)"
      using forward_run by blast
  qed
qed

text \<open>A page fault that is not answered with a page.  Outside every window, and in a window
  without a view, the thread is not resumed and nothing changes.  In a window that a server has
  registered, on a page the server has not mapped yet, the thread is left waiting, and besides the
  message to the server only the fault is written down in the view.\<close>

lemma page_fault_not_resolved:
  "(find_window_containing me addr s = (Ok None :: (sel4_error, nat option) outcome, s) \<or>
     (\<exists>w. find_window_containing me addr s = (Ok (Some w) :: (sel4_error, nat option) outcome, s) \<and> w_view (r_windows s w) = None)
    \<longrightarrow> handle_vm_fault E me reply addr s = (Ok (Some (VMFaultReply False)) :: (sel4_error, FaultReply option) outcome, s)) \<and>
   (faults_in s me addr v off \<and> table_lookup (v_caps (r_views s v)) off = None \<and> v_object (r_views s v) = None \<and>
    handle_vm_fault E me reply addr s = (Ok r :: (sel4_error, FaultReply option) outcome, t) \<longrightarrow>
    r = None \<and> (\<exists>p m. r_cells s me = ActiveProcess p \<and>
      t = s\<lparr>r_mem := m, r_views := (r_views s)(v := (r_views s v)\<lparr>v_fault := Some (reply, addr, fst (p_vspace p))\<rparr>)\<rparr>))"
  by (intro conjI vm_fault_otherwise)

theorem page_fault_resolved_witness:
  "\<exists>t x slot. handle_vm_fault small_env 0 (8, 0) 0x11234 mapped_root =
       (Ok (Some (VMFaultReply True)) :: (sel4_error, FaultReply option) outcome, t) \<and>
     object_page mapped_root t 3 0x1234 x \<and> view_page mapped_root t 2 0x1234 slot"
proof -
  obtain t where t: "handle_vm_fault small_env 0 (8, 0) 0x11234 mapped_root =
      (Ok (Some (VMFaultReply True)) :: (sel4_error, FaultReply option) outcome, t)"
    using mapped_fault_runs [of "0x11234" "(8, 0)"] by auto
  have k: "mapped_typing 2 = Some (KView 1 (Some 3) None)" by (simp add: mapped_typing_def)
  have f: "faults_in mapped_root 0 0x11234 2 0x1234" using mapped_faults [of "0x11234"] by simp
  have v: "table_lookup (v_caps (r_views mapped_root 2)) 0x1234 = None" "v_obj_offset (r_views mapped_root 2) = 0"
    "v_win_offset (r_views mapped_root 2) = 0"
    by (simp_all add: mapped_root_def view_new_def)
  show ?thesis using page_fault_resolved [OF mapped_root_typed k f v(1) t] t v by auto
qed

theorem page_fault_served_witness:
  "\<exists>t. handle_vm_fault small_env 0 (8, 0) 0x13fff mapped_root =
       (Ok (Some (VMFaultReply True)) :: (sel4_error, FaultReply option) outcome, t) \<and>
     rs_kern (mem_rs (r_mem t)) = 2"
proof -
  have k: "mapped_typing 2 = Some (KView 1 (Some 3) None)" by (simp add: mapped_typing_def)
  have p: "r_cells mapped_root 0 = ActiveProcess mapped_proc" by (simp add: mapped_root_def)
  have v: "r_views mapped_root 2 = view_new 1 (Some 3) None rights_all 0 0" by (simp add: mapped_root_def)
  let ?R = "mem_rs (r_mem mapped_root)"
  have copy: "k_cnode_copy (e_sel4 small_env) d c rights_all (rs_kern ?R) = (None, 1)" for d c
    by (simp add: counting_kernel_def mapped_memory quad_memory_def small_resources_def)
  show ?thesis
    using page_fault_served [OF mapped_root_typed k mapped_faults p _ _ _ mapped_memory_inv mapped_page_cap refl mapped_slot copy,
        where addr = "0x13fff" and reply = "(8, 0)" and n = 0 and R' = "?R\<lparr>rs_cs := cs_taken (Suc 10), rs_kern := 2\<rparr>"]
    by (auto simp: v view_new_def counting_map_frame)
qed

lemma page_fault_not_resolved_witness:
  "handle_vm_fault small_env 0 (8, 0) 0x20000 mapped_root =
     (Ok (Some (VMFaultReply False)) :: (sel4_error, FaultReply option) outcome, mapped_root)"
  by (rule page_fault_not_resolved [THEN conjunct1, rule_format], rule disjI1)
    (simp add: mapped_root_def find_window_containing_def get_proc_def bnd_def op_run mapped_proc_def small_proc_def
      contains_addr_def add_us_def)

end
