(* ===== verification/Window_Facts.thy ===== *)
theory Window_Facts
  imports VM_Facts
begin

text \<open>
  Windows and views: which windows \<open>handle_window_create\<close> refuses, what a \<open>view\<close> followed by an
  \<open>unview\<close> leaves, and what the destruction of a window does to the view in it
  (\<open>crates/root_server/src/window.rs\<close>, \<open>view.rs\<close>, \<open>proc.rs\<close>).
\<close>

section \<open>The overlap check\<close>

definition in_range :: "nat \<Rightarrow> nat \<Rightarrow> nat \<Rightarrow> bool" where
  "in_range a start sz \<longleftrightarrow> start \<le> a \<and> a < start + sz"

text \<open>The new range has an address in common with the window and does not reach from before its start
  to its end or beyond.\<close>

definition caught :: "nat \<Rightarrow> nat \<Rightarrow> window \<Rightarrow> bool" where
  "caught start sz w \<longleftrightarrow>
     (\<exists>a. in_range a start sz \<and> in_range a (w_start w) (w_size w)) \<and>
     \<not> (start < w_start w \<and> w_start w + w_size w \<le> start + sz)"

lemma overlaps_caught:
  assumes "w_start w + w_size w < usize_lim" and "start + sz < usize_lim" and "0 < sz"
  shows "overlaps start sz w = Ok (caught start sz w)"
proof -
  have "(\<exists>a. in_range a start sz \<and> in_range a (w_start w) (w_size w)) \<longleftrightarrow>
      start < w_start w + w_size w \<and> w_start w < start + sz \<and> 0 < w_size w"
    using assms(3) by (auto simp: in_range_def intro: exI [of _ "max start (w_start w)"])
  moreover have "overlaps start sz w = Ok ((w_start w \<le> start \<and> start < w_start w + w_size w) \<or>
      (w_start w < start + sz \<and> start + sz < w_start w + w_size w))"
    using assms by (simp add: overlaps_def add_us_def)
  ultimately show ?thesis using assms(3) by (auto simp: caught_def)
qed

lemma first_window_find:
  assumes "\<And>w. w \<in> set ws \<Longrightarrow> test (store w) = Ok (P w)"
  shows "first_window test store ws = Ok (List.find P ws)"
  using assms by (induction ws) auto

lemma overlapping_window_run:
  assumes "r_cells s me = ActiveProcess p" and "0 < sz" and "start + sz < usize_lim"
    and "\<And>w. w \<in> set (p_windows p) \<Longrightarrow> w_start (r_windows s w) + w_size (r_windows s w) < usize_lim"
  shows "overlapping_window me start sz s = (Ok (List.find (\<lambda>w. caught start sz (r_windows s w)) (p_windows p)), s)"
proof -
  have "first_window (overlaps start sz) (r_windows s) (p_windows p) =
      (Ok (List.find (\<lambda>w. caught start sz (r_windows s w)) (p_windows p)) :: ('b, nat option) outcome)"
    by (rule first_window_find, rule overlaps_caught) (use assms in simp_all)
  then show ?thesis using assms(1) by (simp add: overlapping_window_def bnd_def op_run get_proc_run)
qed

section \<open>Removing a view\<close>

lemma unlink_view_run:
  "unlink_view v s = ((Ok () :: ('e, unit) outcome), t) \<longleftrightarrow>
     (\<exists>ob i. v_object (r_views s v) = Some ob \<and> position v (mo_views (r_objects s ob)) = Some i \<and>
        t = s\<lparr>r_objects := (r_objects s)(ob := (r_objects s ob)\<lparr>mo_views := swap_remove i (mo_views (r_objects s ob))\<rparr>)\<rparr>)"
  by (auto simp: unlink_view_def the_view_def the_object_def upd_object_def bnd_eq_Ok op_run)

lemma table_leaves_empty: "table_leaves empty_table = []"
  by (simp add: table_leaves.simps empty_table_def)

lemma cleanup_empty:
  "v_caps (r_views s v) = empty_table \<Longrightarrow> cleanup_cap_table K v d s = (Ok (), s)"
  by (simp add: cleanup_cap_table_def the_view_def bnd_def op_run cleanup_table_leaves table_leaves_empty
      in_resources_def in_mem_def in_rs_def on_part_def)

lemma cleanup_run:
  assumes "cleanup_cap_table K v d s = (r, t)"
  shows "\<exists>m. t = s\<lparr>r_mem := m\<rparr>"
  using assms by (auto simp: cleanup_cap_table_def the_view_def bnd_def op_run in_resources_def in_mem_rest)

text \<open>A view that is in no object's list cannot be removed.\<close>

lemma unview_unlinked:
  assumes "v_object (r_views s v) = Some ob" and "v \<notin> set (mo_views (r_objects s ob))"
  shows "fst (handle_unview_internal E v s) = (Panic :: ('e, unit) outcome)"
proof -
  have "handle_unview_internal E v s \<noteq> (Ok () :: ('e, unit) outcome, t)" for t
  proof
    assume "handle_unview_internal E v s = ((Ok () :: ('e, unit) outcome), t)"
    then obtain s1 s2 where c: "cleanup_cap_table (e_sel4 E) v True s = (Ok () :: ('e, unit) outcome, s1)"
      and u: "upd_window (v_window (r_views s1 v)) (w_view_update (\<lambda>_. None)) s1 = (Ok () :: ('e, unit) outcome, s2)"
      and l: "unlink_view v s2 = (Ok () :: ('e, unit) outcome, t)"
      by (auto simp: handle_unview_internal_def the_view_def bnd_eq_Ok op_run)
    obtain m where "s1 = s\<lparr>r_mem := m\<rparr>" using cleanup_run [OF c] by blast
    then have "v_object (r_views s2 v) = Some ob" "mo_views (r_objects s2 ob) = mo_views (r_objects s ob)"
      using u assms(1) by (auto simp: upd_window_def op_run)
    then show False using l assms(2) by (auto simp: unlink_view_run dest: position_Some)
  qed
  moreover have "fst (handle_unview_internal E v s) \<noteq> (Err e :: ('e, unit) outcome)" for e
  proof -
    have "never_fails (handle_unview_internal E v :: ('a root, 'e, unit) op)"
      unfolding handle_unview_internal_def unlink_view_def by (intro nofail_intro)
    then show ?thesis unfolding never_fails_def by blast
  qed
  ultimately show ?thesis by (cases "handle_unview_internal E v s :: ('e, unit) outcome \<times> _") (metis fst_conv old.unit.exhaust outcome.exhaust)
qed

section \<open>A view and its removal\<close>

lemma find_generic_run:
  assumes "find_generic me h which s = (Ok r, t)"
  shows "t = s" "\<exists>p. r_cells s me = ActiveProcess p"
  using assms by (auto simp: find_generic_def handle_tables_def bnd_eq_Ok op_run get_proc_eq_Ok)

lemma put_ref_run:
  assumes "r_cells s me = ActiveProcess p"
  shows "put_ref me (Local idx) r s =
    (Ok (), s\<lparr>r_cells := (r_cells s)(me := ActiveProcess (p\<lparr>p_handles := (p_handles p)[idx := Some r]\<rparr>))\<rparr>)"
  using assms
  by (simp add: put_ref_def handle_tables_def put_tables_def upd_proc_def set_cell_def bnd_def op_run
      get_proc_run put_handle_def)

lemma window_of_resource:
  assumes "(case r of R_Window w \<Rightarrow> ret w | _ \<Rightarrow> bnd (lift e) fail) s = (Ok x, t)"
  shows "t = s" "r = R_Window x"
  using assms by (cases r; auto simp: op_run bnd_eq_Ok)+

lemma object_of_resource:
  assumes "(case r of R_Object w \<Rightarrow> ret w | _ \<Rightarrow> bnd (lift e) fail) s = (Ok x, t)"
  shows "t = s" "r = R_Object x"
  using assms by (cases r; auto simp: op_run bnd_eq_Ok)+

lemma new_local_keeps: "new_local me s = (Ok i, t) \<Longrightarrow> t = s"
  by (auto simp: new_local_def bnd_eq_Ok op_run get_proc_eq_Ok)

text \<open>The state after a \<open>view\<close> of an object in a window, with handle \<open>idx\<close>.\<close>

definition viewed :: "'k root \<Rightarrow> nat \<Rightarrow> user_process \<Rightarrow> view_info \<Rightarrow> nat \<Rightarrow> nat \<Rightarrow> 'k root" where
  "viewed s me p x ob idx =
     (let v = r_next s in
      s\<lparr>r_next := Suc v, r_views := (r_views s)(v := x),
        r_windows := (r_windows s)(v_window x := (r_windows s (v_window x))\<lparr>w_view := Some v\<rparr>),
        r_objects := (r_objects s)(ob := (r_objects s ob)\<lparr>mo_views := mo_views (r_objects s ob) @ [v]\<rparr>),
        r_cells := (r_cells s)(me := ActiveProcess (p\<lparr>p_handles := (p_handles p)[idx := Some (R_View v)],
          p_views := p_views p @ [v]\<rparr>))\<rparr>)"

lemma handle_view_run:
  assumes "handle_view me args s = (Ok (Re_View h), t)"
  shows "\<exists>win ob p idx rights wo oo. w_view (r_windows s win) = None \<and> r_cells s me = ActiveProcess p \<and>
    find_generic me (vw_object args) ViewArgs_Object s = (Ok (R_Object ob), s) \<and>
    allocate_handle (p_handles p) = Ok idx \<and> h = of_nat idx \<and>
    t = viewed s me p (view_new win (Some ob) None rights wo oo) ob idx"
proof -
  obtain r1 win r2 ob v sa sb sc sd s1 s2 s3 idx sl s4 where f1: "find_generic me (vw_window args) ViewArgs_Window s = (Ok r1, sa)"
    and w1: "(case r1 of R_Window w \<Rightarrow> ret w
      | _ \<Rightarrow> bnd (lift (generic_invalid_handle_error (vw_window args) ViewArgs_Window)) fail) sa = (Ok win, sb)"
    and f2: "find_generic me (vw_object args) ViewArgs_Object sb = (Ok r2, sc)"
    and o2: "(case r2 of R_Object ob \<Rightarrow> ret ob
      | _ \<Rightarrow> bnd (lift (generic_invalid_handle_error (vw_object args) ViewArgs_Object)) fail) sc = (Ok ob, sd)"
    and w: "w_view (r_windows sd win) = None"
    and n: "new_view (view_new win (Some ob) None (rights_of_word (vw_rights args)) (unat (vw_window_offset args))
          (unat (vw_obj_offset args))) sd = ((Ok v :: (InvocationError, nat) outcome), s1)"
    and uw: "upd_window win (w_view_update (\<lambda>_. Some v)) s1 = ((Ok () :: (InvocationError, unit) outcome), s2)"
    and uo: "upd_object ob (\<lambda>y. y\<lparr>mo_views := mo_views y @ [v]\<rparr>) s2 = ((Ok () :: (InvocationError, unit) outcome), s3)"
    and l: "new_local me s3 = ((Ok idx :: (InvocationError, nat) outcome), sl)"
    and pr: "put_ref me (Local idx) (R_View v) sl = ((Ok () :: (InvocationError, unit) outcome), s4)"
    and up: "upd_proc me (\<lambda>p. p\<lparr>p_views := p_views p @ [v]\<rparr>) s4 = ((Ok () :: (InvocationError, unit) outcome), t)"
    and h: "of_nat idx = h"
    using assms
    apply (simp add: handle_view_def bnd_eq_Ok Let_def op_run the_object_def the_window_def)
    apply (elim exE conjE)
    subgoal by (rule that) (assumption | (simp split: if_splits; fail))+
    done
  have sd: "sb = s" "sc = s" "sd = s" "sl = s3"
    using find_generic_run(1) [OF f1] window_of_resource(1) [OF w1] find_generic_run(1) [OF f2] object_of_resource(1) [OF o2]
      new_local_keeps [OF l] by simp_all
  note n = n [unfolded sd] and w = w [unfolded sd] and l = l [unfolded sd] and pr = pr [unfolded sd]
  obtain p where p: "r_cells s me = ActiveProcess p" using find_generic_run(2) [OF f1] by blast
  let ?x = "view_new win (Some ob) None (rights_of_word (vw_rights args)) (unat (vw_window_offset args)) (unat (vw_obj_offset args))"
  let ?v = "r_next s"
  have s3: "v = ?v" "s3 = s\<lparr>r_next := Suc ?v, r_views := (r_views s)(?v := ?x),
      r_windows := (r_windows s)(win := (r_windows s win)\<lparr>w_view := Some ?v\<rparr>),
      r_objects := (r_objects s)(ob := (r_objects s ob)\<lparr>mo_views := mo_views (r_objects s ob) @ [?v]\<rparr>)\<rparr>"
    using n uw uo by (auto simp: new_view_def fresh_id_def upd_view_def upd_window_def upd_object_def bnd_def op_run)
  have p3: "r_cells s3 me = ActiveProcess p" using p s3 by simp
  have i: "allocate_handle (p_handles p) = Ok idx" using l p3 by (auto simp: new_local_def bnd_def op_run get_proc_run)
  let ?p = "p\<lparr>p_handles := (p_handles p)[idx := Some (R_View v)]\<rparr>"
  have s4: "s4 = s3\<lparr>r_cells := (r_cells s3)(me := ActiveProcess ?p)\<rparr>"
    using pr put_ref_run [OF p3, where 'b = InvocationError, of idx "R_View v"] by simp
  have "r_cells s4 me = ActiveProcess ?p" by (simp add: s4)
  then have "t = s4\<lparr>r_cells := (r_cells s4)(me := ActiveProcess (?p\<lparr>p_views := p_views ?p @ [v]\<rparr>))\<rparr>"
    using up by (simp add: upd_proc_run)
  then have "t = viewed s me p ?x ob idx" by (simp add: viewed_def Let_def s4 s3 view_new_def)
  moreover have "r2 = R_Object ob" using object_of_resource(2) [OF o2] .
  ultimately show ?thesis using w p i h f2 sd by blast
qed

section \<open>Properties\<close>

lemma window_destroy_unlinks:
  assumes v: "w_view (r_windows s w) = Some v" and ob: "v_object (r_views s v) = Some ob"
    and d: "distinct (mo_views (r_objects s ob))"
    and run: "handle_window_destroy_internal E w True s = ((Ok () :: ('e, unit) outcome), t)"
  shows "r_views t = r_views s" "v \<notin> set (mo_views (r_objects t ob))"
proof -
  obtain s1 s2 where n: "(case v_server (r_views s v) of None \<Rightarrow> ret () | Some (server, client_id, reference) \<Rightarrow>
        notify_server E server (N_WindowDestroy \<lparr>wdn_client_id = client_id, wdn_reference = reference\<rparr>)) s =
        ((Ok () :: ('e, unit) outcome), s1)"
    and u: "unlink_view v s1 = ((Ok () :: ('e, unit) outcome), s2)"
    and c: "cleanup_cap_table (e_sel4 E) v True s2 = ((Ok () :: ('e, unit) outcome), t)"
    using run v by (auto simp: handle_window_destroy_internal_def the_window_def the_view_def seq_def bnd_eq_Ok op_run)
  obtain m1 where s1: "s1 = s\<lparr>r_mem := m1\<rparr>"
  proof (cases "v_server (r_views s v)")
    case None
    then show ?thesis using n that [of "r_mem s"] by (simp add: op_run)
  next
    case (Some x)
    then show ?thesis using n that by (auto split: prod.splits dest: notify_server_run)
  qed
  obtain m2 where t: "t = s2\<lparr>r_mem := m2\<rparr>" using cleanup_run [OF c] by blast
  show "r_views t = r_views s" using u s1 t by (auto simp: unlink_view_run)
  show "v \<notin> set (mo_views (r_objects t ob))" using u s1 t ob d by (auto simp: unlink_view_run dest: swap_remove_removes)
qed

text \<open>C35: Destroying a window with a view of an object in it (a view its object lists once) leaves
  the view's handle behind as a trap.  After a destruction that succeeds, as long as the views and objects stay as they are, unviewing that handle panics the
  root server, and so does dropping the handle's resource, which is what \<open>process_destroy\<close> does with
  every handle a process still holds.\<close>

theorem destroyed_window_traps_view:
  assumes "w_view (r_windows s w) = Some v" and "v_object (r_views s v) = Some ob"
    and "distinct (mo_views (r_objects s ob))"
    and "handle_window_destroy_internal E w True s = ((Ok () :: (InvocationError, unit) outcome), t)"
    and "r_views u = r_views t" and "r_objects u = r_objects t"
  shows "(find_local me (uv_hndl args) 0 u = (Ok (R_View v) :: (InvocationError, resource) outcome, u) \<longrightarrow>
       fst (handle_unview E me args u) = Panic) \<and>
     fst (drop_resource E (Some (R_View v)) u) = (Panic :: (sel4_error, unit) outcome)"
proof -
  have v: "v_object (r_views u v) = Some ob" "v \<notin> set (mo_views (r_objects u ob))"
    using window_destroy_unlinks [OF assms(1-4)] assms(2,5,6) by simp_all
  have "fst (handle_unview_internal E v u) = (Panic :: (InvocationError, unit) outcome)"
    "fst (handle_unview_internal E v u) = (Panic :: (sel4_error, unit) outcome)"
    using unview_unlinked [OF v, of E] by simp_all
  then show ?thesis
    by (auto simp: handle_unview_def drop_resource_def bnd_def split: prod.splits)
qed

theorem destroyed_window_traps_view_witness:
  "\<exists>t. handle_window_destroy_internal small_env 1 True mapped_root = (Ok () :: (InvocationError, unit) outcome, t) \<and>
     fst (handle_unview small_env 0 \<lparr>uv_hndl = 1\<rparr> t) = Panic"
proof -
  let ?v = "(r_objects mapped_root)(3 := (r_objects mapped_root 3)\<lparr>mo_views := []\<rparr>)"
  let ?t = "mapped_root\<lparr>r_objects := ?v\<rparr>"
  have win: "w_view (r_windows mapped_root 1) = Some 2" and v: "v_object (r_views mapped_root 2) = Some 3"
    "v_server (r_views mapped_root 2) = None" "v_caps (r_views mapped_root 2) = empty_table"
    and d: "mo_views (r_objects mapped_root 3) = [2]"
    by (simp_all add: mapped_root_def view_new_def object_new_def)
  have u: "unlink_view 2 mapped_root = (Ok () :: (InvocationError, unit) outcome, ?t)"
    using position_last [of 2 "[]"] swap_remove_last [of "[] :: nat list" 2] v(1) d by (simp add: unlink_view_run)
  have "cleanup_cap_table (e_sel4 small_env) 2 True ?t = (Ok () :: (InvocationError, unit) outcome, ?t)"
    by (rule cleanup_empty) (simp add: v(3))
  then have r: "handle_window_destroy_internal small_env 1 True mapped_root = (Ok () :: (InvocationError, unit) outcome, ?t)"
    using win v(2) u
    by (simp add: handle_window_destroy_internal_def the_window_def the_view_def seq_def bnd_def op_run)
  have c: "r_cells ?t 0 = ActiveProcess mapped_proc" by (simp add: mapped_root_def)
  have "get_handle (unat (1 :: u64)) (p_handles mapped_proc) = Ok (Some (R_View 2))"
    by (simp add: mapped_proc_def small_proc_def get_handle_def const_defs)
  then have "find_local 0 1 0 ?t = (Ok (R_View 2) :: (InvocationError, resource) outcome, ?t)"
    by (intro find_local_run [OF c]) simp
  then show ?thesis
    using destroyed_window_traps_view [OF win v(1) _ r, of ?t 0 "\<lparr>uv_hndl = 1\<rparr>"] d r by auto
qed

lemma fresh_view:
  assumes s: "typed G s" and me: "G me = Some KProc" and f: "find_generic me hndl which s = (Ok (R_Object ob), s)"
  shows "r_next s \<notin> set (mo_views (r_objects s ob))"
proof -
  let ?P = "\<lambda>G :: typing. G me = Some KProc" and ?Q = "\<lambda>r (G :: typing). res_typed G r"
  have "upw ?P G" using me by (auto simp: upw_def dest: typing_grows)
  then obtain H where "typed H s" "upw (?Q (R_Object ob)) H"
    using safeD(1) [where P = ?P and Q = ?Q, OF safe_find_generic s _ f] by blast
  then have H: "typed H s" "H ob = Some KObject" by (auto dest: upwD)
  then have "object_typed H ob (r_objects s ob)" by (auto simp: typed_def dest: spec [of _ ob])
  moreover have "H (r_next s) = None" using H(1) by (simp add: typed_def)
  ultimately show ?thesis by (auto simp: object_typed_def)
qed

lemma unview_viewed:
  assumes t_def: "t = viewed s me p x ob idx"
    and x: "v_caps x = empty_table" "v_object x = Some ob" "w_view (r_windows s (v_window x)) = None"
    and i: "idx < length (p_handles p)" "length (p_handles p) \<le> 256" "p_handles p ! idx = None"
    and o: "r_next s \<notin> set (mo_views (r_objects s ob))"
  shows "handle_unview E me \<lparr>uv_hndl = of_nat idx\<rparr> t =
    (Ok Re_Unview, s\<lparr>r_next := Suc (r_next s), r_views := (r_views s)(r_next s := x),
       r_cells := (r_cells s)(me := ActiveProcess (p\<lparr>p_views := p_views p @ [r_next s]\<rparr>))\<rparr>)"
proof -
  let ?v = "r_next s" and ?h = "of_nat idx :: u64"
  let ?p = "p\<lparr>p_handles := (p_handles p)[idx := Some (R_View ?v)], p_views := p_views p @ [?v]\<rparr>"
  have h: "unat ?h = idx" using i by (simp add: unat_of_nat)
  have c: "r_cells t me = ActiveProcess ?p" by (simp add: t_def viewed_def Let_def)
  have f: "find_local me ?h 0 t = (Ok (R_View ?v), t)"
    by (intro find_local_run [OF c]) (use i(1) in \<open>simp add: get_handle_def h\<close>)
  have v: "r_views t ?v = x" by (simp add: t_def viewed_def Let_def)
  have e: "cleanup_cap_table (e_sel4 E) ?v True t = (Ok () :: (InvocationError, unit) outcome, t)"
    by (rule cleanup_empty) (simp add: v x(1))
  let ?t1 = "t\<lparr>r_windows := r_windows s\<rparr>"
  have "(r_windows s (v_window x))\<lparr>w_view := None\<rparr> = r_windows s (v_window x)" using x(3) by simp
  then have w: "upd_window (v_window x) (w_view_update (\<lambda>_. None)) t = (Ok () :: (InvocationError, unit) outcome, ?t1)"
    by (simp add: t_def viewed_def Let_def upd_window_def op_run)
  let ?t2 = "?t1\<lparr>r_objects := r_objects s\<rparr>"
  have u: "unlink_view ?v ?t1 = (Ok () :: (InvocationError, unit) outcome, ?t2)"
    using position_last [OF o] x(2)
    by (simp add: unlink_view_run v) (simp add: t_def viewed_def Let_def swap_remove_last)
  have "drop_local me ?h ?t2 = (Ok () :: (InvocationError, unit) outcome,
      ?t2\<lparr>r_cells := (r_cells s)(me := ActiveProcess (p\<lparr>p_views := p_views p @ [?v]\<rparr>))\<rparr>)"
  proof -
    have c2: "r_cells ?t2 me = ActiveProcess ?p" by (simp add: c)
    have "(p_handles p)[idx := None] = p_handles p" using i(3) by (metis list_update_id)
    then have "cleanup_handle idx (p_handles ?p) = (Ok (), p_handles p)"
      using i(1) by (simp add: cleanup_handle_def)
    then show ?thesis using c2
      by (simp add: drop_local_def bnd_def get_proc_run [OF c2] upd_proc_run [OF c2] h)
        (simp add: t_def viewed_def Let_def)
  qed
  then show ?thesis using x(2)
    by (simp add: handle_unview_def handle_unview_internal_def bnd_def op_run f e v w u the_view_def)
      (simp add: t_def viewed_def Let_def)
qed

text \<open>C33: A \<open>view\<close> followed by the \<open>unview\<close> of its handle.  In a typed state, the second call succeeds
  and leaves everything as it was before the first - window, object, handle table, memory, kernel -
  except the cell of the dropped view and the process's list of views, which keeps it for good.\<close>

theorem view_unview_restores:
  assumes "typed G s" and "G me = Some KProc" and "handle_view me args s = (Ok (Re_View h), t)"
  shows "\<exists>p x. r_cells s me = ActiveProcess p \<and>
    handle_unview E me \<lparr>uv_hndl = h\<rparr> t =
      (Ok Re_Unview, s\<lparr>r_next := Suc (r_next s), r_views := (r_views s)(r_next s := x),
         r_cells := (r_cells s)(me := ActiveProcess (p\<lparr>p_views := p_views p @ [r_next s]\<rparr>))\<rparr>)"
proof -
  obtain win ob p idx rights wo oo where w: "w_view (r_windows s win) = None"
    and c: "r_cells s me = ActiveProcess p"
    and f: "find_generic me (vw_object args) ViewArgs_Object s = (Ok (R_Object ob), s)"
    and a: "allocate_handle (p_handles p) = Ok idx" and h: "h = of_nat idx"
    and t: "t = viewed s me p (view_new win (Some ob) None rights wo oo) ob idx"
    using handle_view_run [OF assms(3)] by blast
  have "cell_typed G (r_cells s me)" using assms(1,2) by (auto simp: typed_def dest: spec [of _ me])
  then have l: "length (p_handles p) = 256" by (simp add: c proc_typed_def const_defs)
  have i: "idx < length (p_handles p)" "p_handles p ! idx = None"
    using a by (auto simp: allocate_handle_def find_Some_iff split: option.splits)
  have o: "r_next s \<notin> set (mo_views (r_objects s ob))" by (rule fresh_view [OF assms(1,2) f])
  show ?thesis unfolding t h
    using c unview_viewed [OF refl, where x = "view_new win (Some ob) None rights wo oo" and E = E and me = me and p = p and idx = idx and s = s and ob = ob] w i l o by (auto simp: view_new_def)
qed

text \<open>The witness's state: the window has no view yet, the object one.\<close>

definition free_window_root :: "nat root" where
  "free_window_root = mapped_root\<lparr>r_windows := (\<lambda>_. \<lparr>w_start = 0x10000, w_size = 0x4000, w_view = None\<rparr>)\<rparr>"

lemma mapped_slots:
  "p_handles mapped_proc ! 0 = Some (R_Window 1)" "p_handles mapped_proc ! 1 = Some (R_View 2)"
  "p_handles mapped_proc ! 2 = Some (R_Object 3)" "p_handles mapped_proc ! 3 = None"
  "length (p_handles mapped_proc) = 256" "p_handles mapped_proc \<noteq> []"
proof -
  show "length (p_handles mapped_proc) = 256" by (simp add: mapped_proc_def small_proc_def const_defs)
  then show "p_handles mapped_proc \<noteq> []" by auto
qed (simp_all add: mapped_proc_def small_proc_def const_defs)

lemma mapped_allocate: "allocate_handle (p_handles mapped_proc) = Ok 3"
proof -
  have "p_handles mapped_proc ! j \<noteq> None" if j: "j < 3" for j
  proof -
    consider "j = 0" | "j = 1" | "j = 2" using j by linarith
    then show ?thesis by cases (simp_all only: mapped_slots option.distinct not_False_eq_True)
  qed
  then have "List.find (\<lambda>i. p_handles mapped_proc ! i = None) [0..<length (p_handles mapped_proc)] = Some 3"
    using mapped_slots(4,5) by (auto simp: find_Some_iff intro!: exI [of _ 3])
  then show ?thesis by (simp add: allocate_handle_def)
qed

lemma free_window_root_typed: "typed mapped_typing free_window_root"
proof -
  have *: "kind_typed mapped_typing free_window_root i k" if "kind_typed mapped_typing mapped_root i k" for i k
    using that by (cases k) (simp_all add: free_window_root_def window_typed_def)
  have "r_next free_window_root = r_next mapped_root" "r_handle_caps free_window_root = r_handle_caps mapped_root"
    "r_procs free_window_root = r_procs mapped_root" "r_names free_window_root = r_names mapped_root"
    by (simp_all add: free_window_root_def)
  then show ?thesis using mapped_root_typed * unfolding typed_def by metis
qed

lemma handle_view_runs:
  assumes "find_generic me (vw_window args) ViewArgs_Window s = (Ok (R_Window win), s)"
    and "find_generic me (vw_object args) ViewArgs_Object s = (Ok (R_Object ob), s)"
    and "vw_size args \<noteq> 0" and "unat (vw_window_offset args) AND PAGE_SIZE_4K = 0" and "unat (vw_obj_offset args) AND PAGE_SIZE_4K = 0"
    and "unat (vw_window_offset args) + unat (vw_size args) \<le> w_size (r_windows s win)" and "w_size (r_windows s win) < usize_lim"
    and "unat (vw_obj_offset args) + unat (vw_size args) \<le> mo_size (r_objects s ob)" and "mo_size (r_objects s ob) < usize_lim"
    and "w_view (r_windows s win) = None" and c: "r_cells s me = ActiveProcess p" and "allocate_handle (p_handles p) = Ok idx"
  shows "fst (handle_view me args s) = Ok (Re_View (of_nat idx))"
proof -
  have "vw_size args \<noteq> 0 \<Longrightarrow> unat (vw_size args) \<noteq> 0" by (simp add: unat_eq_zero)
  then show ?thesis using assms
    by (simp add: handle_view_def Let_def bnd_def op_run the_object_def the_window_def add_us_def new_view_def fresh_id_def
        upd_view_def upd_window_def upd_object_def new_local_def get_proc_run put_ref_run upd_proc_run)
qed

theorem view_unview_restores_witness:
  "\<exists>t p x. handle_view 0 \<lparr>vw_window = ReceivedHandle 0, vw_object = ReceivedHandle 2, vw_window_offset = 0x2000,
       vw_obj_offset = 0, vw_size = 0x2000, vw_rights = 3\<rparr> free_window_root = (Ok (Re_View 3), t) \<and>
     handle_unview small_env 0 \<lparr>uv_hndl = 3\<rparr> t =
      (Ok Re_Unview, free_window_root\<lparr>r_next := Suc (r_next free_window_root),
         r_views := (r_views free_window_root)(r_next free_window_root := x),
         r_cells := (r_cells free_window_root)(0 := ActiveProcess (p\<lparr>p_views := p_views p @ [r_next free_window_root]\<rparr>))\<rparr>)"
proof -
  let ?a = "\<lparr>vw_window = ReceivedHandle 0, vw_object = ReceivedHandle 2, vw_window_offset = 0x2000,
    vw_obj_offset = 0, vw_size = 0x2000, vw_rights = 3\<rparr>"
  have c: "r_cells free_window_root 0 = ActiveProcess mapped_proc" by (simp add: free_window_root_def mapped_root_def)
  have f: "find_generic 0 (ReceivedHandle 0) which free_window_root = (Ok (R_Window 1), free_window_root)"
    "find_generic 0 (ReceivedHandle 2) which free_window_root = (Ok (R_Object 3), free_window_root)" for which
    using mapped_slots(1,3,5,6)
    by (simp_all add: find_generic_def handle_tables_def bnd_def op_run get_proc_run [OF c] generic_get_handle_def get_handle_mut_def)
  have "fst (handle_view 0 ?a free_window_root) = Ok (Re_View (of_nat 3))"
    by (rule handle_view_runs [OF _ _ _ _ _ _ _ _ _ _ c mapped_allocate, where win = 1 and ob = 3])
      (simp_all add: f, simp_all add: free_window_root_def mapped_root_def object_new_def PAGE_SIZE_4K_eq and_exp_bit)
  then obtain t where v: "handle_view 0 ?a free_window_root = (Ok (Re_View 3), t)"
    by (cases "handle_view 0 ?a free_window_root") simp
  then show ?thesis
    using view_unview_restores [OF free_window_root_typed _ v, of small_env] by (auto simp: mapped_typing_def)
qed

section \<open>Creating a window\<close>

definition room :: "'k root \<Rightarrow> nat \<Rightarrow> user_process \<Rightarrow> nat \<Rightarrow> nat \<Rightarrow> bool" where
  "room s me p base sz \<longleftrightarrow> r_cells s me = ActiveProcess p \<and> base mod PAGE_SIZE_4K = 0 \<and> 0 < sz \<and>
     base + sz < usize_lim \<and> (\<forall>w \<in> set (p_windows p). w_start (r_windows s w) + w_size (r_windows s w) < usize_lim)"

lemma room_overlap:
  "room s me p base sz \<Longrightarrow> overlapping_window me base sz s =
     (Ok (List.find (\<lambda>w. caught base sz (r_windows s w)) (p_windows p)), s)"
  by (rule overlapping_window_run) (auto simp: room_def)

lemma window_create_refused:
  assumes r: "room s me p (unat (wc_base_vaddr args)) (unat (wc_size args))"
    and w: "w \<in> set (p_windows p)" "caught (unat (wc_base_vaddr args)) (unat (wc_size args)) (r_windows s w)"
  shows "handle_window_create me args s = (Err InvalidArguments, s)"
proof -
  obtain w' where f: "List.find (\<lambda>w. caught (unat (wc_base_vaddr args)) (unat (wc_size args)) (r_windows s w)) (p_windows p) = Some w'"
    using w by (fastforce simp: find_None_iff)
  then have "w' \<in> set (p_windows p)" by (auto simp: find_Some_iff)
  then show ?thesis using r room_overlap [OF r, where ?'b = InvocationError] f
    by (simp add: handle_window_create_def Let_def bnd_def op_run the_window_def add_us_def room_def)
qed

text \<open>The state after a window is created and its handle put at \<open>idx\<close>.\<close>

definition windowed :: "'k root \<Rightarrow> nat \<Rightarrow> user_process \<Rightarrow> nat \<Rightarrow> nat \<Rightarrow> nat \<Rightarrow> 'k root" where
  "windowed s me p base sz idx =
     s\<lparr>r_next := Suc (r_next s),
       r_windows := (r_windows s)(r_next s := \<lparr>w_start = base, w_size = sz, w_view = None\<rparr>),
       r_cells := (r_cells s)(me := ActiveProcess (p\<lparr>p_handles := (p_handles p)[idx := Some (R_Window (r_next s))],
         p_windows := p_windows p @ [r_next s]\<rparr>))\<rparr>"

lemma window_create_accepted:
  assumes r: "room s me p (unat (wc_base_vaddr args)) (unat (wc_size args))"
    and w: "\<forall>w \<in> set (p_windows p). \<not> caught (unat (wc_base_vaddr args)) (unat (wc_size args)) (r_windows s w)"
    and l: "\<not> wc_return_cap args" and a: "allocate_handle (p_handles p) = Ok idx"
  shows "handle_window_create me args s =
    (Ok (Re_WindowCreate (Handle (of_nat idx))), windowed s me p (unat (wc_base_vaddr args)) (unat (wc_size args)) idx)"
proof -
  let ?w = "\<lparr>w_start = unat (wc_base_vaddr args), w_size = unat (wc_size args), w_view = None\<rparr>"
  have c: "r_cells s me = ActiveProcess p" using r by (simp add: room_def)
  have f: "List.find (\<lambda>w. caught (unat (wc_base_vaddr args)) (unat (wc_size args)) (r_windows s w)) (p_windows p) = None"
    using w by (simp add: find_None_iff)
  have g: "new_generic me False s = (Ok (idx, Local idx, None), s)"
    using c a by (simp add: new_generic_def handle_tables_def generic_allocate_handle_def bnd_def op_run get_proc_run)
  let ?s1 = "s\<lparr>r_next := Suc (r_next s), r_windows := (r_windows s)(r_next s := ?w)\<rparr>"
  have n: "new_window ?w s = (Ok (r_next s) :: (InvocationError, nat) outcome, ?s1)"
    by (simp add: new_window_def fresh_id_def upd_window_def bnd_def op_run)
  have c1: "r_cells ?s1 me = ActiveProcess p" using c by simp
  show ?thesis
    using r room_overlap [OF r, where ?'b = InvocationError] f l
    by (simp add: handle_window_create_def Let_def bnd_def op_run room_def g n put_ref_run [OF c1] add_window_unchecked_def
        upd_proc_run new_handle_reply_def windowed_def)
qed

text \<open>C34: Which windows a process can create.  When the range is page-aligned, not empty and
  no sum overflows, \<open>handle_window_create\<close> refuses it with \<open>InvalidArguments\<close> and changes nothing exactly when
  one of the process's windows shares an address with it and does not lie inside it, ending no later
  and starting strictly after it; otherwise
  the window is created with the lowest free handle and nothing else changes.  A range around an
  existing window is thus accepted.\<close>

theorem window_create_overlaps:
  assumes "room s me p (unat (wc_base_vaddr args)) (unat (wc_size args))"
    and "\<not> wc_return_cap args" and "allocate_handle (p_handles p) = Ok idx"
  shows "handle_window_create me args s =
    (if \<exists>w \<in> set (p_windows p). caught (unat (wc_base_vaddr args)) (unat (wc_size args)) (r_windows s w)
     then (Err InvalidArguments, s)
     else (Ok (Re_WindowCreate (Handle (of_nat idx))), windowed s me p (unat (wc_base_vaddr args)) (unat (wc_size args)) idx))"
  using window_create_refused [OF assms(1)] window_create_accepted [OF assms(1) _ assms(2,3)] by auto

theorem window_create_overlaps_witness:
  "fst (handle_window_create 0 \<lparr>wc_base_vaddr = 0xF000, wc_size = 0x6000, wc_return_cap = False\<rparr> mapped_root) =
     Ok (Re_WindowCreate (Handle 3)) \<and>
   fst (handle_window_create 0 \<lparr>wc_base_vaddr = 0xF000, wc_size = 0x2000, wc_return_cap = False\<rparr> mapped_root) =
     Err InvalidArguments"
proof -
  let ?ok = "\<lparr>wc_base_vaddr = 0xF000, wc_size = 0x6000, wc_return_cap = False\<rparr>"
  let ?no = "\<lparr>wc_base_vaddr = 0xF000, wc_size = 0x2000, wc_return_cap = False\<rparr>"
  have c: "r_cells mapped_root 0 = ActiveProcess mapped_proc" and
    w: "r_windows mapped_root i = \<lparr>w_start = 0x10000, w_size = 0x4000, w_view = Some 2\<rparr>" for i
    by (simp_all add: mapped_root_def)
  have p: "p_windows mapped_proc = [1]" by (simp add: mapped_proc_def small_proc_def)
  have r: "room mapped_root 0 mapped_proc 0xF000 0x6000" "room mapped_root 0 mapped_proc 0xF000 0x2000"
    by (simp_all add: room_def c p w PAGE_SIZE_4K_eq)
  have no: "caught 0xF000 0x2000 (r_windows mapped_root 1)"
    by (auto simp: caught_def w in_range_def intro!: exI [of _ "0x10000"])
  have ok: "\<not> caught 0xF000 0x6000 (r_windows mapped_root 1)" by (simp add: caught_def w)
  show ?thesis
    using window_create_overlaps [of mapped_root 0 mapped_proc ?ok 3] window_create_overlaps [of mapped_root 0 mapped_proc ?no 3]
      r mapped_allocate p ok no by simp
qed

end
