(* ===== verification/Boot_FS.thy ===== *)
theory Boot_FS
  imports Client Event Handles Ntfn_Buffer
begin

text \<open>
  The boot file server, \<open>crates/boot_file_server/src/main.rs\<close>: a server that publishes the ELF files
  built into its image as read-only objects.  It is a client of the root server (its calls are the
  stubs of \<open>Client\<close>) and a server for others (\<open>smos_serv_decode_invocation\<close>, \<open>smos_serv_cleanup\<close> of
  \<open>Event\<close>, the handle tables of \<open>Handles\<close>).  Parameters: the kernel, the root server's answers
  (\<open>fe_call\<close>), the \<open>offset_allocator\<close> package, the notification ring, the ELF parser and the memory behind a
  client's shared buffer.
\<close>

section \<open>State\<close>

definition NUM_FILES :: nat where [const_defs]: "NUM_FILES = 11"
definition FS_NTFN_BUFFER :: u64 where [const_defs]: "FS_NTFN_BUFFER = 0xB0000"
definition SHARED_BUFFER_BASE :: nat where [const_defs]: "SHARED_BUFFER_BASE = 0xC0000"
definition FS_MAX_HANDLES :: nat where [const_defs]: "FS_MAX_HANDLES = 16"
definition MAX_CLIENTS :: nat where [const_defs]: "MAX_CLIENTS = 16"
definition FS_MAX_HANDLE_CAPS :: nat where [const_defs]: "FS_MAX_HANDLE_CAPS = 16"

text \<open>A file's contents lie at an address of the server's own address space.\<close>

record fs_file =
  ff_name :: rust_str
  ff_addr :: nat
  ff_data :: "u8 list"

text \<open>\<open>Rc<RefCell<..>>\<close> values are cells named by numbers.\<close>

record fs_object =
  fo_file :: fs_file
  fo_views :: "nat list"

record fs_view =
  fv_object :: nat
  fv_size :: nat
  fv_win_offset :: nat
  fv_obj_offset :: nat
  fv_rights :: u64
  fv_registration :: u64

datatype BFSResource = Fs_Object nat | Fs_View nat

text \<open>\<open>offset_allocator::Allocation\<close>: the offset and the package's own data.\<close>

type_synonym allocation = "nat \<times> nat"

record fs_client =
  fc_id :: nat
  fc_shared_buffer :: "(nat \<times> nat \<times> HandleOrHandleCap \<times> u64 \<times> allocation) option"
  fc_handles :: "BFSResource htable"
  fc_registration :: u64

record ('k, 'w, 'r) bfs =
  fs_cl :: "'k client"
  fs_files :: "fs_file option list"
  fs_clients :: "fs_client option list"
  fs_objects :: "nat \<Rightarrow> fs_object"
  fs_views :: "nat \<Rightarrow> fs_view"
  fs_next :: nat
  fs_caps :: "BFSResource hctable"
  fs_windows :: 'w
  fs_ring :: 'r

record ('k, 'w, 'r) fs_env =
  fe_sel4 :: "'k sel4"
  fe_call :: "'k ep_call"
  fe_allocate :: "'w \<Rightarrow> allocation option \<times> 'w"
  fe_free :: "allocation \<Rightarrow> 'w \<Rightarrow> 'w"
  fe_deq :: "'r rb_dequeue"
  fe_read :: "'k \<Rightarrow> nat \<Rightarrow> nat \<Rightarrow> u8 list"
  fe_valid_elf :: "u8 list \<Rightarrow> bool"

type_synonym ('k, 'w, 'r, 'e, 'a) fs_op = "(('k, 'w, 'r) bfs, 'e, 'a) op"

section \<open>Accesses\<close>

definition rs_conn :: "('k, 'a) stub \<Rightarrow> ('k, 'w, 'r, InvocationError, 'a) fs_op" where
  "rs_conn m = on_part fs_cl fs_cl_update m"

text \<open>A stub whose result type is a handle.\<close>

definition rs_handle :: "('k, client_result) stub \<Rightarrow> ('k, 'w, 'r, InvocationError, u64) fs_op" where
  "rs_handle m = bnd (rs_conn m) (\<lambda>r. case r of R_Hndl h \<Rightarrow> ret h | _ \<Rightarrow> panic)"

definition the_client :: "nat \<Rightarrow> ('k, 'w, 'r, 'e, fs_client) fs_op" where
  "the_client i = bnd (gets (\<lambda>s. fs_clients s ! i)) (\<lambda>c. lift (unwrap c))"

definition put_client :: "nat \<Rightarrow> fs_client option \<Rightarrow> ('k, 'w, 'r, 'e, unit) fs_op" where
  "put_client i c = modify (\<lambda>s. s\<lparr>fs_clients := (fs_clients s)[i := c]\<rparr>)"

definition put_fs_handles :: "nat \<Rightarrow> BFSResource htable \<Rightarrow> ('k, 'w, 'r, 'e, unit) fs_op" where
  "put_fs_handles i tbl = bnd (the_client i) (\<lambda>c. put_client i (Some (c\<lparr>fc_handles := tbl\<rparr>)))"

definition fs_tables :: "nat \<Rightarrow> ('k, 'w, 'r, 'e, BFSResource htables) fs_op" where
  "fs_tables i = bnd (the_client i) (\<lambda>c. bnd (gets fs_caps) (\<lambda>hc. ret (fc_handles c, hc)))"

definition put_fs_tables :: "nat \<Rightarrow> BFSResource htables \<Rightarrow> ('k, 'w, 'r, 'e, unit) fs_op" where
  "put_fs_tables i ts = bnd (put_fs_handles i (fst ts)) (\<lambda>_. modify (\<lambda>s. s\<lparr>fs_caps := snd ts\<rparr>))"

text \<open>The resource behind a handle argument: \<open>hndl_ref.as_ref().unwrap().inner()\<close>.\<close>

definition fs_resource ::
  "nat \<Rightarrow> ServerReceivedHandleOrHandleCap \<Rightarrow> u64 \<Rightarrow> ('k, 'w, 'r, InvocationError, BFSResource) fs_op" where
  "fs_resource i hndl which =
     bnd (fs_tables i) (\<lambda>ts.
     bnd (lift (generic_get_handle ts hndl which)) (\<lambda>place.
     lift (unwrap (read_place place ts))))"

definition fresh_cell :: "('k, 'w, 'r, 'e, nat) fs_op" where
  "fresh_cell = bnd (gets fs_next) (\<lambda>n. bnd (modify (\<lambda>s. s\<lparr>fs_next := Suc n\<rparr>)) (\<lambda>_. ret n))"

definition fs_new_object :: "fs_object \<Rightarrow> ('k, 'w, 'r, 'e, nat) fs_op" where
  "fs_new_object x =
     bnd fresh_cell (\<lambda>n. bnd (modify (\<lambda>s. s\<lparr>fs_objects := (fs_objects s)(n := x)\<rparr>)) (\<lambda>_. ret n))"

definition fs_new_view :: "fs_view \<Rightarrow> ('k, 'w, 'r, 'e, nat) fs_op" where
  "fs_new_view x =
     bnd fresh_cell (\<lambda>n. bnd (modify (\<lambda>s. s\<lparr>fs_views := (fs_views s)(n := x)\<rparr>)) (\<lambda>_. ret n))"

definition set_views :: "nat \<Rightarrow> (nat list \<Rightarrow> nat list) \<Rightarrow> ('k, 'w, 'r, 'e, unit) fs_op" where
  "set_views ob f = modify (\<lambda>s. s\<lparr>fs_objects := (fs_objects s)(ob := (fs_objects s ob)\<lparr>fo_views := f (fo_views (fs_objects s ob))\<rparr>)\<rparr>)"

text \<open>The slots of the client table: the first with a client of this id, the first free one.\<close>

definition client_index :: "(fs_client option \<Rightarrow> bool) \<Rightarrow> fs_client option list \<Rightarrow> nat option" where
  "client_index P cs = List.find (\<lambda>i. P (cs ! i)) [0..<length cs]"

definition find_client_from_id :: "nat \<Rightarrow> fs_client option list \<Rightarrow> nat option" where
  "find_client_from_id ident = client_index (\<lambda>c. case c of Some x \<Rightarrow> fc_id x = ident | None \<Rightarrow> False)"

definition find_client_slot :: "fs_client option list \<Rightarrow> nat option" where
  "find_client_slot = client_index (\<lambda>c. c = None)"

text \<open>\<open>core::ptr::eq\<close> on references into the table compares slots.\<close>

definition delete_client :: "nat \<Rightarrow> ('k, 'w, 'r, unit, unit) fs_op" where
  "delete_client to_del =
     bnd (gets fs_clients) (\<lambda>cs.
     if to_del < length cs \<and> cs ! to_del \<noteq> None then put_client to_del None else fail ())"

section \<open>Objects\<close>

definition fs_handle_obj_stat :: "nat \<Rightarrow> ObjStat \<Rightarrow> ('k, 'w, 'r, InvocationError, SMOSReply) fs_op" where
  "fs_handle_obj_stat i args =
     bnd (fs_resource i (os_hndl args) 0) (\<lambda>r.
     bnd (case r of Fs_Object ob \<Rightarrow> ret ob
          | _ \<Rightarrow> bnd (lift (generic_invalid_handle_error (os_hndl args) 0)) fail) (\<lambda>ob.
     bnd (gets (\<lambda>s. fs_objects s ob)) (\<lambda>x.
     ret (Re_ObjStat \<lparr>st_size = of_nat (length (ff_data (fo_file x))), st_paddr = None\<rparr>))))"

text \<open>The last file of the table with the name.\<close>

definition matched_file :: "rust_str \<Rightarrow> fs_file option list \<Rightarrow> fs_file option" where
  "matched_file name files =
     fold (\<lambda>file matched. case file of
         Some f \<Rightarrow> if ff_name f = name then Some f else matched | None \<Rightarrow> matched) files None"

definition fs_handle_obj_open :: "nat \<Rightarrow> ObjOpen \<Rightarrow> ('k, 'w, 'r, InvocationError, SMOSReply) fs_op" where
  "fs_handle_obj_open i args =
     bnd (gets fs_files) (\<lambda>files.
     case matched_file (oo_name args) files of
       None \<Rightarrow> fail InvalidArguments
     | Some file \<Rightarrow>
         bnd (fs_tables i) (\<lambda>ts.
         bnd (lift (generic_allocate_handle ts (oo_return_cap args))) (\<lambda>(idx, place, c).
         bnd (fs_new_object \<lparr>fo_file = file, fo_views = []\<rparr>) (\<lambda>ob.
         bnd (put_fs_tables i (write_place place (Fs_Object ob) ts)) (\<lambda>_.
         bnd (if oo_return_cap args then bnd (lift (unwrap c)) (\<lambda>c. ret (HandleCap c))
              else ret (Handle (of_nat idx))) (\<lambda>h.
         ret (Re_ObjOpen h)))))))"

definition fs_cleanup_handle ::
  "('k, 'w, 'r) fs_env \<Rightarrow> nat \<Rightarrow> ServerReceivedHandleOrHandleCap \<Rightarrow> u64 \<Rightarrow> ('k, 'w, 'r, InvocationError, unit) fs_op" where
  "fs_cleanup_handle E i hndl which =
     bnd (fs_tables i) (\<lambda>ts.
     bnd (gets (\<lambda>s. cl_kern (fs_cl s))) (\<lambda>k.
     case generic_cleanup_handle (fe_sel4 E) hndl which (ts, k) of
       (r, (ts', k')) \<Rightarrow>
         bnd (modify (\<lambda>s. s\<lparr>fs_cl := (fs_cl s)\<lparr>cl_kern := k'\<rparr>\<rparr>)) (\<lambda>_.
         bnd (put_fs_tables i ts') (\<lambda>_. lift r))))"

text \<open>Closing an object that still has views is \<open>todo!()\<close>.\<close>

definition fs_handle_obj_close :: "('k, 'w, 'r) fs_env \<Rightarrow> nat \<Rightarrow> ObjClose \<Rightarrow> ('k, 'w, 'r, InvocationError, SMOSReply) fs_op" where
  "fs_handle_obj_close E i args =
     bnd (fs_resource i (ocl_hndl args) 0) (\<lambda>r.
     bnd (case r of Fs_Object ob \<Rightarrow> ret ob
          | _ \<Rightarrow> bnd (lift (generic_invalid_handle_error (ocl_hndl args) 0)) fail) (\<lambda>ob.
     bnd (gets (\<lambda>s. fs_objects s ob)) (\<lambda>x.
     bnd (ensure (fo_views x = [])) (\<lambda>_.
     bnd (expect (fs_cleanup_handle E i (ocl_hndl args) 0)) (\<lambda>_.
     ret Re_ObjClose)))))"

section \<open>Views\<close>

text \<open>\<open>HandleCap::try_from\<close> of a received handle: only a capability that came wrapped.\<close>

definition try_into_cap :: "ServerReceivedHandleOrHandleCap \<Rightarrow> (unit, abs_cptr) outcome" where
  "try_into_cap h = (case h of WrappedHandleCap c \<Rightarrow> Ok c | _ \<Rightarrow> Err ())"

definition fs_handle_view :: "('k, 'w, 'r) fs_env \<Rightarrow> u64 \<Rightarrow> nat \<Rightarrow> View \<Rightarrow> ('k, 'w, 'r, InvocationError, SMOSReply) fs_op" where
  "fs_handle_view E publish_hndl i args =
     bnd (lift (map_err (\<lambda>_. InvalidArguments) (try_into_cap (vw_window args)))) (\<lambda>win.
     bnd (fs_resource i (vw_object args) 1) (\<lambda>r.
     bnd (case r of Fs_Object ob \<Rightarrow> ret ob | _ \<Rightarrow> fail InvalidArguments) (\<lambda>ob.
     bnd (the_client i) (\<lambda>c.
     bnd (lift (allocate_handle (fc_handles c))) (\<lambda>idx.
     bnd (rs_handle (window_register (fe_call E) publish_hndl win (of_nat (fc_id c)) (of_nat idx))) (\<lambda>reg_hndl.
     bnd (fs_new_view \<lparr>fv_object = ob, fv_size = unat (vw_size args), fv_win_offset = unat (vw_window_offset args),
         fv_obj_offset = unat (vw_obj_offset args), fv_rights = vw_rights args, fv_registration = reg_hndl\<rparr>) (\<lambda>v.
     bnd (set_views ob (\<lambda>vs. vs @ [v])) (\<lambda>_.
     bnd (put_fs_handles i (put_handle idx (Fs_View v) (fc_handles c))) (\<lambda>_.
     ret (Re_View (of_nat idx)))))))))))"

text \<open>Taking a view out of its object's list, shared by \<open>handle_unview\<close> and
  \<open>handle_win_destroy_ntfn\<close>, which both end with \<open>*view_ref = None\<close>.\<close>

definition fs_forget_view :: "nat \<Rightarrow> nat \<Rightarrow> nat \<Rightarrow> ('k, 'w, 'r, 'e, unit) fs_op" where
  "fs_forget_view i idx v =
     bnd (gets (\<lambda>s. fv_object (fs_views s v))) (\<lambda>ob.
     bnd (gets (\<lambda>s. fo_views (fs_objects s ob))) (\<lambda>vs.
     bnd (lift (unwrap (position v vs))) (\<lambda>pos.
     bnd (set_views ob (swap_remove pos)) (\<lambda>_.
     bnd (the_client i) (\<lambda>c. put_fs_handles i ((fc_handles c)[idx := None]))))))"

definition fs_handle_unview :: "('k, 'w, 'r) fs_env \<Rightarrow> nat \<Rightarrow> Unview \<Rightarrow> ('k, 'w, 'r, InvocationError, SMOSReply) fs_op" where
  "fs_handle_unview E i args =
     bnd (the_client i) (\<lambda>c.
     bnd (lift (map_err (\<lambda>_. InvalidHandle 0) (get_handle_mut (unat (uv_hndl args)) (fc_handles c)))) (\<lambda>idx.
     bnd (lift (unwrap (fc_handles c ! idx))) (\<lambda>r.
     bnd (case r of Fs_View v \<Rightarrow> ret v | _ \<Rightarrow> fail (InvalidHandle 0)) (\<lambda>v.
     bnd (gets (\<lambda>s. fv_registration (fs_views s v))) (\<lambda>reg_hndl.
     bnd (expect (rs_conn (window_deregister (fe_call E) reg_hndl))) (\<lambda>_.
     bnd (fs_forget_view i idx v) (\<lambda>_.
     ret Re_Unview)))))))"

section \<open>Connections\<close>

definition allocate_window :: "('k, 'w, 'r) fs_env \<Rightarrow> ('k, 'w, 'r, unit, allocation) fs_op" where
  "allocate_window E s =
     (case fe_allocate E (fs_windows s) of
        (Some a, w) \<Rightarrow> (Ok a, s\<lparr>fs_windows := w\<rparr>) | (None, w) \<Rightarrow> (Err (), s\<lparr>fs_windows := w\<rparr>))"

definition free_window :: "('k, 'w, 'r) fs_env \<Rightarrow> allocation \<Rightarrow> ('k, 'w, 'r, 'e, unit) fs_op" where
  "free_window E a = modify (\<lambda>s. s\<lparr>fs_windows := fe_free E a (fs_windows s)\<rparr>)"

definition deregister :: "('k, 'w, 'r) fs_env \<Rightarrow> u64 \<Rightarrow> ('k, 'w, 'r, InvocationError, unit) fs_op" where
  "deregister E reg = bnd (expect (rs_conn (conn_deregister (fe_call E) reg))) (\<lambda>_. ret ())"

text \<open>\<open>CapRights::all()\<close>.\<close>

definition ALL_RIGHTS :: u64 where [const_defs]: "ALL_RIGHTS = 15"

text \<open>The shared buffer of a new connection: a window of the server's and a view in it of the client's
  object.  A capability that did not come wrapped leaves with \<open>?\<close> after the window is made.\<close>

definition open_shared_buffer ::
  "('k, 'w, 'r) fs_env \<Rightarrow> u64 \<Rightarrow> ServerReceivedHandleOrHandleCap \<times> u64 \<Rightarrow>
   ('k, 'w, 'r, InvocationError, nat \<times> nat \<times> HandleOrHandleCap \<times> u64 \<times> allocation) fs_op" where
  "open_shared_buffer E reg sb =
     bnd (if snd sb \<noteq> 4096 then bnd (deregister E reg) (\<lambda>_. fail (AlignmentError 0)) else ret ()) (\<lambda>_.
     bnd (on_err (allocate_window E) (\<lambda>_. bnd (deregister E reg) (\<lambda>_. fail InsufficientResources))) (\<lambda>a.
     let window_address = SHARED_BUFFER_BASE + fst a * 4096 in
     bnd (on_err (rs_conn (window_create (fe_call E) (of_nat window_address) (snd sb) None))
            (\<lambda>e. bnd (free_window E a) (\<lambda>_. bnd (deregister E reg) (\<lambda>_. fail e)))) (\<lambda>w.
     bnd (case w of R_HndlCap h \<Rightarrow> ret h | _ \<Rightarrow> panic) (\<lambda>window_hndl.
     bnd (lift (map_err (\<lambda>_. InvalidArguments) (try_into_cap (fst sb)))) (\<lambda>obj.
     bnd (on_err (rs_handle (view (fe_call E) window_hndl (HandleCap obj) 0 0 4096 ALL_RIGHTS))
            (\<lambda>e. bnd (expect (rs_conn (window_destroy (fe_call E) (fe_sel4 E) window_hndl))) (\<lambda>_.
                 bnd (free_window E a) (\<lambda>_. bnd (deregister E reg) (\<lambda>_. fail e))))) (\<lambda>view_h.
     ret (window_address, unat (snd sb), window_hndl, view_h, a)))))))"

definition fs_handle_conn_open ::
  "('k, 'w, 'r) fs_env \<Rightarrow> u64 \<Rightarrow> nat \<Rightarrow> ConnOpen \<Rightarrow> ('k, 'w, 'r, InvocationError, SMOSReply) fs_op" where
  "fs_handle_conn_open E publish_hndl ident args =
     bnd (gets fs_clients) (\<lambda>cs.
     bnd (lift (ok_or InsufficientResources (find_client_slot cs))) (\<lambda>slot.
     bnd (rs_handle (conn_register (fe_call E) publish_hndl (of_nat ident))) (\<lambda>reg.
     bnd (case co_shared_buf_obj args of
            Some sb \<Rightarrow> bnd (open_shared_buffer E reg sb) (\<lambda>x. ret (Some x))
          | None \<Rightarrow> ret None) (\<lambda>shared.
     bnd (put_client slot (Some \<lparr>fc_id = ident, fc_shared_buffer = shared,
            fc_handles = replicate FS_MAX_HANDLES None, fc_registration = reg\<rparr>)) (\<lambda>_.
     ret Re_ConnOpen)))))"

text \<open>Giving back the shared buffer, when a connection ends.\<close>

definition close_shared_buffer :: "('k, 'w, 'r) fs_env \<Rightarrow> fs_client \<Rightarrow> ('k, 'w, 'r, InvocationError, unit) fs_op" where
  "close_shared_buffer E c =
     (case fc_shared_buffer c of
        None \<Rightarrow> ret ()
      | Some (_, _, window_hndl, view_h, a) \<Rightarrow>
          bnd (expect (rs_conn (unview (fe_call E) view_h))) (\<lambda>_.
          bnd (expect (rs_conn (window_destroy (fe_call E) (fe_sel4 E) window_hndl))) (\<lambda>_.
          free_window E a)))"

text \<open>Handles that are left are only reported.\<close>

definition fs_handle_conn_close :: "('k, 'w, 'r) fs_env \<Rightarrow> nat \<Rightarrow> ('k, 'w, 'r, InvocationError, SMOSReply) fs_op" where
  "fs_handle_conn_close E i =
     bnd (the_client i) (\<lambda>c.
     bnd (close_shared_buffer E c) (\<lambda>_.
     bnd (deregister E (fc_registration c)) (\<lambda>_.
     bnd (expect (delete_client i)) (\<lambda>_.
     ret Re_ConnClose))))"

section \<open>Notifications\<close>

definition client_of_id :: "u64 \<Rightarrow> ('k, 'w, 'r, 'e, nat) fs_op" where
  "client_of_id ident = bnd (gets fs_clients) (\<lambda>cs. lift (unwrap (find_client_from_id (unat ident) cs)))"

definition view_of_reference :: "nat \<Rightarrow> u64 \<Rightarrow> ('k, 'w, 'r, 'e, nat) fs_op" where
  "view_of_reference i reference =
     bnd (the_client i) (\<lambda>c.
     bnd (expect (lift (get_handle (unat reference) (fc_handles c)))) (\<lambda>r.
     bnd (lift (unwrap r)) (\<lambda>r.
     case r of Fs_View v \<Rightarrow> ret v | _ \<Rightarrow> panic)))"

text \<open>Faults before the view or after its end are \<open>todo!()\<close>; the end itself is let through.  The page
  is the one of the server's memory that lies that far behind the start of the file's contents,
  with \<open>wrapping_add\<close>.\<close>

definition fs_vm_fault :: "('k, 'w, 'r) fs_env \<Rightarrow> VMFaultNotification \<Rightarrow> ('k, 'w, 'r, InvocationError, unit) fs_op" where
  "fs_vm_fault E args =
     bnd (client_of_id (vf_client_id args)) (\<lambda>i.
     bnd (view_of_reference i (vf_reference args)) (\<lambda>v.
     bnd (gets (\<lambda>s. fs_views s v)) (\<lambda>x.
     bnd (ensure (fv_win_offset x \<le> unat (vf_fault_offset args))) (\<lambda>_.
     bnd (lift (add_us (fv_win_offset x) (fv_size x))) (\<lambda>view_end.
     bnd (ensure (unat (vf_fault_offset args) \<le> view_end)) (\<lambda>_.
     bnd (lift (sub_us (unat (vf_fault_offset args)) (fv_win_offset x))) (\<lambda>pos.
     bnd (lift (add_us pos (fv_obj_offset x))) (\<lambda>content.
     bnd (gets (\<lambda>s. ff_addr (fo_file (fs_objects s (fv_object x))))) (\<lambda>addr.
     bnd (expect (rs_conn (page_map (fe_call E) (fv_registration x) (vf_fault_offset args) (of_nat (addr + content))))) (\<lambda>_.
     ret ()))))))))))"

definition fs_conn_destroy_ntfn :: "('k, 'w, 'r) fs_env \<Rightarrow> ConnDestroyNotification \<Rightarrow> ('k, 'w, 'r, InvocationError, unit) fs_op" where
  "fs_conn_destroy_ntfn E args =
     bnd (client_of_id (cdn_conn_id args)) (\<lambda>i.
     bnd (the_client i) (\<lambda>c.
     bnd (ensure (\<forall>h \<in> set (fc_handles c). h = None)) (\<lambda>_.
     bnd (close_shared_buffer E c) (\<lambda>_.
     expect (delete_client i)))))"

text \<open>\<open>get_handle_mut(..).expect(..)\<close> is the check of \<open>get_handle\<close>.\<close>

definition fs_win_destroy_ntfn :: "WindowDestroyNotification \<Rightarrow> ('k, 'w, 'r, InvocationError, unit) fs_op" where
  "fs_win_destroy_ntfn args =
     bnd (client_of_id (wdn_client_id args)) (\<lambda>i.
     bnd (view_of_reference i (wdn_reference args)) (\<lambda>v.
     fs_forget_view i (unat (wdn_reference args)) v))"

fun fs_ntfn :: "('k, 'w, 'r) fs_env \<Rightarrow> NotificationType \<Rightarrow> ('k, 'w, 'r, InvocationError, unit) fs_op" where
  "fs_ntfn E (N_VMFault d) = fs_vm_fault E d"
| "fs_ntfn E (N_ConnDestroy d) = fs_conn_destroy_ntfn E d"
| "fs_ntfn E (N_WindowDestroy d) = fs_win_destroy_ntfn d"

text \<open>\<open>while let Some(msg) = dequeue(..)\<close>, up to \<open>fuel\<close> messages; \<open>False\<close> if there could be more.\<close>

fun handle_notification :: "('k, 'w, 'r) fs_env \<Rightarrow> nat \<Rightarrow> ('k, 'w, 'r, InvocationError, bool) fs_op" where
  "handle_notification E 0 = ret False"
| "handle_notification E (Suc fuel) =
     bnd (expect (on_part fs_ring fs_ring_update (dequeue_ntfn_buffer_msg (fe_deq E)))) (\<lambda>msg.
     case msg of
       None \<Rightarrow> ret True
     | Some m \<Rightarrow> bnd (fs_ntfn E m) (\<lambda>_. handle_notification E fuel))"

section \<open>The loop\<close>

text \<open>The server's side of the IPC buffer and the kernel.\<close>

definition in_server :: "('k server, 'e, 'a) op \<Rightarrow> ('k, 'w, 'r, 'e, 'a) fs_op" where
  "in_server m s =
     (case m \<lparr>sv_ipc = cl_ipc (fs_cl s), sv_kern = cl_kern (fs_cl s)\<rparr> of
        (r, sv) \<Rightarrow> (r, s\<lparr>fs_cl := (fs_cl s)\<lparr>cl_ipc := sv_ipc sv, cl_kern := sv_kern sv\<rparr>\<rparr>))"

text \<open>An invocation of an open connection.  What the file server does not support is \<open>todo!()\<close>.\<close>

fun fs_dispatch ::
  "('k, 'w, 'r) fs_env \<Rightarrow> u64 \<Rightarrow> nat \<Rightarrow> SMOS_Invocation \<Rightarrow> ('k, 'w, 'r, InvocationError, SMOSReply) fs_op" where
  "fs_dispatch E publish_hndl i I_ConnClose = fs_handle_conn_close E i"
| "fs_dispatch E publish_hndl i (I_ObjOpen t) = fs_handle_obj_open i t"
| "fs_dispatch E publish_hndl i (I_ObjClose t) = fs_handle_obj_close E i t"
| "fs_dispatch E publish_hndl i (I_ObjStat t) = fs_handle_obj_stat i t"
| "fs_dispatch E publish_hndl i (I_View t) = fs_handle_view E publish_hndl i t"
| "fs_dispatch E publish_hndl i (I_Unview t) = fs_handle_unview E i t"
| "fs_dispatch E publish_hndl i _ = panic"

text \<open>A client without a connection may only open one, and one with a connection may not; the rest is
  \<open>todo!()\<close>.\<close>

definition fs_serve ::
  "('k, 'w, 'r) fs_env \<Rightarrow> u64 \<Rightarrow> nat \<Rightarrow> SMOS_Invocation \<Rightarrow> ('k, 'w, 'r, InvocationError, SMOSReply) fs_op" where
  "fs_serve E publish_hndl ident iv =
     bnd (gets (\<lambda>s. find_client_from_id ident (fs_clients s))) (\<lambda>client.
     case (client, iv) of
       (None, I_ConnOpen t) \<Rightarrow> fs_handle_conn_open E publish_hndl ident t
     | (Some _, I_ConnOpen t) \<Rightarrow> panic
     | (None, _) \<Rightarrow> panic
     | (Some i, _) \<Rightarrow> fs_dispatch E publish_hndl i iv)"

definition shared_buf_of :: "('k, 'w, 'r) fs_env \<Rightarrow> nat \<Rightarrow> ('k, 'w, 'r) bfs \<Rightarrow> u8 list option" where
  "shared_buf_of E ident s =
     (case find_client_from_id ident (fs_clients s) of
        None \<Rightarrow> None
      | Some i \<Rightarrow> (case fs_clients s ! i of
            None \<Rightarrow> None
          | Some c \<Rightarrow> map_option (\<lambda>(addr, len, _). fe_read E (cl_kern (fs_cl s)) addr len) (fc_shared_buffer c)))"

text \<open>One round of \<open>syscall_loop\<close>: what arrived, and the answer that goes with the next receive.\<close>

definition fs_round ::
  "('k, 'w, 'r) fs_env \<Rightarrow> u64 \<Rightarrow> abs_cptr \<Rightarrow> nat \<Rightarrow> msginfo \<Rightarrow> u64 \<Rightarrow> ('k, 'w, 'r, InvocationError, msginfo option) fs_op" where
  "fs_round E publish_hndl recv fuel msg badge =
     bnd (lift (decode_entry_type badge)) (\<lambda>t.
     case t of
       Notification bits \<Rightarrow>
         bnd (for_each (\<lambda>bit. if bit = 0 then bnd (handle_notification E fuel) ensure else panic) (ntfn_bits bits)) (\<lambda>_.
         ret None)
     | Fault _ \<Rightarrow> panic
     | Invocation ident \<Rightarrow>
         bnd (gets (shared_buf_of E (unat ident))) (\<lambda>data.
         bnd (attempt (in_server (smos_serv_decode_invocation (fe_sel4 E) ObjectServerConnection msg recv data))) (\<lambda>r.
         case r of
           Panic \<Rightarrow> panic
         | Err mi \<Rightarrow> ret mi
         | Ok iv \<Rightarrow>
             bnd (attempt (fs_serve E publish_hndl (unat ident) iv)) (\<lambda>x.
             expect (in_server (smos_serv_cleanup (fe_sel4 E) iv recv x))))))"

section \<open>Start-up\<close>

definition rust_lit :: "string \<Rightarrow> rust_str" where
  "rust_lit s = List.map of_char s"

text \<open>The files the build puts into the image, where the linker put them.\<close>

definition FILE_NAMES :: "string list" where
  "FILE_NAMES = [''init'', ''eth_driver'', ''eth_virt_rx'', ''eth_virt_tx'', ''eth_copier'', ''echo_server'', ''timer'',
     ''serial_driver'', ''serial_virt_rx'', ''serial_virt_tx'', ''blk_driver'']"

definition init_file_table :: "(string \<Rightarrow> nat \<times> u8 list) \<Rightarrow> fs_file option list" where
  "init_file_table elf =
     List.map (\<lambda>n. Some \<lparr>ff_name = rust_lit n, ff_addr = fst (elf n), ff_data = snd (elf n)\<rparr>) FILE_NAMES"

lemma length_file_table: "length (init_file_table elf) = NUM_FILES"
  by (simp add: init_file_table_def FILE_NAMES_def const_defs)

definition fs_alloc_slot :: "('k, 'w, 'r, 'e, abs_cptr) fs_op" where
  "fs_alloc_slot =
     bnd (expect (on_part fs_cl fs_cl_update (on_part cl_cspace cl_cspace_update ucs_alloc_slot))) (\<lambda>slot.
     bnd (gets (\<lambda>s. cl_cspace (fs_cl s))) (\<lambda>cs.
     lift (ucs_to_absolute_cptr cs slot)))"

fun init_handle_cap_table ::
  "('k, 'w, 'r) fs_env \<Rightarrow> u64 \<Rightarrow> nat list \<Rightarrow> ('k, 'w, 'r, InvocationError, BFSResource hctable) fs_op" where
  "init_handle_cap_table E publish_hndl [] = ret []"
| "init_handle_cap_table E publish_hndl (i # is) =
     bnd fs_alloc_slot (\<lambda>slot.
     bnd (expect (rs_conn (server_handle_cap_create (fe_call E) publish_hndl (of_nat i) slot))) (\<lambda>_.
     bnd (init_handle_cap_table E publish_hndl is) (\<lambda>tbl.
     ret (\<lparr>hc_handle = None, hc_root_cap = Some slot\<rparr> # tbl))))"

text \<open>\<open>main\<close>, up to the call of \<open>syscall_loop\<close> with the publish handle and the slot of the reply object, and what
  \<open>syscall_loop\<close> does before its loop.\<close>

definition fs_main ::
  "('k, 'w, 'r) fs_env \<Rightarrow> (string \<Rightarrow> nat \<times> u8 list) \<Rightarrow> ('k, 'w, 'r, InvocationError, u64 \<times> abs_cptr) fs_op" where
  "fs_main E elf =
     bnd (ensure (fe_valid_elf E (snd (elf ''init'')))) (\<lambda>_.
     bnd fs_alloc_slot (\<lambda>ep_cptr.
     bnd (expect (rs_conn (conn_publish (fe_call E) FS_NTFN_BUFFER ep_cptr (rust_lit ''BOOT_FS'')))) (\<lambda>conn.
     bnd (case conn of R_Conn h _ \<Rightarrow> ret h | _ \<Rightarrow> panic) (\<lambda>publish_hndl.
     bnd (modify (\<lambda>s. s\<lparr>fs_files := init_file_table elf\<rparr>)) (\<lambda>_.
     bnd (expect (rs_conn (process_spawn (fe_call E) (rust_lit ''init'') (rust_lit ''BOOT_FS'') 250 None))) (\<lambda>_.
     bnd fs_alloc_slot (\<lambda>reply_cptr.
     bnd (expect (rs_conn (reply_create (fe_call E) reply_cptr))) (\<lambda>_.
     ret (publish_hndl, reply_cptr)))))))))"

definition fs_loop_start :: "('k, 'w, 'r) fs_env \<Rightarrow> u64 \<Rightarrow> ('k, 'w, 'r, InvocationError, abs_cptr) fs_op" where
  "fs_loop_start E publish_hndl =
     bnd (init_handle_cap_table E publish_hndl [0..<FS_MAX_HANDLE_CAPS]) (\<lambda>tbl.
     bnd (modify (\<lambda>s. s\<lparr>fs_caps := tbl\<rparr>)) (\<lambda>_.
     bnd fs_alloc_slot (\<lambda>recv.
     bnd (rs_conn (ipc_write (set_recv_slot recv))) (\<lambda>_.
     ret recv))))"

end
