(* ===== verification/Boot_FS_Facts.thy ===== *)
theory Boot_FS_Facts
  imports Boot_FS Root_Safe
begin

text \<open>
  The boot file server's books: which views an object lists and which handles hold them, kept by every
  invocation and notification, so that taking a view out of its object's list never fails; what a failed
  \<open>conn_open\<close> leaves; and which page a fault brings in.
\<close>

section \<open>The books\<close>

definition held :: "fs_client option list \<Rightarrow> nat \<Rightarrow> nat \<Rightarrow> BFSResource \<Rightarrow> bool" where
  "held cs i idx r \<longleftrightarrow>
     i < length cs \<and> (\<exists>c. cs ! i = Some c \<and> idx < length (fc_handles c) \<and> fc_handles c ! idx = Some r)"

text \<open>Objects and views that are referred to have been made; a view in a handle is listed by its object and
  in no other handle; an object lists each of its views once, and nothing else.\<close>

definition fs_books ::
  "fs_client option list \<Rightarrow> (nat \<Rightarrow> fs_object) \<Rightarrow> (nat \<Rightarrow> fs_view) \<Rightarrow> nat \<Rightarrow> BFSResource hctable \<Rightarrow> bool" where
  "fs_books cs os vs n caps \<longleftrightarrow>
     length cs = MAX_CLIENTS \<and> (\<forall>c. Some c \<in> set cs \<longrightarrow> length (fc_handles c) = FS_MAX_HANDLES) \<and>
     (\<forall>i idx ob. held cs i idx (Fs_Object ob) \<longrightarrow> ob < n) \<and>
     (\<forall>h \<in> set caps. \<forall>ob. hc_handle h = Some (Fs_Object ob) \<longrightarrow> ob < n) \<and>
     (\<forall>i idx v. held cs i idx (Fs_View v) \<longrightarrow> v < n \<and> fv_object (vs v) < n \<and> v \<in> set (fo_views (os (fv_object (vs v))))) \<and>
     (\<forall>i idx j jdx v. held cs i idx (Fs_View v) \<and> held cs j jdx (Fs_View v) \<longrightarrow> i = j \<and> idx = jdx) \<and>
     (\<forall>ob. distinct (fo_views (os ob)) \<and> (\<forall>v \<in> set (fo_views (os ob)). v < n \<and> fv_object (vs v) = ob))"

definition fs_part where "fs_part s = (fs_clients s, fs_objects s, fs_views s, fs_next s, fs_caps s)"

definition fs_inv :: "('k, 'w, 'r) bfs \<Rightarrow> bool" where
  "fs_inv s \<longleftrightarrow> fs_books (fs_clients s) (fs_objects s) (fs_views s) (fs_next s) (fs_caps s)"

lemma fs_inv_part: "fs_part t = fs_part s \<Longrightarrow> fs_inv t = fs_inv s"
  by (simp add: fs_part_def fs_inv_def)

lemma fs_part_upd [simp]:
  "fs_part (s\<lparr>fs_cl := x\<rparr>) = fs_part s" "fs_part (s\<lparr>fs_windows := w\<rparr>) = fs_part s" "fs_part (s\<lparr>fs_ring := q\<rparr>) = fs_part s"
  by (simp_all add: fs_part_def)

lemma held_update:
  "held (cs[i := x]) j jdx r \<longleftrightarrow>
     (if j = i then i < length cs \<and> (\<exists>c. x = Some c \<and> jdx < length (fc_handles c) \<and> fc_handles c ! jdx = Some r)
      else held cs j jdx r)"
  by (auto simp: held_def)

lemma held_put:
  assumes "cs ! i = Some c" and "i < length cs" and "idx < length (fc_handles c)"
  shows "held (cs[i := Some (c\<lparr>fc_handles := (fc_handles c)[idx := x]\<rparr>)]) j jdx r \<longleftrightarrow>
     (if j = i \<and> jdx = idx then x = Some r else held cs j jdx r)"
  using assms by (auto simp: held_update held_def nth_list_update)

lemma books_lengths:
  assumes "\<forall>c. Some c \<in> set cs \<longrightarrow> length (fc_handles c) = m" and "cs ! i = Some c" and "i < length cs"
  shows "\<forall>d. Some d \<in> set (cs[i := Some (c\<lparr>fc_handles := (fc_handles c)[idx := x]\<rparr>)]) \<longrightarrow> length (fc_handles d) = m"
  using assms by (auto dest!: set_update_subset_insert [THEN subsetD]) (metis nth_mem)

lemma booksD:
  assumes "fs_books cs os vs n caps"
  shows "length cs = MAX_CLIENTS" and "\<forall>c. Some c \<in> set cs \<longrightarrow> length (fc_handles c) = FS_MAX_HANDLES"
    and "held cs i idx (Fs_Object ob) \<Longrightarrow> ob < n"
    and "h \<in> set caps \<Longrightarrow> hc_handle h = Some (Fs_Object ob) \<Longrightarrow> ob < n"
    and "held cs i idx (Fs_View v) \<Longrightarrow> v < n" and "held cs i idx (Fs_View v) \<Longrightarrow> fv_object (vs v) < n"
    and "held cs i idx (Fs_View v) \<Longrightarrow> v \<in> set (fo_views (os (fv_object (vs v))))"
    and "held cs i idx (Fs_View v) \<Longrightarrow> held cs j jdx (Fs_View v) \<Longrightarrow> i = j \<and> idx = jdx"
    and "distinct (fo_views (os ob))" and "v \<in> set (fo_views (os ob)) \<Longrightarrow> v < n"
    and "v \<in> set (fo_views (os ob)) \<Longrightarrow> fv_object (vs v) = ob"
  using assms unfolding fs_books_def by blast+

lemma booksI:
  assumes "length cs = MAX_CLIENTS" and "\<forall>c. Some c \<in> set cs \<longrightarrow> length (fc_handles c) = FS_MAX_HANDLES"
    and "\<And>i idx ob. held cs i idx (Fs_Object ob) \<Longrightarrow> ob < n"
    and "\<And>h ob. h \<in> set caps \<Longrightarrow> hc_handle h = Some (Fs_Object ob) \<Longrightarrow> ob < n"
    and "\<And>i idx v. held cs i idx (Fs_View v) \<Longrightarrow> v < n \<and> fv_object (vs v) < n \<and> v \<in> set (fo_views (os (fv_object (vs v))))"
    and "\<And>i idx j jdx v. held cs i idx (Fs_View v) \<Longrightarrow> held cs j jdx (Fs_View v) \<Longrightarrow> i = j \<and> idx = jdx"
    and "\<And>ob. distinct (fo_views (os ob)) \<and> (\<forall>v \<in> set (fo_views (os ob)). v < n \<and> fv_object (vs v) = ob)"
  shows "fs_books cs os vs n caps"
  using assms unfolding fs_books_def by blast

text \<open>Fewer handles.\<close>

lemma books_fewer:
  assumes b: "fs_books cs os vs n caps" and l: "length cs' = MAX_CLIENTS"
    "\<forall>c. Some c \<in> set cs' \<longrightarrow> length (fc_handles c) = FS_MAX_HANDLES"
    and h: "\<And>i idx r. held cs' i idx r \<Longrightarrow> held cs i idx r"
    and c: "\<And>h r. h \<in> set caps' \<Longrightarrow> hc_handle h = Some r \<Longrightarrow> \<exists>h \<in> set caps. hc_handle h = Some r"
  shows "fs_books cs' os vs n caps'"
proof (rule booksI)
  show "ob < n" if "h \<in> set caps'" "hc_handle h = Some (Fs_Object ob)" for h ob
    using c [OF that] booksD(4) [OF b] by blast
  show "ob < n" if "held cs' i idx (Fs_Object ob)" for i idx ob by (rule booksD(3) [OF b h [OF that]])
  show "v < n \<and> fv_object (vs v) < n \<and> v \<in> set (fo_views (os (fv_object (vs v))))" if "held cs' i idx (Fs_View v)" for i idx v
    by (intro conjI booksD(5-7) [OF b h [OF that]])
  show "i = j \<and> idx = jdx" if "held cs' i idx (Fs_View v)" "held cs' j jdx (Fs_View v)" for i idx j jdx v
    by (rule booksD(8) [OF b h [OF that(1)] h [OF that(2)]])
qed (use l booksD(9-11) [OF b] in auto)

text \<open>A new object in a handle, or in a handle capability.\<close>

lemma books_new_cell:
  assumes b: "fs_books cs os vs n caps"
  shows "fs_books cs (os(n := \<lparr>fo_file = f, fo_views = []\<rparr>)) vs (Suc n) caps"
proof (rule booksI)
  let ?os = "os(n := \<lparr>fo_file = f, fo_views = []\<rparr>)"
  show "v < Suc n \<and> fv_object (vs v) < Suc n \<and> v \<in> set (fo_views (?os (fv_object (vs v))))"
    if "held cs i idx (Fs_View v)" for i idx v using booksD(5-7) [OF b that] by auto
  show "distinct (fo_views (?os ob)) \<and> (\<forall>v \<in> set (fo_views (?os ob)). v < Suc n \<and> fv_object (vs v) = ob)" for ob
    using booksD(9-11) [OF b] by (auto simp: less_Suc_eq)
  show "i = j \<and> idx = jdx" if "held cs i idx (Fs_View v)" "held cs j jdx (Fs_View v)" for i idx j jdx v
    by (rule booksD(8) [OF b that])
qed (use booksD(1-4) [OF b] in \<open>auto simp: less_Suc_eq\<close>)

lemma books_object_handle:
  assumes b: "fs_books cs os vs n caps" and c: "cs ! i = Some c" "i < length cs" "idx < length (fc_handles c)" and o: "ob < n"
  shows "fs_books (cs[i := Some (c\<lparr>fc_handles := (fc_handles c)[idx := Some (Fs_Object ob)]\<rparr>)]) os vs n caps"
proof (rule booksI)
  let ?cs = "cs[i := Some (c\<lparr>fc_handles := (fc_handles c)[idx := Some (Fs_Object ob)]\<rparr>)]"
  have old: "held cs j jdx (Fs_View v)" if "held ?cs j jdx (Fs_View v)" for j jdx v
    using that by (auto simp: held_put [OF c] split: if_splits)
  show "x < n" if "held ?cs j jdx (Fs_Object x)" for j jdx x
    using that o booksD(3) [OF b, of j jdx x] by (auto simp: held_put [OF c] split: if_splits)
  show "v < n \<and> fv_object (vs v) < n \<and> v \<in> set (fo_views (os (fv_object (vs v))))" if "held ?cs j jdx (Fs_View v)" for j jdx v
    by (intro conjI booksD(5-7) [OF b old [OF that]])
  show "j = k \<and> jdx = kdx" if "held ?cs j jdx (Fs_View v)" "held ?cs k kdx (Fs_View v)" for j jdx k kdx v
    by (rule booksD(8) [OF b old [OF that(1)] old [OF that(2)]])
qed (use booksD(1,4,9-11) [OF b] books_lengths [OF booksD(2) [OF b] c(1,2)] in auto)

lemma books_object_cap:
  assumes b: "fs_books cs os vs n caps" and o: "ob < n"
  shows "fs_books cs os vs n (put_handle_cap i (Fs_Object ob) caps)"
proof (rule booksI)
  show "x < n" if "h \<in> set (put_handle_cap i (Fs_Object ob) caps)" "hc_handle h = Some (Fs_Object x)" for h x
  proof -
    have "h \<in> set caps \<or> h = (caps ! i)\<lparr>hc_handle := Some (Fs_Object ob)\<rparr>"
      using that(1) set_update_subset_insert [of caps i] by (auto simp: put_handle_cap_def)
    then show ?thesis using that(2) o booksD(4) [OF b] by auto
  qed
  show "v < n \<and> fv_object (vs v) < n \<and> v \<in> set (fo_views (os (fv_object (vs v))))" if "held cs i idx (Fs_View v)" for i idx v
    by (intro conjI booksD(5-7) [OF b that])
  show "i = j \<and> idx = jdx" if "held cs i idx (Fs_View v)" "held cs j jdx (Fs_View v)" for i idx j jdx v
    by (rule booksD(8) [OF b that])
qed (use booksD(1-3,9-11) [OF b] in auto)

text \<open>A new view.\<close>

lemma books_view:
  assumes b: "fs_books cs os vs n caps" and c: "cs ! i = Some c" "i < length cs" "idx < length (fc_handles c)"
    and ob: "ob < n" and x: "fv_object x = ob"
  shows "fs_books (cs[i := Some (c\<lparr>fc_handles := (fc_handles c)[idx := Some (Fs_View n)]\<rparr>)])
     (os(ob := (os ob)\<lparr>fo_views := fo_views (os ob) @ [n]\<rparr>)) (vs(n := x)) (Suc n) caps"
proof (rule booksI)
  let ?cs = "cs[i := Some (c\<lparr>fc_handles := (fc_handles c)[idx := Some (Fs_View n)]\<rparr>)]"
  let ?os = "os(ob := (os ob)\<lparr>fo_views := fo_views (os ob) @ [n]\<rparr>)" and ?vs = "vs(n := x)"
  have old: "v < n \<and> fv_object (vs v) < n \<and> v \<in> set (fo_views (os (fv_object (vs v))))" if "held cs j jdx (Fs_View v)" for j jdx v
    using booksD(5-7) [OF b that] by blast
  show "v < Suc n \<and> fv_object (?vs v) < Suc n \<and> v \<in> set (fo_views (?os (fv_object (?vs v))))"
    if "held ?cs j jdx (Fs_View v)" for j jdx v
    using that old [of j jdx v] ob x by (auto simp: held_put [OF c] less_Suc_eq split: if_splits)
  show "j = k \<and> jdx = kdx" if "held ?cs j jdx (Fs_View v)" "held ?cs k kdx (Fs_View v)" for j jdx k kdx v
  proof -
    have "v \<noteq> n" if "held cs l ldx (Fs_View v)" for l ldx using old [OF that] by simp
    then show ?thesis using that booksD(8) [OF b, of j jdx v k kdx] by (auto simp: held_put [OF c] split: if_splits)
  qed
  show "distinct (fo_views (?os ob')) \<and> (\<forall>v \<in> set (fo_views (?os ob')). v < Suc n \<and> fv_object (?vs v) = ob')" for ob'
  proof -
    have "n \<notin> set (fo_views (os ob''))" for ob'' using booksD(10) [OF b, of n ob''] by auto
    then show ?thesis using booksD(9) [OF b, of ob'] booksD(10,11) [OF b, of _ ob'] x by (auto simp: less_Suc_eq)
  qed
  show "ob' < Suc n" if "held ?cs j jdx (Fs_Object ob')" for j jdx ob'
    using that booksD(3) [OF b] by (auto simp: held_put [OF c] less_Suc_eq split: if_splits)
  show "ob' < Suc n" if "h \<in> set caps" "hc_handle h = Some (Fs_Object ob')" for h ob'
    using booksD(4) [OF b that] by simp
qed (use booksD(1) [OF b] books_lengths [OF booksD(2) [OF b] c(1,2)] in simp_all)

text \<open>A view taken out of its object's list and its handle.\<close>

lemma swap_remove_set: "distinct xs \<Longrightarrow> position v xs = Some i \<Longrightarrow> set (swap_remove i xs) = set xs - {v} \<and> distinct (swap_remove i xs)"
proof -
  assume d: "distinct xs" and p: "position v xs = Some i"
  have i: "i < length xs" "xs ! i = v" using position_Some [OF p] by auto
  then obtain ys z where xs: "xs = ys @ [z]" by (cases xs rule: rev_cases) auto
  show ?thesis
  proof (cases "i = length ys")
    case False
    then have y: "i < length ys" "ys ! i = v" using i xs by (auto simp: nth_append)
    have e: "swap_remove i xs = ys[i := z]" using False xs by (simp add: swap_remove_def)
    have "distinct (ys[i := z])" using d xs by (simp add: distinct_list_update)
    moreover have "set (ys[i := z]) = insert z (set ys - {v})"
      using y d xs by (metis distinct_append set_update_distinct)
    ultimately show ?thesis unfolding e using d xs y nth_mem by fastforce
  qed (use i xs d in \<open>auto simp: swap_remove_def\<close>)
qed

lemma books_forget:
  assumes b: "fs_books cs os vs n caps" and c: "cs ! i = Some c" "i < length cs" "idx < length (fc_handles c)"
    and v: "fc_handles c ! idx = Some (Fs_View v)" and ob: "ob = fv_object (vs v)" and p: "position v (fo_views (os ob)) = Some pos"
  shows "fs_books (cs[i := Some (c\<lparr>fc_handles := (fc_handles c)[idx := None]\<rparr>)])
     (os(ob := (os ob)\<lparr>fo_views := swap_remove pos (fo_views (os ob))\<rparr>)) vs n caps"
proof (rule booksI)
  let ?cs = "cs[i := Some (c\<lparr>fc_handles := (fc_handles c)[idx := None]\<rparr>)]"
  let ?os = "os(ob := (os ob)\<lparr>fo_views := swap_remove pos (fo_views (os ob))\<rparr>)"
  have s: "set (swap_remove pos (fo_views (os ob))) = set (fo_views (os ob)) - {v}" "distinct (swap_remove pos (fo_views (os ob)))"
    using swap_remove_set [OF booksD(9) [OF b] p] by blast+
  have h: "held cs i idx (Fs_View v)" using c v by (auto simp: held_def)
  show "w < n \<and> fv_object (vs w) < n \<and> w \<in> set (fo_views (?os (fv_object (vs w))))" if "held ?cs j jdx (Fs_View w)" for j jdx w
  proof -
    have old: "held cs j jdx (Fs_View w)" "\<not> (j = i \<and> jdx = idx)" using that by (auto simp: held_put [OF c] split: if_splits)
    then have "w \<noteq> v" using booksD(8) [OF b h] by blast
    then show ?thesis using booksD(5-7) [OF b old(1)] s(1) by auto
  qed
  show "distinct (fo_views (?os ob')) \<and> (\<forall>w \<in> set (fo_views (?os ob')). w < n \<and> fv_object (vs w) = ob')" for ob'
    using booksD(9) [OF b, of ob'] booksD(10,11) [OF b, of _ ob'] s by (cases "ob' = ob") auto
  show "j = k \<and> jdx = kdx" if "held ?cs j jdx (Fs_View w)" "held ?cs k kdx (Fs_View w)" for j jdx k kdx w
    using that booksD(8) [OF b, of j jdx w k kdx] by (auto simp: held_put [OF c] split: if_splits)
  show "ob' < n" if "held ?cs j jdx (Fs_Object ob')" for j jdx ob'
    using that booksD(3) [OF b, of j jdx ob'] by (auto simp: held_put [OF c] split: if_splits)
qed (use booksD(1,4) [OF b] books_lengths [OF booksD(2) [OF b] c(1,2)] in auto)

section \<open>Runs\<close>

lemma the_client_run: "the_client i s = (r, t) \<longleftrightarrow> t = s \<and> r = unwrap (fs_clients s ! i)"
  by (auto simp: the_client_def op_run)

lemma unwrap_Ok: "unwrap x = Ok y \<longleftrightarrow> x = Some y" "Ok y = unwrap x \<longleftrightarrow> x = Some y"
  by (cases x; auto simp: unwrap_def)+

lemma unwrap_no_Err: "unwrap x \<noteq> Err e" "Err e \<noteq> unwrap x"
  by (cases x; simp add: unwrap_def)+

lemma fs_tables_Ok:
  "fs_tables i s = (Ok ts, t) \<longleftrightarrow> t = s \<and> (\<exists>c. fs_clients s ! i = Some c \<and> ts = (fc_handles c, fs_caps s))"
  by (auto simp: fs_tables_def bnd_eq_Ok op_run the_client_run unwrap_Ok)

lemma put_fs_handles_Ok:
  "put_fs_handles i tbl s = (Ok u, t) \<longleftrightarrow>
     (\<exists>c. fs_clients s ! i = Some c \<and> t = s\<lparr>fs_clients := (fs_clients s)[i := Some (c\<lparr>fc_handles := tbl\<rparr>)]\<rparr>)"
  by (auto simp: put_fs_handles_def put_client_def bnd_eq_Ok op_run the_client_run unwrap_Ok)

lemma put_fs_tables_Ok:
  "put_fs_tables i ts s = (Ok u, t) \<longleftrightarrow>
     (\<exists>c. fs_clients s ! i = Some c \<and>
        t = s\<lparr>fs_clients := (fs_clients s)[i := Some (c\<lparr>fc_handles := fst ts\<rparr>)], fs_caps := snd ts\<rparr>)"
  by (auto simp: put_fs_tables_def bnd_eq_Ok op_run put_fs_handles_Ok)

lemma fs_resource_state: "fs_resource i hndl which s = (r, t) \<Longrightarrow> t = s"
  by (auto simp: fs_resource_def fs_tables_def the_client_def bnd_def op_run split: prod.splits outcome.splits)

lemma resource_cases:
  "(case r of Fs_Object ob \<Rightarrow> fail e | Fs_View v \<Rightarrow> ret v) s = (Ok x, t) \<longleftrightarrow> r = Fs_View x \<and> t = s"
  "(case r of Fs_Object ob \<Rightarrow> fail e | Fs_View v \<Rightarrow> ret v) s = (Err e', t) \<longleftrightarrow> (\<exists>ob. r = Fs_Object ob) \<and> e' = e \<and> t = s"
  "(case r of Fs_Object ob \<Rightarrow> ret ob | Fs_View v \<Rightarrow> fail e) s = (Ok x, t) \<longleftrightarrow> r = Fs_Object x \<and> t = s"
  "(case r of Fs_Object ob \<Rightarrow> ret ob | Fs_View v \<Rightarrow> fail e) s = (Err e', t) \<longleftrightarrow> (\<exists>v. r = Fs_View v) \<and> e' = e \<and> t = s"
  by (cases r; auto simp: op_run)+

text \<open>What only talks to the root server or the kernel, or allocates addresses, keeps the books.\<close>

lemma keeps_rs [keeps_intro]: "(\<And>s cl. f (s\<lparr>fs_cl := cl\<rparr>) = f s) \<Longrightarrow> keeps f (rs_conn m)"
  by (simp add: keeps_def rs_conn_def on_part_def split: prod.splits)

lemma keeps_rs_handle [keeps_intro]: "(\<And>s cl. f (s\<lparr>fs_cl := cl\<rparr>) = f s) \<Longrightarrow> keeps f (rs_handle m)"
  unfolding rs_handle_def by (intro keeps_intro) (simp_all split: client_result.split add: keeps_intro)

lemma rs_handle_part: "rs_handle m s = (r, t) \<Longrightarrow> fs_part t = fs_part s"
  by (rule keepsD [OF keeps_rs_handle [OF fs_part_upd(1)]])

lemma rs_handle_cl: "rs_handle m s = (r, t) \<Longrightarrow> \<exists>cl. t = s\<lparr>fs_cl := cl\<rparr>"
  by (auto simp: rs_handle_def rs_conn_def on_part_def bnd_def op_run split: prod.splits outcome.splits client_result.splits)

lemma keeps_window [keeps_intro]: "keeps fs_part (allocate_window E)" "keeps fs_part (free_window E a)"
  by (auto simp: keeps_def allocate_window_def free_window_def op_run split: prod.splits option.splits)

lemma keeps_deregister [keeps_intro]: "keeps fs_part (deregister E reg)"
  unfolding deregister_def by (intro keeps_intro fs_part_upd)

lemma keeps_open_shared [keeps_intro]: "keeps fs_part (open_shared_buffer E reg sb)"
  unfolding open_shared_buffer_def Let_def
  by (intro keeps_intro fs_part_upd; simp split: client_result.split add: keeps_intro)

lemma keeps_close_shared [keeps_intro]: "keeps fs_part (close_shared_buffer E c)"
proof (cases "fc_shared_buffer c")
  case (Some x)
  then show ?thesis by (cases x) (auto simp: close_shared_buffer_def intro!: keeps_intro)
qed (simp add: close_shared_buffer_def keeps_basic)

lemma keeps_in_server [keeps_intro]: "keeps fs_part (in_server m)"
  by (simp add: keeps_def in_server_def split: prod.splits)

section \<open>The handlers keep the books\<close>

definition booked :: "('k, 'w, 'r, 'e, 'a) fs_op \<Rightarrow> bool" where
  "booked m \<longleftrightarrow> triple fs_inv m (\<lambda>_. fs_inv) fs_inv"

lemma bookedD: "booked m \<Longrightarrow> fs_inv s \<Longrightarrow> m s = (r, t) \<Longrightarrow> r \<noteq> Panic \<Longrightarrow> fs_inv t"
  unfolding booked_def by (cases r) (auto dest: tripleD)

lemma booked_keeps: "keeps fs_part m \<Longrightarrow> booked m"
  unfolding booked_def by (rule tripleI) (metis fs_inv_part keepsD)+

lemma fs_inv_client:
  assumes "fs_inv s" and "fs_clients s ! i = Some c" and "i < length (fs_clients s)"
  shows "length (fc_handles c) = FS_MAX_HANDLES"
  using assms by (auto simp: fs_inv_def dest!: booksD(2)) (metis nth_mem)

text \<open>On the error path nothing has been written yet.\<close>

definition err_keeps :: "('k, 'w, 'r, 'e, 'a) fs_op \<Rightarrow> bool" where
  "err_keeps m \<longleftrightarrow> (\<forall>s e t. m s = (Err e, t) \<longrightarrow> fs_part t = fs_part s)"

lemma err_keeps_bnd: "keeps fs_part m \<Longrightarrow> (\<And>x. err_keeps (f x)) \<Longrightarrow> err_keeps (bnd m f)"
  by (fastforce simp: err_keeps_def bnd_eq_Err dest: keepsD)

lemma err_keeps_nofail: "never_fails m \<Longrightarrow> err_keeps m"
  unfolding err_keeps_def never_fails_def by (metis fst_conv)

lemma err_keepsD: "err_keeps m \<Longrightarrow> fs_inv s \<Longrightarrow> m s = (Err e, t) \<Longrightarrow> fs_inv t"
  by (metis err_keeps_def fs_inv_part)

lemma nofail_fs [nofail_intro]:
  "never_fails (the_client i)" "never_fails (fs_new_view x)" "never_fails (set_views ob f)" "never_fails (put_fs_handles i tbl)"
  "never_fails (fs_forget_view i idx v)"
  unfolding the_client_def fs_new_view_def fresh_cell_def set_views_def put_fs_handles_def put_client_def fs_forget_view_def
  by (intro nofail_intro)+

text \<open>References to clients are slots of the table.\<close>

lemma booked_obj_open:
  assumes "i < MAX_CLIENTS"
  shows "booked (fs_handle_obj_open i args)"
  unfolding booked_def
proof (rule tripleI)
  fix s t x assume s: "fs_inv s" and run: "fs_handle_obj_open i args s = (Ok x, t)"
  then obtain ff c idx place cc where c: "fs_clients s ! i = Some c"
    and a: "generic_allocate_handle (fc_handles c, fs_caps s) (oo_return_cap args) = Ok (idx, place, cc)"
    and t: "t = s\<lparr>fs_next := Suc (fs_next s), fs_objects := (fs_objects s)(fs_next s := \<lparr>fo_file = ff, fo_views = []\<rparr>),
        fs_clients := (fs_clients s)[i := Some (c\<lparr>fc_handles := fst (write_place place (Fs_Object (fs_next s)) (fc_handles c, fs_caps s))\<rparr>)],
        fs_caps := snd (write_place place (Fs_Object (fs_next s)) (fc_handles c, fs_caps s))\<rparr>"
    by (auto simp: fs_handle_obj_open_def bnd_eq_Ok op_run fs_tables_Ok put_fs_tables_Ok fs_new_object_def fresh_cell_def
        split: option.splits prod.splits if_splits)
  have b: "fs_books (fs_clients s) ((fs_objects s)(fs_next s := \<lparr>fo_file = ff, fo_views = []\<rparr>)) (fs_views s)
      (Suc (fs_next s)) (fs_caps s)" using s by (auto simp: fs_inv_def intro: books_new_cell)
  have i: "i < length (fs_clients s)" using s assms by (simp add: fs_inv_def fs_books_def)
  show "fs_inv t"
  proof (cases place)
    case (Local j)
    then have "j < length (fc_handles c)" using a
      by (auto simp: generic_allocate_handle_def obind_eq_Ok allocate_handle_def find_Some_iff split: if_splits option.splits)
    then show ?thesis using books_object_handle [OF b c i] t Local by (simp add: fs_inv_def put_handle_def)
  next
    case (Cap j)
    have "(fs_clients s)[i := Some c] = fs_clients s" using c by (metis list_update_id)
    then show ?thesis using books_object_cap [OF b] t Cap by (simp add: fs_inv_def)
  qed
next
  fix s t e assume s: "fs_inv s" and "fs_handle_obj_open i args s = (Err e, t)"
  then have "t = s"
    by (auto simp: fs_handle_obj_open_def bnd_eq_Err bnd_eq_Ok op_run fs_tables_Ok put_fs_tables_Ok fs_new_object_def fresh_cell_def
        fs_tables_def the_client_run put_fs_tables_def put_fs_handles_def put_client_def unwrap_no_Err
        split: option.splits prod.splits if_splits)
  then show "fs_inv t" using s by simp
qed

lemma keeps_fs_reads [keeps_intro]:
  "keeps f (the_client i)" "keeps f (fs_tables i)" "keeps f (fs_resource i hndl which)" "keeps f (client_of_id ident)"
  "keeps f (view_of_reference i reference)"
proof -
  show c: "keeps f (the_client i)" for i unfolding the_client_def by (intro keeps_intro)
  then show "keeps f (fs_tables i)" for i unfolding fs_tables_def by (intro keeps_intro c)
  then show "keeps f (fs_resource i hndl which)" unfolding fs_resource_def by (intro keeps_intro)
  show "keeps f (client_of_id ident)" unfolding client_of_id_def by (intro keeps_intro)
  show "keeps f (view_of_reference i reference)"
    unfolding view_of_reference_def by (intro keeps_intro c) (simp split: BFSResource.split add: keeps_intro)
qed

lemma booked_obj_stat: "booked (fs_handle_obj_stat i args)"
  unfolding fs_handle_obj_stat_def
  by (intro booked_keeps keeps_intro) (simp_all split: BFSResource.split add: keeps_intro)

lemma generic_cleanup_cases:
  assumes "generic_cleanup_handle K hndl which ((tbl, caps), k) = (r, ((tbl', caps'), k'))"
  shows "(tbl' = tbl \<or> (\<exists>j. tbl' = tbl[j := None])) \<and> (caps' = caps \<or> (\<exists>j. caps' = clear_handle_cap j caps))"
  using assms
  by (auto simp: generic_cleanup_handle_def cleanup_handle_def cleanup_handle_cap_def
      split: ServerReceivedHandleOrHandleCap.splits if_splits option.splits prod.splits)

lemma cleared_cap: "h \<in> set (clear_handle_cap j caps) \<Longrightarrow> hc_handle h = Some r \<Longrightarrow> h \<in> set caps"
  by (auto simp: clear_handle_cap_def dest!: set_update_subset_insert [THEN subsetD])

lemma books_cleared:
  assumes b: "fs_books cs os vs n caps" and c: "cs ! i = Some c" "i < length cs"
    and t: "tbl = fc_handles c \<or> (\<exists>j. tbl = (fc_handles c)[j := None])" and h: "caps' = caps \<or> (\<exists>j. caps' = clear_handle_cap j caps)"
  shows "fs_books (cs[i := Some (c\<lparr>fc_handles := tbl\<rparr>)]) os vs n caps'"
proof (rule books_fewer [OF b])
  have l: "length tbl = length (fc_handles c)" using t by auto
  then show "\<forall>d. Some d \<in> set (cs[i := Some (c\<lparr>fc_handles := tbl\<rparr>)]) \<longrightarrow> length (fc_handles d) = FS_MAX_HANDLES"
    using booksD(2) [OF b] c by (auto dest!: set_update_subset_insert [THEN subsetD]) (metis nth_mem)
  show "held cs j idx r" if "held (cs[i := Some (c\<lparr>fc_handles := tbl\<rparr>)]) j idx r" for j idx r
  proof -
    have "fc_handles c ! idx = Some r" if "tbl ! idx = Some r" "idx < length tbl"
      using t
    proof
      assume "\<exists>k. tbl = (fc_handles c)[k := None]"
      then obtain k where k: "tbl = (fc_handles c)[k := None]" by blast
      then show ?thesis using that by (cases "k = idx") simp_all
    qed (use that in simp)
    then show ?thesis using that c l by (cases "j = i") (simp_all add: held_update held_def)
  qed
  show "\<exists>h \<in> set caps. hc_handle h = Some r" if "h \<in> set caps'" "hc_handle h = Some r" for h r
    using h that cleared_cap [of h _ caps r] by (elim disjE exE) auto
qed (use booksD(1) [OF b] in simp)

lemma booked_cleanup:
  assumes "i < MAX_CLIENTS"
  shows "booked (fs_cleanup_handle E i hndl which)"
  unfolding booked_def
proof (rule tripleI)
  have *: "fs_inv t" if s: "fs_inv s" and run: "fs_cleanup_handle E i hndl which s = (r, t)" and r: "r \<noteq> Panic" for s r t
  proof (cases "fs_clients s ! i")
    case None
    then show ?thesis using run r
      by (auto simp: fs_cleanup_handle_def fs_tables_def bnd_def op_run the_client_run the_client_def unwrap_def)
  next
    case (Some c)
    have tb: "fs_tables i s = (Ok (fc_handles c, fs_caps s), s)" using Some by (simp add: fs_tables_Ok)
    obtain x tbl caps k where g: "generic_cleanup_handle (fe_sel4 E) hndl which ((fc_handles c, fs_caps s), cl_kern (fs_cl s)) = (x, ((tbl, caps), k))"
      by (metis surj_pair)
    have "t = s\<lparr>fs_cl := (fs_cl s)\<lparr>cl_kern := k\<rparr>, fs_clients := (fs_clients s)[i := Some (c\<lparr>fc_handles := tbl\<rparr>)], fs_caps := caps\<rparr>"
      using run Some
      by (simp add: fs_cleanup_handle_def bnd_def op_run tb g put_fs_tables_def put_fs_handles_def put_client_def the_client_def unwrap_def)
    moreover have "i < length (fs_clients s)" using s assms by (simp add: fs_inv_def fs_books_def)
    ultimately show ?thesis using books_cleared [OF _ Some _ _ , of "fs_objects s" "fs_views s" "fs_next s" "fs_caps s"] s
        generic_cleanup_cases [OF g] by (simp add: fs_inv_def)
  qed
  then show "\<And>s t x. fs_inv s \<Longrightarrow> fs_cleanup_handle E i hndl which s = (Ok x, t) \<Longrightarrow> fs_inv t"
    "\<And>s t e. fs_inv s \<Longrightarrow> fs_cleanup_handle E i hndl which s = (Err e, t) \<Longrightarrow> fs_inv t" by blast+
qed

lemma booked_bnd: "booked m \<Longrightarrow> (\<And>x. booked (f x)) \<Longrightarrow> booked (bnd m f)"
  unfolding booked_def by (rule triple_bnd)

lemma booked_on_err: "booked m \<Longrightarrow> (\<And>e. booked (h e)) \<Longrightarrow> booked (on_err m h)"
  unfolding booked_def by (rule triple_on_err)

lemma booked_basic: "booked (ret x)" "booked (fail e)" "booked panic" "booked (lift r)" "booked (gets g)" "booked (ensure b)"
  by (rule booked_keeps, rule keeps_basic)+

lemma booked_expect: "booked m \<Longrightarrow> booked (expect m)"
  unfolding expect_def by (rule booked_on_err) (assumption, rule booked_basic)

lemma booked_obj_close: "i < MAX_CLIENTS \<Longrightarrow> booked (fs_handle_obj_close E i args)"
  unfolding fs_handle_obj_close_def
  by (intro booked_bnd booked_expect booked_cleanup booked_basic booked_keeps keeps_intro)
    (simp_all split: BFSResource.split add: keeps_intro)

lemma held_slot:
  assumes "fs_inv s" and "fs_clients s ! i = Some c" and "i < MAX_CLIENTS"
  shows "i < length (fs_clients s)" "length (fc_handles c) = FS_MAX_HANDLES"
proof -
  show i: "i < length (fs_clients s)" using assms by (simp add: fs_inv_def fs_books_def)
  show "length (fc_handles c) = FS_MAX_HANDLES" by (rule fs_inv_client [OF assms(1,2) i])
qed

text \<open>The object an argument names has been made.\<close>

lemma resource_object:
  assumes s: "fs_inv s" and i: "i < MAX_CLIENTS" and run: "fs_resource i hndl which s = (Ok (Fs_Object ob), t)"
  shows "ob < fs_next s"
proof -
  obtain c pl where c: "fs_clients s ! i = Some c"
    and g: "generic_get_handle (fc_handles c, fs_caps s) hndl which = Ok pl"
    and r: "read_place pl (fc_handles c, fs_caps s) = Some (Fs_Object ob)"
    using run by (auto simp: fs_resource_def bnd_eq_Ok op_run fs_tables_Ok unwrap_Ok)
  note b = s [unfolded fs_inv_def]
  show ?thesis
  proof (cases pl)
    case (Local j)
    then have "held (fs_clients s) i j (Fs_Object ob)"
      using c r g held_slot(1) [OF s c i]
      by (auto simp: held_def generic_get_handle_def obind_eq_Ok get_handle_mut_def map_err_eq_Ok split: ServerReceivedHandleOrHandleCap.splits if_splits)
    then show ?thesis by (rule booksD(3) [OF b])
  next
    case (Cap j)
    then have "fs_caps s ! j \<in> set (fs_caps s)" "hc_handle (fs_caps s ! j) = Some (Fs_Object ob)"
      using r g by (auto simp: generic_get_handle_def obind_eq_Ok get_handle_cap_mut_def map_err_eq_Ok split: ServerReceivedHandleOrHandleCap.splits if_splits)
    then show ?thesis by (rule booksD(4) [OF b])
  qed
qed

definition view_of :: "View \<Rightarrow> nat \<Rightarrow> u64 \<Rightarrow> fs_view" where
  "view_of args ob reg = \<lparr>fv_object = ob, fv_size = unat (vw_size args), fv_win_offset = unat (vw_window_offset args),
     fv_obj_offset = unat (vw_obj_offset args), fv_rights = vw_rights args, fv_registration = reg\<rparr>"

text \<open>What a view that is answered has done.\<close>

lemma view_run:
  assumes run: "fs_handle_view E publish_hndl i args s = (Ok x, t)"
  shows "\<exists>ob c idx reg cl. fs_resource i (vw_object args) 1 s = (Ok (Fs_Object ob), s) \<and> fs_clients s ! i = Some c \<and>
    allocate_handle (fc_handles c) = Ok idx \<and> x = Re_View (of_nat idx) \<and>
    t = s\<lparr>fs_cl := cl, fs_next := Suc (fs_next s), fs_views := (fs_views s)(fs_next s := view_of args ob reg),
       fs_objects := (fs_objects s)(ob := (fs_objects s ob)\<lparr>fo_views := fo_views (fs_objects s ob) @ [fs_next s]\<rparr>),
       fs_clients := (fs_clients s)[i := Some (c\<lparr>fc_handles := put_handle idx (Fs_View (fs_next s)) (fc_handles c)\<rparr>)]\<rparr>"
proof -
  obtain win s1 r s2 ob s3 c s4 idx reg u v s5 where r1: "fs_resource i (vw_object args) 1 s = (Ok r, s2)"
    and r2: "(case r of Fs_Object ob \<Rightarrow> ret ob | _ \<Rightarrow> fail InvalidArguments) s2 = (Ok ob, s3)"
    and c3: "fs_clients s3 ! i = Some c" and a: "allocate_handle (fc_handles c) = Ok idx"
    and w3: "rs_handle (window_register (fe_call E) publish_hndl win (of_nat (fc_id c)) (of_nat idx)) s3 = (Ok reg, u)"
    and v: "fs_new_view (view_of args ob reg) u = (Ok v :: (InvocationError, nat) outcome, s4)"
    and l: "set_views ob (\<lambda>vs. vs @ [v]) s4 = (Ok () :: (InvocationError, unit) outcome, s5)"
    and h: "put_fs_handles i (put_handle idx (Fs_View v) (fc_handles c)) s5 = (Ok () :: (InvocationError, unit) outcome, t)"
    and x: "Re_View (of_nat idx) = x"
    using run
    apply (simp add: fs_handle_view_def bnd_eq_Ok op_run the_client_run unwrap_Ok)
    apply (elim exE conjE)
    subgoal by (rule that) (assumption | (simp add: view_of_def; fail))+
    done
  have eq: "s2 = s" "s3 = s" "r = Fs_Object ob" using fs_resource_state [OF r1] r2 by (cases r; simp add: op_run)+
  note r = r1 [unfolded eq] and c = c3 [unfolded eq] and w = w3 [unfolded eq]
  have t: "\<exists>c'. fs_clients u ! i = Some c' \<and> t = u\<lparr>fs_next := Suc (fs_next u), fs_views := (fs_views u)(fs_next u := view_of args ob reg),
       fs_objects := (fs_objects u)(ob := (fs_objects u ob)\<lparr>fo_views := fo_views (fs_objects u ob) @ [fs_next u]\<rparr>),
       fs_clients := (fs_clients u)[i := Some (c'\<lparr>fc_handles := put_handle idx (Fs_View (fs_next u)) (fc_handles c)\<rparr>)]\<rparr>"
    using v l h by (auto simp: fs_new_view_def fresh_cell_def bnd_eq_Ok set_views_def op_run put_fs_handles_Ok)
  obtain cl where "u = s\<lparr>fs_cl := cl\<rparr>" using w rs_handle_cl by blast
  then show ?thesis using r c a x t by (intro exI [of _ ob] exI [of _ c] exI [of _ idx] exI [of _ reg] exI [of _ cl]) auto
qed

lemma booked_view:
  assumes i: "i < MAX_CLIENTS"
  shows "booked (fs_handle_view E publish_hndl i args)"
  unfolding booked_def
proof (rule tripleI)
  fix s t x assume s: "fs_inv s" and run: "fs_handle_view E publish_hndl i args s = (Ok x, t)"
  then obtain ob c idx reg cl where r: "fs_resource i (vw_object args) 1 s = (Ok (Fs_Object ob), s)"
    and c: "fs_clients s ! i = Some c" and a: "allocate_handle (fc_handles c) = Ok idx"
    and t: "t = s\<lparr>fs_cl := cl, fs_next := Suc (fs_next s), fs_views := (fs_views s)(fs_next s := view_of args ob reg),
       fs_objects := (fs_objects s)(ob := (fs_objects s ob)\<lparr>fo_views := fo_views (fs_objects s ob) @ [fs_next s]\<rparr>),
       fs_clients := (fs_clients s)[i := Some (c\<lparr>fc_handles := put_handle idx (Fs_View (fs_next s)) (fc_handles c)\<rparr>)]\<rparr>"
    using view_run by blast
  have ob: "ob < fs_next s" by (rule resource_object [OF s i r])
  have idx: "idx < length (fc_handles c)" using a by (auto simp: allocate_handle_def find_Some_iff split: option.splits)
  show "fs_inv t"
    using books_view [of "fs_clients s" "fs_objects s" "fs_views s" "fs_next s" "fs_caps s" i c idx ob "view_of args ob reg"]
      s held_slot(1) [OF s c i] idx ob c t
    by (simp add: fs_inv_def put_handle_def view_of_def)
next
  have "err_keeps (fs_handle_view E publish_hndl i args)"
    unfolding fs_handle_view_def
    by (rule err_keeps_bnd, ((intro keeps_intro fs_part_upd)?; simp split: BFSResource.split add: keeps_intro; fail))+
      (intro err_keeps_nofail nofail_intro)
  then show "\<And>s e t. fs_inv s \<Longrightarrow> fs_handle_view E publish_hndl i args s = (Err e, t) \<Longrightarrow> fs_inv t" by (rule err_keepsD)
qed

lemma booked_forget:
  assumes i: "i < MAX_CLIENTS"
    and c: "fs_clients s ! i = Some c" "idx < length (fc_handles c)" "fc_handles c ! idx = Some (Fs_View v)"
    and s: "fs_inv s" and run: "fs_forget_view i idx v s = (r, t)"
  shows "r = Ok () \<and> fs_inv t \<and> v \<notin> set (fo_views (fs_objects t (fv_object (fs_views s v))))"
proof -
  let ?ob = "fv_object (fs_views s v)"
  note b = s [unfolded fs_inv_def]
  have l: "i < length (fs_clients s)" by (rule held_slot(1) [OF s c(1) i])
  have "held (fs_clients s) i idx (Fs_View v)" using c l by (auto simp: held_def)
  then have "v \<in> set (fo_views (fs_objects s ?ob))" by (rule booksD(7) [OF b])
  then obtain pos where p: "position v (fo_views (fs_objects s ?ob)) = Some pos" using position_None by blast
  have t: "r = Ok ()" "t = s\<lparr>fs_objects := (fs_objects s)(?ob := (fs_objects s ?ob)\<lparr>fo_views := swap_remove pos (fo_views (fs_objects s ?ob))\<rparr>),
      fs_clients := (fs_clients s)[i := Some (c\<lparr>fc_handles := (fc_handles c)[idx := None]\<rparr>)]\<rparr>"
    using run p c(1)
    by (simp_all add: fs_forget_view_def bnd_def op_run unwrap_def set_views_def the_client_def put_fs_handles_def put_client_def)
  then show ?thesis
    using books_forget [OF b c(1) l c(2,3) refl p] swap_remove_set [OF booksD(9) [OF b] p] by (simp add: fs_inv_def)
qed

lemma booked_unview:
  assumes i: "i < MAX_CLIENTS"
  shows "booked (fs_handle_unview E i args)"
  unfolding booked_def
proof (rule tripleI)
  fix s t x assume s: "fs_inv s" and run: "fs_handle_unview E i args s = (Ok x, t)"
  then obtain c idx v w u where c: "fs_clients s ! i = Some c" and g: "get_handle_mut (unat (uv_hndl args)) (fc_handles c) = Ok idx"
    and v: "fc_handles c ! idx = Some (Fs_View v)"
    and d: "expect (rs_conn (window_deregister (fe_call E) (fv_registration (fs_views s v)))) s = (Ok w :: (InvocationError, client_result) outcome, u)"
    and f: "fs_forget_view i idx v u = (Ok () :: (InvocationError, unit) outcome, t)"
    by (auto simp: fs_handle_unview_def bnd_eq_Ok op_run the_client_run unwrap_Ok resource_cases)
  have "keeps fs_part (expect (rs_conn (window_deregister (fe_call E) reg)) :: ('a, 'b, 'c, InvocationError, client_result) fs_op)" for reg
    by (intro keeps_intro fs_part_upd)
  then have p: "fs_part u = fs_part s" using d by (rule keepsD)
  have "idx < length (fc_handles c)" using g by (auto simp: get_handle_mut_def split: if_splits)
  then show "fs_inv t" using booked_forget [OF i _ _ _ _ f, of c] p c v fs_inv_part [OF p] s by (simp add: fs_part_def)
next
  have "err_keeps (fs_handle_unview E i args)"
    unfolding fs_handle_unview_def
    by (rule err_keeps_bnd, ((intro keeps_intro fs_part_upd)?; simp split: BFSResource.split add: keeps_intro; fail))+
      (intro err_keeps_nofail nofail_intro)
  then show "\<And>s e t. fs_inv s \<Longrightarrow> fs_handle_unview E i args s = (Err e, t) \<Longrightarrow> fs_inv t" by (rule err_keepsD)
qed

text \<open>Clients come and go without handles.\<close>

lemma books_client:
  assumes b: "fs_books cs os vs n caps" and i: "i < length cs"
    and x: "\<forall>c. x = Some c \<longrightarrow> fc_handles c = replicate FS_MAX_HANDLES None"
  shows "fs_books (cs[i := x]) os vs n caps"
proof (rule books_fewer [OF b])
  show "\<forall>c. Some c \<in> set (cs[i := x]) \<longrightarrow> length (fc_handles c) = FS_MAX_HANDLES"
    using booksD(2) [OF b] x by (auto dest!: set_update_subset_insert [THEN subsetD])
  show "held cs j idx r" if "held (cs[i := x]) j idx r" for j idx r
    using that x by (auto simp: held_update split: if_splits)
qed (use booksD(1) [OF b] in auto)

lemma booked_put_client:
  assumes "i < MAX_CLIENTS" and "\<forall>c. x = Some c \<longrightarrow> fc_handles c = replicate FS_MAX_HANDLES None"
  shows "booked (put_client i x)"
  unfolding booked_def
  by (rule tripleI) (use assms in \<open>auto simp: put_client_def op_run fs_inv_def booksD(1) intro!: books_client\<close>)

lemma booked_gets_bnd: "(\<And>s. fs_inv s \<Longrightarrow> booked (f (g s))) \<Longrightarrow> booked (bnd (gets g) f)"
  unfolding booked_def triple_def by simp

lemma client_index_bound: "client_index P cs = Some i \<Longrightarrow> i < length cs \<and> P (cs ! i)"
  by (auto simp: client_index_def dest: find_upt_Some)

lemma inv_clients: "fs_inv s \<Longrightarrow> length (fs_clients s) = MAX_CLIENTS"
  by (simp add: fs_inv_def fs_books_def)

lemma booked_ok_or: "(\<And>x. y = Some x \<Longrightarrow> booked (f x)) \<Longrightarrow> booked (bnd (lift (ok_or e y)) f)"
  by (cases y) (simp_all add: booked_def triple_def bnd_def op_run)

lemma booked_conn_open: "booked (fs_handle_conn_open E publish_hndl ident args)"
  unfolding fs_handle_conn_open_def
proof (intro booked_gets_bnd booked_ok_or booked_bnd)
  fix s slot reg x assume s: "fs_inv s" "find_client_slot (fs_clients s) = Some slot"
  show "booked (rs_handle (conn_register (fe_call E) publish_hndl (of_nat ident)))"
    by (intro booked_keeps keeps_intro fs_part_upd)
  show "booked (case co_shared_buf_obj args of None \<Rightarrow> ret None
      | Some sb \<Rightarrow> bnd (open_shared_buffer E reg sb) (\<lambda>x. ret (Some x)))"
    by (intro booked_keeps) (auto intro!: keeps_intro split: option.split)
  have "slot < MAX_CLIENTS" using s inv_clients [OF s(1)] by (auto simp: find_client_slot_def dest: client_index_bound)
  then show "booked (put_client slot (Some \<lparr>fc_id = ident, fc_shared_buffer = x,
      fc_handles = replicate FS_MAX_HANDLES None, fc_registration = reg\<rparr>))" by (rule booked_put_client) simp
qed (rule booked_basic)

lemma booked_delete: "i < MAX_CLIENTS \<Longrightarrow> booked (delete_client i)"
  unfolding delete_client_def by (intro booked_bnd booked_basic) (simp add: booked_basic booked_put_client)

lemma booked_conn_close: "i < MAX_CLIENTS \<Longrightarrow> booked (fs_handle_conn_close E i)"
  unfolding fs_handle_conn_close_def
  by (intro booked_bnd booked_expect booked_delete booked_basic; (intro booked_keeps keeps_intro)?)

lemma booked_client_of: "(\<And>i. i < MAX_CLIENTS \<Longrightarrow> booked (f i)) \<Longrightarrow> booked (bnd (client_of_id ident) f)"
proof -
  assume f: "\<And>i. i < MAX_CLIENTS \<Longrightarrow> booked (f i)"
  have "booked (bnd (lift (unwrap (find_client_from_id (unat ident) (fs_clients s)))) f)" if "fs_inv s" for s :: "('a, 'b, 'c) bfs"
  proof (cases "find_client_from_id (unat ident) (fs_clients s)")
    case (Some i)
    then have "i < MAX_CLIENTS" using inv_clients [OF that] by (auto simp: find_client_from_id_def dest: client_index_bound)
    then show ?thesis using f Some by (simp add: booked_def triple_def bnd_def op_run unwrap_def)
  qed (simp add: booked_def triple_def bnd_def op_run unwrap_def)
  then show ?thesis unfolding client_of_id_def bnd_assoc by (rule booked_gets_bnd)
qed

lemma booked_vm_fault: "booked (fs_vm_fault E args)"
  unfolding fs_vm_fault_def by (intro booked_keeps keeps_intro fs_part_upd)

lemma booked_conn_destroy: "booked (fs_conn_destroy_ntfn E args)"
  unfolding fs_conn_destroy_ntfn_def
  by (rule booked_client_of, intro booked_bnd booked_expect booked_delete booked_basic; (intro booked_keeps keeps_intro)?)

lemma view_or_panic: "(case r of Fs_Object ob \<Rightarrow> panic | Fs_View v \<Rightarrow> ret v) s = (Ok x, t) \<longleftrightarrow> r = Fs_View x \<and> t = s"
  by (cases r) (auto simp: op_run)

lemma view_of_reference_Ok:
  "view_of_reference i ref s = (Ok v, t) \<longleftrightarrow>
     t = s \<and> (\<exists>c. fs_clients s ! i = Some c \<and> unat ref < length (fc_handles c) \<and> fc_handles c ! unat ref = Some (Fs_View v))"
  by (auto simp: view_of_reference_def bnd_eq_Ok op_run the_client_run unwrap_Ok view_or_panic expect_def on_err_def get_handle_def)

lemma booked_win_destroy: "booked (fs_win_destroy_ntfn args :: ('k, 'w, 'r, InvocationError, unit) fs_op)"
  unfolding fs_win_destroy_ntfn_def
proof (rule booked_client_of)
  fix i assume i: "i < MAX_CLIENTS"
  let ?m = "bnd (view_of_reference i (wdn_reference args)) (\<lambda>v. fs_forget_view i (unat (wdn_reference args)) v)
    :: ('k, 'w, 'r, InvocationError, unit) fs_op"
  have "never_fails ?m" unfolding view_of_reference_def
    by (intro nofail_intro; simp split: BFSResource.split add: nofail_intro expect_def on_err_def never_fails_def op_run split: outcome.split)
  moreover have "fs_inv t" if s: "fs_inv s" and run: "?m s = (Ok u, t)" for s t u
  proof -
    obtain v c where c: "fs_clients s ! i = Some c" "unat (wdn_reference args) < length (fc_handles c)"
      "fc_handles c ! unat (wdn_reference args) = Some (Fs_View v)"
      and f: "fs_forget_view i (unat (wdn_reference args)) v s = (Ok u :: (InvocationError, unit) outcome, t)"
      using run by (auto simp: bnd_eq_Ok view_of_reference_Ok)
    show ?thesis using booked_forget [OF i c s f] by simp
  qed
  ultimately show "booked ?m" unfolding booked_def by (intro tripleI) (auto simp: never_fails_def, metis fst_conv)
qed

lemma booked_ntfn: "booked (fs_ntfn E m)"
  by (cases m) (simp_all add: booked_vm_fault booked_conn_destroy booked_win_destroy)

lemma booked_notification: "booked (handle_notification E fuel)"
proof (induction fuel)
  case (Suc fuel)
  have "keeps fs_part (expect (on_part fs_ring fs_ring_update m))" for m :: "('r, unit, NotificationType option) op"
    by (intro keeps_intro) (simp add: keeps_def on_part_def split: prod.splits)
  then show ?case using Suc
    by (auto intro!: booked_bnd booked_keeps [of "expect m" for m] booked_ntfn booked_basic split: option.split)
qed (simp add: booked_basic)

lemma booked_dispatch: "i < MAX_CLIENTS \<Longrightarrow> booked (fs_dispatch E publish_hndl i iv)"
  by (cases iv)
    (simp_all add: booked_basic booked_conn_close booked_obj_open booked_obj_close booked_obj_stat booked_view booked_unview)

lemma booked_serve: "booked (fs_serve E publish_hndl ident iv)"
  unfolding fs_serve_def
proof (rule booked_gets_bnd)
  fix s :: "('a, 'b, 'c) bfs" assume s: "fs_inv s"
  show "booked (case (find_client_from_id ident (fs_clients s), iv) of
       (None, I_ConnOpen t) \<Rightarrow> fs_handle_conn_open E publish_hndl ident t
     | (Some _, I_ConnOpen t) \<Rightarrow> panic
     | (None, _) \<Rightarrow> panic
     | (Some i, _) \<Rightarrow> fs_dispatch E publish_hndl i iv)"
  proof (cases "find_client_from_id ident (fs_clients s)")
    case None
    then show ?thesis by (cases iv) (simp_all add: booked_basic booked_conn_open)
  next
    case (Some i)
    then have "i < MAX_CLIENTS" using inv_clients [OF s] by (auto simp: find_client_from_id_def dest: client_index_bound)
    then show ?thesis using Some by (cases iv) (simp_all add: booked_basic booked_dispatch del: fs_dispatch.simps)
  qed
qed

lemma booked_attempt:
  assumes m: "booked m" and "\<And>x. booked (f (Ok x))" and "\<And>e. booked (f (Err e))"
  shows "booked (bnd (attempt m) f)"
proof -
  have "triple (\<lambda>s. case r of Ok x \<Rightarrow> fs_inv s | Err e \<Rightarrow> fs_inv s | Panic \<Rightarrow> False) (f r) (\<lambda>_. fs_inv) fs_inv" for r
    using assms(2,3) by (cases r) (simp_all add: booked_def triple_def)
  then show ?thesis unfolding booked_def by (rule triple_bnd [OF triple_attempt [OF m [unfolded booked_def]]])
qed

lemma booked_for_each: "(\<And>x. booked (f x)) \<Longrightarrow> booked (for_each f xs)"
  by (induction xs) (simp_all add: booked_basic booked_bnd)

lemma booked_round: "booked (fs_round E publish_hndl recv fuel msg badge)"
proof -
  have n: "booked (bnd (handle_notification E fuel) ensure)" by (intro booked_bnd booked_notification booked_basic)
  have i: "booked (bnd (attempt (in_server (smos_serv_decode_invocation (fe_sel4 E) ObjectServerConnection msg recv data))) (\<lambda>r.
         case r of
           Panic \<Rightarrow> panic
         | Err mi \<Rightarrow> ret mi
         | Ok iv \<Rightarrow>
             bnd (attempt (fs_serve E publish_hndl ident iv)) (\<lambda>x.
             expect (in_server (smos_serv_cleanup (fe_sel4 E) iv recv x)))))" for data ident
    by (rule booked_attempt) (auto intro!: booked_attempt booked_serve booked_expect booked_keeps [OF keeps_in_server] booked_basic)
  show ?thesis unfolding fs_round_def
    by (intro booked_bnd booked_basic) (auto split: EntryType.split intro!: booked_bnd booked_for_each n i booked_basic)
qed

section \<open>Start-up\<close>

text \<open>No client, no view and no handle capability yet.\<close>

definition fs_fresh :: "('k, 'w, 'r) bfs \<Rightarrow> bool" where
  "fs_fresh s \<longleftrightarrow> fs_clients s = replicate MAX_CLIENTS None \<and> (\<forall>ob. fo_views (fs_objects s ob) = []) \<and>
     (\<forall>h \<in> set (fs_caps s). hc_handle h = None)"

lemma fresh_inv: "fs_fresh s \<Longrightarrow> fs_inv s"
  unfolding fs_inv_def by (rule booksI) (auto simp: fs_fresh_def held_def)

lemma keeps_slot [keeps_intro]: "(\<And>s cl. f (s\<lparr>fs_cl := cl\<rparr>) = f s) \<Longrightarrow> keeps f fs_alloc_slot"
  unfolding fs_alloc_slot_def by (intro keeps_intro) (simp add: keeps_def on_part_def split: prod.splits)

lemma cap_table_run:
  "init_handle_cap_table E h is s = (Ok tbl, t) \<Longrightarrow> fs_part t = fs_part s \<and> length tbl = length is \<and> (\<forall>x \<in> set tbl. hc_handle x = None)"
proof (induction "is" arbitrary: s tbl t)
  case (Cons i "is")
  have k: "keeps fs_part (expect m)" if "keeps fs_part m" for m :: "('a, 'b, 'c, InvocationError, client_result) fs_op"
    using that by (rule keeps_expect)
  obtain slot s1 r s2 tbl' where "fs_alloc_slot s = (Ok slot :: (InvocationError, abs_cptr) outcome, s1)"
    "expect (rs_conn (server_handle_cap_create (fe_call E) h (of_nat i) slot)) s1 = (Ok r :: (InvocationError, client_result) outcome, s2)"
    and t: "init_handle_cap_table E h is s2 = (Ok tbl', t)" "tbl = \<lparr>hc_handle = None, hc_root_cap = Some slot\<rparr> # tbl'"
    using Cons.prems by (auto simp: bnd_eq_Ok op_run)
  then have "fs_part s2 = fs_part s"
    using keepsD [OF keeps_slot [OF fs_part_upd(1)]] keepsD [OF k [OF keeps_rs [OF fs_part_upd(1)]]] by metis
  then show ?case using Cons.IH [OF t(1)] t(2) by simp
qed (simp add: op_run)

lemma fs_part_files [simp]: "fs_part (s\<lparr>fs_files := x\<rparr>) = fs_part s"
  by (simp add: fs_part_def)

text \<open>After \<open>main\<close>, the loop starts with no client and as many handle capabilities as it has slots for.\<close>

lemma main_fresh:
  assumes s: "fs_fresh s" and main: "fs_main E elf s = (Ok (h, reply), t)" and loop: "fs_loop_start E h t = (Ok recv, u)"
  shows "fs_fresh u \<and> length (fs_caps u) = FS_MAX_HANDLE_CAPS"
proof -
  have "keeps fs_part (fs_main E elf)" for E :: "('a, 'b, 'c) fs_env"
    unfolding fs_main_def
    by (intro keeps_intro fs_part_upd fs_part_files) (simp split: client_result.split add: keeps_intro)
  then have 1: "fs_part t = fs_part s" using main by (rule keepsD)
  let ?tail = "bnd fs_alloc_slot (\<lambda>recv. bnd (rs_conn (ipc_write (set_recv_slot recv))) (\<lambda>_. ret recv))
    :: ('a, 'b, 'c, InvocationError, abs_cptr) fs_op"
  have tail: "keeps fs_part ?tail" by (intro keeps_intro fs_part_upd)
  obtain tbl t' where 2: "init_handle_cap_table E h [0..<FS_MAX_HANDLE_CAPS] t = (Ok tbl, t')"
    and 3: "?tail (t'\<lparr>fs_caps := tbl\<rparr>) = (Ok recv, u)"
    using loop by (auto simp: fs_loop_start_def bnd_eq_Ok op_run)
  have "fs_part u = fs_part (t'\<lparr>fs_caps := tbl\<rparr>)" by (rule keepsD [OF tail 3])
  then show ?thesis using s 1 cap_table_run [OF 2] by (auto simp: fs_fresh_def fs_part_def)
qed

text \<open>More fuel than there are notifications queued is enough: the loop ends on the empty ring.\<close>

lemma keeps_ring_parts [keeps_intro]:
  "keeps fs_ring (put_client i x)" "keeps fs_ring (free_window E a)" "keeps fs_ring (set_views ob f)"
  unfolding put_client_def free_window_def set_views_def by (intro keeps_intro; simp)+

lemma keeps_ring_client [keeps_intro]:
  "keeps fs_ring (delete_client i)" "keeps fs_ring (fs_forget_view i idx v)" "keeps fs_ring (close_shared_buffer E c)"
proof -
  show "keeps fs_ring (delete_client i)" unfolding delete_client_def by (intro keeps_intro) (simp add: keeps_intro)
  show "keeps fs_ring (fs_forget_view i idx v)" unfolding fs_forget_view_def put_fs_handles_def by (intro keeps_intro)
  show "keeps fs_ring (close_shared_buffer E c)"
  proof (cases "fc_shared_buffer c")
    case (Some x)
    then show ?thesis by (cases x) (auto simp: close_shared_buffer_def intro!: keeps_intro)
  qed (simp add: close_shared_buffer_def keeps_basic)
qed

lemma keeps_ring: "keeps fs_ring (fs_ntfn E m)"
  by (cases m; simp add: fs_vm_fault_def fs_conn_destroy_ntfn_def fs_win_destroy_ntfn_def; intro keeps_intro; simp)

lemma notifications_drained:
  assumes r: "ring_fifo enq (fe_deq E) q"
  shows "length (q (fs_ring s)) < fuel \<Longrightarrow> handle_notification E fuel s = (Ok b, t) \<Longrightarrow> b \<and> q (fs_ring t) = []"
proof (induction fuel arbitrary: s)
  case (Suc fuel)
  let ?d = "on_part fs_ring fs_ring_update (dequeue_ntfn_buffer_msg (fe_deq E))"
  have d: "case q x of [] \<Rightarrow> fe_deq E x = (Ok None, x) | d # ds \<Rightarrow> \<exists>y. fe_deq E x = (Ok (Some d), y) \<and> q y = ds" for x
    using r unfolding ring_fifo_def by blast
  show ?case
  proof (cases "q (fs_ring s)")
    case Nil
    then have "fe_deq E (fs_ring s) = (Ok None, fs_ring s)" using d [of "fs_ring s"] by simp
    then show ?thesis using Suc.prems(2) Nil
      by (auto simp: bnd_def op_run expect_def on_err_def on_part_def dequeue_ntfn_buffer_msg_def)
  next
    case (Cons x xs)
    then obtain y where y: "fe_deq E (fs_ring s) = (Ok (Some x), y)" "q y = xs" using d [of "fs_ring s"] by auto
    obtain m u where f: "fs_ntfn E m (s\<lparr>fs_ring := y\<rparr>) = (Ok (), u)" and h: "handle_notification E fuel u = (Ok b, t)"
      using Suc.prems(2) y(1)
      by (auto simp: bnd_def op_run expect_def on_err_def on_part_def dequeue_ntfn_buffer_msg_def lift_def
          split: outcome.splits prod.splits)
    have "fs_ring u = y" using keepsD [OF keeps_ring f] by simp
    then show ?thesis using Suc.IH [OF _ h] Suc.prems(1) Cons y(2) by simp
  qed
qed simp

section \<open>Properties\<close>

lemma booked_rounds: "booked (for_each (\<lambda>(msg, badge). bnd (fs_round E h recv fuel msg badge) (\<lambda>_. ret ())) arrivals)"
  by (intro booked_for_each) (auto intro!: booked_bnd booked_round booked_basic)

lemma unview_runs:
  assumes s: "fs_inv s" and i: "i < MAX_CLIENTS"
    and c: "fs_clients s ! i = Some c" "idx < length (fc_handles c)" "fc_handles c ! idx = Some (Fs_View v)"
    and d: "rs_conn (window_deregister (fe_call E) (fv_registration (fs_views s v))) s = (Ok y, u)"
  shows "\<exists>t. fs_handle_unview E i \<lparr>uv_hndl = of_nat idx\<rparr> s = (Ok Re_Unview, t) \<and> fs_inv t \<and>
     (\<forall>j jdx. \<not> held (fs_clients t) j jdx (Fs_View v)) \<and> v \<notin> set (fo_views (fs_objects t (fv_object (fs_views s v))))"
proof -
  have p: "fs_part u = fs_part s" by (rule keepsD [OF keeps_rs [OF fs_part_upd(1)] d])
  have e: "expect (rs_conn (window_deregister (fe_call E) (fv_registration (fs_views s v)))) s = (Ok y :: (InvocationError, client_result) outcome, u)"
    using d by (simp add: expect_def on_err_def)
  have u: "fs_inv u" "fs_clients u = fs_clients s" "fs_views u = fs_views s" using fs_inv_part [OF p] s p by (simp_all add: fs_part_def)
  obtain r t where f: "fs_forget_view i idx v u = (r :: (InvocationError, unit) outcome, t)" by fastforce
  have t: "r = Ok ()" "fs_inv t" "v \<notin> set (fo_views (fs_objects t (fv_object (fs_views s v))))"
    using booked_forget [OF i _ c(2,3) u(1) f] c(1) u by simp_all
  have "keeps fs_views (fs_forget_view i idx v :: ('a, 'b, 'c, InvocationError, unit) fs_op)"
    unfolding fs_forget_view_def set_views_def put_fs_handles_def put_client_def by (intro keeps_intro) simp_all
  then have "fs_views t = fs_views s" using f u(3) by (auto dest: keepsD)
  then have h: "\<not> held (fs_clients t) j jdx (Fs_View v)" for j jdx
    using booksD(7) [OF t(2) [unfolded fs_inv_def], of j jdx v] t(3) by auto
  have l: "idx < 2 ^ 64" using c(2) held_slot(2) [OF s c(1) i] by (simp add: const_defs)
  have "fs_handle_unview E i \<lparr>uv_hndl = of_nat idx\<rparr> s = (Ok Re_Unview, t)"
    using c l e f t(1)
    by (simp add: fs_handle_unview_def bnd_def op_run the_client_def unwrap_def get_handle_mut_def unat_of_nat)
  then show ?thesis using t h by blast
qed

text \<open>C36: The boot file server's books.  Whatever messages, notifications and calls it has served from a
  state in which its books are right (as they are after start-up), every view that a client's handle
  names can be unviewed as soon as the root server agrees to give up the window: the call succeeds, the
  view is in no handle and in no object's list any more, and the books are right again.\<close>

theorem file_server_unview:
  assumes "fs_inv s" and "for_each (\<lambda>(msg, badge). bnd (fs_round E h recv fuel msg badge) (\<lambda>_. ret ())) arrivals s = (Ok (), t)"
    and "i < MAX_CLIENTS" and "fs_clients t ! i = Some c" and "idx < length (fc_handles c)"
    and "fc_handles c ! idx = Some (Fs_View v)"
    and "rs_conn (window_deregister (fe_call E) (fv_registration (fs_views t v))) t = (Ok y, u)"
  shows "\<exists>t'. fs_handle_unview E i \<lparr>uv_hndl = of_nat idx\<rparr> t = (Ok Re_Unview, t') \<and> fs_inv t' \<and>
     (\<forall>j jdx. \<not> held (fs_clients t') j jdx (Fs_View v)) \<and> v \<notin> set (fo_views (fs_objects t' (fv_object (fs_views t v))))"
  by (rule unview_runs [OF bookedD [OF booked_rounds assms(1,2)] assms(3-7)]) simp

text \<open>The state of the witnesses: one client, with an object in its first handle and a view of it in the
  second, and a root server that accepts every call.\<close>

definition demo_env :: "(nat, unit, unit) fs_env" where
  "demo_env = \<lparr>fe_sel4 = counting_kernel, fe_call = (\<lambda>mi cl. (mk_msginfo NoErrorLabel 1 0, cl)),
     fe_allocate = (\<lambda>w. (Some (0, 0), w)), fe_free = (\<lambda>a w. w), fe_deq = (\<lambda>q. (Ok None, q)),
     fe_read = (\<lambda>k addr len. []), fe_valid_elf = (\<lambda>_. True)\<rparr>"

definition demo_client :: fs_client where
  "demo_client = \<lparr>fc_id = 7, fc_shared_buffer = None,
     fc_handles = (replicate FS_MAX_HANDLES None)[0 := Some (Fs_Object 0), 1 := Some (Fs_View 1)], fc_registration = 3\<rparr>"

definition demo_fs :: "(nat, unit, unit) bfs" where
  "demo_fs = \<lparr>fs_cl = \<lparr>cl_ipc = \<lparr>msg_regs = (\<lambda>_. 0), caps_or_badges = (\<lambda>_. 0), recv_slot = \<lparr>ac_root = 2, ac_bits = 5, ac_depth = 64\<rparr>\<rparr>,
       cl_buf = None, cl_cspace = ucs_new 2, cl_kern = 0\<rparr>,
     fs_files = [], fs_clients = (replicate MAX_CLIENTS None)[0 := Some demo_client],
     fs_objects = (\<lambda>ob. \<lparr>fo_file = \<lparr>ff_name = [], ff_addr = 0x400000, ff_data = replicate 16 0\<rparr>,
       fo_views = (if ob = 0 then [1] else [])\<rparr>),
     fs_views = (\<lambda>_. \<lparr>fv_object = 0, fv_size = 0x1000, fv_win_offset = 0, fv_obj_offset = 0, fv_rights = 0, fv_registration = 4\<rparr>),
     fs_next = 2, fs_caps = [], fs_windows = (), fs_ring = ()\<rparr>"

lemma demo_held: "held (fs_clients demo_fs) i idx r \<longleftrightarrow> i = 0 \<and> (idx = 0 \<and> r = Fs_Object 0 \<or> idx = 1 \<and> r = Fs_View 1)"
proof -
  have e: "fs_clients demo_fs ! j = Some c \<longleftrightarrow> j = 0 \<and> c = demo_client" if "j < MAX_CLIENTS" for j c
    using that by (auto simp: demo_fs_def nth_list_update const_defs)
  have l: "length (fs_clients demo_fs) = MAX_CLIENTS" by (simp add: demo_fs_def)
  have h: "fc_handles demo_client ! idx = Some r \<longleftrightarrow> idx = 0 \<and> r = Fs_Object 0 \<or> idx = 1 \<and> r = Fs_View 1" if "idx < FS_MAX_HANDLES"
    using that by (auto simp: demo_client_def nth_list_update const_defs)
  show ?thesis using e h l by (auto simp: held_def) (simp_all add: demo_client_def const_defs)
qed

lemma demo_inv: "fs_inv demo_fs"
  unfolding fs_inv_def
proof (rule booksI)
  show "\<forall>c. Some c \<in> set (fs_clients demo_fs) \<longrightarrow> length (fc_handles c) = FS_MAX_HANDLES"
    by (auto simp: demo_fs_def demo_client_def dest!: set_update_subset_insert [THEN subsetD])
qed (auto simp: demo_held, auto simp: demo_fs_def)

lemma demo_round: "fs_round demo_env h recv 1 msg (NTFN_BIT OR 1) demo_fs = (Ok None, demo_fs)"
proof -
  have "trailing_zeros (1 :: u64) = 0" using trailing_zeros_bit [of "1 :: u64"] by (simp add: bit_1_iff)
  then have b: "ntfn_bits 1 = [0]" by (simp add: ntfn_bits_unfold)
  have d: "(decode_entry_type (NTFN_BIT OR 1) :: (InvocationError, EntryType) outcome) = Ok (Notification 1)"
    by (simp add: decode_entry_type_def const_defs)
  have "expect (on_part fs_ring fs_ring_update (dequeue_ntfn_buffer_msg (fe_deq demo_env))) demo_fs =
      (Ok None :: (InvocationError, NotificationType option) outcome, demo_fs)"
    by (simp add: bnd_def op_run expect_def on_err_def on_part_def dequeue_ntfn_buffer_msg_def demo_env_def)
  then show ?thesis by (simp add: fs_round_def d b bnd_def op_run)
qed

lemma demo_deregister: "\<exists>y u. rs_conn (window_deregister (fe_call demo_env) reg) demo_fs = (Ok y, u)"
  by (simp add: rs_conn_def on_part_def window_deregister_def window_deregister_req_def invoke_def send_def ipc_write_def ret_unit_def
      bnd_def op_run demo_env_def)

theorem file_server_unview_witness:
  "\<exists>t. fs_handle_unview demo_env 0 \<lparr>uv_hndl = of_nat 1\<rparr> demo_fs = (Ok Re_Unview, t) \<and> fs_inv t"
proof -
  have r: "for_each (\<lambda>(msg, badge). bnd (fs_round demo_env 3 recv 1 msg badge) (\<lambda>_. ret ())) [(mi, NTFN_BIT OR 1)] demo_fs =
      (Ok (), demo_fs)" for recv mi by (simp add: bnd_def op_run demo_round [simplified])
  obtain y u where d: "rs_conn (window_deregister (fe_call demo_env) (fv_registration (fs_views demo_fs 1))) demo_fs = (Ok y, u)"
    using demo_deregister by blast
  have c: "fs_clients demo_fs ! 0 = Some demo_client" by (simp add: demo_fs_def const_defs)
  have h: "1 < length (fc_handles demo_client)" "fc_handles demo_client ! 1 = Some (Fs_View 1)"
    by (simp_all add: demo_client_def const_defs)
  have m: "0 < MAX_CLIENTS" by (simp add: const_defs)
  from file_server_unview [OF demo_inv r m c h d] show ?thesis by blast
qed

text \<open>C37: What a client can see of the boot file server.  After a view that is answered, a fault anywhere in
  it, up to and including the byte after its end, makes the server ask for the page of its own memory
  that lies the fault's offset in the object behind the file's first byte (unless a sum overflows).
  The length of the file is not looked at, neither when the view is made nor at the fault, so a client
  reads the server's memory behind a file as far as it likes.\<close>

theorem file_views_unbounded:
  assumes "fs_inv s" and "i < MAX_CLIENTS" and "fs_handle_view E publish_hndl i args s = (Ok (Re_View h), t)"
    and "find_client_from_id (unat ident) (fs_clients t) = Some i" and "k \<le> unat (vw_size args)"
    and "unat (vw_window_offset args) + unat (vw_size args) < usize_lim" and "k + unat (vw_obj_offset args) < usize_lim"
  shows "\<exists>ob reg. fs_resource i (vw_object args) 1 s = (Ok (Fs_Object ob), s) \<and>
    fs_vm_fault E \<lparr>vf_client_id = ident, vf_reference = h, vf_fault_offset = vw_window_offset args + of_nat k\<rparr> t =
      bnd (expect (rs_conn (page_map (fe_call E) reg (vw_window_offset args + of_nat k)
        (of_nat (ff_addr (fo_file (fs_objects s ob)) + (k + unat (vw_obj_offset args))))))) (\<lambda>_. ret ()) t"
proof -
  obtain ob c idx reg cl where r: "fs_resource i (vw_object args) 1 s = (Ok (Fs_Object ob), s)"
    and c: "fs_clients s ! i = Some c" and a: "allocate_handle (fc_handles c) = Ok idx" and h: "h = of_nat idx"
    and t: "t = s\<lparr>fs_cl := cl, fs_next := Suc (fs_next s), fs_views := (fs_views s)(fs_next s := view_of args ob reg),
       fs_objects := (fs_objects s)(ob := (fs_objects s ob)\<lparr>fo_views := fo_views (fs_objects s ob) @ [fs_next s]\<rparr>),
       fs_clients := (fs_clients s)[i := Some (c\<lparr>fc_handles := put_handle idx (Fs_View (fs_next s)) (fc_handles c)\<rparr>)]\<rparr>"
    using view_run [OF assms(3)] by auto
  have l: "i < length (fs_clients s)" "length (fc_handles c) = 16"
    using held_slot [OF assms(1) c assms(2)] by (simp_all add: const_defs)
  have idx: "idx < length (fc_handles c)" using a by (auto simp: allocate_handle_def find_Some_iff split: option.splits)
  then have hi: "unat h = idx" using l h by (simp add: unat_of_nat)
  have v: "view_of_reference i h t = (Ok (fs_next s) :: (InvocationError, nat) outcome, t)"
    using l idx hi by (simp add: view_of_reference_Ok t put_handle_def)
  have f: "unat (vw_window_offset args + of_nat k) = unat (vw_window_offset args) + k"
    using assms(5,6) by (simp add: unat_word_ariths unat_of_nat)
  have vt: "fs_views t (fs_next s) = view_of args ob reg" and ot: "fo_file (fs_objects t ob) = fo_file (fs_objects s ob)"
    by (simp_all add: t)
  have "fs_vm_fault E \<lparr>vf_client_id = ident, vf_reference = h, vf_fault_offset = vw_window_offset args + of_nat k\<rparr> t =
      bnd (expect (rs_conn (page_map (fe_call E) reg (vw_window_offset args + of_nat k)
        (of_nat (ff_addr (fo_file (fs_objects s ob)) + (k + unat (vw_obj_offset args))))))) (\<lambda>_. ret ()) t"
    using assms(4-7) v
    by (simp add: fs_vm_fault_def client_of_id_def bnd_def op_run unwrap_def vt view_of_def f ot add_us_def sub_us_def)
  then show ?thesis using r by blast
qed

lemma allocate_handle_least:
  "i < length tbl \<Longrightarrow> tbl ! i = None \<Longrightarrow> (\<And>j. j < i \<Longrightarrow> tbl ! j \<noteq> None) \<Longrightarrow> allocate_handle tbl = Ok i"
proof -
  assume "i < length tbl" "tbl ! i = None" "\<And>j. j < i \<Longrightarrow> tbl ! j \<noteq> None"
  then have "List.find (\<lambda>i. tbl ! i = None) [0..<length tbl] = Some i"
    unfolding find_Some_iff by (intro exI [of _ i]) simp
  then show ?thesis by (simp add: allocate_handle_def)
qed

lemma view_answers:
  assumes "vw_window args = WrappedHandleCap win" and "fs_resource i (vw_object args) 1 s = (Ok (Fs_Object ob), s)"
    and "fs_clients s ! i = Some c" and "allocate_handle (fc_handles c) = Ok idx"
    and "rs_handle (window_register (fe_call E) h win (of_nat (fc_id c)) (of_nat idx)) s = (Ok reg, s\<lparr>fs_cl := cl\<rparr>)"
  shows "fst (fs_handle_view E h i args s) = Ok (Re_View (of_nat idx))"
  using assms
  by (simp add: fs_handle_view_def bnd_def op_run try_into_cap_def the_client_def unwrap_def fs_new_view_def
        fresh_cell_def set_views_def put_fs_handles_def put_client_def)

theorem file_views_unbounded_witness:
  "\<exists>t reg. fs_handle_view demo_env 3 0 \<lparr>vw_window = WrappedHandleCap \<lparr>ac_root = 2, ac_bits = 5, ac_depth = 64\<rparr>,
       vw_object = ReceivedHandle 0, vw_window_offset = 0, vw_obj_offset = 0x100000, vw_size = 0x1000, vw_rights = 3\<rparr> demo_fs =
       (Ok (Re_View 2), t) \<and> length (ff_data (fo_file (fs_objects demo_fs 0))) = 16 \<and>
     fs_vm_fault demo_env \<lparr>vf_client_id = 7, vf_reference = 2, vf_fault_offset = 0 + of_nat 0x1000\<rparr> t =
      bnd (expect (rs_conn (page_map (fe_call demo_env) reg (0 + of_nat 0x1000) (of_nat (0x400000 + (0x1000 + 0x100000)))))) (\<lambda>_. ret ()) t"
proof -
  let ?a = "\<lparr>vw_window = WrappedHandleCap \<lparr>ac_root = 2, ac_bits = 5, ac_depth = 64\<rparr>,
       vw_object = ReceivedHandle 0, vw_window_offset = 0, vw_obj_offset = 0x100000, vw_size = 0x1000, vw_rights = 3\<rparr>"
  have c: "fs_clients demo_fs ! 0 = Some demo_client" by (simp add: demo_fs_def const_defs)
  have hs: "fc_handles demo_client ! 0 = Some (Fs_Object 0)" "fc_handles demo_client ! 1 = Some (Fs_View 1)" "fc_handles demo_client ! 2 = None"
    "length (fc_handles demo_client) = 16" by (simp_all add: demo_client_def const_defs)
  have "fc_handles demo_client ! j \<noteq> None" if "j < 2" for j using that hs by (cases "j = 0") (auto simp: less_2_cases_iff)
  then have al: "allocate_handle (fc_handles demo_client) = Ok 2" using hs by (intro allocate_handle_least) auto
  have r: "fs_resource 0 (ReceivedHandle 0) 1 demo_fs = (Ok (Fs_Object 0), demo_fs)"
    using c hs by (auto simp: fs_resource_def bnd_def op_run fs_tables_def the_client_def unwrap_def generic_get_handle_def get_handle_mut_def)
  obtain y cl where "rs_handle (window_register (fe_call demo_env) 3 \<lparr>ac_root = 2, ac_bits = 5, ac_depth = 64\<rparr> (of_nat (fc_id demo_client)) (of_nat 2)) demo_fs =
      (Ok y, demo_fs\<lparr>fs_cl := cl\<rparr>)"
    by (simp add: rs_handle_def rs_conn_def on_part_def window_register_def window_register_req_def invoke_def send_def ipc_write_def ret_hndl_def
      reply_reg_def bnd_def op_run demo_env_def)
  then have "fst (fs_handle_view demo_env 3 0 ?a demo_fs) = Ok (Re_View (of_nat 2))"
    by (intro view_answers [OF _ _ c al]) (simp_all add: r)
  then obtain t where v: "fs_handle_view demo_env 3 0 ?a demo_fs = (Ok (Re_View 2), t)"
    by (cases "fs_handle_view demo_env 3 0 ?a demo_fs") simp
  obtain tbl where "fs_clients t = (fs_clients demo_fs)[0 := Some (demo_client\<lparr>fc_handles := tbl\<rparr>)]"
    using view_run [OF v] c by auto
  then have id: "find_client_from_id (unat (7 :: u64)) (fs_clients t) = Some 0"
    by (auto simp: find_client_from_id_def client_index_def find_Some_iff demo_fs_def demo_client_def const_defs intro!: exI [of _ 0])
  have m: "0 < MAX_CLIENTS" by (simp add: const_defs)
  have n: "fo_file (fs_objects demo_fs ob) = \<lparr>ff_name = [], ff_addr = 0x400000, ff_data = replicate 16 0\<rparr>" for ob
    by (simp add: demo_fs_def)
  show ?thesis
    using file_views_unbounded [OF demo_inv m v id, of "0x1000"] v by (auto simp: const_defs n)
qed

end
