(* ===== verification/Bootstrap.thy ===== *)
theory Bootstrap
  imports Root_State
begin

text \<open>
  The root server's start: \<open>crates/root_server/src/bootstrap.rs\<close> and \<open>DMAPool::new\<close> of \<open>dma.rs\<close>.
  The kernel hands over a list of untypeds; the code steals the memory for a two-level CSpace and for the
  table of 4K untypeds, moves its capabilities to the new CSpace, retypes all remaining memory to 4K
  untypeds and records the slots it has used.  Kernel calls, configuration constants and the contents of
  freshly mapped memory are parameters.  The sum of the sizes and all differences are checked for
  overflow; slot numbers and addresses cannot reach \<open>2 ^ 64\<close>.
\<close>

section \<open>Boot information\<close>

record untyped_desc =
  ud_paddr :: nat
  ud_size_bits :: nat
  ud_device :: bool

record bootinfo =
  bi_untyped_list :: "untyped_desc list"
  bi_untyped_start :: nat
  bi_empty_start :: nat
  bi_empty_end :: nat

text \<open>The calls only the start-up code makes, and the two configuration constants.\<close>

record 'k boot_kernel =
  bk_sel4 :: "'k sel4"
  bk_move :: "abs_cptr \<Rightarrow> abs_cptr \<Rightarrow> 'k kcall"
  bk_set_space :: "cptr \<Rightarrow> cptr \<Rightarrow> nat \<times> nat \<Rightarrow> cptr \<Rightarrow> 'k kcall"
  bk_fan_out :: nat
  bk_max_untypeds :: nat

definition PHYSICAL_ADDRESS_LIMIT :: nat where [const_defs]: "PHYSICAL_ADDRESS_LIMIT = 0xdfffffff"
definition MAX_PHYSICAL_SIZE_BITS :: nat where [const_defs]: "MAX_PHYSICAL_SIZE_BITS = 32"
definition UT_TABLE :: nat where [const_defs]: "UT_TABLE = 0x8000000000"

text \<open>Constants of the \<open>sel4_sys\<close> crate for this architecture.\<close>

definition seL4_PageTableIndexBits :: nat where [const_defs]: "seL4_PageTableIndexBits = 9"
definition seL4_PageTableBits :: nat where [const_defs]: "seL4_PageTableBits = 12"
definition seL4_PUDBits :: nat where [const_defs]: "seL4_PUDBits = 12"
definition seL4_PageDirBits :: nat where [const_defs]: "seL4_PageDirBits = 12"
definition seL4_LargePageBits :: nat where [const_defs]: "seL4_LargePageBits = 21"
definition seL4_MaxUntypedBits :: nat where [const_defs]: "seL4_MaxUntypedBits = 47"

definition DMA_RESERVATION_SIZE_BITS :: nat where [const_defs]: "DMA_RESERVATION_SIZE_BITS = seL4_LargePageBits + 5"
definition DMA_RESERVATION_NUM_PAGES :: nat where
  [const_defs]: "DMA_RESERVATION_NUM_PAGES = BIT DMA_RESERVATION_SIZE_BITS div PAGE_SIZE_4K"

definition INITIAL_TASK_CSPACE_BITS :: nat where
  [const_defs]: "INITIAL_TASK_CSPACE_BITS = CNODE_SLOT_BITS INITIAL_TASK_CNODE_SIZE_BITS + CNODE_SLOT_BITS CNODE_SIZE_BITS"
definition INITIAL_TASK_CSPACE_SLOTS :: nat where
  [const_defs]: "INITIAL_TASK_CSPACE_SLOTS = BIT INITIAL_TASK_CSPACE_BITS"

text \<open>\<open>ALIGN_DOWN\<close> and \<open>ALIGN_UP\<close> mask with \<open>n - 1\<close>; their second argument is a power of two.\<close>

definition ALIGN_DOWN :: "nat \<Rightarrow> nat \<Rightarrow> nat" where
  "ALIGN_DOWN x n = x - (x AND (n - 1))"

definition ALIGN_UP :: "nat \<Rightarrow> nat \<Rightarrow> nat" where
  "ALIGN_UP x n = (x + n - 1) - ((x + n - 1) AND (n - 1))"

text \<open>\<open>usize::leading_zeros\<close>, and the logarithm of a positive number (\<open>arith.rs\<close>, \<open>page.rs\<close>).\<close>

definition leading_zeros :: "nat \<Rightarrow> nat" where
  "leading_zeros n = length (takeWhile (\<lambda>k. \<not> bit n (63 - k)) [0..<64])"

definition LOG_BASE_2 :: "nat \<Rightarrow> nat" where
  "LOG_BASE_2 n = 64 - leading_zeros n - 1"

definition BYTES_TO_SIZE_BITS :: "nat \<Rightarrow> nat" where
  "BYTES_TO_SIZE_BITS bytes = LOG_BASE_2 bytes"

section \<open>Counting memory\<close>

definition untyped_in_range :: "untyped_desc \<Rightarrow> bool" where
  "untyped_in_range u \<longleftrightarrow> ud_paddr u \<le> PHYSICAL_ADDRESS_LIMIT \<and> ud_size_bits u \<le> MAX_PHYSICAL_SIZE_BITS"

fun widen :: "untyped_desc list \<Rightarrow> nat \<times> nat \<Rightarrow> nat \<times> nat" where
  "widen [] m = m"
| "widen (u # us) (start, stop) =
     (if \<not> untyped_in_range u then widen us (start, stop)
      else widen us (min start (ud_paddr u), max stop (ud_paddr u + BIT (ud_size_bits u))))"

definition find_memory_bounds :: "bootinfo \<Rightarrow> ('e, nat \<times> nat) outcome" where
  "find_memory_bounds bi =
     (case widen (bi_untyped_list bi) (PHYSICAL_ADDRESS_LIMIT, 0) of
        (start, stop) \<Rightarrow> obind (rust_assert (start < stop)) (\<lambda>_. Ok (start, stop)))"

definition ut_pages_for_region :: "nat \<times> nat \<Rightarrow> nat" where
  "ut_pages_for_region memory = BYTES_TO_4K_PAGES ((snd memory - fst memory) div PAGE_SIZE_4K * UT_SIZE)"

text \<open>The number of capabilities of size \<open>size_bits\<close> to make, and the bytes available in each untyped.\<close>

fun calculate_ut_caps :: "nat \<Rightarrow> untyped_desc list \<Rightarrow> nat \<Rightarrow> nat list \<Rightarrow> ('e, nat \<times> nat list) outcome" where
  "calculate_ut_caps i [] size_bits avail = Ok (0, avail)"
| "calculate_ut_caps i (u # us) size_bits avail =
     (if \<not> untyped_in_range u then calculate_ut_caps (Suc i) us size_bits avail
      else obind (if ud_device u then Ok avail
                  else if i < length avail then Ok (avail[i := avail ! i + BIT (ud_size_bits u)])
                  else Panic) (\<lambda>avail'.
           obind (calculate_ut_caps (Suc i) us size_bits avail') (\<lambda>(n, avail'').
           Ok ((if size_bits \<le> ud_size_bits u then BIT (ud_size_bits u - size_bits) else 0) + n, avail''))))"

definition paddr_from_avail_bytes :: "bootinfo \<Rightarrow> nat \<Rightarrow> nat \<Rightarrow> nat list \<Rightarrow> ('e, nat) outcome" where
  "paddr_from_avail_bytes bi i size_bits avail =
     (let u = bi_untyped_list bi ! i in
      obind (if ud_device u then Ok 0
             else if i < length avail then sub_us (BIT (ud_size_bits u)) (avail ! i) else Panic) (\<lambda>taken.
      Ok (ud_paddr u + ROUND_UP taken size_bits)))"

text \<open>The search of \<open>steal_untyped\<close>: the first untyped with enough bytes left.\<close>

fun find_untyped :: "nat \<Rightarrow> untyped_desc list \<Rightarrow> nat \<Rightarrow> nat list \<Rightarrow> ('e, nat option) outcome" where
  "find_untyped i [] size_bits avail = Ok None"
| "find_untyped i (u # us) size_bits avail =
     (if untyped_in_range u then
        if i < length avail then
          if BIT size_bits \<le> avail ! i then Ok (Some i) else find_untyped (Suc i) us size_bits avail
        else Panic
      else find_untyped (Suc i) us size_bits avail)"

definition steal_untyped :: "bootinfo \<Rightarrow> nat \<Rightarrow> nat list \<Rightarrow> ('e, (cptr \<times> nat) option \<times> nat list) outcome" where
  "steal_untyped bi size_bits avail =
     obind (rust_assert (seL4_PageBits \<le> size_bits)) (\<lambda>_.
     obind (rust_assert (size_bits \<le> seL4_MaxUntypedBits)) (\<lambda>_.
     obind (find_untyped 0 (bi_untyped_list bi) size_bits avail) (\<lambda>found.
     case found of
       None \<Rightarrow> Ok (None, avail)
     | Some i \<Rightarrow>
         obind (paddr_from_avail_bytes bi i size_bits avail) (\<lambda>paddr.
         Ok (Some (i + bi_untyped_start bi, paddr), avail[i := avail ! i - BIT size_bits])))))"

text \<open>The first part of \<open>smos_bootstrap\<close>: how much memory the new CSpace and the untyped table need.\<close>

record boot_plan =
  bp_memory :: "nat \<times> nat"
  bp_ut_pages :: nat
  bp_n_cnodes :: nat
  bp_bytes :: nat
  bp_avail :: "nat list"

definition boot_sizes :: "'k boot_kernel \<Rightarrow> bootinfo \<Rightarrow> ('e, boot_plan) outcome" where
  "boot_sizes K bi =
     obind (obind (sub_us (bi_empty_end bi) (bi_empty_start bi)) (\<lambda>n. rust_assert (2 \<le> n))) (\<lambda>_.
     obind (sub_us (bi_empty_start bi) 1) (\<lambda>n_init.
     obind (find_memory_bounds bi) (\<lambda>memory.
     let ut_pages = ut_pages_for_region memory;
         n_pts = drop_bit seL4_PageTableIndexBits ut_pages + 1;
         n_dma_pts = drop_bit seL4_PageTableIndexBits DMA_RESERVATION_NUM_PAGES;
         bytes = ut_pages * PAGE_SIZE_4K + n_pts * BIT seL4_PageTableBits + n_dma_pts * BIT seL4_PageTableBits
                 + BIT seL4_PUDBits + BIT seL4_PageDirBits in
     obind (calculate_ut_caps 0 (bi_untyped_list bi) seL4_PageBits (replicate (bk_max_untypeds K) 0)) (\<lambda>(n_caps, avail).
     obind (sub_us (n_init + ut_pages + n_pts + n_dma_pts + 2 + DMA_RESERVATION_NUM_PAGES + n_caps)
                   (BIT (DMA_RESERVATION_SIZE_BITS - seL4_PageBits))) (\<lambda>n_slots.
     let n_cnodes = n_slots div CNODE_SLOTS CNODE_SIZE_BITS + 2 + 50 in
     obind (add_us bytes (n_cnodes * BIT CNODE_SIZE_BITS + BIT INITIAL_TASK_CNODE_SIZE_BITS)) (\<lambda>bytes'.
     Ok \<lparr>bp_memory = memory, bp_ut_pages = ut_pages, bp_n_cnodes = n_cnodes, bp_bytes = bytes', bp_avail = avail\<rparr>))))))"

section \<open>The state\<close>

text \<open>
  \<open>bt_slot\<close> is \<open>first_free_slot\<close>, \<open>bt_vaddr\<close> is \<open>bootstrap_data.next_free_vaddr\<close>.  The untyped table
  inside \<open>bt_rs\<close> is a placeholder until \<open>UTTable::new\<close>, the CSpace until \<open>CSpace::new\<close>.
\<close>

record 'k boot =
  bt_rs :: "'k resources"
  bt_slot :: nat
  bt_vaddr :: nat
  bt_avail :: "nat list"

type_synonym ('k, 'a) boot_op = "('k boot, sel4_error, 'a) op"

definition in_rs :: "('k, 'a) rs_op \<Rightarrow> ('k, 'a) boot_op" where
  "in_rs = on_part bt_rs bt_rs_update"

definition boot_call :: "'k kcall \<Rightarrow> ('k, unit) boot_op" where
  "boot_call f = in_rs (kern_call f)"

definition next_slots :: "nat \<Rightarrow> ('k, unit) boot_op" where
  "next_slots n = modify (bt_slot_update (\<lambda>slot. slot + n))"

section \<open>The new CSpace\<close>

definition INIT_TCB :: cptr where "INIT_TCB = 1"
definition INIT_CNODE :: cptr where "INIT_CNODE = 2"

text \<open>The places of the initial CNode that are not moved: the CNode itself, I/O port control, I/O space,
  the two SMMU controls and SMC.\<close>

definition unmoved_slots :: "nat list" where
  "unmoved_slots = [INIT_CNODE, 7, 8, 12, 13, 15]"

text \<open>A retype loop runs at most as often as there are objects to make; it would not end with a fan-out
  limit of 0.\<close>

fun retype_cnodes :: "'k boot_kernel \<Rightarrow> cptr \<Rightarrow> abs_cptr \<Rightarrow> nat \<Rightarrow> nat \<Rightarrow> nat \<Rightarrow> ('k, unit) boot_op" where
  "retype_cnodes K ut dest n_cnodes fuel left =
     (if left = 0 then ret ()
      else case fuel of
        0 \<Rightarrow> panic
      | Suc m \<Rightarrow>
          (let chunk = min (bk_fan_out K) left in
           seq (boot_call (k_untyped_retype (bk_sel4 K) ut (BCNode (CNODE_SLOT_BITS CNODE_SIZE_BITS)) dest (n_cnodes - left) chunk))
               (retype_cnodes K ut dest n_cnodes m (left - chunk))))"

declare retype_cnodes.simps [simp del]

definition move_cap :: "'k boot_kernel \<Rightarrow> nat \<Rightarrow> ('k, unit) boot_op" where
  "move_cap K i =
     (if i \<in> set unmoved_slots then ret ()
      else bnd (attempt (boot_call (bk_move K \<lparr>ac_root = INIT_CNODE, ac_bits = i, ac_depth = 64\<rparr>
                                           \<lparr>ac_root = 0, ac_bits = i, ac_depth = 64\<rparr>))) (\<lambda>_. ret ()))"

definition make_cspace :: "'k boot_kernel \<Rightarrow> bootinfo \<Rightarrow> nat \<Rightarrow> cptr \<Rightarrow> ('k, unit) boot_op" where
  "make_cspace K bi n_cnodes ut =
     (let lvl1 = bi_empty_start bi; depth = INITIAL_TASK_CSPACE_BITS;
          init_self = \<lparr>ac_root = INIT_CNODE, ac_bits = 0, ac_depth = 0\<rparr>;
          lvl1_path = \<lparr>ac_root = INIT_CNODE, ac_bits = lvl1, ac_depth = 64\<rparr> in
      seq (expect (boot_call (k_untyped_retype (bk_sel4 K) ut (BCNode (CNODE_SLOT_BITS INITIAL_TASK_CNODE_SIZE_BITS)) init_self lvl1 1)))
     (seq (retype_cnodes K ut lvl1_path n_cnodes n_cnodes n_cnodes)
     (seq (boot_call (k_cnode_copy (bk_sel4 K) \<lparr>ac_root = lvl1, ac_bits = 0, ac_depth = depth\<rparr>
             \<lparr>ac_root = INIT_CNODE, ac_bits = INIT_CNODE, ac_depth = 64\<rparr> rights_all))
     (seq (boot_call (k_cnode_mint (bk_sel4 K) \<lparr>ac_root = lvl1, ac_bits = INIT_CNODE, ac_depth = depth\<rparr>
             lvl1_path rights_all (of_nat (64 - depth))))
     (seq (expect (boot_call (bk_set_space K 0 lvl1 (0, 64 - depth) INIT_VSPACE)))
     (seq (for_each (move_cap K) [1..<bi_empty_start bi])
     (seq (boot_call (k_cnode_delete (bk_sel4 K) \<lparr>ac_root = INIT_CNODE, ac_bits = 0, ac_depth = 64\<rparr>))
          (modify (\<lambda>s. s\<lparr>bt_slot := bi_empty_start bi,
             bt_rs := (bt_rs s)\<lparr>rs_cs := cspace_new INIT_CNODE True INITIAL_TASK_CNODE_SIZE_BITS
               (replicate (INITIAL_TASK_CSPACE_SLOTS div BOT_LVL_PER_NODE + 1) None)\<rparr>\<rparr>)))))))))"

section \<open>The untyped table\<close>

definition boot_retype :: "'k boot_kernel \<Rightarrow> cptr \<Rightarrow> blueprint \<Rightarrow> ('k, nat) boot_op" where
  "boot_retype K ut bp =
     bnd (gets bt_slot) (\<lambda>slot. seq (in_rs (rs_retype (bk_sel4 K) ut bp slot)) (ret slot))"

text \<open>A page table; the tables of the untyped table's region must map (\<open>expect\<close>).\<close>

definition boot_pt :: "'k boot_kernel \<Rightarrow> cptr \<Rightarrow> bool \<Rightarrow> nat \<Rightarrow> ('k, unit) boot_op" where
  "boot_pt K ut must vaddr =
     bnd (boot_retype K ut BPT) (\<lambda>slot.
     seq (let m = boot_call (k_pt_map (bk_sel4 K) slot INIT_VSPACE vaddr) in if must then expect m else m)
         (next_slots 1))"

definition pt_bytes :: nat where
  [const_defs]: "pt_bytes = BIT (seL4_PageTableIndexBits + seL4_PageBits)"

definition map_ut_page :: "'k boot_kernel \<Rightarrow> cptr \<Rightarrow> ('k, unit) boot_op" where
  "map_ut_page K ut =
     bnd (boot_retype K ut BSmallPage) (\<lambda>slot.
     bnd (gets bt_vaddr) (\<lambda>vaddr.
     seq (boot_call (k_frame_map (bk_sel4 K) slot INIT_VSPACE vaddr rights_all VM_DEFAULT))
    (seq (next_slots 1) (modify (bt_vaddr_update (\<lambda>v. v + PAGE_SIZE_4K))))))"

definition map_ut_table :: "'k boot_kernel \<Rightarrow> cptr \<Rightarrow> nat \<Rightarrow> ('k, unit) boot_op" where
  "map_ut_table K ut ut_pages =
     seq (boot_pt K ut False UT_TABLE)
    (seq (boot_pt K ut False UT_TABLE)
    (seq (for_each (\<lambda>i. boot_pt K ut True (UT_TABLE + i * pt_bytes))
            [0..<drop_bit seL4_PageTableIndexBits ut_pages + 1])
         (for_each (\<lambda>_. map_ut_page K ut) [0..<ut_pages])))"

text \<open>The DMA pages: their slots are consecutive.\<close>

definition steal :: "bootinfo \<Rightarrow> nat \<Rightarrow> ('k, (cptr \<times> nat) option) boot_op" where
  "steal bi size_bits =
     bnd (gets bt_avail) (\<lambda>avail.
     bnd (lift (steal_untyped bi size_bits avail)) (\<lambda>(found, avail').
     seq (modify (bt_avail_update (\<lambda>_. avail'))) (ret found)))"

definition steal_dma :: "'k boot_kernel \<Rightarrow> bootinfo \<Rightarrow> ('k, cptr \<times> nat \<times> cptr list) boot_op" where
  "steal_dma K bi =
     bnd (steal bi DMA_RESERVATION_SIZE_BITS) (\<lambda>found.
     bnd (lift (ok_or NotEnoughMemory found)) (\<lambda>(dma_ut, dma_paddr).
     bnd (gets bt_slot) (\<lambda>slot.
     seq (for_each (\<lambda>_. bnd (boot_retype K dma_ut BSmallPage) (\<lambda>_. next_slots 1)) [0..<DMA_RESERVATION_NUM_PAGES])
         (ret (dma_ut, dma_paddr, [slot..<slot + DMA_RESERVATION_NUM_PAGES])))))"

text \<open>All that is left of an untyped becomes 4K untypeds, a retype call never crossing a cnode.\<close>

fun retype_4k :: "'k boot_kernel \<Rightarrow> cptr \<Rightarrow> nat \<Rightarrow> nat \<Rightarrow> ('k, unit) boot_op" where
  "retype_4k K ut fuel n_caps =
     (if n_caps = 0 then ret ()
      else case fuel of
        0 \<Rightarrow> panic
      | Suc m \<Rightarrow>
          bnd (gets bt_slot) (\<lambda>slot.
          let per = CNODE_SLOTS CNODE_SIZE_BITS;
              n = min (bk_fan_out K) (min n_caps (per - slot mod per)) in
          seq (boot_call (k_untyped_retype (bk_sel4 K) ut (BUntyped seL4_PageBits)
                 \<lparr>ac_root = INIT_CNODE, ac_bits = slot div per, ac_depth = 64 - CNODE_SLOT_BITS CNODE_SIZE_BITS\<rparr>
                 (slot mod per) n))
         (seq (next_slots n) (retype_4k K ut m (n_caps - n)))))"

declare retype_4k.simps [simp del]

definition add_memory :: "'k boot_kernel \<Rightarrow> bootinfo \<Rightarrow> nat \<Rightarrow> ('k, unit) boot_op" where
  "add_memory K bi i =
     (let u = bi_untyped_list bi ! i in
      if \<not> untyped_in_range u then ret ()
      else
        bnd (gets bt_avail) (\<lambda>avail.
        bnd (if ud_device u then ret (BIT (ud_size_bits u) div PAGE_SIZE_4K)
             else seq (ensure (i < length avail)) (ret (avail ! i div PAGE_SIZE_4K))) (\<lambda>n_caps.
        bnd (lift (paddr_from_avail_bytes bi i seL4_PageBits avail)) (\<lambda>paddr.
        bnd (gets bt_slot) (\<lambda>slot.
        seq (if n_caps > 0 then in_rs (in_ut (add_untyped_range paddr slot n_caps (ud_device u))) else ret ())
            (retype_4k K (bi_untyped_start bi + i) n_caps n_caps))))))"

section \<open>The CSpace's bookkeeping\<close>

definition zero_node :: bot_lvl_node where
  "zero_node = \<lparr>bn_n_cnodes = 0, bn_cnodes = replicate BOT_LVL_PER_NODE (replicate 4 0)\<rparr>"

definition init_bot_lvl_node :: "nat \<Rightarrow> unit cs_op" where
  "init_bot_lvl_node i =
     bnd (gets (\<lambda>cs. length (cs_bot cs))) (\<lambda>n.
     bnd (ensure (i < n)) (\<lambda>_. modify (\<lambda>cs. cs\<lparr>cs_bot := (cs_bot cs)[i := Some zero_node]\<rparr>)))"

definition add_bot_node :: "'k boot_kernel \<Rightarrow> nat \<Rightarrow> ('k, unit) boot_op" where
  "add_bot_node K i =
     bnd (in_rs alloc_4k_untyped) (\<lambda>(_, node_ut).
     bnd (gets (\<lambda>s. ut_cap (ut_heap (rs_ut (bt_rs s)) node_ut))) (\<lambda>cap.
     bnd (boot_retype K cap BSmallPage) (\<lambda>page.
     bnd (gets (\<lambda>s. ut_next_vaddr (rs_ut (bt_rs s)))) (\<lambda>vaddr.
     seq (boot_call (k_frame_map (bk_sel4 K) page INIT_VSPACE vaddr rights_all VM_DEFAULT))
    (seq (in_rs (in_cs (init_bot_lvl_node i)))
    (seq (in_rs (in_ut (modify (ut_next_vaddr_update (\<lambda>v. v + PAGE_SIZE_4K)))))
    (seq (in_rs (in_cs (modify (cs_n_bot_update Suc)))) (next_slots 1))))))))"

definition upd_bot_node :: "nat \<Rightarrow> (bot_lvl_node \<Rightarrow> bot_lvl_node) \<Rightarrow> unit cs_op" where
  "upd_bot_node i f =
     bnd (\<lambda>cs. (get_bot_lvl_node cs i, cs)) (\<lambda>n.
     modify (\<lambda>cs. cs\<lparr>cs_bot := (cs_bot cs)[i := Some (f n)]\<rparr>))"

text \<open>Recording the slots in use.  The inner loop over the words of a full cnode's bitmap shadows the
  slot number: \<open>CNODE_INDEX(i)\<close> is that of the word's number.\<close>

definition fill_word :: "nat \<Rightarrow> nat \<Rightarrow> unit cs_op" where
  "fill_word i word =
     bnd (\<lambda>cs. (get_bot_lvl_node cs (NODE_INDEX i), cs)) (\<lambda>n.
     bnd (ensure (CNODE_INDEX word < length (bn_cnodes n) \<and> word < length (bn_cnodes n ! CNODE_INDEX word))) (\<lambda>_.
     modify (set_bot_bf (NODE_INDEX i) (CNODE_INDEX word) ((bn_cnodes n ! CNODE_INDEX word)[word := -1]))))"

definition record_full :: "nat \<Rightarrow> unit cs_op" where
  "record_full i =
     seq (upd_bot_node (NODE_INDEX i) (bn_n_cnodes_update Suc))
    (seq (for_each (fill_word i) [0..<CNODE_SLOTS CNODE_SIZE_BITS div 64])
         (set_top_bit (TOP_LVL_INDEX i)))"

definition record_slot :: "nat \<Rightarrow> nat \<Rightarrow> unit cs_op" where
  "record_slot node i =
     bnd (\<lambda>cs. (get_bot_lvl_node cs node, cs)) (\<lambda>n.
     bnd (ensure (CNODE_INDEX i < length (bn_cnodes n))) (\<lambda>_.
     bnd (lift (bf_set_bit (bn_cnodes n ! CNODE_INDEX i) (BOT_LVL_INDEX i))) (\<lambda>bf.
     modify (set_bot_bf node (CNODE_INDEX i) bf))))"

definition record_used :: "nat \<Rightarrow> nat \<Rightarrow> unit cs_op" where
  "record_used n_cnodes slot =
     (let per = CNODE_SLOTS CNODE_SIZE_BITS; node = slot div per div BOT_LVL_PER_NODE in
      seq (for_each (\<lambda>k. record_full (k * per)) [0..<ALIGN_DOWN slot per div per])
     (seq (upd_bot_node node (bn_n_cnodes_update Suc))
     (seq (for_each (record_slot node) [ALIGN_DOWN slot per..<slot])
          (for_each (\<lambda>i. upd_bot_node (i div BOT_LVL_PER_NODE) (bn_n_cnodes_update Suc)) [slot div per + 1..<n_cnodes]))))"

definition fill_watermark :: "unit cs_op" where
  "fill_watermark = for_each (\<lambda>i. bnd cs_alloc_slot (set_watermark i)) [0..<WATERMARK_SLOTS]"

section \<open>The DMA pool and the whole start\<close>

definition dma_pool_new :: "'k boot_kernel \<Rightarrow> cptr list \<Rightarrow> nat \<Rightarrow> nat \<Rightarrow> ('k, dma_pool) boot_op" where
  "dma_pool_new K pages pstart vstart =
     seq (for_each (\<lambda>i. bnd (in_rs (map_frame (bk_sel4 K) (pages ! i) INIT_VSPACE
                                   (vstart + (pstart + PAGE_SIZE_4K * i - pstart)) rights_all VM_DEFAULT None)) (\<lambda>_. ret ()))
            [0..<length pages])
         (ret \<lparr>dp_vstart = vstart, dp_pstart = pstart, dp_pages = pages, dp_vspace = INIT_VSPACE, dp_ready = False\<rparr>)"

definition map_dma :: "'k boot_kernel \<Rightarrow> cptr \<Rightarrow> cptr list \<Rightarrow> nat \<Rightarrow> ('k, dma_pool) boot_op" where
  "map_dma K ut dma_pages dma_paddr =
     bnd (gets (\<lambda>s. ut_next_vaddr (rs_ut (bt_rs s)))) (\<lambda>v.
     let dma_vaddr = ALIGN_UP (v + PAGE_SIZE_4K) (BIT seL4_LargePageBits) in
     seq (for_each (\<lambda>i. boot_pt K ut False (dma_vaddr + i * pt_bytes))
            [0..<drop_bit seL4_PageTableIndexBits DMA_RESERVATION_NUM_PAGES])
    (bnd (dma_pool_new K dma_pages dma_paddr dma_vaddr) (\<lambda>dma.
     seq (in_rs (in_ut (modify (ut_next_vaddr_update (\<lambda>_. dma_vaddr + (DMA_RESERVATION_NUM_PAGES + 1) * PAGE_SIZE_4K)))))
         (ret dma))))"

text \<open>\<open>h\<close> is what the memory of the untyped table holds once it is mapped.\<close>

definition smos_bootstrap :: "'k boot_kernel \<Rightarrow> bootinfo \<Rightarrow> (nat \<Rightarrow> ut) \<Rightarrow> ('k, dma_pool) boot_op" where
  "smos_bootstrap K bi h =
     bnd (lift (boot_sizes K bi)) (\<lambda>plan.
     seq (modify (\<lambda>s. s\<lparr>bt_avail := bp_avail plan, bt_vaddr := UT_TABLE\<rparr>))
    (bnd (bnd (steal bi (BYTES_TO_SIZE_BITS (bp_bytes plan) + 1)) (\<lambda>found. lift (unwrap found))) (\<lambda>(ut, _).
     seq (make_cspace K bi (bp_n_cnodes plan) ut)
    (seq (map_ut_table K ut (bp_ut_pages plan))
    (bnd (steal_dma K bi) (\<lambda>(dma_ut, dma_paddr, dma_pages).
     seq (modify (\<lambda>s. s\<lparr>bt_rs := (bt_rs s)\<lparr>rs_ut := ut_table_new UT_TABLE (fst (bp_memory plan)) (bt_vaddr s) h\<rparr>\<rparr>))
    (seq (for_each (add_memory K bi) [0..<length (bi_untyped_list bi)])
    (bnd (gets bt_slot) (\<lambda>slot.
     seq (for_each (add_bot_node K)
            [0..<max (slot div CNODE_SLOTS CNODE_SIZE_BITS + 1) (bp_n_cnodes plan) div BOT_LVL_PER_NODE + 1])
    (bnd (map_dma K ut dma_pages dma_paddr) (\<lambda>dma.
     bnd (gets bt_slot) (\<lambda>slot'.
     seq (in_rs (in_cs (record_used (bp_n_cnodes plan) slot')))
    (seq (in_rs (in_cs fill_watermark)) (ret dma))))))))))))))"

end
