(* ===== verification/Bootstrap_Facts.thy ===== *)
theory Bootstrap_Facts
  imports Bootstrap
begin

text \<open>
  The start of the root server (\<open>crates/root_server/src/bootstrap.rs\<close>) leaves the state that the
  allocators' invariants describe: the two-level CSpace with the used slots sealed off, the lists of
  untypeds disjoint and filled.  It also leaves the bitmaps of most full cnodes empty.
\<close>

section \<open>Loops that succeed\<close>

text \<open>A loop over a range of numbers with an invariant that depends on the number.\<close>

lemma for_each_total:
  assumes "a \<le> b" and "P a s"
    and step: "\<And>i s. a \<le> i \<Longrightarrow> i < b \<Longrightarrow> P i s \<Longrightarrow> \<exists>t. f i s = (Ok (), t) \<and> P (Suc i) t"
  shows "\<exists>t. for_each f [a..<b] s = ((Ok () :: ('e, unit) outcome), t) \<and> P b t"
  using assms(1)
proof (induction b rule: dec_induct)
  case base
  then show ?case using assms(2) by (simp add: op_run)
next
  case (step n)
  then obtain t where t: "for_each f [a..<n] s = (Ok (), t)" "P n t" by blast
  obtain u where "f n t = (Ok (), u)" "P (Suc n) u" using assms(3) [of n t] step t(2) by auto
  then show ?case using step(1) t(1) by (simp add: for_each_append bnd_run op_run bnd_def)
qed

lemma seq_run: "m s = (Ok (), t) \<Longrightarrow> seq m n s = n t"
  by (simp add: seq_def bnd_run)

lemma on_part_run: "m (g s) = (r, p) \<Longrightarrow> on_part g u m s = (r, u (\<lambda>_. p) s)"
  by (simp add: on_part_def)

section \<open>The record of used slots\<close>

text \<open>\<open>tally nb m k U cs\<close>: \<open>nb\<close> bottom-level nodes, the first \<open>m\<close> cnodes counted, the first \<open>k\<close> sealed,
  and \<open>U c\<close> the slots marked in cnode \<open>c\<close>.\<close>

definition tally_node :: "nat \<Rightarrow> (nat \<Rightarrow> nat set) \<Rightarrow> nat \<Rightarrow> bot_lvl_node \<Rightarrow> bool" where
  "tally_node m U j n \<longleftrightarrow> bn_n_cnodes n = min 97 (m - 97 * j) \<and> length (bn_cnodes n) = 97 \<and>
     (\<forall>c<97. length (bn_cnodes n ! c) = 4 \<and> bits_of (bn_cnodes n ! c) = U (97 * j + c))"

definition tally :: "nat \<Rightarrow> nat \<Rightarrow> nat \<Rightarrow> (nat \<Rightarrow> nat set) \<Rightarrow> cspace \<Rightarrow> bool" where
  "tally nb m k U cs \<longleftrightarrow>
     cs_two_level cs \<and> cs_top_bits cs = INITIAL_TASK_CNODE_SIZE_BITS \<and> length (cs_top_bf cs) = 128 \<and>
     length (cs_watermark cs) = 4 \<and> bits_of (cs_top_bf cs) = {..<k} \<and> cs_n_bot cs = nb \<and> nb \<le> length (cs_bot cs) \<and>
     (\<forall>j<nb. \<exists>n. cs_bot cs ! j = Some n \<and> tally_node m U j n)"

lemma tally_nodeE:
  assumes "tally nb m k U cs" and "j < nb"
  obtains n where "cs_bot cs ! j = Some n" "j < length (cs_bot cs)" "tally_node m U j n"
  using assms by (fastforce simp: tally_def)

lemma get_node_run:
  "cs_bot cs ! j = Some n \<Longrightarrow> j < length (cs_bot cs) \<Longrightarrow> bnd (\<lambda>cs. (get_bot_lvl_node cs j, cs)) f cs = f n cs"
  by (simp add: get_bot_lvl_node_def bnd_def)

text \<open>Changing one node.\<close>

lemma tally_upd:
  assumes "tally nb m k U cs" and "j < nb" and "tally_node m' U' j n'"
    and "\<And>i n. i < nb \<Longrightarrow> i \<noteq> j \<Longrightarrow> tally_node m U i n \<Longrightarrow> tally_node m' U' i n"
  shows "tally nb m' k U' (cs\<lparr>cs_bot := (cs_bot cs)[j := Some n']\<rparr>)"
proof -
  have "\<exists>n. (cs_bot cs)[j := Some n'] ! i = Some n \<and> tally_node m' U' i n" if "i < nb" for i
    using assms that by (cases "i = j") (auto simp: tally_def)
  then show ?thesis using assms(1) by (simp add: tally_def)
qed

lemma tally_count:
  assumes T: "tally nb m k U cs" and m: "m div 97 < nb"
  shows "\<exists>t. upd_bot_node (m div 97) (bn_n_cnodes_update Suc) cs = (Ok (), t) \<and> tally nb (Suc m) k U t"
proof -
  obtain n where n: "cs_bot cs ! (m div 97) = Some n" "m div 97 < length (cs_bot cs)" "tally_node m U (m div 97) n" using tally_nodeE [OF T m] by metis
  have "tally_node (Suc m) U (m div 97) (bn_n_cnodes_update Suc n)"
    using n(3) by (auto simp: tally_node_def min_def minus_mult_div_eq_mod Suc_diff_le)
  moreover have "tally_node (Suc m) U i n'" if "i \<noteq> m div 97" "tally_node m U i n'" for i n'
  proof (cases "i < m div 97")
    case True
    then have "97 * i + 97 \<le> 97 * (m div 97)" by simp
    also have "\<dots> \<le> m" by simp
    finally show ?thesis using that(2) by (simp add: tally_node_def)
  next
    case False
    then have "97 * (m div 97) + 97 \<le> 97 * i" using that(1) by simp
    moreover have "m < 97 * (m div 97) + 97" using mod_less_divisor [of 97 m] mult_div_mod_eq [of 97 m] by linarith
    ultimately show ?thesis using that(2) by (simp add: tally_node_def)
  qed
  ultimately have "tally nb (Suc m) k U (cs\<lparr>cs_bot := (cs_bot cs)[m div 97 := Some (bn_n_cnodes_update Suc n)]\<rparr>)"
    by (intro tally_upd [OF T m])
  then show ?thesis by (simp add: upd_bot_node_def get_node_run [OF n(1,2)] op_run)
qed

lemma tally_set_bf:
  assumes T: "tally nb m k U cs" and j: "j < nb" "c < 97" and bf: "length bf = 4" "bits_of bf = B"
  shows "tally nb m k (U(97 * j + c := B)) (set_bot_bf j c bf cs)"
proof -
  obtain n where n: "cs_bot cs ! j = Some n" "tally_node m U j n" using tally_nodeE [OF T j(1)] by metis
  have own: "tally_node m (U(97 * j + c := B)) j (n\<lparr>bn_cnodes := (bn_cnodes n)[c := bf]\<rparr>)"
    using n(2) j(2) bf by (auto simp: tally_node_def nth_list_update)
  have other: "tally_node m (U(97 * j + c := B)) i n'" if "i \<noteq> j" "tally_node m U i n'" for i n'
  proof -
    have "97 * i + d \<noteq> 97 * j + c" if "d < 97" for d
    proof
      assume "97 * i + d = 97 * j + c"
      then have "(97 * i + d) div 97 = (97 * j + c) div 97" by simp
      then show False using that j(2) \<open>i \<noteq> j\<close> by simp
    qed
    then show ?thesis using that(2) by (simp add: tally_node_def)
  qed
  show ?thesis unfolding set_bot_bf_def n(1) option.map by (rule tally_upd [OF T j(1) own other])
qed

text \<open>Filling a bitmap.\<close>

lemma bits_of_word:
  assumes "w < length bf"
  shows "bits_of (bf[w := -1]) = bits_of bf \<union> {64 * w..<64 * Suc w}"
proof -
  have "i div 64 = w \<longleftrightarrow> 64 * w \<le> i \<and> i < 64 * Suc w" for i
    using div_nat_eqI [of 64 w i] dividend_less_times_div [of 64 i] times_div_less_eq_dividend [of 64 i] by auto
  note word = this
  show ?thesis
  proof (rule set_eqI)
    fix i
    show "i \<in> bits_of (bf[w := -1]) \<longleftrightarrow> i \<in> bits_of bf \<union> {64 * w..<64 * Suc w}"
    proof (cases "i div 64 = w")
      case True
      then have "i < 64 * length bf" using word [of i] assms by simp
      with True show ?thesis using word [of i] assms by (simp add: bits_of_def bit_minus_1_iff possible_bit_def)
    next
      case False
      then show ?thesis using word [of i] by (auto simp: bits_of_def)
    qed
  qed
qed

lemma fill_word_run:
  assumes T: "tally nb m k U cs" and i: "i div 256 div 97 < nb" and w: "w < 4"
  shows "\<exists>t. fill_word i w cs = (Ok (), t) \<and>
    tally nb m k (U(97 * (i div 256 div 97) := U (97 * (i div 256 div 97)) \<union> {64 * w..<64 * Suc w})) t"
proof -
  let ?j = "i div 256 div 97"
  obtain n where n: "cs_bot cs ! ?j = Some n" "?j < length (cs_bot cs)" "tally_node m U ?j n" using tally_nodeE [OF T i] by metis
  then have bf: "length (bn_cnodes n) = 97" "length (bn_cnodes n ! 0) = 4" "bits_of (bn_cnodes n ! 0) = U (97 * ?j)"
    by (auto simp: tally_node_def)
  have "tally nb m k (U(97 * ?j + 0 := U (97 * ?j) \<union> {64 * w..<64 * Suc w})) (set_bot_bf ?j 0 ((bn_cnodes n ! 0)[w := -1]) cs)"
    by (rule tally_set_bf [OF T i]) (use bf w bits_of_word [of w "bn_cnodes n ! 0"] in simp_all)
  moreover have "w div 256 mod 97 = 0" "bn_cnodes n \<noteq> []" using w bf(1) by auto
  ultimately show ?thesis using bf w by (simp add: fill_word_def index_eqs get_node_run [OF n(1,2)] bnd_run op_run)
qed

text \<open>\<open>full_marks k\<close>: of the first \<open>k\<close> cnodes those that are first in their node are marked.\<close>

definition full_marks :: "nat \<Rightarrow> nat \<Rightarrow> nat set" where
  "full_marks k c = (if c mod 97 = 0 \<and> c < k then {..<256} else {})"

lemma full_marks_Suc: "(full_marks k)(97 * (k div 97) := {..<256}) = full_marks (Suc k)"
proof
  fix c
  have "97 * (k div 97) \<le> k" by simp
  moreover have "c = 97 * (k div 97)" if "c = k" "c mod 97 = 0" using that by (simp add: minus_mod_eq_mult_div [symmetric])
  ultimately show "((full_marks k)(97 * (k div 97) := {..<256})) c = full_marks (Suc k) c"
    by (auto simp: full_marks_def less_Suc_eq)
qed

lemma tally_seal:
  assumes "tally nb m k U cs" and "k < 8192"
  shows "\<exists>t. set_top_bit k cs = (Ok (), t) \<and> tally nb m (Suc k) U t"
  using assms by (auto simp: set_top_bit_run tally_def)

lemma record_full_run:
  assumes T: "tally nb k k (full_marks k) cs" and k: "k div 97 < nb" "k < 8192"
  shows "\<exists>t. record_full (k * 256) cs = (Ok (), t) \<and> tally nb (Suc k) (Suc k) (full_marks (Suc k)) t"
proof -
  obtain a where a: "upd_bot_node (k div 97) (bn_n_cnodes_update Suc) cs = (Ok (), a)" "tally nb (Suc k) k (full_marks k) a"
    using tally_count [OF T k(1)] by blast
  let ?U = "\<lambda>w. (full_marks k)(97 * (k div 97) := full_marks k (97 * (k div 97)) \<union> {..<64 * w})"
  have "\<exists>t. for_each (fill_word (k * 256)) [0..<4] a = (Ok (), t) \<and> tally nb (Suc k) k (?U 4) t"
  proof (rule for_each_total)
    show "tally nb (Suc k) k (?U 0) a" using a(2) by (simp add: fun_upd_idem)
  next
    fix w s assume w: "w < 4" and s: "tally nb (Suc k) k (?U w) s"
    have "{..<64 * Suc w} = {..<64 * w} \<union> {64 * w..<64 * Suc w}" by auto
    then have "(?U w)(97 * (k div 97) := ?U w (97 * (k div 97)) \<union> {64 * w..<64 * Suc w}) = ?U (Suc w)"
      by (simp add: Un_assoc)
    moreover obtain t where "fill_word (k * 256) w s = (Ok (), t)"
      "tally nb (Suc k) k ((?U w)(97 * (k div 97) := ?U w (97 * (k div 97)) \<union> {64 * w..<64 * Suc w})) t"
      using fill_word_run [OF s _ w, of "k * 256"] k(1) by auto
    ultimately show "\<exists>t. fill_word (k * 256) w s = (Ok (), t) \<and> tally nb (Suc k) k (?U (Suc w)) t" by metis
  qed simp
  then obtain b where b: "for_each (fill_word (k * 256)) [0..<4] a = (Ok (), b)" "tally nb (Suc k) k (?U 4) b" by blast
  have "full_marks k c \<union> {..<256} = {..<256}" for c by (auto simp: full_marks_def)
  then have "?U 4 = full_marks (Suc k)" using full_marks_Suc [of k] by simp
  then obtain t where t: "set_top_bit k b = (Ok (), t)" "tally nb (Suc k) (Suc k) (full_marks (Suc k)) t"
    using tally_seal [of nb "Suc k" k "full_marks (Suc k)" b] b(2) k(2) by auto
  show ?thesis using a(1) b(1) t by (simp add: record_full_def index_eqs seq_run)
qed

lemma record_slot_run:
  assumes T: "tally nb m k U cs" and i: "i div 256 = c" "c div 97 < nb"
  shows "\<exists>t. record_slot (c div 97) i cs = (Ok (), t) \<and> tally nb m k (U(c := insert (i mod 256) (U c))) t"
proof -
  obtain n where n: "cs_bot cs ! (c div 97) = Some n" "c div 97 < length (cs_bot cs)" "tally_node m U (c div 97) n" using tally_nodeE [OF T i(2)] by metis
  have c: "97 * (c div 97) + c mod 97 = c" "c mod 97 < 97" by simp_all
  then have bf: "length (bn_cnodes n) = 97" "length (bn_cnodes n ! (c mod 97)) = 4" "bits_of (bn_cnodes n ! (c mod 97)) = U c"
    using n(3) by (auto simp: tally_node_def)
  have lt: "i mod 256 < 256" by simp
  let ?bf = "bf_or_bit (bn_cnodes n ! (c mod 97)) (i mod 256)"
  have "tally nb m k (U(97 * (c div 97) + c mod 97 := insert (i mod 256) (U c))) (set_bot_bf (c div 97) (c mod 97) ?bf cs)"
    by (rule tally_set_bf [OF T i(2) c(2)]) (use bf lt in simp_all)
  then show ?thesis using bf lt i(1) c by (simp add: record_slot_def index_eqs BOT_LVL_INDEX_eq get_node_run [OF n(1,2)] bnd_run op_run)
qed

section \<open>The whole record\<close>

definition boot_marks :: "nat \<Rightarrow> nat \<Rightarrow> nat set" where
  "boot_marks slot c = (if c = slot div 256 then {..<slot mod 256} else full_marks (slot div 256) c)"

lemma ALIGN_DOWN_256: "ALIGN_DOWN slot 256 = 256 * (slot div 256)"
proof -
  have "slot AND (256 - 1) = slot mod 256" using and_mask [of slot 8] by (simp add: BIT_def)
  then show ?thesis by (simp add: ALIGN_DOWN_def minus_mod_eq_mult_div)
qed

lemma record_used_run:
  assumes T: "tally nb 0 0 (\<lambda>_. {}) cs" and k: "slot div 256 < 8192" "slot div 256 div 97 < nb"
    and n: "n_cnodes \<le> 97 * nb"
  shows "\<exists>t. record_used n_cnodes slot cs = (Ok (), t) \<and>
    tally nb (max (slot div 256 + 1) n_cnodes) (slot div 256) (boot_marks slot) t"
proof -
  let ?k = "slot div 256"
  have div: "c div 97 < nb" if "c \<le> ?k" for c using div_le_mono [OF that, of 97] k(2) by simp
  have "\<exists>t. for_each (\<lambda>k. record_full (k * 256)) [0..<?k] cs = (Ok (), t) \<and> tally nb ?k ?k (full_marks ?k) t"
  proof (rule for_each_total)
    show "tally nb 0 0 (full_marks 0) cs" using T by (simp add: full_marks_def [abs_def])
  qed (use record_full_run k(1) div in auto)
  then obtain a where a: "for_each (\<lambda>k. record_full (k * 256)) [0..<?k] cs = (Ok (), a)" "tally nb ?k ?k (full_marks ?k) a" by blast
  obtain b where b: "upd_bot_node (?k div 97) (bn_n_cnodes_update Suc) a = (Ok (), b)" "tally nb (Suc ?k) ?k (full_marks ?k) b"
    using tally_count [OF a(2) k(2)] by blast
  let ?U = "\<lambda>i. (full_marks ?k)(?k := {..<i - 256 * ?k})"
  have "\<exists>t. for_each (record_slot (?k div 97)) [256 * ?k..<slot] b = (Ok (), t) \<and> tally nb (Suc ?k) ?k (?U slot) t"
  proof (rule for_each_total [where P = "\<lambda>i. tally nb (Suc ?k) ?k (?U i)"])
    show "tally nb (Suc ?k) ?k (?U (256 * ?k)) b" using b(2) by (simp add: fun_upd_idem full_marks_def)
  next
    fix i s assume i: "256 * ?k \<le> i" "i < slot" and s: "tally nb (Suc ?k) ?k (?U i) s"
    have "slot < 256 * ?k + 256" using mult_div_mod_eq [of 256 slot] mod_less_divisor [of 256 slot] by linarith
    moreover obtain d where "i = 256 * ?k + d" using i(1) le_Suc_ex by blast
    ultimately have d: "i = 256 * ?k + d" "d < 256" using i(2) by linarith+
    then have "i div 256 = ?k" "i mod 256 = d" by simp_all
    then obtain t where "record_slot (?k div 97) i s = (Ok (), t)" "tally nb (Suc ?k) ?k ((?U i)(?k := insert d (?U i ?k))) t"
      using record_slot_run [OF s _ k(2), of i] by auto
    moreover have "(?U i)(?k := insert d (?U i ?k)) = ?U (Suc i)" using d by (auto simp: fun_eq_iff less_Suc_eq)
    ultimately show "\<exists>t. record_slot (?k div 97) i s = (Ok (), t) \<and> tally nb (Suc ?k) ?k (?U (Suc i)) t" by metis
  qed simp
  then obtain c where c: "for_each (record_slot (?k div 97)) [256 * ?k..<slot] b = (Ok (), c)" "tally nb (Suc ?k) ?k (?U slot) c" by blast
  have U: "?U slot = boot_marks slot"
    by (auto simp: boot_marks_def fun_eq_iff minus_mult_div_eq_mod)
  have "\<exists>t. for_each (\<lambda>i. upd_bot_node (i div 97) (bn_n_cnodes_update Suc)) [?k + 1..<n_cnodes] c = (Ok (), t) \<and>
      tally nb (max (?k + 1) n_cnodes) ?k (boot_marks slot) t"
  proof (cases "?k + 1 \<le> n_cnodes")
    case True
    then have "\<exists>t. for_each (\<lambda>i. upd_bot_node (i div 97) (bn_n_cnodes_update Suc)) [?k + 1..<n_cnodes] c = (Ok (), t) \<and>
      tally nb n_cnodes ?k (boot_marks slot) t"
    proof (rule for_each_total)
      show "tally nb (?k + 1) ?k (boot_marks slot) c" using c(2) U by simp
    next
      fix i s assume "i < n_cnodes" and s: "tally nb i ?k (boot_marks slot) s"
      then have "i div 97 < nb" using n by (simp add: div_less_iff_less_mult mult.commute)
      then show "\<exists>t. upd_bot_node (i div 97) (bn_n_cnodes_update Suc) s = (Ok (), t) \<and> tally nb (Suc i) ?k (boot_marks slot) t"
        using tally_count [OF s] by simp
    qed
    with True show ?thesis by (simp add: max_def)
  next
    case False
    then show ?thesis using c(2) U by (simp add: op_run max_def)
  qed
  then show ?thesis using a(1) b(1) c(1)
    by (auto simp: record_used_def Let_def index_eqs ALIGN_DOWN_256 seq_run)
qed

section \<open>The CSpace after the record\<close>

definition boot_used :: "nat \<Rightarrow> nat set" where
  "boot_used slot = {c. c div 256 < slot div 256 \<and> c div 256 mod 97 = 0} \<union> {slot div 256 * 256..<slot}"

lemma tally_cnode:
  assumes "tally nb M k U cs" and "i div 97 < nb" and "i < M"
  shows "cnode_present cs i" "bits_of (bot_bf cs i) = U i"
proof -
  obtain n where n: "cs_bot cs ! (i div 97) = Some n" "i div 97 < length (cs_bot cs)" "tally_node M U (i div 97) n"
    using tally_nodeE [OF assms(1,2)] by metis
  have i: "97 * (i div 97) + i mod 97 = i" "i mod 97 < 97" by simp_all
  then have "i mod 97 < M - 97 * (i div 97)" using assms(3) by linarith
  then show "cnode_present cs i" "bits_of (bot_bf cs i) = U i"
    using n i assms(1,2) by (auto simp: cnode_present_def bot_bf_def tally_node_def tally_def)
qed

lemma boot_marks_partial:
  "slot div 256 \<le> c \<Longrightarrow> boot_marks slot c = (if c = slot div 256 then {..<slot mod 256} else {})"
  by (simp add: boot_marks_def full_marks_def)

lemma tally_inv:
  assumes T: "tally nb M (slot div 256) (boot_marks slot) cs" and r: "slot mod 256 < 255"
    and M: "slot div 256 < M" "M \<le> 97 * nb"
  shows "two_level_inv (min 8192 M) {..<slot div 256} cs"
proof -
  have div: "i div 97 < nb" if "i < M" for i using that M(2) by (simp add: div_less_iff_less_mult mult.commute)
  have "cnode_ok {..<slot div 256} cs i" if "i < M" for i
  proof (cases "i < slot div 256")
    case True
    then show ?thesis using tally_cnode [OF T div [OF that] that] T by (auto simp: cnode_ok_def tally_def)
  next
    case False
    then have "255 \<notin> boot_marks slot i" "\<not> {..<255} \<subseteq> boot_marks slot i"
      using r by (auto simp: boot_marks_partial subset_iff)
    then show ?thesis using tally_cnode [OF T div [OF that] that] T False by (auto simp: cnode_ok_def tally_def)
  qed
  moreover have "cnode_absent cs M"
  proof (cases "M div 97 < nb")
    case True
    obtain n where n: "cs_bot cs ! (M div 97) = Some n" "M div 97 < length (cs_bot cs)" "tally_node M (boot_marks slot) (M div 97) n"
      using tally_nodeE [OF T True] by metis
    have "M - 97 * (M div 97) = M mod 97" by (simp add: minus_mult_div_eq_mod)
    then show ?thesis using n by (simp add: cnode_absent_def tally_node_def)
  next
    case False
    then show ?thesis using T by (simp add: cnode_absent_def tally_def)
  qed
  ultimately show ?thesis using T M(1) by (auto simp: two_level_inv_def tally_def min_def)
qed

lemma tally_used:
  assumes T: "tally nb M (slot div 256) (boot_marks slot) cs" and M: "slot div 256 < M" "M \<le> 97 * nb" "slot div 256 < 8192"
  shows "two_level_used (min 8192 M) cs = boot_used slot"
proof -
  have "c \<in> two_level_used (min 8192 M) cs \<longleftrightarrow> c div 256 < min 8192 M \<and> c mod 256 \<in> boot_marks slot (c div 256)" for c
    using tally_cnode(2) [OF T, of "c div 256"] M(2)
    by (auto simp: two_level_used_def div_less_iff_less_mult mult.commute)
  moreover have "c mod 256 \<in> boot_marks slot (c div 256) \<longleftrightarrow> c \<in> boot_used slot" for c
  proof (cases "c div 256 = slot div 256")
    case True
    have "c = 256 * (c div 256) + c mod 256" "slot = 256 * (slot div 256) + slot mod 256" by simp_all
    then have "c mod 256 < slot mod 256 \<longleftrightarrow> slot div 256 * 256 \<le> c \<and> c < slot" using True by linarith
    then show ?thesis using True by (simp add: boot_marks_def boot_used_def)
  next
    case False
    then have "\<not> (slot div 256 * 256 \<le> c \<and> c < slot)"
      using div_le_mono [of "slot div 256 * 256" c 256] div_le_mono [of c slot 256] by auto
    then show ?thesis using False by (auto simp: boot_marks_def full_marks_def boot_used_def)
  qed
  moreover have "c div 256 < min 8192 M" if "c \<in> boot_used slot" for c
    using that M div_le_mono [of c slot 256] by (auto simp: boot_used_def)
  ultimately show ?thesis by blast
qed

text \<open>The four reserved slots.\<close>

lemma two_level_watermark [simp]:
  "two_level_inv N S (cs\<lparr>cs_watermark := ws\<rparr>) = two_level_inv N S cs"
  "two_level_used N (cs\<lparr>cs_watermark := ws\<rparr>) = two_level_used N cs"
  by (simp_all add: two_level_inv_def cnode_ok_def cnode_present_def cnode_absent_def bot_bf_def two_level_used_def)

lemma set_bot_bf_watermark [simp]: "cs_watermark (set_bot_bf i j bf cs) = cs_watermark cs"
  by (simp add: set_bot_bf_def)

lemma alloc_keeps_watermark: "cs_alloc_slot cs = (Ok c, t) \<Longrightarrow> cs_watermark t = cs_watermark cs"
  by (auto simp: cs_alloc_slot_def alloc_bot_slot_def Let_def bnd_eq_Ok op_run set_top_bit_def
      refill_watermark_def ensure_levels_def split: if_splits option.splits)

lemma WATERMARK_4: "WATERMARK_SLOTS = 4"
  by (simp add: const_defs)

lemma alloc_not_full:
  assumes "\<not> two_level_slots N S \<subseteq> two_level_used N s" and inv: "two_level_inv N S s"
  obtains c u where "cs_alloc_slot s = (Ok c, u)" "c \<in> two_level_slots N S - two_level_used N s"
    "two_level_inv N S u" "two_level_used N u = insert c (two_level_used N s)"
  by (rule two_level_alloc_cases [OF inv]) (use assms(1) that in blast)+

lemma fill_watermark_run:
  assumes inv: "two_level_inv N S cs" and used: "two_level_used N cs = U" and w: "length (cs_watermark cs) = 4"
    and room: "A \<subseteq> two_level_slots N S - U" "finite A" "4 \<le> card A"
  shows "\<exists>t. fill_watermark cs = (Ok (), t) \<and> two_level_inv N S t \<and> length (cs_watermark t) = 4 \<and>
    distinct (cs_watermark t) \<and> set (cs_watermark t) \<subseteq> two_level_slots N S - U \<and>
    two_level_used N t = U \<union> set (cs_watermark t)"
proof -
  let ?P = "\<lambda>i t. two_level_inv N S t \<and> length (cs_watermark t) = 4 \<and> distinct (take i (cs_watermark t)) \<and>
    set (take i (cs_watermark t)) \<subseteq> two_level_slots N S - U \<and> two_level_used N t = U \<union> set (take i (cs_watermark t))"
  have "\<exists>t. fill_watermark cs = (Ok (), t) \<and> ?P 4 t"
    unfolding fill_watermark_def WATERMARK_4
  proof (rule for_each_total [where P = ?P])
    show "?P 0 cs" using inv used w by simp
  next
    fix i s assume i: "i < 4" and P: "?P i s"
    let ?ws = "take i (cs_watermark s)"
    have "\<not> A \<subseteq> two_level_used N s"
    proof
      assume "A \<subseteq> two_level_used N s"
      then have "A \<subseteq> set ?ws" using P room(1) by auto
      then have "card A \<le> length ?ws" using card_mono [of "set ?ws" A] card_length [of ?ws] by simp
      then show False using i room(3) by simp
    qed
    then have "\<not> two_level_slots N S \<subseteq> two_level_used N s" using room(1) by blast
    moreover have "two_level_inv N S s" using P by blast
    ultimately obtain c u where a: "cs_alloc_slot s = (Ok c, u)" "c \<in> two_level_slots N S - two_level_used N s"
      "two_level_inv N S u" "two_level_used N u = insert c (two_level_used N s)"
      by (rule alloc_not_full)
    have u: "cs_watermark u = cs_watermark s" by (rule alloc_keeps_watermark [OF a(1)])
    have tk: "take (Suc i) ((cs_watermark s)[i := c]) = ?ws @ [c]" using i P by (simp add: take_Suc_conv_app_nth)
    have "bnd cs_alloc_slot (set_watermark i) s = (Ok (), u\<lparr>cs_watermark := (cs_watermark u)[i := c]\<rparr>)"
      using a(1) u i P by (simp add: bnd_run set_watermark_def op_run)
    moreover have "?P (Suc i) (u\<lparr>cs_watermark := (cs_watermark u)[i := c]\<rparr>)"
      using a P tk by (auto simp: u)
    ultimately show "\<exists>t. bnd cs_alloc_slot (set_watermark i) s = (Ok (), t) \<and> ?P (Suc i) t" by blast
  qed simp
  then show ?thesis by auto
qed

text \<open>Freeing a slot of a sealed cnode without marks.\<close>

lemma unmarked_slot_reissued:
  assumes inv: "two_level_inv N {..<k} cs" and m: "m < k" "k \<le> N" "0 < m"
    and empty: "bits_of (bot_bf cs m) = {}" and c: "c div 256 = m"
  shows "\<exists>t u. cs_free_slot c cs = ((Ok () :: ('e, unit) outcome), t) \<and> cs_alloc_slot t = (Ok (256 * m), u)"
proof -
  have p: "cnode_present cs m" and top: "\<forall>i<m. i \<in> bits_of (cs_top_bf cs)" and N: "N \<le> 8192"
    using inv m by (auto simp: two_level_inv_def cnode_ok_def)
  have cs: "cs_two_level cs" "cs_top_bits cs = INITIAL_TASK_CNODE_SIZE_BITS" "length (cs_top_bf cs) = 128"
    using inv by (simp_all add: two_level_inv_def)
  have c0: "c \<noteq> 0" using c m(3) by auto
  define bf tbf where "bf = bf_andnot_bit (bot_bf cs m) (c mod 256)" and "tbf = bf_andnot_bit (cs_top_bf cs) m"
  define t where "t = upd_cnode m bf tbf cs"
  have "length (bot_bf cs m) = 4" using cnode_node [OF p] by blast
  then have bf: "length bf = 4" "bits_of bf = {}" using empty by (simp_all add: bf_def)
  have tbf: "length tbf = 128" "bits_of tbf = bits_of (cs_top_bf cs) - {m}" using cs(3) m N by (simp_all add: tbf_def)
  have free: "cs_free_slot c cs = ((Ok () :: ('e, unit) outcome), t)"
    using cs_free_slot_run [OF p c c0 _ cs] m N by (simp add: t_def bf_def tbf_def)
  have pt: "cnode_present t m" unfolding t_def by (rule cnode_present_upd [OF p bf(1) p])
  have bt: "bot_bf t m = bf" by (simp add: t_def bot_bf_upd [OF p])
  have ct: "cs_two_level t" "cs_top_bits t = INITIAL_TASK_CNODE_SIZE_BITS" "cs_top_bf t = tbf"
    using cs by (simp_all add: t_def)
  have "bf_free_slot tbf = Ok m" by (rule bf_free_slot_least) (use tbf top m N in auto)
  then have run: "cs_alloc_slot t = alloc_bot_slot m t" using cs_alloc_slot_two_level [of t m] ct tbf(1) by simp
  have j: "bf_free_slot bf = Ok 0" by (rule bf_free_slot_least) (use bf in auto)
  have "bf_free_slot (bf_or_bit bf 0) = Ok 1" by (rule bf_free_slot_least) (use bf in auto)
  then have "cs_alloc_slot t = (Ok (256 * m), upd_cnode m (bf_or_bit bf 0) tbf t)"
    using run alloc_bot_slot_run [OF pt, of 0] j m N tbf(1) by (simp add: bt ct push_bit_eq_mult)
  with free show ?thesis by blast
qed

section \<open>A kernel that grants its calls\<close>

text \<open>Only the moves of the initial capabilities may fail: their errors are printed and ignored.\<close>

definition accepts :: "'k boot_kernel \<Rightarrow> bool" where
  "accepts K \<longleftrightarrow> 0 < bk_fan_out K \<and> (\<forall>k.
     (\<forall>ut bp d i n. fst (k_untyped_retype (bk_sel4 K) ut bp d i n k) = None) \<and>
     (\<forall>d s r. fst (k_cnode_copy (bk_sel4 K) d s r k) = None) \<and>
     (\<forall>d s r b. fst (k_cnode_mint (bk_sel4 K) d s r b k) = None) \<and>
     (\<forall>d. fst (k_cnode_delete (bk_sel4 K) d k) = None) \<and>
     (\<forall>f v a r x. fst (k_frame_map (bk_sel4 K) f v a r x k) = None) \<and>
     (\<forall>f v a. fst (k_pt_map (bk_sel4 K) f v a k) = None) \<and>
     (\<forall>f c d v. fst (bk_set_space K f c d v k) = None))"

text \<open>\<open>does n v m\<close>: \<open>m\<close> returns and takes \<open>n\<close> slots and \<open>v\<close> bytes of address space; only the kernel's state
  changes besides.\<close>

definition moved :: "nat \<Rightarrow> nat \<Rightarrow> 'k boot \<Rightarrow> 'k boot \<Rightarrow> bool" where
  "moved n v s t \<longleftrightarrow> bt_slot t = bt_slot s + n \<and> bt_vaddr t = bt_vaddr s + v \<and> bt_avail t = bt_avail s \<and>
     rs_cs (bt_rs t) = rs_cs (bt_rs s) \<and> rs_ut (bt_rs t) = rs_ut (bt_rs s)"

definition does :: "nat \<Rightarrow> nat \<Rightarrow> ('k, unit) boot_op \<Rightarrow> bool" where
  "does n v m \<longleftrightarrow> (\<forall>s. \<exists>t. m s = (Ok (), t) \<and> moved n v s t)"

named_theorems does_intro "operations that take slots and addresses"

lemma moved_trans: "moved a b s t \<Longrightarrow> moved c d t u \<Longrightarrow> moved (a + c) (b + d) s u"
  by (auto simp: moved_def)

lemma moved_sel:
  assumes "moved n v s t"
  shows "bt_slot t = bt_slot s + n" "bt_vaddr t = bt_vaddr s + v" "bt_avail t = bt_avail s"
    "rs_cs (bt_rs t) = rs_cs (bt_rs s)" "rs_ut (bt_rs t) = rs_ut (bt_rs s)"
  using assms by (auto simp: moved_def)

lemma does_obtain:
  assumes "does n v m"
  obtains t where "m s = (Ok (), t)" "moved n v s t"
  using assms by (auto simp: does_def)

lemma does_seq [does_intro]: "does a b m \<Longrightarrow> does c d m' \<Longrightarrow> does (a + c) (b + d) (seq m m')"
  unfolding does_def by (metis moved_trans seq_run)

lemma does_ret: "does 0 0 (ret ())"
  by (auto simp: does_def moved_def op_run)

lemma does_gets: "(\<And>x. does a b (f x)) \<Longrightarrow> does a b (bnd (gets g) f)"
  by (simp add: does_def)

lemma does_next_slots [does_intro]: "does n 0 (next_slots n)"
  by (auto simp: does_def moved_def next_slots_def op_run)

lemma does_vaddr [does_intro]: "does 0 n (modify (bt_vaddr_update (\<lambda>v. v + n)))"
  by (auto simp: does_def moved_def op_run)

lemma does_expect: "does a b m \<Longrightarrow> does a b (expect m)"
  unfolding does_def
proof
  fix s assume "\<forall>s. \<exists>t. m s = (Ok (), t) \<and> moved a b s t"
  then obtain t where "m s = (Ok (), t)" "moved a b s t" by blast
  then show "\<exists>t. expect m s = (Ok (), t) \<and> moved a b s t" by (simp add: expect_def on_err_def)
qed

lemma does_call: "(\<And>k. fst (f k) = None) \<Longrightarrow> does 0 0 (boot_call f)"
  unfolding does_def
proof
  fix s :: "'a boot" assume f: "\<And>k. fst (f k) = None"
  obtain k where "f (rs_kern (bt_rs s)) = (None, k)" by (metis f prod.collapse)
  then show "\<exists>t. boot_call f s = (Ok (), t) \<and> moved 0 0 s t"
    by (auto simp: boot_call_def in_rs_def kern_call_def in_kern_def on_part_def moved_def)
qed

lemma does_attempt: "does 0 0 (bnd (attempt (boot_call f)) (\<lambda>_. ret ()))"
  unfolding does_def
proof
  fix s :: "'a boot"
  obtain r k where "f (rs_kern (bt_rs s)) = (r, k)" by fastforce
  then show "\<exists>t. bnd (attempt (boot_call f)) (\<lambda>_. ret ()) s = (Ok (), t) \<and> moved 0 0 s t"
    by (cases r) (auto simp: boot_call_def in_rs_def kern_call_def in_kern_def on_part_def moved_def attempt_def bnd_def op_run)
qed

lemma does_for_each: "(\<And>x. does n v (f x)) \<Longrightarrow> does (length xs * n) (length xs * v) (for_each f xs)"
proof (induction xs)
  case Nil
  then show ?case using does_ret by simp
next
  case (Cons x xs)
  from does_seq [OF Cons.prems Cons.IH, OF Cons.prems, of x] show ?case by (simp add: seq_def)
qed

lemma retype_accepts:
  assumes "accepts K"
  shows "\<exists>k'. cs_untyped_retype (bk_sel4 K) cs ut bp slot k = (Ok (), k')"
proof -
  have r: "\<exists>k'. k_untyped_retype (bk_sel4 K) ut bp d i 1 k = (None, k')" for d i
    using assms by (metis accepts_def prod.collapse)
  show ?thesis
  proof (cases "cs_two_level cs")
    case True
    obtain k' where "k_untyped_retype (bk_sel4 K) ut bp
        \<lparr>ac_root = cs_root_cnode cs, ac_bits = drop_bit (CNODE_SLOT_BITS CNODE_SIZE_BITS) slot,
         ac_depth = 64 - CNODE_SLOT_BITS CNODE_SIZE_BITS\<rparr> (slot mod CNODE_SLOTS CNODE_SIZE_BITS) 1 k = (None, k')"
      using r by blast
    then show ?thesis unfolding cs_untyped_retype_def by (simp only: True if_True prod.case kresult_simps) blast
  next
    case False
    obtain k' where "k_untyped_retype (bk_sel4 K) ut bp \<lparr>ac_root = cs_root_cnode cs, ac_bits = 0, ac_depth = 0\<rparr> slot 1 k = (None, k')"
      using r by blast
    then show ?thesis unfolding cs_untyped_retype_def by (simp only: False if_False prod.case kresult_simps) blast
  qed
qed

lemma boot_retype_run:
  assumes "accepts K"
  shows "\<exists>t. boot_retype K ut bp s = (Ok (bt_slot s), t) \<and> moved 0 0 s t"
proof -
  let ?c = "cs_untyped_retype (bk_sel4 K) (rs_cs (bt_rs s)) ut bp (bt_slot s) (rs_kern (bt_rs s))"
  obtain k where "?c = (Ok (), k)" using retype_accepts [OF assms] by blast
  then show ?thesis
    by (auto simp: boot_retype_def in_rs_def rs_retype_def in_kern_def on_part_def moved_def seq_def bnd_def op_run)
qed

lemma does_retype:
  assumes "accepts K" and "\<And>slot. does a b (f slot)"
  shows "does a b (bnd (boot_retype K ut bp) f)"
  unfolding does_def
proof
  fix s :: "'a boot"
  obtain t where t: "boot_retype K ut bp s = (Ok (bt_slot s), t)" "moved 0 0 s t"
    using boot_retype_run [OF assms(1)] by blast
  obtain u where u: "f (bt_slot s) t = (Ok (), u)" "moved a b t u" by (rule does_obtain [OF assms(2)])
  then show "\<exists>u. bnd (boot_retype K ut bp) f s = (Ok (), u) \<and> moved a b s u"
    using t(1) moved_trans [OF t(2) u(2)] by (simp add: bnd_run)
qed

lemma does_calls [does_intro]:
  assumes "accepts K"
  shows "does 0 0 (boot_call (k_untyped_retype (bk_sel4 K) ut bp d i n))"
    "does 0 0 (boot_call (k_cnode_copy (bk_sel4 K) d s r))"
    "does 0 0 (boot_call (k_cnode_mint (bk_sel4 K) d s r b))"
    "does 0 0 (boot_call (k_cnode_delete (bk_sel4 K) d))"
    "does 0 0 (boot_call (k_frame_map (bk_sel4 K) f v a r x))"
    "does 0 0 (boot_call (k_pt_map (bk_sel4 K) f v a))"
    "does 0 0 (boot_call (bk_set_space K f c (g, z) v))"
  using assms by (auto intro!: does_call simp: accepts_def)


section \<open>The phases that only take slots\<close>

lemma does_eq: "does a b m \<Longrightarrow> a = a' \<Longrightarrow> b = b' \<Longrightarrow> does a' b' m"
  by simp

lemma retype_cnodes_does:
  assumes K: "accepts K"
  shows "left \<le> fuel \<Longrightarrow> does 0 0 (retype_cnodes K ut dest n fuel left)"
proof (induction fuel arbitrary: left)
  case 0
  then show ?case by (simp add: retype_cnodes.simps does_ret)
next
  case (Suc fuel)
  have "left - min (bk_fan_out K) left \<le> fuel" if "left \<noteq> 0" using K Suc.prems that by (auto simp: accepts_def)
  then have "does 0 0 (retype_cnodes K ut dest n fuel (left - min (bk_fan_out K) left))" if "left \<noteq> 0"
    using Suc.IH that by simp
  then show ?case
    using does_seq [OF does_calls(1) [OF K]] by (subst retype_cnodes.simps) (auto simp: does_ret Let_def)
qed

lemma retype_4k_does:
  assumes K: "accepts K"
  shows "n \<le> fuel \<Longrightarrow> does n 0 (retype_4k K ut fuel n)"
proof (induction fuel arbitrary: n)
  case 0
  then show ?case by (simp add: retype_4k.simps does_ret)
next
  case (Suc fuel)
  show ?case
  proof (cases "n = 0")
    case False
    have step: "does n 0 (let per = CNODE_SLOTS CNODE_SIZE_BITS; m = min (bk_fan_out K) (min n (per - slot mod per)) in
        seq (boot_call (k_untyped_retype (bk_sel4 K) ut (BUntyped seL4_PageBits) (d slot per) (slot mod per) m))
       (seq (next_slots m) (retype_4k K ut fuel (n - m))))" for slot d
    proof -
      define m where "m = min (bk_fan_out K) (min n (256 - slot mod 256))"
      have "0 < m" using K False by (simp add: m_def accepts_def)
      then have "does (n - m) 0 (retype_4k K ut fuel (n - m))" using Suc by simp
      note rest = does_seq [OF does_calls(1) [OF K] does_seq [OF does_next_slots this]]
      have "m \<le> n" by (simp add: m_def)
      then show ?thesis
        unfolding Let_def index_eqs m_def [symmetric] by (intro does_eq [OF rest]) simp_all
    qed
    show ?thesis using False by (subst retype_4k.simps) (simp, intro does_gets step)
  qed (simp add: retype_4k.simps does_ret)
qed

lemma boot_pt_does: "accepts K \<Longrightarrow> does 1 0 (boot_pt K ut must vaddr)"
  unfolding boot_pt_def Let_def
  by (intro does_retype, assumption, rule does_eq, rule does_seq)
    (auto intro: does_intro does_expect)

lemma map_ut_page_does: "accepts K \<Longrightarrow> does 1 4096 (map_ut_page K ut)"
  unfolding map_ut_page_def PAGE_SIZE_4K_eq
  by (intro does_retype does_gets, assumption, rule does_eq, rule does_seq, rule does_calls, assumption, rule does_seq)
    (auto intro: does_intro)

lemma map_ut_table_does:
  assumes "accepts K"
  shows "does (3 + n div 512 + n) (n * 4096) (map_ut_table K ut n)"
proof -
  note pt = boot_pt_does [OF assms] and page = map_ut_page_does [OF assms]
  show ?thesis
    unfolding map_ut_table_def
    by (rule does_eq, (rule does_seq pt does_for_each page)+) (simp_all add: const_defs drop_bit_eq_div)
qed

lemma dma_pages_does: "accepts K \<Longrightarrow> does 1 0 (bnd (boot_retype K ut BSmallPage) (\<lambda>_. next_slots 1))"
  by (intro does_retype does_next_slots)

lemma move_cap_does: "does 0 0 (move_cap K i)"
  by (simp add: move_cap_def does_ret does_attempt)

definition fresh_cspace :: cspace where
  "fresh_cspace = cspace_new INIT_CNODE True INITIAL_TASK_CNODE_SIZE_BITS
     (replicate (INITIAL_TASK_CSPACE_SLOTS div BOT_LVL_PER_NODE + 1) None)"

lemma does_then:
  assumes "does a b m" and "\<And>t. moved a b s t \<Longrightarrow> \<exists>u. m' t = (Ok x, u) \<and> P u"
  shows "\<exists>u. seq m m' s = (Ok x, u) \<and> P u"
  using does_obtain [OF assms(1), of s] assms(2) by (metis seq_run)

lemma make_cspace_run:
  assumes K: "accepts K"
  shows "\<exists>t. make_cspace K bi n ut s = (Ok (), t) \<and> bt_slot t = bi_empty_start bi \<and> bt_vaddr t = bt_vaddr s \<and>
    bt_avail t = bt_avail s \<and> rs_cs (bt_rs t) = fresh_cspace \<and> rs_ut (bt_rs t) = rs_ut (bt_rs s)"
proof -
  have moves: "does 0 0 (for_each (move_cap K) xs)" for xs using does_for_each [OF move_cap_does] by simp
  note calls = does_calls [OF K]
  show ?thesis
    unfolding make_cspace_def Let_def
    by (rule does_then [OF does_expect [OF calls(1)]], rule does_then [OF retype_cnodes_does [OF K order_refl]],
        rule does_then [OF calls(2)], rule does_then [OF calls(3)], rule does_then [OF does_expect [OF calls(7)]],
        rule does_then [OF moves], rule does_then [OF calls(4)])
      (simp add: op_run fresh_cspace_def moved_def)
qed

section \<open>Filling the untyped table\<close>

definition ut_addr :: "nat \<Rightarrow> nat \<Rightarrow> nat" where
  "ut_addr start p = UT_TABLE + (p - start) div 4096 * 32"

definition only_4k :: "nat list \<Rightarrow> nat \<Rightarrow> nat list" where
  "only_4k L j = (if j = 8 then L else [])"

text \<open>The table's fixed part: where its structures lie and which page comes first.\<close>

definition table_at :: "nat \<Rightarrow> nat \<Rightarrow> ut_table \<Rightarrow> bool" where
  "table_at start v T \<longleftrightarrow> ut_untypeds T = Some UT_TABLE \<and> ut_first_paddr T = start \<and> ut_next_vaddr T = v"

lemma ut_addr_neq:
  assumes "start \<le> p" and "p + 4096 \<le> q"
  shows "ut_addr start p \<noteq> ut_addr start q"
proof -
  have "(p - start + 4096) div 4096 \<le> (q - start) div 4096" by (rule div_le_mono) (use assms in linarith)
  then show ?thesis by (simp add: ut_addr_def)
qed

lemma ut_rep_fields:
  "ut_rep b W F (T\<lparr>ut_n_4k := n\<rparr>) = ut_rep b W F T" "ut_rep b W F (T\<lparr>ut_next_vaddr := v\<rparr>) = ut_rep b W F T"
  by (simp_all add: ut_rep_def ut_lists_def ut_head_def)

lemma ut_rep_unlisted:
  assumes "ut_rep b Map.empty F T" and "\<forall>j\<le>9. p \<notin> set (F j)"
  shows "ut_rep b Map.empty F (T\<lparr>ut_heap := (ut_heap T)(p := x)\<rparr>)"
  using assms ut_lists_set [of T F p x] by (auto simp: ut_rep_def)

lemma push_4k:
  assumes R: "ut_rep b Map.empty (only_4k L) T" and p: "p \<notin> set L" "p < b" "ut_size_bits (ut_heap T p) = 12"
  shows "\<exists>T'. push_untyped seL4_PageBits p T = ((Ok () :: (sel4_error, unit) outcome), T') \<and> ut_rep b Map.empty (only_4k (p # L)) T' \<and>
    table_at start v T' = table_at start v T"
proof -
  have len: "length (ut_free T) = 9" using R by (simp add: ut_rep_def ut_lists_def)
  let ?T = "T\<lparr>ut_free := (ut_free T)[8 := Some p], ut_heap := (ut_heap T)(p := (ut_heap T p)\<lparr>ut_next := ut_free T ! 8\<rparr>)\<rparr>"
  have "ut_rep b Map.empty ((only_4k L)(8 := p # only_4k L 8)) ?T"
    by (rule ut_rep_push [OF R]) (use p len in \<open>auto simp: only_4k_def ut_head_def\<close>)
  moreover have "(only_4k L)(8 := p # only_4k L 8) = only_4k (p # L)" by (auto simp: only_4k_def)
  moreover have "push_untyped seL4_PageBits p T = ((Ok () :: (sel4_error, unit) outcome), ?T)"
    by (simp add: push_untyped_def SIZE_BITS_TO_INDEX_def const_defs ut_push_def len)
  ultimately show ?thesis by (simp add: table_at_def)
qed

lemma add_untyped_run:
  assumes R: "ut_rep b Map.empty (only_4k L) T" and T: "table_at start v T" and p: "start \<le> paddr + i * 4096"
    and node: "ut_addr start (paddr + i * 4096) \<notin> set L" "ut_addr start (paddr + i * 4096) < b"
  shows "\<exists>T'. add_untyped paddr cptr device i T = ((Ok () :: (sel4_error, unit) outcome), T') \<and> table_at start v T' \<and>
    ut_rep b Map.empty (only_4k (if device then L else ut_addr start (paddr + i * 4096) # L)) T'"
proof -
  let ?p = "ut_addr start (paddr + i * 4096)"
  define x where "x = (ut_heap T ?p)\<lparr>ut_cap := cptr + i, ut_valid := True\<rparr>"
  define T1 where "T1 = T\<lparr>ut_heap := (ut_heap T)(?p := x)\<rparr>"
  have free: "\<forall>j\<le>9. ?p \<notin> set (only_4k L j)" using node by (simp add: only_4k_def)
  have R1: "ut_rep b Map.empty (only_4k L) T1" unfolding T1_def by (rule ut_rep_unlisted [OF R free])
  have at: "table_at start v T1" using T by (simp add: T1_def table_at_def)
  have addr: "(paddr_to_ut (paddr + i * PAGE_SIZE_4K) T :: (sel4_error, nat) outcome) = Ok ?p"
    using T p by (simp add: paddr_to_ut_def table_at_def sub_us_def ut_addr_def PAGE_SIZE_4K_eq UT_SIZE_def)
  show ?thesis
  proof (cases device)
    case True
    then show ?thesis using addr R1 at by (simp add: add_untyped_def bnd_def op_run T1_def x_def fun_upd_def cong: if_cong)
  next
    case False
    define T2 where "T2 = T1\<lparr>ut_heap := (ut_heap T1)(?p := (ut_heap T1 ?p)\<lparr>ut_size_bits := seL4_PageBits\<rparr>)\<rparr>"
    have R2: "ut_rep b Map.empty (only_4k L) T2" unfolding T2_def by (rule ut_rep_unlisted [OF R1 free])
    have "ut_size_bits (ut_heap T2 ?p) = 12" by (simp add: T2_def const_defs)
    from push_4k [OF R2 node(1,2) this] obtain T3 where T3: "push_untyped seL4_PageBits ?p T2 = ((Ok () :: (sel4_error, unit) outcome), T3)"
      "ut_rep b Map.empty (only_4k (?p # L)) T3" "table_at start v T3 = table_at start v T2" by blast
    have "add_untyped paddr cptr device i T = ((Ok () :: (sel4_error, unit) outcome), T3\<lparr>ut_n_4k := ut_n_4k T3 + 1\<rparr>)"
      using addr T3(1) False by (simp add: add_untyped_def bnd_def op_run T1_def T2_def x_def)
    then show ?thesis using T3 at False by (simp add: ut_rep_fields table_at_def T2_def)
  qed
qed

lemma add_range_run:
  assumes R: "ut_rep b Map.empty (only_4k L) T" and T: "table_at start v T" and p: "start \<le> paddr"
    and node: "\<And>i. i < n \<Longrightarrow> ut_addr start (paddr + i * 4096) \<notin> set L \<and> ut_addr start (paddr + i * 4096) < b"
  shows "\<exists>T' L'. add_untyped_range paddr cptr n device T = ((Ok () :: (sel4_error, unit) outcome), T') \<and> table_at start v T' \<and>
    ut_rep b Map.empty (only_4k L') T' \<and> length L' = length L + (if device then 0 else n) \<and>
    set L' \<subseteq> set L \<union> (\<lambda>i. ut_addr start (paddr + i * 4096)) ` {..<n}"
proof -
  let ?a = "\<lambda>i. ut_addr start (paddr + i * 4096)"
  let ?P = "\<lambda>m T'. table_at start v T' \<and> (\<exists>L'. ut_rep b Map.empty (only_4k L') T' \<and>
    length L' = length L + (if device then 0 else m) \<and> set L' \<subseteq> set L \<union> ?a ` {..<m})"
  have "\<exists>T'. for_each (add_untyped paddr cptr device) [0..<n] T = ((Ok () :: (sel4_error, unit) outcome), T') \<and> ?P n T'"
  proof (rule for_each_total [where P = ?P])
    show "?P 0 T" using R T by auto
  next
    fix i S assume i: "i < n" and P: "?P i S"
    then obtain L' where L': "ut_rep b Map.empty (only_4k L') S" "length L' = length L + (if device then 0 else i)"
      "set L' \<subseteq> set L \<union> ?a ` {..<i}" by blast
    have "?a i \<noteq> ?a j" if "j < i" for j
      using ut_addr_neq [of start "paddr + j * 4096" "paddr + i * 4096"] that p by simp
    then have "?a i \<notin> set L'" using L'(3) node [OF i] by auto
    then obtain S' where "add_untyped paddr cptr device i S = ((Ok () :: (sel4_error, unit) outcome), S')" "table_at start v S'"
      "ut_rep b Map.empty (only_4k (if device then L' else ?a i # L')) S'"
      using add_untyped_run [OF L'(1) conjunct1 [OF P] _ _ conjunct2 [OF node [OF i]]] p by fastforce
    moreover have "set (if device then L' else ?a i # L') \<subseteq> set L \<union> ?a ` {..<Suc i}"
      "length (if device then L' else ?a i # L') = length L + (if device then 0 else Suc i)"
      using L'(2,3) by (auto simp: lessThan_Suc)
    ultimately show "\<exists>S'. add_untyped paddr cptr device i S = ((Ok () :: (sel4_error, unit) outcome), S') \<and> ?P (Suc i) S'"
      by blast
  qed simp
  then show ?thesis by (auto simp: add_untyped_range_def)
qed

section \<open>The bytes that are left\<close>

definition nth_untyped :: "bootinfo \<Rightarrow> nat \<Rightarrow> untyped_desc" where
  "nth_untyped bi i = bi_untyped_list bi ! i"

abbreviation ud_end :: "untyped_desc \<Rightarrow> nat" where
  "ud_end u \<equiv> ud_paddr u + BIT (ud_size_bits u)"

text \<open>The number of 4K untypeds made of an untyped, and how many of them go to the free list.\<close>

definition boot_caps :: "bootinfo \<Rightarrow> nat list \<Rightarrow> nat \<Rightarrow> nat" where
  "boot_caps bi av i =
     (let u = nth_untyped bi i in
      if \<not> untyped_in_range u then 0 else if ud_device u then BIT (ud_size_bits u) div 4096 else av ! i div 4096)"

definition boot_frames :: "bootinfo \<Rightarrow> nat list \<Rightarrow> nat \<Rightarrow> nat" where
  "boot_frames bi av i = (if ud_device (nth_untyped bi i) then 0 else boot_caps bi av i)"

text \<open>What every array of available bytes satisfies.\<close>

definition avail_ok :: "bootinfo \<Rightarrow> nat list \<Rightarrow> bool" where
  "avail_ok bi av \<longleftrightarrow> length (bi_untyped_list bi) \<le> length av \<and>
     (\<forall>i<length (bi_untyped_list bi). let u = nth_untyped bi i in
        if untyped_in_range u \<and> \<not> ud_device u
        then av ! i \<le> BIT (ud_size_bits u) \<and> 4096 dvd BIT (ud_size_bits u) - av ! i
        else av ! i = 0)"

lemma calculate_ut_caps_spec:
  assumes "(calculate_ut_caps i us sb av :: (sel4_error, nat \<times> nat list) outcome) = Ok (n, av')"
  shows "n = (\<Sum>u\<leftarrow>us. if untyped_in_range u \<and> sb \<le> ud_size_bits u then BIT (ud_size_bits u - sb) else 0)"
    and "length av' = length av"
    and "av' ! j = av ! j + (if i \<le> j \<and> j < i + length us \<and> untyped_in_range (us ! (j - i)) \<and> \<not> ud_device (us ! (j - i))
       then BIT (ud_size_bits (us ! (j - i))) else 0)"
  using assms
proof (induction us arbitrary: i av n)
  case Nil
  { case 1 then show ?case by simp next case 2 then show ?case by simp next case 3 then show ?case by simp }
next
  case (Cons u us)
  have nth: "(u # us) ! (j - i) = (if j = i then u else us ! (j - Suc i))" if "i \<le> j" for j i
    using that by (cases "j = i") (auto simp: nth_Cons')
  { case 1
    then show ?case using Cons.IH(1) by (fastforce simp: obind_eq_Ok split: if_splits)
  next
    case 2
    then show ?case using Cons.IH(2) by (fastforce simp: obind_eq_Ok split: if_splits)
  next
    case 3
    then show ?case
    proof (cases "untyped_in_range u \<and> \<not> ud_device u")
      case True
      with 3 obtain m where m: "i < length av" "(calculate_ut_caps (Suc i) us sb (av[i := av ! i + BIT (ud_size_bits u)]) :: (sel4_error, nat \<times> nat list) outcome) = Ok (m, av')"
        by (auto simp: obind_eq_Ok split: if_splits)
      show ?thesis using Cons.IH(3) [OF m(2)] m(1) True nth [of i j] by (cases "j = i") (auto simp: nth_list_update)
    next
      case False
      with 3 obtain m where m: "(calculate_ut_caps (Suc i) us sb av :: (sel4_error, nat \<times> nat list) outcome) = Ok (m, av')"
        by (auto simp: obind_eq_Ok split: if_splits)
      show ?thesis using Cons.IH(3) [OF m] False nth [of i j] by (cases "j = i") auto
    qed }
qed

lemma find_untyped_Some:
  "(find_untyped i us sb av :: (sel4_error, nat option) outcome) = Ok (Some j) \<Longrightarrow>
     i \<le> j \<and> j < i + length us \<and> untyped_in_range (us ! (j - i)) \<and> j < length av \<and> BIT sb \<le> av ! j"
proof (induction us arbitrary: i)
  case (Cons u us)
  have nth: "(u # us) ! (j - i) = us ! (j - Suc i)" if "Suc i \<le> j" using that by (simp add: nth_Cons')
  show ?case
  proof (cases "j = i \<and> untyped_in_range u \<and> i < length av \<and> BIT sb \<le> av ! i")
    case False
    then have "(find_untyped (Suc i) us sb av :: (sel4_error, nat option) outcome) = Ok (Some j)" using Cons.prems by (auto split: if_splits)
    from Cons.IH [OF this] nth show ?thesis by auto
  qed auto
qed simp

lemma BIT_dvd: "12 \<le> n \<Longrightarrow> 4096 dvd BIT n"
  using le_imp_power_dvd [of 12 n 2] by (simp add: BIT_def)

text \<open>Stealing keeps the array in order and takes its part of the 4K untypeds.\<close>

lemma steal_untyped_spec:
  assumes ok: "avail_ok bi av" and st: "(steal_untyped bi sb av :: (sel4_error, (cptr \<times> nat) option \<times> nat list) outcome) = Ok (Some (ut, p), av')"
  shows "avail_ok bi av'"
    and "(\<Sum>i<length (bi_untyped_list bi). boot_caps bi av' i) + 2 ^ (sb - 12) = (\<Sum>i<length (bi_untyped_list bi). boot_caps bi av i)"
    and "12 \<le> sb"
proof -
  obtain j where sb: "12 \<le> sb" and j: "(find_untyped 0 (bi_untyped_list bi) sb av :: (sel4_error, nat option) outcome) = Ok (Some j)"
    and av': "av' = av[j := av ! j - BIT sb]"
    using st by (auto simp: steal_untyped_def obind_eq_Ok rust_assert_def const_defs split: if_splits option.splits)
  show "12 \<le> sb" by (rule sb)
  let ?n = "length (bi_untyped_list bi)"
  have f: "j < ?n" "untyped_in_range (nth_untyped bi j)" "j < length av" "BIT sb \<le> av ! j"
    using find_untyped_Some [OF j] by (auto simp: nth_untyped_def)
  have "0 < BIT sb" by (simp add: BIT_def)
  then have pos: "av ! j \<noteq> 0" using f(4) by linarith
  with ok f have dev: "\<not> ud_device (nth_untyped bi j)" and le: "av ! j \<le> BIT (ud_size_bits (nth_untyped bi j))"
    and dvd: "4096 dvd BIT (ud_size_bits (nth_untyped bi j)) - av ! j"
    by (auto simp: avail_ok_def Let_def split: if_splits)
  have "BIT (ud_size_bits (nth_untyped bi j)) - (av ! j - BIT sb) = (BIT (ud_size_bits (nth_untyped bi j)) - av ! j) + BIT sb"
    using le f(4) by simp
  then have "4096 dvd BIT (ud_size_bits (nth_untyped bi j)) - (av ! j - BIT sb)" using dvd BIT_dvd [OF sb] by simp
  moreover have "av ! j - BIT sb \<le> BIT (ud_size_bits (nth_untyped bi j))" using le by simp
  ultimately have bytes: "av' ! j \<le> BIT (ud_size_bits (nth_untyped bi j)) \<and> 4096 dvd BIT (ud_size_bits (nth_untyped bi j)) - av' ! j"
    using f(3) by (simp add: av')
  show "avail_ok bi av'"
    unfolding avail_ok_def
  proof (intro conjI allI impI)
    fix i assume i: "i < ?n"
    show "let u = nth_untyped bi i in
        if untyped_in_range u \<and> \<not> ud_device u
        then av' ! i \<le> BIT (ud_size_bits u) \<and> 4096 dvd BIT (ud_size_bits u) - av' ! i else av' ! i = 0"
    proof (cases "i = j")
      case True
      then show ?thesis using bytes f(2) dev by (simp only: Let_def if_True simp_thms)
    next
      case False
      then have "av' ! i = av ! i" by (simp add: av')
      moreover have "let u = nth_untyped bi i in if untyped_in_range u \<and> \<not> ud_device u
        then av ! i \<le> BIT (ud_size_bits u) \<and> 4096 dvd BIT (ud_size_bits u) - av ! i else av ! i = 0"
        using ok i unfolding avail_ok_def by blast
      ultimately show ?thesis by (simp only:)
    qed
  qed (use ok in \<open>simp add: avail_ok_def av'\<close>)
  have "BIT sb = 4096 * 2 ^ (sb - 12)" using sb power_add [of "2::nat" 12 "sb - 12"] by (simp add: BIT_def)
  moreover obtain d where "av ! j = BIT sb + d" using f(4) le_Suc_ex by blast
  ultimately have "av ! j div 4096 = (av ! j - BIT sb) div 4096 + 2 ^ (sb - 12)" by simp
  then have c: "boot_caps bi av j = boot_caps bi av' j + 2 ^ (sb - 12)"
    using f dev by (simp add: boot_caps_def av' Let_def)
  have same: "boot_caps bi av' i = boot_caps bi av i" if "i \<noteq> j" for i using that by (simp add: boot_caps_def av' Let_def)
  have "(\<Sum>i\<in>{..<?n} - {j}. boot_caps bi av' i) = (\<Sum>i\<in>{..<?n} - {j}. boot_caps bi av i)"
    by (rule sum.cong) (use same in auto)
  then show "(\<Sum>i<?n. boot_caps bi av' i) + 2 ^ (sb - 12) = (\<Sum>i<?n. boot_caps bi av i)"
    using sum.remove [of "{..<?n}" j "boot_caps bi av"] sum.remove [of "{..<?n}" j "boot_caps bi av'"] f(1) c by simp
qed

section \<open>Where the untypeds lie\<close>

definition disjoint_untypeds :: "bootinfo \<Rightarrow> bool" where
  "disjoint_untypeds bi \<longleftrightarrow>
     (\<forall>i<length (bi_untyped_list bi). \<forall>j<i. untyped_in_range (nth_untyped bi i) \<and> untyped_in_range (nth_untyped bi j) \<longrightarrow>
        ud_end (nth_untyped bi i) \<le> ud_paddr (nth_untyped bi j) \<or> ud_end (nth_untyped bi j) \<le> ud_paddr (nth_untyped bi i))"

text \<open>The pages inside the first \<open>n\<close> untypeds.\<close>

definition boot_pages :: "bootinfo \<Rightarrow> nat \<Rightarrow> nat set" where
  "boot_pages bi n = {p. \<exists>i<n. untyped_in_range (nth_untyped bi i) \<and> ud_paddr (nth_untyped bi i) \<le> p \<and>
     p + 4096 \<le> ud_end (nth_untyped bi i)}"

lemma boot_pages_mono: "n \<le> n' \<Longrightarrow> boot_pages bi n \<subseteq> boot_pages bi n'"
proof (rule subsetI)
  fix p assume n: "n \<le> n'" "p \<in> boot_pages bi n"
  then obtain i where "i < n" "untyped_in_range (nth_untyped bi i) \<and> ud_paddr (nth_untyped bi i) \<le> p \<and>
    p + 4096 \<le> ud_end (nth_untyped bi i)" by (auto simp: boot_pages_def)
  with n(1) show "p \<in> boot_pages bi n'" unfolding boot_pages_def by (intro CollectI exI [of _ i]) simp
qed

definition bounds_ok :: "bootinfo \<Rightarrow> nat \<times> nat \<Rightarrow> bool" where
  "bounds_ok bi m \<longleftrightarrow> (\<forall>i<length (bi_untyped_list bi). untyped_in_range (nth_untyped bi i) \<longrightarrow>
     fst m \<le> ud_paddr (nth_untyped bi i) \<and> ud_end (nth_untyped bi i) \<le> snd m)"

lemma widen_bounds:
  "widen us (a, b) = (a', b') \<Longrightarrow> a' \<le> a \<and> b \<le> b' \<and> (\<forall>u \<in> set us. untyped_in_range u \<longrightarrow> a' \<le> ud_paddr u \<and> ud_end u \<le> b')"
proof (induction us arbitrary: a b)
  case (Cons u us)
  then show ?case by (cases "untyped_in_range u") (fastforce simp: min_le_iff_disj le_max_iff_disj)+
qed simp

lemma find_memory_bounds_ok:
  assumes "(find_memory_bounds bi :: (sel4_error, nat \<times> nat) outcome) = Ok m"
  shows "bounds_ok bi m"
proof -
  obtain a b where w: "widen (bi_untyped_list bi) (PHYSICAL_ADDRESS_LIMIT, 0) = (a, b)" by fastforce
  with assms have "m = (a, b)" by (auto simp: find_memory_bounds_def obind_eq_Ok)
  with widen_bounds [OF w] show ?thesis by (auto simp: bounds_ok_def nth_untyped_def)
qed

lemma pages_cover: "b \<le> BYTES_TO_4K_PAGES b * 4096"
proof -
  have "b = 4096 * (b div 4096) + b mod 4096" by simp
  moreover have "b mod 4096 < 4096" by simp
  ultimately show ?thesis
    by (auto simp: BYTES_TO_4K_PAGES_def BYTES_TO_SIZE_BITS_PAGES_def PAGE_BITS_4K_def BIT_def)
qed

lemma ut_addr_bound:
  assumes m: "bounds_ok bi m" and p: "p \<in> boot_pages bi (length (bi_untyped_list bi))"
  shows "fst m \<le> p" "ut_addr (fst m) p < UT_TABLE + ut_pages_for_region m * 4096" "p < 2 ^ 33"
proof -
  obtain i where i: "i < length (bi_untyped_list bi)" "untyped_in_range (nth_untyped bi i)"
    "ud_paddr (nth_untyped bi i) \<le> p" "p + 4096 \<le> ud_end (nth_untyped bi i)" using p by (auto simp: boot_pages_def)
  then have b: "fst m \<le> ud_paddr (nth_untyped bi i)" "ud_end (nth_untyped bi i) \<le> snd m" using m by (auto simp: bounds_ok_def)
  show "fst m \<le> p" using b(1) i(3) by simp
  have "(p - fst m + 4096) div 4096 \<le> (snd m - fst m) div 4096" by (rule div_le_mono) (use b i in linarith)
  then have "(p - fst m) div 4096 + 1 \<le> (snd m - fst m) div 4096" by simp
  then have "(p - fst m) div 4096 * 32 + 32 \<le> (snd m - fst m) div 4096 * 32" by linarith
  then have "(p - fst m) div 4096 * 32 < ut_pages_for_region m * 4096"
    using pages_cover [of "(snd m - fst m) div 4096 * 32"] by (simp add: ut_pages_for_region_def PAGE_SIZE_4K_eq UT_SIZE_def)
  then show "ut_addr (fst m) p < UT_TABLE + ut_pages_for_region m * 4096" by (simp add: ut_addr_def)
  have "BIT (ud_size_bits (nth_untyped bi i)) \<le> 2 ^ 32" using i(2) power_increasing [of "ud_size_bits (nth_untyped bi i)" 32 "2::nat"]
    by (simp add: untyped_in_range_def const_defs BIT_def)
  moreover have "ud_paddr (nth_untyped bi i) \<le> 0xdfffffff" using i(2) by (simp add: untyped_in_range_def const_defs)
  ultimately show "p < 2 ^ 33" using i(4) by simp
qed

text \<open>Where the 4K untypeds of an untyped begin.\<close>

definition boot_base :: "bootinfo \<Rightarrow> nat list \<Rightarrow> nat \<Rightarrow> nat" where
  "boot_base bi av i =
     (let u = nth_untyped bi i in ud_paddr u + (if ud_device u then 0 else BIT (ud_size_bits u) - av ! i))"

lemma ROUND_UP_exact: "2 ^ b dvd n \<Longrightarrow> ROUND_UP n b = n"
proof (cases "n = 0")
  case False
  assume d: "2 ^ b dvd n"
  then obtain k l where k: "n = 2 ^ b * k" "ROUND_UP n b = 2 ^ b * l" using ROUND_UP_dvd [of b n] by (auto simp: dvd_def)
  have "2 ^ b * l < 2 ^ b * (k + 1)" using ROUND_UP_less [of n b] False k by simp
  then have "l \<le> k" by (simp only: mult_less_cancel1) simp
  moreover have "k \<le> l" using ROUND_UP_ge [of n b] k by simp
  ultimately show ?thesis using k by simp
qed (simp add: ROUND_UP_def)

lemma paddr_from_avail:
  assumes ok: "avail_ok bi av" and i: "i < length (bi_untyped_list bi)" "untyped_in_range (nth_untyped bi i)"
  shows "(paddr_from_avail_bytes bi i seL4_PageBits av :: (sel4_error, nat) outcome) = Ok (boot_base bi av i)"
    and "\<And>q. q < boot_caps bi av i \<Longrightarrow> ud_paddr (nth_untyped bi i) \<le> boot_base bi av i + q * 4096 \<and>
      boot_base bi av i + q * 4096 + 4096 \<le> ud_end (nth_untyped bi i)"
proof -
  let ?u = "nth_untyped bi i"
  have a: "i < length av" "\<not> ud_device ?u \<Longrightarrow> av ! i \<le> BIT (ud_size_bits ?u) \<and> 4096 dvd BIT (ud_size_bits ?u) - av ! i"
    using ok i by (auto simp: avail_ok_def Let_def split: if_splits)
  then show "(paddr_from_avail_bytes bi i seL4_PageBits av :: (sel4_error, nat) outcome) = Ok (boot_base bi av i)"
    by (cases "ud_device ?u") (simp_all add: paddr_from_avail_bytes_def boot_base_def nth_untyped_def [symmetric] Let_def
        sub_us_def ROUND_UP_exact seL4_PageBits_def)
  fix q assume q: "q < boot_caps bi av i"
  show "ud_paddr ?u \<le> boot_base bi av i + q * 4096 \<and> boot_base bi av i + q * 4096 + 4096 \<le> ud_end ?u"
  proof (cases "ud_device ?u")
    case True
    then have "q + 1 \<le> BIT (ud_size_bits ?u) div 4096" using q i(2) by (simp add: boot_caps_def Let_def)
    then have "(q + 1) * 4096 \<le> BIT (ud_size_bits ?u)" using le_trans [OF mult_le_mono1 div_times_less_eq_dividend] by blast
    then show ?thesis using True by (simp add: boot_base_def Let_def)
  next
    case False
    then have "q + 1 \<le> av ! i div 4096" using q i(2) by (simp add: boot_caps_def Let_def)
    then have "(q + 1) * 4096 \<le> av ! i" using le_trans [OF mult_le_mono1 div_times_less_eq_dividend] by blast
    moreover obtain d where "BIT (ud_size_bits ?u) = av ! i + d" using False a(2) le_Suc_ex by blast
    ultimately show ?thesis using False by (simp add: boot_base_def Let_def)
  qed
qed

section \<open>All memory added\<close>

lemma in_ut_run: "m (rs_ut (bt_rs s)) = (r, T) \<Longrightarrow> in_rs (in_ut m) s = (r, s\<lparr>bt_rs := (bt_rs s)\<lparr>rs_ut := T\<rparr>\<rparr>)"
  by (simp add: in_rs_def in_ut_def on_part_def)

lemma in_cs_run: "m (rs_cs (bt_rs s)) = (r, c) \<Longrightarrow> in_rs (in_cs m) s = (r, s\<lparr>bt_rs := (bt_rs s)\<lparr>rs_cs := c\<rparr>\<rparr>)"
  by (simp add: in_rs_def in_cs_def on_part_def)

definition added :: "bootinfo \<Rightarrow> nat list \<Rightarrow> cspace \<Rightarrow> nat \<Rightarrow> nat \<Rightarrow> nat \<Rightarrow> nat \<Rightarrow> 'k boot \<Rightarrow> bool" where
  "added bi av cs slot start b n s \<longleftrightarrow>
     bt_avail s = av \<and> rs_cs (bt_rs s) = cs \<and> bt_slot s = slot + (\<Sum>i<n. boot_caps bi av i) \<and>
     table_at start b (rs_ut (bt_rs s)) \<and>
     (\<exists>L. ut_rep b Map.empty (only_4k L) (rs_ut (bt_rs s)) \<and> length L = (\<Sum>i<n. boot_frames bi av i) \<and>
        set L \<subseteq> ut_addr start ` boot_pages bi n)"

lemma add_memory_run:
  assumes K: "accepts K" and ok: "avail_ok bi av" and dis: "disjoint_untypeds bi" and m: "bounds_ok bi m"
    and b: "b = UT_TABLE + ut_pages_for_region m * 4096"
    and n: "n < length (bi_untyped_list bi)" and A: "added bi av cs slot (fst m) b n s"
  shows "\<exists>t. add_memory K bi n s = (Ok (), t) \<and> added bi av cs slot (fst m) b (Suc n) t"
proof (cases "untyped_in_range (nth_untyped bi n)")
  case False
  have "boot_pages bi n \<subseteq> boot_pages bi (Suc n)" using boot_pages_mono [of n "Suc n"] by simp
  then have "ut_addr (fst m) ` boot_pages bi n \<subseteq> ut_addr (fst m) ` boot_pages bi (Suc n)" by (rule image_mono)
  moreover have "boot_caps bi av n = 0" "boot_frames bi av n = 0"
    using False by (simp_all add: boot_caps_def boot_frames_def)
  ultimately have "added bi av cs slot (fst m) b (Suc n) s" using A unfolding added_def by (simp del: image_mono) (meson order_trans)
  then show ?thesis using False by (simp add: add_memory_def Let_def nth_untyped_def [symmetric] op_run)
next
  case True
  let ?u = "nth_untyped bi n" and ?c = "boot_caps bi av n" and ?p = "boot_base bi av n"
  note base = paddr_from_avail [OF ok n True]
  obtain L where L: "ut_rep b Map.empty (only_4k L) (rs_ut (bt_rs s))" "length L = (\<Sum>i<n. boot_frames bi av i)"
    "set L \<subseteq> ut_addr (fst m) ` boot_pages bi n" and T: "table_at (fst m) b (rs_ut (bt_rs s))"
    using A by (auto simp: added_def)
  have in_n: "?p + q * 4096 \<in> boot_pages bi (Suc n)" if "q < ?c" for q
    using base(2) [OF that] True by (auto simp: boot_pages_def)
  have le: "boot_pages bi n \<subseteq> boot_pages bi (Suc n)" "boot_pages bi (Suc n) \<subseteq> boot_pages bi (length (bi_untyped_list bi))"
    using n by (simp_all add: boot_pages_mono)
  have fresh: "ut_addr (fst m) (?p + q * 4096) \<notin> set L \<and> ut_addr (fst m) (?p + q * 4096) < b" if q: "q < ?c" for q
  proof -
    have "ut_addr (fst m) (?p + q * 4096) \<noteq> ut_addr (fst m) p" if p: "p \<in> boot_pages bi n" for p
    proof -
      obtain i where i: "i < n" "untyped_in_range (nth_untyped bi i)" "ud_paddr (nth_untyped bi i) \<le> p"
        "p + 4096 \<le> ud_end (nth_untyped bi i)" using p by (auto simp: boot_pages_def)
      have "ud_end ?u \<le> ud_paddr (nth_untyped bi i) \<or> ud_end (nth_untyped bi i) \<le> ud_paddr ?u"
        using dis n i True by (auto simp: disjoint_untypeds_def)
      then have "p + 4096 \<le> ?p + q * 4096 \<or> ?p + q * 4096 + 4096 \<le> p" using base(2) [OF q] i by linarith
      then show ?thesis
        using ut_addr_neq [of "fst m"] ut_addr_bound(1) [OF m] p in_n [OF q] le by (metis subsetD)
    qed
    then show ?thesis using L(3) ut_addr_bound(2) [OF m] in_n [OF q] le b by blast
  qed
  have start: "fst m \<le> ?p" using m n True by (auto simp: bounds_ok_def boot_base_def Let_def)
  obtain T' L' where T': "(if ?c > 0 then in_rs (in_ut (add_untyped_range ?p (bt_slot s) ?c (ud_device ?u))) else ret ()) s =
        (Ok (), s\<lparr>bt_rs := (bt_rs s)\<lparr>rs_ut := T'\<rparr>\<rparr>)"
      "table_at (fst m) b T'" "ut_rep b Map.empty (only_4k L') T'" "length L' = length L + boot_frames bi av n"
      "set L' \<subseteq> set L \<union> (\<lambda>i. ut_addr (fst m) (?p + i * 4096)) ` {..<?c}"
  proof (cases "?c > 0")
    case True
    obtain T' L' where "add_untyped_range ?p (bt_slot s) ?c (ud_device ?u) (rs_ut (bt_rs s)) = ((Ok () :: (sel4_error, unit) outcome), T')"
      "table_at (fst m) b T'" "ut_rep b Map.empty (only_4k L') T'" "length L' = length L + (if ud_device ?u then 0 else ?c)"
      "set L' \<subseteq> set L \<union> (\<lambda>i. ut_addr (fst m) (?p + i * 4096)) ` {..<?c}"
      using add_range_run [OF L(1) T start fresh] by blast
    then show ?thesis using that [of T' L'] True by (simp add: in_ut_run boot_frames_def)
  next
    case False
    then show ?thesis using that [of "rs_ut (bt_rs s)" L] T L by (simp add: op_run boot_frames_def)
  qed
  obtain t where t: "retype_4k K (bi_untyped_start bi + n) ?c ?c (s\<lparr>bt_rs := (bt_rs s)\<lparr>rs_ut := T'\<rparr>\<rparr>) = (Ok (), t)"
    "moved ?c 0 (s\<lparr>bt_rs := (bt_rs s)\<lparr>rs_ut := T'\<rparr>\<rparr>) t"
    by (rule does_obtain [OF retype_4k_does [OF K order_refl]])
  have len: "n < length av" using ok n by (simp add: avail_ok_def)
  have av: "bt_avail s = av" using A by (simp add: added_def)
  have "add_memory K bi n s = (Ok (), t)"
    using True base(1) len T'(1) t(1) av
    by (cases "ud_device ?u") (simp_all add: add_memory_def Let_def nth_untyped_def [symmetric] PAGE_SIZE_4K_eq bnd_run op_run seq_run
        seq_def boot_caps_def cong: if_cong)
  moreover have "set L' \<subseteq> ut_addr (fst m) ` boot_pages bi (Suc n)" using T'(5) L(3) le(1) in_n by blast
  ultimately show ?thesis using A T' t(2) L(2) by (auto simp: added_def moved_def)
qed

end
