(* ===== verification/Root_Start.thy ===== *)
theory Root_Start
  imports Bootstrap_Facts
begin

text \<open>
  The whole start of the root server, \<open>smos_bootstrap\<close>: with a kernel that grants its calls and memory that
  suffices it returns, and leaves the CSpace and the untyped table in the states that the theorems on the
  allocators start from.
\<close>

section \<open>The bottom-level nodes\<close>

definition noded :: "nat \<Rightarrow> nat \<Rightarrow> nat \<Rightarrow> nat \<Rightarrow> nat set \<Rightarrow> nat \<Rightarrow> 'k boot \<Rightarrow> bool" where
  "noded slot frames start b A n s \<longleftrightarrow>
     bt_slot s = slot + n \<and> tally n 0 0 (\<lambda>_. {}) (rs_cs (bt_rs s)) \<and> length (cs_bot (rs_cs (bt_rs s))) = 21621 \<and>
     table_at start (b + n * 4096) (rs_ut (bt_rs s)) \<and>
     (\<exists>L W. ut_rep b W (only_4k L) (rs_ut (bt_rs s)) \<and> length L + n = frames \<and> set L \<subseteq> A \<and>
        finite (dom W) \<and> card (dom W) = n)"

lemma pop_4k:
  assumes R: "ut_rep b W (only_4k (p # L)) T"
  shows "\<exists>T'. pop_untyped seL4_PageBits T = (Ok p, T') \<and> ut_rep b (W(p \<mapsto> (ut_cap (ut_heap T p), 12))) (only_4k L) T' \<and>
    table_at start v T' = table_at start v T \<and> ut_heap T' = ut_heap T \<and> p \<notin> dom W"
proof -
  have ls: "ut_lists T (only_4k (p # L))" using R by (simp add: ut_rep_def)
  then have len: "length (ut_free T) = 9" by (simp add: ut_lists_def)
  have hd: "ut_list (ut_heap T) (ut_free T ! 8) (p # L)" "distinct (p # L)" "\<forall>q \<in> set (p # L). ut_size_bits (ut_heap T q) = 12"
    using ls by (auto simp: ut_lists_def only_4k_def ut_head_def dest: spec [of _ 8])
  let ?T = "T\<lparr>ut_free := (ut_free T)[8 := ut_next (ut_heap T p)]\<rparr>"
  have "\<forall>i\<le>9. \<forall>q \<in> set (only_4k (p # L) i). q < b \<and> q \<notin> dom W" using R unfolding ut_rep_def by blast
  then have "\<forall>q \<in> set (only_4k (p # L) 8). q < b \<and> q \<notin> dom W" by (rule allE [of _ 8]) simp
  then have mem: "\<forall>q \<in> set (p # L). q < b \<and> q \<notin> dom W" by (simp add: only_4k_def)
  then have pW: "p \<notin> dom W" "p < b" by simp_all
  have hds: "ut_head T 8 = Some p" "length (ut_free ?T) = 9" "ut_head ?T 8 = ut_next (ut_heap T p)"
    "\<forall>j\<le>9. j \<noteq> 8 \<longrightarrow> ut_head ?T j = ut_head T j" using hd(1) len by (simp_all add: ut_head_def)
  have "\<exists>ps. only_4k (p # L) 8 = p # ps \<and> ut_lists ?T ((only_4k (p # L))(8 := ps))"
    by (rule ut_lists_pop [OF ls _ hds(1) _ hds(2-4)]) (simp, simp, blast)
  then obtain ps where ps: "only_4k (p # L) 8 = p # ps" "ut_lists ?T ((only_4k (p # L))(8 := ps))" by blast
  moreover have "(only_4k (p # L))(8 := L) = only_4k L" by (auto simp: only_4k_def)
  ultimately have "ut_lists ?T (only_4k L)" by (simp add: only_4k_def)
  moreover have "q < b \<and> q \<notin> dom (W(p \<mapsto> (ut_cap (ut_heap T p), 12)))" if "q \<in> set L" for q
    using mem hd(2) that by auto
  ultimately have "ut_rep b (W(p \<mapsto> (ut_cap (ut_heap T p), 12))) (only_4k L) ?T"
    using R pW hd(3) by (auto simp: ut_rep_def only_4k_def)
  moreover have "pop_untyped seL4_PageBits T = (Ok p, ?T)"
    using hd(1) by (simp add: pop_untyped_def SIZE_BITS_TO_INDEX_def const_defs ut_pop_def len)
  ultimately show ?thesis using pW by (auto simp: table_at_def)
qed

lemma tally_add_node:
  assumes T: "tally n 0 0 (\<lambda>_. {}) cs" and n: "n < length (cs_bot cs)"
  shows "tally (Suc n) 0 0 (\<lambda>_. {}) (cs\<lparr>cs_bot := (cs_bot cs)[n := Some zero_node], cs_n_bot := Suc (cs_n_bot cs)\<rparr>)"
proof -
  have "bits_of (replicate 4 0) = {}" by (auto simp: bits_of_def)
  then have "tally_node 0 (\<lambda>_. {}) n zero_node" by (simp add: tally_node_def zero_node_def index_eqs)
  then show ?thesis using T n by (auto simp: tally_def nth_list_update less_Suc_eq)
qed

lemma alloc_4k_run:
  assumes R: "ut_rep b W (only_4k (p # L)) (rs_ut rs)" and T: "table_at start v (rs_ut rs)"
    and p: "p = ut_addr start q" "start \<le> q" "q < 2 ^ 33"
  shows "\<exists>T'. alloc_4k_untyped rs = (Ok ((q - start) div 4096 * 4096 + start, p), rs\<lparr>rs_ut := T'\<rparr>) \<and>
    ut_rep b (W(p \<mapsto> (ut_cap (ut_heap (rs_ut rs) p), 12))) (only_4k L) T' \<and> table_at start v T' \<and> p \<notin> dom W"
proof -
  obtain T' where T': "pop_untyped seL4_PageBits (rs_ut rs) = (Ok p, T')"
    "ut_rep b (W(p \<mapsto> (ut_cap (ut_heap (rs_ut rs) p), 12))) (only_4k L) T'" "table_at start v T'" "p \<notin> dom W"
    using pop_4k [OF R, of start v] T by blast
  have "(q - start) div 4096 * 4096 \<le> q - start" by simp
  then have le: "(q - start) div 4096 * 4096 < usize_lim" "(q - start) div 4096 * 4096 + start < usize_lim"
    using p by simp_all
  have "(ut_to_paddr p T' :: (sel4_error, nat) outcome) = Ok ((q - start) div 4096 * 4096 + start)"
    using T'(3) le p(1) by (simp add: ut_to_paddr_def table_at_def ut_addr_def sub_us_def mul_us_def add_us_def UT_SIZE_def PAGE_SIZE_4K_eq)
  then show ?thesis using T'
    by (intro exI [of _ T'] conjI) (simp_all add: alloc_4k_untyped_def in_ut_def on_part_def bnd_def op_run)
qed

lemma add_bot_node_run:
  assumes K: "accepts K" and N: "noded slot frames start b A n s" and n: "n < frames" "n < 21621"
    and A: "\<And>p. p \<in> A \<Longrightarrow> \<exists>q. p = ut_addr start q \<and> start \<le> q \<and> q < 2 ^ 33"
  shows "\<exists>t. add_bot_node K n s = (Ok (), t) \<and> noded slot frames start b A (Suc n) t"
proof -
  obtain L W where R: "ut_rep b W (only_4k L) (rs_ut (bt_rs s))" and L: "length L + n = frames" "set L \<subseteq> A"
    and W: "finite (dom W)" "card (dom W) = n"
    using N by (auto simp: noded_def)
  obtain p M where M: "L = p # M" using n(1) L(1) by (cases L) auto
  then obtain q where q: "p = ut_addr start q" "start \<le> q" "q < 2 ^ 33" using A L(2) by auto
  have tb: "table_at start (b + n * 4096) (rs_ut (bt_rs s))" using N by (simp add: noded_def)
  obtain T where T: "alloc_4k_untyped (bt_rs s) = (Ok ((q - start) div 4096 * 4096 + start, p), (bt_rs s)\<lparr>rs_ut := T\<rparr>)"
    "ut_rep b (W(p \<mapsto> (ut_cap (ut_heap (rs_ut (bt_rs s)) p), 12))) (only_4k M) T" "table_at start (b + n * 4096) T" "p \<notin> dom W"
    using alloc_4k_run [OF R [unfolded M] tb q] by blast
  let ?s = "s\<lparr>bt_rs := (bt_rs s)\<lparr>rs_ut := T\<rparr>\<rparr>"
  have alloc: "in_rs alloc_4k_untyped s = (Ok ((q - start) div 4096 * 4096 + start, p), ?s)"
    using T(1) by (simp add: in_rs_def on_part_def)
  define cs where "cs = rs_cs (bt_rs s)"
  let ?cs = "cs\<lparr>cs_bot := (cs_bot cs)[n := Some zero_node], cs_n_bot := Suc (cs_n_bot cs)\<rparr>"
  let ?rest = "\<lambda>slot. bnd (gets (\<lambda>s. ut_next_vaddr (rs_ut (bt_rs s)))) (\<lambda>vaddr.
     seq (boot_call (k_frame_map (bk_sel4 K) slot INIT_VSPACE vaddr rights_all VM_DEFAULT))
    (seq (in_rs (in_cs (init_bot_lvl_node n)))
    (seq (in_rs (in_ut (modify (ut_next_vaddr_update (\<lambda>v. v + PAGE_SIZE_4K)))))
    (seq (in_rs (in_cs (modify (cs_n_bot_update Suc)))) (next_slots 1)))))"
  obtain u page where u: "boot_retype K (ut_cap (ut_heap T p)) BSmallPage ?s = (Ok page, u)" "moved 0 0 ?s u"
    using boot_retype_run [OF K] by blast
  obtain w where w: "boot_call (k_frame_map (bk_sel4 K) page INIT_VSPACE (ut_next_vaddr (rs_ut (bt_rs u))) rights_all VM_DEFAULT) u = (Ok (), w)"
    "moved 0 0 u w" by (rule does_obtain [OF does_calls(5) [OF K]])
  have w_cs: "rs_cs (bt_rs w) = cs" and w_ut: "rs_ut (bt_rs w) = T" and w_slot: "bt_slot w = slot + n"
    using u(2) w(2) N by (auto simp: moved_def cs_def noded_def)
  have len: "length (cs_bot cs) = 21621" "tally n 0 0 (\<lambda>_. {}) cs" using N by (simp_all add: noded_def cs_def)
  let ?t = "w\<lparr>bt_rs := (bt_rs w)\<lparr>rs_cs := ?cs, rs_ut := T\<lparr>ut_next_vaddr := ut_next_vaddr T + 4096\<rparr>\<rparr>, bt_slot := Suc (bt_slot w)\<rparr>"
  have init: "init_bot_lvl_node n cs = (Ok (), cs\<lparr>cs_bot := (cs_bot cs)[n := Some zero_node]\<rparr>)"
    using len(1) n(2) by (simp add: init_bot_lvl_node_def op_run bnd_def)
  have "add_bot_node K n s = (Ok (), ?t)"
    using alloc u(1) w(1) init w_cs w_ut
    by (simp add: add_bot_node_def seq_def bnd_def op_run in_rs_def in_cs_def in_ut_def on_part_def next_slots_def PAGE_SIZE_4K_eq)
  moreover have "noded slot frames start b A (Suc n) ?t"
  proof -
    have "set M \<subseteq> A" "length M + Suc n = frames" using L M by auto
    moreover have "finite (dom (W(p \<mapsto> (ut_cap (ut_heap (rs_ut (bt_rs s)) p), 12))))"
      "card (dom (W(p \<mapsto> (ut_cap (ut_heap (rs_ut (bt_rs s)) p), 12)))) = Suc n"
      using W T(4) by simp_all
    ultimately show ?thesis
      using tally_add_node [OF len(2)] len(1) n(2) T(2,3) w_slot
      unfolding noded_def
      by (intro conjI exI [of _ M] exI [of _ "W(p \<mapsto> (ut_cap (ut_heap (rs_ut (bt_rs s)) p), 12))"])
        (simp_all add: ut_rep_fields table_at_def)
  qed
  ultimately show ?thesis by blast
qed

section \<open>The DMA region\<close>

lemma map_frame_does:
  assumes K: "accepts K"
  shows "does 0 0 (bnd (in_rs (map_frame (bk_sel4 K) f v a r x fs)) (\<lambda>_. ret ()))"
  unfolding does_def
proof
  fix s :: "'a boot"
  obtain k where "k_frame_map (bk_sel4 K) f v a r x (rs_kern (bt_rs s)) = (None, k)"
    using K by (metis accepts_def prod.collapse)
  then have "attempt (kern_call (k_frame_map (bk_sel4 K) f v a r x)) (bt_rs s) =
      ((Ok (Ok ()) :: (sel4_error, (sel4_error, unit) outcome) outcome), (bt_rs s)\<lparr>rs_kern := k\<rparr>)"
    by (simp add: attempt_def kern_call_def in_kern_def on_part_def)
  then have "map_frame (bk_sel4 K) f v a r x fs (bt_rs s) = (Ok 0, (bt_rs s)\<lparr>rs_kern := k\<rparr>)"
    unfolding map_frame_def Let_def by (simp only: bnd_run) (subst map_frame_loop.simps, simp add: op_run)
  then show "\<exists>t. bnd (in_rs (map_frame (bk_sel4 K) f v a r x fs)) (\<lambda>_. ret ()) s = (Ok (), t) \<and> moved 0 0 s t"
    by (simp add: in_rs_def on_part_def bnd_def op_run moved_def)
qed

lemma ALIGN_UP_ge: "n \<le> ALIGN_UP n (BIT k)"
proof -
  have "(n + BIT k - 1) AND (BIT k - 1) = (n + BIT k - 1) mod 2 ^ k" by (rule and_mask)
  moreover have "(n + BIT k - 1) mod 2 ^ k < 2 ^ k" by simp
  moreover have "1 \<le> BIT k" by (simp add: BIT_def)
  ultimately show ?thesis unfolding ALIGN_UP_def BIT_def by linarith
qed

lemma map_dma_run:
  assumes K: "accepts K"
  shows "\<exists>dma t v. map_dma K ut pages paddr s = (Ok dma, t) \<and> bt_slot t = bt_slot s + 32 \<and> rs_cs (bt_rs t) = rs_cs (bt_rs s) \<and>
    rs_ut (bt_rs t) = (rs_ut (bt_rs s))\<lparr>ut_next_vaddr := v\<rparr> \<and> ut_next_vaddr (rs_ut (bt_rs s)) \<le> v"
proof -
  define d where "d = ALIGN_UP (ut_next_vaddr (rs_ut (bt_rs s)) + PAGE_SIZE_4K) (BIT seL4_LargePageBits)"
  have d: "ut_next_vaddr (rs_ut (bt_rs s)) \<le> d"
    using ALIGN_UP_ge [of "ut_next_vaddr (rs_ut (bt_rs s)) + PAGE_SIZE_4K" seL4_LargePageBits] by (simp add: d_def)
  have n: "drop_bit seL4_PageTableIndexBits DMA_RESERVATION_NUM_PAGES = 32"
    by (simp add: const_defs BIT_def drop_bit_eq_div)
  have "does 32 0 (for_each (\<lambda>i. boot_pt K ut False (d + i * pt_bytes)) [0..<32])"
    using does_for_each [OF boot_pt_does [OF K], of "[0..<32]"] by simp
  then obtain a where a: "for_each (\<lambda>i. boot_pt K ut False (d + i * pt_bytes)) [0..<32] s = (Ok (), a)" "moved 32 0 s a"
    by (rule does_obtain)
  let ?f = "\<lambda>i. bnd (in_rs (map_frame (bk_sel4 K) (pages ! i) INIT_VSPACE (d + (paddr + PAGE_SIZE_4K * i - paddr)) rights_all VM_DEFAULT None)) (\<lambda>_. ret ())"
  have "does 0 0 (for_each ?f [0..<length pages])" using does_for_each [OF map_frame_does [OF K]] by simp
  then obtain c where c: "for_each ?f [0..<length pages] a = (Ok (), c)" "moved 0 0 a c" by (rule does_obtain)
  let ?dma = "\<lparr>dp_vstart = d, dp_pstart = paddr, dp_pages = pages, dp_vspace = INIT_VSPACE, dp_ready = False\<rparr>"
  let ?v = "d + (DMA_RESERVATION_NUM_PAGES + 1) * PAGE_SIZE_4K"
  let ?t = "c\<lparr>bt_rs := (bt_rs c)\<lparr>rs_ut := (rs_ut (bt_rs c))\<lparr>ut_next_vaddr := ?v\<rparr>\<rparr>\<rparr>"
  have run: "map_dma K ut pages paddr s = (Ok ?dma, ?t)"
    using a(1) c(1) unfolding map_dma_def n
    by (simp add: d_def [symmetric] Let_def dma_pool_new_def seq_def bnd_def op_run in_rs_def in_ut_def on_part_def)
  show ?thesis
    by (intro exI [of _ ?dma] exI [of _ ?t] exI [of _ ?v] conjI run) (use a(2) c(2) d in \<open>simp_all add: moved_def\<close>)
qed

section \<open>Enough cnodes\<close>

lemma LOG_BASE_2_less:
  assumes b: "0 < b" "b < 2 ^ 64"
  shows "b < 2 ^ (LOG_BASE_2 b + 1)"
proof -
  let ?z = "leading_zeros b"
  have z: "?z \<le> 64" using length_takeWhile_le [of "\<lambda>k. \<not> bit b (63 - k)" "[0..<64]"] by (simp add: leading_zeros_def)
  have low: "\<not> bit b (63 - k)" if "k < ?z" for k
  proof -
    have "takeWhile (\<lambda>k. \<not> bit b (63 - k)) [0..<64] ! k \<in> set (takeWhile (\<lambda>k. \<not> bit b (63 - k)) [0..<64])"
      using that by (simp add: leading_zeros_def)
    moreover have "takeWhile (\<lambda>k. \<not> bit b (63 - k)) [0..<64] ! k = k"
      using that z by (simp add: takeWhile_nth leading_zeros_def)
    ultimately show ?thesis by (auto dest: set_takeWhileD)
  qed
  have "take_bit (64 - ?z) b = b"
  proof (rule bit_eqI)
    fix m
    show "bit (take_bit (64 - ?z) b) m \<longleftrightarrow> bit b m"
    proof (cases "m < 64")
      case True
      then have "\<not> bit b m" if "64 - ?z \<le> m" using low [of "63 - m"] that by simp
      then show ?thesis by (metis bit_take_bit_iff linorder_not_le)
    next
      case False
      have "take_bit 64 b = b" using b(2) by (simp add: take_bit_nat_eq_self_iff)
      then have "\<not> bit b m" using False by (metis bit_take_bit_iff)
      then show ?thesis by (simp add: bit_take_bit_iff)
    qed
  qed
  then have lt: "b < 2 ^ (64 - ?z)" by (metis take_bit_nat_less_exp)
  then have "64 - ?z \<noteq> 0" using b(1) by (cases "64 - ?z = 0") auto
  then have "LOG_BASE_2 b + 1 = 64 - ?z" by (simp add: LOG_BASE_2_def)
  with lt show ?thesis by simp
qed

definition boot_nodes :: "boot_plan \<Rightarrow> nat" where
  "boot_nodes plan = bp_n_cnodes plan div 97 + 1"

text \<open>The slots in use before the nodes, and at the end.\<close>

definition boot_slots :: "bootinfo \<Rightarrow> boot_plan \<Rightarrow> nat list \<Rightarrow> nat" where
  "boot_slots bi plan av = bi_empty_start bi + (3 + bp_ut_pages plan div 512 + bp_ut_pages plan) + 16384 +
     (\<Sum>i<length (bi_untyped_list bi). boot_caps bi av i)"

definition boot_end :: "bootinfo \<Rightarrow> boot_plan \<Rightarrow> nat list \<Rightarrow> nat" where
  "boot_end bi plan av = boot_slots bi plan av + boot_nodes plan + 32"

text \<open>The hypotheses of a start: the sizes computed, the two steals and what is left after them.\<close>

definition boots :: "'k boot_kernel \<Rightarrow> bootinfo \<Rightarrow> boot_plan \<Rightarrow> nat list \<Rightarrow> bool" where
  "boots K bi plan av \<longleftrightarrow>
     length (bi_untyped_list bi) \<le> bk_max_untypeds K \<and> disjoint_untypeds bi \<and>
     (boot_sizes K bi :: (sel4_error, boot_plan) outcome) = Ok plan \<and>
     (\<exists>ut p av' dut dp.
        (steal_untyped bi (BYTES_TO_SIZE_BITS (bp_bytes plan) + 1) (bp_avail plan) ::
           (sel4_error, (cptr \<times> nat) option \<times> nat list) outcome) = Ok (Some (ut, p), av') \<and>
        (steal_untyped bi DMA_RESERVATION_SIZE_BITS av' ::
           (sel4_error, (cptr \<times> nat) option \<times> nat list) outcome) = Ok (Some (dut, dp), av))"

lemma boot_sizes_Ok:
  assumes "(boot_sizes K bi :: (sel4_error, boot_plan) outcome) = Ok plan" and len: "length (bi_untyped_list bi) \<le> bk_max_untypeds K"
  shows "1 \<le> bi_empty_start bi" "bounds_ok bi (bp_memory plan)" "bp_ut_pages plan = ut_pages_for_region (bp_memory plan)"
    "avail_ok bi (bp_avail plan)" "bp_bytes plan < 2 ^ 64" "bp_n_cnodes plan * 8192 \<le> bp_bytes plan"
    "\<exists>n_slots. bp_n_cnodes plan = n_slots div 256 + 52 \<and>
       n_slots + 1 = bi_empty_start bi + bp_ut_pages plan + bp_ut_pages plan div 512 + 35 +
         (\<Sum>i<length (bi_untyped_list bi). boot_caps bi (bp_avail plan) i)"
proof -
  obtain n avail where m: "(find_memory_bounds bi :: (sel4_error, nat \<times> nat) outcome) = Ok (bp_memory plan)"
    and pages: "bp_ut_pages plan = ut_pages_for_region (bp_memory plan)" and es: "1 \<le> bi_empty_start bi"
    and calc: "(calculate_ut_caps 0 (bi_untyped_list bi) seL4_PageBits (replicate (bk_max_untypeds K) 0) ::
       (sel4_error, nat \<times> nat list) outcome) = Ok (n, avail)" and av: "bp_avail plan = avail"
    and cn: "bp_n_cnodes plan = (bi_empty_start bi - 1 + bp_ut_pages plan + (bp_ut_pages plan div 512 + 1) + 32 + 2 + 16384 + n - 16384) div 256 + 52"
    and bytes: "bp_n_cnodes plan * 8192 \<le> bp_bytes plan" "bp_bytes plan < 2 ^ 64"
    using assms(1) unfolding boot_sizes_def Let_def
    by (auto simp: obind_eq_Ok sub_us_eq_Ok add_us_eq_Ok CNODE_SLOTS_def CNODE_SLOT_BITS_def const_defs BIT_def drop_bit_eq_div)
  note spec = calculate_ut_caps_spec [OF calc]
  show "1 \<le> bi_empty_start bi" "bounds_ok bi (bp_memory plan)" "bp_ut_pages plan = ut_pages_for_region (bp_memory plan)"
    "bp_bytes plan < 2 ^ 64" "bp_n_cnodes plan * 8192 \<le> bp_bytes plan"
    using es find_memory_bounds_ok [OF m] pages bytes by simp_all
  have nth: "avail ! i = (if untyped_in_range (nth_untyped bi i) \<and> \<not> ud_device (nth_untyped bi i)
      then BIT (ud_size_bits (nth_untyped bi i)) else 0)" if "i < length (bi_untyped_list bi)" for i
    using spec(3) [of i] that len by (simp add: nth_untyped_def)
  show "avail_ok bi (bp_avail plan)"
    using nth spec(2) len by (auto simp: avail_ok_def av Let_def)
  have caps: "boot_caps bi avail i = (let u = bi_untyped_list bi ! i in
      if untyped_in_range u \<and> 12 \<le> ud_size_bits u then BIT (ud_size_bits u - 12) else 0)"
    if "i < length (bi_untyped_list bi)" for i
  proof -
    have "BIT k div 4096 = (if 12 \<le> k then BIT (k - 12) else 0)" for k
    proof (cases "12 \<le> k")
      case True
      then have "BIT k = 4096 * BIT (k - 12)" using power_add [of "2::nat" 12 "k - 12"] by (simp add: BIT_def)
      with True show ?thesis by simp
    next
      case False
      then have "BIT k < 2 ^ 12" unfolding BIT_def by (intro power_strict_increasing) simp_all
      with False show ?thesis by simp
    qed
    then show ?thesis using nth [OF that] by (auto simp: boot_caps_def Let_def nth_untyped_def)
  qed
  have "n = (\<Sum>i<length (bi_untyped_list bi). boot_caps bi avail i)"
    unfolding spec(1) sum_list_sum_nth seL4_PageBits_def
    by (simp add: atLeast0LessThan caps Let_def)
  then show "\<exists>n_slots. bp_n_cnodes plan = n_slots div 256 + 52 \<and>
       n_slots + 1 = bi_empty_start bi + bp_ut_pages plan + bp_ut_pages plan div 512 + 35 +
         (\<Sum>i<length (bi_untyped_list bi). boot_caps bi (bp_avail plan) i)"
    using es cn av by (intro exI [of _ "bi_empty_start bi - 1 + bp_ut_pages plan + (bp_ut_pages plan div 512 + 1) + 32 + 2 + 16384 + n - 16384"]) simp
qed

lemma boot_cnodes_suffice:
  assumes B: "boots K bi plan av"
  shows "boot_end bi plan av div 256 + 52 \<le> bp_n_cnodes plan" and "avail_ok bi av"
proof -
  have len: "length (bi_untyped_list bi) \<le> bk_max_untypeds K"
    and sz: "(boot_sizes K bi :: (sel4_error, boot_plan) outcome) = Ok plan" using B by (auto simp: boots_def)
  obtain ut p av' dut dp where st:
      "(steal_untyped bi (BYTES_TO_SIZE_BITS (bp_bytes plan) + 1) (bp_avail plan) ::
         (sel4_error, (cptr \<times> nat) option \<times> nat list) outcome) = Ok (Some (ut, p), av')"
      "(steal_untyped bi DMA_RESERVATION_SIZE_BITS av' ::
         (sel4_error, (cptr \<times> nat) option \<times> nat list) outcome) = Ok (Some (dut, dp), av)"
    using B unfolding boots_def by blast
  note ok = boot_sizes_Ok [OF sz len]
  note s1 = steal_untyped_spec [OF ok(4) st(1)] and s2 = steal_untyped_spec [OF steal_untyped_spec(1) [OF ok(4) st(1)] st(2)]
  show "avail_ok bi av" by (rule s2(1))
  let ?c = "\<lambda>av. \<Sum>i<length (bi_untyped_list bi). boot_caps bi av i"
  define P where "P = (2::nat) ^ (BYTES_TO_SIZE_BITS (bp_bytes plan) + 1 - 12)"
  have c: "?c av + 16384 + P = ?c (bp_avail plan)"
    using s1(2) s2(2) by (simp add: P_def const_defs)
  have n52: "52 \<le> bp_n_cnodes plan" using ok(7) by auto
  then have "0 < bp_bytes plan" using ok(6) by simp
  then have "bp_bytes plan < 2 ^ (BYTES_TO_SIZE_BITS (bp_bytes plan) + 1)"
    using LOG_BASE_2_less ok(5) by (simp add: BYTES_TO_SIZE_BITS_def)
  also have "\<dots> = 4096 * P"
    using s1(3) power_add [of "2::nat" 12 "BYTES_TO_SIZE_BITS (bp_bytes plan) + 1 - 12"] by (simp add: P_def)
  finally have P: "2 * bp_n_cnodes plan < P" using ok(6) by linarith
  obtain n_slots where n: "bp_n_cnodes plan = n_slots div 256 + 52"
    "n_slots + 1 = bi_empty_start bi + bp_ut_pages plan + bp_ut_pages plan div 512 + 35 + ?c (bp_avail plan)"
    using ok(7) by blast
  have "boot_end bi plan av + P = n_slots + 2 + bp_n_cnodes plan div 97"
    using c n(2) by (simp add: boot_end_def boot_slots_def boot_nodes_def)
  moreover have "bp_n_cnodes plan div 97 \<le> bp_n_cnodes plan" by simp
  ultimately have "boot_end bi plan av \<le> n_slots" using P n52 by linarith
  then have "boot_end bi plan av div 256 \<le> n_slots div 256" by (rule div_le_mono)
  then show "boot_end bi plan av div 256 + 52 \<le> bp_n_cnodes plan" using n(1) by simp
qed

section \<open>The whole start\<close>

lemma fresh_tally: "tally 0 0 0 (\<lambda>_. {}) fresh_cspace" "length (cs_bot fresh_cspace) = 21621"
proof -
  have "bits_of (bitfield_init 8192) = {}" by simp
  then show "tally 0 0 0 (\<lambda>_. {}) fresh_cspace"
    by (simp add: tally_def fresh_cspace_def cspace_new_def index_eqs WATERMARK_4 bitfield_init_def BITFIELD_SIZE_def lessThan_0)
  have "INITIAL_TASK_CSPACE_SLOTS = 2 ^ 21" by (simp add: CNODE_SLOT_BITS_def const_defs BIT_def)
  then show "length (cs_bot fresh_cspace) = 21621" by (simp add: fresh_cspace_def cspace_new_def index_eqs)
qed

lemma new_table: "table_at start v (ut_table_new UT_TABLE start v h)" "ut_rep b Map.empty (only_4k []) (ut_table_new UT_TABLE start v h)"
proof -
  let ?T = "ut_table_new UT_TABLE start v h"
  show "table_at start v ?T" by (simp add: table_at_def ut_table_new_def)
  have free: "ut_free ?T = replicate 9 None" "ut_free_structures ?T = None"
    by (simp_all add: ut_table_new_def N_UNTYPED_LISTS_def seL4_PageBits_def seL4_EndpointBits_def)
  then have "ut_head ?T i = None" if "i \<le> 9" for i using that by (cases "i < 9") (simp_all add: ut_head_def)
  moreover have "only_4k [] i = []" for i by (simp add: only_4k_def)
  ultimately show "ut_rep b Map.empty (only_4k []) ?T" using free by (simp add: ut_rep_def ut_lists_def)
qed

lemma steal_run:
  "(steal_untyped bi sb (bt_avail s) :: (sel4_error, (cptr \<times> nat) option \<times> nat list) outcome) = Ok (x, av) \<Longrightarrow> steal bi sb s = (Ok x, s\<lparr>bt_avail := av\<rparr>)"
  by (simp add: steal_def bnd_def op_run seq_def)

lemma steal_dma_run:
  assumes K: "accepts K" and st: "(steal_untyped bi DMA_RESERVATION_SIZE_BITS (bt_avail s) ::
      (sel4_error, (cptr \<times> nat) option \<times> nat list) outcome) = Ok (Some (ut, p), av)"
  shows "\<exists>t. steal_dma K bi s = (Ok (ut, p, [bt_slot s..<bt_slot s + DMA_RESERVATION_NUM_PAGES]), t) \<and>
    moved 16384 0 (s\<lparr>bt_avail := av\<rparr>) t"
proof -
  let ?f = "\<lambda>_. bnd (boot_retype K ut BSmallPage) (\<lambda>_. next_slots 1)"
  have "DMA_RESERVATION_NUM_PAGES = 16384" by (simp add: const_defs BIT_def)
  then have "does 16384 0 (for_each ?f [0..<DMA_RESERVATION_NUM_PAGES])"
    using does_for_each [OF dma_pages_does [OF K], of "[0..<DMA_RESERVATION_NUM_PAGES]"] by simp
  then obtain t where t: "for_each ?f [0..<DMA_RESERVATION_NUM_PAGES] (s\<lparr>bt_avail := av\<rparr>) = (Ok (), t)"
    "moved 16384 0 (s\<lparr>bt_avail := av\<rparr>) t" by (rule does_obtain)
  have "steal_dma K bi s = (Ok (ut, p, [bt_slot s..<bt_slot s + DMA_RESERVATION_NUM_PAGES]), t)"
    using steal_run [OF st] t(1) by (simp add: steal_dma_def bnd_run op_run seq_run)
  with t(2) show ?thesis by blast
qed

text \<open>From the new CSpace to the last untyped.\<close>

lemma start_memory:
  assumes K: "accepts K" and B: "boots K bi plan av"
  shows "\<exists>ut p dp pages a b c.
    (bnd (steal bi (BYTES_TO_SIZE_BITS (bp_bytes plan) + 1)) (\<lambda>found. lift (unwrap found)))
       (s\<lparr>bt_avail := bp_avail plan, bt_vaddr := UT_TABLE\<rparr>) = (Ok (ut, p), a) \<and>
    seq (make_cspace K bi (bp_n_cnodes plan) ut) (seq (map_ut_table K ut (bp_ut_pages plan)) (steal_dma K bi)) a = (Ok (dp, pages), b) \<and>
    for_each (add_memory K bi) [0..<length (bi_untyped_list bi)]
      (b\<lparr>bt_rs := (bt_rs b)\<lparr>rs_ut := ut_table_new UT_TABLE (fst (bp_memory plan)) (bt_vaddr b) h\<rparr>\<rparr>) = (Ok (), c) \<and>
    bt_slot c = boot_slots bi plan av \<and>
    added bi av fresh_cspace (bi_empty_start bi + (3 + bp_ut_pages plan div 512 + bp_ut_pages plan) + 16384)
      (fst (bp_memory plan)) (UT_TABLE + bp_ut_pages plan * 4096) (length (bi_untyped_list bi)) c"
proof -
  have len: "length (bi_untyped_list bi) \<le> bk_max_untypeds K" and dis: "disjoint_untypeds bi"
    and sz: "(boot_sizes K bi :: (sel4_error, boot_plan) outcome) = Ok plan" using B by (auto simp: boots_def)
  obtain ut p av' dut dp where st:
      "(steal_untyped bi (BYTES_TO_SIZE_BITS (bp_bytes plan) + 1) (bp_avail plan) ::
         (sel4_error, (cptr \<times> nat) option \<times> nat list) outcome) = Ok (Some (ut, p), av')"
      "(steal_untyped bi DMA_RESERVATION_SIZE_BITS av' ::
         (sel4_error, (cptr \<times> nat) option \<times> nat list) outcome) = Ok (Some (dut, dp), av)"
    using B unfolding boots_def by blast
  note ok = boot_sizes_Ok [OF sz len] and av = boot_cnodes_suffice(2) [OF B]
  let ?s = "s\<lparr>bt_avail := bp_avail plan, bt_vaddr := UT_TABLE\<rparr>"
  let ?a = "?s\<lparr>bt_avail := av'\<rparr>"
  have a: "(bnd (steal bi (BYTES_TO_SIZE_BITS (bp_bytes plan) + 1)) (\<lambda>found. lift (unwrap found))) ?s = (Ok (ut, p), ?a)"
    using st(1) by (simp add: steal_run bnd_run op_run)
  obtain u where u: "make_cspace K bi (bp_n_cnodes plan) ut ?a = (Ok (), u)" "bt_slot u = bi_empty_start bi"
    "bt_vaddr u = UT_TABLE" "bt_avail u = av'" "rs_cs (bt_rs u) = fresh_cspace"
    using make_cspace_run [OF K, of bi "bp_n_cnodes plan" ut ?a] by auto
  obtain v where v: "map_ut_table K ut (bp_ut_pages plan) u = (Ok (), v)"
    "moved (3 + bp_ut_pages plan div 512 + bp_ut_pages plan) (bp_ut_pages plan * 4096) u v"
    by (rule does_obtain [OF map_ut_table_does [OF K]])
  have "bt_avail v = av'" using v(2) u by (simp add: moved_def)
  then obtain w where w: "steal_dma K bi v = (Ok (dut, dp, [bt_slot v..<bt_slot v + DMA_RESERVATION_NUM_PAGES]), w)"
    "moved 16384 0 (v\<lparr>bt_avail := av\<rparr>) w"
    using steal_dma_run [OF K, of bi v] st(2) by auto
  let ?w = "w\<lparr>bt_rs := (bt_rs w)\<lparr>rs_ut := ut_table_new UT_TABLE (fst (bp_memory plan)) (bt_vaddr w) h\<rparr>\<rparr>"
  let ?slot = "bi_empty_start bi + (3 + bp_ut_pages plan div 512 + bp_ut_pages plan) + 16384"
  let ?P = "added bi av fresh_cspace ?slot (fst (bp_memory plan)) (UT_TABLE + bp_ut_pages plan * 4096)"
  have w0: "bt_slot w = ?slot" "bt_vaddr w = UT_TABLE + bp_ut_pages plan * 4096" "bt_avail w = av" "rs_cs (bt_rs w) = fresh_cspace"
    using w(2) v(2) u by (simp_all add: moved_def)
  have "\<exists>c. for_each (add_memory K bi) [0..<length (bi_untyped_list bi)] ?w = (Ok (), c) \<and> ?P (length (bi_untyped_list bi)) c"
  proof (rule for_each_total [where P = ?P])
    show "?P 0 ?w" using w0 new_table by (auto simp: added_def intro!: exI [of _ "[]"])
  qed (use add_memory_run [OF K av dis ok(2)] ok(3) in simp_all)
  then obtain c where c: "for_each (add_memory K bi) [0..<length (bi_untyped_list bi)] ?w = (Ok (), c)"
    "?P (length (bi_untyped_list bi)) c" by blast
  have "seq (make_cspace K bi (bp_n_cnodes plan) ut) (seq (map_ut_table K ut (bp_ut_pages plan)) (steal_dma K bi)) ?a =
      (Ok (dut, dp, [bt_slot v..<bt_slot v + DMA_RESERVATION_NUM_PAGES]), w)"
    using u(1) v(1) w(1) by (simp add: seq_run)
  moreover have "bt_slot c = boot_slots bi plan av" using c(2) by (simp add: added_def boot_slots_def)
  ultimately show ?thesis using a c by blast
qed

text \<open>From the last untyped to the end.\<close>

lemma noded_start:
  assumes "added bi av fresh_cspace slot start b n c" and "bt_slot c = S"
  shows "noded S (\<Sum>i<n. boot_frames bi av i) start b (ut_addr start ` boot_pages bi n) 0 c"
proof -
  obtain L where "ut_rep b Map.empty (only_4k L) (rs_ut (bt_rs c))" "length L = (\<Sum>i<n. boot_frames bi av i)"
    "set L \<subseteq> ut_addr start ` boot_pages bi n" using assms(1) by (auto simp: added_def)
  then show ?thesis using assms fresh_tally
    unfolding noded_def added_def by (intro conjI exI [of _ L] exI [of _ Map.empty]) auto
qed

lemma ut_rep_inv:
  assumes R: "ut_rep b W F T" and le: "b \<le> v"
  shows "ut_inv W (T\<lparr>ut_next_vaddr := v\<rparr>)"
proof -
  have "ut_rep v W F T" using R le unfolding ut_rep_def by (meson order_less_le_trans)
  then have "ut_rep v W F (T\<lparr>ut_next_vaddr := v\<rparr>)" by (simp add: ut_rep_fields)
  then show ?thesis unfolding ut_inv_def ut_inv_below_def by auto
qed

lemma start_nodes:
  assumes K: "accepts K" and N: "noded S frames start b A 0 c" and n: "n \<le> frames" "n \<le> 21621"
    and A: "\<And>p. p \<in> A \<Longrightarrow> \<exists>q. p = ut_addr start q \<and> start \<le> q \<and> q < 2 ^ 33"
  shows "\<exists>d. for_each (add_bot_node K) [0..<n] c = (Ok (), d) \<and> noded S frames start b A n d"
proof (rule for_each_total [where P = "noded S frames start b A"])
  show "noded S frames start b A 0 c" by (rule N)
qed (use add_bot_node_run [OF K _ _ _ A] n in simp_all)

text \<open>Recording and reserving, from a CSpace whose nodes are all there.\<close>

lemma start_record:
  assumes T: "tally nb 0 0 (\<lambda>_. {}) cs" and nb: "nb = n_cnodes div 97 + 1" and n: "n_cnodes \<le> 8192"
    and E: "E div 256 + 52 \<le> n_cnodes" "E mod 256 \<noteq> 255"
  shows "\<exists>cs1 cs2. record_used n_cnodes E cs = (Ok (), cs1) \<and> fill_watermark cs1 = (Ok (), cs2) \<and>
    two_level_inv n_cnodes {..<E div 256} cs2 \<and> distinct (cs_watermark cs2) \<and> length (cs_watermark cs2) = 4 \<and>
    set (cs_watermark cs2) \<subseteq> two_level_slots n_cnodes {..<E div 256} - boot_used E \<and> two_level_used n_cnodes cs2 = boot_used E \<union> set (cs_watermark cs2)"
proof -
  let ?k = "E div 256"
  have "?k div 97 \<le> n_cnodes div 97" by (rule div_le_mono) (use E(1) in simp)
  then have k: "?k < 8192" "?k div 97 < nb" using E(1) n nb by simp_all
  have cover: "n_cnodes \<le> 97 * nb" using mult_div_mod_eq [of 97 n_cnodes] mod_less_divisor [of 97 n_cnodes] by (simp add: nb)
  have M: "max (?k + 1) n_cnodes = n_cnodes" using E(1) by simp
  obtain cs1 where cs1: "record_used n_cnodes E cs = (Ok (), cs1)" "tally nb n_cnodes ?k (boot_marks E) cs1"
    using record_used_run [OF T k cover] unfolding M by blast
  have r: "E mod 256 < 255" using E(2) mod_less_divisor [of 256 E] by linarith
  have kn: "?k < n_cnodes" using E(1) by simp
  have inv: "two_level_inv n_cnodes {..<?k} cs1" and used: "two_level_used n_cnodes cs1 = boot_used E"
    using tally_inv [OF cs1(2) r kn cover] tally_used [OF cs1(2) kn cover k(1)] n by (simp_all add: min_absorb2)
  let ?A = "{256 * (?k + 1)..<256 * (?k + 1) + 4}"
  have "?A \<subseteq> two_level_slots n_cnodes {..<?k} - boot_used E"
  proof
    fix c assume "c \<in> ?A"
    then obtain j where j: "c = 256 * (?k + 1) + j" "j < 4" by (metis atLeastLessThan_iff le_Suc_ex nat_add_left_cancel_less)
    then have cj: "c = j + (?k + 1) * 256" by simp
    have c: "c div 256 = ?k + 1" "c mod 256 = j"
      unfolding cj mod_mult_self1 using j(2) by simp_all
    have "\<not> c < E" using div_le_mono [of c E 256] c(1) by auto
    then show "c \<in> two_level_slots n_cnodes {..<?k} - boot_used E"
      using c j(2) E(1) by (simp add: two_level_slots_def boot_used_def)
  qed
  moreover have "length (cs_watermark cs1) = 4" using cs1(2) by (simp add: tally_def)
  ultimately obtain cs2 where "fill_watermark cs1 = (Ok (), cs2)" "two_level_inv n_cnodes {..<?k} cs2"
    "length (cs_watermark cs2) = 4" "distinct (cs_watermark cs2)"
    "set (cs_watermark cs2) \<subseteq> two_level_slots n_cnodes {..<?k} - boot_used E"
    "two_level_used n_cnodes cs2 = boot_used E \<union> set (cs_watermark cs2)"
    using fill_watermark_run [OF inv used, of ?A] by auto
  then show ?thesis using cs1(1) by blast
qed

lemma root_start:
  assumes K: "accepts K" and B: "boots K bi plan av" and n: "bp_n_cnodes plan \<le> 8192"
    and room: "boot_nodes plan \<le> (\<Sum>i<length (bi_untyped_list bi). boot_frames bi av i)"
    and r: "boot_end bi plan av mod 256 \<noteq> 255"
  shows "\<exists>dma t W. smos_bootstrap K bi h s = (Ok dma, t) \<and> bt_slot t = boot_end bi plan av \<and> ut_inv W (rs_ut (bt_rs t)) \<and> card (dom W) = boot_nodes plan \<and>
    two_level_inv (bp_n_cnodes plan) {..<boot_end bi plan av div 256} (rs_cs (bt_rs t)) \<and>
    distinct (cs_watermark (rs_cs (bt_rs t))) \<and>
    set (cs_watermark (rs_cs (bt_rs t))) \<subseteq>
      two_level_slots (bp_n_cnodes plan) {..<boot_end bi plan av div 256} - boot_used (boot_end bi plan av) \<and>
    two_level_used (bp_n_cnodes plan) (rs_cs (bt_rs t)) =
      boot_used (boot_end bi plan av) \<union> set (cs_watermark (rs_cs (bt_rs t)))"
proof -
  have len: "length (bi_untyped_list bi) \<le> bk_max_untypeds K"
    and sz: "(boot_sizes K bi :: (sel4_error, boot_plan) outcome) = Ok plan" using B by (auto simp: boots_def)
  note ok = boot_sizes_Ok [OF sz len] and enough = boot_cnodes_suffice(1) [OF B]
  let ?nb = "boot_nodes plan" and ?E = "boot_end bi plan av" and ?start = "fst (bp_memory plan)"
  let ?frames = "\<Sum>i<length (bi_untyped_list bi). boot_frames bi av i"
  let ?A = "ut_addr ?start ` boot_pages bi (length (bi_untyped_list bi))"
  obtain ut p dp pages a b c where abc:
    "(bnd (steal bi (BYTES_TO_SIZE_BITS (bp_bytes plan) + 1)) (\<lambda>found. lift (unwrap found)))
       (s\<lparr>bt_avail := bp_avail plan, bt_vaddr := UT_TABLE\<rparr>) = (Ok (ut, p), a)"
    "seq (make_cspace K bi (bp_n_cnodes plan) ut) (seq (map_ut_table K ut (bp_ut_pages plan)) (steal_dma K bi)) a = (Ok (dp, pages), b)"
    "for_each (add_memory K bi) [0..<length (bi_untyped_list bi)]
      (b\<lparr>bt_rs := (bt_rs b)\<lparr>rs_ut := ut_table_new UT_TABLE ?start (bt_vaddr b) h\<rparr>\<rparr>) = (Ok (), c)"
    "bt_slot c = boot_slots bi plan av"
    "added bi av fresh_cspace (bi_empty_start bi + (3 + bp_ut_pages plan div 512 + bp_ut_pages plan) + 16384)
      ?start (UT_TABLE + bp_ut_pages plan * 4096) (length (bi_untyped_list bi)) c"
    using start_memory [OF K B, of s h] by blast
  have pages: "\<exists>q. p = ut_addr ?start q \<and> ?start \<le> q \<and> q < 2 ^ 33" if "p \<in> ?A" for p
    using that ut_addr_bound [OF ok(2)] by blast
  have nb: "?nb \<le> 21621" using n by (simp add: boot_nodes_def)
  obtain d where d: "for_each (add_bot_node K) [0..<?nb] c = (Ok (), d)"
    "noded (boot_slots bi plan av) ?frames ?start (UT_TABLE + bp_ut_pages plan * 4096) ?A ?nb d"
    using start_nodes [OF K noded_start [OF abc(5,4)] room nb pages] by blast
  have "boot_slots bi plan av \<le> ?E" by (simp add: boot_end_def)
  then have "boot_slots bi plan av div 256 \<le> ?E div 256" by (rule div_le_mono)
  then have mx: "max (boot_slots bi plan av div 256 + 1) (bp_n_cnodes plan) div 97 + 1 = ?nb"
    using enough by (simp add: boot_nodes_def max_absorb2)
  obtain dma e v where e: "map_dma K ut (snd pages) (fst pages) d = (Ok dma, e)" "bt_slot e = bt_slot d + 32" "rs_cs (bt_rs e) = rs_cs (bt_rs d)"
    "rs_ut (bt_rs e) = (rs_ut (bt_rs d))\<lparr>ut_next_vaddr := v\<rparr>" "ut_next_vaddr (rs_ut (bt_rs d)) \<le> v"
    using map_dma_run [OF K] by blast
  have E: "bt_slot e = ?E" using d(2) e(2) by (simp add: noded_def boot_end_def)
  obtain W L where W: "ut_rep (UT_TABLE + bp_ut_pages plan * 4096) W (only_4k L) (rs_ut (bt_rs d))" "card (dom W) = ?nb"
    using d(2) by (auto simp: noded_def)
  have "UT_TABLE + bp_ut_pages plan * 4096 \<le> v" using d(2) e(5) by (simp add: noded_def table_at_def)
  then have W': "ut_inv W (rs_ut (bt_rs e))" unfolding e(4) by (rule ut_rep_inv [OF W(1)])
  have "tally ?nb 0 0 (\<lambda>_. {}) (rs_cs (bt_rs e))" using d(2) e(3) by (simp add: noded_def)
  from start_record [OF this boot_nodes_def n enough r] obtain cs1 cs2 where
    cs: "record_used (bp_n_cnodes plan) ?E (rs_cs (bt_rs e)) = (Ok (), cs1)" "fill_watermark cs1 = (Ok (), cs2)"
    "two_level_inv (bp_n_cnodes plan) {..<?E div 256} cs2" "distinct (cs_watermark cs2)"
    "set (cs_watermark cs2) \<subseteq> two_level_slots (bp_n_cnodes plan) {..<?E div 256} - boot_used ?E"
    "two_level_used (bp_n_cnodes plan) cs2 = boot_used ?E \<union> set (cs_watermark cs2)" by blast
  let ?t = "e\<lparr>bt_rs := (bt_rs e)\<lparr>rs_cs := cs2\<rparr>\<rparr>"
  obtain paddr dpages where dp: "pages = (paddr, dpages)" by fastforce
  have regroup: "seq x (seq y (bnd z f)) = bnd (seq x (seq y z)) f" for x y z and f :: "_ \<Rightarrow> ('a, dma_pool) boot_op"
    by (simp add: seq_def bnd_assoc)
  have tail: "bnd (gets bt_slot) (\<lambda>slot'. seq (in_rs (in_cs (record_used (bp_n_cnodes plan) slot'))) (seq (in_rs (in_cs fill_watermark)) (ret dma))) e
      = (Ok dma, ?t)"
    using cs(1,2) by (simp add: E in_cs_run seq_run op_run)
  have "smos_bootstrap K bi h s = (Ok dma, ?t)"
    unfolding smos_bootstrap_def sz regroup
    using abc d(1) e(1) tail mx
    by (simp add: bnd_run op_run seq_run dp index_eqs del: upt_Suc)
  then show ?thesis using E cs W' W(2) by (intro exI [of _ dma] exI [of _ ?t] exI [of _ W]) simp
qed

text \<open>C26: The conditions: the kernel performs every call (the moves of the initial capabilities may
  fail); the bootinfo lists at most \<open>bk_max_untypeds\<close> untypeds, disjoint in memory; the sizes are computed without overflow,
  need at most 8192 bottom-level nodes, and both untypeds to steal and the frames of the nodes are there;
  and the number of slots the start takes is not 255 modulo 256 (in that case the first allocation of a slot
  fails, and the start with it).  Then the root server's start-up code returns: the untyped table it leaves satisfies the allocator's invariant, with
  one untyped in use for each bottom-level node; the two-level CSpace satisfies the slot allocator's invariant, with every full cnode sealed; and
  the four reserved slots are distinct and were free.\<close>

theorem root_server_starts:
  assumes "accepts K" and "boots K bi plan av" and "bp_n_cnodes plan \<le> 8192"
    and "boot_nodes plan \<le> (\<Sum>i<length (bi_untyped_list bi). boot_frames bi av i)"
    and "boot_end bi plan av mod 256 \<noteq> 255"
  shows "\<exists>dma t W. smos_bootstrap K bi h s = (Ok dma, t) \<and> bt_slot t = boot_end bi plan av \<and> ut_inv W (rs_ut (bt_rs t)) \<and> card (dom W) = boot_nodes plan \<and>
    two_level_inv (bp_n_cnodes plan) {..<boot_end bi plan av div 256} (rs_cs (bt_rs t)) \<and>
    distinct (cs_watermark (rs_cs (bt_rs t))) \<and>
    set (cs_watermark (rs_cs (bt_rs t))) \<subseteq>
      two_level_slots (bp_n_cnodes plan) {..<boot_end bi plan av div 256} - boot_used (boot_end bi plan av) \<and>
    two_level_used (bp_n_cnodes plan) (rs_cs (bt_rs t)) =
      boot_used (boot_end bi plan av) \<union> set (cs_watermark (rs_cs (bt_rs t)))"
  by (rule root_start [OF assms])

text \<open>A concrete machine: 512M of memory and one page of a device.\<close>

definition small_bootinfo :: bootinfo where
  "small_bootinfo =
     \<lparr>bi_untyped_list = [\<lparr>ud_paddr = 0x40000000, ud_size_bits = 29, ud_device = False\<rparr>,
                        \<lparr>ud_paddr = 0x60000000, ud_size_bits = 12, ud_device = True\<rparr>],
      bi_untyped_start = 200, bi_empty_start = 100, bi_empty_end = 1000\<rparr>"

definition small_boot_kernel :: "nat boot_kernel" where
  "small_boot_kernel =
     \<lparr>bk_sel4 = counting_kernel, bk_move = (\<lambda>_ _ n. (None, Suc n)), bk_set_space = (\<lambda>_ _ _ _ n. (None, Suc n)),
      bk_fan_out = 256, bk_max_untypeds = 2\<rparr>"

definition small_plan :: boot_plan where
  "small_plan = \<lparr>bp_memory = (0x40000000, 0x60001000), bp_ut_pages = 1025, bp_n_cnodes = 568,
     bp_bytes = 9265152, bp_avail = [536870912, 0]\<rparr>"

lemma small_boot_accepts: "accepts small_boot_kernel"
  by (simp add: accepts_def small_boot_kernel_def counting_kernel_def)

lemma small_log: "BYTES_TO_SIZE_BITS 9265152 = 23"
proof -
  have "\<not> bit (9265152 :: nat) (63 - k)" if "k < 40" for k
  proof -
    have "(2 :: nat) ^ 24 \<le> 2 ^ (63 - k)" using that by (intro power_increasing) simp_all
    then have "9265152 < (2 :: nat) ^ (63 - k)" by simp
    then show ?thesis by (simp add: bit_iff_odd)
  qed
  moreover have "bit (9265152 :: nat) (63 - 40)" by (simp add: bit_iff_odd)
  ultimately have "leading_zeros 9265152 = 40"
    unfolding leading_zeros_def by (subst takeWhile_upt_least [where n = 40]) simp_all
  then show ?thesis by (simp add: BYTES_TO_SIZE_BITS_def LOG_BASE_2_def)
qed

lemma replicate_2: "replicate 2 x = [x, x]"
  by (simp add: numeral_2_eq_2)

lemma small_boot_sizes: "(boot_sizes small_boot_kernel small_bootinfo :: (sel4_error, boot_plan) outcome) = Ok small_plan"
  by (simp add: boot_sizes_def small_boot_kernel_def small_bootinfo_def small_plan_def find_memory_bounds_def
      untyped_in_range_def ut_pages_for_region_def BYTES_TO_4K_PAGES_def BYTES_TO_SIZE_BITS_PAGES_def
      const_defs BIT_def CNODE_SLOTS_def CNODE_SLOT_BITS_def drop_bit_eq_div sub_us_def add_us_def replicate_2)

lemma small_boots: "boots small_boot_kernel small_bootinfo small_plan [452984832, 0]"
proof -
  have "length (bi_untyped_list small_bootinfo) \<le> bk_max_untypeds small_boot_kernel" "disjoint_untypeds small_bootinfo"
    by (auto simp: small_bootinfo_def small_boot_kernel_def disjoint_untypeds_def nth_untyped_def less_Suc_eq BIT_def)
  moreover have "(steal_untyped small_bootinfo (BYTES_TO_SIZE_BITS (bp_bytes small_plan) + 1) (bp_avail small_plan) ::
      (sel4_error, (cptr \<times> nat) option \<times> nat list) outcome) = Ok (Some (200, 0x40000000), [520093696, 0])"
    by (simp add: small_plan_def small_log steal_untyped_def small_bootinfo_def untyped_in_range_def const_defs BIT_def
        paddr_from_avail_bytes_def sub_us_def ROUND_UP_def)
  moreover have "(steal_untyped small_bootinfo DMA_RESERVATION_SIZE_BITS [520093696, 0] ::
      (sel4_error, (cptr \<times> nat) option \<times> nat list) outcome) = Ok (Some (200, 0x44000000), [452984832, 0])"
    by (simp add: steal_untyped_def small_bootinfo_def untyped_in_range_def const_defs BIT_def
        paddr_from_avail_bytes_def sub_us_def ROUND_UP_def drop_bit_eq_div push_bit_eq_mult)
  ultimately show ?thesis unfolding boots_def using small_boot_sizes by blast
qed

lemma small_boot_end: "boot_end small_bootinfo small_plan [452984832, 0] = 128145"
  "(\<Sum>i<length (bi_untyped_list small_bootinfo). boot_frames small_bootinfo [452984832, 0] i) = 110592"
  "boot_nodes small_plan = 6" "bp_n_cnodes small_plan = 568"
  by (simp_all add: boot_end_def boot_slots_def boot_nodes_def boot_caps_def boot_frames_def nth_untyped_def small_plan_def
      small_bootinfo_def untyped_in_range_def const_defs BIT_def lessThan_Suc)

theorem root_server_starts_witness:
  "\<forall>h s. \<exists>dma t W. smos_bootstrap small_boot_kernel small_bootinfo h s = (Ok dma, t) \<and> ut_inv W (rs_ut (bt_rs t)) \<and> card (dom W) = 6 \<and>
    two_level_inv 568 {..<500} (rs_cs (bt_rs t))"
proof (intro allI)
  fix h s
  show "\<exists>dma t W. smos_bootstrap small_boot_kernel small_bootinfo h s = (Ok dma, t) \<and> ut_inv W (rs_ut (bt_rs t)) \<and>
    card (dom W) = 6 \<and> two_level_inv 568 {..<500} (rs_cs (bt_rs t))"
    using root_server_starts [OF small_boot_accepts small_boots, of h s] by (auto simp: small_boot_end)
qed

text \<open>C27: After a start, freeing a slot of a full cnode that is not the first of its node makes the allocator hand
  out the first slot of that cnode, whichever slot was freed: one of those the start-up code filled.\<close>

theorem boot_slots_reissued:
  assumes "accepts K" and "boots K bi plan av" and "bp_n_cnodes plan \<le> 8192"
    and "boot_nodes plan \<le> (\<Sum>i<length (bi_untyped_list bi). boot_frames bi av i)"
    and "boot_end bi plan av mod 256 \<noteq> 255"
    and m: "m < boot_end bi plan av div 256" "m mod 97 \<noteq> 0" and c: "c div 256 = m"
  shows "\<exists>dma t u v. smos_bootstrap K bi h s = (Ok dma, t) \<and> 256 * m < bt_slot t \<and>
    cs_free_slot c (rs_cs (bt_rs t)) = ((Ok () :: (sel4_error, unit) outcome), u) \<and> cs_alloc_slot u = (Ok (256 * m), v)"
proof -
  let ?E = "boot_end bi plan av" and ?N = "bp_n_cnodes plan"
  obtain dma t where t: "smos_bootstrap K bi h s = (Ok dma, t)" "bt_slot t = ?E"
    "two_level_inv ?N {..<?E div 256} (rs_cs (bt_rs t))"
    "set (cs_watermark (rs_cs (bt_rs t))) \<subseteq> two_level_slots ?N {..<?E div 256} - boot_used ?E"
    "two_level_used ?N (rs_cs (bt_rs t)) = boot_used ?E \<union> set (cs_watermark (rs_cs (bt_rs t)))"
    using root_start [OF assms(1-5), of h s] by blast
  have N: "?E div 256 \<le> ?N" using boot_cnodes_suffice(1) [OF assms(2)] by simp
  have m0: "0 < m" using m(2) by (cases m) auto
  have "bits_of (bot_bf (rs_cs (bt_rs t)) m) = {}"
  proof (rule ccontr)
    assume "bits_of (bot_bf (rs_cs (bt_rs t)) m) \<noteq> {}"
    then obtain j where j: "j \<in> bits_of (bot_bf (rs_cs (bt_rs t)) m)" by blast
    have "cnode_present (rs_cs (bt_rs t)) m" using t(3) m(1) N by (simp add: two_level_inv_def cnode_ok_def)
    then have "length (bot_bf (rs_cs (bt_rs t)) m) = 4" using cnode_node by blast
    then have "j < 256" using bits_of_bound [OF j] by simp
    then have d: "(256 * m + j) div 256 = m" "(256 * m + j) mod 256 = j" by simp_all
    then have "256 * m + j \<in> two_level_used ?N (rs_cs (bt_rs t))" using j m(1) N by (simp add: two_level_used_def)
    moreover have "256 * m + j \<notin> two_level_slots ?N {..<?E div 256}" using d m(1) by (simp add: two_level_slots_def)
    moreover have "256 * m + j \<notin> boot_used ?E"
    proof -
      have "\<not> ?E div 256 * 256 \<le> 256 * m + j"
        using div_le_mono [of "?E div 256 * 256" "256 * m + j" 256] d(1) m(1) by auto
      then show ?thesis using d(1) m(2) by (simp add: boot_used_def)
    qed
    ultimately show False using t(4,5) by blast
  qed
  from unmarked_slot_reissued [OF t(3) m(1) N m0 this c] obtain u v where
    "cs_free_slot c (rs_cs (bt_rs t)) = ((Ok () :: (sel4_error, unit) outcome), u)" "cs_alloc_slot u = (Ok (256 * m), v)" by blast
  moreover have "256 * m < ?E" using m(1) times_div_less_eq_dividend [of 256 "?E"] by linarith
  ultimately show ?thesis using t(1,2) by auto
qed

theorem boot_slots_reissued_witness:
  "\<forall>h s. \<exists>dma t u v. smos_bootstrap small_boot_kernel small_bootinfo h s = (Ok dma, t) \<and>
    cs_free_slot 600 (rs_cs (bt_rs t)) = ((Ok () :: (sel4_error, unit) outcome), u) \<and> cs_alloc_slot u = (Ok 512, v)"
proof (intro allI)
  fix h s
  show "\<exists>dma t u v. smos_bootstrap small_boot_kernel small_bootinfo h s = (Ok dma, t) \<and>
    cs_free_slot 600 (rs_cs (bt_rs t)) = ((Ok () :: (sel4_error, unit) outcome), u) \<and> cs_alloc_slot u = (Ok 512, v)"
    using boot_slots_reissued [OF small_boot_accepts small_boots, of 2 600 h s] by (auto simp: small_boot_end)
qed

text \<open>C28: When the untyped that the DMA memory is stolen from has lost a part before that is no multiple of 64M,
  the padding is forgotten: the first 4K untyped recorded for what remains of it has a physical
  address inside the DMA memory.\<close>

theorem dma_memory_overlaps:
  assumes ok: "avail_ok bi av"
    and st: "(steal_untyped bi DMA_RESERVATION_SIZE_BITS av :: (sel4_error, (cptr \<times> nat) option \<times> nat list) outcome) =
      Ok (Some (i + bi_untyped_start bi, p), av')"
    and pad: "\<not> 2 ^ 26 dvd BIT (ud_size_bits (nth_untyped bi i)) - av ! i"
  shows "\<exists>q. (paddr_from_avail_bytes bi i seL4_PageBits av' :: (sel4_error, nat) outcome) = Ok q \<and> p < q \<and> q < p + 2 ^ 26"
proof -
  let ?u = "nth_untyped bi i" and ?sb = "DMA_RESERVATION_SIZE_BITS"
  have sb: "?sb = 26" by (simp add: const_defs)
  have j: "(find_untyped 0 (bi_untyped_list bi) ?sb av :: (sel4_error, nat option) outcome) = Ok (Some i)"
    and p: "(paddr_from_avail_bytes bi i ?sb av :: (sel4_error, nat) outcome) = Ok p" and av': "av' = av[i := av ! i - BIT ?sb]"
    using st by (auto simp: steal_untyped_def obind_eq_Ok rust_assert_def split: if_splits option.splits)
  have f: "i < length (bi_untyped_list bi)" "untyped_in_range ?u" "i < length av" "BIT ?sb \<le> av ! i"
    using find_untyped_Some [OF j] by (auto simp: nth_untyped_def)
  have "0 < av ! i" using f(4) by (simp add: BIT_def sb)
  with ok f have dev: "\<not> ud_device ?u" and le: "av ! i \<le> BIT (ud_size_bits ?u)"
    by (auto simp: avail_ok_def Let_def split: if_splits)
  define T where "T = BIT (ud_size_bits ?u) - av ! i"
  have pT: "p = ud_paddr ?u + ROUND_UP T 26"
    using p dev f(3) le by (simp add: paddr_from_avail_bytes_def nth_untyped_def [symmetric] Let_def sub_us_def sb T_def)
  have "boot_base bi av' i = ud_paddr ?u + T + 2 ^ 26"
    using dev le f(3,4) by (simp add: boot_base_def av' T_def sb BIT_def Let_def)
  moreover have "(paddr_from_avail_bytes bi i seL4_PageBits av' :: (sel4_error, nat) outcome) = Ok (boot_base bi av' i)"
    by (rule paddr_from_avail(1) [OF steal_untyped_spec(1) [OF ok st] f(1,2)])
  moreover have "0 < T" using pad by (cases "T = 0") (simp_all add: T_def)
  moreover have "T \<noteq> ROUND_UP T 26" using pad ROUND_UP_dvd [of 26 T] by (auto simp: T_def)
  ultimately show ?thesis using pT ROUND_UP_ge [of T 26] ROUND_UP_less [of T 26] by auto
qed

theorem dma_memory_overlaps_witness:
  "\<exists>q. (paddr_from_avail_bytes small_bootinfo 0 seL4_PageBits [452984832, 0] :: (sel4_error, nat) outcome) = Ok q \<and>
    0x44000000 < q \<and> q < 0x44000000 + 2 ^ 26"
proof (rule dma_memory_overlaps)
  show "avail_ok small_bootinfo [520093696, 0]"
    by (auto simp: avail_ok_def small_bootinfo_def nth_untyped_def untyped_in_range_def const_defs BIT_def less_Suc_eq)
  show "(steal_untyped small_bootinfo DMA_RESERVATION_SIZE_BITS [520093696, 0] ::
      (sel4_error, (cptr \<times> nat) option \<times> nat list) outcome) = Ok (Some (0 + bi_untyped_start small_bootinfo, 0x44000000), [452984832, 0])"
    by (simp add: steal_untyped_def small_bootinfo_def untyped_in_range_def const_defs BIT_def
        paddr_from_avail_bytes_def sub_us_def ROUND_UP_def drop_bit_eq_div push_bit_eq_mult)
  show "\<not> 2 ^ 26 dvd BIT (ud_size_bits (nth_untyped small_bootinfo 0)) - [520093696, 0] ! 0"
    by (simp add: small_bootinfo_def nth_untyped_def BIT_def)
qed

end
