(* ===== verification/Runtime.thy ===== *)
theory Runtime
  imports Rust_Str User_CSpace
begin

text \<open>
  What a process does before its \<open>main\<close>: the arguments and environment it finds on its stack,
  \<open>crates/smos-runtime/src/args.rs\<close> and \<open>env.rs\<close>, and the entry point and \<open>run_main\<close> of
  \<open>entry.rs\<close>.  The memory of the process maps addresses to bytes.
\<close>

section \<open>Memory\<close>

type_synonym vmem = "nat \<Rightarrow> u8"

definition mem_read :: "vmem \<Rightarrow> nat \<Rightarrow> nat \<Rightarrow> u8 list" where
  "mem_read m a n = List.map m [a..<a + n]"

definition mem_write :: "nat \<Rightarrow> u8 list \<Rightarrow> vmem \<Rightarrow> vmem" where
  "mem_write a bs m = (\<lambda>x. if a \<le> x \<and> x < a + length bs then bs ! (x - a) else m x)"

text \<open>A little-endian number, and a load of 8 bytes (\<open>LittleEndian::read_u64_into\<close>, or a \<open>*const u64\<close>).\<close>

definition word_of_bytes :: "u8 list \<Rightarrow> 'a :: len word" where
  "word_of_bytes bs = foldr (\<lambda>b w. ucast b OR push_bit 8 w) bs 0"

definition mem_u64 :: "vmem \<Rightarrow> nat \<Rightarrow> u64" where
  "mem_u64 m a = word_of_bytes (mem_read m a 8)"

definition mem_u32 :: "vmem \<Rightarrow> nat \<Rightarrow> u32" where
  "mem_u32 m a = word_of_bytes (mem_read m a 4)"

section \<open>The environment\<close>

definition ENVP_STACK_TOP :: nat where [const_defs]: "ENVP_STACK_TOP = 0"
definition ENVP_IPC_BUFFER :: nat where [const_defs]: "ENVP_IPC_BUFFER = 1"
definition ENVP_RS_SHARED_BUF :: nat where [const_defs]: "ENVP_RS_SHARED_BUF = 2"
definition ENVP_MIN_SIZE :: nat where [const_defs]: "ENVP_MIN_SIZE = 3"

record EnvVarsInner =
  ei_inner :: "u64 list"
  ei_size :: nat
  ei_index :: nat

text \<open>The loop of \<open>init_env\<close>: the array is copied up to its first zero; without one in 32
  entries the size stays 0.\<close>

function init_env_loop :: "vmem \<Rightarrow> nat \<Rightarrow> nat \<Rightarrow> u64 list \<Rightarrow> u64 list \<times> nat" where
  "init_env_loop m envp i inner =
     (if i < 32 then
        let w = mem_u64 m (envp + i * 8); inner' = inner[i := w] in
        if w = 0 then (inner', i) else init_env_loop m envp (i + 1) inner'
      else (inner, 0))"
  by pat_completeness auto
termination by (relation "measure (\<lambda>(m, envp, i, _). 32 - i)") auto

declare init_env_loop.simps [simp del]

definition init_env :: "vmem \<Rightarrow> nat \<Rightarrow> ('e, EnvVarsInner) outcome" where
  "init_env m envp =
     (case init_env_loop m envp 0 (replicate 32 0) of (inner, n) \<Rightarrow>
        if n < ENVP_MIN_SIZE then Panic else Ok \<lparr>ei_inner = inner, ei_size = n, ei_index = 0\<rparr>)"

text \<open>\<open>inner[index]\<close>, which panics out of range.\<close>

definition at_index :: "'a list \<Rightarrow> nat \<Rightarrow> ('e, 'a) outcome" where
  "at_index xs i = (if i < length xs then Ok (xs ! i) else Panic)"

text \<open>Every entry is the address of a value; \<open>nth\<close> is the iterator's, which drops the entries before.\<close>

definition env_next :: "vmem \<Rightarrow> EnvVarsInner \<Rightarrow> ('e, u64 option \<times> EnvVarsInner) outcome" where
  "env_next m e =
     (if ei_index e < ei_size e
      then obind (at_index (ei_inner e) (ei_index e)) (\<lambda>p.
           Ok (Some (mem_u64 m (unat p)), e\<lparr>ei_index := ei_index e + 1\<rparr>))
      else Ok (None, e))"

fun env_nth :: "vmem \<Rightarrow> nat \<Rightarrow> EnvVarsInner \<Rightarrow> ('e, u64 option) outcome" where
  "env_nth m 0 e = obind (env_next m e) (\<lambda>(x, _). Ok x)"
| "env_nth m (Suc n) e =
     obind (env_next m e) (\<lambda>(x, e'). case x of None \<Rightarrow> Ok None | Some _ \<Rightarrow> env_nth m n e')"

definition env_size_hint :: "EnvVarsInner \<Rightarrow> nat \<times> nat option" where
  "env_size_hint e = (ei_size e - ei_index e, Some (ei_size e - ei_index e))"

record ArgsInner =
  ai_inner :: "u64 list"
  ai_size :: nat
  ai_index :: nat

text \<open>The two statics, set once at the entry point.\<close>

record runtime =
  rt_args :: "ArgsInner option"
  rt_env :: "EnvVarsInner option"

definition env_value :: "vmem \<Rightarrow> runtime \<Rightarrow> nat \<Rightarrow> ('e, nat) outcome" where
  "env_value m rt i =
     obind (unwrap (rt_env rt)) (\<lambda>e. obind (env_nth m i e) (\<lambda>x. obind (unwrap x) (\<lambda>w. Ok (unat w))))"

definition stack_top :: "vmem \<Rightarrow> runtime \<Rightarrow> ('e, nat) outcome" where
  "stack_top m rt = env_value m rt ENVP_STACK_TOP"

definition ipc_buffer :: "vmem \<Rightarrow> runtime \<Rightarrow> ('e, nat) outcome" where
  "ipc_buffer m rt = env_value m rt ENVP_IPC_BUFFER"

definition rs_shared_buf :: "vmem \<Rightarrow> runtime \<Rightarrow> ('e, nat) outcome" where
  "rs_shared_buf m rt = env_value m rt ENVP_RS_SHARED_BUF"

section \<open>The arguments\<close>

text \<open>Copying more than 32 pointers slices the array out of its range.\<close>

definition init_args :: "vmem \<Rightarrow> nat \<Rightarrow> nat \<Rightarrow> ('e, ArgsInner) outcome" where
  "init_args m argc argv =
     (let inner = replicate 32 0 in
      if argc > 0
      then if argc \<le> length inner
           then Ok \<lparr>ai_inner = List.map (\<lambda>i. mem_u64 m (argv + i * 8)) [0..<argc] @ drop argc inner,
                    ai_size = argc, ai_index = 0\<rparr>
           else Panic
      else Ok \<lparr>ai_inner = inner, ai_size = argc, ai_index = 0\<rparr>)"

text \<open>\<open>args().next()\<close>: an argument reaches from its pointer to the top of the stack; one that is
  not UTF-8 ends the iteration.\<close>

definition args_next :: "vmem \<Rightarrow> runtime \<Rightarrow> ArgsInner \<Rightarrow> ('e, rust_str option \<times> ArgsInner) outcome" where
  "args_next m rt a =
     (if ai_index a < ai_size a
      then obind (at_index (ai_inner a) (ai_index a)) (\<lambda>p.
           obind (stack_top m rt) (\<lambda>stop.
           obind (sub_us stop (unat p)) (\<lambda>n.
           case rust_str_from_buffer (mem_read m (unat p) n) of
             Ok r \<Rightarrow> Ok (Some (fst r), a\<lparr>ai_index := ai_index a + 1\<rparr>)
           | Err _ \<Rightarrow> Ok (None, a)
           | Panic \<Rightarrow> Panic)))
      else Ok (None, a))"

definition args_size_hint :: "ArgsInner \<Rightarrow> nat \<times> nat option" where
  "args_size_hint a = (ai_size a - ai_index a, Some (ai_size a - ai_index a))"

text \<open>\<open>args().collect()\<close>.\<close>

lemma args_next_index:
  assumes "args_next m rt a = (Ok (Some s, b) :: ('b, _) outcome)"
  shows "ai_size b = ai_size a \<and> ai_index b = Suc (ai_index a) \<and> ai_index a < ai_size a"
proof -
  have i: "ai_index a < ai_size a" using assms by (auto simp: args_next_def split: if_splits)
  with assms obtain p :: u64 and n where
    "(case rust_str_from_buffer (mem_read m (unat p) n) of
        Ok r \<Rightarrow> Ok (Some (fst r), a\<lparr>ai_index := ai_index a + 1\<rparr>) | Err _ \<Rightarrow> Ok (None, a) | Panic \<Rightarrow> Panic)
      = (Ok (Some s, b) :: ('b, _) outcome)"
    by (simp only: args_next_def if_True obind_eq_Ok) blast
  then show ?thesis using i by (cases "rust_str_from_buffer (mem_read m (unat p) n)") auto
qed

function args_rest :: "vmem \<Rightarrow> runtime \<Rightarrow> ArgsInner \<Rightarrow> (unit, rust_str list) outcome" where
  "args_rest m rt a =
     (case args_next m rt a of
        Ok (Some s, b) \<Rightarrow> obind (args_rest m rt b) (\<lambda>ss. Ok (s # ss))
      | Ok (None, _) \<Rightarrow> Ok []
      | Err e \<Rightarrow> Err e
      | Panic \<Rightarrow> Panic)"
  by pat_completeness auto
termination
  by (relation "measure (\<lambda>(m, rt, a). ai_size a - ai_index a)") (auto dest!: args_next_index)

declare args_rest.simps [simp del]

definition args_collect :: "vmem \<Rightarrow> runtime \<Rightarrow> (unit, rust_str list) outcome" where
  "args_collect m rt = obind (unwrap (rt_args rt)) (args_rest m rt)"

section \<open>The entry point\<close>

text \<open>\<open>_start\<close> loads the number of arguments and the two pointers from the stack, where they are
  packed: the pointers are not aligned.\<close>

definition rt_start :: "vmem \<Rightarrow> nat \<Rightarrow> ('e, runtime) outcome" where
  "rt_start m sp =
     (let argc = unat (mem_u32 m sp); argv = unat (mem_u64 m (sp + 4)); envp = unat (mem_u64 m (sp + 12)) in
      obind (init_args m argc argv) (\<lambda>a.
      obind (init_env m envp) (\<lambda>e.
      Ok \<lparr>rt_args = Some a, rt_env = Some e\<rparr>)))"

text \<open>\<open>run_main\<close>: the CSpace with its reserved slots, and the connection to the root server, its
  endpoint, handle and data buffer (address and size).\<close>

record root_connection =
  rc_ep :: cptr
  rc_hndl :: u64
  rc_buf :: "nat \<times> nat"

definition run_main :: "vmem \<Rightarrow> runtime \<Rightarrow> (unit, SMOSUserCSpace \<times> root_connection) outcome" where
  "run_main m rt =
     obind (ipc_buffer m rt) (\<lambda>ipc.
     obind (rust_assert (ipc \<noteq> 0)) (\<lambda>_.
     case run_main_cspace of (r, cspace) \<Rightarrow>
       obind r (\<lambda>_.
       obind (rs_shared_buf m rt) (\<lambda>buf.
       Ok (cspace, \<lparr>rc_ep = SMOS_RootServerEP, rc_hndl = 0, rc_buf = (buf, 4096)\<rparr>)))))"

end
