(* ===== verification/Loader.thy ===== *)
theory Loader
  imports Runtime Client Elf_Load
begin

text \<open>
  The program that loads every other program: \<open>crates/smos-loader/src/main.rs\<close>.  It runs in the new
  process: it maps the ELF file from a file server, makes a window, an object and a view for every
  segment, writes the new stack, gives everything else back and asks the root server to jump.
\<close>

section \<open>The state\<close>

text \<open>
  The client of the connection to the root server; its kernel component is paired with the memory of
  the process, which a server's answer may change too.  The connection to the file server shares
  everything but the data buffer.  \<open>call\<close> is \<open>seL4_Call\<close> on the endpoint in a slot, a parameter.
  The parsed file is a value: the sources borrow it from memory and do not write there.
\<close>

record 'k loader =
  ld_client :: "('k \<times> vmem) client"
  ld_fs_buf :: "u8 list option"

type_synonym ('k, 'a) ld_op = "('k loader, InvocationError, 'a) op"
type_synonym 'k ld_call = "cptr \<Rightarrow> ('k \<times> vmem) ep_call"

definition with_rs :: "('k \<times> vmem, 'a) stub \<Rightarrow> ('k, 'a) ld_op" where
  "with_rs m = on_part ld_client ld_client_update m"

definition with_fs :: "('k \<times> vmem, 'a) stub \<Rightarrow> ('k, 'a) ld_op" where
  "with_fs m s =
     (case m ((ld_client s)\<lparr>cl_buf := ld_fs_buf s\<rparr>) of
        (r, c) \<Rightarrow> (r, s\<lparr>ld_client := c\<lparr>cl_buf := cl_buf (ld_client s)\<rparr>, ld_fs_buf := cl_buf c\<rparr>))"

definition ld_mem :: "'k loader \<Rightarrow> vmem" where
  "ld_mem s = snd (cl_kern (ld_client s))"

definition in_memory :: "(vmem, 'e, 'a) op \<Rightarrow> ('k loader, 'e, 'a) op" where
  "in_memory m = on_part ld_mem (\<lambda>f. ld_client_update (cl_kern_update (map_prod id f))) m"

definition alloc_cap_slot :: "('k, abs_cptr) ld_op" where
  "alloc_cap_slot =
     bnd (expect (on_part (cl_cspace \<circ> ld_client) (\<lambda>f. ld_client_update (cl_cspace_update f)) ucs_alloc_slot)) (\<lambda>slot.
     bnd (gets (cl_cspace \<circ> ld_client)) (\<lambda>cs. lift (ucs_to_absolute_cptr cs slot)))"

section \<open>Calls\<close>

text \<open>What a stub returns has the kind the stub declares.\<close>

definition hndl_or_cap :: "client_result \<Rightarrow> ('e, HandleOrHandleCap) outcome" where
  "hndl_or_cap r = (case r of R_HndlCap h \<Rightarrow> Ok h | _ \<Rightarrow> Panic)"

definition local_hndl :: "client_result \<Rightarrow> ('e, u64) outcome" where
  "local_hndl r = (case r of R_Hndl h \<Rightarrow> Ok h | R_Conn h _ \<Rightarrow> Ok h | _ \<Rightarrow> Panic)"

definition stat_size :: "client_result \<Rightarrow> ('e, nat) outcome" where
  "stat_size r = (case r of R_Stat d \<Rightarrow> Ok (unat (st_size d)) | _ \<Rightarrow> Panic)"

text \<open>The word of a \<open>seL4_CapRights\<close>.\<close>

definition word_of_rights :: "cap_rights \<Rightarrow> u64" where
  "word_of_rights r = word_of_bool (cr_write r) OR push_bit 1 (word_of_bool (cr_read r)) OR
     push_bit 2 (word_of_bool (cr_grant r)) OR push_bit 3 (word_of_bool (cr_grant_reply r))"

definition rights_read_only :: cap_rights where
  "rights_read_only = rights_none\<lparr>cr_read := True\<rparr>"

definition ld_window :: "'k ld_call \<Rightarrow> nat \<Rightarrow> nat \<Rightarrow> abs_cptr option \<Rightarrow> ('k, HandleOrHandleCap) ld_op" where
  "ld_window call vaddr sz cap =
     bnd (with_rs (window_create (call SMOS_RootServerEP) (of_nat vaddr) (of_nat sz) cap)) (\<lambda>r. lift (hndl_or_cap r))"

definition ld_object :: "'k ld_call \<Rightarrow> nat \<Rightarrow> abs_cptr option \<Rightarrow> ('k, HandleOrHandleCap) ld_op" where
  "ld_object call sz cap =
     bnd (with_rs (obj_create (call SMOS_RootServerEP) None (of_nat sz) (word_of_rights rights_all) ATTR_DEFAULT cap))
       (\<lambda>r. lift (hndl_or_cap r))"

definition ld_view :: "'k ld_call \<Rightarrow> HandleOrHandleCap \<Rightarrow> HandleOrHandleCap \<Rightarrow> nat \<Rightarrow> cap_rights \<Rightarrow> ('k, u64) ld_op" where
  "ld_view call win obj sz rights =
     bnd (with_rs (view (call SMOS_RootServerEP) win obj 0 0 (of_nat sz) (word_of_rights rights))) (\<lambda>r. lift (local_hndl r))"

section \<open>The file server\<close>

definition SHARED_BUFFER_REGION :: nat where [const_defs]: "SHARED_BUFFER_REGION = 0xA0002000"
definition ELF_BASE :: nat where [const_defs]: "ELF_BASE = 0xB000000"

text \<open>What has to be given back: the connection's handle and endpoint, the shared buffer's window,
  object and view.\<close>

record fs_session =
  fs_hndl :: u64
  fs_ep :: cptr
  fs_win :: HandleOrHandleCap
  fs_obj :: HandleOrHandleCap
  fs_view :: u64

definition connect_fs :: "'k ld_call \<Rightarrow> rust_str \<Rightarrow> ('k, fs_session) ld_op" where
  "connect_fs call name =
     bnd alloc_cap_slot (\<lambda>ep.
     bnd (expect (bnd (with_rs (conn_create (call SMOS_RootServerEP) ep name)) (\<lambda>r. lift (local_hndl r)))) (\<lambda>hndl.
     bnd (expect (ld_window call SHARED_BUFFER_REGION 4096 None)) (\<lambda>win.
     bnd alloc_cap_slot (\<lambda>cap.
     bnd (expect (ld_object call 4096 (Some cap))) (\<lambda>obj.
     bnd (expect (ld_view call win obj 4096 rights_all)) (\<lambda>v.
     bnd (gets (\<lambda>s. mem_read (ld_mem s) SHARED_BUFFER_REGION 4096)) (\<lambda>buffer.
     bnd (expect (with_fs (conn_open (call (ac_bits ep)) (Some (obj, buffer))))) (\<lambda>_.
     ret \<lparr>fs_hndl = hndl, fs_ep = ac_bits ep, fs_win = win, fs_obj = obj, fs_view = v\<rparr>))))))))"

record elf_session =
  es_file :: HandleOrHandleCap
  es_win :: HandleOrHandleCap
  es_view :: u64

text \<open>Open the file, map it read-only, and parse it (\<open>parse\<close> is the \<open>elf\<close> package's
  \<open>minimal_parse\<close> with the segments, a parameter).\<close>

definition map_elf ::
  "'k ld_call \<Rightarrow> (u8 list \<Rightarrow> elf_file option) \<Rightarrow> fs_session \<Rightarrow> rust_str \<Rightarrow> ('k, elf_session \<times> elf_file) ld_op" where
  "map_elf call parse fs name =
     bnd (expect (bnd (with_fs (obj_open (call (fs_ep fs)) name (word_of_rights rights_read_only) None))
            (\<lambda>r. lift (hndl_or_cap r)))) (\<lambda>file_hndl.
     bnd (expect (bnd (with_fs (obj_stat (call (fs_ep fs)) file_hndl)) (\<lambda>r. lift (stat_size r)))) (\<lambda>file_size.
     bnd alloc_cap_slot (\<lambda>cap.
     bnd (expect (ld_window call ELF_BASE (ROUND_UP file_size seL4_PageBits) (Some cap))) (\<lambda>win.
     bnd (expect (bnd (with_fs (view (call (fs_ep fs)) win file_hndl 0 0 (of_nat file_size) (word_of_rights rights_read_only)))
            (\<lambda>r. lift (local_hndl r)))) (\<lambda>v.
     bnd (gets (\<lambda>s. parse (mem_read (ld_mem s) ELF_BASE file_size))) (\<lambda>elf.
     bnd (lift (unwrap elf)) (\<lambda>elf.
     ret (\<lparr>es_file = file_hndl, es_win = win, es_view = v\<rparr>, elf))))))))"

section \<open>Segments\<close>

record SegmentData =
  sd_win :: HandleOrHandleCap
  sd_obj :: HandleOrHandleCap
  sd_view :: u64
  sd_size :: nat
  sd_rights :: cap_rights

text \<open>The \<open>while segment_hndl.is_err()\<close> loop: try again from the next page on, until the window is made
  or less than the rest of the page is left.\<close>

function claim_window ::
  "'k ld_call \<Rightarrow> nat \<Rightarrow> nat \<Rightarrow> (InvocationError, HandleOrHandleCap) outcome \<Rightarrow>
   ('k, (HandleOrHandleCap \<times> nat) option) ld_op" where
  "claim_window call vaddr sz r =
     (case r of
        Ok h \<Rightarrow> ret (Some (h, sz))
      | Panic \<Rightarrow> panic
      | Err _ \<Rightarrow>
          let remaining = PAGE_SIZE_4K - vaddr mod PAGE_SIZE_4K in
          bnd (lift (add_us vaddr remaining)) (\<lambda>vaddr'.
          if sz < remaining then ret None
          else bnd (attempt (ld_window call vaddr' (ROUND_UP (sz - remaining) seL4_PageBits) None))
                 (claim_window call vaddr' (sz - remaining))))"
  by pat_completeness auto
termination
  by (relation "measure (\<lambda>(call, vaddr, sz, r). sz)") (auto simp: const_defs BIT_def intro!: diff_less)

declare claim_window.simps [simp del]

definition load_segment :: "'k ld_call \<Rightarrow> program_header \<times> u8 list option \<Rightarrow> ('k, SegmentData list) ld_op" where
  "load_segment call = (\<lambda>(segment, data).
     if ph_type segment \<noteq> PT_LOAD \<and> ph_type segment \<noteq> PT_TLS then ret []
     else
     bnd (ensure (ph_filesz segment \<le> ph_memsz segment)) (\<lambda>_.
     bnd (lift (total_size segment)) (\<lambda>total.
     bnd (attempt (ld_window call (ROUND_DOWN (ph_vaddr segment) seL4_PageBits) total None)) (\<lambda>r.
     bnd (claim_window call (ph_vaddr segment) total r) (\<lambda>claimed.
     bnd (case claimed of
            None \<Rightarrow> ret []
          | Some (win, sz) \<Rightarrow>
              bnd (expect (ld_object call (ROUND_UP sz seL4_PageBits) None)) (\<lambda>obj.
              bnd (expect (ld_view call win obj (ROUND_UP sz seL4_PageBits) rights_all)) (\<lambda>v.
              ret [\<lparr>sd_win = win, sd_obj = obj, sd_view = v, sd_size = sz,
                    sd_rights = rights_from_elf_flags (ph_flags segment)\<rparr>]))) (\<lambda>mapped.
     bnd (lift (unwrap data)) (\<lambda>bytes.
     bnd (ensure (ph_filesz segment \<le> length bytes)) (\<lambda>_.
     bnd (in_memory (modify (mem_write (ph_vaddr segment) (take (ph_filesz segment) bytes)))) (\<lambda>_.
     ret mapped)))))))))"

fun load_all_segments :: "'k ld_call \<Rightarrow> (program_header \<times> u8 list option) list \<Rightarrow> ('k, SegmentData list) ld_op" where
  "load_all_segments call [] = ret []"
| "load_all_segments call (x # xs) =
     bnd (load_segment call x) (\<lambda>ys. bnd (load_all_segments call xs) (\<lambda>zs. ret (ys @ zs)))"

text \<open>Replace the views by ones with the segments' rights.\<close>

definition remap_segment :: "'k ld_call \<Rightarrow> SegmentData \<Rightarrow> ('k, unit) ld_op" where
  "remap_segment call segment =
     (if sd_rights segment = rights_all then ret ()
      else bnd (expect (with_rs (unview (call SMOS_RootServerEP) (sd_view segment)))) (\<lambda>_.
           bnd (expect (ld_view call (sd_win segment) (sd_obj segment) (sd_size segment) (sd_rights segment))) (\<lambda>_.
           ret ())))"

section \<open>The new stack\<close>

definition LOADER_STACK_TOP :: nat where [const_defs]: "LOADER_STACK_TOP = 0xA0000000"
definition LOADER_STACK_PAGES :: nat where [const_defs]: "LOADER_STACK_PAGES = 100"

definition map_stack :: "'k ld_call \<Rightarrow> ('k, unit) ld_op" where
  "map_stack call =
     (let sz = LOADER_STACK_PAGES * PAGE_SIZE_4K in
      bnd (expect (ld_window call (LOADER_STACK_TOP - sz) sz None)) (\<lambda>win.
      bnd (expect (ld_object call sz None)) (\<lambda>obj.
      bnd (expect (ld_view call win obj sz rights_all)) (\<lambda>_. ret ()))))"

text \<open>Moving the pointer down and writing there; below address 0 it has no meaning.\<close>

definition push_bytes :: "nat \<Rightarrow> u8 list \<Rightarrow> (vmem, 'e, nat) op" where
  "push_bytes sp bs =
     bnd (lift (sub_us sp (length bs))) (\<lambda>sp'. bnd (modify (mem_write sp' bs)) (\<lambda>_. ret sp'))"

definition push_u64s :: "nat \<Rightarrow> u64 list \<Rightarrow> (vmem, 'e, nat) op" where
  "push_u64s sp ws = push_bytes sp (concat (List.map bytes_of_u64 ws))"

definition push_terminated :: "nat \<Rightarrow> rust_str \<Rightarrow> (vmem, 'e, nat) op" where
  "push_terminated sp arg =
     bnd (lift (sub_us sp (length arg + 1))) (\<lambda>sp'.
     bnd (gets (\<lambda>m. mem_read m sp' (length arg + 1))) (\<lambda>buffer.
     bnd (expect (lift (copy_terminated_rust_string_to_buffer buffer arg))) (\<lambda>(written, rest).
     bnd (modify (mem_write sp' (written @ rest))) (\<lambda>_. ret sp'))))"

fun push_all_args :: "nat \<Rightarrow> rust_str list \<Rightarrow> u64 list \<Rightarrow> (vmem, 'e, nat \<times> u64 list) op" where
  "push_all_args sp [] argv = ret (sp, argv)"
| "push_all_args sp (arg # args) argv =
     bnd (push_terminated sp arg) (\<lambda>sp'. push_all_args sp' args (argv @ [of_nat sp']))"

definition push_envp :: "runtime \<Rightarrow> (vmem, 'e, nat) op" where
  "push_envp rt =
     bnd (push_u64s LOADER_STACK_TOP [0xA0000000]) (\<lambda>c1.
     bnd (\<lambda>m. (ipc_buffer m rt, m)) (\<lambda>ipc.
     bnd (push_u64s c1 [of_nat ipc]) (\<lambda>c2.
     bnd (\<lambda>m. (rs_shared_buf m rt, m)) (\<lambda>shared.
     bnd (push_u64s c2 [of_nat shared]) (\<lambda>c3.
     push_u64s c3 [of_nat c1, of_nat c2, of_nat c3, 0])))))"

definition push_argv :: "nat \<Rightarrow> rust_str list \<Rightarrow> (vmem, 'e, nat \<times> nat \<times> u64 list) op" where
  "push_argv sp args =
     (if args = [] then ret (sp, 0, [])
      else bnd (push_all_args sp args []) (\<lambda>(sp1, argv).
           bnd (push_u64s (sp1 - sp1 mod 8) argv) (\<lambda>sp2. ret (sp2, sp2, argv))))"

definition write_stack :: "runtime \<Rightarrow> rust_str list \<Rightarrow> (vmem, 'e, nat) op" where
  "write_stack rt args =
     bnd (push_envp rt) (\<lambda>envp_ptr.
     bnd (push_argv envp_ptr args) (\<lambda>(sp, argv_ptr, argv).
     bnd (push_u64s sp [of_nat envp_ptr]) (\<lambda>sp1.
     bnd (push_u64s sp1 [of_nat argv_ptr]) (\<lambda>sp2.
     bnd (ensure (length argv < 2 ^ 32)) (\<lambda>_.
     push_bytes sp2 (bytes_of_u32 (of_nat (length argv))))))))"

section \<open>The program\<close>

text \<open>Giving the file, its window, the connection and the shared buffer back.\<close>

definition close_elf :: "'k ld_call \<Rightarrow> ('k \<times> vmem) sel4 \<Rightarrow> fs_session \<Rightarrow> elf_session \<Rightarrow> ('k, unit) ld_op" where
  "close_elf call K fs es =
     bnd (expect (with_fs (unview (call (fs_ep fs)) (es_view es)))) (\<lambda>_.
     bnd (expect (with_fs (obj_close (call (fs_ep fs)) (es_file es)))) (\<lambda>_.
     bnd (expect (with_rs (window_destroy (call SMOS_RootServerEP) K (es_win es)))) (\<lambda>_. ret ())))"

definition disconnect_fs :: "'k ld_call \<Rightarrow> ('k \<times> vmem) sel4 \<Rightarrow> fs_session \<Rightarrow> ('k, unit) ld_op" where
  "disconnect_fs call K fs =
     bnd (expect (with_fs (conn_close (call (fs_ep fs))))) (\<lambda>_.
     bnd (expect (with_rs (conn_destroy (call SMOS_RootServerEP) K (fs_hndl fs) (fs_ep fs)))) (\<lambda>_.
     bnd (expect (with_rs (unview (call SMOS_RootServerEP) (fs_view fs)))) (\<lambda>_.
     bnd (expect (with_rs (obj_destroy (call SMOS_RootServerEP) K (fs_obj fs)))) (\<lambda>_.
     bnd (expect (with_rs (window_destroy (call SMOS_RootServerEP) K (fs_win fs)))) (\<lambda>_. ret ())))))"

text \<open>Everything up to the jump: the entry point and the stack pointer.\<close>

definition load_program ::
  "'k ld_call \<Rightarrow> ('k \<times> vmem) sel4 \<Rightarrow> (u8 list \<Rightarrow> elf_file option) \<Rightarrow> runtime \<Rightarrow> ('k, u64 \<times> nat) ld_op" where
  "load_program call K parse rt =
     bnd (expect (\<lambda>s. (args_collect (ld_mem s) rt, s))) (\<lambda>args.
     bnd (ensure (2 \<le> length args)) (\<lambda>_.
     bnd (connect_fs call (args ! 1)) (\<lambda>fs.
     bnd (map_elf call parse fs (args ! 0)) (\<lambda>(es, elf).
     bnd (lift (unwrap (elf_segments elf))) (\<lambda>segments.
     bnd (load_all_segments call segments) (\<lambda>mapped.
     bnd (for_each (remap_segment call) mapped) (\<lambda>_.
     bnd (map_stack call) (\<lambda>_.
     bnd (in_memory (write_stack rt (drop 2 args))) (\<lambda>sp.
     bnd (close_elf call K fs es) (\<lambda>_.
     bnd (disconnect_fs call K fs) (\<lambda>_.
     ret (elf_entry elf, sp))))))))))))"

text \<open>\<open>load_complete\<close> does not return: the thread goes on in the program.\<close>

definition loader_main ::
  "'k ld_call \<Rightarrow> ('k \<times> vmem) sel4 \<Rightarrow> (u8 list \<Rightarrow> elf_file option) \<Rightarrow> runtime \<Rightarrow> ('k, unit) ld_op" where
  "loader_main call K parse rt =
     bnd (load_program call K parse rt) (\<lambda>(entry, sp).
     bnd (expect (with_rs (load_complete (call SMOS_RootServerEP) entry (of_nat sp)))) (\<lambda>_. panic))"

end
