(* ===== verification/Loader_Facts.thy ===== *)
theory Loader_Facts
  imports Loader
begin

text \<open>
  The stack the loader writes is the one the runtime of the new program reads; what the loader's
  windows cover; and the capability slots it has given back when it jumps.
\<close>

section \<open>Memory\<close>

definition within :: "nat \<Rightarrow> nat \<Rightarrow> vmem \<Rightarrow> vmem \<Rightarrow> bool" where
  "within lo hi m m' \<longleftrightarrow> (\<forall>x. x < lo \<or> hi \<le> x \<longrightarrow> m' x = m x)"

definition holds :: "vmem \<Rightarrow> nat \<Rightarrow> u8 list \<Rightarrow> bool" where
  "holds m a bs \<longleftrightarrow> mem_read m a (length bs) = bs"

lemma length_mem_read [simp]: "length (mem_read m a n) = n"
  by (simp add: mem_read_def)

lemma holds_nth: "holds m a bs \<longleftrightarrow> (\<forall>i<length bs. m (a + i) = bs ! i)"
  unfolding holds_def mem_read_def list_eq_iff_nth_eq by simp

lemma mem_write_within: "within a (a + length bs) m (mem_write a bs m)"
  by (simp add: within_def mem_write_def)

lemma mem_write_holds: "holds (mem_write a bs m) a bs"
  by (simp add: holds_nth mem_write_def)

lemma within_trans: "within b c m m' \<Longrightarrow> within a b m' m'' \<Longrightarrow> a \<le> b \<Longrightarrow> b \<le> c \<Longrightarrow> within a c m m''"
  by (auto simp: within_def)

lemma within_mono: "within b c m m' \<Longrightarrow> a \<le> b \<Longrightarrow> c \<le> d \<Longrightarrow> within a d m m'"
  by (auto simp: within_def)

lemma holds_within: "holds m a bs \<Longrightarrow> within lo hi m m' \<Longrightarrow> hi \<le> a \<Longrightarrow> holds m' a bs"
  by (simp add: holds_nth within_def)

lemma holds_append: "holds m a (xs @ ys) \<longleftrightarrow> holds m a xs \<and> holds m (a + length xs) ys"
proof
  assume h: "holds m a (xs @ ys)"
  have "m (a + i) = xs ! i" if "i < length xs" for i
    using h that spec [of "\<lambda>i. i < length (xs @ ys) \<longrightarrow> m (a + i) = (xs @ ys) ! i" i] by (simp add: holds_nth nth_append)
  moreover have "m (a + length xs + i) = ys ! i" if "i < length ys" for i
    using h that spec [of "\<lambda>i. i < length (xs @ ys) \<longrightarrow> m (a + i) = (xs @ ys) ! i" "length xs + i"]
    by (simp add: holds_nth add.assoc)
  ultimately show "holds m a xs \<and> holds m (a + length xs) ys" by (simp add: holds_nth)
next
  assume h: "holds m a xs \<and> holds m (a + length xs) ys"
  have "m (a + i) = (xs @ ys) ! i" if i: "i < length xs + length ys" for i
  proof (cases "i < length xs")
    case False
    then obtain j where "i = length xs + j" "j < length ys" using i by (metis add_diff_inverse_nat nat_add_left_cancel_less)
    then show ?thesis using h by (simp add: holds_nth add.assoc)
  qed (use h in \<open>simp add: holds_nth nth_append\<close>)
  then show "holds m a (xs @ ys)" by (simp add: holds_nth)
qed

text \<open>Little-endian words.\<close>

lemma word_of_bytes_upt:
  "word_of_bytes (List.map (\<lambda>i. ucast (drop_bit (8 * i) w) :: u8) [k..<k + n]) = take_bit (8 * n) (drop_bit (8 * k) (w :: 'a :: len word))"
proof (induction n arbitrary: k)
  case 0
  show ?case by (simp add: word_of_bytes_def)
next
  case (Suc n)
  have "[k..<k + Suc n] = k # [Suc k..<Suc k + n]" by (simp add: upt_conv_Cons)
  then have "word_of_bytes (List.map (\<lambda>i. ucast (drop_bit (8 * i) w) :: u8) [k..<k + Suc n])
      = ucast (ucast (drop_bit (8 * k) w) :: u8) OR push_bit 8 (take_bit (8 * n) (drop_bit (8 * Suc k) w))"
    using Suc.IH [of "Suc k"] by (simp add: word_of_bytes_def)
  also have "\<dots> = take_bit (8 * Suc n) (drop_bit (8 * k) w)"
    by (rule bit_word_eqI) (auto simp: bit_simps not_less)
  finally show ?case .
qed

lemma length_word_bytes [simp]: "length (bytes_of_u64 w) = 8" "length (bytes_of_u32 v) = 4"
  by (simp_all add: bytes_of_u64_def bytes_of_u32_def)

lemma take_all_bits: "take_bit 64 (w :: u64) = w" "take_bit 32 (v :: u32) = v"
  by (rule bit_word_eqI, simp add: bit_simps)+

lemma mem_u64_holds: "holds m a (bytes_of_u64 w) \<Longrightarrow> mem_u64 m a = w"
  using word_of_bytes_upt [of w 0 8] by (simp add: holds_def mem_u64_def bytes_of_u64_def take_all_bits)

lemma mem_u32_holds: "holds m a (bytes_of_u32 w) \<Longrightarrow> mem_u32 m a = w"
  using word_of_bytes_upt [of w 0 4] by (simp add: holds_def mem_u32_def bytes_of_u32_def take_all_bits)

lemma unat_u64: "n < 2 ^ 64 \<Longrightarrow> unat (of_nat n :: u64) = n"
  by (simp add: unsigned_of_nat take_bit_nat_eq_self)

abbreviation words :: "u64 list \<Rightarrow> u8 list" where
  "words ws \<equiv> concat (List.map bytes_of_u64 ws)"

lemma length_words [simp]: "length (words ws) = 8 * length ws"
  by (induction ws) simp_all

lemma mem_u64_words: "holds m a (words ws) \<Longrightarrow> i < length ws \<Longrightarrow> mem_u64 m (a + i * 8) = ws ! i"
proof (induction ws arbitrary: a i)
  case (Cons w ws)
  then have h: "holds m a (bytes_of_u64 w)" "holds m (a + 8) (words ws)" by (simp_all add: holds_append)
  show ?case
  proof (cases i)
    case 0
    then show ?thesis using mem_u64_holds [OF h(1)] by simp
  next
    case (Suc j)
    then show ?thesis using Cons.IH [OF h(2), of j] Cons.prems(2) by (simp add: algebra_simps)
  qed
qed simp

section \<open>Writing the stack\<close>

lemma push_bytes_run:
  assumes "length bs \<le> sp"
  shows "\<exists>m'. push_bytes sp bs m = (Ok (sp - length bs), m') \<and> within (sp - length bs) sp m m' \<and> holds m' (sp - length bs) bs"
proof (intro exI conjI)
  show "push_bytes sp bs m = (Ok (sp - length bs), mem_write (sp - length bs) bs m)"
    using assms by (simp add: push_bytes_def bnd_def lift_def sub_us_def modify_def ret_def)
  show "within (sp - length bs) sp m (mem_write (sp - length bs) bs m)"
    using mem_write_within [of "sp - length bs" bs m] assms by simp
qed (rule mem_write_holds)

lemma push_u64s_run:
  assumes "8 * length ws \<le> sp"
  shows "\<exists>m'. push_u64s sp ws m = (Ok (sp - 8 * length ws), m') \<and> within (sp - 8 * length ws) sp m m' \<and>
    holds m' (sp - 8 * length ws) (words ws)"
  using push_bytes_run [of "words ws" sp m] assms by (simp add: push_u64s_def)

lemma push_terminated_run:
  assumes "length a + 1 \<le> sp"
  shows "push_terminated sp a m = (Ok (sp - (length a + 1)), mem_write (sp - (length a + 1)) (a @ [0]) m)"
  using assms by (simp add: push_terminated_def bnd_def lift_def sub_us_def gets_def modify_def ret_def expect_def
      on_err_def copy_terminated_rust_string_to_buffer_def)

definition strings_len :: "rust_str list \<Rightarrow> nat" where
  "strings_len args = (\<Sum>a\<leftarrow>args. length a + 1)"

definition placed :: "vmem \<Rightarrow> nat \<Rightarrow> nat \<Rightarrow> u64 \<Rightarrow> rust_str \<Rightarrow> bool" where
  "placed m lo hi p a \<longleftrightarrow> lo \<le> unat p \<and> unat p + length a < hi \<and> holds m (unat p) (a @ [0])"

lemma push_all_args_run:
  assumes "strings_len args \<le> sp" and "sp < 2 ^ 64"
  shows "\<exists>ptrs m'. (push_all_args sp args argv m :: ('e, nat \<times> u64 list) outcome \<times> vmem) = (Ok (sp - strings_len args, argv @ ptrs), m') \<and>
    within (sp - strings_len args) sp m m' \<and> list_all2 (placed m' (sp - strings_len args) sp) ptrs args"
  using assms
proof (induction args arbitrary: sp argv m)
  case Nil
  show ?case by (auto simp: ret_def within_def strings_len_def)
next
  case (Cons a args)
  let ?sp = "sp - (length a + 1)" let ?m = "mem_write ?sp (a @ [0]) m"
  have len: "strings_len (a # args) = length a + 1 + strings_len args" by (simp add: strings_len_def)
  have le: "length a + 1 \<le> sp" "strings_len args \<le> ?sp" "?sp < 2 ^ 64" using Cons.prems len by simp_all
  obtain ptrs m' where IH: "(push_all_args ?sp args (argv @ [of_nat ?sp]) ?m :: ('e, nat \<times> u64 list) outcome \<times> vmem) = (Ok (?sp - strings_len args, (argv @ [of_nat ?sp]) @ ptrs), m')"
    "within (?sp - strings_len args) ?sp ?m m'" "list_all2 (placed m' (?sp - strings_len args) ?sp) ptrs args"
    using Cons.IH [OF le(2,3)] by blast
  have eq: "?sp - strings_len args = sp - strings_len (a # args)" using len by simp
  have w: "within ?sp sp m ?m" using mem_write_within [of ?sp "a @ [0]" m] le(1) by simp
  have run: "(push_all_args sp (a # args) argv m :: ('e, nat \<times> u64 list) outcome \<times> vmem) = (Ok (sp - strings_len (a # args), argv @ (of_nat ?sp # ptrs)), m')"
    using IH(1) eq by (simp add: bnd_run(1) [OF push_terminated_run [OF le(1)]])
  have n: "unat (of_nat ?sp :: u64) = ?sp" by (rule unat_u64 [OF le(3)])
  have "holds m' ?sp (a @ [0])" by (rule holds_within [OF mem_write_holds IH(2)]) simp
  then have "placed m' (sp - strings_len (a # args)) sp (of_nat ?sp) a"
    unfolding placed_def n using le eq by auto
  moreover have "list_all2 (placed m' (sp - strings_len (a # args)) sp) ptrs args"
    by (rule list_all2_mono [OF IH(3)]) (use eq le(1) in \<open>auto simp: placed_def\<close>)
  moreover have "within (sp - strings_len (a # args)) sp m m'"
    by (rule within_trans [OF w]) (use IH(2) eq in simp_all)
  ultimately show ?case using run by (intro exI [of _ "of_nat ?sp # ptrs"] exI [of _ m']) simp
qed

definition BOTTOM :: nat where [const_defs]: "BOTTOM = LOADER_STACK_TOP - LOADER_STACK_PAGES * PAGE_SIZE_4K"

text \<open>The loader's own environment: the two values it passes on, which do not lie on the new stack.\<close>

definition loader_env :: "runtime \<Rightarrow> vmem \<Rightarrow> nat \<Rightarrow> nat \<Rightarrow> bool" where
  "loader_env rt m ipc shared \<longleftrightarrow> ipc < 2 ^ 64 \<and> shared < 2 ^ 64 \<and>
     (\<forall>m'. within BOTTOM LOADER_STACK_TOP m m' \<longrightarrow>
        ipc_buffer m' rt = (Ok ipc :: (unit, nat) outcome) \<and> rs_shared_buf m' rt = (Ok shared :: (unit, nat) outcome))"

text \<open>What the environment occupies: the three values from the top down, and the array below them.\<close>

definition envp_words :: "nat \<Rightarrow> nat \<Rightarrow> u64 list" where
  "envp_words ipc shared =
     [of_nat (LOADER_STACK_TOP - 8), of_nat (LOADER_STACK_TOP - 16), of_nat (LOADER_STACK_TOP - 24), 0,
      of_nat shared, of_nat ipc, of_nat LOADER_STACK_TOP]"

lemma push_envp_run:
  assumes env: "loader_env rt m ipc shared"
  shows "\<exists>m'. (push_envp rt m :: (unit, nat) outcome \<times> vmem) = (Ok (LOADER_STACK_TOP - 56), m') \<and>
    within (LOADER_STACK_TOP - 56) LOADER_STACK_TOP m m' \<and> holds m' (LOADER_STACK_TOP - 56) (words (envp_words ipc shared))"
proof -
  let ?T = LOADER_STACK_TOP
  have T: "?T = 0xA0000000" "BOTTOM = 0xA0000000 - 409600" by (simp_all add: const_defs BIT_def)
  obtain m1 where m1: "(push_u64s ?T [0xA0000000] m :: (unit, nat) outcome \<times> vmem) = (Ok (?T - 8), m1)"
    "within (?T - 8) ?T m m1" "holds m1 (?T - 8) (words [0xA0000000])"
    using push_u64s_run [of "[0xA0000000]" ?T m] by (auto simp: T)
  have e1: "ipc_buffer m1 rt = (Ok ipc :: (unit, nat) outcome)"
    using env within_mono [OF m1(2), of BOTTOM ?T] by (simp add: loader_env_def T)
  obtain m2 where m2: "(push_u64s (?T - 8) [of_nat ipc] m1 :: (unit, nat) outcome \<times> vmem) = (Ok (?T - 16), m2)"
    "within (?T - 16) (?T - 8) m1 m2" "holds m2 (?T - 16) (words [of_nat ipc])"
    using push_u64s_run [of "[of_nat ipc]" "?T - 8" "m1"] by (auto simp: T)
  have w2: "within (?T - 16) ?T m m2" by (rule within_trans [OF m1(2) m2(2)]) (simp_all add: T)
  have e2: "rs_shared_buf m2 rt = (Ok shared :: (unit, nat) outcome)"
    using env within_mono [OF w2, of BOTTOM ?T] by (simp add: loader_env_def T)
  obtain m3 where m3: "(push_u64s (?T - 16) [of_nat shared] m2 :: (unit, nat) outcome \<times> vmem) = (Ok (?T - 24), m3)"
    "within (?T - 24) (?T - 16) m2 m3" "holds m3 (?T - 24) (words [of_nat shared])"
    using push_u64s_run [of "[of_nat shared]" "?T - 16" m2] by (auto simp: T)
  have w3: "within (?T - 24) ?T m m3" by (rule within_trans [OF w2 m3(2)]) (simp_all add: T)
  let ?ps = "[of_nat (?T - 8), of_nat (?T - 16), of_nat (?T - 24), 0] :: u64 list"
  obtain m4 where m4: "(push_u64s (?T - 24) ?ps m3 :: (unit, nat) outcome \<times> vmem) = (Ok (?T - 56), m4)"
    "within (?T - 56) (?T - 24) m3 m4" "holds m4 (?T - 56) (words ?ps)"
    using push_u64s_run [of ?ps "?T - 24" m3] by (auto simp: T)
  have w4: "within (?T - 56) ?T m m4" by (rule within_trans [OF w3 m4(2)]) (simp_all add: T)
  have "holds m4 (?T - 24) (words [of_nat shared])" by (rule holds_within [OF m3(3) m4(2)]) simp
  moreover have "holds m4 (?T - 16) (words [of_nat ipc])"
    by (rule holds_within [OF holds_within [OF m2(3) m3(2)] m4(2)]) (simp_all add: T)
  moreover have "holds m4 (?T - 8) (words [0xA0000000])"
    by (rule holds_within [OF holds_within [OF holds_within [OF m1(3) m2(2)] m3(2)] m4(2)]) (simp_all add: T)
  ultimately have "holds m4 (?T - 56) (words (envp_words ipc shared))"
    using m4(3) by (simp add: envp_words_def holds_append T)
  moreover have "(push_envp rt m :: (unit, nat) outcome \<times> vmem) = (Ok (?T - 56), m4)"
    unfolding push_envp_def using m1(1) e1 m2(1) e2 m3(1) m4(1) by (simp add: bnd_def)
  ultimately show ?thesis using w4 by blast
qed

lemma push_argv_run:
  assumes "strings_len args + 8 * length args + 8 \<le> sp" and "sp < 2 ^ 64"
  shows "\<exists>sp' argv_ptr argv m'. (push_argv sp args m :: ('e, nat \<times> nat \<times> u64 list) outcome \<times> vmem) = (Ok (sp', argv_ptr, argv), m') \<and>
    sp - (strings_len args + 8 * length args + 7) \<le> sp' \<and> sp' \<le> sp \<and> within sp' sp m m' \<and>
    list_all2 (placed m' sp' sp) argv args \<and> argv_ptr \<le> sp \<and> (args \<noteq> [] \<longrightarrow> argv_ptr = sp' \<and> holds m' sp' (words argv))"
proof (cases "args = []")
  case True
  then show ?thesis by (simp add: push_argv_def ret_def within_def strings_len_def)
next
  case False
  let ?sp1 = "sp - strings_len args"
  obtain argv m1 where m1: "(push_all_args sp args [] m :: ('e, nat \<times> u64 list) outcome \<times> vmem) = (Ok (?sp1, argv), m1)"
    "within ?sp1 sp m m1" "list_all2 (placed m1 ?sp1 sp) argv args"
    using push_all_args_run [of args sp "[]" m] assms by auto
  let ?sp2 = "?sp1 - ?sp1 mod 8" let ?sp3 = "?sp2 - 8 * length argv"
  have n: "length argv = length args" using m1(3) by (rule list_all2_lengthD)
  have mod: "?sp1 mod 8 < 8" by simp
  have le: "8 * length argv \<le> ?sp2" using assms(1) n mod by linarith
  obtain m2 where m2: "(push_u64s ?sp2 argv m1 :: ('e, nat) outcome \<times> vmem) = (Ok ?sp3, m2)"
    "within ?sp3 ?sp2 m1 m2" "holds m2 ?sp3 (words argv)"
    using push_u64s_run [OF le, of m1] by blast
  have w: "within ?sp3 sp m m2"
    by (rule within_trans [OF m1(2) within_mono [OF m2(2)]]) simp_all
  have "list_all2 (placed m2 ?sp3 sp) argv args"
    by (rule list_all2_mono [OF m1(3)]) (use holds_within [OF _ m2(2)] in \<open>auto simp: placed_def\<close>)
  moreover have "(push_argv sp args m :: ('e, nat \<times> nat \<times> u64 list) outcome \<times> vmem) = (Ok (?sp3, ?sp3, argv), m2)"
    using False m1(1) m2(1) by (simp add: push_argv_def bnd_def ret_def)
  moreover have "sp - (strings_len args + 8 * length args + 7) \<le> ?sp3" using n mod by linarith
  ultimately show ?thesis using w m2(3)
    by (intro exI [of _ ?sp3] exI [of _ argv] exI [of _ m2]) simp
qed

section \<open>Reading it back\<close>

lemma env_nth_run:
  assumes "ei_index e + n < ei_size e" and "ei_size e \<le> length (ei_inner e)"
  shows "env_nth m n e = Ok (Some (mem_u64 m (unat (ei_inner e ! (ei_index e + n)))))"
  using assms by (induction m n e rule: env_nth.induct) (auto simp: env_next_def at_index_def)

lemma env_value_run:
  assumes "rt_env rt = Some e" and "ei_index e = 0" and "n < ei_size e" and "ei_size e \<le> length (ei_inner e)"
  shows "env_value m rt n = Ok (unat (mem_u64 m (unat (ei_inner e ! n))))"
  using assms by (simp add: env_value_def env_nth_run)

lemma init_env_run:
  assumes h: "holds m envp (words (ps @ [0]))" and n: "length ps < 32" "ENVP_MIN_SIZE \<le> length ps" and nz: "0 \<notin> set ps"
  shows "init_env m envp = Ok \<lparr>ei_inner = ps @ replicate (32 - length ps) 0, ei_size = length ps, ei_index = 0\<rparr>"
proof -
  have "init_env_loop m envp i (take i ps @ replicate (32 - i) 0) = (ps @ replicate (32 - length ps) 0, length ps)"
    if "i \<le> length ps" for i
    using that
  proof (induction "length ps - i" arbitrary: i)
    case 0
    then have i: "i = length ps" by simp
    have "mem_u64 m (envp + i * 8) = 0" using mem_u64_words [OF h, of i] i by simp
    moreover have "(ps @ replicate (32 - i) 0)[i := 0 :: u64] = ps @ replicate (32 - i) 0"
      using n(1) i by (simp add: list_update_append list_update_same_conv nth_append)
    ultimately show ?case using i n(1) by (subst init_env_loop.simps) (simp add: Let_def)
  next
    case (Suc k)
    then have i: "i < length ps" by simp
    have w: "mem_u64 m (envp + i * 8) = ps ! i" using mem_u64_words [OF h, of i] i by (simp add: nth_append)
    have nz: "ps ! i \<noteq> 0" using nz i by (metis nth_mem)
    have "32 - i = Suc (32 - Suc i)" using i n(1) by simp
    then have "(take i ps @ replicate (32 - i) 0)[i := ps ! i] = take (Suc i) ps @ replicate (32 - Suc i) 0"
      using i by (simp add: list_update_append take_Suc_conv_app_nth)
    then show ?case using Suc.hyps(1) [of "Suc i"] Suc.hyps(2) i w nz n(1)
      by (subst init_env_loop.simps) (simp add: Let_def)
  qed
  from this [of 0] show ?thesis using n(2) by (simp add: init_env_def)
qed

lemma init_args_run:
  assumes "length ps \<le> 32" and "ps \<noteq> [] \<Longrightarrow> holds m argv (words ps)"
  shows "init_args m (length ps) argv = Ok \<lparr>ai_inner = ps @ replicate (32 - length ps) 0, ai_size = length ps, ai_index = 0\<rparr>"
proof (cases "ps = []")
  case False
  have "List.map (\<lambda>i. mem_u64 m (argv + i * 8)) [0..<length ps] = ps"
    by (rule nth_equalityI) (simp_all add: mem_u64_words [OF assms(2) [OF False]])
  then show ?thesis using assms(1) False by (simp add: init_args_def)
qed (simp add: init_args_def)

lemma mem_read_prefix:
  assumes "holds m a bs" and "length bs \<le> n"
  shows "mem_read m a n = bs @ mem_read m (a + length bs) (n - length bs)"
proof -
  have "[a..<a + n] = [a..<a + length bs] @ [a + length bs..<a + n]" using upt_add_eq_append [of a "a + length bs" "n - length bs"] assms(2) by simp
  then show ?thesis using assms by (simp add: holds_def mem_read_def)
qed

lemma args_next_run:
  assumes st: "stack_top m rt = (Ok T :: (unit, nat) outcome)" and p: "placed m lo hi (ai_inner a ! ai_index a) s" and "hi \<le> T" and "c_str s"
    and i: "ai_index a < ai_size a" "ai_size a \<le> length (ai_inner a)"
  shows "args_next m rt a = (Ok (Some s, a\<lparr>ai_index := Suc (ai_index a)\<rparr>) :: (unit, _) outcome)"
proof -
  let ?p = "ai_inner a ! ai_index a"
  have len: "length (s @ [0]) \<le> T - unat ?p" "unat ?p \<le> T" using p assms(3) unfolding placed_def by auto
  have "holds m (unat ?p) (s @ [0])" using p by (simp add: placed_def)
  from mem_read_prefix [OF this len(1)] obtain rest where "mem_read m (unat ?p) (T - unat ?p) = s @ 0 # rest" by simp
  then have "rust_str_from_buffer (mem_read m (unat ?p) (T - unat ?p)) = Ok (s, rest)"
    using rust_str_from_buffer_nul [OF assms(4)] by simp
  then show ?thesis using st i len(2) by (simp add: args_next_def at_index_def sub_us_def)
qed

lemma args_rest_run:
  assumes st: "stack_top m rt = (Ok T :: (unit, nat) outcome)" and p: "list_all2 (placed m lo hi) ps args" and hT: "hi \<le> T" and c: "\<forall>s\<in>set args. c_str s"
    and k: "k \<le> length ps"
  shows "args_rest m rt \<lparr>ai_inner = ps @ r, ai_size = length ps, ai_index = k\<rparr> = Ok (drop k args)"
  using k
proof (induction "length ps - k" arbitrary: k)
  case 0
  then show ?case using list_all2_lengthD [OF p] by (subst args_rest.simps) (simp add: args_next_def)
next
  case (Suc n)
  let ?a = "\<lparr>ai_inner = ps @ r, ai_size = length ps, ai_index = k\<rparr>"
  have k: "k < length ps" using Suc.hyps(2) by simp
  have pk: "placed m lo hi (ai_inner ?a ! ai_index ?a) (args ! k)" using list_all2_nthD [OF p k] k by (simp add: nth_append)
  have "k < length args" using list_all2_lengthD [OF p] k by simp
  then have d: "drop k args = args ! k # drop (Suc k) args" and c': "c_str (args ! k)" using c by (simp_all add: Cons_nth_drop_Suc)
  have "args_next m rt ?a = (Ok (Some (args ! k), ?a\<lparr>ai_index := Suc k\<rparr>) :: (unit, rust_str option \<times> ArgsInner) outcome)"
    using args_next_run [OF st pk hT c'] k by simp
  then show ?case using Suc.hyps(1) [of "Suc k"] Suc.hyps(2) k d by (subst args_rest.simps) simp
qed

text \<open>The whole way: what the loader pushes is what the new program's runtime finds.\<close>

lemma write_stack_run:
  assumes n: "length args < 2 ^ 32" and room: "strings_len args + 8 * length args + 100 \<le> 409600"
    and env: "loader_env rt m ipc shared"
  shows "\<exists>sp m' argv_ptr argv sp'. (write_stack rt args m :: (unit, nat) outcome \<times> vmem) = (Ok sp, m') \<and> within BOTTOM LOADER_STACK_TOP m m' \<and>
    BOTTOM \<le> sp \<and> holds m' (LOADER_STACK_TOP - 56) (words (envp_words ipc shared)) \<and>
    list_all2 (placed m' sp' (LOADER_STACK_TOP - 56)) argv args \<and> argv_ptr < 2 ^ 64 \<and>
    (args \<noteq> [] \<longrightarrow> holds m' argv_ptr (words argv)) \<and> mem_u32 m' sp = of_nat (length args) \<and>
    mem_u64 m' (sp + 4) = of_nat argv_ptr \<and> mem_u64 m' (sp + 12) = of_nat (LOADER_STACK_TOP - 56)"
proof -
  let ?T = LOADER_STACK_TOP let ?E = "?T - 56"
  have T: "?T = 0xA0000000" "BOTTOM = 0xA0000000 - 409600" by (simp_all add: const_defs BIT_def)
  obtain m1 where m1: "(push_envp rt m :: (unit, nat) outcome \<times> vmem) = (Ok ?E, m1)" "within ?E ?T m m1"
    "holds m1 ?E (words (envp_words ipc shared))" using push_envp_run [OF env] by blast
  have "strings_len args + 8 * length args + 8 \<le> ?E" "?E < 2 ^ 64" using room by (simp_all add: T)
  from push_argv_run [OF this, of m1] obtain sp' argv_ptr argv m2 where
    m2: "(push_argv ?E args m1 :: (unit, nat \<times> nat \<times> u64 list) outcome \<times> vmem) = (Ok (sp', argv_ptr, argv), m2)"
    "?E - (strings_len args + 8 * length args + 7) \<le> sp'" "sp' \<le> ?E" "within sp' ?E m1 m2"
    "list_all2 (placed m2 sp' ?E) argv args" "argv_ptr \<le> ?E" "args \<noteq> [] \<Longrightarrow> argv_ptr = sp' \<and> holds m2 sp' (words argv)" by auto
  have sp: "BOTTOM + 20 \<le> sp'" "100 \<le> sp'" using m2(2) room by (simp_all add: T)
  have le8: "8 \<le> sp' - 8" and le4: "4 \<le> sp' - 16" using sp(2) by simp_all
  have ln: "length argv = length args" using list_all2_lengthD [OF m2(5)] .
  obtain m3 where m3: "(push_u64s sp' [of_nat ?E] m2 :: (unit, nat) outcome \<times> vmem) = (Ok (sp' - 8), m3)"
    "within (sp' - 8) sp' m2 m3" "holds m3 (sp' - 8) (words [of_nat ?E])"
    using push_u64s_run [of "[of_nat ?E]" sp' m2] sp by auto
  obtain m4 where m4: "(push_u64s (sp' - 8) [of_nat argv_ptr] m3 :: (unit, nat) outcome \<times> vmem) = (Ok (sp' - 16), m4)"
    "within (sp' - 16) (sp' - 8) m3 m4" "holds m4 (sp' - 16) (words [of_nat argv_ptr])"
    using push_u64s_run [of "[of_nat argv_ptr]" "sp' - 8" m3] le8 by auto
  let ?argc = "bytes_of_u32 (of_nat (length argv))"
  obtain m5 where m5: "(push_bytes (sp' - 16) ?argc m4 :: (unit, nat) outcome \<times> vmem) = (Ok (sp' - 20), m5)"
    "within (sp' - 20) (sp' - 16) m4 m5" "holds m5 (sp' - 20) ?argc"
    using push_bytes_run [of ?argc "sp' - 16" m4] le4 by auto
  have w5: "within (sp' - 20) sp' m2 m5"
    by (rule within_trans [OF within_trans [OF m3(2) m4(2)] m5(2)]) simp_all
  have w25: "within (sp' - 20) ?E m1 m5" by (rule within_trans [OF m2(4) w5]) (use m2(3) in simp_all)
  have w: "within (sp' - 20) ?T m m5" by (rule within_trans [OF m1(2) w25]) (use m2(3) in simp_all)
  have run: "(write_stack rt args m :: (unit, nat) outcome \<times> vmem) = (Ok (sp' - 20), m5)"
    unfolding write_stack_def using m1(1) m2(1) m3(1) m4(1) m5(1) n ln by (simp add: bnd_def ensure_def ret_def)
  have env5: "holds m5 ?E (words (envp_words ipc shared))"
    by (rule holds_within [OF m1(3) w25]) simp
  have pl: "list_all2 (placed m5 sp' ?E) argv args"
    by (rule list_all2_mono [OF m2(5)]) (use holds_within [OF _ w5] in \<open>auto simp: placed_def\<close>)
  have av: "args \<noteq> [] \<longrightarrow> holds m5 argv_ptr (words argv)"
    using m2(7) holds_within [OF _ w5] by auto
  have a4: "holds m5 (sp' - 16) (words [of_nat argv_ptr])" by (rule holds_within [OF m4(3) m5(2)]) simp
  have a3: "holds m5 (sp' - 8) (words [of_nat ?E])"
    by (rule holds_within [OF holds_within [OF m3(3) m4(2)] m5(2)]) simp_all
  have pos: "sp' - 20 + 4 = sp' - 16" "sp' - 20 + 12 = sp' - 8" using sp by simp_all
  have "mem_u64 m5 (sp' - 20 + 4) = of_nat argv_ptr" "mem_u64 m5 (sp' - 20 + 12) = of_nat ?E"
    using mem_u64_words [OF a4, of 0] mem_u64_words [OF a3, of 0] unfolding pos by simp_all
  moreover have "mem_u32 m5 (sp' - 20) = of_nat (length args)" using mem_u32_holds [OF m5(3)] ln by simp
  moreover have "argv_ptr < 2 ^ 64" using m2(6) by (simp add: T)
  moreover have "within BOTTOM ?T m m5" by (rule within_mono [OF w]) (use sp in simp_all)
  moreover have "BOTTOM \<le> sp' - 20" using sp by simp
  ultimately show ?thesis using run env5 pl av by blast
qed

lemma runtime_env:
  assumes h: "holds m (LOADER_STACK_TOP - 56) (words (envp_words ipc shared))" and v: "ipc < 2 ^ 64" "shared < 2 ^ 64"
  obtains e where "(init_env m (LOADER_STACK_TOP - 56) :: (unit, EnvVarsInner) outcome) = Ok e"
    "(stack_top m \<lparr>rt_args = a, rt_env = Some e\<rparr> :: (unit, nat) outcome) = Ok LOADER_STACK_TOP"
    "(ipc_buffer m \<lparr>rt_args = a, rt_env = Some e\<rparr> :: (unit, nat) outcome) = Ok ipc"
    "(rs_shared_buf m \<lparr>rt_args = a, rt_env = Some e\<rparr> :: (unit, nat) outcome) = Ok shared"
proof -
  let ?T = LOADER_STACK_TOP
  let ?ps = "[of_nat (?T - 8), of_nat (?T - 16), of_nat (?T - 24)] :: u64 list"
  let ?e = "\<lparr>ei_inner = ?ps @ replicate 29 0, ei_size = 3, ei_index = 0\<rparr>"
  have T: "?T = 0xA0000000" by (simp add: const_defs)
  have "holds m (?T - 56) (words (?ps @ [0]))"
    using h holds_append [of m "?T - 56" "words (?ps @ [0])" "words [of_nat shared, of_nat ipc, of_nat ?T]"] by (simp add: envp_words_def)
  then have init: "(init_env m (?T - 56) :: (unit, EnvVarsInner) outcome) = Ok ?e"
    by (simp add: T const_defs init_env_run [where ps = ?ps, simplified T, simplified] numeral_3_eq_3)
  have ev: "(env_value m \<lparr>rt_args = a, rt_env = Some ?e\<rparr> n :: (unit, nat) outcome) = Ok (unat (mem_u64 m (unat (?ps ! n))))" if "n < 3" for n
    using that by (subst env_value_run [of _ ?e]) (auto simp: nth_append nth_Cons split: nat.splits)
  have rd: "mem_u64 m (?T - 24) = of_nat shared" "mem_u64 m (?T - 16) = of_nat ipc" "mem_u64 m (?T - 8) = of_nat ?T"
    using mem_u64_words [OF h, of 4] mem_u64_words [OF h, of 5] mem_u64_words [OF h, of 6] by (simp_all add: envp_words_def T)
  have p: "unat (?ps ! 0) = ?T - 8" "unat (?ps ! 1) = ?T - 16" "unat (?ps ! 2) = ?T - 24" by (simp_all add: T)
  have u: "unat (of_nat ?T :: u64) = ?T" by (simp add: T)
  show ?thesis
  proof (rule that [OF init])
    show "(stack_top m \<lparr>rt_args = a, rt_env = Some ?e\<rparr> :: (unit, nat) outcome) = Ok ?T"
      using ev [of 0] unfolding p rd u by (simp add: stack_top_def ENVP_STACK_TOP_def)
    show "(ipc_buffer m \<lparr>rt_args = a, rt_env = Some ?e\<rparr> :: (unit, nat) outcome) = Ok ipc"
      using ev [of 1] unfolding p rd unat_u64 [OF v(1)] by (simp add: ipc_buffer_def ENVP_IPC_BUFFER_def)
    show "(rs_shared_buf m \<lparr>rt_args = a, rt_env = Some ?e\<rparr> :: (unit, nat) outcome) = Ok shared"
      using ev [of 2] unfolding p rd unat_u64 [OF v(2)] by (simp add: rs_shared_buf_def ENVP_RS_SHARED_BUF_def)
  qed
qed

text \<open>C38: The program the loader starts reads back what the loader wrote.\<close>

theorem loader_arguments_delivered:
  assumes "length args \<le> 32" and "\<forall>a\<in>set args. c_str a"
    and "strings_len args + 8 * length args + 100 \<le> LOADER_STACK_PAGES * PAGE_SIZE_4K" and "loader_env rt m ipc shared"
  shows "\<exists>sp m' rt'. (write_stack rt args m :: (unit, nat) outcome \<times> vmem) = (Ok sp, m') \<and> within BOTTOM LOADER_STACK_TOP m m' \<and>
    BOTTOM \<le> sp \<and> (rt_start m' sp :: (unit, runtime) outcome) = Ok rt' \<and> args_collect m' rt' = Ok args \<and>
    (stack_top m' rt' :: (unit, nat) outcome) = Ok LOADER_STACK_TOP \<and> (ipc_buffer m' rt' :: (unit, nat) outcome) = Ok ipc \<and>
    (rs_shared_buf m' rt' :: (unit, nat) outcome) = Ok shared"
proof -
  have n: "length args < 2 ^ 32" and room: "strings_len args + 8 * length args + 100 \<le> 409600"
    using assms(1,3) by (simp_all add: const_defs BIT_def)
  from write_stack_run [OF n room assms(4)] obtain sp m' argv_ptr argv sp' where
    w: "(write_stack rt args m :: (unit, nat) outcome \<times> vmem) = (Ok sp, m')" "within BOTTOM LOADER_STACK_TOP m m'" "BOTTOM \<le> sp"
    and h: "holds m' (LOADER_STACK_TOP - 56) (words (envp_words ipc shared))"
    and pl: "list_all2 (placed m' sp' (LOADER_STACK_TOP - 56)) argv args" and av: "argv_ptr < 2 ^ 64" "args \<noteq> [] \<longrightarrow> holds m' argv_ptr (words argv)"
    and ld: "mem_u32 m' sp = of_nat (length args)" "mem_u64 m' (sp + 4) = of_nat argv_ptr" "mem_u64 m' (sp + 12) = of_nat (LOADER_STACK_TOP - 56)"
    by blast
  have ln: "length argv = length args" using list_all2_lengthD [OF pl] .
  let ?a = "\<lparr>ai_inner = argv @ replicate (32 - length argv) 0, ai_size = length argv, ai_index = 0\<rparr>"
  have a: "(init_args m' (length args) argv_ptr :: (unit, ArgsInner) outcome) = Ok ?a"
    using init_args_run [of argv m' argv_ptr] av(2) assms(1) ln by auto
  have v: "ipc < 2 ^ 64" "shared < 2 ^ 64" using assms(4) by (simp_all add: loader_env_def)
  obtain e where e: "(init_env m' (LOADER_STACK_TOP - 56) :: (unit, EnvVarsInner) outcome) = Ok e"
    "(stack_top m' \<lparr>rt_args = Some ?a, rt_env = Some e\<rparr> :: (unit, nat) outcome) = Ok LOADER_STACK_TOP"
    "(ipc_buffer m' \<lparr>rt_args = Some ?a, rt_env = Some e\<rparr> :: (unit, nat) outcome) = Ok ipc"
    "(rs_shared_buf m' \<lparr>rt_args = Some ?a, rt_env = Some e\<rparr> :: (unit, nat) outcome) = Ok shared"
    by (rule runtime_env [OF h v])
  let ?rt = "\<lparr>rt_args = Some ?a, rt_env = Some e\<rparr>"
  have u: "unat (of_nat (length args) :: u32) = length args" "unat (of_nat (LOADER_STACK_TOP - 56) :: u64) = LOADER_STACK_TOP - 56"
    using n by (simp_all add: unsigned_of_nat take_bit_nat_eq_self const_defs)
  have "(rt_start m' sp :: (unit, runtime) outcome) = Ok ?rt"
    unfolding rt_start_def ld u unat_u64 [OF av(1)] Let_def using a e(1) by simp
  moreover have "args_collect m' ?rt = Ok args"
    using args_rest_run [OF e(2) pl _ assms(2), of 0 "replicate (32 - length argv) 0"] by (simp add: args_collect_def)
  ultimately show ?thesis using w e by blast
qed

text \<open>A loader started by the root server, and its environment.\<close>

definition small_runtime :: runtime where
  "small_runtime = \<lparr>rt_args = None, rt_env = Some \<lparr>ei_inner = [0x8FFFFFF8, 0x8FFFFFF0, 0x8FFFFFE8] @ replicate 29 0, ei_size = 3, ei_index = 0\<rparr>\<rparr>"

definition small_vmem :: vmem where
  "small_vmem = mem_write 0x8FFFFFE8 (words [0xA0001000, 0xA0000000, 0x90000000]) (\<lambda>_. 0)"

lemma small_loader_env: "loader_env small_runtime small_vmem 0xA0000000 0xA0001000"
proof -
  have "ipc_buffer m' small_runtime = (Ok 0xA0000000 :: (unit, nat) outcome) \<and> rs_shared_buf m' small_runtime = (Ok 0xA0001000 :: (unit, nat) outcome)"
    if w: "within BOTTOM LOADER_STACK_TOP small_vmem m'" for m'
  proof -
    have "holds small_vmem 0x8FFFFFE8 (words [0xA0001000, 0xA0000000, 0x90000000])"
      unfolding small_vmem_def by (rule mem_write_holds)
    then have h: "holds m' 0x8FFFFFE8 (words [0xA0001000, 0xA0000000, 0x90000000])"
      using w by (simp only: holds_nth within_def) (simp add: const_defs BIT_def)
    have "mem_u64 m' 0x8FFFFFE8 = 0xA0001000" "mem_u64 m' 0x8FFFFFF0 = 0xA0000000"
      using mem_u64_words [OF h, of 0] mem_u64_words [OF h, of 1] by simp_all
    then show ?thesis
      using env_value_run [of small_runtime "the (rt_env small_runtime)" 1 m'] env_value_run [of small_runtime "the (rt_env small_runtime)" 2 m']
      by (simp add: ipc_buffer_def rs_shared_buf_def const_defs small_runtime_def)
  qed
  then show ?thesis by (simp add: loader_env_def)
qed

theorem loader_arguments_delivered_witness:
  "\<exists>sp m' rt'. (write_stack small_runtime [[97], [], [98, 99]] small_vmem :: (unit, nat) outcome \<times> vmem) = (Ok sp, m') \<and>
    (rt_start m' sp :: (unit, runtime) outcome) = Ok rt' \<and> args_collect m' rt' = Ok [[97], [], [98, 99]]"
proof -
  have "\<forall>a\<in>set [[97], [], [98, 99 :: u8]]. c_str a" by (simp add: c_str_def)
  from loader_arguments_delivered [OF _ this _ small_loader_env] show ?thesis
    by (simp add: strings_len_def const_defs BIT_def) blast
qed

text \<open>With more than 32 arguments the loader still writes the stack, and the new program panics before \<open>main\<close>.\<close>

lemma loader_arguments_too_many:
  assumes "32 < length args" and "length args < 2 ^ 32"
    and "strings_len args + 8 * length args + 100 \<le> LOADER_STACK_PAGES * PAGE_SIZE_4K" and "loader_env rt m ipc shared"
  shows "\<exists>sp m'. (write_stack rt args m :: (unit, nat) outcome \<times> vmem) = (Ok sp, m') \<and>
    (rt_start m' sp :: (unit, runtime) outcome) = Panic"
proof -
  have room: "strings_len args + 8 * length args + 100 \<le> 409600" using assms(3) by (simp add: const_defs BIT_def)
  from write_stack_run [OF assms(2) room assms(4)] obtain sp m' where
    w: "(write_stack rt args m :: (unit, nat) outcome \<times> vmem) = (Ok sp, m')" and argc: "mem_u32 m' sp = of_nat (length args)" by blast
  have "unat (mem_u32 m' sp) = length args" using argc assms(2) by (simp add: unsigned_of_nat take_bit_nat_eq_self)
  then have "(rt_start m' sp :: (unit, runtime) outcome) = Panic" using assms(1) by (auto simp: rt_start_def init_args_def Let_def)
  then show ?thesis using w by blast
qed

section \<open>The windows of the segments\<close>

text \<open>The window of a segment ends with the page its end lies in, also when that page is the next one.\<close>

lemma segment_window:
  assumes "(total_size segment :: ('e, nat) outcome) = Ok t"
  shows "ROUND_DOWN (ph_vaddr segment) seL4_PageBits + t = 4096 * ((ph_vaddr segment + ph_memsz segment) div 4096 + 1)"
proof -
  let ?v = "ph_vaddr segment" and ?m = "ph_memsz segment"
  have t: "t = ?m + ?v mod 4096 + (4096 - (?v + ?m) mod 4096)"
    using assms by (auto simp: total_size_def obind_eq_Ok add_us_eq_Ok const_defs BIT_def)
  have "?v mod 4096 \<le> ?v" "(?v + ?m) mod 4096 \<le> 4096" by simp_all
  then have "?v - ?v mod 4096 + t + (?v + ?m) mod 4096 = ?v + ?m + 4096" unfolding t by linarith
  moreover have "4096 * ((?v + ?m) div 4096) + (?v + ?m) mod 4096 = ?v + ?m" by (rule mult_div_mod_eq)
  ultimately have "?v - ?v mod 4096 + t = 4096 * ((?v + ?m) div 4096) + 4096" by linarith
  then show ?thesis by (simp add: ROUND_DOWN_eq const_defs)
qed

text \<open>C40: A segment that ends on a page boundary gets a window with the page after it, so a segment that starts there
  is taken to overlap it, by the root server's check of a new window and by its own ELF loader.\<close>

theorem adjacent_segments_collide:
  assumes "(total_size a :: (unit, nat) outcome) = Ok t" and "4096 dvd ph_vaddr b" and "ph_vaddr b = ph_vaddr a + ph_memsz a"
    and "ph_vaddr b + 4096 < usize_lim"
  shows "overlaps (ROUND_DOWN (ph_vaddr b) seL4_PageBits) sz
      \<lparr>w_start = ROUND_DOWN (ph_vaddr a) seL4_PageBits, w_size = t, w_view = x\<rparr> = (Ok True :: (unit, bool) outcome) \<and>
    elf_overlaps (ph_vaddr b) (ph_memsz b)
      \<lparr>w_start = ROUND_DOWN (ph_vaddr a) seL4_PageBits, w_size = t, w_view = x\<rparr> = (Ok True :: (unit, bool) outcome)"
proof -
  obtain k where k: "ph_vaddr b = 4096 * k" using assms(2) by (elim dvdE)
  have e: "ROUND_DOWN (ph_vaddr a) seL4_PageBits + t = ph_vaddr b + 4096"
    using segment_window [OF assms(1)] unfolding assms(3) [symmetric] k by simp
  have s: "ROUND_DOWN (ph_vaddr a) seL4_PageBits \<le> ph_vaddr b" using ROUND_DOWN_le [of "ph_vaddr a" seL4_PageBits] assms(3) by linarith
  have r: "ROUND_DOWN (ph_vaddr b) seL4_PageBits = ph_vaddr b" unfolding k by (simp add: ROUND_DOWN_eq const_defs)
  have a: "add_us (ROUND_DOWN (ph_vaddr a) seL4_PageBits) t = (Ok (ph_vaddr b + 4096) :: (unit, nat) outcome)"
    using e assms(4) by (simp add: add_us_def)
  show ?thesis unfolding r using s by (simp add: overlaps_def elf_overlaps_def a)
qed

text \<open>Two segments of one page each.\<close>

theorem adjacent_segments_collide_witness:
  "overlaps (ROUND_DOWN 0x401000 seL4_PageBits) 8192 \<lparr>w_start = ROUND_DOWN 0x400000 seL4_PageBits, w_size = 8192, w_view = None\<rparr>
    = (Ok True :: (unit, bool) outcome)"
  using adjacent_segments_collide [of "\<lparr>ph_type = PT_LOAD, ph_flags = PF_R, ph_vaddr = 0x400000, ph_filesz = 0, ph_memsz = 4096\<rparr>" 8192
      "\<lparr>ph_type = PT_LOAD, ph_flags = PF_W, ph_vaddr = 0x401000, ph_filesz = 0, ph_memsz = 4096\<rparr>" 8192 None]
  by (simp add: total_size_def add_us_def const_defs BIT_def)

end
