(* ===== verification/Loader_Slots.thy ===== *)
theory Loader_Slots
  imports Loader_Facts VM_Facts
begin

text \<open>
  The capability slots of the loader: what each of its steps allocates and gives back.  The program it
  starts runs in the same CSpace.
\<close>

definition csp :: "'k loader \<Rightarrow> SMOSUserCSpace" where
  "csp s = cl_cspace (ld_client s)"

text \<open>A server's answer leaves the client's own bitmap of slots alone.\<close>

definition spares_cspace :: "'k ld_call \<Rightarrow> bool" where
  "spares_cspace call \<longleftrightarrow> (\<forall>slot mi c. cl_cspace (snd (call slot mi c)) = cl_cspace c)"

section \<open>Steps that allocate nothing\<close>

lemma keeps_attempt [keeps_intro]: "keeps f m \<Longrightarrow> keeps f (attempt m)"
  unfolding keeps_def attempt_def by (auto split: prod.splits outcome.splits) (metis snd_conv)+

lemma keeps_with_rs [keeps_intro]: "keeps cl_cspace m \<Longrightarrow> keeps csp (with_rs m)"
  unfolding keeps_def with_rs_def on_part_def csp_def by (auto split: prod.splits) (metis snd_conv)

lemma keeps_with_fs [keeps_intro]:
  assumes "keeps cl_cspace m"
  shows "keeps csp (with_fs m)"
  unfolding keeps_def
proof
  fix s :: "'a loader"
  obtain r c where m: "m ((ld_client s)\<lparr>cl_buf := ld_fs_buf s\<rparr>) = (r, c)" by fastforce
  from keepsD [OF assms m] show "csp (snd (with_fs m s)) = csp s" by (simp add: with_fs_def m csp_def)
qed

lemma keeps_in_memory [keeps_intro]: "keeps csp (in_memory m)"
  by (simp add: keeps_def in_memory_def on_part_def csp_def split: prod.splits)

lemma keeps_reading: "keeps f (\<lambda>s. (g s, s))"
  by (simp add: keeps_def)

lemma keeps_put_str [keeps_intro]: "keeps cl_cspace (put_str off s)"
  by (auto simp: keeps_def put_str_def split: option.splits outcome.splits)

lemma keeps_requests [keeps_intro]: "keeps cl_cspace (ipc_write g)" "keeps cl_cspace (send g mi)" "keeps cl_cspace (set_buf b)"
  unfolding ipc_write_def send_def set_buf_def by (intro keeps_intro; simp)+

lemma keeps_answers [keeps_intro]:
  "keeps cl_cspace (ret_unit mi)" "keeps cl_cspace (ret_hndl mi)" "keeps cl_cspace (ret_hndl_or_cap cap mi)" "keeps cl_cspace (reply_reg i)"
  unfolding ret_unit_def ret_hndl_def ret_hndl_or_cap_def reply_reg_def
  by (auto intro!: keeps_intro split: option.splits)

lemma keeps_invoke [keeps_intro]:
  assumes "spares_cspace call" and "keeps cl_cspace req" and "\<And>mi. keeps cl_cspace (k mi)"
  shows "keeps cl_cspace (invoke (call slot) req k)"
proof -
  have "keeps cl_cspace (\<lambda>cl. case call slot mi cl of (mi', cl') \<Rightarrow> (Ok mi', cl'))" for mi
    using assms(1) by (simp add: keeps_def spares_cspace_def split: prod.splits) (metis snd_conv)
  then show ?thesis unfolding invoke_def by (intro keeps_intro assms keeps_reading)
qed

lemma keeps_hndl_req [keeps_intro]: "keeps cl_cspace (hndl_req l h)"
  unfolding hndl_req_def by (auto intro!: keeps_intro split: HandleOrHandleCap.splits)

lemma keeps_stubs [keeps_intro]:
  assumes "spares_cspace call"
  shows "keeps cl_cspace (window_create (call slot) v sz cap)" "keeps cl_cspace (obj_create (call slot) nm sz rs at cap)"
    "keeps cl_cspace (view (call slot) w ob i j sz rs)" "keeps cl_cspace (conn_create (call slot) c name)"
    "keeps cl_cspace (conn_open (call slot) shared)" "keeps cl_cspace (obj_open (call slot) name rs cap)"
    "keeps cl_cspace (obj_stat (call slot) h)" "keeps cl_cspace (unview (call slot) x)"
    "keeps cl_cspace (obj_close (call slot) h)" "keeps cl_cspace (conn_close (call slot))"
  unfolding window_create_def window_create_req_def obj_create_def obj_create_req_def view_def view_req_def conn_create_def
    conn_create_req_def conn_open_def conn_open_req_def obj_open_def obj_open_req_def obj_stat_def unview_def unview_req_def
    obj_close_def conn_close_def conn_close_req_def
  by (auto intro!: keeps_intro assms split: option.splits HandleOrHandleCap.splits prod.splits)

lemma keeps_ld [keeps_intro]:
  assumes "spares_cspace call"
  shows "keeps csp (ld_window call v sz cap)" "keeps csp (ld_object call sz cap)" "keeps csp (ld_view call w ob sz rights)"
  unfolding ld_window_def ld_object_def ld_view_def by (intro keeps_intro assms)+

lemma keeps_claim:
  assumes "spares_cspace call"
  shows "keeps csp (claim_window call v sz r)"
  using assms
proof (induction call v sz r rule: claim_window.induct)
  case (1 call v sz r)
  then show ?case
    by (subst claim_window.simps) (auto intro!: keeps_intro split: outcome.splits simp: Let_def)
qed

lemma keeps_load_segment:
  assumes "spares_cspace call"
  shows "keeps csp (load_segment call x)"
  unfolding load_segment_def
  by (auto intro!: keeps_intro keeps_claim assms split: prod.splits option.splits)

lemma keeps_loading [keeps_intro]:
  assumes "spares_cspace call"
  shows "keeps csp (load_all_segments call xs)" "keeps csp (remap_segment call y)" "keeps csp (map_stack call)"
proof -
  show "keeps csp (load_all_segments call xs)"
    by (induction xs) (auto intro!: keeps_intro keeps_load_segment assms)
  show "keeps csp (remap_segment call y)"
    unfolding remap_segment_def by (auto intro!: keeps_intro assms)
  show "keeps csp (map_stack call)"
    unfolding map_stack_def Let_def by (intro keeps_intro assms)
qed

section \<open>Steps that allocate or give back\<close>

text \<open>The slots in use are \<open>U\<close>.\<close>

definition in_use :: "nat set \<Rightarrow> 'k loader \<Rightarrow> bool" where
  "in_use U s \<longleftrightarrow> ucs_inv (csp s) \<and> ucs_used (csp s) = U"

lemma in_use_keeps: "keeps csp m \<Longrightarrow> m s = (Ok x, t) \<Longrightarrow> in_use U s \<Longrightarrow> in_use U t"
  by (drule (1) keepsD) (simp add: in_use_def)

lemma alloc_cap_slot_Ok:
  assumes "alloc_cap_slot s = (Ok c, t)" and "in_use U s"
  shows "ac_bits c < 256 \<and> ac_bits c \<notin> U \<and> in_use (insert (ac_bits c) U) t"
proof -
  obtain i t' where a: "on_part (cl_cspace \<circ> ld_client) (\<lambda>f. ld_client_update (cl_cspace_update f)) ucs_alloc_slot s = (Ok i, t')"
    and c: "ucs_to_absolute_cptr (csp t') i = (Ok c :: (InvocationError, abs_cptr) outcome)" "t' = t"
    using assms(1) by (auto simp: alloc_cap_slot_def bnd_eq_Ok gets_def lift_def csp_def)
  have b: "ac_bits c = i" using c(1) by (auto simp: ucs_to_absolute_cptr_def split: if_splits)
  have inv: "ucs_inv (csp s)" using assms(2) by (simp add: in_use_def)
  show ?thesis
  proof (cases rule: ucs_alloc_cases [OF inv])
    case (2 j cs')
    then show ?thesis using a assms(2) b c(2) by (auto simp: on_part_def csp_def in_use_def)
  qed (use a in \<open>auto simp: on_part_def csp_def\<close>)
qed

lemma invoke_ends: "invoke call req k c = (Ok x, c') \<Longrightarrow> \<exists>mi c1. k mi c1 = (Ok x, c')"
  by (auto simp: invoke_def bnd_eq_Ok)

lemma with_rs_Ok: "with_rs m s = (r, t) \<longleftrightarrow> (\<exists>c. m (ld_client s) = (r, c) \<and> t = s\<lparr>ld_client := c\<rparr>)"
  by (auto simp: with_rs_def on_part_def split: prod.splits)

lemma hndl_or_cap_Ok: "hndl_or_cap r = Ok h \<longleftrightarrow> r = R_HndlCap h"
  by (auto simp: hndl_or_cap_def split: client_result.splits)

lemma ret_hndl_or_cap_Ok:
  "ret_hndl_or_cap cap mi c = (Ok (R_HndlCap h), c') \<Longrightarrow> case cap of None \<Rightarrow> \<exists>i. h = Handle i | Some x \<Rightarrow> h = HandleCap x"
  by (auto simp: ret_hndl_or_cap_def reply_reg_def gets_def ret_def fail_def bnd_def split: option.splits if_splits)

lemma handle_kind:
  "ld_window call v sz cap s = (Ok h, t) \<Longrightarrow> case cap of None \<Rightarrow> \<exists>i. h = Handle i | Some c \<Rightarrow> h = HandleCap c"
  "ld_object call sz cap s = (Ok h, t) \<Longrightarrow> case cap of None \<Rightarrow> \<exists>i. h = Handle i | Some c \<Rightarrow> h = HandleCap c"
  unfolding ld_window_def ld_object_def window_create_def obj_create_def
  by (auto simp only: bnd_eq_Ok op_run prod.inject with_rs_Ok hndl_or_cap_Ok dest!: invoke_ends ret_hndl_or_cap_Ok)

lemma drop_slot_frees:
  assumes "drop_slot K slot c = (Ok (), c')" and "slot < 256" and "ucs_inv (cl_cspace c)"
  shows "ucs_inv (cl_cspace c') \<and> ucs_used (cl_cspace c') = ucs_used (cl_cspace c) - {slot}"
proof -
  obtain cs' where cs: "ucs_free_slot slot (cl_cspace c) = (Ok (), cs')" "ucs_inv cs'" "ucs_used cs' = ucs_used (cl_cspace c) - {slot}"
    by (rule ucs_free_spec [OF assms(3,2)])
  obtain d k where k: "ucs_delete K (cl_cspace c) slot (cl_kern c) = (d, k)" by fastforce
  have "cl_cspace c' = cs'" using assms(1) cs(1) by (cases d) (auto simp: drop_slot_def bnd_def k)
  then show ?thesis using cs by simp
qed

text \<open>A call that ends in \<open>drop_slot\<close>.\<close>

lemma dropping:
  assumes call: "spares_cspace call" and req: "keeps cl_cspace req"
    and run: "with_rs (invoke (call slot) req (\<lambda>mi. bnd (drop_slot K i) (\<lambda>_. ret R_Unit))) s = (Ok x, t)"
    and i: "i < 256" and u: "in_use U s"
  shows "in_use (U - {i}) t"
proof -
  obtain c where c: "invoke (call slot) req (\<lambda>mi. bnd (drop_slot K i) (\<lambda>_. ret R_Unit)) (ld_client s) = (Ok x, c)"
    "ld_client t = c" using run by (auto simp: with_rs_def on_part_def split: prod.splits)
  obtain mi c1 c2 where r: "req (ld_client s) = (Ok mi, c1)" "drop_slot K i (snd (call slot mi c1)) = (Ok (), c2)" "c = c2"
    using c(1) by (auto simp: invoke_def bnd_eq_Ok ret_def case_prod_unfold)
  have "cl_cspace c1 = csp s" using keepsD [OF req r(1)] by (simp add: csp_def)
  then have "cl_cspace (snd (call slot mi c1)) = csp s" using call by (simp add: spares_cspace_def)
  then show ?thesis using drop_slot_frees [OF r(2) i] u c(2) r(3) by (simp add: in_use_def csp_def)
qed

lemma drop_handle:
  assumes call: "spares_cspace call" and req: "keeps cl_cspace req"
    and run: "with_rs (invoke (call slot) req (\<lambda>mi. bnd (drop_hndl K h) (\<lambda>_. ret R_Unit))) s = (Ok x, t)"
    and u: "in_use U s"
  shows "h = Handle n \<Longrightarrow> in_use U t" and "h = HandleCap c \<Longrightarrow> ac_bits c < 256 \<Longrightarrow> in_use (U - {ac_bits c}) t"
proof -
  assume h: "h = Handle n"
  have "keeps csp (with_rs (invoke (call slot) req (\<lambda>mi. bnd (drop_hndl K h) (\<lambda>_. ret R_Unit))))"
    unfolding h drop_hndl_def by (intro keeps_intro call req) (simp add: keeps_intro)
  from in_use_keeps [OF this run u] show "in_use U t" .
next
  assume h: "h = HandleCap c" "ac_bits c < 256"
  show "in_use (U - {ac_bits c}) t"
    using dropping [OF call req _ h(2) u, of slot K x t] run unfolding h(1) drop_hndl_def by simp
qed

section \<open>The whole program\<close>

lemma connect_fs_slots:
  assumes call: "spares_cspace call" and run: "connect_fs call name s = (Ok fs, t)" and u: "in_use U s"
  obtains n c where "fs_win fs = Handle n" "fs_obj fs = HandleCap c" "ac_bits c < 256" "fs_ep fs < 256"
    "fs_ep fs \<notin> U" "ac_bits c \<notin> insert (fs_ep fs) U" "in_use (insert (ac_bits c) (insert (fs_ep fs) U)) t"
proof -
  obtain ep s1 h s2 win s3 c s4 obj s5 v s6 s7 y where
    1: "alloc_cap_slot s = (Ok ep, s1)"
    and 2: "bnd (with_rs (conn_create (call SMOS_RootServerEP) ep name)) (\<lambda>r. lift (local_hndl r)) s1 = (Ok h, s2)"
    and 3: "ld_window call SHARED_BUFFER_REGION 4096 None s2 = (Ok win, s3)"
    and 4: "alloc_cap_slot s3 = (Ok c, s4)"
    and 5: "ld_object call 4096 (Some c) s4 = (Ok obj, s5)"
    and 6: "ld_view call win obj 4096 rights_all s5 = (Ok v, s6)"
    and 7: "with_fs (conn_open (call (ac_bits ep)) (Some (obj, mem_read (ld_mem s6) SHARED_BUFFER_REGION 4096))) s6 = (Ok y, s7)"
    and fs: "fs = \<lparr>fs_hndl = h, fs_ep = ac_bits ep, fs_win = win, fs_obj = obj, fs_view = v\<rparr>" "t = s7"
    using run unfolding connect_fs_def by (simp only: bnd_eq_Ok [where y = fs] expect_eq_Ok op_run prod.inject outcome.inject) blast
  note a1 = alloc_cap_slot_Ok [OF 1 u]
  have k2: "keeps csp (bnd (with_rs (conn_create (call SMOS_RootServerEP) ep name)) (\<lambda>r. lift (local_hndl r)))" by (intro keeps_intro call)
  have u2: "in_use (insert (ac_bits ep) U) s2" using in_use_keeps [OF k2 2] a1 by blast
  have u3: "in_use (insert (ac_bits ep) U) s3" by (rule in_use_keeps [OF keeps_ld(1) [OF call] 3 u2])
  note a2 = alloc_cap_slot_Ok [OF 4 u3]
  have u5: "in_use (insert (ac_bits c) (insert (ac_bits ep) U)) s5" using in_use_keeps [OF keeps_ld(2) [OF call] 5] a2 by blast
  have u6: "in_use (insert (ac_bits c) (insert (ac_bits ep) U)) s6" by (rule in_use_keeps [OF keeps_ld(3) [OF call] 6 u5])
  have u7: "in_use (insert (ac_bits c) (insert (ac_bits ep) U)) s7"
    by (rule in_use_keeps [OF keeps_with_fs [OF keeps_stubs(5) [OF call]] 7 u6])
  show ?thesis using that handle_kind(1) [OF 3] handle_kind(2) [OF 5] a1 a2 u7 fs by auto
qed

lemma map_elf_slots:
  assumes call: "spares_cspace call" and run: "map_elf call parse fs name s = (Ok (es, elf), t)" and u: "in_use U s"
  obtains c where "es_win es = HandleCap c" "ac_bits c < 256" "ac_bits c \<notin> U" "in_use (insert (ac_bits c) U) t"
proof -
  obtain f s1 sz s2 c s3 win s4 v s5 where
    1: "bnd (with_fs (obj_open (call (fs_ep fs)) name (word_of_rights rights_read_only) None)) (\<lambda>r. lift (hndl_or_cap r)) s = (Ok f, s1)"
    and 2: "bnd (with_fs (obj_stat (call (fs_ep fs)) f)) (\<lambda>r. lift (stat_size r)) s1 = (Ok sz, s2)"
    and 3: "alloc_cap_slot s2 = (Ok c, s3)"
    and 4: "ld_window call ELF_BASE (ROUND_UP sz seL4_PageBits) (Some c) s3 = (Ok win, s4)"
    and 5: "bnd (with_fs (view (call (fs_ep fs)) win f 0 0 (of_nat sz) (word_of_rights rights_read_only))) (\<lambda>r. lift (local_hndl r)) s4 = (Ok v, s5)"
    and es: "es = \<lparr>es_file = f, es_win = win, es_view = v\<rparr>" "t = s5"
    using run unfolding map_elf_def
    by (simp only: bnd_eq_Ok [where y = "(es, elf)"] expect_eq_Ok op_run prod.inject outcome.inject) blast
  have k1: "keeps csp (bnd (with_fs (obj_open (call (fs_ep fs)) name (word_of_rights rights_read_only) None)) (\<lambda>r. lift (hndl_or_cap r)))"
    and k2: "keeps csp (bnd (with_fs (obj_stat (call (fs_ep fs)) f)) (\<lambda>r. lift (stat_size r)))"
    and k5: "keeps csp (bnd (with_fs (view (call (fs_ep fs)) win f 0 0 (of_nat sz) (word_of_rights rights_read_only))) (\<lambda>r. lift (local_hndl r)))"
    by (intro keeps_intro call)+
  have u2: "in_use U s2" by (rule in_use_keeps [OF k2 2 in_use_keeps [OF k1 1 u]])
  note a = alloc_cap_slot_Ok [OF 3 u2]
  have "in_use (insert (ac_bits c) U) s5"
    using in_use_keeps [OF k5 5 in_use_keeps [OF keeps_ld(1) [OF call] 4]] a by blast
  then show ?thesis using that handle_kind(1) [OF 4] a es by simp
qed

lemma close_elf_slots:
  assumes call: "spares_cspace call" and run: "close_elf call K fs es s = (Ok x, t)" and u: "in_use U s"
    and w: "es_win es = HandleCap c" "ac_bits c < 256"
  shows "in_use (U - {ac_bits c}) t"
proof -
  obtain x1 s1 x2 s2 x3 where
    1: "with_fs (unview (call (fs_ep fs)) (es_view es)) s = (Ok x1, s1)"
    and 2: "with_fs (obj_close (call (fs_ep fs)) (es_file es)) s1 = (Ok x2, s2)"
    and 3: "with_rs (window_destroy (call SMOS_RootServerEP) K (es_win es)) s2 = (Ok x3, t)"
    using run unfolding close_elf_def by (simp only: bnd_eq_Ok [where y = x] expect_eq_Ok op_run prod.inject) blast
  have u2: "in_use U s2"
    by (rule in_use_keeps [OF keeps_with_fs [OF keeps_stubs(9) [OF call]] 2
          in_use_keeps [OF keeps_with_fs [OF keeps_stubs(8) [OF call]] 1 u]])
  show ?thesis by (rule drop_handle(2) [OF call keeps_hndl_req 3 [unfolded window_destroy_def] u2 w])
qed

lemma disconnect_fs_slots:
  assumes call: "spares_cspace call" and run: "disconnect_fs call K fs s = (Ok x, t)" and u: "in_use U s"
    and w: "fs_win fs = Handle n" "fs_obj fs = HandleCap c" "ac_bits c < 256" "fs_ep fs < 256"
  shows "in_use (U - {fs_ep fs} - {ac_bits c}) t"
proof -
  obtain x1 s1 x2 s2 x3 s3 x4 s4 x5 where
    1: "with_fs (conn_close (call (fs_ep fs))) s = (Ok x1, s1)"
    and 2: "with_rs (conn_destroy (call SMOS_RootServerEP) K (fs_hndl fs) (fs_ep fs)) s1 = (Ok x2, s2)"
    and 3: "with_rs (unview (call SMOS_RootServerEP) (fs_view fs)) s2 = (Ok x3, s3)"
    and 4: "with_rs (obj_destroy (call SMOS_RootServerEP) K (fs_obj fs)) s3 = (Ok x4, s4)"
    and 5: "with_rs (window_destroy (call SMOS_RootServerEP) K (fs_win fs)) s4 = (Ok x5, t)"
    using run unfolding disconnect_fs_def by (simp only: bnd_eq_Ok [where y = x] expect_eq_Ok op_run prod.inject) blast
  have u1: "in_use U s1" by (rule in_use_keeps [OF keeps_with_fs [OF keeps_stubs(10) [OF call]] 1 u])
  have req: "keeps cl_cspace (conn_destroy_req (fs_hndl fs))" unfolding conn_destroy_req_def by (rule keeps_requests)
  have u2: "in_use (U - {fs_ep fs}) s2" by (rule dropping [OF call req 2 [unfolded conn_destroy_def] w(4) u1])
  have u3: "in_use (U - {fs_ep fs}) s3" by (rule in_use_keeps [OF keeps_with_rs [OF keeps_stubs(8) [OF call]] 3 u2])
  have u4: "in_use (U - {fs_ep fs} - {ac_bits c}) s4"
    by (rule drop_handle(2) [OF call keeps_hndl_req 4 [unfolded obj_destroy_def] u3 w(2,3)])
  show ?thesis by (rule drop_handle(1) [OF call keeps_hndl_req 5 [unfolded window_destroy_def] u4 w(1)])
qed

lemma load_program_slots:
  assumes call: "spares_cspace call" and run: "load_program call K parse rt s = (Ok r, t)" and u: "in_use U s"
  shows "in_use U t"
proof -
  obtain args s0 fs s1 es elf s2 segs mapped s4 y5 s5 y6 s6 sp s7 y8 s8 y9 where
    0: "(\<lambda>s. (args_collect (ld_mem s) rt, s)) s = (Ok args, s0)"
    and 1: "connect_fs call (args ! 1) s0 = (Ok fs, s1)"
    and 2: "map_elf call parse fs (args ! 0) s1 = (Ok (es, elf), s2)"
    and 4: "load_all_segments call segs s2 = (Ok mapped, s4)"
    and 5: "for_each (remap_segment call) mapped s4 = (Ok y5, s5)"
    and 6: "map_stack call s5 = (Ok y6, s6)"
    and 7: "in_memory (write_stack rt (drop 2 args)) s6 = ((Ok sp :: (InvocationError, nat) outcome), s7)"
    and 8: "close_elf call K fs es s7 = (Ok y8, s8)"
    and 9: "disconnect_fs call K fs s8 = (Ok y9, t)"
    using run unfolding load_program_def
    by (simp only: bnd_eq_Ok [where y = r] expect_eq_Ok op_run prod.inject outcome.inject split_paired_Ex case_prod_conv) blast
  have u0: "in_use U s0" using 0 u by simp
  obtain n c where fs: "fs_win fs = Handle n" "fs_obj fs = HandleCap c" "ac_bits c < 256" "fs_ep fs < 256"
    "fs_ep fs \<notin> U" "ac_bits c \<notin> insert (fs_ep fs) U" and u1: "in_use (insert (ac_bits c) (insert (fs_ep fs) U)) s1"
    by (rule connect_fs_slots [OF call 1 u0])
  let ?U = "insert (ac_bits c) (insert (fs_ep fs) U)"
  obtain d where es: "es_win es = HandleCap d" "ac_bits d < 256" "ac_bits d \<notin> ?U" and u2: "in_use (insert (ac_bits d) ?U) s2"
    by (rule map_elf_slots [OF call 2 u1])
  have k: "keeps csp (for_each (remap_segment call) mapped)" by (intro keeps_intro call)
  have u7: "in_use (insert (ac_bits d) ?U) s7"
    by (rule in_use_keeps [OF keeps_in_memory 7 in_use_keeps [OF keeps_loading(3) [OF call] 6
          in_use_keeps [OF k 5 in_use_keeps [OF keeps_loading(1) [OF call] 4 u2]]]])
  have u8: "in_use (insert (ac_bits d) ?U - {ac_bits d}) s8" by (rule close_elf_slots [OF call 8 u7 es(1,2)])
  then have "in_use ?U s8" using es(3) by simp
  from disconnect_fs_slots [OF call 9 this fs(1-4)] have "in_use (?U - {fs_ep fs} - {ac_bits c}) t" .
  moreover have "?U - {fs_ep fs} - {ac_bits c} = U" using fs(5,6) by auto
  ultimately show ?thesis by simp
qed

end
