(* ===== verification/Loader_Runs.thy ===== *)
theory Loader_Runs
  imports Loader_Slots Rpc
begin

text \<open>
  The loader reaches its jump when the servers answer its requests with success, each in the form of
  \<open>handle_reply\<close>, and show the bytes of an executable that fits; it has then given back every slot
  it allocated.
\<close>

section \<open>Operations that return\<close>

definition yields :: "('s \<Rightarrow> bool) \<Rightarrow> ('s, 'e, 'a) op \<Rightarrow> ('a \<Rightarrow> 's \<Rightarrow> bool) \<Rightarrow> bool" where
  "yields P m Q \<longleftrightarrow> (\<forall>s. P s \<longrightarrow> (\<exists>x t. m s = (Ok x, t) \<and> Q x t))"

lemma yields_bnd: "yields P m R \<Longrightarrow> (\<And>x. yields (R x) (f x) Q) \<Longrightarrow> yields P (bnd m f) Q"
  by (fastforce simp: yields_def bnd_def)

lemma yields_pure: "(A \<Longrightarrow> yields P m Q) \<Longrightarrow> yields (\<lambda>s. A \<and> P s) m Q"
  by (simp add: yields_def)

lemma yields_retI: "(\<And>s. P s \<Longrightarrow> Q x s) \<Longrightarrow> yields P (ret x) Q"
  by (simp add: yields_def op_run)

lemma yields_ensure: "b \<Longrightarrow> yields P (ensure b) (\<lambda>_. P)"
  by (simp add: yields_def op_run)

lemma yields_ret: "yields P (ret x) (\<lambda>_. P)"
  by (simp add: yields_def op_run)

lemma yields_expect: "yields P m Q \<Longrightarrow> yields P (expect m) Q"
  by (fastforce simp: yields_def)

lemma yields_attempt: "yields P m Q \<Longrightarrow> (\<And>x s. Q x s \<Longrightarrow> Q' (Ok x) s) \<Longrightarrow> yields P (attempt m) Q'"
  by (fastforce simp: yields_def attempt_def)

lemma yields_weaken: "yields P m Q \<Longrightarrow> (\<And>s. P' s \<Longrightarrow> P s) \<Longrightarrow> (\<And>x s. Q x s \<Longrightarrow> Q' x s) \<Longrightarrow> yields P' m Q'"
  by (fastforce simp: yields_def)

section \<open>Servers that grant what they are asked\<close>

text \<open>What the loader asks of the root server, and of the file server.\<close>

definition asked :: "cptr \<Rightarrow> client_call \<Rightarrow> bool" where
  "asked slot c \<longleftrightarrow>
     (if slot = SMOS_RootServerEP
      then (case c of
          C_conn_create _ _ \<Rightarrow> True | C_conn_destroy _ _ \<Rightarrow> True | C_window_create _ _ _ \<Rightarrow> True | C_window_destroy _ \<Rightarrow> True
        | C_obj_create name _ _ _ _ \<Rightarrow> name = None | C_obj_destroy _ \<Rightarrow> True | C_view _ _ _ _ _ _ \<Rightarrow> True | C_unview _ \<Rightarrow> True
        | _ \<Rightarrow> False)
      else (case c of
          C_conn_open buf \<Rightarrow> buf \<noteq> None | C_conn_close \<Rightarrow> True | C_obj_open _ _ _ \<Rightarrow> True | C_obj_stat _ \<Rightarrow> True
        | C_view _ _ _ _ _ _ \<Rightarrow> True | C_unview _ \<Rightarrow> True | C_obj_close _ \<Rightarrow> True
        | _ \<Rightarrow> False))"

text \<open>The answer to a call, as \<open>handle_reply\<close> writes a reply that answers it and the kernel delivers it.\<close>

definition success :: "client_call \<Rightarrow> msginfo \<Rightarrow> ipc_buf \<Rightarrow> bool" where
  "success c info buf \<longleftrightarrow>
     (\<exists>r x b rmi b'. reply_result c r = Some x \<and> handle_reply b r = Ok (rmi, b') \<and> delivered (\<lambda>_. None) rmi b' info buf)"

text \<open>Every request is answered with a success; no answer touches the slots of the loader's CSpace or
  the size of its data buffers; a delete succeeds.\<close>

definition grants :: "'k ld_call \<Rightarrow> ('k \<times> vmem) sel4 \<Rightarrow> bool" where
  "grants call K \<longleftrightarrow>
     (\<forall>slot c cl mi cl1. asked slot c \<longrightarrow> request c cl = (Ok mi, cl1) \<longrightarrow>
        success c (fst (call slot mi cl1)) (cl_ipc (snd (call slot mi cl1)))) \<and>
     (\<forall>slot mi c. cl_cspace (snd (call slot mi c)) = cl_cspace c \<and>
        map_option length (cl_buf (snd (call slot mi c))) = map_option length (cl_buf c)) \<and>
     (\<forall>p k. fst (k_cnode_delete K p k) = None)"

text \<open>The file server has the file: it answers a stat with the file's size, and once it has answered
  a view, the file's bytes are in the window.\<close>

definition has_file :: "'k ld_call \<Rightarrow> u8 list \<Rightarrow> bool" where
  "has_file call bytes \<longleftrightarrow> length bytes < 2 ^ 64 \<and>
     (\<forall>slot cl mi cl1. slot \<noteq> SMOS_RootServerEP \<longrightarrow>
       (\<forall>h. request (C_obj_stat h) cl = (Ok mi, cl1) \<longrightarrow>
          msg_regs (cl_ipc (snd (call slot mi cl1))) 0 = of_nat (length bytes)) \<and>
       (\<forall>w h rs. request (C_view w h 0 0 (of_nat (length bytes)) rs) cl = (Ok mi, cl1) \<longrightarrow>
          mem_read (snd (cl_kern (snd (call slot mi cl1)))) ELF_BASE (length bytes) = bytes))"

lemma successE:
  assumes "success c info buf"
  obtains r x b rmi b' where "reply_result c r = Some x" "handle_reply b r = Ok (rmi, b')" "delivered (\<lambda>_. None) rmi b' info buf"
  using assms by (auto simp: success_def)

lemma success_label:
  assumes "success c info buf"
  shows "mi_label info = NoErrorLabel"
proof -
  obtain r b rmi b' where "handle_reply b r = Ok (rmi, b')" "delivered (\<lambda>_. None) rmi b' info buf"
    using assms by (auto simp: success_def)
  then show ?thesis by (cases r) (auto elim: match_hndl_or_hndl_cap.elims simp: delivered_sel)
qed

text \<open>The shape of the answers.\<close>

lemma success_shape:
  "success (C_conn_create slot name) info buf \<Longrightarrow> one_wrapped_cap info"
  "success (C_window_create v sz cap) info buf \<Longrightarrow> (case cap of None \<Rightarrow> mi_length info = 1 | Some _ \<Rightarrow> one_wrapped_cap info)"
  "success (C_obj_create nm sz rs at cap) info buf \<Longrightarrow> (case cap of None \<Rightarrow> mi_length info = 1 | Some _ \<Rightarrow> one_wrapped_cap info)"
  "success (C_obj_open name rs cap) info buf \<Longrightarrow> (case cap of None \<Rightarrow> mi_length info = 1 | Some _ \<Rightarrow> one_wrapped_cap info)"
  "success (C_view w ob i j sz rs) info buf \<Longrightarrow> mi_length info = 1"
  by (erule successE, frule delivered_none_unwrapped, frule delivered_sel(2), frule delivered_sel(3), case_tac r;
      auto simp: one_wrapped_cap_def elim!: hndl_result.elims split: option.splits)+

text \<open>At most \<open>u\<close> slots are in use and the data buffer, if \<open>n\<close> is positive, has \<open>n\<close> bytes.\<close>

definition roomy :: "nat \<Rightarrow> nat \<Rightarrow> 'k client \<Rightarrow> bool" where
  "roomy u n c \<longleftrightarrow> ucs_inv (cl_cspace c) \<and> card (ucs_used (cl_cspace c)) \<le> u \<and>
     (n = 0 \<or> (\<exists>b. cl_buf c = Some b \<and> n \<le> length b))"

definition ready :: "nat \<Rightarrow> nat \<Rightarrow> nat \<Rightarrow> 'k loader \<Rightarrow> bool" where
  "ready u n k s \<longleftrightarrow> roomy u n (ld_client s) \<and> (k = 0 \<or> (\<exists>b. ld_fs_buf s = Some b \<and> k \<le> length b))"

lemma yields_rs:
  assumes "yields (roomy u n) m (\<lambda>x c. R x \<and> roomy u' n' c)"
  shows "yields (ready u n k) (with_rs m) (\<lambda>x s. R x \<and> ready u' n' k s)"
  using assms by (fastforce simp: yields_def ready_def with_rs_def on_part_def)

lemma yields_fs:
  assumes "yields (roomy u k) m (\<lambda>x c. R x \<and> roomy u k' c)"
  shows "yields (ready u n k) (with_fs m) (\<lambda>x s. R x \<and> ready u n k' s)"
  unfolding yields_def
proof (intro allI impI)
  fix s :: "'a loader"
  assume r: "ready u n k s"
  let ?c = "(ld_client s)\<lparr>cl_buf := ld_fs_buf s\<rparr>"
  have "roomy u k ?c" using r by (auto simp: ready_def roomy_def)
  then obtain x c where m: "m ?c = (Ok x, c)" "R x" "roomy u k' c" using assms by (auto simp: yields_def)
  have "with_fs m s = (Ok x, s\<lparr>ld_client := c\<lparr>cl_buf := cl_buf (ld_client s)\<rparr>, ld_fs_buf := cl_buf c\<rparr>)"
    by (simp add: with_fs_def m(1))
  then show "\<exists>x t. with_fs m s = (Ok x, t) \<and> R x \<and> ready u n k' t"
    using m r by (simp add: ready_def roomy_def)
qed

lemma yields_send: "(\<And>c. P c \<Longrightarrow> Q mi (c\<lparr>cl_ipc := g (cl_ipc c)\<rparr>)) \<Longrightarrow> yields P (send g mi) Q"
  by (simp add: yields_def send_def ipc_write_def bnd_def modify_def ret_def)

lemma yields_put_str:
  assumes "off + length name + 1 \<le> n" and "0 < n"
  shows "yields (roomy u n) (put_str off name) (\<lambda>_. roomy u n)"
  using assms by (auto simp: yields_def roomy_def put_str_def copy_terminated_rust_string_to_buffer_def)

lemma yields_invoke:
  assumes g: "grants call K" and a: "asked slot c" and req: "yields P (request c) (\<lambda>_. roomy u n)"
    and k: "\<And>info buf. success c info buf \<Longrightarrow> yields (\<lambda>c. cl_ipc c = buf \<and> roomy u n c) (k info) Q"
  shows "yields P (invoke (call slot) (request c) k) Q"
  unfolding yields_def
proof (intro allI impI)
  fix cl assume "P cl"
  then obtain mi c1 where r: "request c cl = (Ok mi, c1)" "roomy u n c1" using req by (auto simp: yields_def)
  obtain info c2 where c2: "call slot mi c1 = (info, c2)" by fastforce
  have f: "cl_cspace c2 = cl_cspace c1" "map_option length (cl_buf c2) = map_option length (cl_buf c1)"
    using g c2 unfolding grants_def by (metis snd_conv)+
  have s: "success c info (cl_ipc c2)" using g a r(1) c2 unfolding grants_def by (metis fst_conv snd_conv)
  have "roomy u n c2" using r(2) f by (cases "cl_buf c1") (auto simp: roomy_def)
  then obtain x t where x: "k info c2 = (Ok x, t)" "Q x t" using k [OF s] by (auto simp: yields_def)
  have "invoke (call slot) (request c) k cl = (Ok x, t)"
    using invoke_run [where req = "request c" and call = "call slot" and k = k, OF r(1) c2] x(1) success_label [OF s] by simp
  then show "\<exists>x t. invoke (call slot) (request c) k cl = (Ok x, t) \<and> Q x t" using x(2) by blast
qed

lemma roomy_ipc [simp]: "roomy u n (c\<lparr>cl_ipc := i\<rparr>) = roomy u n c"
  by (simp add: roomy_def)

definition is_hndl :: "client_result \<Rightarrow> bool" where
  "is_hndl r \<longleftrightarrow> (\<exists>h. local_hndl r = (Ok h :: (InvocationError, u64) outcome))"

definition is_hndl_cap :: "client_result \<Rightarrow> bool" where
  "is_hndl_cap r \<longleftrightarrow> (\<exists>h. hndl_or_cap r = (Ok h :: (InvocationError, HandleOrHandleCap) outcome))"

definition is_stat :: "client_result \<Rightarrow> bool" where
  "is_stat r \<longleftrightarrow> (\<exists>n. stat_size r = (Ok n :: (InvocationError, nat) outcome))"

lemma yields_hndl_or_cap:
  assumes "case cap of None \<Rightarrow> mi_length info = 1 | Some _ \<Rightarrow> one_wrapped_cap info"
  shows "yields (\<lambda>c. cl_ipc c = buf \<and> roomy u n c) (ret_hndl_or_cap cap info) (\<lambda>r c. is_hndl_cap r \<and> roomy u n c)"
  using assms
  by (auto simp: yields_def ret_hndl_or_cap_def reply_reg_def is_hndl_cap_def hndl_or_cap_def ret_def one_wrapped_cap_def
      split: option.splits)

lemma yields_hndl_req: "yields (roomy u n) (hndl_req l h) (\<lambda>_. roomy u n)"
  unfolding hndl_req_def by (cases h) (simp_all add: yields_send)

lemma requested:
  "yields (roomy u n) (request (C_window_create v sz cap)) (\<lambda>_. roomy u n)"
  "yields (roomy u n) (request (C_obj_create None sz rs at cap)) (\<lambda>_. roomy u n)"
  "yields (roomy u n) (request (C_view w ob i j sz rs)) (\<lambda>_. roomy u n)"
  "yields (roomy u n) (request (C_obj_stat h)) (\<lambda>_. roomy u n)"
  "yields (roomy u n) (request (C_unview x)) (\<lambda>_. roomy u n)"
  "yields (roomy u n) (request (C_obj_close h)) (\<lambda>_. roomy u n)"
  "yields (roomy u n) (request C_conn_close) (\<lambda>_. roomy u n)"
  "yields (roomy u n) (request (C_conn_open (Some (h, buf)))) (\<lambda>_. roomy u n)"
  "yields (roomy u n) (request (C_window_destroy h)) (\<lambda>_. roomy u n)"
  "yields (roomy u n) (request (C_obj_destroy h)) (\<lambda>_. roomy u n)"
  "yields (roomy u n) (request (C_conn_destroy x slot)) (\<lambda>_. roomy u n)"
proof -
  show "yields (roomy u n) (request (C_obj_create None sz rs at cap)) (\<lambda>_. roomy u n)"
    unfolding request.simps obj_create_req_def ipc_write_def
    by (rule yields_bnd [where R = "\<lambda>_. roomy u n"]) (simp_all add: yields_def op_run yields_send [unfolded yields_def])
  show "yields (roomy u n) (request (C_conn_open (Some (h, buf)))) (\<lambda>_. roomy u n)"
    by (cases h) (simp_all add: conn_open_req_def yields_send)
qed (simp_all add: window_create_req_def view_req_def unview_req_def conn_close_req_def conn_destroy_req_def yields_send
  yields_hndl_req split: prod.splits)

lemma yields_unit: "yields (\<lambda>c. cl_ipc c = buf \<and> roomy u n c) (ret_unit info) (\<lambda>_. roomy u n)"
  by (simp add: ret_unit_def yields_def ret_def)

lemma granted:
  assumes g: "grants call K"
  shows "yields (roomy u n) (window_create (call SMOS_RootServerEP) v sz cap) (\<lambda>r c. is_hndl_cap r \<and> roomy u n c)"
    and "yields (roomy u n) (obj_create (call SMOS_RootServerEP) None sz rs at cap) (\<lambda>r c. is_hndl_cap r \<and> roomy u n c)"
    and "yields (roomy u n) (view (call slot) w ob i j sz rs) (\<lambda>r c. is_hndl r \<and> roomy u n c)"
    and "slot \<noteq> SMOS_RootServerEP \<Longrightarrow> yields (roomy u n) (obj_stat (call slot) h) (\<lambda>r c. is_stat r \<and> roomy u n c)"
    and "yields (roomy u n) (unview (call slot) x) (\<lambda>r c. True \<and> roomy u n c)"
    and "slot \<noteq> SMOS_RootServerEP \<Longrightarrow> yields (roomy u n) (obj_close (call slot) h) (\<lambda>r c. True \<and> roomy u n c)"
    and "slot \<noteq> SMOS_RootServerEP \<Longrightarrow> yields (roomy u n) (conn_close (call slot)) (\<lambda>r c. True \<and> roomy u 0 c)"
    and "slot \<noteq> SMOS_RootServerEP \<Longrightarrow>
      yields (roomy u n) (conn_open (call slot) (Some (h, buf))) (\<lambda>r c. True \<and> roomy u (length buf) c)"
proof -
  note req = requested [where u = u and n = n, unfolded request.simps]
  show "yields (roomy u n) (window_create (call SMOS_RootServerEP) v sz cap) (\<lambda>r c. is_hndl_cap r \<and> roomy u n c)"
    unfolding window_create_def
    by (rule yields_invoke [OF g, where c = "C_window_create v sz cap", unfolded request.simps, OF _ req(1)])
      (auto simp: asked_def intro: yields_hndl_or_cap dest: success_shape(2))
  show "yields (roomy u n) (obj_create (call SMOS_RootServerEP) None sz rs at cap) (\<lambda>r c. is_hndl_cap r \<and> roomy u n c)"
    unfolding obj_create_def
    by (rule yields_invoke [OF g, where c = "C_obj_create None sz rs at cap", unfolded request.simps, OF _ req(2)])
      (auto simp: asked_def intro: yields_hndl_or_cap dest: success_shape(3))
  show "yields (roomy u n) (view (call slot) w ob i j sz rs) (\<lambda>r c. is_hndl r \<and> roomy u n c)"
    unfolding view_def
    by (rule yields_invoke [OF g, where c = "C_view w ob i j sz rs", unfolded request.simps, OF _ req(3)])
      (auto simp: asked_def ret_hndl_def reply_reg_def yields_def ret_def is_hndl_def local_hndl_def dest: success_shape(5))
  show "yields (roomy u n) (obj_stat (call slot) h) (\<lambda>r c. is_stat r \<and> roomy u n c)" if "slot \<noteq> SMOS_RootServerEP"
    unfolding obj_stat_def
    by (rule yields_invoke [OF g, where c = "C_obj_stat h", unfolded request.simps, OF _ req(4)])
      (use that in \<open>auto simp: asked_def reply_reg_def yields_def ret_def is_stat_def stat_size_def\<close>)
  show "yields (roomy u n) (unview (call slot) x) (\<lambda>r c. True \<and> roomy u n c)"
    unfolding unview_def
    by (rule yields_invoke [OF g, where c = "C_unview x", unfolded request.simps, OF _ req(5)])
      (simp_all add: asked_def yields_unit)
  show "yields (roomy u n) (obj_close (call slot) h) (\<lambda>r c. True \<and> roomy u n c)" if "slot \<noteq> SMOS_RootServerEP"
    unfolding obj_close_def
    by (rule yields_invoke [OF g, where c = "C_obj_close h", unfolded request.simps, OF _ req(6)])
      (use that in \<open>simp_all add: asked_def yields_unit\<close>)
  show "yields (roomy u n) (conn_close (call slot)) (\<lambda>r c. True \<and> roomy u 0 c)" if "slot \<noteq> SMOS_RootServerEP"
    unfolding conn_close_def
    by (rule yields_invoke [OF g, where c = C_conn_close, unfolded request.simps, OF _ req(7)])
      (use that in \<open>simp_all add: asked_def set_buf_def yields_def ret_def roomy_def\<close>)
  show "yields (roomy u n) (conn_open (call slot) (Some (h, buf))) (\<lambda>r c. True \<and> roomy u (length buf) c)"
    if "slot \<noteq> SMOS_RootServerEP"
    unfolding conn_open_def
    by (rule yields_invoke [OF g, where c = "C_conn_open (Some (h, buf))", unfolded request.simps, OF _ req(8)])
      (use that in \<open>simp_all add: asked_def set_buf_def yields_def ret_def roomy_def\<close>)
qed

lemma granted_named:
  assumes g: "grants call K" and n: "length name + 1 \<le> n"
  shows "yields (roomy u n) (conn_create (call SMOS_RootServerEP) c name) (\<lambda>r c. is_hndl r \<and> roomy u n c)"
    and "slot \<noteq> SMOS_RootServerEP \<Longrightarrow> yields (roomy u n) (obj_open (call slot) name rs cap) (\<lambda>r c. is_hndl_cap r \<and> roomy u n c)"
proof -
  have p: "yields (roomy u n) (put_str 0 name) (\<lambda>_. roomy u n)" by (rule yields_put_str) (use n in simp_all)
  have c: "yields (roomy u n) (conn_create_req c name) (\<lambda>_. roomy u n)"
    unfolding conn_create_req_def by (rule yields_bnd [OF p]) (simp add: yields_send)
  show "yields (roomy u n) (conn_create (call SMOS_RootServerEP) c name) (\<lambda>r c. is_hndl r \<and> roomy u n c)"
    unfolding conn_create_def
    by (rule yields_invoke [OF g, where c = "C_conn_create c name", unfolded request.simps, OF _ c])
      (auto simp: asked_def reply_reg_def yields_def bnd_def op_run is_hndl_def local_hndl_def dest: success_shape(1))
  have o: "yields (roomy u n) (obj_open_req name rs cap) (\<lambda>_. roomy u n)"
    unfolding obj_open_req_def by (rule yields_bnd [OF p]) (simp add: yields_send)
  show "yields (roomy u n) (obj_open (call slot) name rs cap) (\<lambda>r c. is_hndl_cap r \<and> roomy u n c)"
    if "slot \<noteq> SMOS_RootServerEP"
    unfolding obj_open_def
    by (rule yields_invoke [OF g, where c = "C_obj_open name rs cap", unfolded request.simps, OF _ o])
      (use that in \<open>auto simp: asked_def intro: yields_hndl_or_cap dest: success_shape(4)\<close>)
qed

lemma finite_used: "finite (ucs_used cs)"
  unfolding ucs_used_def by (rule finite_subset [of _ "{..<64 * length (ucs_bf cs)}"]) (auto dest: bits_of_bound)

lemma yields_drop_slot:
  assumes "grants (call :: 'k ld_call) K" and "i < 256"
  shows "yields (roomy u n) (drop_slot K i) (\<lambda>_. roomy u n)"
  unfolding yields_def
proof (intro allI impI)
  fix c :: "('k \<times> vmem) client" assume r: "roomy u n c"
  then have inv: "ucs_inv (cl_cspace c)" by (simp add: roomy_def)
  obtain cs where cs: "ucs_free_slot i (cl_cspace c) = (Ok (), cs)" "ucs_inv cs" "ucs_used cs = ucs_used (cl_cspace c) - {i}"
    by (rule ucs_free_spec [OF inv assms(2)])
  have kd: "fst (k_cnode_delete K p k) = None" for p k using assms(1) unfolding grants_def by blast
  obtain k where k: "ucs_delete K (cl_cspace c) i (cl_kern c) = (Ok (), k)"
    using kd by (simp add: ucs_delete_def case_prod_unfold)
  have "card (ucs_used cs) \<le> u" using r cs(3) finite_used card_Diff1_le [of "ucs_used (cl_cspace c)" i] by (simp add: roomy_def)
  then show "\<exists>x t. drop_slot K i c = (Ok x, t) \<and> roomy u n t"
    using r cs(1,2) k by (simp add: drop_slot_def bnd_def roomy_def)
qed

lemma yields_drops:
  assumes g: "grants call K"
  shows "\<forall>c. h = HandleCap c \<longrightarrow> ac_bits c < 256 \<Longrightarrow>
      yields (roomy u n) (window_destroy (call SMOS_RootServerEP) K h) (\<lambda>r c. True \<and> roomy u n c)"
    and "\<forall>c. h = HandleCap c \<longrightarrow> ac_bits c < 256 \<Longrightarrow>
      yields (roomy u n) (obj_destroy (call SMOS_RootServerEP) K h) (\<lambda>r c. True \<and> roomy u n c)"
    and "i < 256 \<Longrightarrow> yields (roomy u n) (conn_destroy (call SMOS_RootServerEP) K w i) (\<lambda>r c. True \<and> roomy u n c)"
proof -
  note req = requested [where u = u and n = n, unfolded request.simps]
  have any: "yields (\<lambda>c. cl_ipc c = buf \<and> roomy u n c) m Q" if "yields (roomy u n) m Q" for buf m and Q :: "client_result \<Rightarrow> _"
    using that by (simp add: yields_def)
  have d: "yields (roomy u n) (bnd (drop_hndl K h) (\<lambda>_. ret R_Unit)) (\<lambda>r c. True \<and> roomy u n c)"
    if "\<forall>c. h = HandleCap c \<longrightarrow> ac_bits c < 256"
    by (rule yields_bnd [where R = "\<lambda>_. roomy u n"])
      (use that yields_drop_slot [OF g] in \<open>auto simp: drop_hndl_def yields_ret split: HandleOrHandleCap.splits\<close>)
  show "yields (roomy u n) (window_destroy (call SMOS_RootServerEP) K h) (\<lambda>r c. True \<and> roomy u n c)"
    if "\<forall>c. h = HandleCap c \<longrightarrow> ac_bits c < 256"
    unfolding window_destroy_def
    by (rule yields_invoke [OF g, where c = "C_window_destroy h", unfolded request.simps, OF _ req(9)])
      (simp add: asked_def, rule any [OF d [OF that]])
  show "yields (roomy u n) (obj_destroy (call SMOS_RootServerEP) K h) (\<lambda>r c. True \<and> roomy u n c)"
    if "\<forall>c. h = HandleCap c \<longrightarrow> ac_bits c < 256"
    unfolding obj_destroy_def
    by (rule yields_invoke [OF g, where c = "C_obj_destroy h", unfolded request.simps, OF _ req(10)])
      (simp add: asked_def, rule any [OF d [OF that]])
  show "yields (roomy u n) (conn_destroy (call SMOS_RootServerEP) K w i) (\<lambda>r c. True \<and> roomy u n c)" if "i < 256"
    unfolding conn_destroy_def
    by (rule yields_invoke [OF g, where c = "C_conn_destroy w i", unfolded request.simps, OF _ req(11)])
      (simp add: asked_def, rule any, rule yields_bnd [OF yields_drop_slot [OF g that]], simp add: yields_ret)
qed

section \<open>The loader's steps\<close>

lemma yields_also:
  assumes "yields P m Q" and "\<And>s x t. m s = (Ok x, t) \<Longrightarrow> R x"
  shows "yields P m (\<lambda>x s. R x \<and> Q x s)"
  unfolding yields_def
proof (intro allI impI)
  fix s assume "P s"
  then obtain x t where "m s = (Ok x, t)" "Q x t" using assms(1) by (auto simp: yields_def)
  then show "\<exists>x t. m s = (Ok x, t) \<and> R x \<and> Q x t" using assms(2) by blast
qed

lemma yields_alloc:
  assumes "u < 256"
  shows "yields (ready u n k) alloc_cap_slot (\<lambda>c s. ac_bits c < 256 \<and> ready (Suc u) n k s)"
  unfolding yields_def
proof (intro allI impI)
  fix s :: "'a loader" assume r: "ready u n k s"
  then have inv: "ucs_inv (csp s)" and c: "card (ucs_used (csp s)) \<le> u" by (simp_all add: ready_def roomy_def csp_def)
  show "\<exists>x t. alloc_cap_slot s = (Ok x, t) \<and> ac_bits x < 256 \<and> ready (Suc u) n k t"
  proof (cases rule: ucs_alloc_cases [OF inv])
    case 1
    then show ?thesis using c assms by simp
  next
    case (2 i cs)
    have "card (ucs_used cs) \<le> Suc u" using 2(6) c by (simp add: card_insert_if finite_used)
    then show ?thesis using 2 r
      by (simp add: alloc_cap_slot_def bnd_def op_run on_part_def csp_def ucs_to_absolute_cptr_def const_defs ready_def roomy_def
          expect_def on_err_def)
  qed
qed

lemma yields_alloc_own:
  assumes "u < 256"
  shows "yields (\<lambda>s. SMOS_RootServerEP \<in> ucs_used (csp s) \<and> ready u n k s) alloc_cap_slot
    (\<lambda>c s. (ac_bits c < 256 \<and> ac_bits c \<noteq> SMOS_RootServerEP) \<and> ready (Suc u) n k s)"
  unfolding yields_def
proof (intro allI impI, elim conjE)
  fix s :: "'a loader" assume root: "SMOS_RootServerEP \<in> ucs_used (csp s)" and r: "ready u n k s"
  obtain c t where c: "alloc_cap_slot s = (Ok c, t)" "ac_bits c < 256" "ready (Suc u) n k t"
    using yields_alloc [OF assms, of n k] r by (auto simp: yields_def)
  have inv: "ucs_inv (csp s)" using r by (simp add: ready_def roomy_def csp_def)
  have "ac_bits c \<noteq> SMOS_RootServerEP"
  proof (cases rule: ucs_alloc_cases [OF inv])
    case 1
    then show ?thesis using c(1) by (simp add: alloc_cap_slot_def bnd_def on_part_def csp_def expect_def on_err_def panic_def)
  next
    case (2 i cs)
    then show ?thesis using c(1) root
      by (auto simp: alloc_cap_slot_def bnd_def op_run on_part_def csp_def ucs_to_absolute_cptr_def expect_def on_err_def
          split: if_splits)
  qed
  with c show "\<exists>x t. alloc_cap_slot s = (Ok x, t) \<and> (ac_bits x < 256 \<and> ac_bits x \<noteq> SMOS_RootServerEP) \<and> ready (Suc u) n k t"
    by blast
qed

lemma yields_ends:
  assumes "yields P m Q" and "\<And>s x t. m s = (Ok x, t) \<Longrightarrow> R x t"
  shows "yields P m (\<lambda>x s. R x s \<and> Q x s)"
  unfolding yields_def
proof (intro allI impI)
  fix s assume "P s"
  then obtain x t where "m s = (Ok x, t)" "Q x t" using assms(1) by (auto simp: yields_def)
  then show "\<exists>x t. m s = (Ok x, t) \<and> R x t \<and> Q x t" using assms(2) by blast
qed

lemma yields_lifted:
  assumes "yields P m (\<lambda>r s. (\<exists>h. f r = Ok h) \<and> Q s)"
  shows "yields P (bnd m (\<lambda>r. lift (f r))) (\<lambda>_. Q)"
  using assms by (fastforce simp: yields_def bnd_def op_run)

lemma yields_ld:
  assumes g: "grants call K"
  shows "yields (ready u n k) (ld_window call v sz cap)
      (\<lambda>h s. (case cap of None \<Rightarrow> \<exists>i. h = Handle i | Some c \<Rightarrow> h = HandleCap c) \<and> ready u n k s)"
    and "yields (ready u n k) (ld_object call sz cap)
      (\<lambda>h s. (case cap of None \<Rightarrow> \<exists>i. h = Handle i | Some c \<Rightarrow> h = HandleCap c) \<and> ready u n k s)"
    and "yields (ready u n k) (ld_view call w ob sz rights) (\<lambda>_. ready u n k)"
proof -
  show "yields (ready u n k) (ld_window call v sz cap)
      (\<lambda>h s. (case cap of None \<Rightarrow> \<exists>i. h = Handle i | Some c \<Rightarrow> h = HandleCap c) \<and> ready u n k s)"
    by (rule yields_also [OF _ handle_kind(1)], unfold ld_window_def, rule yields_lifted, rule yields_rs)
      (rule granted(1) [OF g, unfolded is_hndl_cap_def])
  show "yields (ready u n k) (ld_object call sz cap)
      (\<lambda>h s. (case cap of None \<Rightarrow> \<exists>i. h = Handle i | Some c \<Rightarrow> h = HandleCap c) \<and> ready u n k s)"
    by (rule yields_also [OF _ handle_kind(2)], unfold ld_object_def, rule yields_lifted, rule yields_rs)
      (rule granted(2) [OF g, unfolded is_hndl_cap_def])
  show "yields (ready u n k) (ld_view call w ob sz rights) (\<lambda>_. ready u n k)"
    by (unfold ld_view_def, rule yields_lifted, rule yields_rs) (rule granted(3) [OF g, unfolded is_hndl_def])
qed

lemma yields_mono: "yields P m Q \<Longrightarrow> (\<And>x s. Q x s \<Longrightarrow> Q' x s) \<Longrightarrow> yields P m Q'"
  by (fastforce simp: yields_def)

definition caps_ok :: "fs_session \<Rightarrow> bool" where
  "caps_ok fs \<longleftrightarrow> fs_ep fs < 256 \<and> fs_ep fs \<noteq> SMOS_RootServerEP \<and> (\<forall>c. fs_obj fs = HandleCap c \<longrightarrow> ac_bits c < 256) \<and> (\<forall>c. fs_win fs \<noteq> HandleCap c)"

lemma yields_connect:
  assumes g: "grants call K" and u: "Suc u < 256" and n: "length name + 1 \<le> n"
  shows "yields (\<lambda>s. SMOS_RootServerEP \<in> ucs_used (csp s) \<and> ready u n 0 s) (connect_fs call name)
    (\<lambda>fs s. caps_ok fs \<and> ready (u + 2) n 4096 s)"
proof -
  have op: "yields (ready v n k) (with_fs (conn_open (call slot) (Some (obj, mem_read m a 4096)))) (\<lambda>x s. True \<and> ready v n 4096 s)"
    if "slot \<noteq> SMOS_RootServerEP" for v k slot obj m a
    using yields_fs [OF granted(8) [OF g that]] by (metis length_mem_read)
  have cr: "yields (ready v n k) (bnd (with_rs (conn_create (call SMOS_RootServerEP) c name)) (\<lambda>r. lift (local_hndl r))) (\<lambda>_. ready v n k)" for v k c
    by (rule yields_lifted, rule yields_rs) (rule granted_named(1) [OF g n, unfolded is_hndl_def])
  show ?thesis
    unfolding connect_fs_def
    apply (rule yields_bnd [OF yields_alloc_own], use u in simp)
    apply (rule yields_pure, rule yields_bnd [OF yields_expect [OF cr]])
    apply (rule yields_bnd [OF yields_expect [OF yields_ld(1) [OF g]]], rule yields_pure)
    apply (rule yields_bnd [OF yields_alloc], use u in simp)
    apply (rule yields_pure, rule yields_bnd [OF yields_expect [OF yields_ld(2) [OF g]]], rule yields_pure)
    apply (rule yields_bnd [OF yields_expect [OF yields_ld(3) [OF g]]])
    apply (rule yields_bnd [where R = "\<lambda>b s. (\<exists>m a. b = mem_read m a 4096) \<and> ready (Suc (Suc u)) n 0 s"])
     apply (simp add: yields_def op_run, blast)
    apply (rule yields_pure, elim exE conjE, simp only:)
    apply (rule yields_bnd [OF yields_expect [OF op]], assumption)
    apply (rule yields_retI)
    apply (auto simp: caps_ok_def)
    done
qed

lemma invoke_ends_Ok:
  "invoke call req k c = (Ok x, t) \<Longrightarrow> \<exists>mi c1. req c = (Ok mi, c1) \<and> k (fst (call mi c1)) (snd (call mi c1)) = (Ok x, t)"
  by (auto simp: invoke_def bnd_eq_Ok case_prod_unfold)

text \<open>What the file server tells of the file.\<close>

lemma file_stat:
  assumes f: "has_file call bytes" and slot: "slot \<noteq> SMOS_RootServerEP"
    and run: "obj_stat (call slot) h c = (Ok r, c')" and sz: "stat_size r = (Ok n :: ('e, nat) outcome)"
  shows "n = length bytes"
proof -
  obtain mi c1 where r: "request (C_obj_stat h) c = (Ok mi, c1)"
    and k: "stat_size r = (Ok (unat (msg_regs (cl_ipc (snd (call slot mi c1))) 0)) :: ('e, nat) outcome)"
    using invoke_ends_Ok [OF run [unfolded obj_stat_def]] by (auto simp: bnd_eq_Ok reply_reg_def op_run stat_size_def)
  have "msg_regs (cl_ipc (snd (call slot mi c1))) 0 = of_nat (length bytes)" using f slot r unfolding has_file_def by metis
  then show ?thesis using k sz f by (simp add: has_file_def unat_of_nat take_bit_nat_eq_self)
qed

lemma file_viewed:
  assumes f: "has_file call bytes" and slot: "slot \<noteq> SMOS_RootServerEP"
    and run: "view (call slot) w h 0 0 (of_nat (length bytes)) rs c = (Ok r, c')"
  shows "mem_read (snd (cl_kern c')) ELF_BASE (length bytes) = bytes"
proof -
  obtain mi c1 where r: "request (C_view w h 0 0 (of_nat (length bytes)) rs) c = (Ok mi, c1)"
    and k: "c' = snd (call slot mi c1)"
    using invoke_ends_Ok [OF run [unfolded view_def]]
    by (auto simp: bnd_eq_Ok ret_hndl_def reply_reg_def op_run split: if_splits)
  show ?thesis using f slot r unfolding has_file_def k by metis
qed

lemma with_fs_ends:
  assumes "with_fs m s = (Ok x, t)"
  shows "\<exists>c. m ((ld_client s)\<lparr>cl_buf := ld_fs_buf s\<rparr>) = (Ok x, c) \<and> ld_mem t = snd (cl_kern c)"
  using assms by (auto simp: with_fs_def ld_mem_def split: prod.splits)

lemma yields_map_elf:
  assumes g: "grants call K" and u: "u < 256" and k: "length name + 1 \<le> k" and f: "has_file call bytes"
    and p: "parse bytes = Some elf" and fs: "caps_ok fs"
  shows "yields (ready u n k) (map_elf call parse fs name)
    (\<lambda>(es, elf') s. (elf' = elf \<and> (\<forall>c. es_win es = HandleCap c \<longrightarrow> ac_bits c < 256)) \<and> ready (Suc u) n k s)"
proof -
  have ep: "fs_ep fs \<noteq> SMOS_RootServerEP" using fs by (simp add: caps_ok_def)
  have op: "yields (ready v n k) (bnd (with_fs (obj_open (call (fs_ep fs)) name rs cap)) (\<lambda>r. lift (hndl_or_cap r))) (\<lambda>_. ready v n k)" for v rs cap
    by (rule yields_lifted, rule yields_fs) (rule granted_named(2) [OF g k ep, unfolded is_hndl_cap_def])
  have st: "yields (ready v n k) (bnd (with_fs (obj_stat (call (fs_ep fs)) h)) (\<lambda>r. lift (stat_size r)))
      (\<lambda>sz s. sz = length bytes \<and> ready v n k s)" for v h
  proof (rule yields_ends)
    show "yields (ready v n k) (bnd (with_fs (obj_stat (call (fs_ep fs)) h)) (\<lambda>r. lift (stat_size r))) (\<lambda>_. ready v n k)"
      by (rule yields_lifted, rule yields_fs) (rule granted(4) [OF g ep, unfolded is_stat_def])
  next
    fix s sz t assume "bnd (with_fs (obj_stat (call (fs_ep fs)) h)) (\<lambda>r. lift (stat_size r)) s = (Ok sz, t)"
    then show "sz = length bytes" by (auto simp: bnd_eq_Ok op_run dest!: with_fs_ends file_stat [OF f ep])
  qed
  have vw: "yields (ready v n k) (bnd (with_fs (view (call (fs_ep fs)) w ob 0 0 (of_nat (length bytes)) rs)) (\<lambda>r. lift (local_hndl r)))
      (\<lambda>_ s. mem_read (ld_mem s) ELF_BASE (length bytes) = bytes \<and> ready v n k s)" for v w ob rs
  proof (rule yields_ends)
    show "yields (ready v n k) (bnd (with_fs (view (call (fs_ep fs)) w ob 0 0 (of_nat (length bytes)) rs)) (\<lambda>r. lift (local_hndl r))) (\<lambda>_. ready v n k)"
      by (rule yields_lifted, rule yields_fs) (rule granted(3) [OF g, unfolded is_hndl_def])
  next
    fix s x t assume "bnd (with_fs (view (call (fs_ep fs)) w ob 0 0 (of_nat (length bytes)) rs)) (\<lambda>r. lift (local_hndl r)) s = (Ok x, t)"
    then show "mem_read (ld_mem t) ELF_BASE (length bytes) = bytes"
      by (auto simp: bnd_eq_Ok op_run dest!: with_fs_ends file_viewed [OF f ep])
  qed
  show ?thesis
    unfolding map_elf_def
    apply (rule yields_bnd [OF yields_expect [OF op]], rule yields_bnd [OF yields_expect [OF st]])
    apply (rule yields_pure, simp only:)
    apply (rule yields_bnd [OF yields_alloc [OF u]], rule yields_pure)
    apply (rule yields_bnd [OF yields_expect [OF yields_ld(1) [OF g]]], rule yields_pure)
    apply (rule yields_bnd [OF yields_expect [OF vw]])
    apply (simp add: p unwrap_def yields_def bnd_def op_run)
    done
qed

text \<open>A segment the loader accepts.\<close>

definition loadable :: "program_header \<times> u8 list option \<Rightarrow> bool" where
  "loadable x \<longleftrightarrow> ph_filesz (fst x) \<le> ph_memsz (fst x) \<and> total_size (fst x) \<noteq> (Panic :: (InvocationError, nat) outcome) \<and>
     (\<exists>bytes. snd x = Some bytes \<and> ph_filesz (fst x) \<le> length bytes)"

lemma yields_in_memory:
  assumes "\<And>m. \<exists>x m'. w m = (Ok x, m')"
  shows "yields (ready u n k) (in_memory w) (\<lambda>_. ready u n k)"
  unfolding yields_def
proof (intro allI impI)
  fix s assume r: "ready u n k s"
  obtain x m' where "w (ld_mem s) = (Ok x, m')" using assms by blast
  then show "\<exists>x t. in_memory w s = (Ok x, t) \<and> ready u n k t"
    using r by (simp add: in_memory_def on_part_def ready_def roomy_def)
qed

lemma yields_segment:
  assumes g: "grants call K" and l: "loadable x"
  shows "yields (ready u n k) (load_segment call x) (\<lambda>_. ready u n k)"
proof -
  obtain segment bytes where x: "x = (segment, Some bytes)" and f: "ph_filesz segment \<le> ph_memsz segment" "ph_filesz segment \<le> length bytes"
    and t: "total_size segment \<noteq> (Panic :: (InvocationError, nat) outcome)" using l by (cases x) (auto simp: loadable_def)
  have "(total_size segment :: (InvocationError, nat) outcome) \<noteq> Err e" for e
    by (simp add: total_size_def add_us_def)
  then obtain total where total: "total_size segment = (Ok total :: (InvocationError, nat) outcome)"
    using t by (cases "total_size segment :: (InvocationError, nat) outcome") auto
  have claim: "claim_window call v sz (Ok h) = ret (Some (h, sz))" for v sz h
    by (subst claim_window.simps) simp
  have wr: "yields (ready u n k) (in_memory (modify f)) (\<lambda>_. ready u n k)" for f
    by (rule yields_in_memory) (simp add: op_run)
  show ?thesis
    unfolding load_segment_def x prod.case
    apply (simp only: split: if_splits)
    apply (intro conjI impI, rule yields_ret)
    apply (rule yields_bnd [where R = "\<lambda>_. ready u n k"], rule yields_ensure, use f in simp)
    apply (rule yields_bnd [where R = "\<lambda>t s. t = total \<and> ready u n k s"], simp add: yields_def op_run total)
    apply (rule yields_pure)
    apply (rule yields_bnd [where R = "\<lambda>r s. (\<exists>h. r = Ok h) \<and> ready u n k s"], rule yields_attempt [OF yields_ld(1) [OF g]], blast)
    apply (rule yields_pure, elim exE, simp only: claim bnd_simps option.case prod.case)
    apply (rule yields_bnd [where R = "\<lambda>_. ready u n k"])
     apply (rule yields_bnd [OF yields_expect [OF yields_ld(2) [OF g]]], rule yields_pure)
     apply (rule yields_bnd [OF yields_expect [OF yields_ld(3) [OF g]]], rule yields_ret)
    apply (rule yields_bnd [where R = "\<lambda>b s. b = bytes \<and> ready u n k s"], simp add: yields_def op_run)
    apply (rule yields_pure)
    apply (rule yields_bnd [where R = "\<lambda>_. ready u n k"], rule yields_ensure, use f in simp)
    apply (rule yields_bnd [OF wr], rule yields_ret)
    done
qed

lemma yields_segments:
  assumes g: "grants call K" and "\<forall>x\<in>set xs. loadable x"
  shows "yields (ready u n k) (load_all_segments call xs) (\<lambda>_. ready u n k)"
  using assms(2)
proof (induction xs)
  case (Cons x xs)
  show ?case unfolding load_all_segments.simps
    by (rule yields_bnd [OF yields_segment [OF g]], use Cons.prems in simp)
      (rule yields_bnd [OF Cons.IH], use Cons.prems in simp, rule yields_ret)
qed (simp add: yields_ret)

lemma yields_remap:
  assumes g: "grants call K"
  shows "yields (ready u n k) (for_each (remap_segment call) xs) (\<lambda>_. ready u n k)"
proof (induction xs)
  case (Cons x xs)
  have un: "yields (ready u n k) (expect (with_rs (unview (call SMOS_RootServerEP) v))) (\<lambda>_. ready u n k)" for v
    using yields_expect [OF yields_rs [OF granted(5) [OF g]]] by simp
  have "yields (ready u n k) (remap_segment call x) (\<lambda>_. ready u n k)"
    unfolding remap_segment_def
    by (auto intro!: yields_ret yields_bnd [OF un] yields_bnd [OF yields_expect [OF yields_ld(3) [OF g]]])
  then show ?case unfolding for_each.simps by (rule yields_bnd) (rule Cons.IH)
qed (simp add: yields_ret)

lemma yields_map_stack:
  assumes g: "grants call K"
  shows "yields (ready u n k) (map_stack call) (\<lambda>_. ready u n k)"
  unfolding map_stack_def Let_def
  by (rule yields_bnd [OF yields_expect [OF yields_ld(1) [OF g]]], rule yields_pure)
    (rule yields_bnd [OF yields_expect [OF yields_ld(2) [OF g]]], rule yields_pure,
     rule yields_bnd [OF yields_expect [OF yields_ld(3) [OF g]]], rule yields_ret)

text \<open>The environment of a runtime that has started.\<close>

definition env_started :: "runtime \<Rightarrow> bool" where
  "env_started rt \<longleftrightarrow> (case rt_env rt of None \<Rightarrow> False
     | Some e \<Rightarrow> ei_index e = 0 \<and> ENVP_MIN_SIZE \<le> ei_size e \<and> ei_size e \<le> length (ei_inner e))"

lemma write_stack_returns:
  assumes env: "env_started rt" and n: "length args < 2 ^ 32" and room: "strings_len args + 8 * length args + 100 \<le> 409600"
  shows "\<exists>sp m'. write_stack rt args m = ((Ok sp :: (InvocationError, nat) outcome), m')"
proof -
  let ?T = LOADER_STACK_TOP
  have T: "?T = 0xA0000000" by (simp add: const_defs)
  obtain e where e: "rt_env rt = Some e" "ei_index e = 0" "3 \<le> ei_size e" "ei_size e \<le> length (ei_inner e)"
    using env by (auto simp: env_started_def const_defs split: option.splits)
  have push: "\<exists>m'. push_u64s sp ws m = ((Ok (sp - 8 * length ws) :: (InvocationError, nat) outcome), m')" if "8 * length ws \<le> sp" for sp ws m
    using push_u64s_run [OF that] by blast
  have v: "\<exists>x. ipc_buffer m rt = (Ok x :: (InvocationError, nat) outcome)" "\<exists>x. rs_shared_buf m rt = (Ok x :: (InvocationError, nat) outcome)" for m
    using e by (simp_all add: ipc_buffer_def rs_shared_buf_def const_defs env_value_run)
  have "\<exists>m'. push_envp rt m = ((Ok (?T - 56) :: (InvocationError, nat) outcome), m')" for m
  proof -
    obtain m1 where 1: "push_u64s ?T [0xA0000000] m = ((Ok (?T - 8) :: (InvocationError, nat) outcome), m1)"
      using push [of "[0xA0000000]" ?T m] by (auto simp: T)
    obtain ipc where 2: "ipc_buffer m1 rt = (Ok ipc :: (InvocationError, nat) outcome)" using v by blast
    obtain m2 where 3: "push_u64s (?T - 8) [of_nat ipc] m1 = ((Ok (?T - 16) :: (InvocationError, nat) outcome), m2)"
      using push [of "[of_nat ipc]" "?T - 8" m1] by (auto simp: T)
    obtain sh where 4: "rs_shared_buf m2 rt = (Ok sh :: (InvocationError, nat) outcome)" using v by blast
    obtain m3 where 5: "push_u64s (?T - 16) [of_nat sh] m2 = ((Ok (?T - 24) :: (InvocationError, nat) outcome), m3)"
      using push [of "[of_nat sh]" "?T - 16" m2] by (auto simp: T)
    show ?thesis
      using push [of "[of_nat (?T - 8), of_nat (?T - 16), of_nat (?T - 24), 0]" "?T - 24" m3]
      by (simp add: push_envp_def bnd_def 1 2 3 4 5) (simp add: T)
  qed
  then obtain m1 where 1: "push_envp rt m = ((Ok (?T - 56) :: (InvocationError, nat) outcome), m1)" by blast
  have "strings_len args + 8 * length args + 8 \<le> ?T - 56" "?T - 56 < 2 ^ 64" using room by (simp_all add: T)
  from push_argv_run [OF this, of m1] obtain sp' argv_ptr argv m2 where
    2: "push_argv (?T - 56) args m1 = ((Ok (sp', argv_ptr, argv) :: (InvocationError, nat \<times> nat \<times> u64 list) outcome), m2)"
    and sp': "?T - 56 - (strings_len args + 8 * length args + 7) \<le> sp'" and l: "list_all2 (placed m2 sp' (?T - 56)) argv args" by blast
  have "100 \<le> sp'" using sp' room by (simp add: T)
  then have big: "8 \<le> sp'" "8 \<le> sp' - 8" "4 \<le> sp' - 16" by simp_all
  obtain m3 where 3: "push_u64s sp' [of_nat (?T - 56)] m2 = ((Ok (sp' - 8) :: (InvocationError, nat) outcome), m3)"
    using push [of "[of_nat (?T - 56)]" sp' m2] big by auto
  obtain m4 where 4: "push_u64s (sp' - 8) [of_nat argv_ptr] m3 = ((Ok (sp' - 16) :: (InvocationError, nat) outcome), m4)"
    using push [of "[of_nat argv_ptr]" "sp' - 8" m3] big by auto
  obtain m5 where 5: "push_bytes (sp' - 16) (bytes_of_u32 (of_nat (length argv))) m4 = ((Ok (sp' - 20) :: (InvocationError, nat) outcome), m5)"
    using push_bytes_run [of "bytes_of_u32 (of_nat (length argv))" "sp' - 16" m4] big by auto
  have "length argv < 2 ^ 32" using list_all2_lengthD [OF l] n by simp
  then have "write_stack rt args m = ((Ok (sp' - 20) :: (InvocationError, nat) outcome), m5)"
    unfolding write_stack_def using 1 2 3 4 5 by (simp add: bnd_def ensure_def ret_def)
  then show ?thesis by blast
qed

lemma yields_close:
  assumes g: "grants call K" and fs: "caps_ok fs" and c: "\<forall>c. es_win es = HandleCap c \<longrightarrow> ac_bits c < 256"
  shows "yields (ready u n k) (close_elf call K fs es) (\<lambda>_. ready u n k)"
proof -
  have ep: "fs_ep fs \<noteq> SMOS_RootServerEP" using fs by (simp add: caps_ok_def)
  show ?thesis
    unfolding close_elf_def
    by (rule yields_bnd [OF yields_expect [OF yields_fs [OF granted(5) [OF g]]]], rule yields_pure)
      (rule yields_bnd [OF yields_expect [OF yields_fs [OF granted(6) [OF g ep]]]], rule yields_pure,
       rule yields_bnd [OF yields_expect [OF yields_rs [OF yields_drops(1) [OF g c]]]], rule yields_pure, rule yields_ret)
qed

lemma yields_disconnect:
  assumes g: "grants call K" and c: "caps_ok fs"
  shows "yields (ready u n k) (disconnect_fs call K fs) (\<lambda>_. ready u n 0)"
proof -
  have c1: "fs_ep fs < 256" "\<forall>c. fs_obj fs = HandleCap c \<longrightarrow> ac_bits c < 256" "\<forall>c. fs_win fs = HandleCap c \<longrightarrow> ac_bits c < 256"
    and ep: "fs_ep fs \<noteq> SMOS_RootServerEP"
    using c by (auto simp: caps_ok_def)
  show ?thesis
    unfolding disconnect_fs_def
    by (rule yields_bnd [OF yields_expect [OF yields_fs [OF granted(7) [OF g ep]]]], rule yields_pure)
      (rule yields_bnd [OF yields_expect [OF yields_rs [OF yields_drops(3) [OF g c1(1)]]]], rule yields_pure,
       rule yields_bnd [OF yields_expect [OF yields_rs [OF granted(5) [OF g]]]], rule yields_pure,
       rule yields_bnd [OF yields_expect [OF yields_rs [OF yields_drops(2) [OF g c1(2)]]]], rule yields_pure,
       rule yields_bnd [OF yields_expect [OF yields_rs [OF yields_drops(1) [OF g c1(3)]]]], rule yields_pure, rule yields_ret)
qed

section \<open>The whole program\<close>

text \<open>What the loader is given: two arguments that fit the data buffers, more that fit the stack, three
  free slots (that of the root server's endpoint is taken), and a file that parses to segments it can load.\<close>

definition can_load ::
  "(u8 list \<Rightarrow> elf_file option) \<Rightarrow> u8 list \<Rightarrow> elf_file \<Rightarrow> runtime \<Rightarrow> rust_str list \<Rightarrow> 'k loader \<Rightarrow> bool" where
  "can_load parse bytes elf rt args s \<longleftrightarrow>
     args_collect (ld_mem s) rt = Ok args \<and> 2 \<le> length args \<and> length args < 2 ^ 32 \<and> env_started rt \<and>
     strings_len (drop 2 args) + 8 * length (drop 2 args) + 100 \<le> LOADER_STACK_PAGES * PAGE_SIZE_4K \<and>
     length (args ! 0) < 4096 \<and> (\<exists>b. cl_buf (ld_client s) = Some b \<and> length (args ! 1) < length b) \<and>
     ucs_inv (csp s) \<and> card (ucs_used (csp s)) \<le> 253 \<and> SMOS_RootServerEP \<in> ucs_used (csp s) \<and>
     parse bytes = Some elf \<and> (\<exists>segs. elf_segments elf = Some segs \<and> (\<forall>x\<in>set segs. loadable x))"

lemma yields_tail:
  assumes g: "grants (call :: 'k ld_call) K" and fs: "caps_ok fs" and es: "\<forall>c. es_win es = HandleCap c \<longrightarrow> ac_bits c < 256"
    and segs: "elf_segments elf = Some segs" "\<forall>x\<in>set segs. loadable x"
    and w: "\<And>m. \<exists>sp m'. write_stack rt args m = ((Ok sp :: (InvocationError, nat) outcome), m')"
  shows "yields (ready u n k)
    (bnd (lift (unwrap (elf_segments elf))) (\<lambda>segments.
     bnd (load_all_segments call segments) (\<lambda>mapped.
     bnd (for_each (remap_segment call) mapped) (\<lambda>_.
     bnd (map_stack call) (\<lambda>_.
     bnd (in_memory (write_stack rt args)) (\<lambda>sp.
     bnd (close_elf call K fs es) (\<lambda>_.
     bnd (disconnect_fs call K fs) (\<lambda>_.
     ret (elf_entry elf, sp)))))))))
    (\<lambda>x _. fst x = elf_entry elf)"
proof (rule yields_bnd [where R = "\<lambda>x s. x = segs \<and> ready u n k s"])
  show "yields (ready u n k) (lift (unwrap (elf_segments elf))) (\<lambda>x s. x = segs \<and> ready u n k s)"
    by (simp add: yields_def op_run segs(1))
next
  fix x
  have 1: "yields (ready u n k) (load_all_segments call segs) (\<lambda>_. ready u n k)" by (rule yields_segments [OF g segs(2)])
  have 2: "yields (ready u n k) (in_memory (write_stack rt args) :: ('k, nat) ld_op) (\<lambda>_. ready u n k)" by (rule yields_in_memory) (rule w)
  show "yields (\<lambda>s. x = segs \<and> ready u n k s)
    (bnd (load_all_segments call x) (\<lambda>mapped.
     bnd (for_each (remap_segment call) mapped) (\<lambda>_.
     bnd (map_stack call) (\<lambda>_.
     bnd (in_memory (write_stack rt args)) (\<lambda>sp.
     bnd (close_elf call K fs es) (\<lambda>_.
     bnd (disconnect_fs call K fs) (\<lambda>_.
     ret (elf_entry elf, sp)))))))) (\<lambda>x _. fst x = elf_entry elf)"
    by (rule yields_pure, simp only:)
      (rule yields_bnd [OF 1], rule yields_bnd [OF yields_remap [OF g]], rule yields_bnd [OF yields_map_stack [OF g]],
       rule yields_bnd [OF 2], rule yields_bnd [OF yields_close [OF g fs es]], rule yields_bnd [OF yields_disconnect [OF g fs]],
       rule yields_retI, simp)
qed

lemma load_program_runs:
  assumes g: "grants call K" and f: "has_file call bytes" and c: "can_load parse bytes elf rt args s"
  shows "\<exists>sp t. load_program call K parse rt s = (Ok (elf_entry elf, sp), t)"
proof -
  obtain segs where segs: "elf_segments elf = Some segs" "\<forall>x\<in>set segs. loadable x" using c by (auto simp: can_load_def)
  let ?n = "length (args ! 1) + 1"
  have a: "args_collect (ld_mem s) rt = Ok args" "2 \<le> length args" and r: "SMOS_RootServerEP \<in> ucs_used (csp s) \<and> ready 253 ?n 0 s"
    and k: "length (args ! 0) + 1 \<le> 4096" and p: "parse bytes = Some elf"
    using c by (auto simp: can_load_def ready_def roomy_def csp_def)
  have w: "\<exists>sp m'. write_stack rt (drop 2 args) m = ((Ok sp :: (InvocationError, nat) outcome), m')" for m
    by (rule write_stack_returns) (use c in \<open>simp_all add: can_load_def const_defs BIT_def\<close>)
  have "yields (\<lambda>s. SMOS_RootServerEP \<in> ucs_used (csp s) \<and> ready 253 ?n 0 s)
    (bnd (connect_fs call (args ! 1)) (\<lambda>fs.
     bnd (map_elf call parse fs (args ! 0)) (\<lambda>(es, elf).
     bnd (lift (unwrap (elf_segments elf))) (\<lambda>segments.
     bnd (load_all_segments call segments) (\<lambda>mapped.
     bnd (for_each (remap_segment call) mapped) (\<lambda>_.
     bnd (map_stack call) (\<lambda>_.
     bnd (in_memory (write_stack rt (drop 2 args))) (\<lambda>sp.
     bnd (close_elf call K fs es) (\<lambda>_.
     bnd (disconnect_fs call K fs) (\<lambda>_.
     ret (elf_entry elf, sp)))))))))))
    (\<lambda>x _. fst x = elf_entry elf)"
  proof (rule yields_bnd [OF yields_connect [OF g]])
    show "Suc 253 < 256" "length (args ! 1) + 1 \<le> ?n" by simp_all
  next
    fix fs
    show "yields (\<lambda>s. caps_ok fs \<and> ready (253 + 2) ?n 4096 s)
      (bnd (map_elf call parse fs (args ! 0)) (\<lambda>(es, elf).
       bnd (lift (unwrap (elf_segments elf))) (\<lambda>segments.
       bnd (load_all_segments call segments) (\<lambda>mapped.
       bnd (for_each (remap_segment call) mapped) (\<lambda>_.
       bnd (map_stack call) (\<lambda>_.
       bnd (in_memory (write_stack rt (drop 2 args))) (\<lambda>sp.
       bnd (close_elf call K fs es) (\<lambda>_.
       bnd (disconnect_fs call K fs) (\<lambda>_.
       ret (elf_entry elf, sp))))))))))
      (\<lambda>x _. fst x = elf_entry elf)"
    proof (rule yields_pure, rule yields_bnd [OF yields_map_elf [where parse = parse and elf = elf, OF g _ k f p]])
      fix x assume fs: "caps_ok fs"
      show "yields ((\<lambda>(es, elf') s. (elf' = elf \<and> (\<forall>c. es_win es = HandleCap c \<longrightarrow> ac_bits c < 256)) \<and> ready (Suc (253 + 2)) ?n 4096 s) x)
        (case x of (es, elf) \<Rightarrow>
          bnd (lift (unwrap (elf_segments elf))) (\<lambda>segments.
          bnd (load_all_segments call segments) (\<lambda>mapped.
          bnd (for_each (remap_segment call) mapped) (\<lambda>_.
          bnd (map_stack call) (\<lambda>_.
          bnd (in_memory (write_stack rt (drop 2 args))) (\<lambda>sp.
          bnd (close_elf call K fs es) (\<lambda>_.
          bnd (disconnect_fs call K fs) (\<lambda>_.
          ret (elf_entry elf, sp)))))))))
        (\<lambda>x _. fst x = elf_entry elf)"
        by (cases x, simp only: prod.case, rule yields_pure, elim conjE, simp only:, rule yields_tail [OF g fs _ segs w])
    qed simp_all
  qed
  then obtain y t where "fst y = elf_entry elf" and "load_program call K parse rt s = (Ok y, t)"
    using r a by (auto simp: yields_def load_program_def bnd_def op_run expect_def on_err_def)
  then show ?thesis by (cases y) auto
qed

text \<open>C39: The loader reaches its jump, to the file's entry point, and every capability slot it allocated is
  free again.  The conditions are: every request the loader makes of the root server and of the file
  server is answered with a reply that grants it, in the shape the servers give that reply; the
  file server tells the file's size and shows the file's bytes in the window it is asked to view it in;
  they parse to an ELF file whose segments the loader accepts; there are two arguments that fit the data
  buffers, and the rest fits the new stack; and three slots are free, the root server's endpoint not among
  them.\<close>

theorem loader_completes:
  assumes "grants call K" and "has_file call bytes" and "can_load parse bytes elf rt args s"
  shows "\<exists>sp t. load_program call K parse rt s = (Ok (elf_entry elf, sp), t) \<and> ucs_used (csp t) = ucs_used (csp s)"
proof -
  obtain sp t where run: "load_program call K parse rt s = (Ok (elf_entry elf, sp), t)" using load_program_runs [OF assms] by blast
  have "spares_cspace call" using assms(1) by (simp add: spares_cspace_def grants_def)
  from load_program_slots [OF this run] have "in_use (ucs_used (csp s)) t"
    using assms(3) by (simp add: in_use_def can_load_def)
  then show ?thesis using run by (auto simp: in_use_def)
qed

definition yes_kernel :: "'k sel4" where
  "yes_kernel =
     \<lparr>k_physical_size_bits = (\<lambda>_. 12), k_untyped_retype = (\<lambda>_ _ _ _ _ k. (None, k)), k_cnode_delete = (\<lambda>_ k. (None, k)),
      k_cnode_revoke = (\<lambda>_ k. (None, k)), k_cnode_copy = (\<lambda>_ _ _ k. (None, k)), k_cnode_mint = (\<lambda>_ _ _ _ k. (None, k)),
      k_frame_map = (\<lambda>_ _ _ _ _ k. (None, k)), k_pt_map = (\<lambda>_ _ _ k. (None, k)), k_irq_control_get = (\<lambda>_ _ _ k. (None, k)),
      k_irq_set_notification = (\<lambda>_ _ k. (None, k))\<rparr>"

text \<open>A file of four bytes, and servers that answer each request as it asks.\<close>

definition demo_file :: "u8 list" where
  "demo_file = [127, 69, 76, 70]"

definition yes_info :: "msginfo \<Rightarrow> ipc_buf \<Rightarrow> msginfo" where
  "yes_info mi b =
     (case invocation_try_from (mi_label mi) of
        Some L_WindowCreate \<Rightarrow> if msg_regs b 2 = 0 then mk_msginfo NoErrorLabel 1 0 else mk_msginfo NoErrorLabel 0 1
      | Some L_ObjCreate \<Rightarrow> if msg_regs b 4 = 0 then mk_msginfo NoErrorLabel 1 0 else mk_msginfo NoErrorLabel 0 1
      | Some L_ObjOpen \<Rightarrow> if msg_regs b 1 = 0 then mk_msginfo NoErrorLabel 1 0 else mk_msginfo NoErrorLabel 0 1
      | Some L_ConnCreate \<Rightarrow> mk_msginfo NoErrorLabel 1 1
      | Some L_View \<Rightarrow> mk_msginfo NoErrorLabel 1 0
      | Some L_ObjStat \<Rightarrow> mk_msginfo NoErrorLabel 2 0
      | _ \<Rightarrow> mk_msginfo NoErrorLabel 0 0)"

definition yes_call :: "unit ld_call" where
  "yes_call slot mi c =
     (yes_info mi (cl_ipc c),
      if mi_label mi = invocation_label L_ObjStat then c\<lparr>cl_ipc := set_reg 1 0 (set_reg 0 (of_nat (length demo_file)) (cl_ipc c))\<rparr>
      else if mi_label mi = invocation_label L_View \<and> slot \<noteq> SMOS_RootServerEP
      then c\<lparr>cl_kern := map_prod id (mem_write ELF_BASE demo_file) (cl_kern c)\<rparr> else c)"

lemma success_hndl:
  assumes "\<And>h. reply_result c (f h) = hndl_result cap h" and "\<And>b h. handle_reply b (f h) = Ok (match_hndl_or_hndl_cap h b)"
  shows "success c (if cap = None then mk_msginfo NoErrorLabel 1 0 else mk_msginfo NoErrorLabel 0 1) b"
proof (cases cap)
  case None
  then show ?thesis using assms
    by (auto simp: success_def delivered_def mk_msginfo_def intro!: exI [of _ "f (Handle (msg_regs b 0))"] exI [of _ b])
next
  case (Some slot)
  then show ?thesis using assms
    by (auto simp: success_def delivered_def mk_msginfo_def intro!: exI [of _ "f (HandleCap slot)"] exI [of _ b])
qed

lemma success_plain:
  assumes "reply_result c r = Some x" and "\<And>b. handle_reply b r = Ok (mk_msginfo NoErrorLabel 0 0, b)"
  shows "success c (mk_msginfo NoErrorLabel 0 0) b"
  using assms by (auto simp: success_def delivered_def mk_msginfo_def intro!: exI [of _ r] exI [of _ b])

lemma request_label: "request c cl = (Ok mi, cl1) \<Longrightarrow> asked slot c \<Longrightarrow> mi_label mi = invocation_label (call_label c)"
  by (cases c) (auto simp: request_simps asked_def split: if_splits option.splits HandleOrHandleCap.splits prod.splits)

lemma request_return_cap:
  "request (C_window_create v sz cap) cl = (Ok mi, cl1) \<Longrightarrow> msg_regs (cl_ipc cl1) 2 = 0 \<longleftrightarrow> cap = None"
  "request (C_obj_create nm sz rs at cap) cl = (Ok mi, cl1) \<Longrightarrow> msg_regs (cl_ipc cl1) 4 = 0 \<longleftrightarrow> cap = None"
  "request (C_obj_open name rs cap) cl = (Ok mi, cl1) \<Longrightarrow> msg_regs (cl_ipc cl1) 1 = 0 \<longleftrightarrow> cap = None"
  by (auto simp: request_simps split: option.splits)

lemma label_eq: "invocation_label a = invocation_label b \<longleftrightarrow> a = b"
  by (metis invocation_roundtrip option.inject)

lemma yes_success:
  assumes "asked slot c" and "request c cl = (Ok mi, cl1)"
  shows "success c (fst (yes_call slot mi cl1)) (cl_ipc (snd (yes_call slot mi cl1)))"
proof -
  have l: "invocation_try_from (mi_label mi) = Some (call_label c)" "mi_label mi = invocation_label (call_label c)"
    using request_label [OF assms(2,1)] by simp_all
  note defs = yes_call_def yes_info_def l label_eq
  have plain: "success (C_conn_destroy x e) (mk_msginfo NoErrorLabel 0 0) b" "success (C_window_destroy h) (mk_msginfo NoErrorLabel 0 0) b"
      "success (C_obj_destroy h) (mk_msginfo NoErrorLabel 0 0) b" "success (C_obj_close h) (mk_msginfo NoErrorLabel 0 0) b"
      "success (C_unview x) (mk_msginfo NoErrorLabel 0 0) b" "success (C_conn_open y) (mk_msginfo NoErrorLabel 0 0) b"
      "success C_conn_close (mk_msginfo NoErrorLabel 0 0) b" for x e h y b
    using success_plain [of _ Re_ConnDestroy] success_plain [of _ Re_WindowDestroy] success_plain [of _ Re_ObjDestroy]
      success_plain [of _ Re_ObjClose] success_plain [of _ Re_Unview] success_plain [of _ Re_ConnOpen] success_plain [of _ Re_ConnClose]
    by simp_all
  show ?thesis
  proof (cases c)
    case (C_conn_create dst name)
    then show ?thesis
      by (auto simp: defs success_def delivered_def mk_msginfo_def
          intro!: exI [of _ "Re_ConnCreate (msg_regs (cl_ipc cl1) 0) 0"] exI [of _ "cl_ipc cl1"] simp del: invocation_label.simps)
  next
    case (C_window_create v sz cap)
    then show ?thesis using request_return_cap(1) [OF assms(2) [unfolded C_window_create]] success_hndl [of c Re_WindowCreate cap] by (simp add: defs del: invocation_label.simps)
  next
    case (C_obj_create nm sz rs at cap)
    then show ?thesis using request_return_cap(2) [OF assms(2) [unfolded C_obj_create]] success_hndl [of c Re_ObjCreate cap] by (simp add: defs del: invocation_label.simps)
  next
    case (C_obj_open name rs cap)
    then show ?thesis using request_return_cap(3) [OF assms(2) [unfolded C_obj_open]] success_hndl [of c Re_ObjOpen cap] by (simp add: defs del: invocation_label.simps)
  next
    case (C_view w h i j n rs)
    then show ?thesis
      by (auto simp: defs success_def delivered_def mk_msginfo_def
          intro!: exI [of _ "Re_View (msg_regs (cl_ipc cl1) 0)"] exI [of _ "cl_ipc cl1"] simp del: invocation_label.simps)
  next
    case (C_obj_stat h)
    then show ?thesis
      by (auto simp: defs success_def delivered_def mk_msginfo_def
          intro!: exI [of _ "Re_ObjStat \<lparr>st_size = of_nat (length demo_file), st_paddr = None\<rparr>"] exI [of _ "cl_ipc cl1"] simp del: invocation_label.simps)
  qed (use assms(1) in \<open>auto simp: defs asked_def plain split: if_splits simp del: invocation_label.simps\<close>)
qed

definition demo_vmem :: vmem where
  "demo_vmem = mem_write 0x8FFFFF00 [97, 0, 98, 0] small_vmem"

definition demo_runtime :: runtime where
  "demo_runtime = small_runtime\<lparr>rt_args := Some \<lparr>ai_inner = [0x8FFFFF00, 0x8FFFFF02] @ replicate 30 0, ai_size = 2, ai_index = 0\<rparr>\<rparr>"

definition demo_elf :: elf_file where
  "demo_elf = \<lparr>elf_segments = Some [(\<lparr>ph_type = PT_LOAD, ph_flags = PF_R, ph_vaddr = 0x400000, ph_filesz = 2, ph_memsz = 5\<rparr>, Some [1, 2])],
     elf_entry = 0x400000\<rparr>"

definition demo_loader :: "unit loader" where
  "demo_loader = \<lparr>ld_client = \<lparr>cl_ipc = \<lparr>msg_regs = (\<lambda>_. 0), caps_or_badges = (\<lambda>_. 0), recv_slot = slot_at 0\<rparr>, cl_buf = Some (replicate 4096 0),
     cl_cspace = snd run_main_cspace, cl_kern = ((), demo_vmem)\<rparr>, ld_fs_buf = None\<rparr>"

lemma main_cspace: "ucs_inv (snd run_main_cspace)" "ucs_used (snd run_main_cspace) = {0, 1, 2}"
proof -
  have step: "\<exists>t. ucs_alloc_slot cs = (Ok n, t) \<and> ucs_inv t \<and> ucs_used t = {..<Suc n}"
    if "ucs_inv cs" "ucs_used cs = {..<n}" "n < 256" for cs n
  proof (cases rule: ucs_alloc_cases [OF that(1)])
    case 1
    then show ?thesis using that by (metis lessThan_eq_iff nat_neq_iff)
  next
    case (2 i cs')
    then have "i = n" using that(2) by (metis lessThan_iff linorder_neqE_nat less_irrefl)
    then show ?thesis using 2 that(2) by (simp add: lessThan_Suc)
  qed
  obtain c1 where 1: "ucs_alloc_slot (ucs_new SMOS_CNodeSelf) = (Ok 0, c1)" "ucs_inv c1" "ucs_used c1 = {..<Suc 0}"
    using step [of "ucs_new SMOS_CNodeSelf" 0] by auto
  obtain c2 where 2: "ucs_alloc_slot c1 = (Ok (Suc 0), c2)" "ucs_inv c2" "ucs_used c2 = {..<Suc (Suc 0)}"
    using step [OF 1(2,3)] by auto
  obtain c3 where 3: "ucs_alloc_slot c2 = (Ok (Suc (Suc 0)), c3)" "ucs_inv c3" "ucs_used c3 = {..<Suc (Suc (Suc 0))}"
    using step [OF 2(2,3)] by auto
  have "SMOS_CapNull = 0" "SMOS_RootServerEP = Suc 0" "SMOS_CNodeSelf = Suc (Suc 0)" by (simp_all add: const_defs)
  then have "snd run_main_cspace = c3"
    using 1(1) 2(1) 3(1) by (simp add: run_main_cspace_def bnd_def expect_def on_err_def ensure_def ret_def)
  moreover have "{..<Suc (Suc (Suc 0))} = {0, 1, 2}" by (auto simp: less_Suc_eq)
  ultimately show "ucs_inv (snd run_main_cspace)" "ucs_used (snd run_main_cspace) = {0, 1, 2}"
    using 3(2,3) by (simp_all only:)
qed

lemma demo_args: "args_collect demo_vmem demo_runtime = Ok [[97], [98]]"
proof -
  have e: "holds demo_vmem 0x8FFFFFE8 (words [0xA0001000, 0xA0000000, 0x90000000])"
    using mem_write_holds [of "0x8FFFFFE8" "words [0xA0001000, 0xA0000000, 0x90000000]" "\<lambda>_. 0"]
    unfolding demo_vmem_def small_vmem_def by (rule holds_within [OF _ mem_write_within]) simp
  have st: "stack_top demo_vmem demo_runtime = (Ok 0x90000000 :: (unit, nat) outcome)"
    using mem_u64_words [OF e, of 2] by (simp add: stack_top_def const_defs demo_runtime_def small_runtime_def env_value_run)
  have h: "holds demo_vmem 0x8FFFFF00 [97, 0, 98, 0]" unfolding demo_vmem_def by (rule mem_write_holds)
  have p: "list_all2 (placed demo_vmem 0x8FFFFF00 0x90000000) [0x8FFFFF00, 0x8FFFFF02] [[97], [98]]"
    using h holds_append [of demo_vmem "0x8FFFFF00" "[97, 0]" "[98, 0]"] by (simp add: placed_def)
  have c: "\<forall>a\<in>set [[97], [98 :: u8]]. c_str a" by (simp add: c_str_def)
  show ?thesis
    using args_rest_run [OF st p _ c, of 0 "replicate 30 0"]
    by (simp add: args_collect_def demo_runtime_def small_runtime_def numeral_2_eq_2 [symmetric])
qed

lemma demo_has_file: "has_file yes_call demo_file"
  unfolding has_file_def
proof (intro conjI allI impI)
  fix slot :: cptr and cl :: "(unit \<times> vmem) client" and mi cl1
  assume "slot \<noteq> SMOS_RootServerEP"
  then have ask: "asked slot (C_obj_stat h)" "asked slot (C_view w h 0 0 n rs)" for h w n rs by (simp_all add: asked_def)
  show "msg_regs (cl_ipc (snd (yes_call slot mi cl1))) 0 = of_nat (length demo_file)"
    if "request (C_obj_stat h) cl = (Ok mi, cl1)" for h
    using request_label [OF that ask(1)] by (simp add: yes_call_def label_eq del: invocation_label.simps)
  show "mem_read (snd (cl_kern (snd (yes_call slot mi cl1)))) ELF_BASE (length demo_file) = demo_file"
    if "request (C_view w h 0 0 (of_nat (length demo_file)) rs) cl = (Ok mi, cl1)" for w h rs
    using request_label [OF that ask(2)] \<open>slot \<noteq> SMOS_RootServerEP\<close>
    by (simp add: yes_call_def label_eq mem_write_holds [unfolded holds_def] del: invocation_label.simps)
qed (simp add: demo_file_def)

theorem loader_completes_witness:
  "\<exists>sp t. load_program yes_call yes_kernel (\<lambda>bs. if bs = demo_file then Some demo_elf else None) demo_runtime demo_loader =
      (Ok (0x400000, sp), t) \<and> ucs_used (csp t) = {0, 1, 2}"
proof -
  have g: "grants yes_call yes_kernel"
    using yes_success by (auto simp: grants_def yes_call_def yes_kernel_def)
  have "loadable (\<lparr>ph_type = PT_LOAD, ph_flags = PF_R, ph_vaddr = 0x400000, ph_filesz = 2, ph_memsz = 5\<rparr>, Some [1, 2])"
    by (simp add: loadable_def total_size_def add_us_def const_defs BIT_def)
  moreover have e: "env_started demo_runtime" by (simp add: env_started_def demo_runtime_def small_runtime_def const_defs)
  ultimately have "can_load (\<lambda>bs. if bs = demo_file then Some demo_elf else None) demo_file demo_elf demo_runtime [[97], [98]] demo_loader"
    by (simp add: can_load_def demo_elf_def demo_loader_def ld_mem_def demo_args csp_def strings_len_def const_defs BIT_def e main_cspace)
  from loader_completes [OF g demo_has_file this] main_cspace(2) show ?thesis by (simp add: demo_elf_def demo_loader_def csp_def)
qed

end
