(* ===== verification/Spec2Isabelle.thy ===== *)
theory Spec2Isabelle
  imports Rpc Process_Facts Window_Facts Boot_FS_Facts Root_Start Loader_Runs
begin

text \<open>
  A model of SMOS, an operating system for the seL4 microkernel, and the theorems about it.  All
  sources are Rust, under \<open>src/crates\<close>.

  \<^bold>\<open>The program.\<close>  The root server (\<open>root_server\<close>) owns all memory and capabilities.  It starts
  processes, keeps their windows (address ranges), memory objects and views (an object, or a server's
  memory, seen through a window), resolves page faults, forwards interrupts as notifications and
  brokers connections between processes.  A process calls it, and other servers, over seL4 endpoints:
  the client's stub (\<open>smos-common\<close>) writes message registers, capability slots and a shared page, the
  server's library (\<open>smos-server\<close>) decodes them, and the reply goes back the same way.  The boot file
  server (\<open>boot_file_server\<close>) is such a server: it shows the programs of the boot image as
  objects and serves the page faults in their views itself.

  \<^bold>\<open>Theories and sources.\<close>
    \<^item> \<open>Smos_Prelude\<close>: Rust's results and panics (\<open>outcome\<close>: \<open>Ok\<close>, \<open>Err\<close>, \<open>Panic\<close>), state-passing
      operations (\<open>bnd\<close>, \<open>on_err\<close>, \<open>seq\<close>), checked \<open>usize\<close> arithmetic, vectors, and the page and
      rounding functions (\<open>smos-common/src/util.rs\<close>, \<open>root_server/src/page.rs\<close>, \<open>util.rs\<close>).
    \<^item> \<open>Kernel\<close>: the kernel calls the sources make, a record of parameters.
    \<^item> \<open>Protocol\<close>, \<open>Rust_Str\<close>: labels, errors, handles, messages, strings (\<open>smos-common\<close>).
      \<open>Client\<close>: the stubs of \<open>smos-common/src/syscall.rs\<close>.  \<open>Invocation\<close>, \<open>Reply\<close>, \<open>Event\<close>,
      \<open>Handles\<close>, \<open>Ntfn_Buffer\<close>: decoder, answers, badges, handle tables and notification messages of
      \<open>smos-server\<close>.  \<open>Rpc\<close> composes client, kernel and server.
    \<^item> \<open>Bitfield\<close>, \<open>Slot_Allocator\<close>, \<open>User_CSpace\<close>, \<open>CSpace\<close>: the \<open>bitfield\<close> crate, the contract of
      a slot allocator (a locale), and its providers \<open>smos-cspace\<close> and \<open>root_server/src/cspace.rs\<close>.
    \<^item> \<open>Untyped\<close> (\<open>ut.rs\<close>, \<open>mapping.rs\<close>, \<open>util.rs\<close>), \<open>Frame_Table\<close> (\<open>frame_table.rs\<close>),
      \<open>IRQ\<close> (\<open>irq.rs\<close>), \<open>Page_Tables\<close> (the four-level tables of \<open>object.rs\<close> and \<open>view.rs\<close>).
    \<^item> \<open>Root_State\<close>: the structures the handlers share; \<open>Views\<close> (\<open>window.rs\<close>, \<open>view.rs\<close>, \<open>object.rs\<close>,
      \<open>dma.rs\<close>), \<open>VM\<close> (\<open>vm.rs\<close>, \<open>fault.rs\<close>), \<open>Connections\<close> (\<open>connection.rs\<close>), \<open>Elf_Load\<close>
      (\<open>elf_load.rs\<close>), \<open>Processes\<close> (\<open>proc.rs\<close>), \<open>System\<close> (\<open>syscall.rs\<close> and the loop of \<open>main.rs\<close>).
    \<^item> \<open>Small_World\<close>: a concrete root server in which the witnesses compute.
    \<^item> \<open>Root_Frame\<close>, \<open>Root_Types\<close>, \<open>Root_Safe\<close>, \<open>Root_Handlers\<close>, \<open>Process_Facts\<close>, \<open>VM_Facts\<close>,
      \<open>Window_Facts\<close>: the lemmas on the root server's handlers.
    \<^item> \<open>Boot_FS\<close>, \<open>Boot_FS_Facts\<close>: \<open>boot_file_server/src/main.rs\<close>.
    \<^item> \<open>Bootstrap\<close>: the root server's start-up, \<open>bootstrap.rs\<close> and the DMA pool's \<open>new\<close> in \<open>dma.rs\<close>;
      \<open>Bootstrap_Facts\<close> has its loops, \<open>Root_Start\<close> the whole start and a boot of a small machine.
    \<^item> \<open>Runtime\<close>: the arguments, environment and entry point of a process (\<open>smos-runtime\<close>); \<open>Loader\<close>: the
      program that loads every other one into itself (\<open>smos-loader\<close>), \<open>Loader_Facts\<close> its stack and windows,
      \<open>Loader_Slots\<close> its capability slots, \<open>Loader_Runs\<close> its whole run.

  \<^bold>\<open>Conventions.\<close>  A Rust function is a definition of its name over the state it changes; a method that
  can fail or panic returns an \<open>outcome\<close>, and an early return with \<open>?\<close> is \<open>bnd\<close>.  \<open>u64\<close> bit
  patterns are 64-bit words, \<open>usize\<close> quantities naturals below \<open>2 ^ 64\<close> with the debug build's overflow
  panics written out.  The root server's \<open>Rc<RefCell<_>>\<close> cells are numbers and a store maps them to
  their contents; the intrusive lists of untypeds and frames are maps from addresses and indices.

  \<^bold>\<open>What the lemmas show.\<close>
    \<^item> Messages: the round trip of every request and answer, what the receive slot holds afterwards, which
      messages make the decoder panic, the two calls whose answer the code cannot send.
    \<^item> Allocators: slots, badge bits, handles, untypeds and frames are handed out once, found again after
      they are freed, and the tables behave as maps.  An object allocation that fails has put its untyped
      back at the front of its list and its slot back (\<open>alloc_retype_owns\<close>); a registration mints a
      capability whose badge names its bit, and a failing one restores the books
      (\<open>badges_identify_sources\<close>, \<open>registration_books\<close>).
    \<^item> Root server: every reachable state is typed (\<open>reachable_states_typed\<close>): a reference leads to a cell
      of its kind.  Along every run of invocations (\<open>serves\<close>) the assertions in the code hold
      (\<open>view_assertions_hold\<close>).  On that rest the functional descriptions of page
      faults (which page is mapped, from which frame, with which rights), of views, of the overlap
      check, of a destroyed window and of the end of a process.
    \<^item> Start-up: from the bootinfo the kernel hands over, the slots and memory counted are the slots and
      memory used, so the start ends without a panic; what the new allocator and DMA pool then cover.
    \<^item> Loader: the new program's runtime reads what the loader wrote; with servers that answer its requests
      with success in the form of \<open>handle_reply\<close>, and show the bytes of an executable that fits, it
      reaches its jump and has given back all it allocated.
    \<^item> Boot file server: the books of views and handles are kept by every invocation and notification.

  \<^bold>\<open>Loops and bounds.\<close>  The recursions over lists, levels (four page-table levels, counted down) and bit
  numbers are structural or have a measure.  Three loops of the sources need fuel: the retype loops of the start, for
  which the number of objects is enough, \<open>handle_irq_loop\<close>, of which it is shown that no fuel is enough (\<open>handle_irq_diverges\<close>: the source never leaves it), and the boot file
  server's \<open>handle_notification\<close>, for which any fuel above the number of queued messages gives the same
  result (\<open>notifications_drained\<close>).  The servers' outer loops run for ever; the model has one round of them
  (\<open>syscall_round\<close>, \<open>fs_round\<close>) and sequences of rounds.

  \<^bold>\<open>Parameters.\<close>  The kernel (\<open>sel4\<close>), \<open>seL4_Call\<close> on an endpoint in the client programs, the ring buffer of notification messages, the ELF parser, the
  \<open>offset_allocator\<close> package, the interrupt call-backs and the contents of other processes' memory are
  arguments of the definitions; hypotheses about them are those of the theorems that use them.

  \<^bold>\<open>Not modelled.\<close>  The root server's clock (\<open>clock.rs\<close>), UART, heap, stack and printing; the borrow flags of \<open>RefCell\<close> (a double borrow panics in the source); the
  sDDF set-up library, and the drivers, virtualisers and
  applications built on it, which are glue to C libraries that are not in the repository.
\<close>

end
